(* ===== verification/Prelude.thy ===== *)
theory Prelude
  imports Main "HOL-Library.Char_ord" "HOL-Library.List_Lexorder"
begin

text \<open>
  Shared vocabulary of the development: the result type of fallible Rust functions, Rust
  string helpers over byte lists, tables of rows with the handful of SQL shapes the storage
  layer uses, the row-value cursor order of keyset pagination, and the two generic contracts
  (text enums and life-cycle graphs) that several components interpret.

  A Rust \<open>String\<close> is a \<open>string\<close>, that is, its list of UTF-8 bytes; SQLite's default
  collation compares those bytes, which is the order of \<open>List_Lexorder\<close> over
  \<open>Char_ord\<close>. An \<open>i64\<close> is an \<open>int\<close>.
\<close>

named_theorems res_simps "unfolding of the result combinators"
named_theorems row_simps "how the table operations act on membership, counting and lookup"

section \<open>Results\<close>

text \<open>\<open>Result<A, E>\<close> is \<open>E + A\<close>; \<open>rbind\<close> is the \<open>?\<close> operator.\<close>

definition rbind :: "'e + 'a \<Rightarrow> ('a \<Rightarrow> 'e + 'b) \<Rightarrow> 'e + 'b" where
  "rbind m f = (case m of Inl e \<Rightarrow> Inl e | Inr x \<Rightarrow> f x)"

definition require :: "bool \<Rightarrow> 'e \<Rightarrow> 'e + unit" where
  "require c e = (if c then Inr () else Inl e)"

fun ok_or :: "'a option \<Rightarrow> 'e \<Rightarrow> 'e + 'a" where
  "ok_or None e = Inl e"
| "ok_or (Some x) e = Inr x"

definition map_err :: "('e \<Rightarrow> 'f) \<Rightarrow> 'e + 'a \<Rightarrow> 'f + 'a" where
  "map_err g m = (case m of Inl e \<Rightarrow> Inl (g e) | Inr x \<Rightarrow> Inr x)"

lemma rbind_simps [simp]:
  "rbind (Inl e) f = Inl e"
  "rbind (Inr x) f = f x"
  by (simp_all add: rbind_def)

lemma rbind_Inr_iff [res_simps]: "(rbind m f = Inr y) = (\<exists>x. m = Inr x \<and> f x = Inr y)"
  by (cases m) auto

lemma rbind_Inl_iff: "(rbind m f = Inl e) = (m = Inl e \<or> (\<exists>x. m = Inr x \<and> f x = Inl e))"
  by (cases m) auto

lemma require_iff [res_simps]:
  "(require c e = Inr u) = c"
  "(require c e = Inl e') = (\<not> c \<and> e' = e)"
  by (auto simp: require_def)

lemma require_True [simp]: "require True e = Inr ()"
  by (simp add: require_def)

lemma require_False [simp]: "require False e = Inl e"
  by (simp add: require_def)

lemma ok_or_iff [res_simps]:
  "(ok_or m e = Inr x) = (m = Some x)"
  "(ok_or m e = Inl e') = (m = None \<and> e' = e)"
  by (cases m; auto)+

lemma map_err_iff [res_simps]:
  "(map_err g m = Inr x) = (m = Inr x)"
  "(map_err g m = Inl e) = (\<exists>e'. m = Inl e' \<and> e = g e')"
  by (cases m; auto simp: map_err_def)+

text \<open>Folding a fallible step over a list: a Rust loop whose body uses \<open>?\<close>.\<close>

fun rfold :: "('a \<Rightarrow> 's \<Rightarrow> 'e + 's) \<Rightarrow> 'a list \<Rightarrow> 's \<Rightarrow> 'e + 's" where
  "rfold f [] s = Inr s"
| "rfold f (x # xs) s = rbind (f x s) (rfold f xs)"

lemma rfold_invariant:
  assumes step: "\<And>x s s'. x \<in> set xs \<Longrightarrow> P s \<Longrightarrow> f x s = Inr s' \<Longrightarrow> P s'"
    and "P s" "rfold f xs s = Inr s'"
  shows "P s'"
  using assms
proof (induction xs arbitrary: s)
  case Nil
  then show ?case by simp
next
  case (Cons x xs)
  from Cons.prems(3) obtain t where t: "f x s = Inr t" "rfold f xs t = Inr s'"
    by (auto simp: res_simps)
  have "P t" using Cons.prems(1) [of x s t] Cons.prems(2) t(1) by simp
  show ?case
  proof (rule Cons.IH)
    show "P t" by (rule \<open>P t\<close>)
    show "rfold f xs t = Inr s'" by (rule t(2))
  qed (use Cons.prems(1) in auto)
qed

text \<open>Collecting the rows of a query whose row mapper may fail.\<close>

fun rmap :: "('a \<Rightarrow> 'e + 'b) \<Rightarrow> 'a list \<Rightarrow> 'e + 'b list" where
  "rmap f [] = Inr []"
| "rmap f (x # xs) = rbind (f x) (\<lambda>y. rbind (rmap f xs) (\<lambda>ys. Inr (y # ys)))"

lemma rmap_Inr: "(\<And>x. x \<in> set xs \<Longrightarrow> f x = Inr (g x)) \<Longrightarrow> rmap f xs = Inr (map g xs)"
  by (induction xs) auto

lemma rmap_Inr_length: "rmap f xs = Inr ys \<Longrightarrow> length ys = length xs"
  by (induction xs arbitrary: ys) (auto simp: res_simps)

lemma rmap_total: "(\<And>x. x \<in> set xs \<Longrightarrow> \<exists>y. f x = Inr y) \<Longrightarrow> \<exists>ys. rmap f xs = Inr ys"
  by (induction xs) (auto, fastforce)

lemma rmap_member: "rmap f xs = Inr ys \<Longrightarrow> y \<in> set ys \<Longrightarrow> \<exists>x \<in> set xs. f x = Inr y"
  by (induction xs arbitrary: ys) (auto simp: res_simps)

lemma rmap_Inr_nth: "rmap f xs = Inr ys \<Longrightarrow> list_all2 (\<lambda>x y. f x = Inr y) xs ys"
  by (induction xs arbitrary: ys) (auto simp: res_simps)

section \<open>Strings\<close>

text \<open>The \<open>Debug\<close> output of text, as error messages quote it.\<close>

fun debug_char :: "char \<Rightarrow> string" where
  "debug_char c =
     (if c = CHR 0x22 then [CHR 0x5C, CHR 0x22]
      else if c = CHR 0x5C then [CHR 0x5C, CHR 0x5C]
      else if c = CHR 0x0A then [CHR 0x5C, CHR ''n'']
      else if c = CHR 0x0D then [CHR 0x5C, CHR ''r'']
      else if c = CHR 0x09 then [CHR 0x5C, CHR ''t'']
      else [c])"

definition debug_string :: "string \<Rightarrow> string" where
  "debug_string s = [CHR 0x22] @ concat (map debug_char s) @ [CHR 0x22]"

definition digit_char :: "nat \<Rightarrow> char" where
  "digit_char n = char_of (48 + n)"

fun show_nat :: "nat \<Rightarrow> string" where
  "show_nat n = (if n < 10 then [digit_char n] else show_nat (n div 10) @ [digit_char (n mod 10)])"

declare show_nat.simps [simp del]

definition show_int :: "int \<Rightarrow> string" where
  "show_int i = (if i < 0 then ''-'' @ show_nat (nat (- i)) else show_nat (nat i))"

text \<open>\<open>str::strip_prefix\<close>, \<open>str::strip_suffix\<close>, \<open>starts_with\<close>, \<open>ends_with\<close>.\<close>

fun strip_prefix :: "'c list \<Rightarrow> 'c list \<Rightarrow> 'c list option" where
  "strip_prefix [] s = Some s"
| "strip_prefix (p # ps) [] = None"
| "strip_prefix (p # ps) (c # cs) = (if p = c then strip_prefix ps cs else None)"

definition strip_suffix :: "'c list \<Rightarrow> 'c list \<Rightarrow> 'c list option" where
  "strip_suffix p s = map_option rev (strip_prefix (rev p) (rev s))"

definition starts_with :: "'c list \<Rightarrow> 'c list \<Rightarrow> bool" where
  "starts_with p s = (strip_prefix p s \<noteq> None)"

definition ends_with :: "'c list \<Rightarrow> 'c list \<Rightarrow> bool" where
  "ends_with p s = (strip_suffix p s \<noteq> None)"

lemma strip_prefix_append [simp]: "strip_prefix p (p @ s) = Some s"
  by (induction p) auto

lemma strip_prefix_Some_iff: "(strip_prefix p s = Some t) = (s = p @ t)"
  by (induction p s rule: strip_prefix.induct) auto

lemma strip_suffix_append [simp]: "strip_suffix p (s @ p) = Some s"
  by (simp add: strip_suffix_def)

lemma strip_suffix_Some_iff: "(strip_suffix p s = Some t) = (s = t @ p)"
proof -
  have "(strip_suffix p s = Some t) = (strip_prefix (rev p) (rev s) = Some (rev t))"
    by (auto simp: strip_suffix_def)
  also have "\<dots> = (rev s = rev p @ rev t)" by (rule strip_prefix_Some_iff)
  also have "\<dots> = (s = t @ p)" by (metis rev_append rev_rev_ident)
  finally show ?thesis .
qed

lemma starts_with_iff: "starts_with p s = (\<exists>t. s = p @ t)"
  using strip_prefix_Some_iff [of p s] by (cases "strip_prefix p s") (auto simp: starts_with_def)

lemma ends_with_iff: "ends_with p s = (\<exists>t. s = t @ p)"
  using strip_suffix_Some_iff [of p s] by (cases "strip_suffix p s") (auto simp: ends_with_def)

text \<open>\<open>slice::join\<close> and \<open>str::split_once(c)\<close>.\<close>

fun join_with :: "string \<Rightarrow> string list \<Rightarrow> string" where
  "join_with sep [] = []"
| "join_with sep [x] = x"
| "join_with sep (x # y # xs) = x @ sep @ join_with sep (y # xs)"

fun split_once :: "'c \<Rightarrow> 'c list \<Rightarrow> ('c list \<times> 'c list) option" where
  "split_once c [] = None"
| "split_once c (x # xs) =
     (if x = c then Some ([], xs)
      else map_option (\<lambda>(a, b). (x # a, b)) (split_once c xs))"

lemma split_once_None_iff [simp]: "(split_once c s = None) = (c \<notin> set s)"
  by (induction s) auto

lemma split_once_append [simp]: "c \<notin> set a \<Longrightarrow> split_once c (a @ c # b) = Some (a, b)"
  by (induction a) auto

lemma split_once_Some_iff: "(split_once c s = Some (a, b)) = (s = a @ c # b \<and> c \<notin> set a)"
proof
  show "s = a @ c # b \<and> c \<notin> set a \<Longrightarrow> split_once c s = Some (a, b)" by simp
  show "split_once c s = Some (a, b) \<Longrightarrow> s = a @ c # b \<and> c \<notin> set a"
    by (induction s arbitrary: a) (auto split: if_splits)
qed

section \<open>Tables\<close>

text \<open>
  A table is the list of its rows in insertion (rowid) order. The storage layer uses only
  these statements: \<open>SELECT ... WHERE\<close> (a filter), \<open>query_row(...).optional()\<close> (the first
  row that matches), \<open>SELECT COUNT(*)\<close>, \<open>UPDATE ... WHERE\<close>, \<open>INSERT\<close> and
  \<open>DELETE ... WHERE\<close>.
\<close>

definition find_row :: "('r \<Rightarrow> bool) \<Rightarrow> 'r list \<Rightarrow> 'r option" where
  "find_row P t = List.find P t"

definition count_rows :: "('r \<Rightarrow> bool) \<Rightarrow> 'r list \<Rightarrow> int" where
  "count_rows P t = int (length (filter P t))"

definition exists_row :: "('r \<Rightarrow> bool) \<Rightarrow> 'r list \<Rightarrow> bool" where
  "exists_row P t = list_ex P t"

definition update_rows :: "('r \<Rightarrow> bool) \<Rightarrow> ('r \<Rightarrow> 'r) \<Rightarrow> 'r list \<Rightarrow> 'r list" where
  "update_rows P f t = map (\<lambda>r. if P r then f r else r) t"

definition insert_row :: "'r \<Rightarrow> 'r list \<Rightarrow> 'r list" where
  "insert_row r t = t @ [r]"

definition delete_rows :: "('r \<Rightarrow> bool) \<Rightarrow> 'r list \<Rightarrow> 'r list" where
  "delete_rows P t = filter (\<lambda>r. \<not> P r) t"

lemma find_row_Some: "find_row P t = Some r \<Longrightarrow> r \<in> set t \<and> P r"
  by (auto simp: find_row_def find_Some_iff)

lemma find_row_None_iff: "(find_row P t = None) = (\<forall>r \<in> set t. \<not> P r)"
  by (auto simp: find_row_def find_None_iff)

lemma find_row_simps [simp]:
  "find_row P [] = None"
  "find_row P (r # t) = (if P r then Some r else find_row P t)"
  by (simp_all add: find_row_def)

lemma find_row_append:
  "find_row P (s @ t) = (case find_row P s of Some r \<Rightarrow> Some r | None \<Rightarrow> find_row P t)"
  by (induction s) auto

lemma exists_row_iff [row_simps]: "exists_row P t = (\<exists>r \<in> set t. P r)"
  by (auto simp: exists_row_def list_ex_iff)

lemma count_rows_simps [simp]:
  "count_rows P [] = 0"
  "count_rows P (r # t) = (if P r then 1 else 0) + count_rows P t"
  by (simp_all add: count_rows_def)

lemma count_rows_append [simp]: "count_rows P (s @ t) = count_rows P s + count_rows P t"
  by (simp add: count_rows_def)

lemma count_rows_nonneg [simp]: "0 \<le> count_rows P t"
  by (simp add: count_rows_def)

lemma count_rows_zero_iff: "(count_rows P t = 0) = (\<forall>r \<in> set t. \<not> P r)"
  by (auto simp: count_rows_def filter_empty_conv)

lemma count_rows_pos_iff: "(0 < count_rows P t) = (\<exists>r \<in> set t. P r)"
  using count_rows_zero_iff [of P t] count_rows_nonneg [of P t] by (metis less_le)

lemma count_rows_mono: "(\<And>r. r \<in> set t \<Longrightarrow> P r \<Longrightarrow> Q r) \<Longrightarrow> count_rows P t \<le> count_rows Q t"
  by (induction t) auto

lemma count_rows_update_le:
  assumes "\<And>r. r \<in> set t \<Longrightarrow> U r \<Longrightarrow> P (f r) \<Longrightarrow> P r"
  shows "count_rows P (update_rows U f t) \<le> count_rows P t"
  using assms by (induction t) (auto simp: update_rows_def)

lemma update_rows_simps [simp]:
  "update_rows P f [] = []"
  "update_rows P f (r # t) = (if P r then f r else r) # update_rows P f t"
  by (simp_all add: update_rows_def)

lemma length_update_rows [simp]: "length (update_rows P f t) = length t"
  by (simp add: update_rows_def)

lemma set_update_rows [row_simps]:
  "set (update_rows P f t) = (\<lambda>r. if P r then f r else r) ` set t"
  by (simp add: update_rows_def)

lemma set_insert_row [row_simps]: "set (insert_row r t) = insert r (set t)"
  by (auto simp: insert_row_def)

lemma set_delete_rows [row_simps]: "set (delete_rows P t) = {r \<in> set t. \<not> P r}"
  by (auto simp: delete_rows_def)

lemma update_rows_none: "(\<And>r. r \<in> set t \<Longrightarrow> \<not> P r) \<Longrightarrow> update_rows P f t = t"
  by (induction t) auto

lemma map_key_update_rows:
  "(\<And>r. P r \<Longrightarrow> key (f r) = key r) \<Longrightarrow> map key (update_rows P f t) = map key t"
  by (induction t) auto

lemma exists_key_iff: "exists_row (\<lambda>r. key r = k) t = (k \<in> set (map key t))"
  by (auto simp: row_simps)

lemma map_key_replace:
  "key x = k \<Longrightarrow> map key (update_rows (\<lambda>r. key r = k) (\<lambda>_. x) t) = map key t"
  by (induction t) auto

text \<open>Looking a row up by its unique key, after an update of the row with some key.\<close>

lemma find_key_update_rows:
  assumes "\<And>r. key (f r) = key r"
  shows "find_row (\<lambda>r. key r = k) (update_rows (\<lambda>r. key r = j) f t) =
    (if k = j then map_option f (find_row (\<lambda>r. key r = k) t)
     else find_row (\<lambda>r. key r = k) t)"
  using assms by (induction t) auto

lemma find_key_insert_row:
  "find_row (\<lambda>r. key r = k) (insert_row x t) =
    (case find_row (\<lambda>r. key r = k) t of Some r \<Rightarrow> Some r
     | None \<Rightarrow> if key x = k then Some x else None)"
  by (simp add: insert_row_def find_row_append split: option.split)

lemma find_row_update_other:
  assumes "\<And>r. U r \<Longrightarrow> P (f r) = P r"
  shows "find_row P (update_rows U f t) = map_option (\<lambda>r. if U r then f r else r) (find_row P t)"
  using assms by (induction t) auto

lemma find_key_unique:
  assumes "distinct (map key t)" "r \<in> set t"
  shows "find_row (\<lambda>x. key x = key r) t = Some r"
  using assms by (induction t) (auto simp: rev_image_eqI)

lemma distinct_map_delete_rows: "distinct (map key t) \<Longrightarrow> distinct (map key (delete_rows P t))"
  by (simp add: delete_rows_def distinct_map_filter)

section \<open>Keyset cursors\<close>

text \<open>
  The row values \<open>(accepted_at, turn_id)\<close>, \<open>(started_at, id)\<close> and \<open>(cursor_at, cursor_id)\<close>
  that SQLite compares lexicographically.
\<close>

datatype cursor = Cursor (cursor_at: string) (cursor_id: string)

instantiation cursor :: linorder
begin

definition less_eq_cursor :: "cursor \<Rightarrow> cursor \<Rightarrow> bool" where
  "less_eq_cursor a b =
     (cursor_at a < cursor_at b \<or> (cursor_at a = cursor_at b \<and> cursor_id a \<le> cursor_id b))"

definition less_cursor :: "cursor \<Rightarrow> cursor \<Rightarrow> bool" where
  "less_cursor a b =
     (cursor_at a < cursor_at b \<or> (cursor_at a = cursor_at b \<and> cursor_id a < cursor_id b))"

instance
proof
  fix a b c :: cursor
  show "(a < b) = (a \<le> b \<and> \<not> b \<le> a)"
    by (auto simp: less_eq_cursor_def less_cursor_def)
  show "a \<le> a" by (simp add: less_eq_cursor_def)
  show "a \<le> b \<Longrightarrow> b \<le> c \<Longrightarrow> a \<le> c" by (auto simp: less_eq_cursor_def)
  show "a \<le> b \<Longrightarrow> b \<le> a \<Longrightarrow> a = b"
    by (cases a; cases b) (auto simp: less_eq_cursor_def)
  show "a \<le> b \<or> b \<le> a" by (auto simp: less_eq_cursor_def)
qed

end

section \<open>Text enums\<close>

text \<open>
  The contract of the \<open>define_enum!\<close> macro: every enum stored in a text column is written
  with its display string and read back by matching that string against the variants.
\<close>

definition enum_from_str :: "string \<Rightarrow> ('a \<Rightarrow> string) \<Rightarrow> 'a list \<Rightarrow> string \<Rightarrow> string + 'a" where
  "enum_from_str ename display variants s =
     ok_or (List.find (\<lambda>v. display v = s) variants) (''invalid '' @ ename @ '': '' @ s)"

locale text_enum =
  fixes ename :: string
    and display :: "'a \<Rightarrow> string"
    and variants :: "'a list"
  assumes display_inj: "display v = display w \<Longrightarrow> v = w"
    and variants_all: "v \<in> set variants"
begin

lemma from_str_display: "enum_from_str ename display variants (display v) = Inr v"
proof -
  have "List.find (\<lambda>w. display w = display v) variants \<noteq> None"
    using variants_all [of v] by (auto simp: find_None_iff)
  then obtain w where w: "List.find (\<lambda>w. display w = display v) variants = Some w" by auto
  then have "display w = display v" by (auto simp: find_Some_iff)
  then have "w = v" by (rule display_inj)
  with w show ?thesis by (simp add: enum_from_str_def)
qed

lemma from_str_iff: "(enum_from_str ename display variants s = Inr v) = (s = display v)"
proof
  assume "enum_from_str ename display variants s = Inr v"
  then show "s = display v" by (auto simp: enum_from_str_def res_simps find_Some_iff)
next
  assume "s = display v"
  then show "enum_from_str ename display variants s = Inr v" by (simp add: from_str_display)
qed

lemma from_str_error:
  "enum_from_str ename display variants s = Inl e \<Longrightarrow> e = ''invalid '' @ ename @ '': '' @ s"
  by (auto simp: enum_from_str_def res_simps)

lemma display_eq_iff: "(display v = display w) = (v = w)"
  using display_inj by blast

end

section \<open>Life-cycle graphs\<close>

text \<open>
  A persisted state machine: which transitions its rule allows and which states are final.
  Everything a store built on such a graph promises about runs of its operations follows
  from two facts, proved once here: a final state has no way out, and no operation does
  anything to a row but keep its state or move it along the graph.
\<close>

locale lifecycle_graph =
  fixes allowed :: "'s \<Rightarrow> 's \<Rightarrow> bool"
    and final :: "'s \<Rightarrow> bool"
  assumes final_stuck: "final s \<Longrightarrow> \<not> allowed s t"
begin

lemma final_path: "allowed\<^sup>*\<^sup>* s t \<Longrightarrow> final s \<Longrightarrow> t = s"
  by (induction rule: converse_rtranclp_induct) (auto dest: final_stuck)

end

locale lifecycle_store = lifecycle_graph allowed final
  for allowed :: "'s \<Rightarrow> 's \<Rightarrow> bool" and final :: "'s \<Rightarrow> bool" +
  fixes status_of :: "'db \<Rightarrow> 'k \<Rightarrow> 's option"
    and step :: "'db \<Rightarrow> 'db \<Rightarrow> bool"
    and invar :: "'db \<Rightarrow> bool"
  assumes step_invar: "step db db' \<Longrightarrow> invar db \<Longrightarrow> invar db'"
    and step_status: "step db db' \<Longrightarrow> invar db \<Longrightarrow> status_of db k = Some s \<Longrightarrow>
      \<exists>t. status_of db' k = Some t \<and> (t = s \<or> allowed\<^sup>*\<^sup>* s t)"
begin

lemma run_invar: "step\<^sup>*\<^sup>* db db' \<Longrightarrow> invar db \<Longrightarrow> invar db'"
  by (induction rule: rtranclp_induct) (auto intro: step_invar)

lemma run_status:
  assumes "step\<^sup>*\<^sup>* db db'" "invar db" "status_of db k = Some s"
  shows "\<exists>t. status_of db' k = Some t \<and> allowed\<^sup>*\<^sup>* s t"
  using assms(1)
proof (induction rule: rtranclp_induct)
  case base
  then show ?case using assms(3) by auto
next
  case (step u v)
  then obtain t where t: "status_of u k = Some t" "allowed\<^sup>*\<^sup>* s t" by auto
  have "invar u" using step.hyps(1) assms(2) by (rule run_invar)
  with step.hyps(2) t(1) obtain w
    where "status_of v k = Some w" "w = t \<or> allowed\<^sup>*\<^sup>* t w" by (blast dest: step_status)
  with t(2) show ?case by (auto intro: rtranclp_trans)
qed

lemma run_final:
  assumes "step\<^sup>*\<^sup>* db db'" "invar db" "status_of db k = Some s" "final s"
  shows "status_of db' k = Some s"
  using run_status [OF assms(1-3)] final_path assms(4) by fastforce

end

end
