(* ===== verification/Storage_Types.thy ===== *)
theory Storage_Types
  imports Prelude
begin

text \<open>
  The types of \<open>src/src/storage/mod.rs\<close>: the enums stored in text columns with the strings
  they are written as, the error type of the storage layer (\<open>src/src/error.rs\<close>), and the
  central transition rule of a Turn. Every enum interprets the contract of the macro that
  declares it, so reading a written value back gives that value and nothing else.
\<close>

section \<open>Errors\<close>

datatype sqlite_error =
    FromSqlConversionFailure nat string
  | InvalidColumnType nat
  | QueryReturnedNoRows
  | ConstraintViolation string

datatype storage_error =
    InitFailed string
  | InvalidAsset string
  | Io string
  | TaskJoin string
  | SessionSerialize string
  | Sqlite sqlite_error
  | SessionSnapshotConflict
  | NotFound string
  | Conflict string
  | TurnSessionQueueFull
  | TurnGlobalQueueFull
  | ToolFollowupSessionCapacityFull
  | ToolFollowupScopeCapacityFull
  | ToolInputConflict string string string

text \<open>The texts of the errors; \<open>sqlite_text\<close> renders the errors of the SQLite driver.\<close>

fun storage_error_display :: "(sqlite_error \<Rightarrow> string) \<Rightarrow> storage_error \<Rightarrow> string" where
  "storage_error_display sqlite_text (InitFailed s) = ''storage_init_failed: '' @ s"
| "storage_error_display sqlite_text (InvalidAsset s) = ''storage_invalid_asset: '' @ s"
| "storage_error_display sqlite_text (Io s) = ''storage_io_failed: '' @ s"
| "storage_error_display sqlite_text (TaskJoin s) = ''storage_task_join_failed: '' @ s"
| "storage_error_display sqlite_text (SessionSerialize s) = ''storage_session_serialize_failed: '' @ s"
| "storage_error_display sqlite_text (Sqlite e) = ''storage_sqlite_failed: '' @ sqlite_text e"
| "storage_error_display sqlite_text SessionSnapshotConflict = ''storage_session_snapshot_conflict''"
| "storage_error_display sqlite_text (NotFound s) = ''storage_not_found: '' @ s"
| "storage_error_display sqlite_text (Conflict s) = ''storage_conflict: '' @ s"
| "storage_error_display sqlite_text TurnSessionQueueFull = ''storage_turn_session_queue_full''"
| "storage_error_display sqlite_text TurnGlobalQueueFull = ''storage_turn_global_queue_full''"
| "storage_error_display sqlite_text ToolFollowupSessionCapacityFull =
     ''storage_tool_followup_session_capacity_full''"
| "storage_error_display sqlite_text ToolFollowupScopeCapacityFull =
     ''storage_tool_followup_scope_capacity_full''"
| "storage_error_display sqlite_text (ToolInputConflict tool_call_id stored_hash requested_hash) =
     ''storage_tool_input_conflict: tool_call_id='' @ tool_call_id @ '' stored_hash='' @ stored_hash @
     '' requested_hash='' @ requested_hash"

text \<open>The macro \<open>parse_row_enum!\<close>: a column that does not parse fails the row.\<close>

definition parse_row_enum :: "(string \<Rightarrow> string + 'a) \<Rightarrow> nat \<Rightarrow> string \<Rightarrow> storage_error + 'a" where
  "parse_row_enum from_str idx s =
     map_err (\<lambda>e. Sqlite (FromSqlConversionFailure idx e)) (from_str s)"

lemma parse_row_enum_Inr [res_simps]: "(parse_row_enum f i s = Inr v) = (f s = Inr v)"
  by (simp add: parse_row_enum_def res_simps)

section \<open>Enums stored as text\<close>

datatype turn_run_state =
    Accepted
  | InputCommitted
  | ModelPending
  | ModelCompleted
  | ToolsPending
  | ToolsCompleted
  | Completed
  | Failed
  | Cancelled
  | Uncertain

fun turn_run_state_display :: "turn_run_state \<Rightarrow> string" where
  "turn_run_state_display Accepted = ''accepted''"
| "turn_run_state_display InputCommitted = ''input_committed''"
| "turn_run_state_display ModelPending = ''model_pending''"
| "turn_run_state_display ModelCompleted = ''model_completed''"
| "turn_run_state_display ToolsPending = ''tools_pending''"
| "turn_run_state_display ToolsCompleted = ''tools_completed''"
| "turn_run_state_display Completed = ''completed''"
| "turn_run_state_display Failed = ''failed''"
| "turn_run_state_display Cancelled = ''cancelled''"
| "turn_run_state_display Uncertain = ''uncertain''"

definition turn_run_state_variants :: "turn_run_state list" where
  "turn_run_state_variants =
     [Accepted,
      InputCommitted,
      ModelPending,
      ModelCompleted,
      ToolsPending,
      ToolsCompleted,
      Completed,
      Failed,
      Cancelled,
      Uncertain]"

definition turn_run_state_from_str :: "string \<Rightarrow> string + turn_run_state" where
  "turn_run_state_from_str = enum_from_str ''TurnRunState'' turn_run_state_display turn_run_state_variants"

interpretation trs: text_enum "''TurnRunState''" turn_run_state_display turn_run_state_variants
proof
  fix v w :: turn_run_state
  show "turn_run_state_display v = turn_run_state_display w \<Longrightarrow> v = w" by (cases v; cases w) simp_all
  show "v \<in> set turn_run_state_variants" by (cases v) (simp_all add: turn_run_state_variants_def)
qed

lemmas turn_run_state_from_str_iff [res_simps] = trs.from_str_iff [folded turn_run_state_from_str_def]

lemmas turn_run_state_from_str_display [simp] = trs.from_str_display [folded turn_run_state_from_str_def]

lemmas turn_run_state_display_eq_iff [simp] = trs.display_eq_iff

datatype tool_state =
    ToolPending
  | ToolRunning
  | ToolSucceeded
  | ToolFailed
  | ToolUncertain

fun tool_state_display :: "tool_state \<Rightarrow> string" where
  "tool_state_display ToolPending = ''pending''"
| "tool_state_display ToolRunning = ''running''"
| "tool_state_display ToolSucceeded = ''succeeded''"
| "tool_state_display ToolFailed = ''failed''"
| "tool_state_display ToolUncertain = ''uncertain''"

definition tool_state_variants :: "tool_state list" where
  "tool_state_variants =
     [ToolPending,
      ToolRunning,
      ToolSucceeded,
      ToolFailed,
      ToolUncertain]"

definition tool_state_from_str :: "string \<Rightarrow> string + tool_state" where
  "tool_state_from_str = enum_from_str ''ToolState'' tool_state_display tool_state_variants"

interpretation tls: text_enum "''ToolState''" tool_state_display tool_state_variants
proof
  fix v w :: tool_state
  show "tool_state_display v = tool_state_display w \<Longrightarrow> v = w" by (cases v; cases w) simp_all
  show "v \<in> set tool_state_variants" by (cases v) (simp_all add: tool_state_variants_def)
qed

lemmas tool_state_from_str_iff [res_simps] = tls.from_str_iff [folded tool_state_from_str_def]

lemmas tool_state_from_str_display [simp] = tls.from_str_display [folded tool_state_from_str_def]

lemmas tool_state_display_eq_iff [simp] = tls.display_eq_iff

datatype message_kind =
    MessageMsg
  | AgentSend
  | SystemEvent
  | ToolCallMsg
  | TurnFailureMsg

fun message_kind_display :: "message_kind \<Rightarrow> string" where
  "message_kind_display MessageMsg = ''message''"
| "message_kind_display AgentSend = ''agent_send''"
| "message_kind_display SystemEvent = ''system_event''"
| "message_kind_display ToolCallMsg = ''tool_call''"
| "message_kind_display TurnFailureMsg = ''turn_failure''"

definition message_kind_variants :: "message_kind list" where
  "message_kind_variants =
     [MessageMsg,
      AgentSend,
      SystemEvent,
      ToolCallMsg,
      TurnFailureMsg]"

definition message_kind_from_str :: "string \<Rightarrow> string + message_kind" where
  "message_kind_from_str = enum_from_str ''MessageKind'' message_kind_display message_kind_variants"

interpretation mkd: text_enum "''MessageKind''" message_kind_display message_kind_variants
proof
  fix v w :: message_kind
  show "message_kind_display v = message_kind_display w \<Longrightarrow> v = w" by (cases v; cases w) simp_all
  show "v \<in> set message_kind_variants" by (cases v) (simp_all add: message_kind_variants_def)
qed

lemmas message_kind_from_str_iff [res_simps] = mkd.from_str_iff [folded message_kind_from_str_def]

lemmas message_kind_from_str_display [simp] = mkd.from_str_display [folded message_kind_from_str_def]

lemmas message_kind_display_eq_iff [simp] = mkd.display_eq_iff

datatype sender_kind =
    SenderUser
  | SenderAssistant
  | SenderSystem
  | SenderTool

fun sender_kind_display :: "sender_kind \<Rightarrow> string" where
  "sender_kind_display SenderUser = ''user''"
| "sender_kind_display SenderAssistant = ''assistant''"
| "sender_kind_display SenderSystem = ''system''"
| "sender_kind_display SenderTool = ''tool''"

definition sender_kind_variants :: "sender_kind list" where
  "sender_kind_variants =
     [SenderUser,
      SenderAssistant,
      SenderSystem,
      SenderTool]"

definition sender_kind_from_str :: "string \<Rightarrow> string + sender_kind" where
  "sender_kind_from_str = enum_from_str ''SenderKind'' sender_kind_display sender_kind_variants"

interpretation skd: text_enum "''SenderKind''" sender_kind_display sender_kind_variants
proof
  fix v w :: sender_kind
  show "sender_kind_display v = sender_kind_display w \<Longrightarrow> v = w" by (cases v; cases w) simp_all
  show "v \<in> set sender_kind_variants" by (cases v) (simp_all add: sender_kind_variants_def)
qed

lemmas sender_kind_from_str_iff [res_simps] = skd.from_str_iff [folded sender_kind_from_str_def]

lemmas sender_kind_from_str_display [simp] = skd.from_str_display [folded sender_kind_from_str_def]

lemmas sender_kind_display_eq_iff [simp] = skd.display_eq_iff

datatype idempotency_class =
    ReadOnly
  | Idempotent
  | NonIdempotent

fun idempotency_class_display :: "idempotency_class \<Rightarrow> string" where
  "idempotency_class_display ReadOnly = ''read_only''"
| "idempotency_class_display Idempotent = ''idempotent''"
| "idempotency_class_display NonIdempotent = ''non_idempotent''"

definition idempotency_class_variants :: "idempotency_class list" where
  "idempotency_class_variants =
     [ReadOnly,
      Idempotent,
      NonIdempotent]"

definition idempotency_class_from_str :: "string \<Rightarrow> string + idempotency_class" where
  "idempotency_class_from_str = enum_from_str ''IdempotencyClass'' idempotency_class_display idempotency_class_variants"

interpretation idc: text_enum "''IdempotencyClass''" idempotency_class_display idempotency_class_variants
proof
  fix v w :: idempotency_class
  show "idempotency_class_display v = idempotency_class_display w \<Longrightarrow> v = w" by (cases v; cases w) simp_all
  show "v \<in> set idempotency_class_variants" by (cases v) (simp_all add: idempotency_class_variants_def)
qed

lemmas idempotency_class_from_str_iff [res_simps] = idc.from_str_iff [folded idempotency_class_from_str_def]

lemmas idempotency_class_from_str_display [simp] = idc.from_str_display [folded idempotency_class_from_str_def]

lemmas idempotency_class_display_eq_iff [simp] = idc.display_eq_iff

datatype sleep_run_status =
    SleepRunning
  | SleepSuccess
  | SleepPartialFailure
  | SleepFailed
  | SleepSkipped

fun sleep_run_status_display :: "sleep_run_status \<Rightarrow> string" where
  "sleep_run_status_display SleepRunning = ''running''"
| "sleep_run_status_display SleepSuccess = ''success''"
| "sleep_run_status_display SleepPartialFailure = ''partial_failure''"
| "sleep_run_status_display SleepFailed = ''failed''"
| "sleep_run_status_display SleepSkipped = ''skipped''"

definition sleep_run_status_variants :: "sleep_run_status list" where
  "sleep_run_status_variants =
     [SleepRunning,
      SleepSuccess,
      SleepPartialFailure,
      SleepFailed,
      SleepSkipped]"

definition sleep_run_status_from_str :: "string \<Rightarrow> string + sleep_run_status" where
  "sleep_run_status_from_str = enum_from_str ''SleepRunStatus'' sleep_run_status_display sleep_run_status_variants"

interpretation srs: text_enum "''SleepRunStatus''" sleep_run_status_display sleep_run_status_variants
proof
  fix v w :: sleep_run_status
  show "sleep_run_status_display v = sleep_run_status_display w \<Longrightarrow> v = w" by (cases v; cases w) simp_all
  show "v \<in> set sleep_run_status_variants" by (cases v) (simp_all add: sleep_run_status_variants_def)
qed

lemmas sleep_run_status_from_str_iff [res_simps] = srs.from_str_iff [folded sleep_run_status_from_str_def]

lemmas sleep_run_status_from_str_display [simp] = srs.from_str_display [folded sleep_run_status_from_str_def]

lemmas sleep_run_status_display_eq_iff [simp] = srs.display_eq_iff

datatype sleep_run_trigger =
    TriggerManual
  | TriggerScheduled
  | TriggerBackfill

fun sleep_run_trigger_display :: "sleep_run_trigger \<Rightarrow> string" where
  "sleep_run_trigger_display TriggerManual = ''manual''"
| "sleep_run_trigger_display TriggerScheduled = ''scheduled''"
| "sleep_run_trigger_display TriggerBackfill = ''backfill''"

definition sleep_run_trigger_variants :: "sleep_run_trigger list" where
  "sleep_run_trigger_variants =
     [TriggerManual,
      TriggerScheduled,
      TriggerBackfill]"

definition sleep_run_trigger_from_str :: "string \<Rightarrow> string + sleep_run_trigger" where
  "sleep_run_trigger_from_str = enum_from_str ''SleepRunTrigger'' sleep_run_trigger_display sleep_run_trigger_variants"

interpretation srt: text_enum "''SleepRunTrigger''" sleep_run_trigger_display sleep_run_trigger_variants
proof
  fix v w :: sleep_run_trigger
  show "sleep_run_trigger_display v = sleep_run_trigger_display w \<Longrightarrow> v = w" by (cases v; cases w) simp_all
  show "v \<in> set sleep_run_trigger_variants" by (cases v) (simp_all add: sleep_run_trigger_variants_def)
qed

lemmas sleep_run_trigger_from_str_iff [res_simps] = srt.from_str_iff [folded sleep_run_trigger_from_str_def]

lemmas sleep_run_trigger_from_str_display [simp] = srt.from_str_display [folded sleep_run_trigger_from_str_def]

lemmas sleep_run_trigger_display_eq_iff [simp] = srt.display_eq_iff

datatype sleep_step_name =
    EventExtraction
  | EpisodicUpdate
  | SemanticUpdate
  | ProspectiveUpdate

fun sleep_step_name_display :: "sleep_step_name \<Rightarrow> string" where
  "sleep_step_name_display EventExtraction = ''event_extraction''"
| "sleep_step_name_display EpisodicUpdate = ''episodic_update''"
| "sleep_step_name_display SemanticUpdate = ''semantic_update''"
| "sleep_step_name_display ProspectiveUpdate = ''prospective_update''"

definition sleep_step_name_variants :: "sleep_step_name list" where
  "sleep_step_name_variants =
     [EventExtraction,
      EpisodicUpdate,
      SemanticUpdate,
      ProspectiveUpdate]"

definition sleep_step_name_from_str :: "string \<Rightarrow> string + sleep_step_name" where
  "sleep_step_name_from_str = enum_from_str ''SleepStepName'' sleep_step_name_display sleep_step_name_variants"

interpretation ssn: text_enum "''SleepStepName''" sleep_step_name_display sleep_step_name_variants
proof
  fix v w :: sleep_step_name
  show "sleep_step_name_display v = sleep_step_name_display w \<Longrightarrow> v = w" by (cases v; cases w) simp_all
  show "v \<in> set sleep_step_name_variants" by (cases v) (simp_all add: sleep_step_name_variants_def)
qed

lemmas sleep_step_name_from_str_iff [res_simps] = ssn.from_str_iff [folded sleep_step_name_from_str_def]

lemmas sleep_step_name_from_str_display [simp] = ssn.from_str_display [folded sleep_step_name_from_str_def]

lemmas sleep_step_name_display_eq_iff [simp] = ssn.display_eq_iff

datatype sleep_step_status =
    StepPending
  | StepRunning
  | StepSuccess
  | StepFailed
  | StepSkipped

fun sleep_step_status_display :: "sleep_step_status \<Rightarrow> string" where
  "sleep_step_status_display StepPending = ''pending''"
| "sleep_step_status_display StepRunning = ''running''"
| "sleep_step_status_display StepSuccess = ''success''"
| "sleep_step_status_display StepFailed = ''failed''"
| "sleep_step_status_display StepSkipped = ''skipped''"

definition sleep_step_status_variants :: "sleep_step_status list" where
  "sleep_step_status_variants =
     [StepPending,
      StepRunning,
      StepSuccess,
      StepFailed,
      StepSkipped]"

definition sleep_step_status_from_str :: "string \<Rightarrow> string + sleep_step_status" where
  "sleep_step_status_from_str = enum_from_str ''SleepStepStatus'' sleep_step_status_display sleep_step_status_variants"

interpretation sss: text_enum "''SleepStepStatus''" sleep_step_status_display sleep_step_status_variants
proof
  fix v w :: sleep_step_status
  show "sleep_step_status_display v = sleep_step_status_display w \<Longrightarrow> v = w" by (cases v; cases w) simp_all
  show "v \<in> set sleep_step_status_variants" by (cases v) (simp_all add: sleep_step_status_variants_def)
qed

lemmas sleep_step_status_from_str_iff [res_simps] = sss.from_str_iff [folded sleep_step_status_from_str_def]

lemmas sleep_step_status_from_str_display [simp] = sss.from_str_display [folded sleep_step_status_from_str_def]

lemmas sleep_step_status_display_eq_iff [simp] = sss.display_eq_iff

datatype checkpoint_source_kind =
    SourceMessages
  | SourceEpisodeEvents

fun checkpoint_source_kind_display :: "checkpoint_source_kind \<Rightarrow> string" where
  "checkpoint_source_kind_display SourceMessages = ''messages''"
| "checkpoint_source_kind_display SourceEpisodeEvents = ''episode_events''"

definition checkpoint_source_kind_variants :: "checkpoint_source_kind list" where
  "checkpoint_source_kind_variants =
     [SourceMessages,
      SourceEpisodeEvents]"

definition checkpoint_source_kind_from_str :: "string \<Rightarrow> string + checkpoint_source_kind" where
  "checkpoint_source_kind_from_str = enum_from_str ''CheckpointSourceKind'' checkpoint_source_kind_display checkpoint_source_kind_variants"

interpretation csk: text_enum "''CheckpointSourceKind''" checkpoint_source_kind_display checkpoint_source_kind_variants
proof
  fix v w :: checkpoint_source_kind
  show "checkpoint_source_kind_display v = checkpoint_source_kind_display w \<Longrightarrow> v = w" by (cases v; cases w) simp_all
  show "v \<in> set checkpoint_source_kind_variants" by (cases v) (simp_all add: checkpoint_source_kind_variants_def)
qed

lemmas checkpoint_source_kind_from_str_iff [res_simps] = csk.from_str_iff [folded checkpoint_source_kind_from_str_def]

lemmas checkpoint_source_kind_from_str_display [simp] = csk.from_str_display [folded checkpoint_source_kind_from_str_def]

lemmas checkpoint_source_kind_display_eq_iff [simp] = csk.display_eq_iff

datatype memory_file =
    FileEpisodic
  | FileSemantic
  | FileProspective

fun memory_file_display :: "memory_file \<Rightarrow> string" where
  "memory_file_display FileEpisodic = ''episodic''"
| "memory_file_display FileSemantic = ''semantic''"
| "memory_file_display FileProspective = ''prospective''"

definition memory_file_variants :: "memory_file list" where
  "memory_file_variants =
     [FileEpisodic,
      FileSemantic,
      FileProspective]"

definition memory_file_from_str :: "string \<Rightarrow> string + memory_file" where
  "memory_file_from_str = enum_from_str ''MemoryFile'' memory_file_display memory_file_variants"

interpretation mfl: text_enum "''MemoryFile''" memory_file_display memory_file_variants
proof
  fix v w :: memory_file
  show "memory_file_display v = memory_file_display w \<Longrightarrow> v = w" by (cases v; cases w) simp_all
  show "v \<in> set memory_file_variants" by (cases v) (simp_all add: memory_file_variants_def)
qed

lemmas memory_file_from_str_iff [res_simps] = mfl.from_str_iff [folded memory_file_from_str_def]

lemmas memory_file_from_str_display [simp] = mfl.from_str_display [folded memory_file_from_str_def]

lemmas memory_file_display_eq_iff [simp] = mfl.display_eq_iff

datatype episode_event_kind =
    EventSelf
  | Relationship
  | World
  | Feat
  | Anomaly
  | Decision
  | Insight
  | Rhythm

fun episode_event_kind_display :: "episode_event_kind \<Rightarrow> string" where
  "episode_event_kind_display EventSelf = ''self''"
| "episode_event_kind_display Relationship = ''relationship''"
| "episode_event_kind_display World = ''world''"
| "episode_event_kind_display Feat = ''feat''"
| "episode_event_kind_display Anomaly = ''anomaly''"
| "episode_event_kind_display Decision = ''decision''"
| "episode_event_kind_display Insight = ''insight''"
| "episode_event_kind_display Rhythm = ''rhythm''"

definition episode_event_kind_variants :: "episode_event_kind list" where
  "episode_event_kind_variants =
     [EventSelf,
      Relationship,
      World,
      Feat,
      Anomaly,
      Decision,
      Insight,
      Rhythm]"

definition episode_event_kind_from_str :: "string \<Rightarrow> string + episode_event_kind" where
  "episode_event_kind_from_str = enum_from_str ''EpisodeEventKind'' episode_event_kind_display episode_event_kind_variants"

interpretation eek: text_enum "''EpisodeEventKind''" episode_event_kind_display episode_event_kind_variants
proof
  fix v w :: episode_event_kind
  show "episode_event_kind_display v = episode_event_kind_display w \<Longrightarrow> v = w" by (cases v; cases w) simp_all
  show "v \<in> set episode_event_kind_variants" by (cases v) (simp_all add: episode_event_kind_variants_def)
qed

lemmas episode_event_kind_from_str_iff [res_simps] = eek.from_str_iff [folded episode_event_kind_from_str_def]

lemmas episode_event_kind_from_str_display [simp] = eek.from_str_display [folded episode_event_kind_from_str_def]

lemmas episode_event_kind_display_eq_iff [simp] = eek.display_eq_iff

datatype episode_event_certainty =
    Stated
  | Derived
  | Tentative

fun episode_event_certainty_display :: "episode_event_certainty \<Rightarrow> string" where
  "episode_event_certainty_display Stated = ''stated''"
| "episode_event_certainty_display Derived = ''derived''"
| "episode_event_certainty_display Tentative = ''tentative''"

definition episode_event_certainty_variants :: "episode_event_certainty list" where
  "episode_event_certainty_variants =
     [Stated,
      Derived,
      Tentative]"

definition episode_event_certainty_from_str :: "string \<Rightarrow> string + episode_event_certainty" where
  "episode_event_certainty_from_str = enum_from_str ''EpisodeEventCertainty'' episode_event_certainty_display episode_event_certainty_variants"

interpretation eec: text_enum "''EpisodeEventCertainty''" episode_event_certainty_display episode_event_certainty_variants
proof
  fix v w :: episode_event_certainty
  show "episode_event_certainty_display v = episode_event_certainty_display w \<Longrightarrow> v = w" by (cases v; cases w) simp_all
  show "v \<in> set episode_event_certainty_variants" by (cases v) (simp_all add: episode_event_certainty_variants_def)
qed

lemmas episode_event_certainty_from_str_iff [res_simps] = eec.from_str_iff [folded episode_event_certainty_from_str_def]

lemmas episode_event_certainty_from_str_display [simp] = eec.from_str_display [folded episode_event_certainty_from_str_def]

lemmas episode_event_certainty_display_eq_iff [simp] = eec.display_eq_iff

datatype pulse_run_status =
    PulseRunning
  | PulseSuccess
  | PulseFailed
  | PulseSkipped

fun pulse_run_status_display :: "pulse_run_status \<Rightarrow> string" where
  "pulse_run_status_display PulseRunning = ''running''"
| "pulse_run_status_display PulseSuccess = ''success''"
| "pulse_run_status_display PulseFailed = ''failed''"
| "pulse_run_status_display PulseSkipped = ''skipped''"

definition pulse_run_status_variants :: "pulse_run_status list" where
  "pulse_run_status_variants =
     [PulseRunning,
      PulseSuccess,
      PulseFailed,
      PulseSkipped]"

definition pulse_run_status_from_str :: "string \<Rightarrow> string + pulse_run_status" where
  "pulse_run_status_from_str = enum_from_str ''PulseRunStatus'' pulse_run_status_display pulse_run_status_variants"

interpretation prs: text_enum "''PulseRunStatus''" pulse_run_status_display pulse_run_status_variants
proof
  fix v w :: pulse_run_status
  show "pulse_run_status_display v = pulse_run_status_display w \<Longrightarrow> v = w" by (cases v; cases w) simp_all
  show "v \<in> set pulse_run_status_variants" by (cases v) (simp_all add: pulse_run_status_variants_def)
qed

lemmas pulse_run_status_from_str_iff [res_simps] = prs.from_str_iff [folded pulse_run_status_from_str_def]

lemmas pulse_run_status_from_str_display [simp] = prs.from_str_display [folded pulse_run_status_from_str_def]

lemmas pulse_run_status_display_eq_iff [simp] = prs.display_eq_iff

datatype pulse_output_kind =
    OutputSilent
  | OutputNotify

fun pulse_output_kind_display :: "pulse_output_kind \<Rightarrow> string" where
  "pulse_output_kind_display OutputSilent = ''silent''"
| "pulse_output_kind_display OutputNotify = ''notify''"

definition pulse_output_kind_variants :: "pulse_output_kind list" where
  "pulse_output_kind_variants =
     [OutputSilent,
      OutputNotify]"

definition pulse_output_kind_from_str :: "string \<Rightarrow> string + pulse_output_kind" where
  "pulse_output_kind_from_str = enum_from_str ''PulseOutputKind'' pulse_output_kind_display pulse_output_kind_variants"

interpretation pok: text_enum "''PulseOutputKind''" pulse_output_kind_display pulse_output_kind_variants
proof
  fix v w :: pulse_output_kind
  show "pulse_output_kind_display v = pulse_output_kind_display w \<Longrightarrow> v = w" by (cases v; cases w) simp_all
  show "v \<in> set pulse_output_kind_variants" by (cases v) (simp_all add: pulse_output_kind_variants_def)
qed

lemmas pulse_output_kind_from_str_iff [res_simps] = pok.from_str_iff [folded pulse_output_kind_from_str_def]

lemmas pulse_output_kind_from_str_display [simp] = pok.from_str_display [folded pulse_output_kind_from_str_def]

lemmas pulse_output_kind_display_eq_iff [simp] = pok.display_eq_iff

section \<open>The central transition rule of a Turn\<close>

fun is_terminal :: "turn_run_state \<Rightarrow> bool" where
  "is_terminal Completed = True"
| "is_terminal Failed = True"
| "is_terminal Cancelled = True"
| "is_terminal Uncertain = True"
| "is_terminal _ = False"

definition can_transition :: "turn_run_state \<Rightarrow> turn_run_state \<Rightarrow> bool" where
  "can_transition from to =
     (if from = to then False
      else if is_terminal from then False
      else case from of
        Accepted \<Rightarrow> to \<in> {InputCommitted, Failed, Uncertain, Cancelled}
      | InputCommitted \<Rightarrow> to \<in> {ModelPending, Failed, Uncertain, Cancelled}
      | ModelPending \<Rightarrow> to \<in> {ModelCompleted, Failed, Uncertain}
      | ModelCompleted \<Rightarrow> to \<in> {ToolsPending, Completed, ModelPending, Failed, Uncertain}
      | ToolsPending \<Rightarrow> to \<in> {ToolsCompleted, Failed, Uncertain}
      | ToolsCompleted \<Rightarrow> to \<in> {ModelPending, Completed, Failed, Uncertain}
      | _ \<Rightarrow> False)"

lemma can_transition_irrefl [simp]: "\<not> can_transition s s"
  by (simp add: can_transition_def)

lemma can_transition_terminal: "is_terminal s \<Longrightarrow> \<not> can_transition s t"
  by (simp add: can_transition_def)

interpretation turn_graph: lifecycle_graph can_transition is_terminal
  by unfold_locales (rule can_transition_terminal)

text \<open>Every non-terminal state may fail or become uncertain.\<close>

lemma can_transition_fail:
  "\<not> is_terminal s \<Longrightarrow> can_transition s Failed"
  "\<not> is_terminal s \<Longrightarrow> can_transition s Uncertain"
  by (cases s; simp add: can_transition_def)+

definition is_durable_pending :: "turn_run_state \<Rightarrow> bool" where
  "is_durable_pending s = (s = Accepted \<or> s = InputCommitted)"

text \<open>Once a Turn has left the durable-pending states no transition leads back.\<close>

lemma can_transition_pending:
  "can_transition s t \<Longrightarrow> is_durable_pending t \<Longrightarrow> is_durable_pending s"
  by (cases s; cases t) (simp_all add: can_transition_def is_durable_pending_def)

text \<open>Only a queued Turn may be discarded.\<close>

lemma can_transition_cancelled:
  "can_transition s Cancelled = is_durable_pending s"
  by (cases s) (simp_all add: can_transition_def is_durable_pending_def)

section \<open>Public failure of a Turn\<close>

record turn_failure =
  tf_kind :: string
  tf_diagnostic :: string
  tf_public :: string

definition turn_failure_shared :: "string \<Rightarrow> string \<Rightarrow> turn_failure" where
  "turn_failure_shared kind text = \<lparr>tf_kind = kind, tf_diagnostic = text, tf_public = text\<rparr>"

definition turn_failure_with_public :: "string \<Rightarrow> string \<Rightarrow> string \<Rightarrow> turn_failure" where
  "turn_failure_with_public kind diagnostic public =
     \<lparr>tf_kind = kind, tf_diagnostic = diagnostic, tf_public = public\<rparr>"

section \<open>Capacity constants\<close>

definition MAX_DURABLE_PENDING_PER_SESSION :: int where
  "MAX_DURABLE_PENDING_PER_SESSION = 32"

definition MAX_DURABLE_PENDING_PER_SCOPE :: int where
  "MAX_DURABLE_PENDING_PER_SCOPE = 512"

definition DISPATCHER_BATCH_LIMIT :: int where
  "DISPATCHER_BATCH_LIMIT = 256"

definition DURABLE_PAYLOAD_INVALID_ERROR_KIND :: string where
  "DURABLE_PAYLOAD_INVALID_ERROR_KIND = ''durable_payload_invalid''"

definition DURABLE_PAYLOAD_INVALID_ERROR_MESSAGE :: string where
  "DURABLE_PAYLOAD_INVALID_ERROR_MESSAGE = ''scheduled durable turn payload is invalid''"

end
