(* ===== verification/Rust_Text.thy ===== *)
theory Rust_Text
  imports Prelude
begin

text \<open>
  The text operations of Rust's standard library that the program uses, on UTF-8 text as its
  bytes: \<open>trim\<close> (all of Unicode's white space), ASCII case, \<open>split\<close>, \<open>contains\<close>, \<open>replace\<close> of a
  line ending and number parsing.
\<close>

section \<open>Trimming\<close>

text \<open>The UTF-8 encodings of the characters with the property \<open>White_Space\<close>.\<close>

definition whitespace :: "string list" where
  "whitespace =
     [[CHR 0x09], [CHR 0x0A], [CHR 0x0B], [CHR 0x0C], [CHR 0x0D], [CHR 0x20],
      [CHR 0xC2, CHR 0x85], [CHR 0xC2, CHR 0xA0], [CHR 0xE1, CHR 0x9A, CHR 0x80],
      [CHR 0xE2, CHR 0x80, CHR 0x80], [CHR 0xE2, CHR 0x80, CHR 0x81], [CHR 0xE2, CHR 0x80, CHR 0x82],
      [CHR 0xE2, CHR 0x80, CHR 0x83], [CHR 0xE2, CHR 0x80, CHR 0x84], [CHR 0xE2, CHR 0x80, CHR 0x85],
      [CHR 0xE2, CHR 0x80, CHR 0x86], [CHR 0xE2, CHR 0x80, CHR 0x87], [CHR 0xE2, CHR 0x80, CHR 0x88],
      [CHR 0xE2, CHR 0x80, CHR 0x89], [CHR 0xE2, CHR 0x80, CHR 0x8A], [CHR 0xE2, CHR 0x80, CHR 0xA8],
      [CHR 0xE2, CHR 0x80, CHR 0xA9], [CHR 0xE2, CHR 0x80, CHR 0xAF], [CHR 0xE2, CHR 0x81, CHR 0x9F],
      [CHR 0xE3, CHR 0x80, CHR 0x80]]"

lemma whitespace_nonempty: "w \<in> set whitespace \<Longrightarrow> w \<noteq> []"
  by (auto simp: whitespace_def)

function trim_start :: "string \<Rightarrow> string" where
  "trim_start s =
     (case List.find (\<lambda>w. starts_with w s) whitespace of
        None \<Rightarrow> s
      | Some w \<Rightarrow> trim_start (drop (length w) s))"
  by auto

termination
proof (relation "measure length")
  fix s w assume "List.find (\<lambda>w. starts_with w s) whitespace = Some w"
  then have "w \<in> set whitespace" "starts_with w s" by (auto simp: find_Some_iff)
  then have "w \<noteq> []" "length w \<le> length s" using whitespace_nonempty by (auto simp: starts_with_iff)
  then show "(drop (length w) s, s) \<in> measure length" by (cases w) auto
qed simp

declare trim_start.simps [simp del]

function trim_end :: "string \<Rightarrow> string" where
  "trim_end s =
     (case List.find (\<lambda>w. ends_with w s) whitespace of
        None \<Rightarrow> s
      | Some w \<Rightarrow> trim_end (take (length s - length w) s))"
  by auto

termination
proof (relation "measure length")
  fix s w assume "List.find (\<lambda>w. ends_with w s) whitespace = Some w"
  then have "w \<in> set whitespace" "ends_with w s" by (auto simp: find_Some_iff)
  then have "w \<noteq> []" "length w \<le> length s" using whitespace_nonempty by (auto simp: ends_with_iff)
  then show "(take (length s - length w) s, s) \<in> measure length" by (cases w) auto
qed simp

declare trim_end.simps [simp del]

definition trim :: "string \<Rightarrow> string" where
  "trim s = trim_end (trim_start s)"

lemma trim_start_clean: "w \<in> set whitespace \<Longrightarrow> \<not> starts_with w (trim_start s)"
proof (induction s rule: trim_start.induct)
  case (1 s)
  show ?case
  proof (cases "List.find (\<lambda>w. starts_with w s) whitespace")
    case None
    then have "trim_start s = s" by (simp add: trim_start.simps [of s])
    then show ?thesis using None "1.prems" by (auto simp: find_None_iff)
  next
    case (Some v)
    then show ?thesis using "1.IH" [OF Some "1.prems"] by (simp add: trim_start.simps [of s])
  qed
qed

lemma trim_end_clean: "w \<in> set whitespace \<Longrightarrow> \<not> ends_with w (trim_end s)"
proof (induction s rule: trim_end.induct)
  case (1 s)
  show ?case
  proof (cases "List.find (\<lambda>w. ends_with w s) whitespace")
    case None
    then have "trim_end s = s" by (simp add: trim_end.simps [of s])
    then show ?thesis using None "1.prems" by (auto simp: find_None_iff)
  next
    case (Some v)
    then show ?thesis using "1.IH" [OF Some "1.prems"] by (simp add: trim_end.simps [of s])
  qed
qed

lemma trim_end_prefix: "\<exists>t. s = trim_end s @ t"
proof (induction s rule: trim_end.induct)
  case (1 s)
  show ?case
  proof (cases "List.find (\<lambda>w. ends_with w s) whitespace")
    case (Some v)
    then obtain t where t: "take (length s - length v) s = trim_end s @ t"
      using "1.IH" [OF Some] by (auto simp: trim_end.simps [of s])
    have "s = take (length s - length v) s @ drop (length s - length v) s" by simp
    then show ?thesis unfolding t by (metis append_assoc)
  qed (simp add: trim_end.simps [of s])
qed

lemma trim_start_same: "(\<And>w. w \<in> set whitespace \<Longrightarrow> \<not> starts_with w s) \<Longrightarrow> trim_start s = s"
  by (auto simp: trim_start.simps [of s] find_Some_iff split: option.split)

lemma trim_end_same: "(\<And>w. w \<in> set whitespace \<Longrightarrow> \<not> ends_with w s) \<Longrightarrow> trim_end s = s"
  by (auto simp: trim_end.simps [of s] find_Some_iff split: option.split)

lemma trim_idem [simp]: "trim (trim s) = trim s"
proof -
  obtain t where t: "trim_start s = trim s @ t" unfolding trim_def using trim_end_prefix by blast
  have "\<not> starts_with w (trim s)" if "w \<in> set whitespace" for w
    using trim_start_clean [OF that, of s] unfolding t by (auto simp: starts_with_iff)
  then have "trim_start (trim s) = trim s" by (rule trim_start_same)
  moreover have "trim_end (trim s) = trim s"
    unfolding trim_def by (rule trim_end_same) (rule trim_end_clean)
  ultimately show ?thesis by (simp add: trim_def [of "trim s"])
qed

section \<open>ASCII case\<close>

definition ascii_lower_char :: "char \<Rightarrow> char" where
  "ascii_lower_char c =
     (if 65 \<le> (of_char c :: nat) \<and> (of_char c :: nat) \<le> 90 then char_of (of_char c + (32 :: nat)) else c)"

definition to_ascii_lowercase :: "string \<Rightarrow> string" where
  "to_ascii_lowercase s = map ascii_lower_char s"

definition eq_ignore_ascii_case :: "string \<Rightarrow> string \<Rightarrow> bool" where
  "eq_ignore_ascii_case s t = (to_ascii_lowercase s = to_ascii_lowercase t)"

section \<open>Searching and splitting\<close>

fun contains_str :: "string \<Rightarrow> string \<Rightarrow> bool" where
  "contains_str p [] = (p = [])"
| "contains_str p (c # s) = (starts_with p (c # s) \<or> contains_str p s)"

fun split_on :: "char \<Rightarrow> string \<Rightarrow> string list" where
  "split_on c [] = [[]]"
| "split_on c (x # s) =
     (if x = c then [] # split_on c s
      else case split_on c s of [] \<Rightarrow> [[x]] | p # ps \<Rightarrow> (x # p) # ps)"

text \<open>\<open>str::split_once\<close> with a text.\<close>

fun split_once_str :: "string \<Rightarrow> string \<Rightarrow> (string \<times> string) option" where
  "split_once_str p [] = (if p = [] then Some ([], []) else None)"
| "split_once_str p (c # s) =
     (case strip_prefix p (c # s) of
        Some r \<Rightarrow> Some ([], r)
      | None \<Rightarrow> map_option (\<lambda>(a, b). (c # a, b)) (split_once_str p s))"

lemma split_once_str_Some: "split_once_str p s = Some (a, b) \<Longrightarrow> s = a @ p @ b"
  by (induction p s arbitrary: a rule: split_once_str.induct)
    (auto simp: strip_prefix_Some_iff split: if_splits option.splits)

text \<open>\<open>str::replace\<close> of the two bytes CR LF by LF.\<close>

fun crlf_to_lf :: "string \<Rightarrow> string" where
  "crlf_to_lf (a # b # s) =
     (if a = CHR 0x0D \<and> b = CHR 0x0A then CHR 0x0A # crlf_to_lf s else a # crlf_to_lf (b # s))"
| "crlf_to_lf s = s"

lemma crlf_to_lf_same: "CHR 0x0D \<notin> set s \<Longrightarrow> crlf_to_lf s = s"
  by (induction s rule: crlf_to_lf.induct) auto

definition remove_char :: "char \<Rightarrow> string \<Rightarrow> string" where
  "remove_char c s = filter (\<lambda>x. x \<noteq> c) s"

section \<open>Numbers\<close>

definition is_digit :: "char \<Rightarrow> bool" where
  "is_digit c = (48 \<le> (of_char c :: nat) \<and> (of_char c :: nat) \<le> 57)"

fun parse_digits :: "int \<Rightarrow> int \<Rightarrow> string \<Rightarrow> int option" where
  "parse_digits m acc [] = Some acc"
| "parse_digits m acc (c # s) =
     (let n = acc * 10 + (int (of_char c) - 48)
      in if is_digit c \<and> n \<le> m then parse_digits m n s else None)"

text \<open>
  \<open>str::parse\<close> into an unsigned type with largest value \<open>m\<close>, and into a signed one of a text
  without a minus sign: an optional plus sign and at least one digit, without overflow.
\<close>

definition parse_unsigned :: "int \<Rightarrow> string \<Rightarrow> int option" where
  "parse_unsigned m s =
     (case s of
        [] \<Rightarrow> None
      | c # t \<Rightarrow>
          if c = CHR ''+'' then if t = [] then None else parse_digits m 0 t
          else parse_digits m 0 s)"

lemma parse_digits_bound: "0 \<le> acc \<Longrightarrow> acc \<le> m \<Longrightarrow> parse_digits m acc s = Some n \<Longrightarrow> 0 \<le> n \<and> n \<le> m"
proof (induction s arbitrary: acc)
  case (Cons c s)
  let ?n = "acc * 10 + (int (of_char c) - 48)"
  have c: "is_digit c" "?n \<le> m" "parse_digits m ?n s = Some n"
    using Cons.prems(3) by (auto simp: Let_def split: if_splits)
  have "0 \<le> ?n" using c(1) Cons.prems(1) by (simp add: is_digit_def)
  then show ?case using Cons.IH c(2,3) by blast
qed simp

end
