(* ===== verification/Session_Messages.thy ===== *)
theory Session_Messages
  imports Storage_Types Rust_Text
begin

text \<open>
  The messages of a model request and their persisted form (\<open>src/src/llm/mod.rs\<close>,
  \<open>src/src/agent_loop/session_snapshot.rs\<close>, \<open>src/src/assets.rs\<close>) and the repair of orphaned tool
  calls (\<open>src/src/agent_loop/session.rs\<close>). A tool call's JSON arguments are of any type
  \<open>'j\<close>; base64, SHA-256 and the clock are arguments. File system failures other than a missing
  file are not modelled.
\<close>

section \<open>Messages\<close>

record 'j llm_tool_call =
  ltc_id :: string
  ltc_name :: string
  ltc_arguments :: 'j
  ltc_invalid_arguments :: "string option"

datatype message_content_part =
    InputText string
  | InputImage string "string option"

datatype 'part content =
    TextContent string
  | PartsContent "'part list"

record ('part, 'j) chat_message =
  lm_role :: string
  lm_content :: "'part content"
  lm_reasoning_content :: "string option"
  lm_tool_calls :: "'j llm_tool_call list"
  lm_tool_call_id :: "string option"

type_synonym 'j llm_message = "(message_content_part, 'j) chat_message"

definition text_message :: "string \<Rightarrow> string \<Rightarrow> 'j llm_message" where
  "text_message role text =
     \<lparr>lm_role = role, lm_content = TextContent text, lm_reasoning_content = None,
      lm_tool_calls = [], lm_tool_call_id = None\<rparr>"

fun as_text_lossy :: "message_content_part content \<Rightarrow> string" where
  "as_text_lossy (TextContent text) = text"
| "as_text_lossy (PartsContent parts) =
     join_with [CHR 0x0A] (List.map_filter (\<lambda>p. case p of InputText t \<Rightarrow> Some t | InputImage _ _ \<Rightarrow> None) parts)"

fun is_multimodal :: "message_content_part content \<Rightarrow> bool" where
  "is_multimodal (TextContent text) = False"
| "is_multimodal (PartsContent parts) =
     list_ex (\<lambda>p. case p of InputText _ \<Rightarrow> False | InputImage _ _ \<Rightarrow> True) parts"

definition is_empty_textual :: "message_content_part content \<Rightarrow> bool" where
  "is_empty_textual c = (trim (as_text_lossy c) = [])"

text \<open>Arguments that are not JSON leave the empty object and the parser's error.\<close>

definition from_raw_arguments ::
  "(string \<Rightarrow> string + 'j) \<Rightarrow> 'j \<Rightarrow> string \<Rightarrow> string \<Rightarrow> string \<Rightarrow> 'j llm_tool_call" where
  "from_raw_arguments parse empty_object i name raw_arguments =
     (let (arguments, invalid) =
        (if trim raw_arguments = [] then (empty_object, None)
         else case parse raw_arguments of
                Inr v \<Rightarrow> (v, None)
              | Inl e \<Rightarrow> (empty_object, Some e))
      in \<lparr>ltc_id = i, ltc_name = name, ltc_arguments = arguments, ltc_invalid_arguments = invalid\<rparr>)"

section \<open>The image store\<close>

record image_metadata =
  im_image_ref :: string
  im_mime_type :: string
  im_byte_len :: int
  im_created_at :: string
  im_sha256 :: string

text \<open>The two files of an image: its bytes and its metadata, under the hash of the bytes.\<close>

record asset_store =
  as_data :: "string \<Rightarrow> string option"
  as_metadata :: "string \<Rightarrow> image_metadata option"

record stored_image =
  si_image_ref :: string
  si_mime_type :: string

record codecs =
  b64_decode :: "string \<Rightarrow> string + string"
  b64_encode :: "string \<Rightarrow> string"
  sha256_hex :: "string \<Rightarrow> string"

definition parse_image_data_url :: "codecs \<Rightarrow> string \<Rightarrow> storage_error + (string \<times> string)" where
  "parse_image_data_url cd data_url =
     (case strip_prefix ''data:'' data_url of
        None \<Rightarrow> Inl (InvalidAsset ''image data URL must start with data:'')
      | Some rest \<Rightarrow>
          (case split_once_str '';base64,'' rest of
             None \<Rightarrow> Inl (InvalidAsset ''image data URL must contain ;base64,'')
           | Some (mime_type, payload) \<Rightarrow>
               if trim mime_type = [] then Inl (InvalidAsset ''image data URL is missing MIME type'')
               else rbind (map_err (\<lambda>e. InvalidAsset (''invalid image base64: '' @ e)) (b64_decode cd payload))
                      (\<lambda>bytes. Inr (mime_type, bytes))))"

definition persist_image_data_url ::
  "codecs \<Rightarrow> string \<Rightarrow> string \<Rightarrow> asset_store \<Rightarrow> storage_error + (stored_image \<times> asset_store)" where
  "persist_image_data_url cd now data_url store =
     rbind (parse_image_data_url cd data_url) (\<lambda>(mime_type, bytes).
     let h = sha256_hex cd bytes;
         store1 = (if as_data store h \<noteq> None then store
                   else store\<lparr>as_data := (as_data store)(h \<mapsto> bytes)\<rparr>);
         store2 = (if as_metadata store1 h \<noteq> None then store1
                   else store1\<lparr>as_metadata := (as_metadata store1)(h \<mapsto>
                     \<lparr>im_image_ref = h, im_mime_type = mime_type, im_byte_len = int (length bytes),
                      im_created_at = now, im_sha256 = h\<rparr>)\<rparr>)
     in Inr (\<lparr>si_image_ref = h, si_mime_type = mime_type\<rparr>, store2))"

definition load_image_data_url ::
  "codecs \<Rightarrow> string \<Rightarrow> string \<Rightarrow> asset_store \<Rightarrow> storage_error + string" where
  "load_image_data_url cd image_ref mime_type store =
     rbind (ok_or (as_data store image_ref) (NotFound (''image_ref:'' @ image_ref))) (\<lambda>bytes.
     Inr (''data:'' @ mime_type @ '';base64,'' @ b64_encode cd bytes))"

section \<open>The persisted form\<close>

datatype snapshot_content_part =
    SnapText string
  | SnapImage string "string option"
  | SnapImageRef string string "string option"

type_synonym 'j snapshot_message = "(snapshot_content_part, 'j) chat_message"

text \<open>Every image persisted by one conversion goes through the same store, part after part.\<close>

definition part_to_snapshot ::
  "codecs \<Rightarrow> string \<Rightarrow> message_content_part \<Rightarrow> asset_store \<Rightarrow>
   storage_error + (snapshot_content_part \<times> asset_store)" where
  "part_to_snapshot cd now part store =
     (case part of
        InputText text \<Rightarrow> Inr (SnapText text, store)
      | InputImage image_url detail \<Rightarrow>
          rbind (persist_image_data_url cd now image_url store) (\<lambda>(stored, store').
          Inr (SnapImageRef (si_image_ref stored) (si_mime_type stored) detail, store')))"

text \<open>\<open>collect::<Result<Vec<_>, _>>\<close> over a conversion that uses the store.\<close>

fun collect_with :: "('a \<Rightarrow> 's \<Rightarrow> 'e + ('b \<times> 's)) \<Rightarrow> 'a list \<Rightarrow> 's \<Rightarrow> 'e + ('b list \<times> 's)" where
  "collect_with f [] s = Inr ([], s)"
| "collect_with f (x # xs) s =
     rbind (f x s) (\<lambda>(y, s1). rbind (collect_with f xs s1) (\<lambda>(ys, s2). Inr (y # ys, s2)))"

definition content_to_snapshot ::
  "codecs \<Rightarrow> string \<Rightarrow> message_content_part content \<Rightarrow> asset_store \<Rightarrow>
   storage_error + (snapshot_content_part content \<times> asset_store)" where
  "content_to_snapshot cd now c store =
     (case c of
        TextContent text \<Rightarrow> Inr (TextContent text, store)
      | PartsContent parts \<Rightarrow>
          rbind (collect_with (part_to_snapshot cd now) parts store) (\<lambda>(ps, store').
          Inr (PartsContent ps, store')))"

definition with_content :: "('p, 'j) chat_message \<Rightarrow> 'q content \<Rightarrow> ('q, 'j) chat_message" where
  "with_content m c =
     \<lparr>lm_role = lm_role m, lm_content = c, lm_reasoning_content = lm_reasoning_content m,
      lm_tool_calls = lm_tool_calls m, lm_tool_call_id = lm_tool_call_id m\<rparr>"

definition message_to_snapshot ::
  "codecs \<Rightarrow> string \<Rightarrow> 'j llm_message \<Rightarrow> asset_store \<Rightarrow>
   storage_error + ('j snapshot_message \<times> asset_store)" where
  "message_to_snapshot cd now m store =
     rbind (content_to_snapshot cd now (lm_content m) store) (\<lambda>(c, store').
     Inr (with_content m c, store'))"

definition messages_to_snapshot ::
  "codecs \<Rightarrow> string \<Rightarrow> 'j llm_message list \<Rightarrow> asset_store \<Rightarrow>
   storage_error + ('j snapshot_message list \<times> asset_store)" where
  "messages_to_snapshot cd now ms store = collect_with (message_to_snapshot cd now) ms store"

definition is_hex_digit :: "char \<Rightarrow> bool" where
  "is_hex_digit c = (let n = (of_char c :: nat) in
     (48 \<le> n \<and> n \<le> 57) \<or> (65 \<le> n \<and> n \<le> 70) \<or> (97 \<le> n \<and> n \<le> 102))"

definition is_sha256_hex :: "string \<Rightarrow> bool" where
  "is_sha256_hex v = (length v = 64 \<and> list_all is_hex_digit v)"

definition missing_image_text_part ::
  "(sqlite_error \<Rightarrow> string) \<Rightarrow> string \<Rightarrow> storage_error \<Rightarrow> message_content_part" where
  "missing_image_text_part sqlite_text image_ref e =
     InputText (''Previously attached image could not be restored: '' @
       (case e of NotFound _ \<Rightarrow> ''missing image_ref '' @ image_ref
                | _ \<Rightarrow> storage_error_display sqlite_text e))"

definition part_from_snapshot ::
  "codecs \<Rightarrow> (sqlite_error \<Rightarrow> string) \<Rightarrow> asset_store \<Rightarrow> snapshot_content_part \<Rightarrow> message_content_part" where
  "part_from_snapshot cd sqlite_text store p =
     (case p of
        SnapText text \<Rightarrow> InputText text
      | SnapImage image_url detail \<Rightarrow> InputImage image_url detail
      | SnapImageRef image_ref mime_type detail \<Rightarrow>
          if \<not> is_sha256_hex image_ref
          then missing_image_text_part sqlite_text image_ref
                 (InvalidAsset (''malformed image_ref '' @ image_ref))
          else (case load_image_data_url cd image_ref mime_type store of
                  Inr image_url \<Rightarrow> InputImage image_url detail
                | Inl e \<Rightarrow> missing_image_text_part sqlite_text image_ref e))"

definition content_from_snapshot ::
  "codecs \<Rightarrow> (sqlite_error \<Rightarrow> string) \<Rightarrow> asset_store \<Rightarrow> snapshot_content_part content \<Rightarrow>
   message_content_part content" where
  "content_from_snapshot cd sqlite_text store c =
     (case c of
        TextContent text \<Rightarrow> TextContent text
      | PartsContent ps \<Rightarrow> PartsContent (map (part_from_snapshot cd sqlite_text store) ps))"

definition messages_from_snapshot ::
  "codecs \<Rightarrow> (sqlite_error \<Rightarrow> string) \<Rightarrow> asset_store \<Rightarrow> 'j snapshot_message list \<Rightarrow> 'j llm_message list" where
  "messages_from_snapshot cd sqlite_text store ms =
     map (\<lambda>m. with_content m (content_from_snapshot cd sqlite_text store (lm_content m))) ms"

section \<open>Orphaned tool calls\<close>

definition ORPHAN_OUTPUT :: string where
  "ORPHAN_OUTPUT = [CHR 0x7B, CHR 0x22] @ ''status'' @ [CHR 0x22] @ '':'' @ [CHR 0x22] @ ''error'' @
     [CHR 0x22] @ '','' @ [CHR 0x22] @ ''error'' @ [CHR 0x22] @ '':'' @ [CHR 0x22] @
     ''tool output was missing from the restored session snapshot'' @ [CHR 0x22, CHR 0x7D]"

definition orphan_tool_output_message :: "string \<Rightarrow> 'j llm_message" where
  "orphan_tool_output_message tool_call_id =
     (text_message ''tool'' ORPHAN_OUTPUT)\<lparr>lm_tool_call_id := Some tool_call_id\<rparr>"

definition is_tool :: "('p, 'j) chat_message \<Rightarrow> bool" where
  "is_tool m = (lm_role m = ''tool'')"

definition calls_tools :: "('p, 'j) chat_message \<Rightarrow> bool" where
  "calls_tools m = (lm_role m = ''assistant'' \<and> lm_tool_calls m \<noteq> [])"

definition call_ids :: "('p, 'j) chat_message \<Rightarrow> string list" where
  "call_ids m = map ltc_id (lm_tool_calls m)"

definition answered_ids :: "('p, 'j) chat_message list \<Rightarrow> string set" where
  "answered_ids ms = set (List.map_filter lm_tool_call_id ms)"

function repair_orphan_tool_outputs :: "'j llm_message list \<Rightarrow> 'j llm_message list" where
  "repair_orphan_tool_outputs [] = []"
| "repair_orphan_tool_outputs (m # ms) =
     (if calls_tools m
      then let tools = takeWhile is_tool ms;
               missing = filter (\<lambda>i. i \<notin> answered_ids tools) (call_ids m)
           in m # tools @ map orphan_tool_output_message missing @
              repair_orphan_tool_outputs (dropWhile is_tool ms)
      else m # repair_orphan_tool_outputs ms)"
  by pat_completeness auto

termination
  by (relation "measure length") (auto simp: le_imp_less_Suc length_dropWhile_le)

end
