(* ===== verification/Session_Repair.thy ===== *)
theory Session_Repair
  imports Session_Messages "HOL-Library.Sublist"
begin

text \<open>
  Properties of a conversation's persisted messages: the repair of a restored snapshot leaves
  no tool call without an answer, and a snapshot written through the image store is read back
  as the messages that were written.
\<close>

section \<open>The repair\<close>

text \<open>The order providers demand: a call message is followed by an answer to each of its calls.\<close>

fun tools_answered :: "('p, 'j) chat_message list \<Rightarrow> bool" where
  "tools_answered [] = True"
| "tools_answered (m # ms) =
     ((calls_tools m \<longrightarrow> set (call_ids m) \<subseteq> answered_ids (takeWhile is_tool ms)) \<and> tools_answered ms)"

lemma orphan_is_tool [simp]: "is_tool (orphan_tool_output_message i)"
  by (simp add: is_tool_def orphan_tool_output_message_def text_message_def)

lemma tool_calls_none [simp]: "is_tool m \<Longrightarrow> \<not> calls_tools m"
  by (simp add: is_tool_def calls_tools_def)

lemma answered_ids_append [simp]: "answered_ids (xs @ ys) = answered_ids xs \<union> answered_ids ys"
  by (auto simp: answered_ids_def List.map_filter_def)

lemma answered_orphans [simp]: "answered_ids (map orphan_tool_output_message is) = set is"
  by (induction "is") (auto simp: answered_ids_def List.map_filter_def orphan_tool_output_message_def)

lemma tools_answered_tools: "\<forall>t \<in> set ts. is_tool t \<Longrightarrow> tools_answered (ts @ ms) = tools_answered ms"
  by (induction ts) auto

lemma repair_head: "ms \<noteq> [] \<Longrightarrow> \<exists>rs. repair_orphan_tool_outputs ms = hd ms # rs"
  by (cases ms) (auto simp: Let_def)

lemma repair_not_tool:
  assumes "ms = [] \<or> \<not> is_tool (hd ms)"
  shows "takeWhile is_tool (repair_orphan_tool_outputs ms) = []"
proof (cases "ms = []")
  case False
  then show ?thesis using assms repair_head [OF False] by auto
qed simp

lemma rest_not_tool: "dropWhile is_tool ms = [] \<or> \<not> is_tool (hd (dropWhile is_tool ms))"
  using hd_dropWhile [of is_tool ms] by blast

lemma repair_answers: "tools_answered (repair_orphan_tool_outputs ms)"
proof (induction ms rule: repair_orphan_tool_outputs.induct)
  case (2 m ms)
  let ?tools = "takeWhile is_tool ms" and ?rest = "repair_orphan_tool_outputs (dropWhile is_tool ms)"
  let ?missing = "filter (\<lambda>i. i \<notin> answered_ids ?tools) (call_ids m)"
  let ?answers = "?tools @ map orphan_tool_output_message ?missing"
  show ?case
  proof (cases "calls_tools m")
    case True
    have tools: "\<forall>t \<in> set ?answers. is_tool t" by (auto dest: set_takeWhileD)
    have "takeWhile is_tool (?answers @ ?rest) = ?answers"
      using takeWhile_append2 [of ?answers is_tool ?rest] tools repair_not_tool [OF rest_not_tool, of ms]
      by simp
    moreover have "set (call_ids m) \<subseteq> answered_ids ?answers" by auto
    moreover have "tools_answered (?answers @ ?rest)"
      using "2.IH"(1) [OF True refl refl] tools tools_answered_tools by blast
    ultimately show ?thesis using True by (simp add: Let_def)
  next
    case False
    then show ?thesis using "2.IH"(2) by simp
  qed
qed simp

lemma repair_same: "tools_answered ms \<Longrightarrow> repair_orphan_tool_outputs ms = ms"
proof (induction ms rule: repair_orphan_tool_outputs.induct)
  case (2 m ms)
  show ?case
  proof (cases "calls_tools m")
    case True
    then have "filter (\<lambda>i. i \<notin> answered_ids (takeWhile is_tool ms)) (call_ids m) = []"
      using "2.prems" by (auto simp: filter_empty_conv)
    moreover have "tools_answered (dropWhile is_tool ms)"
      using "2.prems" tools_answered_tools [of "takeWhile is_tool ms" "dropWhile is_tool ms"]
      by (auto dest: set_takeWhileD)
    ultimately show ?thesis using True "2.IH"(1) [OF True refl refl] by (simp add: Let_def)
  next
    case False
    then show ?thesis using "2.IH"(2) "2.prems" by simp
  qed
qed simp

lemma repair_keeps: "subseq ms (repair_orphan_tool_outputs ms)"
proof (induction ms rule: repair_orphan_tool_outputs.induct)
  case (2 m ms)
  show ?case
  proof (cases "calls_tools m")
    case True
    let ?o = "map orphan_tool_output_message
      (filter (\<lambda>i. i \<notin> answered_ids (takeWhile is_tool ms)) (call_ids m))"
    have "subseq (dropWhile is_tool ms) (?o @ repair_orphan_tool_outputs (dropWhile is_tool ms))"
      using "2.IH"(1) [OF True refl refl] by (rule subseq_drop_many)
    then have "subseq (takeWhile is_tool ms @ dropWhile is_tool ms)
        (takeWhile is_tool ms @ ?o @ repair_orphan_tool_outputs (dropWhile is_tool ms))"
      by (rule list_emb_append_mono [OF subseq_order.refl])
    then show ?thesis using True by (simp add: Let_def)
  next
    case False
    then show ?thesis using "2.IH"(2) by simp
  qed
qed simp

text \<open>
  C35: A restored conversation is a valid request: after the repair every message with tool calls
  is directly followed by an answer to each of them; the repair only adds messages, leaves a
  conversation that was complete as it is, and repairing again changes nothing.
\<close>

theorem repaired_calls_answered:
  fixes ms :: "'j llm_message list"
  shows "tools_answered (repair_orphan_tool_outputs ms) \<and>
    subseq ms (repair_orphan_tool_outputs ms) \<and>
    (tools_answered ms = (repair_orphan_tool_outputs ms = ms)) \<and>
    repair_orphan_tool_outputs (repair_orphan_tool_outputs ms) = repair_orphan_tool_outputs ms"
  using repair_answers [of ms] repair_keeps repair_same [OF repair_answers] repair_same [of ms] by metis

section \<open>Conversions through a store\<close>

text \<open>
  The contract of a conversion that puts data aside in a store: it keeps the store's invariant,
  only adds to the store, and what it put aside is restored from the store it left and from any
  later one. It carries over to whole lists.
\<close>

locale restoring =
  fixes inv :: "'s \<Rightarrow> bool"
    and le :: "'s \<Rightarrow> 's \<Rightarrow> bool"
    and ok :: "'a \<Rightarrow> bool"
    and conv :: "'a \<Rightarrow> 's \<Rightarrow> 'e + ('b \<times> 's)"
    and restore :: "'s \<Rightarrow> 'b \<Rightarrow> 'a"
  assumes le_refl: "le s s"
    and le_trans: "le s t \<Longrightarrow> le t u \<Longrightarrow> le s u"
    and restores: "ok x \<Longrightarrow> inv s \<Longrightarrow>
      \<exists>y s'. conv x s = Inr (y, s') \<and> inv s' \<and> le s s' \<and> (\<forall>t. le s' t \<longrightarrow> restore t y = x)"
begin

lemma restores_all:
  "list_all ok xs \<Longrightarrow> inv s \<Longrightarrow> \<exists>ys s'. collect_with conv xs s = Inr (ys, s') \<and> inv s' \<and> le s s' \<and>
    (\<forall>t. le s' t \<longrightarrow> map (restore t) ys = xs)"
proof (induction xs arbitrary: s)
  case Nil
  then show ?case by (auto intro: le_refl)
next
  case (Cons x xs)
  have "ok x" using Cons.prems(1) by simp
  from restores [OF this Cons.prems(2)] obtain y s1 where y: "conv x s = Inr (y, s1)" "inv s1" "le s s1"
    "\<forall>t. le s1 t \<longrightarrow> restore t y = x" by blast
  from Cons.IH [OF _ y(2)] Cons.prems(1) obtain ys s2 where ys: "collect_with conv xs s1 = Inr (ys, s2)"
    "inv s2" "le s1 s2" "\<forall>t. le s2 t \<longrightarrow> map (restore t) ys = xs" by auto
  have "\<forall>t. le s2 t \<longrightarrow> map (restore t) (y # ys) = x # xs"
    using y(4) ys(3,4) le_trans by (metis list.simps(9))
  moreover have "collect_with conv (x # xs) s = Inr (y # ys, s2)" using y(1) ys(1) by simp
  ultimately show ?case using ys(2) le_trans [OF y(3) ys(3)] by blast
qed

end

text \<open>
  For the image store: every file is under the hash of its bytes, and no two contents of
  \<open>B\<close>, the contents that are stored or will be, have the same hash. An image is restored if
  its data URL is in the form the store prints.
\<close>

definition asset_inv :: "codecs \<Rightarrow> string set \<Rightarrow> asset_store \<Rightarrow> bool" where
  "asset_inv cd B store = (inj_on (sha256_hex cd) B \<and>
     (\<forall>h b. as_data store h = Some b \<longrightarrow> b \<in> B \<and> sha256_hex cd b = h))"

definition asset_le :: "asset_store \<Rightarrow> asset_store \<Rightarrow> bool" where
  "asset_le s t = (as_data s \<subseteq>\<^sub>m as_data t)"

definition part_ok :: "codecs \<Rightarrow> string set \<Rightarrow> message_content_part \<Rightarrow> bool" where
  "part_ok cd B part =
     (case part of
        InputText text \<Rightarrow> True
      | InputImage url detail \<Rightarrow>
          \<exists>mime bytes. parse_image_data_url cd url = Inr (mime, bytes) \<and>
            url = ''data:'' @ mime @ '';base64,'' @ b64_encode cd bytes \<and> bytes \<in> B \<and>
            is_sha256_hex (sha256_hex cd bytes))"

lemma asset_le_order: "asset_le s s" "asset_le s t \<Longrightarrow> asset_le t u \<Longrightarrow> asset_le s u"
  by (auto simp: asset_le_def intro: map_le_trans)

lemma persist_image:
  assumes inv: "asset_inv cd B store" and p: "parse_image_data_url cd url = Inr (mime, bytes)" "bytes \<in> B"
  shows "\<exists>store'. persist_image_data_url cd now url store =
      Inr (\<lparr>si_image_ref = sha256_hex cd bytes, si_mime_type = mime\<rparr>, store') \<and>
    asset_inv cd B store' \<and> asset_le store store' \<and> as_data store' (sha256_hex cd bytes) = Some bytes"
proof -
  let ?h = "sha256_hex cd bytes"
  obtain store' where r: "persist_image_data_url cd now url store =
      Inr (\<lparr>si_image_ref = ?h, si_mime_type = mime\<rparr>, store')"
    and d: "as_data store' = (if as_data store ?h \<noteq> None then as_data store else (as_data store)(?h \<mapsto> bytes))"
    using p(1) by (auto simp: persist_image_data_url_def Let_def)
  have "as_data store' ?h = Some bytes"
  proof (cases "as_data store ?h")
    case (Some b)
    then have "b \<in> B" "sha256_hex cd b = ?h" using inv by (auto simp: asset_inv_def)
    then have "b = bytes" using inv p(2) by (auto simp: asset_inv_def inj_on_def)
    then show ?thesis using d Some by simp
  qed (simp add: d)
  moreover have "asset_inv cd B store'" using inv d p(2) by (auto simp: asset_inv_def split: if_splits)
  moreover have "asset_le store store'" using d by (auto simp: asset_le_def map_le_def split: if_splits)
  ultimately show ?thesis using r by blast
qed

interpretation image_parts: restoring "asset_inv cd B" asset_le "part_ok cd B" "part_to_snapshot cd now"
    "part_from_snapshot cd sqlite_text" for cd B now sqlite_text
proof
  fix part store
  assume ok: "part_ok cd B part" and inv: "asset_inv cd B store"
  show "\<exists>y s'. part_to_snapshot cd now part store = Inr (y, s') \<and> asset_inv cd B s' \<and> asset_le store s' \<and>
      (\<forall>t. asset_le s' t \<longrightarrow> part_from_snapshot cd sqlite_text t y = part)"
  proof (cases part)
    case (InputText body)
    then show ?thesis using inv asset_le_order(1) by (auto simp: part_to_snapshot_def part_from_snapshot_def)
  next
    case (InputImage url detail)
    then obtain mime bytes where h: "parse_image_data_url cd url = Inr (mime, bytes)"
        "url = ''data:'' @ mime @ '';base64,'' @ b64_encode cd bytes" "bytes \<in> B"
        "is_sha256_hex (sha256_hex cd bytes)"
      using ok by (auto simp: part_ok_def)
    obtain s' where s': "persist_image_data_url cd now url store =
        Inr (\<lparr>si_image_ref = sha256_hex cd bytes, si_mime_type = mime\<rparr>, s')"
      "asset_inv cd B s'" "asset_le store s'" "as_data s' (sha256_hex cd bytes) = Some bytes"
      using persist_image [OF inv h(1,3)] by blast
    have "as_data t (sha256_hex cd bytes) = Some bytes" if "asset_le s' t" for t
      using that s'(4) by (auto simp: asset_le_def map_le_def dom_def)
    then have "\<forall>t. asset_le s' t \<longrightarrow> part_from_snapshot cd sqlite_text t
        (SnapImageRef (sha256_hex cd bytes) mime detail) = part"
      using h(2,4) InputImage by (simp add: part_from_snapshot_def load_image_data_url_def)
    then show ?thesis using s' InputImage by (auto simp: part_to_snapshot_def)
  qed
qed (auto intro: asset_le_order)

definition message_ok :: "codecs \<Rightarrow> string set \<Rightarrow> 'j llm_message \<Rightarrow> bool" where
  "message_ok cd B m =
     (case lm_content m of TextContent _ \<Rightarrow> True | PartsContent ps \<Rightarrow> list_all (part_ok cd B) ps)"

definition message_from_snapshot ::
  "codecs \<Rightarrow> (sqlite_error \<Rightarrow> string) \<Rightarrow> asset_store \<Rightarrow> 'j snapshot_message \<Rightarrow> 'j llm_message" where
  "message_from_snapshot cd sqlite_text store m =
     with_content m (content_from_snapshot cd sqlite_text store (lm_content m))"

lemma messages_from_snapshot_map:
  "messages_from_snapshot cd sqlite_text t snap = map (message_from_snapshot cd sqlite_text t) snap"
  by (simp add: messages_from_snapshot_def message_from_snapshot_def)

interpretation image_messages: restoring "asset_inv cd B" asset_le "message_ok cd B" "message_to_snapshot cd now"
    "message_from_snapshot cd sqlite_text" for cd B now sqlite_text
proof
  fix m :: "'j llm_message" and store
  assume ok: "message_ok cd B m" and inv: "asset_inv cd B store"
  show "\<exists>y s'. message_to_snapshot cd now m store = Inr (y, s') \<and> asset_inv cd B s' \<and> asset_le store s' \<and>
      (\<forall>t. asset_le s' t \<longrightarrow> message_from_snapshot cd sqlite_text t y = m)"
  proof (cases "lm_content m")
    case (TextContent body)
    then have "message_to_snapshot cd now m store = Inr (with_content m (TextContent body), store)"
      by (simp add: message_to_snapshot_def content_to_snapshot_def)
    moreover have "message_from_snapshot cd sqlite_text t (with_content m (TextContent body)) = m" for t
      using TextContent by (simp add: message_from_snapshot_def with_content_def content_from_snapshot_def)
    ultimately show ?thesis using inv asset_le_order(1) by blast
  next
    case (PartsContent parts)
    then have "list_all (part_ok cd B) parts" using ok by (simp add: message_ok_def)
    from image_parts.restores_all [OF this inv, of now sqlite_text] obtain ys s' where
      ys: "collect_with (part_to_snapshot cd now) parts store = Inr (ys, s')" "asset_inv cd B s'"
        "asset_le store s'" "\<forall>t. asset_le s' t \<longrightarrow> map (part_from_snapshot cd sqlite_text t) ys = parts"
      by blast
    have "message_to_snapshot cd now m store = Inr (with_content m (PartsContent ys), s')"
      using PartsContent ys(1) by (simp add: message_to_snapshot_def content_to_snapshot_def)
    moreover have "message_from_snapshot cd sqlite_text t (with_content m (PartsContent ys)) = m"
      if "asset_le s' t" for t
      using PartsContent ys(4) that
      by (simp add: message_from_snapshot_def with_content_def content_from_snapshot_def)
    ultimately show ?thesis using ys(2,3) by blast
  qed
qed (auto intro: asset_le_order)


definition sample_codecs :: codecs where
  "sample_codecs = \<lparr>b64_decode = (\<lambda>s. Inr s), b64_encode = (\<lambda>s. s), sha256_hex = (\<lambda>_. replicate 64 CHR ''a'')\<rparr>"

definition sample_chat :: "unit llm_message list" where
  "sample_chat = [text_message ''user'' ''look'',
     (text_message ''user'' [])\<lparr>lm_content := PartsContent [InputText ''this'',
        InputImage ''data:image/png;base64,AAAA'' None]\<rparr>]"


end
