(* ===== verification/Db_Schema.thy ===== *)
theory Db_Schema
  imports Storage_Types
begin

text \<open>
  The rows of the SQLite schema that \<open>src/src/storage/migration.rs\<close> builds, as the storage
  layer reads and writes them, and the database as the record of its tables. A text column
  holding an enum keeps its string here and is parsed by the operation that reads it, so a
  value that does not parse is an error of that operation. One value of \<open>database\<close> is one
  SQLite file (\<open>egopulse.db\<close> or \<open>secret.db\<close>).

  Every operation of the storage layer is one SQLite transaction (or one statement), so it is
  modelled as a function that returns either an error, after which the database is unchanged,
  or its result with the next database. The clock (\<open>chrono::Utc::now().to_rfc3339()\<close>) and
  fresh UUIDs are arguments.
\<close>

section \<open>Conversations\<close>

record chat_row =
  ch_chat_id :: int
  ch_chat_title :: "string option"
  ch_chat_type :: string
  ch_last_message_time :: string
  ch_channel :: "string option"
  ch_external_chat_id :: "string option"
  ch_agent_id :: string
  ch_revision :: int
  ch_next_message_seq :: int
  ch_archived :: bool
  ch_pinned :: bool

record ('sk, 'mk) msg =
  msg_id :: string
  msg_chat_id :: int
  msg_sender_id :: string
  msg_content :: string
  msg_sender_kind :: 'sk
  msg_timestamp :: string
  msg_message_kind :: 'mk
  msg_recipient_agent_id :: "string option"
  msg_seq :: "int option"
  msg_turn_id :: "string option"
  msg_parent_message_id :: "string option"

type_synonym message_row = "(string, string) msg"

type_synonym stored_message = "(sender_kind, message_kind) msg"

record session_row =
  ses_chat_id :: int
  ses_messages_json :: string
  ses_updated_at :: string
  ses_snapshot_through_seq :: int

section \<open>Turns\<close>

text \<open>
  \<open>turn_runs\<close>: with \<open>'s\<close> the state column (its text in the table, the enum in the
  \<open>TurnRun\<close> struct) and \<open>'b\<close> the \<open>output_published\<close> flag (an integer in the table).
\<close>

record ('s, 'b) turn_run =
  tr_turn_id :: string
  tr_chat_id :: int
  tr_request_key :: string
  tr_state :: 's
  tr_current_iteration :: int
  tr_input_message_id :: "string option"
  tr_final_message_id :: "string option"
  tr_config_revision :: int
  tr_config_fingerprint :: "string option"
  tr_model_request_hash :: "string option"
  tr_model_attempt :: int
  tr_output_published :: 'b
  tr_error_kind :: "string option"
  tr_error_message :: "string option"
  tr_accepted_at :: string
  tr_updated_at :: string
  tr_finished_at :: "string option"
  tr_request_payload_hash :: "string option"
  tr_scheduled_request_json :: "string option"
  tr_origin_id :: "string option"

type_synonym turn_row = "(string, int) turn_run"

type_synonym turn = "(turn_run_state, bool) turn_run"

record origin_row =
  or_origin_id :: string
  or_executed_turn_count :: int
  or_terminal_reason :: "string option"
  or_updated_at :: string

section \<open>Tool execution ledger\<close>

record tool_row =
  tl_id :: string
  tl_chat_id :: int
  tl_message_id :: string
  tl_tool_name :: string
  tl_tool_input :: string
  tl_tool_output :: "string option"
  tl_timestamp :: string
  tl_turn_id :: "string option"
  tl_state :: string
  tl_input_hash :: "string option"
  tl_idempotency_class :: "string option"
  tl_idempotency_key :: "string option"
  tl_started_at :: "string option"
  tl_finished_at :: "string option"
  tl_error_kind :: "string option"
  tl_error_message :: "string option"

section \<open>Sleep and Pulse\<close>

record ('s, 't) sleep_run =
  sr_id :: string
  sr_agent_id :: string
  sr_status :: 's
  sr_trigger :: 't
  sr_started_at :: string
  sr_finished_at :: "string option"
  sr_source_chats_json :: string
  sr_source_digest_md :: "string option"
  sr_input_tokens :: int
  sr_output_tokens :: int
  sr_total_tokens :: int
  sr_error_message :: "string option"

type_synonym sleep_run_row = "(string, string) sleep_run"

record ('n, 's) sleep_step =
  st_sleep_run_id :: string
  st_step_name :: 'n
  st_status :: 's
  st_started_at :: "string option"
  st_finished_at :: "string option"
  st_input_tokens :: int
  st_output_tokens :: int
  st_error_message :: "string option"
  st_metadata_json :: "string option"

type_synonym sleep_step_row = "(string, string) sleep_step"

type_synonym sleep_run_step = "(sleep_step_name, sleep_step_status) sleep_step"

record ('n, 'k) checkpoint =
  cp_agent_id :: string
  cp_step_name :: 'n
  cp_source_kind :: 'k
  cp_source_id :: string
  cp_cursor_at :: string
  cp_cursor_id :: string
  cp_updated_at :: string

type_synonym checkpoint_row = "(string, string) checkpoint"

type_synonym sleep_step_checkpoint = "(sleep_step_name, checkpoint_source_kind) checkpoint"

record 'f memory_snapshot =
  ms_id :: string
  ms_run_id :: string
  ms_agent_id :: string
  ms_file :: 'f
  ms_content_before :: string
  ms_content_after :: string
  ms_created_at :: string

type_synonym memory_snapshot_row = "string memory_snapshot"

record ('k, 'c) episode_event =
  ev_id :: string
  ev_agent_id :: string
  ev_experienced_at :: string
  ev_encoded_at :: string
  ev_kind :: 'k
  ev_title :: string
  ev_body_md :: string
  ev_ripple_strength :: int
  ev_certainty :: 'c
  ev_sleep_run_id :: string
  ev_source_refs_json :: "string option"
  ev_created_at :: string
  ev_updated_at :: string

type_synonym episode_event_row = "(string, string) episode_event"

record ('s, 'o) pulse_run =
  pr_id :: string
  pr_agent_id :: string
  pr_intention_id :: string
  pr_due_key :: string
  pr_chat_id :: "int option"
  pr_message_id :: "string option"
  pr_status :: 's
  pr_started_at :: string
  pr_finished_at :: "string option"
  pr_output_kind :: "'o option"
  pr_output_text :: "string option"
  pr_error_message :: "string option"
  pr_attention_snapshot :: "string option"

type_synonym pulse_row = "(string, string) pulse_run"

section \<open>The database\<close>

record database =
  chats :: "chat_row list"
  messages :: "message_row list"
  sessions :: "session_row list"
  turn_runs :: "turn_row list"
  turn_origins :: "origin_row list"
  tool_calls :: "tool_row list"
  sleep_runs :: "sleep_run_row list"
  sleep_run_steps :: "sleep_step_row list"
  sleep_step_checkpoints :: "checkpoint_row list"
  memory_snapshots :: "memory_snapshot_row list"
  episode_events :: "episode_event_row list"
  pulse_runs :: "pulse_row list"

definition empty_database :: database where
  "empty_database =
     \<lparr>chats = [], messages = [], sessions = [], turn_runs = [], turn_origins = [],
      tool_calls = [], sleep_runs = [], sleep_run_steps = [], sleep_step_checkpoints = [],
      memory_snapshots = [], episode_events = [], pulse_runs = []\<rparr>"

type_synonym 'a tx = "storage_error + ('a \<times> database)"

end
