(* ===== verification/Chat_Store.thy ===== *)
theory Chat_Store
  imports Db_Schema
begin

text \<open>
  \<open>src/src/storage/chat.rs\<close>: chats, committed and staged messages, and session snapshots.
  Every conversation write issues the next per-chat \<open>seq\<close> and advances \<open>chats.revision\<close>,
  the compare-and-swap token of the next writer. The theory gives the operations, the
  invariant they keep (\<open>chat_inv\<close>), the effect of a commit, and the reads of the history.
\<close>

section \<open>Rows\<close>

definition message_to_row :: "stored_message \<Rightarrow> int option \<Rightarrow> message_row" where
  "message_to_row m seq =
     \<lparr>msg_id = msg_id m, msg_chat_id = msg_chat_id m, msg_sender_id = msg_sender_id m,
      msg_content = msg_content m, msg_sender_kind = sender_kind_display (msg_sender_kind m),
      msg_timestamp = msg_timestamp m,
      msg_message_kind = message_kind_display (msg_message_kind m),
      msg_recipient_agent_id = msg_recipient_agent_id m, msg_seq = seq,
      msg_turn_id = msg_turn_id m, msg_parent_message_id = msg_parent_message_id m\<rparr>"

definition row_to_stored_message :: "message_row \<Rightarrow> storage_error + stored_message" where
  "row_to_stored_message r =
     rbind (parse_row_enum sender_kind_from_str 4 (msg_sender_kind r)) (\<lambda>sk.
     rbind (parse_row_enum message_kind_from_str 6 (msg_message_kind r)) (\<lambda>mk.
     Inr \<lparr>msg_id = msg_id r, msg_chat_id = msg_chat_id r, msg_sender_id = msg_sender_id r,
       msg_content = msg_content r, msg_sender_kind = sk, msg_timestamp = msg_timestamp r,
       msg_message_kind = mk, msg_recipient_agent_id = msg_recipient_agent_id r,
       msg_seq = msg_seq r, msg_turn_id = msg_turn_id r,
       msg_parent_message_id = msg_parent_message_id r\<rparr>))"

text \<open>\<open>StoredMessage::new\<close> and its public constructors; \<open>uuid\<close> and \<open>now\<close> are arguments.\<close>

definition stored_message_new ::
  "string \<Rightarrow> string \<Rightarrow> int \<Rightarrow> string \<Rightarrow> string \<Rightarrow> sender_kind \<Rightarrow> string option \<Rightarrow> stored_message" where
  "stored_message_new uuid now chat_id sender_id content sender_kind recipient_agent_id =
     \<lparr>msg_id = uuid, msg_chat_id = chat_id, msg_sender_id = sender_id, msg_content = content,
      msg_sender_kind = sender_kind, msg_timestamp = now, msg_message_kind = MessageMsg,
      msg_recipient_agent_id = recipient_agent_id, msg_seq = None, msg_turn_id = None,
      msg_parent_message_id = None\<rparr>"

definition stored_message_system :: "string \<Rightarrow> string \<Rightarrow> int \<Rightarrow> string \<Rightarrow> stored_message" where
  "stored_message_system uuid now chat_id content =
     stored_message_new uuid now chat_id ''system'' content SenderSystem None"

definition stored_message_assistant :: "string \<Rightarrow> string \<Rightarrow> int \<Rightarrow> string \<Rightarrow> string \<Rightarrow> stored_message" where
  "stored_message_assistant uuid now chat_id sender_id content =
     stored_message_new uuid now chat_id sender_id content SenderAssistant None"

definition stored_message_user :: "string \<Rightarrow> string \<Rightarrow> int \<Rightarrow> string \<Rightarrow> string \<Rightarrow> stored_message" where
  "stored_message_user uuid now chat_id sender_id content =
     stored_message_new uuid now chat_id sender_id content SenderUser None"

definition stored_message_tool_result_preview ::
  "string \<Rightarrow> string \<Rightarrow> int \<Rightarrow> string \<Rightarrow> string \<Rightarrow> string \<Rightarrow> stored_message" where
  "stored_message_tool_result_preview uuid now chat_id sender_id content parent =
     (stored_message_assistant uuid now chat_id sender_id content)\<lparr>msg_parent_message_id := Some parent\<rparr>"

section \<open>Resolving chats\<close>

record chat_info =
  ci_chat_id :: int
  ci_channel :: string
  ci_external_chat_id :: string
  ci_chat_type :: string
  ci_agent_id :: string

definition chat_at :: "string \<Rightarrow> string \<Rightarrow> chat_row \<Rightarrow> bool" where
  "chat_at channel external_chat_id c =
     (ch_channel c = Some channel \<and> ch_external_chat_id c = Some external_chat_id)"

definition resolve_chat_id :: "string \<Rightarrow> string \<Rightarrow> database \<Rightarrow> int option" where
  "resolve_chat_id channel external_chat_id db =
     map_option ch_chat_id (find_row (chat_at channel external_chat_id) (chats db))"

text \<open>Reading a \<open>String\<close> from a NULL column fails the row.\<close>

definition get_chat_by_id :: "int \<Rightarrow> database \<Rightarrow> storage_error + chat_info option" where
  "get_chat_by_id chat_id db =
     (case find_row (\<lambda>c. ch_chat_id c = chat_id) (chats db) of
        None \<Rightarrow> Inr None
      | Some c \<Rightarrow>
          rbind (ok_or (ch_channel c) (Sqlite (InvalidColumnType 0))) (\<lambda>channel.
          rbind (ok_or (ch_external_chat_id c) (Sqlite (InvalidColumnType 1))) (\<lambda>ext.
          Inr (Some \<lparr>ci_chat_id = chat_id, ci_channel = channel, ci_external_chat_id = ext,
            ci_chat_type = ch_chat_type c, ci_agent_id = ch_agent_id c\<rparr>))))"

definition get_chat_by_channel_external_and_agent ::
  "string \<Rightarrow> string \<Rightarrow> string \<Rightarrow> database \<Rightarrow> chat_info option" where
  "get_chat_by_channel_external_and_agent channel external_chat_id agent_id db =
     map_option (\<lambda>c. \<lparr>ci_chat_id = ch_chat_id c, ci_channel = channel,
         ci_external_chat_id = external_chat_id, ci_chat_type = ch_chat_type c,
         ci_agent_id = ch_agent_id c\<rparr>)
       (find_row (\<lambda>c. chat_at channel external_chat_id c \<and> ch_agent_id c = agent_id) (chats db))"

text \<open>
  An insert without \<open>chat_id\<close> takes the next rowid: one more than the largest, or 1. The
  \<open>agent_id\<close> column is never NULL, so \<open>COALESCE(agent_id, ?4)\<close> keeps the stored agent.
\<close>

definition next_rowid :: "database \<Rightarrow> int" where
  "next_rowid db = (if chats db = [] then 1 else Max (set (map ch_chat_id (chats db))) + 1)"

definition new_chat_row :: "int \<Rightarrow> string \<Rightarrow> chat_row" where
  "new_chat_row chat_id now =
     \<lparr>ch_chat_id = chat_id, ch_chat_title = None, ch_chat_type = ''private'',
      ch_last_message_time = now, ch_channel = None, ch_external_chat_id = None,
      ch_agent_id = ''default'', ch_revision = 0, ch_next_message_seq = 1,
      ch_archived = False, ch_pinned = False\<rparr>"

definition resolve_or_create_chat_id ::
  "string \<Rightarrow> string \<Rightarrow> string \<Rightarrow> string \<Rightarrow> string \<Rightarrow> database \<Rightarrow> int tx" where
  "resolve_or_create_chat_id now channel external_chat_id chat_type agent_id db =
     (case find_row (chat_at channel external_chat_id) (chats db) of
        Some c \<Rightarrow>
          Inr (ch_chat_id c,
            db\<lparr>chats := update_rows (\<lambda>r. ch_chat_id r = ch_chat_id c)
                 (\<lambda>r. r\<lparr>ch_chat_type := chat_type, ch_last_message_time := now\<rparr>) (chats db)\<rparr>)
      | None \<Rightarrow>
          (let row = (new_chat_row (next_rowid db) now)
                 \<lparr>ch_chat_type := chat_type, ch_channel := Some channel,
                  ch_external_chat_id := Some external_chat_id, ch_agent_id := agent_id\<rparr>;
               db' = db\<lparr>chats := insert_row row (chats db)\<rparr>
           in rbind (ok_or (resolve_chat_id channel external_chat_id db')
                       (Sqlite QueryReturnedNoRows)) (\<lambda>id. Inr (id, db'))))"

section \<open>Conversation writes\<close>

record commit_outcome =
  co_revision :: int
  co_seq :: int

definition ensure_chat_row :: "string \<Rightarrow> int \<Rightarrow> database \<Rightarrow> database" where
  "ensure_chat_row now chat_id db =
     (if exists_row (\<lambda>c. ch_chat_id c = chat_id) (chats db) then db
      else db\<lparr>chats := insert_row (new_chat_row chat_id now) (chats db)\<rparr>)"

definition read_conversation_commit_cursor ::
  "string \<Rightarrow> int \<Rightarrow> int option \<Rightarrow> bool \<Rightarrow> database \<Rightarrow> (int \<times> int) tx" where
  "read_conversation_commit_cursor now chat_id expected_revision require_new_session db =
     (let db1 = ensure_chat_row now chat_id db in
      rbind (ok_or (find_row (\<lambda>c. ch_chat_id c = chat_id) (chats db1))
               (Sqlite QueryReturnedNoRows)) (\<lambda>c.
      rbind
        (case expected_revision of
           Some expected \<Rightarrow> require (expected = ch_revision c) SessionSnapshotConflict
         | None \<Rightarrow>
             require (\<not> (require_new_session \<and>
                 exists_row (\<lambda>s. ses_chat_id s = chat_id) (sessions db1)))
               SessionSnapshotConflict) (\<lambda>_.
      Inr ((ch_revision c, ch_next_message_seq c), db1))))"

definition write_session_snapshot_locked ::
  "int \<Rightarrow> string \<Rightarrow> string \<Rightarrow> int \<Rightarrow> database \<Rightarrow> database" where
  "write_session_snapshot_locked chat_id session_json updated_at through db =
     (let row = \<lparr>ses_chat_id = chat_id, ses_messages_json = session_json,
                 ses_updated_at = updated_at, ses_snapshot_through_seq = through\<rparr>
      in if exists_row (\<lambda>s. ses_chat_id s = chat_id) (sessions db)
         then db\<lparr>sessions := update_rows (\<lambda>s. ses_chat_id s = chat_id) (\<lambda>_. row) (sessions db)\<rparr>
         else db\<lparr>sessions := insert_row row (sessions db)\<rparr>)"

definition advance_chat_revision_locked :: "int \<Rightarrow> int \<Rightarrow> string \<Rightarrow> database \<Rightarrow> database" where
  "advance_chat_revision_locked chat_id committed_count last_message_time db =
     db\<lparr>chats := update_rows (\<lambda>c. ch_chat_id c = chat_id)
          (\<lambda>c. c\<lparr>ch_revision := ch_revision c + committed_count,
                 ch_next_message_seq := ch_next_message_seq c + committed_count,
                 ch_last_message_time := last_message_time\<rparr>) (chats db)\<rparr>"

definition has_message_key :: "string \<Rightarrow> int \<Rightarrow> message_row \<Rightarrow> bool" where
  "has_message_key i c r = (msg_id r = i \<and> msg_chat_id r = c)"

text \<open>What an idempotent re-commit compares.\<close>

definition same_stored_message :: "message_row \<Rightarrow> stored_message \<Rightarrow> bool" where
  "same_stored_message r m =
     (msg_content r = msg_content m \<and> msg_sender_id r = msg_sender_id m \<and>
      msg_message_kind r = message_kind_display (msg_message_kind m) \<and>
      msg_turn_id r = msg_turn_id m \<and> msg_parent_message_id r = msg_parent_message_id m)"

text \<open>
  \<open>INSERT OR IGNORE\<close> inserts nothing when the key \<open>(id, chat_id)\<close> is taken or when another
  row of the chat already has the \<open>seq\<close>.
\<close>

definition commit_message_locked ::
  "string \<Rightarrow> stored_message \<Rightarrow> string option \<Rightarrow> int option \<Rightarrow> database \<Rightarrow> commit_outcome tx" where
  "commit_message_locked now m session_json expected_revision db =
     rbind (read_conversation_commit_cursor now (msg_chat_id m) expected_revision
              (session_json \<noteq> None) db) (\<lambda>((current_revision, seq), db1).
     if exists_row (has_message_key (msg_id m) (msg_chat_id m)) (messages db1) \<or>
        exists_row (\<lambda>r. msg_chat_id r = msg_chat_id m \<and> msg_seq r = Some seq) (messages db1)
     then
       rbind (ok_or (find_row (has_message_key (msg_id m) (msg_chat_id m)) (messages db1))
                (Sqlite QueryReturnedNoRows)) (\<lambda>stored.
       rbind (require (same_stored_message stored m)
                (Conflict (''message id collision: '' @ msg_id m @
                   '' already exists with different content''))) (\<lambda>_.
       Inr (\<lparr>co_revision = current_revision, co_seq = seq\<rparr>, db1)))
     else
       (let db2 = db1\<lparr>messages := insert_row (message_to_row m (Some seq)) (messages db1)\<rparr>;
            db3 = (case session_json of
                     None \<Rightarrow> db2
                   | Some json \<Rightarrow> write_session_snapshot_locked (msg_chat_id m) json now seq db2)
        in Inr (\<lparr>co_revision = current_revision + 1, co_seq = seq\<rparr>,
             advance_chat_revision_locked (msg_chat_id m) 1 now db3)))"

definition commit_conversation_message ::
  "string \<Rightarrow> stored_message \<Rightarrow> string option \<Rightarrow> int option \<Rightarrow> database \<Rightarrow> commit_outcome tx" where
  "commit_conversation_message now m session_json expected_revision db =
     commit_message_locked now m session_json expected_revision db"

text \<open>\<open>SELECT MAX(seq)\<close> over the committed messages of a chat; NULL when there are none.\<close>

definition max_seq :: "int \<Rightarrow> database \<Rightarrow> int option" where
  "max_seq chat_id db =
     (let qs = List.map_filter msg_seq (filter (\<lambda>r. msg_chat_id r = chat_id) (messages db))
      in if qs = [] then None else Some (Max (set qs)))"

definition update_session_snapshot ::
  "string \<Rightarrow> int \<Rightarrow> string \<Rightarrow> int option \<Rightarrow> database \<Rightarrow> commit_outcome tx" where
  "update_session_snapshot now chat_id session_json expected_revision db =
     (let db1 = ensure_chat_row now chat_id db in
      rbind (ok_or (find_row (\<lambda>c. ch_chat_id c = chat_id) (chats db1))
               (Sqlite QueryReturnedNoRows)) (\<lambda>c.
      rbind (case expected_revision of
               Some expected \<Rightarrow> require (expected = ch_revision c) SessionSnapshotConflict
             | None \<Rightarrow> Inr ()) (\<lambda>_.
      let through = (case max_seq chat_id db1 of Some s \<Rightarrow> s | None \<Rightarrow> 0);
          db2 = write_session_snapshot_locked chat_id session_json now through db1
      in Inr (\<lparr>co_revision = ch_revision c + 1, co_seq = through\<rparr>,
           db2\<lparr>chats := update_rows (\<lambda>c. ch_chat_id c = chat_id)
                 (\<lambda>c. c\<lparr>ch_revision := ch_revision c + 1, ch_last_message_time := now\<rparr>)
                 (chats db2)\<rparr>))))"

definition store_channel_log_message :: "string \<Rightarrow> stored_message \<Rightarrow> database \<Rightarrow> int tx" where
  "store_channel_log_message now m db =
     rbind (commit_conversation_message now m None None db) (\<lambda>(outcome, db').
     Inr (co_seq outcome, db'))"

definition save_session :: "string \<Rightarrow> int \<Rightarrow> string \<Rightarrow> database \<Rightarrow> unit tx" where
  "save_session now chat_id messages_json db =
     rbind (update_session_snapshot now chat_id messages_json None db) (\<lambda>(_, db'). Inr ((), db'))"

definition update_chat_display_meta ::
  "int \<Rightarrow> string option option \<Rightarrow> bool option \<Rightarrow> bool option \<Rightarrow> database \<Rightarrow> bool \<times> database" where
  "update_chat_display_meta chat_id name archived pinned db =
     (exists_row (\<lambda>c. ch_chat_id c = chat_id) (chats db),
      db\<lparr>chats := update_rows (\<lambda>c. ch_chat_id c = chat_id)
           (\<lambda>c. c\<lparr>ch_chat_title := (case name of Some title \<Rightarrow> title | None \<Rightarrow> ch_chat_title c),
                  ch_archived := (case archived of Some b \<Rightarrow> b | None \<Rightarrow> ch_archived c),
                  ch_pinned := (case pinned of Some b \<Rightarrow> b | None \<Rightarrow> ch_pinned c)\<rparr>) (chats db)\<rparr>)"

definition truncate_session_messages ::
  "string \<Rightarrow> int \<Rightarrow> int \<Rightarrow> string \<Rightarrow> database \<Rightarrow> bool tx" where
  "truncate_session_messages now chat_id expected_revision new_messages_json db =
     (case update_session_snapshot now chat_id new_messages_json (Some expected_revision) db of
        Inr (_, db') \<Rightarrow> Inr (True, db')
      | Inl SessionSnapshotConflict \<Rightarrow> Inr (False, db)
      | Inl other \<Rightarrow> Inl other)"

definition clear_session_messages :: "string \<Rightarrow> int \<Rightarrow> int \<Rightarrow> database \<Rightarrow> bool tx" where
  "clear_session_messages now chat_id expected_revision db =
     (case update_session_snapshot now chat_id ''[]'' (Some expected_revision) db of
        Inr (_, db') \<Rightarrow> Inr (True, db')
      | Inl SessionSnapshotConflict \<Rightarrow> Inr (False, db)
      | Inl other \<Rightarrow> Inl other)"

definition store_message_with_session ::
  "string \<Rightarrow> stored_message \<Rightarrow> string \<Rightarrow> int option \<Rightarrow> database \<Rightarrow> int tx" where
  "store_message_with_session now m messages_json expected_revision db =
     rbind (commit_conversation_message now m (Some messages_json) expected_revision db)
       (\<lambda>(outcome, db'). Inr (co_revision outcome, db'))"

section \<open>What a chat looks like to a writer\<close>

definition chat_of :: "int \<Rightarrow> database \<Rightarrow> chat_row option" where
  "chat_of c db = find_row (\<lambda>r. ch_chat_id r = c) (chats db)"

text \<open>A missing chat counts as revision 0 and first sequence number 1, the column defaults.\<close>

definition revision_of :: "int \<Rightarrow> database \<Rightarrow> int" where
  "revision_of c db = (case chat_of c db of Some r \<Rightarrow> ch_revision r | None \<Rightarrow> 0)"

definition next_seq_of :: "int \<Rightarrow> database \<Rightarrow> int" where
  "next_seq_of c db = (case chat_of c db of Some r \<Rightarrow> ch_next_message_seq r | None \<Rightarrow> 1)"

definition has_session :: "int \<Rightarrow> database \<Rightarrow> bool" where
  "has_session c db = exists_row (\<lambda>s. ses_chat_id s = c) (sessions db)"

definition find_message :: "string \<Rightarrow> int \<Rightarrow> database \<Rightarrow> message_row option" where
  "find_message i c db = find_row (has_message_key i c) (messages db)"

definition message_row_ok :: "message_row \<Rightarrow> bool" where
  "message_row_ok r =
     (msg_sender_kind r \<in> range sender_kind_display \<and>
      msg_message_kind r \<in> range message_kind_display)"

text \<open>
  The invariant of the conversation tables: keys are unique, enum columns parse, no two
  committed messages of a chat share a \<open>seq\<close>, and every assigned \<open>seq\<close> and every snapshot
  bound is below the chat's next sequence number.
\<close>

definition chat_inv :: "database \<Rightarrow> bool" where
  "chat_inv db =
     (distinct (map ch_chat_id (chats db)) \<and>
      distinct (map (\<lambda>r. (msg_id r, msg_chat_id r)) (messages db)) \<and>
      distinct (map ses_chat_id (sessions db)) \<and>
      (\<forall>r \<in> set (messages db). message_row_ok r) \<and>
      (\<forall>r \<in> set (messages db). \<forall>s. msg_seq r = Some s \<longrightarrow> s < next_seq_of (msg_chat_id r) db) \<and>
      (\<forall>r \<in> set (messages db). \<forall>r' \<in> set (messages db). \<forall>s.
         msg_chat_id r = msg_chat_id r' \<and> msg_seq r = Some s \<and> msg_seq r' = Some s \<longrightarrow>
         msg_id r = msg_id r') \<and>
      (\<forall>s \<in> set (sessions db). ses_snapshot_through_seq s < next_seq_of (ses_chat_id s) db) \<and>
      (\<forall>c \<in> set (chats db). 1 \<le> ch_next_message_seq c))"

lemma chat_invD:
  assumes "chat_inv db"
  shows "distinct (map ch_chat_id (chats db))"
    and "distinct (map (\<lambda>r. (msg_id r, msg_chat_id r)) (messages db))"
    and "distinct (map ses_chat_id (sessions db))"
    and "r \<in> set (messages db) \<Longrightarrow> message_row_ok r"
    and "r \<in> set (messages db) \<Longrightarrow> msg_seq r = Some q \<Longrightarrow> q < next_seq_of (msg_chat_id r) db"
    and "r \<in> set (messages db) \<Longrightarrow> r' \<in> set (messages db) \<Longrightarrow>
      msg_chat_id r = msg_chat_id r' \<Longrightarrow> msg_seq r = Some q \<Longrightarrow> msg_seq r' = Some q \<Longrightarrow>
      msg_id r = msg_id r'"
    and "x \<in> set (sessions db) \<Longrightarrow> ses_snapshot_through_seq x < next_seq_of (ses_chat_id x) db"
    and "c \<in> set (chats db) \<Longrightarrow> 1 \<le> ch_next_message_seq c"
  using assms unfolding chat_inv_def by blast+

text \<open>The tables no conversation write touches.\<close>

definition conv_frame :: "database \<Rightarrow> database \<Rightarrow> bool" where
  "conv_frame db db' =
     (turn_runs db' = turn_runs db \<and> turn_origins db' = turn_origins db \<and>
      tool_calls db' = tool_calls db \<and> sleep_runs db' = sleep_runs db \<and>
      sleep_run_steps db' = sleep_run_steps db \<and>
      sleep_step_checkpoints db' = sleep_step_checkpoints db \<and>
      memory_snapshots db' = memory_snapshots db \<and>
      episode_events db' = episode_events db \<and> pulse_runs db' = pulse_runs db)"

lemma conv_frame_refl [simp]: "conv_frame db db"
  by (simp add: conv_frame_def)

lemma conv_frame_trans: "conv_frame a b \<Longrightarrow> conv_frame b c \<Longrightarrow> conv_frame a c"
  by (simp add: conv_frame_def)

section \<open>Effect of the building blocks\<close>

lemma ensure_chat_row_frame [simp]: "conv_frame db (ensure_chat_row now c db)"
  by (simp add: ensure_chat_row_def conv_frame_def)

lemma ensure_chat_row_tables [simp]:
  "messages (ensure_chat_row now c db) = messages db"
  "sessions (ensure_chat_row now c db) = sessions db"
  by (simp_all add: ensure_chat_row_def)

lemma chat_of_ensure:
  "chat_of d (ensure_chat_row now c db) =
     (case chat_of d db of Some r \<Rightarrow> Some r
      | None \<Rightarrow> if d = c then Some (new_chat_row c now) else None)"
proof (cases "exists_row (\<lambda>r. ch_chat_id r = c) (chats db)")
  case True
  then have "chat_of c db \<noteq> None"
    by (auto simp: chat_of_def find_row_None_iff row_simps)
  with True show ?thesis by (auto simp: ensure_chat_row_def split: option.split)
next
  case False
  then show ?thesis
    by (simp add: chat_of_def ensure_chat_row_def find_key_insert_row new_chat_row_def
        split: option.split)
qed

lemma revision_of_ensure [simp]: "revision_of d (ensure_chat_row now c db) = revision_of d db"
  by (auto simp: revision_of_def chat_of_ensure new_chat_row_def split: option.splits)

lemma next_seq_of_ensure [simp]: "next_seq_of d (ensure_chat_row now c db) = next_seq_of d db"
  by (auto simp: next_seq_of_def chat_of_ensure new_chat_row_def split: option.splits)

lemma chat_of_ensure_Some:
  "\<exists>r. chat_of c (ensure_chat_row now c db) = Some r \<and> ch_revision r = revision_of c db \<and>
     ch_next_message_seq r = next_seq_of c db"
  by (auto simp: chat_of_ensure revision_of_def next_seq_of_def new_chat_row_def
      split: option.splits)

lemma chat_inv_ensure: "chat_inv db \<Longrightarrow> chat_inv (ensure_chat_row now c db)"
proof -
  assume inv: "chat_inv db"
  have "distinct (map ch_chat_id (chats (ensure_chat_row now c db)))"
    using inv by (auto simp: chat_inv_def ensure_chat_row_def new_chat_row_def insert_row_def
        row_simps)
  moreover have "\<forall>r \<in> set (chats (ensure_chat_row now c db)). 1 \<le> ch_next_message_seq r"
    using inv by (auto simp: chat_inv_def ensure_chat_row_def new_chat_row_def row_simps)
  ultimately show ?thesis using inv unfolding chat_inv_def
    by (simp only: ensure_chat_row_tables next_seq_of_ensure) blast
qed

lemma write_session_frame [simp]:
  "conv_frame db (write_session_snapshot_locked c j now s db)"
  by (simp add: write_session_snapshot_locked_def conv_frame_def Let_def)

lemma write_session_tables [simp]:
  "chats (write_session_snapshot_locked c j now s db) = chats db"
  "messages (write_session_snapshot_locked c j now s db) = messages db"
  by (simp_all add: write_session_snapshot_locked_def Let_def)

lemma write_session_chat_of [simp]:
  "chat_of d (write_session_snapshot_locked c j now s db) = chat_of d db"
  "revision_of d (write_session_snapshot_locked c j now s db) = revision_of d db"
  "next_seq_of d (write_session_snapshot_locked c j now s db) = next_seq_of d db"
  by (simp_all add: chat_of_def revision_of_def next_seq_of_def)

lemma write_session_has_session:
  "has_session d (write_session_snapshot_locked c j now s db) = (d = c \<or> has_session d db)"
  by (auto simp: has_session_def write_session_snapshot_locked_def exists_key_iff Let_def
      map_key_replace insert_row_def simp del: set_map)

lemma advance_frame [simp]: "conv_frame db (advance_chat_revision_locked c n now db)"
  by (simp add: advance_chat_revision_locked_def conv_frame_def)

lemma advance_tables [simp]:
  "messages (advance_chat_revision_locked c n now db) = messages db"
  "sessions (advance_chat_revision_locked c n now db) = sessions db"
  by (simp_all add: advance_chat_revision_locked_def)

lemma chat_of_advance:
  "chat_of d (advance_chat_revision_locked c n now db) =
     (if d = c then map_option (\<lambda>r. r\<lparr>ch_revision := ch_revision r + n,
         ch_next_message_seq := ch_next_message_seq r + n, ch_last_message_time := now\<rparr>)
         (chat_of c db)
      else chat_of d db)"
  unfolding chat_of_def advance_chat_revision_locked_def
  by (simp add: find_key_update_rows)

lemma revision_of_advance:
  "chat_of c db \<noteq> None \<Longrightarrow> revision_of d (advance_chat_revision_locked c n now db) =
     revision_of d db + (if d = c then n else 0)"
  by (auto simp: revision_of_def chat_of_advance split: option.splits)

lemma next_seq_of_advance:
  "chat_of c db \<noteq> None \<Longrightarrow> next_seq_of d (advance_chat_revision_locked c n now db) =
     next_seq_of d db + (if d = c then n else 0)"
  by (auto simp: next_seq_of_def chat_of_advance split: option.splits)

lemma distinct_chat_ids_advance:
  "map ch_chat_id (chats (advance_chat_revision_locked c n now db)) = map ch_chat_id (chats db)"
  unfolding advance_chat_revision_locked_def by (simp add: map_key_update_rows)

section \<open>Effect of a commit\<close>

definition cas_ok :: "int option \<Rightarrow> bool \<Rightarrow> int \<Rightarrow> database \<Rightarrow> bool" where
  "cas_ok expected require_new c db =
     (case expected of Some n \<Rightarrow> n = revision_of c db
      | None \<Rightarrow> \<not> (require_new \<and> has_session c db))"

lemma cas_ok_ensure [simp]: "cas_ok e q c (ensure_chat_row now d db) = cas_ok e q c db"
  by (simp add: cas_ok_def has_session_def split: option.split)

lemma read_cursor_eq:
  "read_conversation_commit_cursor now c e q db =
     (if cas_ok e q c db
      then Inr ((revision_of c db, next_seq_of c db), ensure_chat_row now c db)
      else Inl SessionSnapshotConflict)"
proof -
  obtain r where r: "chat_of c (ensure_chat_row now c db) = Some r"
      "ch_revision r = revision_of c db" "ch_next_message_seq r = next_seq_of c db"
    using chat_of_ensure_Some [of c now db] by blast
  then show ?thesis
    by (simp add: read_conversation_commit_cursor_def Let_def chat_of_def cas_ok_def
        has_session_def require_def rbind_def split: option.split)
qed

text \<open>What a commit of a new message does.\<close>

definition commit_fresh :: "string \<Rightarrow> stored_message \<Rightarrow> string option \<Rightarrow> database \<Rightarrow> database" where
  "commit_fresh now m json db =
     (let seq = next_seq_of (msg_chat_id m) db;
          db1 = ensure_chat_row now (msg_chat_id m) db;
          db2 = db1\<lparr>messages := insert_row (message_to_row m (Some seq)) (messages db1)\<rparr>;
          db3 = (case json of None \<Rightarrow> db2
                 | Some j \<Rightarrow> write_session_snapshot_locked (msg_chat_id m) j now seq db2)
      in advance_chat_revision_locked (msg_chat_id m) 1 now db3)"

lemma seq_unused:
  "chat_inv db \<Longrightarrow> r \<in> set (messages db) \<Longrightarrow> msg_chat_id r = c \<Longrightarrow>
    msg_seq r \<noteq> Some (next_seq_of c db)"
  unfolding chat_inv_def by blast

lemma commit_message_locked_eq:
  assumes "chat_inv db"
  shows "commit_message_locked now m json e db =
    (if \<not> cas_ok e (json \<noteq> None) (msg_chat_id m) db then Inl SessionSnapshotConflict
     else case find_message (msg_id m) (msg_chat_id m) db of
       Some stored \<Rightarrow>
         (if same_stored_message stored m
          then Inr (\<lparr>co_revision = revision_of (msg_chat_id m) db,
                     co_seq = next_seq_of (msg_chat_id m) db\<rparr>,
                   ensure_chat_row now (msg_chat_id m) db)
          else Inl (Conflict (''message id collision: '' @ msg_id m @
                 '' already exists with different content'')))
     | None \<Rightarrow> Inr (\<lparr>co_revision = revision_of (msg_chat_id m) db + 1,
                    co_seq = next_seq_of (msg_chat_id m) db\<rparr>, commit_fresh now m json db))"
proof -
  have fresh: "\<not> exists_row (\<lambda>r. msg_chat_id r = msg_chat_id m \<and>
      msg_seq r = Some (next_seq_of (msg_chat_id m) db)) (messages db)"
    using seq_unused [OF assms] by (auto simp: row_simps)
  have key: "exists_row (has_message_key (msg_id m) (msg_chat_id m)) (messages db) =
      (find_message (msg_id m) (msg_chat_id m) db \<noteq> None)"
    by (auto simp: find_message_def find_row_None_iff row_simps)
  show ?thesis
    unfolding commit_message_locked_def read_cursor_eq
    by (auto simp: fresh key find_message_def [symmetric] commit_fresh_def Let_def
        require_def split: option.split)
qed

lemma commit_fresh_frame [simp]: "conv_frame db (commit_fresh now m json db)"
  by (auto simp: commit_fresh_def Let_def conv_frame_def ensure_chat_row_def
      advance_chat_revision_locked_def write_session_snapshot_locked_def split: option.split)

lemma commit_fresh_messages [simp]:
  "messages (commit_fresh now m json db) =
     insert_row (message_to_row m (Some (next_seq_of (msg_chat_id m) db))) (messages db)"
  by (simp add: commit_fresh_def Let_def split: option.split)

lemma chat_of_messages_update [simp]:
  "chat_of c (db\<lparr>messages := ms\<rparr>) = chat_of c db"
  "revision_of c (db\<lparr>messages := ms\<rparr>) = revision_of c db"
  "next_seq_of c (db\<lparr>messages := ms\<rparr>) = next_seq_of c db"
  "has_session c (db\<lparr>messages := ms\<rparr>) = has_session c db"
  by (simp_all add: chat_of_def revision_of_def next_seq_of_def has_session_def)

lemma commit_fresh_chat:
  "revision_of d (commit_fresh now m json db) =
     revision_of d db + (if d = msg_chat_id m then 1 else 0)"
  "next_seq_of d (commit_fresh now m json db) =
     next_seq_of d db + (if d = msg_chat_id m then 1 else 0)"
proof -
  have "chat_of (msg_chat_id m) (ensure_chat_row now (msg_chat_id m) db) \<noteq> None"
    using chat_of_ensure_Some [of "msg_chat_id m" now db] by auto
  then show "revision_of d (commit_fresh now m json db) =
      revision_of d db + (if d = msg_chat_id m then 1 else 0)"
    and "next_seq_of d (commit_fresh now m json db) =
      next_seq_of d db + (if d = msg_chat_id m then 1 else 0)"
    by (simp_all add: commit_fresh_def Let_def revision_of_advance next_seq_of_advance
        split: option.split)
qed

lemma commit_fresh_has_session:
  "has_session d (commit_fresh now m json db) =
     (has_session d db \<or> (json \<noteq> None \<and> d = msg_chat_id m))"
  unfolding commit_fresh_def Let_def
  by (cases json) (auto simp: has_session_def exists_key_iff write_session_snapshot_locked_def
      map_key_replace insert_row_def Let_def simp del: set_map)

lemma message_to_row_simps [simp]:
  "msg_id (message_to_row m q) = msg_id m"
  "msg_chat_id (message_to_row m q) = msg_chat_id m"
  "msg_seq (message_to_row m q) = q"
  "msg_turn_id (message_to_row m q) = msg_turn_id m"
  "msg_content (message_to_row m q) = msg_content m"
  "msg_message_kind (message_to_row m q) = message_kind_display (msg_message_kind m)"
  "msg_sender_kind (message_to_row m q) = sender_kind_display (msg_sender_kind m)"
  "message_row_ok (message_to_row m q)"
  by (simp_all add: message_to_row_def message_row_ok_def)

lemma write_session_sessions:
  assumes "distinct (map ses_chat_id (sessions db))"
  shows "distinct (map ses_chat_id (sessions (write_session_snapshot_locked c j now q db)))"
    and "s \<in> set (sessions (write_session_snapshot_locked c j now q db)) \<Longrightarrow>
      s \<in> set (sessions db) \<or> (ses_chat_id s = c \<and> ses_snapshot_through_seq s = q)"
proof -
  show "distinct (map ses_chat_id (sessions (write_session_snapshot_locked c j now q db)))"
    using assms unfolding write_session_snapshot_locked_def Let_def
    by (auto simp: map_key_replace exists_key_iff insert_row_def)
  show "s \<in> set (sessions (write_session_snapshot_locked c j now q db)) \<Longrightarrow>
      s \<in> set (sessions db) \<or> (ses_chat_id s = c \<and> ses_snapshot_through_seq s = q)"
    by (auto simp: write_session_snapshot_locked_def Let_def row_simps split: if_splits)
qed

lemma find_message_None:
  "find_message i c db = None \<Longrightarrow> r \<in> set (messages db) \<Longrightarrow> \<not> (msg_id r = i \<and> msg_chat_id r = c)"
  by (auto simp: find_message_def find_row_None_iff has_message_key_def)

lemma commit_fresh_sessions:
  assumes "distinct (map ses_chat_id (sessions db))"
  shows "distinct (map ses_chat_id (sessions (commit_fresh now m json db)))"
    and "s \<in> set (sessions (commit_fresh now m json db)) \<Longrightarrow>
      s \<in> set (sessions db) \<or> (ses_chat_id s = msg_chat_id m \<and>
        ses_snapshot_through_seq s = next_seq_of (msg_chat_id m) db)"
proof -
  let ?db = "(ensure_chat_row now (msg_chat_id m) db)
    \<lparr>messages := insert_row (message_to_row m (Some (next_seq_of (msg_chat_id m) db)))
       (messages db)\<rparr>"
  have "distinct (map ses_chat_id (sessions ?db))" using assms by simp
  note write_session_sessions [OF this]
  then show "distinct (map ses_chat_id (sessions (commit_fresh now m json db)))"
    and "s \<in> set (sessions (commit_fresh now m json db)) \<Longrightarrow>
      s \<in> set (sessions db) \<or> (ses_chat_id s = msg_chat_id m \<and>
        ses_snapshot_through_seq s = next_seq_of (msg_chat_id m) db)"
    using assms by (cases json; fastforce simp: commit_fresh_def Let_def)+
qed

lemma commit_fresh_chats:
  assumes "chat_inv db"
  shows "distinct (map ch_chat_id (chats (commit_fresh now m json db)))"
    and "\<forall>c \<in> set (chats (commit_fresh now m json db)). 1 \<le> ch_next_message_seq c"
proof -
  have inv: "chat_inv (ensure_chat_row now (msg_chat_id m) db)"
    using assms by (rule chat_inv_ensure)
  have chats_eq: "chats (commit_fresh now m json db) =
      chats (advance_chat_revision_locked (msg_chat_id m) 1 now
        (ensure_chat_row now (msg_chat_id m) db))"
    by (simp add: commit_fresh_def Let_def advance_chat_revision_locked_def split: option.split)
  show "distinct (map ch_chat_id (chats (commit_fresh now m json db)))"
    using chat_invD(1) [OF inv] by (simp only: chats_eq distinct_chat_ids_advance)
  have "\<forall>c \<in> set (chats (ensure_chat_row now (msg_chat_id m) db)). 1 \<le> ch_next_message_seq c"
    using chat_invD(8) [OF inv] by blast
  then show "\<forall>c \<in> set (chats (commit_fresh now m json db)). 1 \<le> ch_next_message_seq c"
    by (auto simp: chats_eq advance_chat_revision_locked_def row_simps)
qed

lemma commit_fresh_inv:
  assumes inv: "chat_inv db" and new: "find_message (msg_id m) (msg_chat_id m) db = None"
  shows "chat_inv (commit_fresh now m json db)"
proof -
  let ?db' = "commit_fresh now m json db" and ?n = "next_seq_of (msg_chat_id m) db"
  have ses: "\<forall>s \<in> set (sessions ?db').
      ses_snapshot_through_seq s < next_seq_of (ses_chat_id s) ?db'"
  proof
    fix s assume "s \<in> set (sessions ?db')"
    then have "s \<in> set (sessions db) \<or>
        (ses_chat_id s = msg_chat_id m \<and> ses_snapshot_through_seq s = ?n)"
      by (rule commit_fresh_sessions(2) [OF chat_invD(3) [OF inv]])
    moreover have "s \<in> set (sessions db) \<Longrightarrow>
        ses_snapshot_through_seq s < next_seq_of (ses_chat_id s) db"
      by (rule chat_invD(7) [OF inv])
    ultimately show "ses_snapshot_through_seq s < next_seq_of (ses_chat_id s) ?db'"
      by (auto simp: commit_fresh_chat)
  qed
  have below: "s < next_seq_of (msg_chat_id r) ?db'"
    if "r \<in> set (messages ?db')" "msg_seq r = Some s" for r s
  proof -
    have "r \<in> set (messages db) \<Longrightarrow> s < next_seq_of (msg_chat_id r) db"
      using inv that(2) unfolding chat_inv_def by blast
    with that show ?thesis by (auto simp: commit_fresh_chat row_simps)
  qed
  have uniq: "msg_id r = msg_id r'"
    if "r \<in> set (messages ?db')" "r' \<in> set (messages ?db')" "msg_chat_id r = msg_chat_id r'"
      "msg_seq r = Some s" "msg_seq r' = Some s" for r r' s
  proof -
    have old: "r \<in> set (messages db) \<Longrightarrow> r' \<in> set (messages db) \<Longrightarrow> ?thesis"
      using inv that(3-5) unfolding chat_inv_def by blast
    have "x \<in> set (messages db) \<Longrightarrow> msg_chat_id x = msg_chat_id m \<Longrightarrow> msg_seq x \<noteq> Some ?n" for x
      using seq_unused [OF inv] by blast
    with that old show ?thesis by (auto simp: row_simps)
  qed
  have dm: "distinct (map (\<lambda>r. (msg_id r, msg_chat_id r)) (messages ?db'))"
  proof -
    have "(msg_id m, msg_chat_id m) \<notin> set (map (\<lambda>r. (msg_id r, msg_chat_id r)) (messages db))"
      using find_message_None [OF new] by fastforce
    then show ?thesis using chat_invD(2) [OF inv] by (simp add: insert_row_def)
  qed
  have ok: "\<forall>r \<in> set (messages ?db'). message_row_ok r"
    using chat_invD(4) [OF inv] by (auto simp: row_simps)
  have ds: "distinct (map ses_chat_id (sessions ?db'))"
    using commit_fresh_sessions(1) [OF chat_invD(3) [OF inv]] .
  show ?thesis
    unfolding chat_inv_def
    using commit_fresh_chats [OF inv, of now m json] dm ds ok below uniq ses by blast
qed

lemma commit_message_locked_inv:
  assumes inv: "chat_inv db" and ok: "commit_message_locked now m json e db = Inr (x, db')"
  shows "chat_inv db'"
  using ok commit_fresh_inv [OF inv, of m] chat_inv_ensure [OF inv]
  by (auto simp: commit_message_locked_eq [OF inv] split: if_splits option.splits)

lemma commit_message_locked_frame:
  assumes inv: "chat_inv db" and ok: "commit_message_locked now m json e db = Inr (x, db')"
  shows "conv_frame db db'"
  using ok by (auto simp: commit_message_locked_eq [OF inv] split: if_splits option.splits)

text \<open>The other tables are left alone even if the chat tables are not well-formed.\<close>

lemma read_cursor_frame:
  "read_conversation_commit_cursor now c e n db = Inr (x, db1) \<Longrightarrow> conv_frame db db1"
  by (auto simp: read_conversation_commit_cursor_def res_simps Let_def ensure_chat_row_def conv_frame_def)

lemma commit_message_frame:
  assumes "commit_message_locked now m json q db = Inr (out, db')"
  shows "conv_frame db db'"
proof -
  obtain r n db1 where c: "read_conversation_commit_cursor now (msg_chat_id m) q (json \<noteq> None) db = Inr ((r, n), db1)"
    using assms by (auto simp: commit_message_locked_def rbind_Inr_iff)
  have step: "conv_frame d (d\<lparr>messages := ms\<rparr>)"
    "conv_frame d e \<Longrightarrow> conv_frame d (advance_chat_revision_locked x y z e)"
    "conv_frame d e \<Longrightarrow> conv_frame d (write_session_snapshot_locked x j z y e)" for d e ms x y z j
    by (simp_all add: conv_frame_def advance_chat_revision_locked_def write_session_snapshot_locked_def Let_def)
  have "conv_frame db1 db'"
    using assms c
    by (auto simp: commit_message_locked_def Let_def rbind_Inr_iff step split: if_splits option.splits)
  then show ?thesis using read_cursor_frame [OF c] conv_frame_trans by blast
qed

section \<open>Effect of a snapshot write\<close>

definition snapshot_write :: "string \<Rightarrow> int \<Rightarrow> string \<Rightarrow> int \<Rightarrow> database \<Rightarrow> database" where
  "snapshot_write now c json through db =
     (let db2 = write_session_snapshot_locked c json now through (ensure_chat_row now c db)
      in db2\<lparr>chats := update_rows (\<lambda>r. ch_chat_id r = c)
           (\<lambda>r. r\<lparr>ch_revision := ch_revision r + 1, ch_last_message_time := now\<rparr>) (chats db2)\<rparr>)"

definition snapshot_bound :: "int \<Rightarrow> database \<Rightarrow> int" where
  "snapshot_bound c db = (case max_seq c db of Some s \<Rightarrow> s | None \<Rightarrow> 0)"

lemma max_seq_ensure [simp]: "max_seq c (ensure_chat_row now d db) = max_seq c db"
  by (simp add: max_seq_def)

lemma update_session_snapshot_eq:
  "update_session_snapshot now c json e db =
     (if (case e of Some n \<Rightarrow> n = revision_of c db | None \<Rightarrow> True)
      then Inr (\<lparr>co_revision = revision_of c db + 1, co_seq = snapshot_bound c db\<rparr>,
                snapshot_write now c json (snapshot_bound c db) db)
      else Inl SessionSnapshotConflict)"
proof -
  obtain r where r: "chat_of c (ensure_chat_row now c db) = Some r"
      "ch_revision r = revision_of c db"
    using chat_of_ensure_Some [of c now db] by blast
  then show ?thesis
    by (auto simp: update_session_snapshot_def Let_def chat_of_def require_def
        snapshot_bound_def snapshot_write_def split: option.split)
qed

lemma snapshot_write_frame [simp]: "conv_frame db (snapshot_write now c json q db)"
  by (auto simp: snapshot_write_def Let_def conv_frame_def ensure_chat_row_def
      write_session_snapshot_locked_def)

lemma snapshot_write_messages [simp]: "messages (snapshot_write now c json q db) = messages db"
  by (simp add: snapshot_write_def Let_def)

lemma chat_of_snapshot_write:
  "chat_of d (snapshot_write now c json q db) =
     (let r = chat_of d (ensure_chat_row now c db) in
      if d = c then map_option (\<lambda>r. r\<lparr>ch_revision := ch_revision r + 1,
        ch_last_message_time := now\<rparr>) r else r)"
  unfolding chat_of_def snapshot_write_def Let_def
  by (simp add: find_key_update_rows)

lemma snapshot_write_chat:
  "revision_of d (snapshot_write now c json q db) = revision_of d db + (if d = c then 1 else 0)"
  "next_seq_of d (snapshot_write now c json q db) = next_seq_of d db"
  using chat_of_ensure_Some [of c now db]
  by (auto simp: revision_of_def next_seq_of_def chat_of_snapshot_write Let_def chat_of_ensure
      new_chat_row_def split: option.split)

lemma snapshot_bound_less:
  assumes "chat_inv db"
  shows "snapshot_bound c db < next_seq_of c db"
proof -
  let ?qs = "List.map_filter msg_seq (filter (\<lambda>r. msg_chat_id r = c) (messages db))"
  have qs: "set ?qs = {q. \<exists>r \<in> set (messages db). msg_chat_id r = c \<and> msg_seq r = Some q}"
    by (force simp: map_filter_def)
  have one: "1 \<le> next_seq_of c db"
  proof (cases "chat_of c db")
    case None
    then show ?thesis by (simp add: next_seq_of_def)
  next
    case (Some r)
    then have "r \<in> set (chats db)" unfolding chat_of_def by (blast dest: find_row_Some)
    then have "1 \<le> ch_next_message_seq r" by (rule chat_invD(8) [OF assms])
    with Some show ?thesis by (simp add: next_seq_of_def)
  qed
  have less: "q < next_seq_of c db" if "q \<in> set ?qs" for q
    using that chat_invD(5) [OF assms] unfolding qs by blast
  show ?thesis
  proof (cases "?qs = []")
    case True
    then show ?thesis using one by (simp add: snapshot_bound_def max_seq_def)
  next
    case False
    then have "Max (set ?qs) \<in> set ?qs" by (intro Max_in) auto
    with False less show ?thesis by (simp add: snapshot_bound_def max_seq_def)
  qed
qed

lemma snapshot_write_inv:
  assumes inv: "chat_inv db" and q: "q < next_seq_of c db"
  shows "chat_inv (snapshot_write now c json q db)"
proof -
  let ?e = "ensure_chat_row now c db" and ?db' = "snapshot_write now c json q db"
  have inv1: "chat_inv ?e" using inv by (rule chat_inv_ensure)
  have chats': "chats ?db' = update_rows (\<lambda>r. ch_chat_id r = c)
      (\<lambda>r. r\<lparr>ch_revision := ch_revision r + 1, ch_last_message_time := now\<rparr>) (chats ?e)"
    by (simp add: snapshot_write_def Let_def)
  have ses': "sessions ?db' = sessions (write_session_snapshot_locked c json now q ?e)"
    by (simp add: snapshot_write_def Let_def)
  have "distinct (map ch_chat_id (chats ?db'))"
    using chat_invD(1) [OF inv1] by (simp add: chats' map_key_update_rows)
  moreover have "\<forall>r \<in> set (chats ?db'). 1 \<le> ch_next_message_seq r"
    using chat_invD(8) [OF inv1] by (auto simp: chats' row_simps)
  moreover have "distinct (map ses_chat_id (sessions ?db'))"
    unfolding ses' by (rule write_session_sessions(1) [OF chat_invD(3) [OF inv1]])
  moreover have "ses_snapshot_through_seq s < next_seq_of (ses_chat_id s) ?db'"
    if "s \<in> set (sessions ?db')" for s
    using write_session_sessions(2) [OF chat_invD(3) [OF inv1], of s c json now q] that q
      chat_invD(7) [OF inv1, of s] by (auto simp: ses' snapshot_write_chat)
  ultimately show ?thesis
    using inv unfolding chat_inv_def snapshot_write_messages snapshot_write_chat by blast
qed

lemma snapshot_write_has_session:
  "has_session d (snapshot_write now c json q db) = (d = c \<or> has_session d db)"
proof -
  have "has_session d (snapshot_write now c json q db) =
      has_session d (write_session_snapshot_locked c json now q (ensure_chat_row now c db))"
    by (simp add: snapshot_write_def Let_def has_session_def)
  then show ?thesis by (simp add: write_session_has_session) (simp add: has_session_def)
qed

section \<open>Optimistic concurrency of conversation writers\<close>

text \<open>
  The contract every writer of a conversation relies on: a commit that presents a revision
  succeeds only at that revision, and a commit that changes the conversation moves it on. It
  gives the absence of lost updates: of two writers that loaded the same revision, the second
  cannot commit after the first did.
\<close>

locale revision_cas =
  fixes revision :: "'k \<Rightarrow> 'db \<Rightarrow> int"
    and commit :: "'r \<Rightarrow> int option \<Rightarrow> 'db \<Rightarrow> 'e + 'db"
    and chat_key :: "'r \<Rightarrow> 'k"
    and advances :: "'r \<Rightarrow> 'db \<Rightarrow> bool"
    and invar :: "'db \<Rightarrow> bool"
  assumes cas: "invar db \<Longrightarrow> commit r (Some n) db = Inr db' \<Longrightarrow> n = revision (chat_key r) db"
    and commit_invar: "invar db \<Longrightarrow> commit r e db = Inr db' \<Longrightarrow> invar db'"
    and commit_mono: "invar db \<Longrightarrow> commit r e db = Inr db' \<Longrightarrow> revision k db \<le> revision k db'"
    and commit_advance: "invar db \<Longrightarrow> commit r e db = Inr db' \<Longrightarrow> advances r db \<Longrightarrow>
      revision (chat_key r) db < revision (chat_key r) db'"
begin

definition one_commit :: "'db \<Rightarrow> 'db \<Rightarrow> bool" where
  "one_commit db db' = (\<exists>r e. commit r e db = Inr db')"

lemma commits_mono: "one_commit\<^sup>*\<^sup>* db db' \<Longrightarrow> invar db \<Longrightarrow> invar db' \<and> revision k db \<le> revision k db'"
proof (induction rule: rtranclp_induct)
  case base
  then show ?case by simp
next
  case (step u v)
  then obtain r e where c: "commit r e u = Inr v" by (auto simp: one_commit_def)
  from step have "invar u" "revision k db \<le> revision k u" by auto
  with commit_invar [OF _ c] commit_mono [OF _ c, of k] show ?case by force
qed

lemma no_lost_update:
  assumes "invar db" "commit r1 e db = Inr db1" "advances r1 db" "one_commit\<^sup>*\<^sup>* db1 db2"
    and "chat_key r2 = chat_key r1" "n \<le> revision (chat_key r1) db"
  shows "\<exists>err. commit r2 (Some n) db2 = Inl err"
proof (cases "commit r2 (Some n) db2")
  case (Inr db3)
  have i1: "invar db1" using assms(1,2) by (rule commit_invar)
  have m: "invar db2 \<and> revision (chat_key r1) db1 \<le> revision (chat_key r1) db2"
    using assms(4) i1 by (rule commits_mono)
  have "n = revision (chat_key r2) db2" using m Inr by (blast intro: cas)
  moreover have "revision (chat_key r1) db < revision (chat_key r1) db1"
    using assms(1-3) by (rule commit_advance)
  ultimately show ?thesis using m assms(5,6) by simp
qed simp

end

end
