(* ===== verification/Sample_Db.thy ===== *)
theory Sample_Db
  imports Chat_Store
begin

text \<open>
  A small database on which the properties of the storage layer are instantiated: one chat
  with two committed messages (the second a Turn failure), one staged follow-up, and one Turn
  whose state is a parameter.
\<close>

definition sample_chat :: chat_row where
  "sample_chat = (new_chat_row 7 ''t0'')\<lparr>ch_revision := 2, ch_next_message_seq := 3\<rparr>"

definition sample_message :: "string \<Rightarrow> message_kind \<Rightarrow> int option \<Rightarrow> stored_message" where
  "sample_message i k q =
     \<lparr>msg_id = i, msg_chat_id = 7, msg_sender_id = ''ana'', msg_content = ''hello'',
      msg_sender_kind = SenderUser, msg_timestamp = ''t1'', msg_message_kind = k,
      msg_recipient_agent_id = None, msg_seq = q, msg_turn_id = Some ''turn-1'',
      msg_parent_message_id = None\<rparr>"

definition sample_rows :: "message_row list" where
  "sample_rows =
     [message_to_row (sample_message ''m1'' MessageMsg None) (Some 1),
      message_to_row (sample_message ''m2'' TurnFailureMsg None) (Some 2),
      message_to_row (sample_message ''m3'' MessageMsg None) None]"

definition sample_session :: session_row where
  "sample_session =
     \<lparr>ses_chat_id = 7, ses_messages_json = ''[]'', ses_updated_at = ''t1'',
      ses_snapshot_through_seq = 1\<rparr>"

definition sample_turn :: "string \<Rightarrow> turn_run_state \<Rightarrow> string option \<Rightarrow> turn_row" where
  "sample_turn i s json =
     \<lparr>tr_turn_id = i, tr_chat_id = 7, tr_request_key = ''key-'' @ i,
      tr_state = turn_run_state_display s, tr_current_iteration = 0, tr_input_message_id = None,
      tr_final_message_id = None, tr_config_revision = 0, tr_config_fingerprint = None,
      tr_model_request_hash = None, tr_model_attempt = 0, tr_output_published = 0,
      tr_error_kind = None, tr_error_message = None, tr_accepted_at = ''t1'',
      tr_updated_at = ''t1'', tr_finished_at = None, tr_request_payload_hash = Some ''h'',
      tr_scheduled_request_json = json, tr_origin_id = Some i\<rparr>"

definition sample_db :: "turn_run_state \<Rightarrow> database" where
  "sample_db s =
     empty_database\<lparr>chats := [sample_chat], messages := sample_rows,
       sessions := [sample_session], turn_runs := [sample_turn ''turn-1'' s (Some ''{}'')]\<rparr>"

lemmas sample_defs = sample_db_def sample_chat_def sample_rows_def sample_session_def
  sample_message_def sample_turn_def new_chat_row_def empty_database_def

lemma sample_db_numbers [simp]:
  "revision_of 7 (sample_db s) = 2"
  "next_seq_of 7 (sample_db s) = 3"
  by (simp_all add: revision_of_def next_seq_of_def chat_of_def sample_defs)

lemma sample_db_inv [simp]: "chat_inv (sample_db s)"
  unfolding chat_inv_def
  by (auto simp: sample_defs next_seq_of_def chat_of_def)

end
