(* ===== verification/Chat_History.thy ===== *)
theory Chat_History
  imports Sample_Db
begin

text \<open>
  The reads of \<open>src/src/storage/chat.rs\<close>: pages of the committed history in \<open>seq\<close> order, the
  context an LLM may see, the session snapshot, and the channel log projected for one agent.
  Every page is shown to be the expected stretch of the whole committed history.
\<close>

section \<open>Reads\<close>

text \<open>\<open>ORDER BY seq\<close> over committed rows (their \<open>seq\<close> is not NULL).\<close>

definition seq_key :: "message_row \<Rightarrow> int" where
  "seq_key r = (case msg_seq r of Some s \<Rightarrow> s | None \<Rightarrow> 0)"

definition committed_of :: "int \<Rightarrow> message_row \<Rightarrow> bool" where
  "committed_of c r = (msg_chat_id r = c \<and> msg_seq r \<noteq> None)"

text \<open>
  \<open>SELECT ... WHERE P ORDER BY seq DESC LIMIT n\<close>, row-mapped and reversed. A \<open>limit\<close> is a
  \<open>usize\<close> below the range where its cast to \<open>i64\<close> would turn negative.
\<close>

definition newest_page :: "(message_row \<Rightarrow> bool) \<Rightarrow> nat \<Rightarrow> database \<Rightarrow> storage_error + stored_message list" where
  "newest_page P limit db =
     rbind (rmap row_to_stored_message
              (take limit (rev (sort_key seq_key (filter P (messages db))))))
       (\<lambda>ms. Inr (rev ms))"

definition I64_MAX :: int where
  "I64_MAX = 9223372036854775807"

definition get_messages_before ::
  "int \<Rightarrow> int option \<Rightarrow> nat \<Rightarrow> database \<Rightarrow> storage_error + stored_message list" where
  "get_messages_before chat_id before_seq limit db =
     (let b = (case before_seq of Some s \<Rightarrow> s | None \<Rightarrow> I64_MAX)
      in newest_page (\<lambda>r. committed_of chat_id r \<and> seq_key r < b) limit db)"

definition get_recent_context_messages ::
  "int \<Rightarrow> nat \<Rightarrow> database \<Rightarrow> storage_error + stored_message list" where
  "get_recent_context_messages chat_id limit db =
     newest_page (\<lambda>r. committed_of chat_id r \<and>
         msg_message_kind r \<noteq> message_kind_display TurnFailureMsg) limit db"

definition has_messages_before :: "int \<Rightarrow> int \<Rightarrow> database \<Rightarrow> bool" where
  "has_messages_before chat_id before_seq db =
     exists_row (\<lambda>r. committed_of chat_id r \<and> seq_key r < before_seq) (messages db)"

definition get_recent_messages ::
  "int \<Rightarrow> nat \<Rightarrow> database \<Rightarrow> storage_error + stored_message list" where
  "get_recent_messages chat_id limit db = get_messages_before chat_id None limit db"

definition get_all_messages :: "int \<Rightarrow> database \<Rightarrow> storage_error + stored_message list" where
  "get_all_messages chat_id db =
     rmap row_to_stored_message (sort_key seq_key (filter (committed_of chat_id) (messages db)))"

definition get_message_content :: "string \<Rightarrow> database \<Rightarrow> string option" where
  "get_message_content message_id db =
     map_option msg_content (find_row (\<lambda>r. msg_id r = message_id) (messages db))"

record session_snapshot =
  ss_messages_json :: "string option"
  ss_session_revision :: "int option"
  ss_recent_messages :: "stored_message list"

definition load_session_snapshot :: "int \<Rightarrow> nat \<Rightarrow> database \<Rightarrow> storage_error + session_snapshot" where
  "load_session_snapshot chat_id limit db =
     (let session = map_option ses_messages_json
              (find_row (\<lambda>s. ses_chat_id s = chat_id) (sessions db));
          revision = (case find_row (\<lambda>c. ch_chat_id c = chat_id) (chats db) of
              Some c \<Rightarrow> ch_revision c | None \<Rightarrow> 0)
      in rbind (newest_page (\<lambda>r. committed_of chat_id r \<and>
             msg_message_kind r \<noteq> message_kind_display TurnFailureMsg) limit db) (\<lambda>recent.
         Inr \<lparr>ss_messages_json = session,
              ss_session_revision = map_option (\<lambda>_. revision) session,
              ss_recent_messages = recent\<rparr>))"

text \<open>
  The channel log: the row filter of \<open>get_channel_log_messages_for_agent\<close>, its two writers,
  and the external id of a room's log.
\<close>

definition channel_log_visible :: "int \<Rightarrow> string \<Rightarrow> message_row \<Rightarrow> bool" where
  "channel_log_visible chat_id agent_id r =
     (committed_of chat_id r \<and>
      (case msg_recipient_agent_id r of None \<Rightarrow> True | Some a \<Rightarrow> a \<noteq> agent_id) \<and>
      \<not> (msg_sender_id r = agent_id \<and> msg_sender_kind r \<in> {''assistant'', ''tool''}) \<and>
      ((msg_message_kind r = ''message'' \<and> msg_sender_kind r \<in> {''user'', ''assistant''}) \<or>
       msg_message_kind r = ''agent_send''))"

definition get_channel_log_messages_for_agent ::
  "int \<Rightarrow> string \<Rightarrow> nat \<Rightarrow> database \<Rightarrow> storage_error + stored_message list" where
  "get_channel_log_messages_for_agent chat_id agent_id limit db =
     newest_page (channel_log_visible chat_id agent_id) limit db"

definition channel_log_external_id :: "string \<Rightarrow> string \<Rightarrow> string" where
  "channel_log_external_id channel surface_thread =
     channel @ '':'' @ surface_thread @ '':multi-room-log''"

definition resolve_channel_log_chat_id :: "string \<Rightarrow> nat \<Rightarrow> database \<Rightarrow> int tx" where
  "resolve_channel_log_chat_id now channel_id db =
     resolve_or_create_chat_id now ''discord''
       (channel_log_external_id ''discord'' (show_nat channel_id)) ''channel_log'' '''' db"

definition resolve_telegram_channel_log_chat_id :: "string \<Rightarrow> int \<Rightarrow> database \<Rightarrow> int tx" where
  "resolve_telegram_channel_log_chat_id now chat_id db =
     resolve_or_create_chat_id now ''telegram''
       (channel_log_external_id ''telegram'' (show_int chat_id)) ''channel_log'' '''' db"

definition store_message_only :: "string \<Rightarrow> stored_message \<Rightarrow> database \<Rightarrow> unit tx" where
  "store_message_only now m db =
     rbind (store_channel_log_message now m db) (\<lambda>(_, db'). Inr ((), db'))"

definition store_channel_log_bot_response ::
  "string \<Rightarrow> string \<Rightarrow> int \<Rightarrow> string \<Rightarrow> string \<Rightarrow> database \<Rightarrow> unit tx" where
  "store_channel_log_bot_response uuid now channel_log_chat_id agent_id response db =
     rbind (store_channel_log_message now
       ((stored_message_new (''cl-bot-'' @ uuid) now channel_log_chat_id agent_id response
           SenderAssistant None)) db) (\<lambda>(_, db'). Inr ((), db'))"

section \<open>Row mapping\<close>

text \<open>The struct a well-formed row maps to.\<close>

definition stored_of :: "message_row \<Rightarrow> stored_message" where
  "stored_of r = (case row_to_stored_message r of Inr m \<Rightarrow> m | Inl _ \<Rightarrow> undefined)"

lemma row_to_stored_ok: "message_row_ok r \<Longrightarrow> row_to_stored_message r = Inr (stored_of r)"
  by (auto simp: message_row_ok_def stored_of_def row_to_stored_message_def parse_row_enum_def
      map_err_def)

lemma stored_of_fields:
  assumes "message_row_ok r"
  shows "msg_id (stored_of r) = msg_id r" "msg_seq (stored_of r) = msg_seq r"
    "msg_chat_id (stored_of r) = msg_chat_id r" "msg_content (stored_of r) = msg_content r"
    "message_kind_display (msg_message_kind (stored_of r)) = msg_message_kind r"
    "sender_kind_display (msg_sender_kind (stored_of r)) = msg_sender_kind r"
    "msg_sender_id (stored_of r) = msg_sender_id r"
    "msg_turn_id (stored_of r) = msg_turn_id r"
    "msg_recipient_agent_id (stored_of r) = msg_recipient_agent_id r"
proof -
  obtain sk mk where
    "msg_sender_kind r = sender_kind_display sk" "msg_message_kind r = message_kind_display mk"
    using assms by (auto simp: message_row_ok_def)
  then show "msg_id (stored_of r) = msg_id r" "msg_seq (stored_of r) = msg_seq r"
    "msg_chat_id (stored_of r) = msg_chat_id r" "msg_content (stored_of r) = msg_content r"
    "message_kind_display (msg_message_kind (stored_of r)) = msg_message_kind r"
    "sender_kind_display (msg_sender_kind (stored_of r)) = msg_sender_kind r"
    "msg_sender_id (stored_of r) = msg_sender_id r"
    "msg_turn_id (stored_of r) = msg_turn_id r"
    "msg_recipient_agent_id (stored_of r) = msg_recipient_agent_id r"
    by (simp_all add: stored_of_def row_to_stored_message_def parse_row_enum_def map_err_def)
qed

text \<open>Writing a message and reading its row back gives the message with its \<open>seq\<close>.\<close>

lemma row_of_message_roundtrip:
  "row_to_stored_message (message_to_row m q) = Inr (m\<lparr>msg_seq := q\<rparr>)"
  by (simp add: row_to_stored_message_def message_to_row_def parse_row_enum_def map_err_def)

lemma stored_of_message_to_row [simp]: "stored_of (message_to_row m q) = m\<lparr>msg_seq := q\<rparr>"
  by (simp add: stored_of_def row_of_message_roundtrip)

section \<open>Pages are stretches of the history\<close>

definition last_n :: "nat \<Rightarrow> 'a list \<Rightarrow> 'a list" where
  "last_n n xs = drop (length xs - n) xs"

lemma rev_take_rev: "rev (take n (rev xs)) = last_n n xs"
  by (simp add: take_rev last_n_def)

lemma newest_page_eq:
  assumes "chat_inv db"
  shows "newest_page P n db =
    Inr (last_n n (map stored_of (sort_key seq_key (filter P (messages db)))))"
proof -
  have "rmap row_to_stored_message (take n (rev (sort_key seq_key (filter P (messages db))))) =
      Inr (map stored_of (take n (rev (sort_key seq_key (filter P (messages db))))))"
    using chat_invD(4) [OF assms] by (intro rmap_Inr row_to_stored_ok) (auto dest: in_set_takeD)
  then show ?thesis
    unfolding newest_page_def by (simp add: rev_map take_map rev_take_rev [symmetric])
qed

lemma get_all_messages_eq:
  assumes "chat_inv db"
  shows "get_all_messages c db =
    Inr (map stored_of (sort_key seq_key (filter (committed_of c) (messages db))))"
  unfolding get_all_messages_def
  using chat_invD(4) [OF assms] by (intro rmap_Inr row_to_stored_ok) auto

lemma filter_sort_key: "filter P (sort_key f xs) = sort_key f (filter P xs)"
  by (simp add: filter_sort)

lemma filter_stored_of:
  assumes "chat_inv db" "\<And>r. r \<in> set (messages db) \<Longrightarrow> Q (stored_of r) = P r"
  shows "filter Q (map stored_of (sort_key seq_key (filter (committed_of c) (messages db)))) =
    map stored_of (sort_key seq_key (filter (\<lambda>r. committed_of c r \<and> P r) (messages db)))"
proof -
  let ?s = "sort_key seq_key (filter (committed_of c) (messages db))"
  have "filter Q (map stored_of ?s) = map stored_of (filter (Q \<circ> stored_of) ?s)"
    by (simp add: filter_map)
  also have "filter (Q \<circ> stored_of) ?s = filter P ?s"
    using assms(2) by (intro filter_cong) auto
  also have "\<dots> = sort_key seq_key (filter (\<lambda>r. committed_of c r \<and> P r) (messages db))"
    by (simp add: filter_sort_key conj_commute)
  finally show ?thesis .
qed

text \<open>The history is strictly ordered by \<open>seq\<close>.\<close>

lemma committed_seq_inj:
  assumes "chat_inv db"
  shows "inj_on seq_key (set (filter (committed_of c) (messages db)))"
proof (rule inj_onI)
  fix r r' assume h: "r \<in> set (filter (committed_of c) (messages db))"
    "r' \<in> set (filter (committed_of c) (messages db))" "seq_key r = seq_key r'"
  then obtain s where s: "msg_seq r = Some s" "msg_seq r' = Some s"
    by (auto simp: committed_of_def seq_key_def)
  have c: "msg_chat_id r = msg_chat_id r'" using h by (auto simp: committed_of_def)
  have "msg_id r = msg_id r'" using chat_invD(6) [OF assms _ _ c s] h by auto
  with c have "(\<lambda>r. (msg_id r, msg_chat_id r)) r = (\<lambda>r. (msg_id r, msg_chat_id r)) r'" by simp
  moreover have "r \<in> set (messages db)" "r' \<in> set (messages db)" using h by auto
  ultimately show "r = r'" using chat_invD(2) [OF assms] by (simp add: distinct_map inj_on_def)
qed

lemma committed_sorted_strict:
  assumes "chat_inv db"
  shows "sorted_wrt (<) (map seq_key (sort_key seq_key (filter (committed_of c) (messages db))))"
proof -
  let ?f = "filter (committed_of c) (messages db)"
  have "distinct (messages db)" using chat_invD(2) [OF assms] by (simp add: distinct_map)
  then have "distinct (sort_key seq_key ?f)" by simp
  then have "distinct (map seq_key (sort_key seq_key ?f))"
    using committed_seq_inj [OF assms, of c] by (simp add: distinct_map)
  then show ?thesis by (simp add: strict_sorted_iff)
qed


definition committed_history :: "int \<Rightarrow> database \<Rightarrow> stored_message list" where
  "committed_history c db =
     map stored_of (sort_key seq_key (filter (committed_of c) (messages db)))"

lemma get_all_messages_history:
  "chat_inv db \<Longrightarrow> get_all_messages c db = Inr (committed_history c db)"
  by (simp add: get_all_messages_eq committed_history_def)

lemma committed_history_sorted:
  assumes "chat_inv db"
  shows "sorted_wrt (\<lambda>m m'. the (msg_seq m) < the (msg_seq m')) (committed_history c db)"
proof -
  let ?s = "sort_key seq_key (filter (committed_of c) (messages db))"
  have "sorted_wrt (\<lambda>r r'. seq_key r < seq_key r') ?s"
    using committed_sorted_strict [OF assms, of c] by (simp add: sorted_wrt_map)
  moreover have "seq_key r = the (msg_seq (stored_of r))" if "r \<in> set ?s" for r
    using that chat_invD(4) [OF assms, of r] stored_of_fields(2) [of r]
    by (auto simp: committed_of_def seq_key_def)
  ultimately have "sorted_wrt (\<lambda>r r'. the (msg_seq (stored_of r)) < the (msg_seq (stored_of r'))) ?s"
    by (auto elim!: sorted_wrt_mono_rel [rotated])
  then show ?thesis by (simp add: committed_history_def sorted_wrt_map)
qed

text \<open>The page of the rows that satisfy a condition on the message itself.\<close>

lemma newest_page_history:
  assumes "chat_inv db"
    and "\<And>r. r \<in> set (messages db) \<Longrightarrow> committed_of c r \<Longrightarrow> Q (stored_of r) = P r"
  shows "newest_page (\<lambda>r. committed_of c r \<and> P r) n db =
    Inr (last_n n (filter Q (committed_history c db)))"
proof -
  let ?s = "sort_key seq_key (filter (committed_of c) (messages db))"
  have "filter Q (committed_history c db) = map stored_of (filter (Q \<circ> stored_of) ?s)"
    by (simp add: committed_history_def filter_map)
  also have "filter (Q \<circ> stored_of) ?s = filter P ?s"
    using assms(2) by (intro filter_cong) auto
  also have "\<dots> = sort_key seq_key (filter (\<lambda>r. committed_of c r \<and> P r) (messages db))"
    by (simp add: filter_sort_key conj_commute)
  finally show ?thesis using assms(1) by (simp add: newest_page_eq)
qed

lemma seq_key_stored:
  assumes "chat_inv db" "r \<in> set (messages db)" "committed_of c r"
  shows "the (msg_seq (stored_of r)) = seq_key r"
  using assms(3) stored_of_fields(2) [OF chat_invD(4) [OF assms(1,2)]]
  by (auto simp: committed_of_def seq_key_def)

lemma get_messages_before_history:
  assumes "chat_inv db"
  shows "get_messages_before c b n db = Inr (last_n n (filter
    (\<lambda>m. the (msg_seq m) < (case b of Some s \<Rightarrow> s | None \<Rightarrow> I64_MAX)) (committed_history c db)))"
  unfolding get_messages_before_def Let_def
  by (rule newest_page_history [OF assms]) (simp add: seq_key_stored [OF assms])

lemma get_recent_context_history:
  assumes "chat_inv db"
  shows "get_recent_context_messages c n db =
    Inr (last_n n (filter (\<lambda>m. msg_message_kind m \<noteq> TurnFailureMsg) (committed_history c db)))"
  unfolding get_recent_context_messages_def
proof (rule newest_page_history [OF assms])
  fix r assume "r \<in> set (messages db)" "committed_of c r"
  then have "message_kind_display (msg_message_kind (stored_of r)) = msg_message_kind r"
    using chat_invD(4) [OF assms] stored_of_fields(5) by blast
  then show "(msg_message_kind (stored_of r) \<noteq> TurnFailureMsg) =
      (msg_message_kind r \<noteq> message_kind_display TurnFailureMsg)"
    using message_kind_display_eq_iff by metis
qed

lemma has_messages_before_history:
  assumes "chat_inv db"
  shows "has_messages_before c b db = (\<exists>m \<in> set (committed_history c db). the (msg_seq m) < b)"
  using seq_key_stored [OF assms, of _ c]
  by (auto simp: has_messages_before_def row_simps committed_history_def)

lemma committed_history_member:
  assumes "chat_inv db" "m \<in> set (committed_history c db)"
  shows "msg_chat_id m = c \<and> msg_seq m \<noteq> None"
  using assms stored_of_fields(2,3) chat_invD(4) [OF assms(1)]
  by (fastforce simp: committed_history_def committed_of_def)

lemma last_n_length: "length (last_n n xs) = min n (length xs)"
  by (simp add: last_n_def)

lemma last_n_all: "length xs \<le> n \<Longrightarrow> last_n n xs = xs"
  by (simp add: last_n_def)

end
