(* ===== verification/Session_Persist.thy ===== *)
theory Session_Persist
  imports Session_Repair Chat_History "HOL-Library.Countable"
begin

text \<open>
  Loading and persisting the session of a conversation (\<open>src/src/agent_loop/session.rs\<close>): a turn
  phase is written with the revision it was loaded at, and once more on top of the refreshed
  session if another writer was first. The \<open>serde_json\<close> printer and parser of snapshots are
  fields of the environment. An asynchronous function is a function of the whole state at its
  start; what other tasks do while it awaits is the argument \<open>others\<close>, by await point. A
  publication on the event bus has no effect on the state.
\<close>

record 'j session_env =
  se_codecs :: codecs
  se_sqlite_text :: "sqlite_error \<Rightarrow> string"
  se_print :: "'j snapshot_message list \<Rightarrow> string + string"
  se_parse :: "string \<Rightarrow> string + 'j snapshot_message list"
  se_max_history :: nat

record world =
  w_db :: database
  w_assets :: asset_store

record 'j loaded_session =
  ls_messages :: "'j llm_message list"
  ls_session_revision :: "int option"

record 'j persisted_turn =
  pt_revision :: int
  pt_messages :: "'j llm_message list"

section \<open>Loading\<close>

definition loaded_role :: "sender_kind \<Rightarrow> string" where
  "loaded_role k =
     (case k of SenderAssistant \<Rightarrow> ''assistant'' | SenderTool \<Rightarrow> ''assistant''
      | SenderUser \<Rightarrow> ''user'' | SenderSystem \<Rightarrow> ''system'')"

definition loaded_from_recent :: "session_snapshot \<Rightarrow> 'j loaded_session" where
  "loaded_from_recent s =
     \<lparr>ls_messages = map (\<lambda>m. text_message (loaded_role (msg_sender_kind m)) (msg_content m))
        (ss_recent_messages s),
      ls_session_revision = ss_session_revision s\<rparr>"

definition restore_snapshot_messages ::
  "'j session_env \<Rightarrow> asset_store \<Rightarrow> string \<Rightarrow> storage_error + 'j llm_message list" where
  "restore_snapshot_messages env store json =
     rbind (map_err SessionSerialize (se_parse env json)) (\<lambda>ms.
     Inr (messages_from_snapshot (se_codecs env) (se_sqlite_text env) store ms))"

text \<open>A snapshot that does not parse falls back to the recent messages.\<close>

definition snapshot_to_loaded :: "'j session_env \<Rightarrow> asset_store \<Rightarrow> session_snapshot \<Rightarrow> 'j loaded_session" where
  "snapshot_to_loaded env store s =
     (case ss_messages_json s of
        None \<Rightarrow> loaded_from_recent s
      | Some json \<Rightarrow>
          (case restore_snapshot_messages env store json of
             Inl _ \<Rightarrow> loaded_from_recent s
           | Inr ms \<Rightarrow> \<lparr>ls_messages = repair_orphan_tool_outputs ms,
                        ls_session_revision = ss_session_revision s\<rparr>))"

definition load_messages_for_turn_with_limit ::
  "'j session_env \<Rightarrow> int \<Rightarrow> nat \<Rightarrow> world \<Rightarrow> storage_error + 'j loaded_session" where
  "load_messages_for_turn_with_limit env chat_id max_history w =
     rbind (load_session_snapshot chat_id max_history (w_db w)) (\<lambda>s.
     Inr (snapshot_to_loaded env (w_assets w) s))"

definition load_messages_for_turn :: "'j session_env \<Rightarrow> int \<Rightarrow> world \<Rightarrow> storage_error + 'j loaded_session" where
  "load_messages_for_turn env chat_id w =
     load_messages_for_turn_with_limit env chat_id (se_max_history env) w"

section \<open>Persisting\<close>

definition serialize_snapshot ::
  "'j session_env \<Rightarrow> string \<Rightarrow> 'j llm_message list \<Rightarrow> asset_store \<Rightarrow> storage_error + (string \<times> asset_store)" where
  "serialize_snapshot env now ms store =
     rbind (messages_to_snapshot (se_codecs env) now ms store) (\<lambda>(snap, store').
     rbind (map_err SessionSerialize (se_print env snap)) (\<lambda>json. Inr (json, store')))"

text \<open>The images are on disk before the transaction starts, and stay when it is refused.\<close>

definition store_phase_snapshot ::
  "'j session_env \<Rightarrow> string \<Rightarrow> stored_message \<Rightarrow> 'j llm_message list \<Rightarrow> int option \<Rightarrow> world \<Rightarrow>
   (storage_error + 'j persisted_turn) \<times> world" where
  "store_phase_snapshot env now m ms revision w =
     (case serialize_snapshot env now ms (w_assets w) of
        Inl e \<Rightarrow> (Inl e, w)
      | Inr (json, assets') \<Rightarrow>
          (let w1 = w\<lparr>w_assets := assets'\<rparr>
           in case store_message_with_session now m json revision (w_db w1) of
                Inl e \<Rightarrow> (Inl e, w1)
              | Inr (new_revision, db') \<Rightarrow>
                  (Inr \<lparr>pt_revision = new_revision, pt_messages = ms\<rparr>, w1\<lparr>w_db := db'\<rparr>)))"

definition persisted_turn_or_retry ::
  "storage_error + 'j persisted_turn \<Rightarrow> storage_error + 'j persisted_turn option" where
  "persisted_turn_or_retry r =
     (case r of
        Inr turn \<Rightarrow> Inr (Some turn)
      | Inl e \<Rightarrow> if e = SessionSnapshotConflict then Inr None else Inl e)"

definition persist_phase_messages ::
  "'j session_env \<Rightarrow> (nat \<Rightarrow> string) \<Rightarrow> (nat \<Rightarrow> world \<Rightarrow> world) \<Rightarrow> stored_message \<Rightarrow> 'j llm_message list \<Rightarrow>
   'j llm_message list \<Rightarrow> int option \<Rightarrow> world \<Rightarrow> (storage_error + 'j persisted_turn) \<times> world" where
  "persist_phase_messages env clock others m phase_messages ms revision w =
     (let (first, w1) = store_phase_snapshot env (clock 0) m ms revision w
      in case persisted_turn_or_retry first of
           Inl e \<Rightarrow> (Inl e, w1)
         | Inr (Some turn) \<Rightarrow> (Inr turn, w1)
         | Inr None \<Rightarrow>
             (let w2 = others 0 w1
              in case load_messages_for_turn env (msg_chat_id m) w2 of
                   Inl e \<Rightarrow> (Inl e, w2)
                 | Inr refreshed \<Rightarrow>
                     store_phase_snapshot env (clock 1) m (ls_messages refreshed @ phase_messages)
                       (ls_session_revision refreshed) (others 1 w2)))"

definition persist_phase ::
  "'j session_env \<Rightarrow> (nat \<Rightarrow> string) \<Rightarrow> (nat \<Rightarrow> world \<Rightarrow> world) \<Rightarrow> stored_message \<Rightarrow> 'j llm_message \<Rightarrow>
   'j llm_message list \<Rightarrow> int option \<Rightarrow> world \<Rightarrow> (storage_error + 'j persisted_turn) \<times> world" where
  "persist_phase env clock others m phase_message ms revision w =
     persist_phase_messages env clock others m [phase_message] ms revision w"

section \<open>What a stored phase leaves\<close>

text \<open>What is trusted of the JSON library: a printed snapshot is parsed back.\<close>

definition snapshots_readable :: "'j session_env \<Rightarrow> bool" where
  "snapshots_readable env = (\<forall>snap. case se_print env snap of Inl _ \<Rightarrow> False | Inr j \<Rightarrow> se_parse env j = Inr snap)"

definition world_ok :: "'j session_env \<Rightarrow> string set \<Rightarrow> world \<Rightarrow> bool" where
  "world_ok env B w = (chat_inv (w_db w) \<and> asset_inv (se_codecs env) B (w_assets w))"

lemma readableD:
  assumes "snapshots_readable env"
  shows "\<exists>j. se_print env snap = Inr j \<and> se_parse env j = Inr snap"
proof -
  have "case se_print env snap of Inl _ \<Rightarrow> False | Inr j \<Rightarrow> se_parse env j = Inr snap"
    using assms by (simp only: snapshots_readable_def)
  then show ?thesis by (cases "se_print env snap") auto
qed

lemma serialize_total:
  assumes "snapshots_readable env" "asset_inv (se_codecs env) B store"
    "list_all (message_ok (se_codecs env) B) ms"
  shows "\<exists>json store'. serialize_snapshot env now ms store = Inr (json, store') \<and>
    asset_inv (se_codecs env) B store' \<and> restore_snapshot_messages env store' json = Inr ms"
proof -
  obtain snap store' where s: "messages_to_snapshot (se_codecs env) now ms store = Inr (snap, store')"
    "asset_inv (se_codecs env) B store'"
    "map (message_from_snapshot (se_codecs env) (se_sqlite_text env) store') snap = ms"
    using image_messages.restores_all [OF assms(3,2), of now "se_sqlite_text env"] asset_le_order(1)
    unfolding messages_to_snapshot_def by blast
  obtain j where j: "se_print env snap = Inr j" "se_parse env j = Inr snap"
    using readableD [OF assms(1)] by blast
  have "messages_from_snapshot (se_codecs env) (se_sqlite_text env) store' snap = ms"
    using s(3) by (simp only: messages_from_snapshot_map)
  then show ?thesis using s(1,2) j
    by (simp add: serialize_snapshot_def restore_snapshot_messages_def map_err_def)
qed

lemma find_session_write:
  "find_row (\<lambda>s. ses_chat_id s = c) (sessions (write_session_snapshot_locked c j now q db)) =
     Some \<lparr>ses_chat_id = c, ses_messages_json = j, ses_updated_at = now, ses_snapshot_through_seq = q\<rparr>"
proof (cases "exists_row (\<lambda>s. ses_chat_id s = c) (sessions db)")
  case True
  let ?x = "\<lparr>ses_chat_id = c, ses_messages_json = j, ses_updated_at = now, ses_snapshot_through_seq = q\<rparr>"
  have upd: "find_row (\<lambda>s. ses_chat_id s = c) (update_rows (\<lambda>s. ses_chat_id s = c) (\<lambda>_. x) t) = Some x"
    if "\<exists>s \<in> set t. ses_chat_id s = c" "ses_chat_id x = c" for t x
    using that by (induction t) auto
  have "find_row (\<lambda>s. ses_chat_id s = c) (update_rows (\<lambda>s. ses_chat_id s = c) (\<lambda>_. ?x) (sessions db)) = Some ?x"
    by (rule upd) (use True in \<open>auto simp: row_simps\<close>)
  then show ?thesis using True by (simp add: write_session_snapshot_locked_def Let_def)
next
  case False
  then have "find_row (\<lambda>s. ses_chat_id s = c) (sessions db) = None"
    by (auto simp: row_simps find_row_None_iff)
  then show ?thesis using False
    by (simp add: write_session_snapshot_locked_def Let_def find_key_insert_row)
qed

lemma load_after_commit:
  assumes "chat_inv db" "find_message (msg_id m) (msg_chat_id m) db = None"
  shows "\<exists>recent. load_session_snapshot (msg_chat_id m) n (commit_fresh now m (Some json) db) =
    Inr \<lparr>ss_messages_json = Some json, ss_session_revision = Some (revision_of (msg_chat_id m) db + 1),
      ss_recent_messages = recent\<rparr>"
proof -
  let ?db = "commit_fresh now m (Some json) db" and ?c = "msg_chat_id m"
  have "\<exists>x. find_row (\<lambda>s. ses_chat_id s = ?c) (sessions ?db) = Some x \<and> ses_messages_json x = json"
    by (simp add: commit_fresh_def Let_def advance_chat_revision_locked_def find_session_write)
  moreover have "(case find_row (\<lambda>c. ch_chat_id c = ?c) (chats ?db) of Some c \<Rightarrow> ch_revision c | None \<Rightarrow> 0) =
      revision_of ?c db + 1"
    using commit_fresh_chat(1) [of ?c now m "Some json" db] by (simp add: revision_of_def chat_of_def)
  moreover note newest_page_eq [OF commit_fresh_inv [OF assms, of now "Some json"]]
  ultimately show ?thesis by (auto simp: load_session_snapshot_def Let_def)
qed

text \<open>The outcome of one attempt: a conflict that leaves the database, or the phase committed.\<close>

lemma store_phase_cases:
  assumes env: "snapshots_readable env" and ok: "world_ok env B w"
    and ms: "list_all (message_ok (se_codecs env) B) ms"
    and new: "find_message (msg_id m) (msg_chat_id m) (w_db w) = None"
  obtains (conflict) w1 where "\<not> cas_ok revision True (msg_chat_id m) (w_db w)"
      "store_phase_snapshot env now m ms revision w = (Inl SessionSnapshotConflict, w1)"
      "w_db w1 = w_db w" "world_ok env B w1"
    | (stored) w1 json where "cas_ok revision True (msg_chat_id m) (w_db w)"
      "store_phase_snapshot env now m ms revision w =
         (Inr \<lparr>pt_revision = revision_of (msg_chat_id m) (w_db w) + 1, pt_messages = ms\<rparr>, w1)"
      "w_db w1 = commit_fresh now m (Some json) (w_db w)" "world_ok env B w1"
      "load_messages_for_turn env (msg_chat_id m) w1 = Inr \<lparr>ls_messages = repair_orphan_tool_outputs ms,
         ls_session_revision = Some (revision_of (msg_chat_id m) (w_db w) + 1)\<rparr>"
proof -
  obtain json store' where s: "serialize_snapshot env now ms (w_assets w) = Inr (json, store')"
    "asset_inv (se_codecs env) B store'" "restore_snapshot_messages env store' json = Inr ms"
    using serialize_total [OF env _ ms, of "w_assets w" now] ok by (auto simp: world_ok_def)
  have inv: "chat_inv (w_db w)" using ok by (simp add: world_ok_def)
  let ?w1 = "w\<lparr>w_assets := store'\<rparr>"
  let ?w2 = "?w1\<lparr>w_db := commit_fresh now m (Some json) (w_db w)\<rparr>"
  note eq = commit_message_locked_eq [OF inv, of now m "Some json" revision]
  show ?thesis
  proof (cases "cas_ok revision True (msg_chat_id m) (w_db w)")
    case False
    then have "store_phase_snapshot env now m ms revision w = (Inl SessionSnapshotConflict, ?w1)"
      using s(1) by (simp add: store_phase_snapshot_def store_message_with_session_def
          commit_conversation_message_def eq Let_def)
    then show ?thesis using conflict False inv s(2) by (simp add: world_ok_def)
  next
    case True
    then have r: "store_phase_snapshot env now m ms revision w =
        (Inr \<lparr>pt_revision = revision_of (msg_chat_id m) (w_db w) + 1, pt_messages = ms\<rparr>, ?w2)"
      using s(1) new by (simp add: store_phase_snapshot_def store_message_with_session_def
          commit_conversation_message_def eq Let_def)
    moreover have "world_ok env B ?w2"
      using s(2) commit_fresh_inv [OF inv new] by (simp add: world_ok_def)
    moreover obtain recent where "load_session_snapshot (msg_chat_id m) (se_max_history env) (w_db ?w2) =
        Inr \<lparr>ss_messages_json = Some json,
          ss_session_revision = Some (revision_of (msg_chat_id m) (w_db w) + 1), ss_recent_messages = recent\<rparr>"
      using load_after_commit [OF inv new, of "se_max_history env" now json] by auto
    then have "load_messages_for_turn env (msg_chat_id m) ?w2 = Inr \<lparr>ls_messages = repair_orphan_tool_outputs ms,
         ls_session_revision = Some (revision_of (msg_chat_id m) (w_db w) + 1)\<rparr>"
      using s(3) by (simp add: load_messages_for_turn_def load_messages_for_turn_with_limit_def
          snapshot_to_loaded_def)
    ultimately show ?thesis using stored True by simp
  qed
qed

section \<open>The retry\<close>

lemma load_session_cas:
  assumes "load_session_snapshot c n db = Inr s"
  shows "cas_ok (ss_session_revision s) True c db"
proof (cases "find_row (\<lambda>s. ses_chat_id s = c) (sessions db)")
  case None
  then have "\<not> has_session c db" by (auto simp: has_session_def row_simps find_row_None_iff)
  then show ?thesis using assms None
    by (auto simp: load_session_snapshot_def Let_def res_simps cas_ok_def)
next
  case (Some x)
  then show ?thesis using assms
    by (auto simp: load_session_snapshot_def Let_def res_simps cas_ok_def revision_of_def chat_of_def)
qed

lemma load_messages_ok:
  assumes "chat_inv (w_db w)"
  shows "\<exists>l. load_messages_for_turn env c w = Inr l \<and> cas_ok (ls_session_revision l) True c (w_db w)"
proof -
  obtain s where s: "load_session_snapshot c (se_max_history env) (w_db w) = Inr s"
    by (simp add: load_session_snapshot_def Let_def newest_page_eq [OF assms])
  have "ls_session_revision (snapshot_to_loaded env (w_assets w) s) = ss_session_revision s"
    by (simp add: snapshot_to_loaded_def loaded_from_recent_def split: option.split sum.split)
  then show ?thesis using s load_session_cas [OF s]
    by (simp add: load_messages_for_turn_def load_messages_for_turn_with_limit_def)
qed

text \<open>The database a phase was committed into, and the messages its snapshot holds.\<close>

definition phase_committed ::
  "'j session_env \<Rightarrow> stored_message \<Rightarrow> 'j persisted_turn \<Rightarrow> 'j llm_message list \<Rightarrow> database \<Rightarrow> world \<Rightarrow> bool" where
  "phase_committed env m turn ms db w' =
     (pt_messages turn = ms \<and> pt_revision turn = revision_of (msg_chat_id m) db + 1 \<and>
      messages (w_db w') = messages db @ [message_to_row m (Some (next_seq_of (msg_chat_id m) db))] \<and>
      load_messages_for_turn env (msg_chat_id m) w' =
        Inr \<lparr>ls_messages = repair_orphan_tool_outputs ms, ls_session_revision = Some (pt_revision turn)\<rparr>)"


instance content :: (countable) countable
  by countable_datatype

instance snapshot_content_part :: countable
  by countable_datatype

text \<open>A printer and parser for the witness: the number of a snapshot in an enumeration.\<close>

definition call_fields :: "unit llm_tool_call \<Rightarrow> string \<times> string \<times> string option" where
  "call_fields c = (ltc_id c, ltc_name c, ltc_invalid_arguments c)"

definition call_of :: "string \<times> string \<times> string option \<Rightarrow> unit llm_tool_call" where
  "call_of t = (case t of (i, n, v) \<Rightarrow>
     \<lparr>ltc_id = i, ltc_name = n, ltc_arguments = (), ltc_invalid_arguments = v\<rparr>)"

definition message_fields where
  "message_fields m = (lm_role m, lm_content m, lm_reasoning_content m,
     map call_fields (lm_tool_calls m), lm_tool_call_id m)"

definition message_of where
  "message_of t = (case t of (r, c, h, calls, i) \<Rightarrow>
     \<lparr>lm_role = r, lm_content = c, lm_reasoning_content = h, lm_tool_calls = map call_of calls,
      lm_tool_call_id = i\<rparr>)"

lemma message_of_fields: "message_of (message_fields m) = (m :: unit snapshot_message)"
proof -
  have "call_of \<circ> call_fields = id" by (rule ext) (simp add: call_of_def call_fields_def)
  then show ?thesis by (simp add: message_of_def message_fields_def)
qed

definition sample_env :: "unit session_env" where
  "sample_env = \<lparr>se_codecs = sample_codecs, se_sqlite_text = (\<lambda>_. []),
     se_print = (\<lambda>ms. Inr (replicate (to_nat (map message_fields ms)) CHR ''x'')),
     se_parse = (\<lambda>s. Inr (map message_of (from_nat (length s)))), se_max_history = 50\<rparr>"

lemma sample_env_readable: "snapshots_readable sample_env"
proof -
  have "message_of \<circ> message_fields = (id :: unit snapshot_message \<Rightarrow> _)"
    by (rule ext) (simp add: message_of_fields)
  then show ?thesis by (simp add: snapshots_readable_def sample_env_def)
qed

definition sample_world :: world where
  "sample_world = \<lparr>w_db = empty_database, w_assets = \<lparr>as_data = Map.empty, as_metadata = Map.empty\<rparr>\<rparr>"


end
