(* ===== verification/Staged_Followups.thy ===== *)
theory Staged_Followups
  imports Chat_History "HOL-Library.Multiset"
begin

text \<open>
  Human follow-ups that arrive while a Turn's Tool phase runs (\<open>src/src/storage/chat.rs\<close>):
  they are stored as message rows without a \<open>seq\<close>, owned by the Turn, and promoted together
  into the committed history when the phase completes. The main result is that the promotion
  appends them to the history in acceptance order with consecutive sequence numbers.
\<close>

section \<open>Operations\<close>

datatype stage_tool_followup_outcome = StageAccepted stored_message | NoToolPhase

record terminal_staged_message =
  tsm_message :: stored_message
  tsm_scheduled_request_json :: "string option"

record committed_staged_messages =
  csm_revision :: int
  csm_messages :: "stored_message list"

definition staged_user :: "message_row \<Rightarrow> bool" where
  "staged_user r =
     (msg_seq r = None \<and> msg_sender_kind r = ''user'' \<and> msg_message_kind r = ''message'')"

text \<open>\<open>ORDER BY timestamp ASC, id ASC\<close>.\<close>

definition acceptance_order :: "message_row \<Rightarrow> cursor" where
  "acceptance_order r = Cursor (msg_timestamp r) (msg_id r)"

text \<open>
  The hash column is read into a \<open>String\<close>, so a NULL hash fails the row instead of being
  accepted as legacy data.
\<close>

definition stage_tool_followup ::
  "int \<Rightarrow> string \<Rightarrow> string \<Rightarrow> string \<Rightarrow> string \<Rightarrow> string \<Rightarrow> database \<Rightarrow>
   stage_tool_followup_outcome tx" where
  "stage_tool_followup chat_id request_key request_payload_hash sender_id content timestamp db =
     (let collision = Conflict (''staged follow-up request key collision: '' @ request_key) in
      case find_row (has_message_key request_key chat_id) (messages db) of
        Some row \<Rightarrow>
          rbind (row_to_stored_message row) (\<lambda>m.
          if msg_sender_kind m \<noteq> SenderUser \<or> msg_message_kind m \<noteq> MessageMsg \<or>
             msg_sender_id m \<noteq> sender_id \<or> msg_content m \<noteq> content
          then Inl collision
          else Inr (StageAccepted m, db))
      | None \<Rightarrow>
          (case find_row (\<lambda>t. tr_chat_id t = chat_id \<and> tr_request_key t = request_key)
                  (turn_runs db) of
             Some t \<Rightarrow>
               rbind (ok_or (tr_request_payload_hash t) (Sqlite (InvalidColumnType 0))) (\<lambda>h.
               if h \<noteq> request_payload_hash then Inl collision else Inr (NoToolPhase, db))
           | None \<Rightarrow>
               (case filter (\<lambda>t. tr_chat_id t = chat_id \<and>
                        tr_state t = turn_run_state_display ToolsPending) (turn_runs db) of
                  [] \<Rightarrow> Inr (NoToolPhase, db)
                | [t] \<Rightarrow>
                    if count_rows (\<lambda>r. msg_chat_id r = chat_id \<and> staged_user r) (messages db)
                         \<ge> MAX_DURABLE_PENDING_PER_SESSION
                    then Inl ToolFollowupSessionCapacityFull
                    else if count_rows staged_user (messages db) \<ge> MAX_DURABLE_PENDING_PER_SCOPE
                    then Inl ToolFollowupScopeCapacityFull
                    else
                      (let m = \<lparr>msg_id = request_key, msg_chat_id = chat_id,
                           msg_sender_id = sender_id, msg_content = content,
                           msg_sender_kind = SenderUser, msg_timestamp = timestamp,
                           msg_message_kind = MessageMsg, msg_recipient_agent_id = None,
                           msg_seq = None, msg_turn_id = Some (tr_turn_id t),
                           msg_parent_message_id = None\<rparr>
                       in Inr (StageAccepted m,
                            db\<lparr>messages := insert_row (message_to_row m None) (messages db)\<rparr>))
                | _ \<Rightarrow> Inl (Conflict (''multiple tools_pending turns for chat_id='' @
                         show_int chat_id)))))"

definition list_staged_user_messages ::
  "string \<Rightarrow> database \<Rightarrow> storage_error + stored_message list" where
  "list_staged_user_messages turn_id db =
     rmap row_to_stored_message
       (sort_key acceptance_order
         (filter (\<lambda>r. msg_turn_id r = Some turn_id \<and> staged_user r) (messages db)))"

text \<open>The inner join: a staged row is listed once per Turn row with its \<open>turn_id\<close>.\<close>

definition terminal_owner :: "message_row \<Rightarrow> turn_row \<Rightarrow> bool" where
  "terminal_owner r t =
     (msg_turn_id r = Some (tr_turn_id t) \<and>
      tr_state t \<in> {''completed'', ''failed'', ''cancelled'', ''uncertain''})"

definition list_terminal_staged_user_messages ::
  "nat \<Rightarrow> database \<Rightarrow> storage_error + terminal_staged_message list" where
  "list_terminal_staged_user_messages limit db =
     rmap (\<lambda>(r, t). rbind (row_to_stored_message r) (\<lambda>m.
             Inr \<lparr>tsm_message = m, tsm_scheduled_request_json = tr_scheduled_request_json t\<rparr>))
       (take limit
         (sort_key (\<lambda>(r, t). acceptance_order r)
           (concat (map (\<lambda>r. map (\<lambda>t. (r, t)) (filter (terminal_owner r) (turn_runs db)))
              (filter staged_user (messages db))))))"

definition delete_staged_user_message_after_promotion ::
  "int \<Rightarrow> string \<Rightarrow> database \<Rightarrow> database" where
  "delete_staged_user_message_after_promotion chat_id message_id db =
     db\<lparr>messages := delete_rows (\<lambda>r. msg_chat_id r = chat_id \<and> msg_id r = message_id \<and>
          staged_user r) (messages db)\<rparr>"

text \<open>The loop over the staged rows; the unique index on \<open>(chat_id, seq)\<close> guards each update.\<close>

fun assign_staged_seqs ::
  "int \<Rightarrow> int \<Rightarrow> stored_message list \<Rightarrow> database \<Rightarrow> stored_message list tx" where
  "assign_staged_seqs chat_id seq [] db = Inr ([], db)"
| "assign_staged_seqs chat_id seq (m # ms) db =
     (let target = (\<lambda>r. has_message_key (msg_id m) chat_id r \<and> msg_seq r = None) in
      if exists_row target (messages db) \<and>
         exists_row (\<lambda>r. msg_chat_id r = chat_id \<and> msg_seq r = Some seq) (messages db)
      then Inl (Sqlite (ConstraintViolation ''messages.chat_id, messages.seq''))
      else if count_rows target (messages db) \<noteq> 1
      then Inl (Conflict (''staged follow-up disappeared during commit: '' @ msg_id m))
      else
        rbind (assign_staged_seqs chat_id (seq + 1) ms
          (db\<lparr>messages := update_rows target (\<lambda>r. r\<lparr>msg_seq := Some seq\<rparr>) (messages db)\<rparr>))
          (\<lambda>(ms', db'). Inr (m\<lparr>msg_seq := Some seq\<rparr> # ms', db')))"

definition staged_rows_of :: "int \<Rightarrow> string \<Rightarrow> database \<Rightarrow> message_row list" where
  "staged_rows_of chat_id turn_id db =
     sort_key acceptance_order
       (filter (\<lambda>r. msg_chat_id r = chat_id \<and> msg_turn_id r = Some turn_id \<and> staged_user r)
         (messages db))"

definition commit_staged_user_messages ::
  "string \<Rightarrow> string \<Rightarrow> string \<Rightarrow> int \<Rightarrow> database \<Rightarrow> committed_staged_messages tx" where
  "commit_staged_user_messages now turn_id session_json expected_revision db =
     rbind (ok_or (find_row (\<lambda>t. tr_turn_id t = turn_id \<and>
                tr_state t = turn_run_state_display ToolsCompleted) (turn_runs db))
              (Conflict (''staged follow-up commit requires tools_completed turn: '' @ turn_id)))
       (\<lambda>t. let chat_id = tr_chat_id t in
     rbind (read_conversation_commit_cursor now chat_id (Some expected_revision) False db)
       (\<lambda>((current_revision, next_seq), db1).
     rbind (rmap row_to_stored_message (staged_rows_of chat_id turn_id db1)) (\<lambda>staged.
     if staged = []
     then Inr (\<lparr>csm_revision = current_revision, csm_messages = staged\<rparr>, db1)
     else
       rbind (assign_staged_seqs chat_id next_seq staged db1) (\<lambda>(ms, db2).
       (let last_seq = (case msg_seq (last ms) of Some s \<Rightarrow> s | None \<Rightarrow> next_seq);
            db3 = write_session_snapshot_locked chat_id session_json now last_seq db2;
            count = int (length ms)
        in Inr (\<lparr>csm_revision = current_revision + count, csm_messages = ms\<rparr>,
             advance_chat_revision_locked chat_id count now db3))))))"


section \<open>The message table\<close>

text \<open>The message part of \<open>chat_inv\<close>, over the next sequence number of each chat.\<close>

definition message_key :: "message_row \<Rightarrow> string \<times> int" where
  "message_key r = (msg_id r, msg_chat_id r)"

definition messages_inv :: "(int \<Rightarrow> int) \<Rightarrow> message_row list \<Rightarrow> bool" where
  "messages_inv next rows =
     (distinct (map message_key rows) \<and> (\<forall>r \<in> set rows. message_row_ok r) \<and>
      (\<forall>r \<in> set rows. \<forall>s. msg_seq r = Some s \<longrightarrow> s < next (msg_chat_id r)) \<and>
      (\<forall>r \<in> set rows. \<forall>r' \<in> set rows. \<forall>s.
         msg_chat_id r = msg_chat_id r' \<and> msg_seq r = Some s \<and> msg_seq r' = Some s \<longrightarrow>
         msg_id r = msg_id r'))"

lemma messages_invD:
  assumes "messages_inv next rows"
  shows "distinct (map message_key rows)"
    and "r \<in> set rows \<Longrightarrow> message_row_ok r"
    and "r \<in> set rows \<Longrightarrow> msg_seq r = Some s \<Longrightarrow> s < next (msg_chat_id r)"
    and "r \<in> set rows \<Longrightarrow> r' \<in> set rows \<Longrightarrow> msg_chat_id r = msg_chat_id r' \<Longrightarrow>
      msg_seq r = Some s \<Longrightarrow> msg_seq r' = Some s \<Longrightarrow> msg_id r = msg_id r'"
  using assms unfolding messages_inv_def by blast+

lemma chat_inv_messages:
  "chat_inv db = (distinct (map ch_chat_id (chats db)) \<and> distinct (map ses_chat_id (sessions db)) \<and>
     messages_inv (\<lambda>c. next_seq_of c db) (messages db) \<and>
     (\<forall>s \<in> set (sessions db). ses_snapshot_through_seq s < next_seq_of (ses_chat_id s) db) \<and>
     (\<forall>c \<in> set (chats db). 1 \<le> ch_next_message_seq c))"
proof -
  have "(\<lambda>r. (msg_id r, msg_chat_id r)) = message_key" by (rule ext) (simp add: message_key_def)
  then show ?thesis unfolding chat_inv_def messages_inv_def by auto
qed

text \<open>A row of the table is found by its key, and an update by key changes just that row.\<close>

lemma message_key_unique:
  assumes "distinct (map message_key rows)" "r \<in> set rows" "x \<in> set rows"
    "message_key x = message_key r"
  shows "x = r"
  using assms by (auto simp: distinct_map inj_on_def)

definition give_seq :: "message_row \<Rightarrow> int \<Rightarrow> message_row list \<Rightarrow> message_row list" where
  "give_seq r s rows = map (\<lambda>x. if x = r then r\<lparr>msg_seq := Some s\<rparr> else x) rows"

lemma update_by_key:
  assumes "distinct (map message_key rows)" "r \<in> set rows" "msg_seq r = None"
  shows "update_rows (\<lambda>x. has_message_key (msg_id r) (msg_chat_id r) x \<and> msg_seq x = None)
      (\<lambda>x. x\<lparr>msg_seq := Some s\<rparr>) rows = give_seq r s rows"
proof -
  have "(has_message_key (msg_id r) (msg_chat_id r) x \<and> msg_seq x = None) = (x = r)"
    if "x \<in> set rows" for x
    using message_key_unique [OF assms(1,2) that] assms(3)
    by (auto simp: has_message_key_def message_key_def)
  then show ?thesis by (simp add: update_rows_def give_seq_def)
qed

lemma count_by_key:
  assumes "distinct (map message_key rows)" "r \<in> set rows" "msg_seq r = None"
  shows "count_rows (\<lambda>x. has_message_key (msg_id r) (msg_chat_id r) x \<and> msg_seq x = None) rows = 1"
proof -
  have "filter (\<lambda>x. has_message_key (msg_id r) (msg_chat_id r) x \<and> msg_seq x = None) rows =
      filter (\<lambda>x. x = r) rows"
    using message_key_unique [OF assms(1,2)] assms(3)
    by (intro filter_cong) (auto simp: has_message_key_def message_key_def)
  moreover have "distinct rows" using assms(1) by (simp add: distinct_map)
  moreover have "{x. x = r \<and> x \<in> set rows} = {r}" using assms(2) by auto
  ultimately show ?thesis
    by (simp add: count_rows_def distinct_length_filter Int_def)
qed

lemma give_seq_keys [simp]: "map message_key (give_seq r s rows) = map message_key rows"
  by (simp add: give_seq_def message_key_def)

lemma give_seq_set:
  assumes "r \<in> set rows"
  shows "set (give_seq r s rows) = insert (r\<lparr>msg_seq := Some s\<rparr>) (set rows - {r})"
  using assms by (auto simp: give_seq_def)

lemma give_seq_inv:
  assumes inv: "messages_inv next rows" and r: "r \<in> set rows"
    and n: "next (msg_chat_id r) = s"
  shows "messages_inv (next(msg_chat_id r := s + 1)) (give_seq r s rows)"
proof -
  have S: "set (give_seq r s rows) = insert (r\<lparr>msg_seq := Some s\<rparr>) (set rows - {r})"
    by (rule give_seq_set [OF r])
  have lt: "q < next (msg_chat_id x)" if "x \<in> set rows" "msg_seq x = Some q" for x q
    using that by (rule messages_invD(3) [OF inv])
  have "\<forall>x \<in> set (give_seq r s rows). message_row_ok x"
    unfolding S using messages_invD(2) [OF inv] r by (auto simp: message_row_ok_def)
  moreover have "\<forall>x \<in> set (give_seq r s rows). \<forall>q. msg_seq x = Some q \<longrightarrow>
      q < (next(msg_chat_id r := s + 1)) (msg_chat_id x)"
    unfolding S using lt n by (auto dest: lt)
  moreover have "msg_id x = msg_id y"
    if "x \<in> set (give_seq r s rows)" "y \<in> set (give_seq r s rows)"
      "msg_chat_id x = msg_chat_id y" "msg_seq x = Some q" "msg_seq y = Some q" for x y q
  proof -
    have old: "msg_id x = msg_id y" if "x \<in> set rows" "y \<in> set rows"
      using that \<open>msg_chat_id x = _\<close> \<open>msg_seq x = _\<close> \<open>msg_seq y = _\<close>
      by (rule messages_invD(4) [OF inv])
    have no: "msg_seq z \<noteq> Some s" if "z \<in> set rows" "msg_chat_id z = msg_chat_id r" for z
      using lt [OF that(1), of s] n that(2) by auto
    from that old no show ?thesis unfolding S by auto
  qed
  ultimately show ?thesis
    using messages_invD(1) [OF inv] unfolding messages_inv_def by (simp only: give_seq_keys) blast
qed

text \<open>Numbering a row with a fresh \<open>seq\<close> appends it to the history.\<close>

lemma sort_key_append_max:
  assumes "mset zs = add_mset z (mset xs)" "inj_on f (set zs)" "\<And>x. x \<in> set xs \<Longrightarrow> f x < f z"
  shows "sort_key f zs = sort_key f xs @ [z]"
proof (rule sort_key_inj_key_eq)
  show "mset zs = mset (sort_key f xs @ [z])" using assms(1) by simp
  show "inj_on f (set zs)" by (rule assms(2))
  show "sorted (map f (sort_key f xs @ [z]))"
    using assms(3) by (auto simp: sorted_append intro: less_imp_le)
qed

lemma messages_inv_inj:
  assumes "messages_inv next rows"
  shows "inj_on seq_key (set (filter (committed_of c) rows))"
proof (rule inj_onI)
  fix r r' assume h: "r \<in> set (filter (committed_of c) rows)"
    "r' \<in> set (filter (committed_of c) rows)" "seq_key r = seq_key r'"
  then obtain s where s: "msg_seq r = Some s" "msg_seq r' = Some s"
    by (auto simp: committed_of_def seq_key_def)
  have c: "msg_chat_id r = msg_chat_id r'" "r \<in> set rows" "r' \<in> set rows"
    using h by (auto simp: committed_of_def)
  have "msg_id r = msg_id r'" using messages_invD(4) [OF assms c(2,3,1) s] .
  with c show "r = r'"
    using message_key_unique [OF messages_invD(1) [OF assms] c(3,2)] by (simp add: message_key_def)
qed

lemma give_seq_mset:
  assumes "distinct rows" "r \<in> set rows" "msg_seq r = None"
  shows "mset (filter (committed_of (msg_chat_id r)) (give_seq r s rows)) =
    add_mset (r\<lparr>msg_seq := Some s\<rparr>) (mset (filter (committed_of (msg_chat_id r)) rows))"
proof -
  obtain a b where ab: "rows = a @ r # b" using assms(2) by (auto dest: split_list)
  with assms(1) have "r \<notin> set a" "r \<notin> set b" by auto
  then have "give_seq r s a = a" "give_seq r s b = b"
    by (auto simp: give_seq_def intro!: map_idI)
  then have "give_seq r s rows = a @ (r\<lparr>msg_seq := Some s\<rparr>) # b"
    using ab by (simp add: give_seq_def)
  with ab assms(3) show ?thesis by (simp add: committed_of_def)
qed

lemma give_seq_history:
  assumes inv: "messages_inv next rows" and r: "r \<in> set rows" "msg_seq r = None"
    and n: "next (msg_chat_id r) = s"
  shows "sort_key seq_key (filter (committed_of (msg_chat_id r)) (give_seq r s rows)) =
    sort_key seq_key (filter (committed_of (msg_chat_id r)) rows) @ [r\<lparr>msg_seq := Some s\<rparr>]"
proof (rule sort_key_append_max)
  have "distinct rows" using messages_invD(1) [OF inv] by (simp add: distinct_map)
  then show "mset (filter (committed_of (msg_chat_id r)) (give_seq r s rows)) =
      add_mset (r\<lparr>msg_seq := Some s\<rparr>) (mset (filter (committed_of (msg_chat_id r)) rows))"
    using r by (rule give_seq_mset)
  show "inj_on seq_key (set (filter (committed_of (msg_chat_id r)) (give_seq r s rows)))"
    using give_seq_inv [OF inv r(1) n] by (rule messages_inv_inj)
  show "seq_key x < seq_key (r\<lparr>msg_seq := Some s\<rparr>)"
    if "x \<in> set (filter (committed_of (msg_chat_id r)) rows)" for x
    using that messages_invD(3) [OF inv, of x] n
    by (auto simp: committed_of_def seq_key_def)
qed


section \<open>Promotion of the staged follow-ups\<close>

fun number_from :: "int \<Rightarrow> ('k, 'm) msg list \<Rightarrow> ('k, 'm) msg list" where
  "number_from s [] = []"
| "number_from s (m # ms) = m\<lparr>msg_seq := Some s\<rparr> # number_from (s + 1) ms"

lemma length_number_from [simp]: "length (number_from s ms) = length ms"
  by (induction s ms rule: number_from.induct) auto

lemma number_from_last:
  "ms \<noteq> [] \<Longrightarrow> msg_seq (last (number_from s ms)) = Some (s + int (length ms) - 1)"
proof (induction s ms rule: number_from.induct)
  case (2 s m ms)
  then show ?case by (cases ms) auto
qed simp

lemma stored_of_seq:
  assumes "message_row_ok r"
  shows "stored_of (r\<lparr>msg_seq := q\<rparr>) = (stored_of r)\<lparr>msg_seq := q\<rparr>"
proof -
  obtain sk mk where
    "msg_sender_kind r = sender_kind_display sk" "msg_message_kind r = message_kind_display mk"
    using assms by (auto simp: message_row_ok_def)
  then show ?thesis
    by (simp add: stored_of_def row_to_stored_message_def parse_row_enum_def map_err_def)
qed

lemma map_stored_number_from:
  "(\<And>r. r \<in> set rs \<Longrightarrow> message_row_ok r) \<Longrightarrow>
    map stored_of (number_from s rs) = number_from s (map stored_of rs)"
  by (induction s rs rule: number_from.induct) (auto simp: stored_of_seq)

lemma give_seq_other_history:
  assumes "r \<in> set rows" "c \<noteq> msg_chat_id r"
  shows "filter (committed_of c) (give_seq r s rows) = filter (committed_of c) rows"
  using assms(2) unfolding give_seq_def
  by (induction rows) (auto simp: committed_of_def)

lemma set_seq_neq:
  assumes "msg_seq r = None"
  shows "r \<noteq> r\<lparr>msg_seq := Some s\<rparr>"
proof
  assume "r = r\<lparr>msg_seq := Some s\<rparr>"
  then have "msg_seq r = msg_seq (r\<lparr>msg_seq := Some s\<rparr>)" by (rule arg_cong)
  with assms show False by simp
qed

lemma assign_staged_seqs_effect:
  assumes "messages_inv next (messages db)" "next c = s" "distinct rs"
    and "\<And>r. r \<in> set rs \<Longrightarrow> r \<in> set (messages db) \<and> msg_chat_id r = c \<and> msg_seq r = None"
  shows "\<exists>ms'. assign_staged_seqs c s (map stored_of rs) db =
      Inr (number_from s (map stored_of rs), db\<lparr>messages := ms'\<rparr>) \<and>
    messages_inv (next(c := s + int (length rs))) ms' \<and>
    sort_key seq_key (filter (committed_of c) ms') =
      sort_key seq_key (filter (committed_of c) (messages db)) @ number_from s rs \<and>
    (\<forall>d. d \<noteq> c \<longrightarrow> filter (committed_of d) ms' = filter (committed_of d) (messages db)) \<and>
    {x \<in> set ms'. msg_seq x = None} = {x \<in> set (messages db). msg_seq x = None} - set rs"
  using assms
proof (induction rs arbitrary: "next" s db)
  case Nil
  then show ?case by (intro exI [of _ "messages db"]) (auto simp: fun_upd_idem)
next
  case (Cons r rs)
  let ?rows = "messages db" and ?rows1 = "give_seq r s (messages db)"
  have r: "r \<in> set ?rows" "msg_chat_id r = c" "msg_seq r = None" using Cons.prems(4) by auto
  have keys: "distinct (map message_key ?rows)" using Cons.prems(1) by (rule messages_invD(1))
  have ok: "message_row_ok r" using messages_invD(2) [OF Cons.prems(1)] r by simp
  have free: "\<not> exists_row (\<lambda>x. msg_chat_id x = c \<and> msg_seq x = Some s) ?rows"
    using messages_invD(3) [OF Cons.prems(1)] Cons.prems(2) by (auto simp: row_simps)
  have S1: "set ?rows1 = insert (r\<lparr>msg_seq := Some s\<rparr>) (set ?rows - {r})"
    by (rule give_seq_set [OF r(1)])
  have inv1: "messages_inv (next(c := s + 1)) (messages (db\<lparr>messages := ?rows1\<rparr>))"
    using give_seq_inv [OF Cons.prems(1) r(1)] r(2) Cons.prems(2) by simp
  have "x \<in> set (messages (db\<lparr>messages := ?rows1\<rparr>)) \<and> msg_chat_id x = c \<and> msg_seq x = None"
    if "x \<in> set rs" for x
    using that Cons.prems(3,4) by (auto simp: S1)
  note IH = Cons.IH [OF inv1 fun_upd_same _ this]
  have "distinct rs" using Cons.prems(3) by simp
  note IH = IH [OF this, unfolded fun_upd_upd]
  obtain ms' where ms0:
    "assign_staged_seqs c (s + 1) (map stored_of rs) (db\<lparr>messages := ?rows1\<rparr>) =
      Inr (number_from (s + 1) (map stored_of rs), db\<lparr>messages := ?rows1, messages := ms'\<rparr>)"
    "messages_inv (next(c := s + 1 + int (length rs))) ms'"
    "sort_key seq_key (filter (committed_of c) ms') =
      sort_key seq_key (filter (committed_of c) (messages (db\<lparr>messages := ?rows1\<rparr>))) @
      number_from (s + 1) rs"
    "\<forall>d. d \<noteq> c \<longrightarrow> filter (committed_of d) ms' =
      filter (committed_of d) (messages (db\<lparr>messages := ?rows1\<rparr>))"
    "{x \<in> set ms'. msg_seq x = None} =
      {x \<in> set (messages (db\<lparr>messages := ?rows1\<rparr>)). msg_seq x = None} - set rs"
    using IH by blast
  note ms' = ms0 [simplified]
  have step: "assign_staged_seqs c s (map stored_of (r # rs)) db =
      Inr (number_from s (map stored_of (r # rs)), db\<lparr>messages := ms'\<rparr>)"
    using ms'(1) free count_by_key [OF keys r(1,3)] update_by_key [OF keys r(1,3), of s]
    by (simp add: stored_of_fields [OF ok] r(2))
  have "sort_key seq_key (filter (committed_of c) ms') =
      sort_key seq_key (filter (committed_of c) ?rows) @ number_from s (r # rs)"
    using ms'(3) give_seq_history [OF Cons.prems(1) r(1,3)] r(2) Cons.prems(2) by simp
  moreover have "{x \<in> set ms'. msg_seq x = None} =
      {x \<in> set ?rows. msg_seq x = None} - set (r # rs)"
  proof -
    have "{x \<in> set ?rows1. msg_seq x = None} = {x \<in> set ?rows. msg_seq x = None} - {r}"
      unfolding S1 using set_seq_neq [OF r(3), of s] by auto
    with ms'(5) show ?thesis by (auto simp del: give_seq_set)
  qed
  moreover have "messages_inv (next(c := s + int (length (r # rs)))) ms'"
    using ms'(2) by (simp add: algebra_simps)
  moreover have "\<forall>d. d \<noteq> c \<longrightarrow> filter (committed_of d) ms' = filter (committed_of d) ?rows"
    using ms'(4) give_seq_other_history [OF r(1)] r(2) by simp
  ultimately show ?case using step by blast
qed


lemma staged_rows_of_facts:
  assumes "distinct (messages db)"
  shows "distinct (staged_rows_of c t db)"
    and "r \<in> set (staged_rows_of c t db) \<Longrightarrow>
      r \<in> set (messages db) \<and> msg_chat_id r = c \<and> msg_turn_id r = Some t \<and> staged_user r"
  using assms by (auto simp: staged_rows_of_def)

lemma chat_inv_distinct: "chat_inv db \<Longrightarrow> distinct (messages db)"
  using chat_invD(2) by (simp add: distinct_map)

definition staged_promotion :: "string \<Rightarrow> int \<Rightarrow> string \<Rightarrow> string \<Rightarrow> database \<Rightarrow> database" where
  "staged_promotion now c json turn_id db =
     (let db1 = ensure_chat_row now c db;
          staged = map stored_of (staged_rows_of c turn_id db)
      in case assign_staged_seqs c (next_seq_of c db) staged db1 of
           Inl _ \<Rightarrow> db
         | Inr (ms, db2) \<Rightarrow>
             advance_chat_revision_locked c (int (length ms)) now
               (write_session_snapshot_locked c json now
                 (next_seq_of c db + int (length ms) - 1) db2))"

lemma staged_rows_of_ensure [simp]:
  "staged_rows_of c t (ensure_chat_row now d db) = staged_rows_of c t db"
  by (simp add: staged_rows_of_def)

lemma commit_staged_eq:
  assumes inv: "chat_inv db"
    and turn: "find_row (\<lambda>t. tr_turn_id t = turn_id \<and>
      tr_state t = turn_run_state_display ToolsCompleted) (turn_runs db) = Some t"
    and c: "tr_chat_id t = c" and rows: "staged_rows_of c turn_id db = rs"
  shows "commit_staged_user_messages now turn_id json e db =
    (if e \<noteq> revision_of c db then Inl SessionSnapshotConflict
     else if rs = [] then Inr (\<lparr>csm_revision = revision_of c db, csm_messages = []\<rparr>,
       ensure_chat_row now c db)
     else Inr (\<lparr>csm_revision = revision_of c db + int (length rs),
         csm_messages = number_from (next_seq_of c db) (map stored_of rs)\<rparr>,
       staged_promotion now c json turn_id db))"
proof -
  let ?db1 = "ensure_chat_row now c db" and ?n = "next_seq_of c db"
  have inv1: "chat_inv ?db1" using inv by (rule chat_inv_ensure)
  then have m: "messages_inv (\<lambda>c. next_seq_of c ?db1) (messages ?db1)"
    by (simp only: chat_inv_messages)
  note facts = staged_rows_of_facts [OF chat_inv_distinct [OF inv], where c = c and t = turn_id, unfolded rows]
  have "r \<in> set (messages ?db1) \<and> msg_chat_id r = c \<and> msg_seq r = None" if "r \<in> set rs" for r
    using facts(2) [OF that] by (simp add: staged_user_def)
  with assign_staged_seqs_effect [OF m refl facts(1), of c] obtain ms' where ms':
    "assign_staged_seqs c ?n (map stored_of rs) ?db1 =
      Inr (number_from ?n (map stored_of rs), ?db1\<lparr>messages := ms'\<rparr>)" by auto
  have map: "rmap row_to_stored_message rs = Inr (map stored_of rs)"
    using facts(2) chat_invD(4) [OF inv] by (intro rmap_Inr row_to_stored_ok) blast
  have last: "rs \<noteq> [] \<Longrightarrow> msg_seq (last (number_from ?n (map stored_of rs))) =
      Some (?n + int (length rs) - 1)"
    using number_from_last [of "map stored_of rs" ?n] by simp
  show ?thesis
    using turn c rows map ms' last
    by (simp add: commit_staged_user_messages_def read_cursor_eq cas_ok_def Let_def
        staged_promotion_def)
qed


text \<open>
  The shape every batched conversation write has: new message rows, the snapshot row, and the
  chat advanced by the number of committed messages.
\<close>

definition batch_write ::
  "string \<Rightarrow> int \<Rightarrow> string \<Rightarrow> int \<Rightarrow> int \<Rightarrow> message_row list \<Rightarrow> database \<Rightarrow> database" where
  "batch_write now c json through k rows db =
     advance_chat_revision_locked c k now
       (write_session_snapshot_locked c json now through
         ((ensure_chat_row now c db)\<lparr>messages := rows\<rparr>))"

lemma batch_write_messages [simp]: "messages (batch_write now c json q k rows db) = rows"
  by (simp add: batch_write_def)

lemma batch_write_frame [simp]: "conv_frame db (batch_write now c json q k rows db)"
  by (auto simp: batch_write_def conv_frame_def ensure_chat_row_def advance_chat_revision_locked_def
      write_session_snapshot_locked_def Let_def)

lemma batch_write_chat:
  "revision_of d (batch_write now c json q k rows db) = revision_of d db + (if d = c then k else 0)"
  "next_seq_of d (batch_write now c json q k rows db) = next_seq_of d db + (if d = c then k else 0)"
proof -
  have "chat_of c (ensure_chat_row now c db) \<noteq> None"
    using chat_of_ensure_Some [of c now db] by auto
  then show "revision_of d (batch_write now c json q k rows db) =
      revision_of d db + (if d = c then k else 0)"
    "next_seq_of d (batch_write now c json q k rows db) =
      next_seq_of d db + (if d = c then k else 0)"
    by (simp_all add: batch_write_def revision_of_advance next_seq_of_advance)
qed

lemma batch_write_inv:
  assumes inv: "chat_inv db" and k: "0 \<le> k" "q < next_seq_of c db + k"
    and rows: "messages_inv ((\<lambda>d. next_seq_of d db)(c := next_seq_of c db + k)) rows"
  shows "chat_inv (batch_write now c json q k rows db)"
proof -
  let ?db' = "batch_write now c json q k rows db"
  let ?e = "(ensure_chat_row now c db)\<lparr>messages := rows\<rparr>"
  have inv1: "chat_inv (ensure_chat_row now c db)" using inv by (rule chat_inv_ensure)
  have chats': "chats ?db' = chats (advance_chat_revision_locked c k now (ensure_chat_row now c db))"
    by (simp add: batch_write_def advance_chat_revision_locked_def)
  have ses': "sessions ?db' = sessions (write_session_snapshot_locked c json now q ?e)"
    by (simp add: batch_write_def)
  have "sessions ?e = sessions db" by simp
  then have ds: "distinct (map ses_chat_id (sessions ?e))"
    using chat_invD(3) [OF inv] by simp
  have "distinct (map ch_chat_id (chats ?db'))"
    using chat_invD(1) [OF inv1] by (simp only: chats' distinct_chat_ids_advance)
  moreover have "\<forall>x \<in> set (chats ?db'). 1 \<le> ch_next_message_seq x"
    using chat_invD(8) [OF inv1] k(1)
    by (fastforce simp: chats' advance_chat_revision_locked_def row_simps)
  moreover have "distinct (map ses_chat_id (sessions ?db'))"
    unfolding ses' by (rule write_session_sessions(1) [OF ds])
  moreover have "\<forall>s \<in> set (sessions ?db'). ses_snapshot_through_seq s < next_seq_of (ses_chat_id s) ?db'"
    using write_session_sessions(2) [OF ds, of _ c json now q] chat_invD(7) [OF inv] k
    by (fastforce simp: ses' batch_write_chat)
  moreover have "messages_inv (\<lambda>d. next_seq_of d ?db') (messages ?db')"
  proof -
    have "(\<lambda>d. next_seq_of d ?db') = (\<lambda>d. next_seq_of d db)(c := next_seq_of c db + k)"
      by (rule ext) (simp add: batch_write_chat)
    then show ?thesis using rows by simp
  qed
  ultimately show ?thesis unfolding chat_inv_messages by blast
qed

lemma staged_promotion_effect:
  assumes inv: "chat_inv db" and rs: "staged_rows_of c turn_id db = rs"
  shows "\<exists>ms'. staged_promotion now c json turn_id db =
      batch_write now c json (next_seq_of c db + int (length rs) - 1) (int (length rs)) ms' db \<and>
    messages_inv ((\<lambda>d. next_seq_of d db)(c := next_seq_of c db + int (length rs))) ms' \<and>
    sort_key seq_key (filter (committed_of c) ms') =
      sort_key seq_key (filter (committed_of c) (messages db)) @ number_from (next_seq_of c db) rs \<and>
    (\<forall>d. d \<noteq> c \<longrightarrow> filter (committed_of d) ms' = filter (committed_of d) (messages db)) \<and>
    {x \<in> set ms'. msg_seq x = None} = {x \<in> set (messages db). msg_seq x = None} - set rs"
proof -
  let ?db1 = "ensure_chat_row now c db" and ?n = "next_seq_of c db"
  have m: "messages_inv (\<lambda>c. next_seq_of c db) (messages ?db1)"
    using inv by (simp add: chat_inv_messages)
  note facts = staged_rows_of_facts [OF chat_inv_distinct [OF inv], where c = c and t = turn_id,
      unfolded rs]
  have r: "r \<in> set (messages ?db1) \<and> msg_chat_id r = c \<and> msg_seq r = None" if "r \<in> set rs" for r
    using facts(2) [OF that] by (simp add: staged_user_def)
  obtain ms' where ms':
    "assign_staged_seqs c ?n (map stored_of rs) ?db1 =
      Inr (number_from ?n (map stored_of rs), ?db1\<lparr>messages := ms'\<rparr>)"
    "messages_inv ((\<lambda>d. next_seq_of d db)(c := ?n + int (length rs))) ms'"
    "sort_key seq_key (filter (committed_of c) ms') =
      sort_key seq_key (filter (committed_of c) (messages ?db1)) @ number_from ?n rs"
    "\<forall>d. d \<noteq> c \<longrightarrow> filter (committed_of d) ms' = filter (committed_of d) (messages ?db1)"
    "{x \<in> set ms'. msg_seq x = None} = {x \<in> set (messages ?db1). msg_seq x = None} - set rs"
    using assign_staged_seqs_effect [OF m refl facts(1) r] by blast
  have "staged_promotion now c json turn_id db =
      batch_write now c json (?n + int (length rs) - 1) (int (length rs)) ms' db"
    using ms'(1) rs by (simp add: staged_promotion_def batch_write_def Let_def)
  then show ?thesis using ms'(2-5) by auto
qed

text \<open>The invariant and the frame of a commit, whatever its outcome.\<close>

lemma commit_staged_ok:
  assumes inv: "chat_inv db"
    and ok: "commit_staged_user_messages now turn_id json e db = Inr (out, db')"
  shows "\<exists>t. find_row (\<lambda>t. tr_turn_id t = turn_id \<and>
      tr_state t = turn_run_state_display ToolsCompleted) (turn_runs db) = Some t \<and>
    e = revision_of (tr_chat_id t) db \<and>
    csm_messages out = number_from (next_seq_of (tr_chat_id t) db)
       (map stored_of (staged_rows_of (tr_chat_id t) turn_id db)) \<and>
    csm_revision out = revision_of (tr_chat_id t) db + int (length (csm_messages out)) \<and>
    db' = (if staged_rows_of (tr_chat_id t) turn_id db = []
       then ensure_chat_row now (tr_chat_id t) db
       else staged_promotion now (tr_chat_id t) json turn_id db)"
proof -
  from ok obtain t where t: "find_row (\<lambda>t. tr_turn_id t = turn_id \<and>
      tr_state t = turn_run_state_display ToolsCompleted) (turn_runs db) = Some t"
    by (auto simp: commit_staged_user_messages_def res_simps)
  show ?thesis
    using ok t commit_staged_eq [OF inv t refl refl, of now json e]
    by (intro exI [of _ t]) (auto split: if_splits)
qed

lemma commit_staged_inv:
  assumes inv: "chat_inv db"
    and ok: "commit_staged_user_messages now turn_id json e db = Inr (out, db')"
  shows "chat_inv db'" "conv_frame db db'"
proof -
  obtain t :: turn_row where t: "db' = (if staged_rows_of (tr_chat_id t) turn_id db = []
       then ensure_chat_row now (tr_chat_id t) db
       else staged_promotion now (tr_chat_id t) json turn_id db)"
    using commit_staged_ok [OF inv ok] by blast
  obtain ms' where ms': "staged_promotion now (tr_chat_id t) json turn_id db =
      batch_write now (tr_chat_id t) json (next_seq_of (tr_chat_id t) db +
        int (length (staged_rows_of (tr_chat_id t) turn_id db)) - 1)
        (int (length (staged_rows_of (tr_chat_id t) turn_id db))) ms' db"
    "messages_inv ((\<lambda>d. next_seq_of d db)(tr_chat_id t := next_seq_of (tr_chat_id t) db +
        int (length (staged_rows_of (tr_chat_id t) turn_id db)))) ms'"
    using staged_promotion_effect [OF inv refl, of now "tr_chat_id t" json turn_id] by blast
  show "chat_inv db'"
    using t ms' chat_inv_ensure [OF inv] batch_write_inv [OF inv _ _ ms'(2)] by auto
  show "conv_frame db db'" using t ms'(1) by auto
qed


section \<open>Staging\<close>

lemma stage_tool_followup_accepted:
  assumes inv: "chat_inv db"
    and ok: "stage_tool_followup c key hash sender content ts db = Inr (StageAccepted m, db')"
  shows "msg_id m = key \<and> msg_chat_id m = c \<and> msg_sender_id m = sender \<and> msg_content m = content \<and>
    msg_sender_kind m = SenderUser \<and> msg_message_kind m = MessageMsg \<and>
    (db' = db \<or>
     (find_row (has_message_key key c) (messages db) = None \<and> msg_seq m = None \<and>
      db' = db\<lparr>messages := insert_row (message_to_row m None) (messages db)\<rparr> \<and>
      count_rows (\<lambda>r. msg_chat_id r = c \<and> staged_user r) (messages db) <
        MAX_DURABLE_PENDING_PER_SESSION \<and>
      count_rows staged_user (messages db) < MAX_DURABLE_PENDING_PER_SCOPE))"
proof (cases "find_row (has_message_key key c) (messages db)")
  case None
  with ok show ?thesis
    by (auto simp: stage_tool_followup_def Let_def res_simps split: option.splits list.splits
        if_splits)
next
  case (Some row)
  then have r: "row \<in> set (messages db)" "msg_id row = key" "msg_chat_id row = c"
    by (auto dest!: find_row_Some simp: has_message_key_def)
  then have "message_row_ok row" using chat_invD(4) [OF inv] by blast
  with Some ok r show ?thesis
    by (auto simp: stage_tool_followup_def Let_def row_to_stored_ok stored_of_fields
        split: if_splits)
qed

lemma stage_insert_inv:
  assumes inv: "chat_inv db" and new: "find_message (msg_id m) (msg_chat_id m) db = None"
  shows "chat_inv (db\<lparr>messages := insert_row (message_to_row m None) (messages db)\<rparr>)"
proof -
  have "messages_inv (\<lambda>c. next_seq_of c db) (insert_row (message_to_row m None) (messages db))"
    using inv find_message_None [OF new]
    by (fastforce simp: chat_inv_messages messages_inv_def insert_row_def message_key_def)
  then show ?thesis using inv by (simp add: chat_inv_messages)
qed

lemma stage_tool_followup_inv:
  assumes inv: "chat_inv db" and ok: "stage_tool_followup c key hash sender content ts db = Inr (x, db')"
  shows "chat_inv db'"
proof (cases x)
  case NoToolPhase
  with ok have "db' = db"
    by (auto simp: stage_tool_followup_def Let_def res_simps split: option.splits list.splits
        if_splits)
  with inv show ?thesis by simp
next
  case (StageAccepted m)
  show ?thesis
    using stage_tool_followup_accepted [OF inv ok [unfolded StageAccepted]] stage_insert_inv [OF inv, of m]
      inv by (auto simp: find_message_def)
qed

lemma stage_tool_followup_again:
  assumes inv: "chat_inv db"
    and ok: "stage_tool_followup c key hash sender content ts db = Inr (StageAccepted m, db')"
  shows "stage_tool_followup c key hash' sender content ts' db' = Inr (StageAccepted m, db')"
proof -
  note facts = stage_tool_followup_accepted [OF inv ok]
  show ?thesis
  proof (cases "db' = db")
    case True
    have "find_row (has_message_key key c) (messages db) \<noteq> None"
    proof
      assume n: "find_row (has_message_key key c) (messages db) = None"
      with ok facts obtain x where "db' = db\<lparr>messages := insert_row x (messages db)\<rparr>"
        by (auto simp: stage_tool_followup_def Let_def res_simps split: option.splits list.splits
            if_splits)
      then have "length (messages db') = Suc (length (messages db))" by (simp add: insert_row_def)
      with True show False by simp
    qed
    with True ok facts show ?thesis
      by (auto simp: stage_tool_followup_def Let_def res_simps split: if_splits)
  next
    case False
    with facts have "find_row (has_message_key key c) (messages db') = Some (message_to_row m None)"
      by (auto simp: insert_row_def find_row_append has_message_key_def)
    moreover from False facts have "m\<lparr>msg_seq := None\<rparr> = m" by auto
    ultimately show ?thesis using facts
      by (simp add: stage_tool_followup_def Let_def row_of_message_roundtrip)
  qed
qed

section \<open>Properties\<close>

text \<open>
  A commit of staged follow-ups presents the revision it loaded, appends the Turn's staged
  messages to the chat's committed history in acceptance order with consecutive sequence
  numbers, leaves none of them staged, returns the revision the chat then has, and keeps the
  invariant of the conversation tables.
\<close>

theorem staged_commit_appends:
  assumes inv: "chat_inv db"
    and turn: "find_row (\<lambda>t. tr_turn_id t = turn_id \<and>
      tr_state t = turn_run_state_display ToolsCompleted) (turn_runs db) = Some t"
    and ok: "commit_staged_user_messages now turn_id json e db = Inr (out, db')"
  shows "e = revision_of (tr_chat_id t) db \<and>
    csm_messages out = number_from (next_seq_of (tr_chat_id t) db)
      (map stored_of (staged_rows_of (tr_chat_id t) turn_id db)) \<and>
    committed_history (tr_chat_id t) db' = committed_history (tr_chat_id t) db @ csm_messages out \<and>
    csm_revision out = revision_of (tr_chat_id t) db' \<and>
    staged_rows_of (tr_chat_id t) turn_id db' = [] \<and> chat_inv db'"
proof -
  let ?c = "tr_chat_id t"
  let ?rs = "staged_rows_of ?c turn_id db"
  have out: "e = revision_of ?c db" "csm_messages out = number_from (next_seq_of ?c db) (map stored_of ?rs)"
    "csm_revision out = revision_of ?c db + int (length ?rs)"
    "db' = (if ?rs = [] then ensure_chat_row now ?c db else staged_promotion now ?c json turn_id db)"
    using commit_staged_ok [OF inv ok] turn by auto
  have okr: "\<And>r. r \<in> set ?rs \<Longrightarrow> message_row_ok r"
    using staged_rows_of_facts(2) [OF chat_inv_distinct [OF inv]] chat_invD(4) [OF inv] by blast
  obtain ms' where ms': "staged_promotion now ?c json turn_id db =
      batch_write now ?c json (next_seq_of ?c db + int (length ?rs) - 1) (int (length ?rs)) ms' db"
    "sort_key seq_key (filter (committed_of ?c) ms') =
      sort_key seq_key (filter (committed_of ?c) (messages db)) @ number_from (next_seq_of ?c db) ?rs"
    "{x \<in> set ms'. msg_seq x = None} = {x \<in> set (messages db). msg_seq x = None} - set ?rs"
    using staged_promotion_effect [OF inv refl, of now ?c json turn_id] by blast
  have hist: "committed_history ?c db' = committed_history ?c db @ csm_messages out"
    using out(2,4) ms' map_stored_number_from [OF okr, where s = "next_seq_of ?c db"]
    by (auto simp: committed_history_def)
  have rs_set: "set ?rs = {r \<in> set (messages db). msg_chat_id r = ?c \<and>
      msg_turn_id r = Some turn_id \<and> staged_user r}"
    by (simp add: staged_rows_of_def)
  have none: "staged_rows_of ?c turn_id db' = []"
  proof (cases "?rs = []")
    case False
    have "\<not> (msg_chat_id r = ?c \<and> msg_turn_id r = Some turn_id \<and> staged_user r)"
      if "r \<in> set ms'" for r
    proof
      assume h: "msg_chat_id r = ?c \<and> msg_turn_id r = Some turn_id \<and> staged_user r"
      with that have "r \<in> {x \<in> set ms'. msg_seq x = None}" by (simp add: staged_user_def)
      then have "r \<in> set (messages db) - set ?rs" unfolding ms'(3) by simp
      with h show False by (simp add: rs_set)
    qed
    then have "filter (\<lambda>r. msg_chat_id r = ?c \<and> msg_turn_id r = Some turn_id \<and> staged_user r) ms' = []"
      by (auto simp: filter_empty_conv)
    with False show ?thesis by (simp add: out(4) ms'(1) staged_rows_of_def)
  qed (simp add: out(4))
  have "csm_revision out = revision_of ?c db'" using out(3,4) ms'(1) by (auto simp: batch_write_chat)
  then show ?thesis using out(1,2) hist none commit_staged_inv(1) [OF inv ok] by simp
qed

theorem staged_commit_appends_witness:
  "\<exists>out db'. commit_staged_user_messages ''t9'' ''turn-1'' ''[]'' 2 (sample_db ToolsCompleted) =
      Inr (out, db') \<and>
    committed_history 7 db' = committed_history 7 (sample_db ToolsCompleted) @ csm_messages out"
proof -
  let ?db = "sample_db ToolsCompleted" and ?t = "sample_turn ''turn-1'' ToolsCompleted (Some ''{}'')"
  have t: "find_row (\<lambda>t. tr_turn_id t = ''turn-1'' \<and>
      tr_state t = turn_run_state_display ToolsCompleted) (turn_runs ?db) = Some ?t"
    by (simp add: sample_defs)
  have c: "tr_chat_id ?t = 7" by (simp add: sample_defs)
  obtain out db' where ok: "commit_staged_user_messages ''t9'' ''turn-1'' ''[]'' 2 ?db = Inr (out, db')"
    using commit_staged_eq [OF sample_db_inv t c refl, of "''t9''" "''[]''" 2]
    by (auto split: if_splits)
  show ?thesis
    using staged_commit_appends [OF sample_db_inv t ok] ok c by auto
qed

text \<open>
  Staging a follow-up is idempotent and bounded: an accepted request is stored as one
  user row without a \<open>seq\<close>, a row is added only below 32 staged messages of the chat and 512
  of the database, and repeating the request returns the same message and adds nothing.
\<close>

theorem stage_tool_followup_idempotent:
  assumes inv: "chat_inv db"
    and ok: "stage_tool_followup c key hash sender content ts db = Inr (StageAccepted m, db')"
  shows "msg_id m = key \<and> msg_chat_id m = c \<and> msg_content m = content \<and> chat_inv db' \<and>
    (db' = db \<or> (messages db' = messages db @ [message_to_row m None] \<and> msg_seq m = None \<and>
      count_rows (\<lambda>r. msg_chat_id r = c \<and> staged_user r) (messages db) < 32 \<and>
      count_rows staged_user (messages db) < 512)) \<and>
    stage_tool_followup c key hash' sender content ts' db' = Inr (StageAccepted m, db')"
  using stage_tool_followup_accepted [OF inv ok] stage_tool_followup_inv [OF inv ok]
    stage_tool_followup_again [OF inv ok]
  by (auto simp: insert_row_def MAX_DURABLE_PENDING_PER_SESSION_def
      MAX_DURABLE_PENDING_PER_SCOPE_def)

theorem stage_tool_followup_idempotent_witness:
  "\<exists>m db'. stage_tool_followup 7 ''k9'' ''h'' ''ana'' ''more'' ''t9'' (sample_db ToolsPending) =
      Inr (StageAccepted m, db') \<and> messages db' = sample_rows @ [message_to_row m None] \<and>
    stage_tool_followup 7 ''k9'' ''h'' ''ana'' ''more'' ''t10'' db' = Inr (StageAccepted m, db')"
proof -
  obtain m db' where ok: "stage_tool_followup 7 ''k9'' ''h'' ''ana'' ''more'' ''t9''
      (sample_db ToolsPending) = Inr (StageAccepted m, db')"
    and new: "messages db' \<noteq> sample_rows"
    by (simp add: stage_tool_followup_def sample_defs has_message_key_def message_to_row_def
        count_rows_def staged_user_def MAX_DURABLE_PENDING_PER_SESSION_def
        MAX_DURABLE_PENDING_PER_SCOPE_def insert_row_def Let_def)
  have "messages (sample_db ToolsPending) = sample_rows" by (simp add: sample_db_def)
  with stage_tool_followup_idempotent [OF sample_db_inv ok, of "''h''" "''t10''"] ok new
  show ?thesis by auto
qed

end
