(* ===== verification/Turn_Store.thy ===== *)
theory Turn_Store
  imports Staged_Followups
begin

text \<open>
  \<open>src/src/storage/turn.rs\<close>: the durable life cycle of a Turn in \<open>turn_runs\<close>, the terminal
  reasons of origins, and start-up recovery. The theory gives every operation as a transaction
  and the step relation of the store; the invariant of the table, the capacity bound and the
  life-cycle laws are in \<open>Turn_Lifecycle\<close>.
\<close>

section \<open>Parameters and results\<close>

datatype accept_outcome = Created turn | Existing turn

record accept_turn_params =
  atp_chat_id :: int
  atp_request_key :: string
  atp_config_revision :: int
  atp_config_fingerprint :: "string option"
  atp_request_payload_hash :: string
  atp_origin_id :: "string option"
  atp_scheduled_request_json :: "string option"

record recovered_turn_run =
  rtr_turn_id :: string
  rtr_chat_id :: int
  rtr_from :: turn_run_state
  rtr_recovered_to :: turn_run_state

record recovered_origin =
  ro_origin_id :: string
  ro_executed_turn_count :: nat
  ro_terminal_reason :: "string option"

record durable_pending_turn =
  dpt_turn_id :: string
  dpt_accepted_at :: string
  dpt_scheduled_request_json :: string

section \<open>Reading and moving a row\<close>

definition find_turn :: "string \<Rightarrow> database \<Rightarrow> turn_row option" where
  "find_turn turn_id db = find_row (\<lambda>t. tr_turn_id t = turn_id) (turn_runs db)"

definition update_turn :: "string \<Rightarrow> (turn_row \<Rightarrow> turn_row) \<Rightarrow> database \<Rightarrow> database" where
  "update_turn turn_id f db =
     db\<lparr>turn_runs := update_rows (\<lambda>t. tr_turn_id t = turn_id) f (turn_runs db)\<rparr>"

definition read_state_locked :: "string \<Rightarrow> database \<Rightarrow> storage_error + turn_run_state" where
  "read_state_locked turn_id db =
     rbind (ok_or (find_turn turn_id db) (NotFound (''turn_run:'' @ turn_id))) (\<lambda>t.
     map_err (\<lambda>e. Conflict (''invalid turn_runs.state: '' @ e))
       (turn_run_state_from_str (tr_state t)))"

definition expected_but_was :: "turn_run_state \<Rightarrow> turn_run_state \<Rightarrow> storage_error" where
  "expected_but_was expected state =
     Conflict (''turn state transition rejected: expected '' @ turn_run_state_display expected @
       '' but was '' @ turn_run_state_display state)"

definition transition_locked ::
  "string \<Rightarrow> string \<Rightarrow> turn_run_state \<Rightarrow> turn_run_state \<Rightarrow> database \<Rightarrow> unit tx" where
  "transition_locked now turn_id from to db =
     rbind (read_state_locked turn_id db) (\<lambda>current.
     if current \<noteq> from then Inl (expected_but_was from current)
     else if \<not> can_transition from to
     then Inl (Conflict (''turn state transition rejected: '' @ turn_run_state_display from @
            '' -> '' @ turn_run_state_display to))
     else Inr ((), update_turn turn_id (\<lambda>t. t\<lparr>tr_state := turn_run_state_display to,
            tr_updated_at := now\<rparr>) db))"

definition require_state_locked ::
  "string \<Rightarrow> turn_run_state \<Rightarrow> database \<Rightarrow> storage_error + unit" where
  "require_state_locked turn_id expected db =
     rbind (read_state_locked turn_id db) (\<lambda>state.
     if state \<noteq> expected then Inl (expected_but_was expected state) else Inr ())"

text \<open>The conversation entry of a failed Turn.\<close>

definition turn_failure_message_id :: "string \<Rightarrow> string" where
  "turn_failure_message_id turn_id = ''turn-failure:'' @ turn_id"

definition turn_failure_message :: "string \<Rightarrow> int \<Rightarrow> string \<Rightarrow> string \<Rightarrow> stored_message" where
  "turn_failure_message now chat_id turn_id public_message =
     (stored_message_system '''' now chat_id public_message)
       \<lparr>msg_id := turn_failure_message_id turn_id, msg_message_kind := TurnFailureMsg,
        msg_turn_id := Some turn_id\<rparr>"

definition record_turn_failure_message_locked ::
  "string \<Rightarrow> string \<Rightarrow> string \<Rightarrow> database \<Rightarrow> unit tx" where
  "record_turn_failure_message_locked now turn_id public_message db =
     rbind (ok_or (find_turn turn_id db) (Sqlite QueryReturnedNoRows)) (\<lambda>t.
     rbind (commit_message_locked now
              (turn_failure_message now (tr_chat_id t) turn_id public_message) None None db)
       (\<lambda>(_, db'). Inr ((), db')))"

definition TURN_UNCERTAIN_PUBLIC_MESSAGE :: string where
  "TURN_UNCERTAIN_PUBLIC_MESSAGE =
     ''Turn ended without a final response after it may have changed something outside EgoPulse. Check the result before sending your message again.''"

definition TURN_INTERRUPTED_PUBLIC_MESSAGE :: string where
  "TURN_INTERRUPTED_PUBLIC_MESSAGE =
     ''Turn ended without a response because the runtime restarted. Please send your message again.''"

definition DURABLE_PAYLOAD_INVALID_PUBLIC_MESSAGE :: string where
  "DURABLE_PAYLOAD_INVALID_PUBLIC_MESSAGE =
     ''Turn could not be resumed because its saved request was unreadable. Please send your message again.''"

definition read_turn_run :: "(turn_row \<Rightarrow> bool) \<Rightarrow> database \<Rightarrow> storage_error + turn option" where
  "read_turn_run P db =
     (case find_row P (turn_runs db) of
        None \<Rightarrow> Inr None
      | Some r \<Rightarrow>
          rbind (parse_row_enum turn_run_state_from_str 3 (tr_state r)) (\<lambda>state.
          Inr (Some \<lparr>tr_turn_id = tr_turn_id r, tr_chat_id = tr_chat_id r,
            tr_request_key = tr_request_key r, tr_state = state,
            tr_current_iteration = tr_current_iteration r,
            tr_input_message_id = tr_input_message_id r,
            tr_final_message_id = tr_final_message_id r,
            tr_config_revision = tr_config_revision r,
            tr_config_fingerprint = tr_config_fingerprint r,
            tr_model_request_hash = tr_model_request_hash r,
            tr_model_attempt = tr_model_attempt r,
            tr_output_published = (tr_output_published r \<noteq> 0),
            tr_error_kind = tr_error_kind r, tr_error_message = tr_error_message r,
            tr_accepted_at = tr_accepted_at r, tr_updated_at = tr_updated_at r,
            tr_finished_at = tr_finished_at r,
            tr_request_payload_hash = tr_request_payload_hash r,
            tr_scheduled_request_json = tr_scheduled_request_json r,
            tr_origin_id = tr_origin_id r\<rparr>)))"

section \<open>Acceptance\<close>

definition same_request :: "int \<Rightarrow> string \<Rightarrow> turn_row \<Rightarrow> bool" where
  "same_request chat_id request_key t = (tr_chat_id t = chat_id \<and> tr_request_key t = request_key)"

definition pending_row :: "turn_row \<Rightarrow> bool" where
  "pending_row t = (tr_state t \<in> {''accepted'', ''input_committed''})"

definition persisted_origin_id :: "string \<Rightarrow> accept_turn_params \<Rightarrow> string" where
  "persisted_origin_id proposed_turn_id p =
     (case atp_origin_id p of Some s \<Rightarrow> if s = [] then proposed_turn_id else s
      | None \<Rightarrow> proposed_turn_id)"

definition accepted_row :: "string \<Rightarrow> string \<Rightarrow> accept_turn_params \<Rightarrow> turn_row" where
  "accepted_row now proposed_turn_id p =
     \<lparr>tr_turn_id = proposed_turn_id, tr_chat_id = atp_chat_id p,
      tr_request_key = atp_request_key p, tr_state = ''accepted'', tr_current_iteration = 0,
      tr_input_message_id = None, tr_final_message_id = None,
      tr_config_revision = atp_config_revision p,
      tr_config_fingerprint = atp_config_fingerprint p, tr_model_request_hash = None,
      tr_model_attempt = 0, tr_output_published = 0, tr_error_kind = None,
      tr_error_message = None, tr_accepted_at = now, tr_updated_at = now, tr_finished_at = None,
      tr_request_payload_hash = Some (atp_request_payload_hash p),
      tr_scheduled_request_json = atp_scheduled_request_json p,
      tr_origin_id = Some (persisted_origin_id proposed_turn_id p)\<rparr>"

text \<open>
  The hash is compared after the commit; a mismatch therefore is an error of the call, but
  the database it leaves is the unchanged one, because the insert did nothing.
\<close>

definition accept_or_get_turn ::
  "string \<Rightarrow> string \<Rightarrow> accept_turn_params \<Rightarrow> database \<Rightarrow> accept_outcome tx" where
  "accept_or_get_turn now proposed_turn_id p db =
     (let chat_id = atp_chat_id p; request_key = atp_request_key p;
          already_present = count_rows (same_request chat_id request_key) (turn_runs db)
      in if already_present = 0 \<and>
            count_rows (\<lambda>t. tr_chat_id t = chat_id \<and> pending_row t) (turn_runs db)
              \<ge> MAX_DURABLE_PENDING_PER_SESSION
         then Inl TurnSessionQueueFull
         else if already_present = 0 \<and>
            count_rows pending_row (turn_runs db) \<ge> MAX_DURABLE_PENDING_PER_SCOPE
         then Inl TurnGlobalQueueFull
         else if \<not> exists_row (same_request chat_id request_key) (turn_runs db) \<and>
            find_turn proposed_turn_id db \<noteq> None
         then Inl (Sqlite (ConstraintViolation ''turn_runs.turn_id''))
         else
           (let db' = (if exists_row (same_request chat_id request_key) (turn_runs db) then db
                       else db\<lparr>turn_runs :=
                              insert_row (accepted_row now proposed_turn_id p) (turn_runs db)\<rparr>)
            in rbind (read_turn_run (same_request chat_id request_key) db') (\<lambda>found.
               rbind (ok_or found
                 (Conflict (''turn_runs row vanished after upsert for chat_id='' @ show_int chat_id @
                   '' request_key='' @ request_key))) (\<lambda>run.
               if tr_turn_id run = proposed_turn_id then Inr (Created run, db')
               else case tr_request_payload_hash run of
                   Some existing_hash \<Rightarrow>
                     if existing_hash \<noteq> atp_request_payload_hash p
                     then Inl (Conflict (''turn_runs request_payload_hash mismatch for chat_id='' @
                            show_int chat_id @ '' request_key='' @ request_key))
                     else Inr (Existing run, db')
                 | None \<Rightarrow> Inr (Existing run, db')))))"

section \<open>Reads\<close>

definition get_turn_run :: "string \<Rightarrow> database \<Rightarrow> storage_error + turn" where
  "get_turn_run turn_id db =
     rbind (read_turn_run (\<lambda>t. tr_turn_id t = turn_id) db) (\<lambda>found.
     ok_or found (NotFound (''turn_run:'' @ turn_id)))"

definition has_unfinished_turn :: "int \<Rightarrow> database \<Rightarrow> bool" where
  "has_unfinished_turn chat_id db =
     (count_rows (\<lambda>t. tr_chat_id t = chat_id \<and>
        tr_state t \<notin> {''completed'', ''failed'', ''cancelled'', ''uncertain''}) (turn_runs db) > 0)"

definition resumable_row :: "turn_row \<Rightarrow> bool" where
  "resumable_row t =
     (tr_state t \<in> {''accepted'', ''input_committed'', ''tools_completed''} \<and>
      tr_scheduled_request_json t \<noteq> None)"

definition dispatch_cursor :: "turn_row \<Rightarrow> cursor" where
  "dispatch_cursor t = Cursor (tr_accepted_at t) (tr_turn_id t)"

definition to_durable_pending :: "turn_row \<Rightarrow> durable_pending_turn" where
  "to_durable_pending t =
     \<lparr>dpt_turn_id = tr_turn_id t, dpt_accepted_at = tr_accepted_at t,
      dpt_scheduled_request_json = the (tr_scheduled_request_json t)\<rparr>"

definition scan_durable_resumable_turns_after ::
  "cursor \<Rightarrow> nat \<Rightarrow> database \<Rightarrow> durable_pending_turn list" where
  "scan_durable_resumable_turns_after after limit db =
     map to_durable_pending
       (take limit (sort_key dispatch_cursor
         (filter (\<lambda>t. after < dispatch_cursor t \<and> resumable_row t) (turn_runs db))))"

definition count_durable_pending :: "database \<Rightarrow> int" where
  "count_durable_pending db = count_rows pending_row (turn_runs db)"

section \<open>Transitions\<close>

definition transition_turn_state ::
  "string \<Rightarrow> string \<Rightarrow> turn_run_state \<Rightarrow> turn_run_state \<Rightarrow> database \<Rightarrow> unit tx" where
  "transition_turn_state now turn_id from to db = transition_locked now turn_id from to db"

definition commit_turn_input_with_conversation ::
  "string \<Rightarrow> stored_message \<Rightarrow> string \<Rightarrow> int option \<Rightarrow> string \<Rightarrow> int \<Rightarrow> string option \<Rightarrow>
   database \<Rightarrow> int tx" where
  "commit_turn_input_with_conversation now m session_json expected_revision turn_id
       config_revision config_fingerprint db =
     rbind (commit_message_locked now m (Some session_json) expected_revision db)
       (\<lambda>(outcome, db1).
     rbind (transition_locked now turn_id Accepted InputCommitted db1) (\<lambda>(_, db2).
     Inr (co_revision outcome,
       update_turn turn_id (\<lambda>t. t\<lparr>tr_input_message_id := Some (msg_id m),
         tr_config_revision := config_revision, tr_config_fingerprint := config_fingerprint,
         tr_updated_at := now\<rparr>) db2)))"

definition mark_turn_output_published :: "string \<Rightarrow> string \<Rightarrow> database \<Rightarrow> unit tx" where
  "mark_turn_output_published now turn_id db =
     (if count_rows (\<lambda>t. tr_turn_id t = turn_id) (turn_runs db) = 0
      then Inl (NotFound (''turn_run:'' @ turn_id))
      else Inr ((), update_turn turn_id (\<lambda>t. t\<lparr>tr_output_published := 1,
             tr_updated_at := now\<rparr>) db))"

definition begin_turn_model_iteration ::
  "string \<Rightarrow> string \<Rightarrow> int \<Rightarrow> string \<Rightarrow> database \<Rightarrow> bool tx" where
  "begin_turn_model_iteration now turn_id iteration model_request_hash db =
     rbind (read_state_locked turn_id db) (\<lambda>current.
     if current \<notin> {InputCommitted, ModelCompleted, ToolsCompleted}
     then Inl (Conflict (''begin_model_iteration rejected from state '' @
            turn_run_state_display current))
     else
       (let target = (\<lambda>t. tr_turn_id t = turn_id \<and> tr_state t = turn_run_state_display current) in
        if count_rows target (turn_runs db) = 0 then Inr (False, db)
        else Inr (True, db\<lparr>turn_runs := update_rows target
               (\<lambda>t. t\<lparr>tr_state := ''model_pending'', tr_current_iteration := iteration,
                      tr_model_request_hash := Some model_request_hash, tr_model_attempt := 1,
                      tr_updated_at := now\<rparr>) (turn_runs db)\<rparr>)))"

definition increment_turn_model_attempt :: "string \<Rightarrow> string \<Rightarrow> database \<Rightarrow> unit tx" where
  "increment_turn_model_attempt now turn_id db =
     rbind (require_state_locked turn_id ModelPending db) (\<lambda>_.
     Inr ((), update_turn turn_id (\<lambda>t. t\<lparr>tr_model_attempt := tr_model_attempt t + 1,
       tr_updated_at := now\<rparr>) db))"

definition complete_turn_model :: "string \<Rightarrow> string \<Rightarrow> database \<Rightarrow> unit tx" where
  "complete_turn_model now turn_id db =
     transition_turn_state now turn_id ModelPending ModelCompleted db"

definition begin_turn_tools :: "string \<Rightarrow> string \<Rightarrow> database \<Rightarrow> unit tx" where
  "begin_turn_tools now turn_id db =
     transition_turn_state now turn_id ModelCompleted ToolsPending db"

definition complete_turn_tools :: "string \<Rightarrow> string \<Rightarrow> database \<Rightarrow> unit tx" where
  "complete_turn_tools now turn_id db =
     transition_turn_state now turn_id ToolsPending ToolsCompleted db"

definition complete_turn :: "string \<Rightarrow> string \<Rightarrow> string \<Rightarrow> database \<Rightarrow> unit tx" where
  "complete_turn now turn_id final_message_id db =
     rbind (read_state_locked turn_id db) (\<lambda>current.
     if current \<notin> {ModelCompleted, ToolsCompleted}
     then Inl (Conflict (''complete rejected from state '' @ turn_run_state_display current))
     else Inr ((), update_turn turn_id (\<lambda>t. t\<lparr>tr_state := ''completed'',
            tr_final_message_id := Some final_message_id, tr_finished_at := Some now,
            tr_updated_at := now, tr_error_kind := None, tr_error_message := None\<rparr>) db))"

section \<open>Failures\<close>

text \<open>The update shared by the failing operations.\<close>

definition set_failed ::
  "string \<Rightarrow> string \<Rightarrow> turn_run_state \<Rightarrow> string \<Rightarrow> string \<Rightarrow> database \<Rightarrow> database" where
  "set_failed now turn_id to kind diagnostic db =
     update_turn turn_id (\<lambda>t. t\<lparr>tr_state := turn_run_state_display to,
       tr_error_kind := Some kind, tr_error_message := Some diagnostic,
       tr_finished_at := Some now, tr_updated_at := now\<rparr>) db"

definition bad_fail_target :: "turn_run_state \<Rightarrow> storage_error" where
  "bad_fail_target to =
     Conflict (''fail target must be failed or uncertain, got '' @ turn_run_state_display to)"

definition fail_turn ::
  "string \<Rightarrow> string \<Rightarrow> turn_run_state \<Rightarrow> turn_failure \<Rightarrow> database \<Rightarrow> unit tx" where
  "fail_turn now turn_id to failure db =
     (if to \<notin> {Failed, Uncertain} then Inl (bad_fail_target to)
      else rbind (read_state_locked turn_id db) (\<lambda>current.
        if is_terminal current
        then Inl (Conflict (''fail rejected from terminal state '' @ turn_run_state_display current))
        else record_turn_failure_message_locked now turn_id (tf_public failure)
               (set_failed now turn_id to (tf_kind failure) (tf_diagnostic failure) db)))"

definition upsert_turn_origin :: "string \<Rightarrow> string \<Rightarrow> string option \<Rightarrow> database \<Rightarrow> database" where
  "upsert_turn_origin now origin_id terminal_reason db =
     (if exists_row (\<lambda>r. or_origin_id r = origin_id) (turn_origins db)
      then db\<lparr>turn_origins := update_rows (\<lambda>r. or_origin_id r = origin_id)
             (\<lambda>r. r\<lparr>or_terminal_reason := terminal_reason, or_updated_at := now\<rparr>) (turn_origins db)\<rparr>
      else db\<lparr>turn_origins := insert_row \<lparr>or_origin_id = origin_id, or_executed_turn_count = 0,
             or_terminal_reason = terminal_reason, or_updated_at = now\<rparr> (turn_origins db)\<rparr>)"

definition fail_turn_and_terminate_origin ::
  "string \<Rightarrow> string \<Rightarrow> turn_run_state \<Rightarrow> turn_failure \<Rightarrow> string \<Rightarrow> string \<Rightarrow> database \<Rightarrow> unit tx" where
  "fail_turn_and_terminate_origin now turn_id to failure origin_id terminal_reason db =
     (if to \<notin> {Failed, Uncertain} then Inl (bad_fail_target to)
      else rbind (read_state_locked turn_id db) (\<lambda>current.
        rbind
          (if is_terminal current then Inr ((), db)
           else if \<not> can_transition current to
           then Inl (Conflict (''fail rejected from state '' @ turn_run_state_display current @
                  '' to '' @ turn_run_state_display to))
           else record_turn_failure_message_locked now turn_id (tf_public failure)
                  (set_failed now turn_id to (tf_kind failure) (tf_diagnostic failure) db))
          (\<lambda>(_, db1). Inr ((), upsert_turn_origin now origin_id (Some terminal_reason) db1))))"

definition fail_invalid_durable_turn :: "string \<Rightarrow> string \<Rightarrow> database \<Rightarrow> unit tx" where
  "fail_invalid_durable_turn now turn_id db =
     rbind (read_state_locked turn_id db) (\<lambda>current.
     if current \<notin> {Accepted, InputCommitted, ToolsCompleted}
     then Inl (Conflict (''invalid durable turn payload failure rejected from state '' @
            turn_run_state_display current))
     else
       rbind (ok_or (find_turn turn_id db) (Sqlite QueryReturnedNoRows)) (\<lambda>t.
       if tr_scheduled_request_json t = None
       then Inl (Conflict ''invalid durable turn payload failure requires a persisted payload'')
       else
         (let target = (if current = ToolsCompleted \<and> tr_output_published t \<noteq> 0
                        then Uncertain else Failed) in
          rbind (record_turn_failure_message_locked now turn_id
              DURABLE_PAYLOAD_INVALID_PUBLIC_MESSAGE
              (set_failed now turn_id target DURABLE_PAYLOAD_INVALID_ERROR_KIND
                 DURABLE_PAYLOAD_INVALID_ERROR_MESSAGE db)) (\<lambda>(_, db1).
          Inr ((), case tr_origin_id t of
              Some origin_id \<Rightarrow>
                if origin_id = [] then db1
                else upsert_turn_origin now origin_id (Some DURABLE_PAYLOAD_INVALID_ERROR_KIND) db1
            | None \<Rightarrow> db1)))))"

definition cancel_turn :: "string \<Rightarrow> string \<Rightarrow> string \<Rightarrow> string \<Rightarrow> database \<Rightarrow> unit tx" where
  "cancel_turn now turn_id error_kind error_message db =
     rbind (read_state_locked turn_id db) (\<lambda>current.
     if is_terminal current then Inr ((), db)
     else if \<not> can_transition current Cancelled
     then Inl (Conflict (''cancel rejected from state '' @ turn_run_state_display current))
     else Inr ((), set_failed now turn_id Cancelled error_kind error_message db))"

section \<open>Start-up recovery\<close>

definition interrupted_row :: "turn_row \<Rightarrow> bool" where
  "interrupted_row t =
     (tr_state t \<in> {''accepted'', ''input_committed'', ''model_pending'', ''model_completed'',
        ''tools_pending'', ''tools_completed''})"

text \<open>Target state, error kind and error message; \<open>None\<close> leaves the row alone.\<close>

fun recovery_action ::
  "turn_run_state \<Rightarrow> string option \<Rightarrow> (turn_run_state \<times> string \<times> string) option" where
  "recovery_action Accepted payload_hash =
     Some (Failed, ''interrupted'',
       ''recovered on startup: accepted turn never started (payload_hash='' @
         (case payload_hash of Some h \<Rightarrow> h | None \<Rightarrow> ''none'') @ '')'')"
| "recovery_action InputCommitted payload_hash =
     Some (Failed, ''interrupted'',
       ''recovered on startup: input committed but model never ran'')"
| "recovery_action Completed payload_hash = None"
| "recovery_action Failed payload_hash = None"
| "recovery_action Cancelled payload_hash = None"
| "recovery_action Uncertain payload_hash = None"
| "recovery_action from payload_hash =
     Some (Uncertain, ''interrupted'',
       ''recovered on startup: '' @ turn_run_state_display from @
         '' may have published output externally; requires manual review'')"

definition recover_row ::
  "string \<Rightarrow> turn_row \<Rightarrow> recovered_turn_run list \<times> database \<Rightarrow>
   storage_error + recovered_turn_run list \<times> database" where
  "recover_row now row st =
     (case st of (recovered, db) \<Rightarrow>
      rbind (map_err (\<lambda>e. Conflict (''invalid turn_runs.state: '' @ e))
               (turn_run_state_from_str (tr_state row))) (\<lambda>from.
      if tr_scheduled_request_json row \<noteq> None \<and> from \<in> {Accepted, InputCommitted, ToolsCompleted}
      then Inr (recovered, db)
      else case recovery_action from (tr_request_payload_hash row) of
          None \<Rightarrow> Inr (recovered, db)
        | Some (to, kind, diagnostic) \<Rightarrow>
            rbind (record_turn_failure_message_locked now (tr_turn_id row)
                (if to = Uncertain then TURN_UNCERTAIN_PUBLIC_MESSAGE
                 else TURN_INTERRUPTED_PUBLIC_MESSAGE)
                (set_failed now (tr_turn_id row) to kind diagnostic db)) (\<lambda>(_, db').
            Inr (recovered @ [\<lparr>rtr_turn_id = tr_turn_id row, rtr_chat_id = tr_chat_id row,
                   rtr_from = from, rtr_recovered_to = to\<rparr>], db'))))"

definition recover_interrupted_turns ::
  "string \<Rightarrow> database \<Rightarrow> recovered_turn_run list tx" where
  "recover_interrupted_turns now db =
     rfold (recover_row now) (filter interrupted_row (turn_runs db)) ([], db)"

text \<open>
  \<open>recent t\<close> is \<open>datetime(accepted_at) > datetime('now', '-ttl seconds')\<close>, SQLite's own date
  arithmetic. Groups come in the order of \<open>origin_id\<close>.
\<close>

definition counted_row :: "(string \<Rightarrow> bool) \<Rightarrow> string \<Rightarrow> turn_row \<Rightarrow> bool" where
  "counted_row recent origin_id t =
     (tr_origin_id t = Some origin_id \<and> \<not> pending_row t \<and> recent (tr_accepted_at t))"

definition recover_origin_tracker :: "(string \<Rightarrow> bool) \<Rightarrow> database \<Rightarrow> recovered_origin list" where
  "recover_origin_tracker recent db =
     map (\<lambda>origin_id.
        \<lparr>ro_origin_id = origin_id,
         ro_executed_turn_count = nat (count_rows (counted_row recent origin_id) (turn_runs db)),
         ro_terminal_reason =
           (case find_row (\<lambda>r. or_origin_id r = origin_id) (turn_origins db) of
              Some r \<Rightarrow> or_terminal_reason r | None \<Rightarrow> None)\<rparr>)
       (sort (remdups (List.map_filter (\<lambda>t.
          case tr_origin_id t of
            Some origin_id \<Rightarrow> if counted_row recent origin_id t then Some origin_id else None
          | None \<Rightarrow> None) (turn_runs db))))"

end
