(* ===== verification/Turn_Lifecycle.thy ===== *)
theory Turn_Lifecycle
  imports Turn_Store
begin

text \<open>
  The life cycle of the Turns in a database: which changes of the \<open>turn_runs\<close> table the
  operations of \<open>Turn_Store\<close> can make, the step relation of the store, its invariant, and
  the facts about whole runs that the life-cycle contract of the prelude yields.
\<close>

section \<open>How a table of Turns evolves\<close>

definition same_turn_key :: "turn_row \<Rightarrow> turn_row \<Rightarrow> bool" where
  "same_turn_key t t' =
     (tr_turn_id t' = tr_turn_id t \<and> tr_chat_id t' = tr_chat_id t \<and>
      tr_request_key t' = tr_request_key t \<and> tr_accepted_at t' = tr_accepted_at t \<and>
      tr_request_payload_hash t' = tr_request_payload_hash t \<and>
      tr_scheduled_request_json t' = tr_scheduled_request_json t \<and>
      tr_origin_id t' = tr_origin_id t)"

text \<open>A row keeps its identity and its accepted request, and moves along the central rule.\<close>

definition row_evolves :: "turn_row \<Rightarrow> turn_row \<Rightarrow> bool" where
  "row_evolves t t' =
     (same_turn_key t t' \<and>
      (\<forall>s. tr_state t = turn_run_state_display s \<longrightarrow>
         (\<exists>s'. tr_state t' = turn_run_state_display s' \<and> can_transition\<^sup>*\<^sup>* s s')))"

lemma row_evolves_refl [simp]: "row_evolves t t"
  by (auto simp: row_evolves_def same_turn_key_def)

lemma row_evolves_trans: "row_evolves a b \<Longrightarrow> row_evolves b c \<Longrightarrow> row_evolves a c"
  unfolding row_evolves_def same_turn_key_def
  by (metis (no_types, opaque_lifting) rtranclp_trans)

definition turns_evolve :: "database \<Rightarrow> database \<Rightarrow> bool" where
  "turns_evolve db db' = list_all2 row_evolves (turn_runs db) (turn_runs db')"

lemma turns_evolve_same: "turn_runs db' = turn_runs db \<Longrightarrow> turns_evolve db db'"
  by (simp add: turns_evolve_def list_all2_refl)

lemma turns_evolve_trans: "turns_evolve a b \<Longrightarrow> turns_evolve b c \<Longrightarrow> turns_evolve a c"
  unfolding turns_evolve_def by (rule list_all2_trans [OF row_evolves_trans])

lemma turns_evolve_update_rows:
  assumes "\<And>t. t \<in> set (turn_runs db) \<Longrightarrow> P t \<Longrightarrow> row_evolves t (f t)"
  shows "turns_evolve db (db\<lparr>turn_runs := update_rows P f (turn_runs db)\<rparr>)"
  using assms unfolding turns_evolve_def
  by (auto simp: update_rows_def list_all2_conv_all_nth)

lemma turns_evolve_update_turn:
  assumes "\<And>t. t \<in> set (turn_runs db) \<Longrightarrow> tr_turn_id t = i \<Longrightarrow> row_evolves t (f t)"
  shows "turns_evolve db (update_turn i f db)"
  unfolding update_turn_def using assms by (rule turns_evolve_update_rows)

section \<open>Invariant\<close>

definition turn_row_ok :: "turn_row \<Rightarrow> bool" where
  "turn_row_ok t = (tr_state t \<in> range turn_run_state_display)"

definition turn_keys_ok :: "turn_row list \<Rightarrow> bool" where
  "turn_keys_ok rows =
     (distinct (map tr_turn_id rows) \<and> distinct (map (\<lambda>t. (tr_chat_id t, tr_request_key t)) rows) \<and>
      (\<forall>t \<in> set rows. turn_row_ok t))"

definition within_capacity :: "turn_row list \<Rightarrow> bool" where
  "within_capacity rows =
     (count_rows pending_row rows \<le> MAX_DURABLE_PENDING_PER_SCOPE \<and>
      (\<forall>c. count_rows (\<lambda>t. tr_chat_id t = c \<and> pending_row t) rows \<le>
         MAX_DURABLE_PENDING_PER_SESSION))"

definition turn_inv :: "database \<Rightarrow> bool" where
  "turn_inv db = (chat_inv db \<and> turn_keys_ok (turn_runs db) \<and> within_capacity (turn_runs db))"

lemma turn_invD:
  assumes "turn_inv db"
  shows "chat_inv db" "distinct (map tr_turn_id (turn_runs db))"
    "distinct (map (\<lambda>t. (tr_chat_id t, tr_request_key t)) (turn_runs db))"
    "t \<in> set (turn_runs db) \<Longrightarrow> turn_row_ok t" "within_capacity (turn_runs db)"
  using assms unfolding turn_inv_def turn_keys_ok_def by blast+

lemma list_all2_map_eq:
  "list_all2 R xs ys \<Longrightarrow> (\<And>x y. R x y \<Longrightarrow> f y = f x) \<Longrightarrow> map f ys = map f xs"
  by (induction rule: list_all2_induct) auto

lemma turns_evolve_keys:
  assumes "turns_evolve db db'"
  shows "map tr_turn_id (turn_runs db') = map tr_turn_id (turn_runs db)"
    "map (\<lambda>t. (tr_chat_id t, tr_request_key t)) (turn_runs db') =
      map (\<lambda>t. (tr_chat_id t, tr_request_key t)) (turn_runs db)"
  using assms unfolding turns_evolve_def
  by (auto elim!: list_all2_map_eq simp: row_evolves_def same_turn_key_def)

lemma row_evolves_ok: "row_evolves t t' \<Longrightarrow> turn_row_ok t \<Longrightarrow> turn_row_ok t'"
  by (auto simp: row_evolves_def turn_row_ok_def)

lemma pending_row_iff:
  "tr_state t = turn_run_state_display s \<Longrightarrow> pending_row t = is_durable_pending s"
  by (cases s) (auto simp: pending_row_def is_durable_pending_def)

lemma rtranclp_pending:
  "can_transition\<^sup>*\<^sup>* s s' \<Longrightarrow> is_durable_pending s' \<Longrightarrow> is_durable_pending s"
  by (induction rule: converse_rtranclp_induct) (auto dest: can_transition_pending)

lemma row_evolves_pending:
  assumes "row_evolves t t'" "turn_row_ok t" "pending_row t'"
  shows "pending_row t"
proof -
  obtain s where s: "tr_state t = turn_run_state_display s" using assms(2) by (auto simp: turn_row_ok_def)
  then obtain s' where "tr_state t' = turn_run_state_display s'" "can_transition\<^sup>*\<^sup>* s s'"
    using assms(1) by (auto simp: row_evolves_def)
  then show ?thesis using assms(3) s rtranclp_pending by (simp add: pending_row_iff)
qed

lemma list_all2_count_le:
  assumes "list_all2 R xs ys" "\<And>x y. x \<in> set xs \<Longrightarrow> R x y \<Longrightarrow> P y \<Longrightarrow> P x"
  shows "count_rows P ys \<le> count_rows P xs"
  using assms
proof (induction rule: list_all2_induct)
  case (Cons x xs y ys)
  have "P y \<Longrightarrow> P x" using Cons.prems [of x y] Cons.hyps(1) by simp
  moreover have "count_rows P ys \<le> count_rows P xs"
    by (rule Cons.IH) (use Cons.prems in auto)
  ultimately show ?case by auto
qed simp

lemma turns_evolve_capacity:
  assumes "turns_evolve db db'" "\<forall>t \<in> set (turn_runs db). turn_row_ok t"
    "within_capacity (turn_runs db)"
  shows "within_capacity (turn_runs db')"
proof -
  have "count_rows (\<lambda>t. Q t \<and> pending_row t) (turn_runs db') \<le>
      count_rows (\<lambda>t. Q t \<and> pending_row t) (turn_runs db)"
    if "\<And>t t'. row_evolves t t' \<Longrightarrow> Q t' = Q t" for Q
    using assms(1) unfolding turns_evolve_def
    by (rule list_all2_count_le) (use assms(2) that row_evolves_pending in blast)
  from this [of "\<lambda>t. tr_chat_id t = _"] this [of "\<lambda>_. True"] assms(3)
  show ?thesis unfolding within_capacity_def
    by (fastforce simp: row_evolves_def same_turn_key_def intro: order_trans)
qed

lemma turns_evolve_set:
  assumes "turns_evolve db db'" "t' \<in> set (turn_runs db')"
  shows "\<exists>t \<in> set (turn_runs db). row_evolves t t'"
  using assms unfolding turns_evolve_def
  by (metis in_set_conv_nth list_all2_lengthD list_all2_nthD2)

lemma turns_evolve_inv:
  assumes "turn_inv db" "turns_evolve db db'" "chat_inv db'"
  shows "turn_inv db'"
  unfolding turn_inv_def turn_keys_ok_def
  using turn_invD [OF assms(1)] turns_evolve_keys [OF assms(2)] assms(3)
    turns_evolve_capacity [OF assms(2)] turns_evolve_set [OF assms(2)] row_evolves_ok
  by (metis (no_types, lifting))

section \<open>State of a Turn\<close>

definition turn_status :: "database \<Rightarrow> string \<Rightarrow> turn_run_state option" where
  "turn_status db turn_id =
     (case find_turn turn_id db of
        None \<Rightarrow> None
      | Some t \<Rightarrow> (case turn_run_state_from_str (tr_state t) of Inr s \<Rightarrow> Some s | Inl _ \<Rightarrow> None))"

lemma turn_status_Some_iff:
  "(turn_status db i = Some s) =
    (\<exists>t. find_turn i db = Some t \<and> tr_state t = turn_run_state_display s)"
  by (auto simp: turn_status_def res_simps split: option.splits sum.splits)

lemma read_state_iff: "(read_state_locked i db = Inr s) = (turn_status db i = Some s)"
  by (auto simp: read_state_locked_def turn_status_def res_simps map_err_def
      split: option.splits sum.splits)

lemma find_row_list_all2:
  assumes "list_all2 R xs ys" "\<And>x y. R x y \<Longrightarrow> P y = P x"
  shows "rel_option R (find_row P xs) (find_row P ys)"
  using assms(1) by (induction rule: list_all2_induct) (auto simp: assms(2))

lemma turns_evolve_find:
  assumes "turns_evolve db db'" "find_turn i db = Some t"
  shows "\<exists>t'. find_turn i db' = Some t' \<and> row_evolves t t'"
proof -
  have "rel_option row_evolves (find_turn i db) (find_turn i db')"
    using assms(1) unfolding find_turn_def turns_evolve_def
    by (rule find_row_list_all2) (simp add: row_evolves_def same_turn_key_def)
  then show ?thesis using assms(2) by (auto simp: option_rel_Some1)
qed

lemma turns_evolve_status:
  assumes "turns_evolve db db'" "turn_status db i = Some s"
  shows "\<exists>s'. turn_status db' i = Some s' \<and> can_transition\<^sup>*\<^sup>* s s'"
proof -
  obtain t where t: "find_turn i db = Some t" "tr_state t = turn_run_state_display s"
    using assms(2) by (auto simp: turn_status_Some_iff)
  obtain t' where "find_turn i db' = Some t'" "row_evolves t t'"
    using turns_evolve_find [OF assms(1) t(1)] by blast
  with t(2) show ?thesis by (auto simp: turn_status_Some_iff row_evolves_def)
qed

lemma find_turn_member:
  assumes "distinct (map tr_turn_id (turn_runs db))" "find_turn i db = Some t"
    "x \<in> set (turn_runs db)" "tr_turn_id x = i"
  shows "x = t"
  using assms find_row_Some [of _ "turn_runs db" t]
  by (fastforce simp: find_turn_def distinct_map inj_on_def)

text \<open>An update of one Turn evolves the table when its new state is reachable by the rule.\<close>

lemma update_turn_evolves:
  assumes "distinct (map tr_turn_id (turn_runs db))" "turn_status db i = Some s"
    and "\<And>t. same_turn_key t (f t)"
    and "\<And>t. tr_state t = turn_run_state_display s \<Longrightarrow>
      tr_state (f t) = turn_run_state_display s'" "can_transition\<^sup>*\<^sup>* s s'"
  shows "turns_evolve db (update_turn i f db)"
proof (rule turns_evolve_update_turn)
  fix x assume x: "x \<in> set (turn_runs db)" "tr_turn_id x = i"
  obtain t where "find_turn i db = Some t" "tr_state t = turn_run_state_display s"
    using assms(2) by (auto simp: turn_status_Some_iff)
  with find_turn_member [OF assms(1) _ x] have "tr_state x = turn_run_state_display s" by blast
  with assms(3-5) show "row_evolves x (f x)" by (auto simp: row_evolves_def)
qed

lemma find_update_turn:
  assumes "\<And>t. tr_turn_id (f t) = tr_turn_id t"
  shows "find_turn j (update_turn i f db) =
    (if j = i then map_option f (find_turn j db) else find_turn j db)"
  using assms by (simp add: find_turn_def update_turn_def find_key_update_rows)

lemma update_turn_tables [simp]:
  "chats (update_turn i f db) = chats db" "messages (update_turn i f db) = messages db"
  "sessions (update_turn i f db) = sessions db"
  "turn_origins (update_turn i f db) = turn_origins db"
  "tool_calls (update_turn i f db) = tool_calls db"
  by (simp_all add: update_turn_def)

lemma chat_inv_cong:
  "chats db' = chats db \<Longrightarrow> messages db' = messages db \<Longrightarrow> sessions db' = sessions db \<Longrightarrow>
    chat_inv db' = chat_inv db"
  by (simp add: chat_inv_def next_seq_of_def chat_of_def)

lemma chat_inv_update_turn [simp]: "chat_inv (update_turn i f db) = chat_inv db"
  by (rule chat_inv_cong) simp_all

end
