(* ===== verification/Turn_Steps.thy ===== *)
theory Turn_Steps
  imports Turn_Lifecycle
begin

text \<open>
  Every operation on \<open>turn_runs\<close> and on the conversations as a step of one store, with what
  each step does to the Turns, to the committed messages and to the failure entries. From the
  laws of the steps follow the facts about whole runs: keys stay unique, the durable-pending
  capacity is never exceeded, final states are final, and a failed Turn is visible.
\<close>

section \<open>Failure entries\<close>

definition failed_row :: "turn_row \<Rightarrow> bool" where
  "failed_row t = (tr_state t \<in> {''failed'', ''uncertain''})"

definition failure_entry :: "turn_row \<Rightarrow> message_row \<Rightarrow> bool" where
  "failure_entry t r =
     (msg_id r = turn_failure_message_id (tr_turn_id t) \<and> msg_chat_id r = tr_chat_id t \<and>
      msg_message_kind r = message_kind_display TurnFailureMsg \<and>
      msg_turn_id r = Some (tr_turn_id t) \<and> msg_seq r \<noteq> None)"

definition visible_failures :: "database \<Rightarrow> bool" where
  "visible_failures db =
     (\<forall>t \<in> set (turn_runs db). failed_row t \<longrightarrow> (\<exists>r \<in> set (messages db). failure_entry t r))"

text \<open>Only staged user messages wait without a \<open>seq\<close>.\<close>

definition staged_only :: "database \<Rightarrow> bool" where
  "staged_only db = (\<forall>r \<in> set (messages db). msg_seq r = None \<longrightarrow> staged_user r)"

definition committed_kept :: "database \<Rightarrow> database \<Rightarrow> bool" where
  "committed_kept db db' =
     (\<forall>r \<in> set (messages db). msg_seq r \<noteq> None \<longrightarrow> r \<in> set (messages db'))"

definition failures_recorded :: "database \<Rightarrow> database \<Rightarrow> bool" where
  "failures_recorded db db' =
     (\<forall>t' \<in> set (turn_runs db'). failed_row t' \<longrightarrow>
        (\<exists>t \<in> set (turn_runs db). failed_row t \<and> same_turn_key t t') \<or>
        (\<exists>r \<in> set (messages db'). failure_entry t' r))"

text \<open>What every step except the acceptance of a new Turn does.\<close>

definition turn_progress :: "database \<Rightarrow> database \<Rightarrow> bool" where
  "turn_progress db db' =
     (turns_evolve db db' \<and> chat_inv db' \<and> staged_only db' \<and> committed_kept db db' \<and>
      failures_recorded db db')"

lemma same_turn_key_refl [simp]: "same_turn_key t t"
  by (simp add: same_turn_key_def)

lemma same_turn_key_trans: "same_turn_key a b \<Longrightarrow> same_turn_key b c \<Longrightarrow> same_turn_key a c"
  by (simp add: same_turn_key_def)

lemma failure_entry_key: "same_turn_key t t' \<Longrightarrow> failure_entry t' r = failure_entry t r"
  by (simp add: failure_entry_def same_turn_key_def)

lemma failure_entry_kept:
  "failure_entry t r \<Longrightarrow> r \<in> set (messages a) \<Longrightarrow> committed_kept a b \<Longrightarrow> r \<in> set (messages b)"
  by (auto simp: failure_entry_def committed_kept_def)

lemma failures_recorded_trans:
  assumes "failures_recorded a b" "failures_recorded b c" "committed_kept b c"
  shows "failures_recorded a c"
  unfolding failures_recorded_def
proof (intro ballI impI)
  fix t' assume t': "t' \<in> set (turn_runs c)" "failed_row t'"
  then consider r where "r \<in> set (messages c)" "failure_entry t' r"
    | u where "u \<in> set (turn_runs b)" "failed_row u" "same_turn_key u t'"
    using assms(2) unfolding failures_recorded_def by blast
  then show "(\<exists>t \<in> set (turn_runs a). failed_row t \<and> same_turn_key t t') \<or>
      (\<exists>r \<in> set (messages c). failure_entry t' r)"
  proof cases
    case 2
    then have "(\<exists>t \<in> set (turn_runs a). failed_row t \<and> same_turn_key t u) \<or>
        (\<exists>r \<in> set (messages b). failure_entry u r)"
      using assms(1) unfolding failures_recorded_def by blast
    then show ?thesis
      using same_turn_key_trans [OF _ 2(3)] failure_entry_key [OF 2(3)]
        failure_entry_kept [OF _ _ assms(3)] by metis
  qed blast
qed

lemma turn_progress_trans: "turn_progress a b \<Longrightarrow> turn_progress b c \<Longrightarrow> turn_progress a c"
  unfolding turn_progress_def
  using turns_evolve_trans failures_recorded_trans
  by (metis (no_types, lifting) committed_kept_def)

lemma failures_recorded_same: "turn_runs db' = turn_runs db \<Longrightarrow> failures_recorded db db'"
  unfolding failures_recorded_def using same_turn_key_refl by metis

lemma turn_progress_refl: "chat_inv db \<Longrightarrow> staged_only db \<Longrightarrow> turn_progress db db"
  by (simp add: turn_progress_def turns_evolve_same committed_kept_def failures_recorded_same)

lemma committed_kept_refl [simp]: "messages db' = messages db \<Longrightarrow> committed_kept db db'"
  by (simp add: committed_kept_def)

section \<open>The store invariant\<close>

definition store_inv :: "database \<Rightarrow> bool" where
  "store_inv db = (turn_inv db \<and> staged_only db \<and> visible_failures db)"

lemma store_invD:
  assumes "store_inv db"
  shows "turn_inv db" "chat_inv db" "staged_only db" "visible_failures db"
    "distinct (map tr_turn_id (turn_runs db))" "turn_keys_ok (turn_runs db)"
  using assms by (auto simp: store_inv_def turn_inv_def turn_keys_ok_def)

lemma turn_progress_inv:
  assumes inv: "store_inv db" and prog: "turn_progress db db'"
  shows "store_inv db'"
proof -
  have "visible_failures db'"
    unfolding visible_failures_def
  proof (intro ballI impI)
    fix t' assume t': "t' \<in> set (turn_runs db')" "failed_row t'"
    then consider "\<exists>r \<in> set (messages db'). failure_entry t' r"
      | t where "t \<in> set (turn_runs db)" "failed_row t" "same_turn_key t t'"
      using prog unfolding turn_progress_def failures_recorded_def by blast
    then show "\<exists>r \<in> set (messages db'). failure_entry t' r"
    proof cases
      case 2
      then obtain r where "r \<in> set (messages db)" "failure_entry t r"
        using store_invD(4) [OF inv] unfolding visible_failures_def by blast
      then show ?thesis
        using failure_entry_key [OF 2(3)] failure_entry_kept prog
        unfolding turn_progress_def by blast
    qed
  qed
  moreover have "turn_inv db'"
    using turns_evolve_inv [OF store_invD(1) [OF inv]] prog by (simp add: turn_progress_def)
  ultimately show ?thesis using prog by (simp add: store_inv_def turn_progress_def)
qed

section \<open>Conversation writes\<close>

lemma conv_frame_turns: "conv_frame db db' \<Longrightarrow> turn_runs db' = turn_runs db"
  by (simp add: conv_frame_def)

lemma conv_progress:
  assumes "conv_frame db db'" "chat_inv db'" "staged_only db'" "committed_kept db db'"
  shows "turn_progress db db'"
  using assms by (simp add: turn_progress_def conv_frame_turns turns_evolve_same
      failures_recorded_same)

lemma staged_only_append:
  "staged_only db \<Longrightarrow> messages db' = insert_row r (messages db) \<Longrightarrow>
    (msg_seq r = None \<longrightarrow> staged_user r) \<Longrightarrow> staged_only db'"
  by (auto simp: staged_only_def row_simps)

lemma commit_message_cases:
  assumes "chat_inv db" "commit_message_locked now m json e db = Inr (out, db')"
  obtains (stored) r where "find_message (msg_id m) (msg_chat_id m) db = Some r"
      "same_stored_message r m" "db' = ensure_chat_row now (msg_chat_id m) db"
      "co_revision out = revision_of (msg_chat_id m) db"
    | (fresh) "find_message (msg_id m) (msg_chat_id m) db = None"
      "db' = commit_fresh now m json db" "co_revision out = revision_of (msg_chat_id m) db + 1"
  using assms(2) commit_message_locked_eq [OF assms(1), of now m json e]
  by (auto split: if_splits option.splits)

lemma commit_message_progress:
  assumes inv: "chat_inv db" "staged_only db"
    and ok: "commit_message_locked now m json e db = Inr (out, db')"
  shows "turn_progress db db'"
proof (rule conv_progress)
  show "conv_frame db db'" using inv(1) ok by (rule commit_message_locked_frame)
  show "chat_inv db'" using inv(1) ok by (rule commit_message_locked_inv)
  show "staged_only db'"
    using inv(1) ok by (rule commit_message_cases)
      (use inv(2) in \<open>auto simp: staged_only_def row_simps\<close>)
  show "committed_kept db db'"
    using inv(1) ok by (rule commit_message_cases) (auto simp: committed_kept_def row_simps)
qed

lemma update_snapshot_progress:
  assumes inv: "chat_inv db" "staged_only db"
    and ok: "update_session_snapshot now c json e db = Inr (out, db')"
  shows "turn_progress db db'"
proof (rule conv_progress)
  have db': "db' = snapshot_write now c json (snapshot_bound c db) db"
    using ok by (auto simp: update_session_snapshot_eq split: if_splits)
  show "conv_frame db db'" unfolding db' by simp
  show "chat_inv db'"
    unfolding db' using inv(1) snapshot_bound_less [OF inv(1)] by (rule snapshot_write_inv)
  show "staged_only db'" using inv(2) by (simp add: db' staged_only_def)
  show "committed_kept db db'" by (simp add: db')
qed

lemma stage_progress:
  assumes inv: "chat_inv db" "staged_only db"
    and ok: "stage_tool_followup c key hash sender content ts db = Inr (out, db')"
  shows "turn_progress db db'"
proof -
  consider "db' = db" | m where "db' = db\<lparr>messages := insert_row (message_to_row m None) (messages db)\<rparr>"
    "msg_sender_kind m = SenderUser" "msg_message_kind m = MessageMsg"
  proof (cases out)
    case NoToolPhase
    with ok have "db' = db"
      by (auto simp: stage_tool_followup_def Let_def res_simps split: option.splits list.splits
          if_splits)
    then show ?thesis using that by blast
  next
    case (StageAccepted m)
    with stage_tool_followup_accepted [OF inv(1) ok [unfolded StageAccepted]] that show ?thesis
      by blast
  qed
  then show ?thesis
  proof cases
    case 1
    with inv show ?thesis by (simp add: turn_progress_refl)
  next
    case 2
    have "staged_user (message_to_row m None)" using 2 by (simp add: staged_user_def)
    then have "staged_only db'" using inv(2) 2(1) by (auto simp: staged_only_def row_simps)
    moreover have "committed_kept db db'" using 2(1) by (auto simp: committed_kept_def row_simps)
    moreover have "conv_frame db db'" using 2(1) by (simp add: conv_frame_def)
    ultimately show ?thesis
      using stage_tool_followup_inv [OF inv(1) ok] by (blast intro: conv_progress)
  qed
qed

lemma commit_staged_progress:
  assumes inv: "chat_inv db" "staged_only db"
    and ok: "commit_staged_user_messages now turn_id json e db = Inr (out, db')"
  shows "turn_progress db db'"
proof (rule conv_progress)
  show "chat_inv db'" "conv_frame db db'" by (rule commit_staged_inv [OF inv(1) ok])+
  obtain c where c: "db' = ensure_chat_row now c db \<or> db' = staged_promotion now c json turn_id db"
    using commit_staged_ok [OF inv(1) ok] by metis
  obtain ms' k n where ms': "staged_promotion now c json turn_id db = batch_write now c json k n ms' db"
    "sort_key seq_key (filter (committed_of c) ms') =
      sort_key seq_key (filter (committed_of c) (messages db)) @
        number_from (next_seq_of c db) (staged_rows_of c turn_id db)"
    "\<forall>d. d \<noteq> c \<longrightarrow> filter (committed_of d) ms' = filter (committed_of d) (messages db)"
    "{x \<in> set ms'. msg_seq x = None} =
      {x \<in> set (messages db). msg_seq x = None} - set (staged_rows_of c turn_id db)"
    using staged_promotion_effect [OF inv(1) refl, of now c json turn_id] by blast
  have "staged_user r" if "r \<in> set ms'" "msg_seq r = None" for r
  proof -
    from that have "r \<in> {x \<in> set ms'. msg_seq x = None}" by simp
    then have "r \<in> set (messages db)" unfolding ms'(4) by simp
    with that(2) inv(2) show ?thesis by (simp add: staged_only_def)
  qed
  then show "staged_only db'" using c ms'(1) inv(2) by (auto simp: staged_only_def)
  have kept: "r \<in> set ms'" if "r \<in> set (messages db)" "msg_seq r \<noteq> None" for r
  proof -
    from that have "r \<in> set (filter (committed_of (msg_chat_id r)) (messages db))"
      by (simp add: committed_of_def)
    also have "\<dots> \<subseteq> set (filter (committed_of (msg_chat_id r)) ms')"
    proof (cases "msg_chat_id r = c")
      case True
      have "set (sort_key seq_key (filter (committed_of c) (messages db))) \<subseteq>
          set (sort_key seq_key (filter (committed_of c) ms'))"
        unfolding ms'(2) by auto
      with True show ?thesis by (simp only: set_sort)
    next
      case False
      with ms'(3) show ?thesis by simp
    qed
    finally show ?thesis by simp
  qed
  then show "committed_kept db db'" using c ms'(1) by (auto simp: committed_kept_def)
qed

lemma delete_staged_progress:
  assumes inv: "chat_inv db" "staged_only db"
  shows "turn_progress db (delete_staged_user_message_after_promotion c i db)"
proof (rule conv_progress)
  let ?db' = "delete_staged_user_message_after_promotion c i db"
  show "conv_frame db ?db'"
    by (simp add: delete_staged_user_message_after_promotion_def conv_frame_def)
  have "messages_inv (\<lambda>d. next_seq_of d db) (messages ?db')"
    using inv(1) unfolding chat_inv_messages
    by (auto simp: delete_staged_user_message_after_promotion_def messages_inv_def row_simps
        distinct_map_delete_rows)
  then show "chat_inv ?db'" using inv(1)
    by (simp add: chat_inv_messages delete_staged_user_message_after_promotion_def)
  show "staged_only ?db'" using inv(2)
    by (auto simp: delete_staged_user_message_after_promotion_def staged_only_def row_simps)
  show "committed_kept db ?db'"
    by (auto simp: delete_staged_user_message_after_promotion_def committed_kept_def row_simps
        staged_user_def)
qed


section \<open>Turn writes\<close>

lemma turn_status_cong: "turn_runs db' = turn_runs db \<Longrightarrow> turn_status db' i = turn_status db i"
  by (simp add: turn_status_def find_turn_def)

lemma turn_status_update:
  assumes "turn_status db i = Some s"
    and "\<And>t. tr_turn_id (f t) = tr_turn_id t"
    and "\<And>t. tr_state t = turn_run_state_display s \<Longrightarrow>
      tr_state (f t) = turn_run_state_display s'"
  shows "turn_status (update_turn i f db) j = (if j = i then Some s' else turn_status db j)"
proof -
  obtain t where t: "find_turn i db = Some t" "tr_state t = turn_run_state_display s"
    using assms(1) by (auto simp: turn_status_Some_iff)
  show ?thesis
    using t assms(3) [OF t(2)] by (auto simp: turn_status_def find_update_turn [OF assms(2)])
qed

lemma failed_row_iff: "tr_state t = turn_run_state_display s \<Longrightarrow> failed_row t = (s = Failed \<or> s = Uncertain)"
  by (cases s) (auto simp: failed_row_def)

text \<open>A step that moves one Turn along the rule, but not into a failure.\<close>

lemma update_turn_progress:
  assumes inv: "store_inv db" and s: "turn_status db i = Some s" "can_transition\<^sup>*\<^sup>* s s'"
    and f: "\<And>t. same_turn_key t (f t)"
      "\<And>t. tr_state t = turn_run_state_display s \<Longrightarrow> tr_state (f t) = turn_run_state_display s'"
    and nf: "s' = s \<or> s' \<notin> {Failed, Uncertain}"
  shows "turn_progress db (update_turn i f db)"
proof -
  note d = store_invD(5) [OF inv]
  obtain t where t: "find_turn i db = Some t" "tr_state t = turn_run_state_display s"
    using s(1) by (auto simp: turn_status_Some_iff)
  have "failures_recorded db (update_turn i f db)"
    unfolding failures_recorded_def
  proof (intro ballI impI disjI1)
    fix t' assume t': "t' \<in> set (turn_runs (update_turn i f db))" "failed_row t'"
    then obtain x where x: "x \<in> set (turn_runs db)" "t' = (if tr_turn_id x = i then f x else x)"
      by (auto simp: update_turn_def row_simps)
    have "failed_row x \<and> same_turn_key x t'"
    proof (cases "tr_turn_id x = i")
      case True
      have "x = t" using find_turn_member [OF d t(1) x(1) True] .
      with True x t f t'(2) nf show ?thesis by (auto simp: failed_row_iff)
    qed (use x t' in auto)
    with x(1) show "\<exists>t \<in> set (turn_runs db). failed_row t \<and> same_turn_key t t'" by blast
  qed
  moreover have "turns_evolve db (update_turn i f db)"
    by (rule update_turn_evolves [OF d s(1) f s(2)])
  ultimately show ?thesis
    using store_invD(2,3) [OF inv] by (simp add: turn_progress_def staged_only_def)
qed

lemma transition_locked_ok:
  assumes ok: "transition_locked now i from to db = Inr (u, db')"
  shows "turn_status db i = Some from" "can_transition from to"
    "db' = update_turn i (\<lambda>t. t\<lparr>tr_state := turn_run_state_display to, tr_updated_at := now\<rparr>) db"
  using ok by (auto simp: transition_locked_def res_simps read_state_iff split: if_splits)

lemma transition_locked_step:
  assumes inv: "store_inv db" and to: "to \<notin> {Failed, Uncertain}"
    and ok: "transition_locked now i from to db = Inr (u, db')"
  shows "turn_progress db db'" "turn_status db' j = (if j = i then Some to else turn_status db j)"
proof -
  note t = transition_locked_ok [OF ok]
  show "turn_progress db db'"
    unfolding t(3) using inv t(1) r_into_rtranclp [of can_transition, OF t(2)]
    by (rule update_turn_progress) (use to in \<open>auto simp: same_turn_key_def\<close>)
  show "turn_status db' j = (if j = i then Some to else turn_status db j)"
    unfolding t(3) using t(1) by (rule turn_status_update) auto
qed

lemma set_failed_status:
  "turn_status db i = Some s \<Longrightarrow>
    turn_status (set_failed now i to k d db) j = (if j = i then Some to else turn_status db j)"
  unfolding set_failed_def by (rule turn_status_update) auto

text \<open>Failing a Turn and recording the failure, in one transaction.\<close>

lemma record_failure_step:
  assumes inv: "store_inv db" and s: "turn_status db i = Some s" "can_transition s to"
    and to: "to \<in> {Failed, Uncertain}"
    and ok: "record_turn_failure_message_locked now i pub (set_failed now i to k d db) = Inr (u, db')"
  shows "turn_progress db db'"
    "turn_status db' j = (if j = i then Some to else turn_status db j)"
    "turn_runs db' = turn_runs (set_failed now i to k d db)"
    "turn_origins db' = turn_origins db" "tool_calls db' = tool_calls db"
    "\<exists>t \<in> set (turn_runs db). tr_turn_id t = i \<and> (\<exists>r \<in> set (messages db').
       failure_entry t r \<and> msg_content r = pub)"
proof -
  let ?f = "\<lambda>t. t\<lparr>tr_state := turn_run_state_display to, tr_error_kind := Some k,
     tr_error_message := Some d, tr_finished_at := Some now, tr_updated_at := now\<rparr>"
  let ?db1 = "set_failed now i to k d db"
  note dist = store_invD(5) [OF inv]
  have ci: "chat_inv ?db1" "staged_only ?db1"
    using store_invD(2,3) [OF inv] by (simp_all add: set_failed_def staged_only_def)
  obtain t where t: "find_turn i db = Some t" using s(1) by (auto simp: turn_status_Some_iff)
  have tm: "t \<in> set (turn_runs db)" "tr_turn_id t = i"
    using t by (auto simp: find_turn_def dest: find_row_Some)
  have f1: "find_turn i ?db1 = Some (?f t)"
    using t by (simp add: set_failed_def find_update_turn)
  let ?m = "turn_failure_message now (tr_chat_id t) i pub"
  obtain out where c: "commit_message_locked now ?m None None ?db1 = Inr (out, db')"
    using ok f1 by (auto simp: record_turn_failure_message_locked_def res_simps)
  have frame: "conv_frame ?db1 db'" using ci(1) c by (rule commit_message_locked_frame)
  then show runs: "turn_runs db' = turn_runs ?db1" by (rule conv_frame_turns)
  show "turn_origins db' = turn_origins db" "tool_calls db' = tool_calls db"
    using frame by (simp_all add: conv_frame_def set_failed_def)
  have mid: "msg_id ?m = turn_failure_message_id i" "msg_chat_id ?m = tr_chat_id t"
    "msg_message_kind ?m = TurnFailureMsg" "msg_turn_id ?m = Some i" "msg_content ?m = pub"
    by (simp_all add: turn_failure_message_def stored_message_system_def stored_message_new_def)
  have entry: "\<exists>r \<in> set (messages db'). failure_entry t r \<and> msg_content r = pub"
    using ci(1) c
  proof (cases rule: commit_message_cases)
    case (stored r)
    then have r: "r \<in> set (messages ?db1)" "msg_id r = msg_id ?m" "msg_chat_id r = msg_chat_id ?m"
      by (auto simp: find_message_def has_message_key_def dest!: find_row_Some)
    have "failure_entry t r \<and> msg_content r = pub"
      using stored(2) r mid tm(2) ci(2)
      by (auto simp: failure_entry_def same_stored_message_def staged_only_def staged_user_def)
    moreover have "r \<in> set (messages db')" using r(1) stored(3) by simp
    ultimately show ?thesis by blast
  next
    case fresh
    then show ?thesis using mid tm(2) by (auto simp: failure_entry_def row_simps)
  qed
  then show "\<exists>t \<in> set (turn_runs db). tr_turn_id t = i \<and> (\<exists>r \<in> set (messages db').
      failure_entry t r \<and> msg_content r = pub)" using tm by blast
  show "turn_status db' j = (if j = i then Some to else turn_status db j)"
    using set_failed_status [OF s(1)] turn_status_cong [OF runs] by simp
  have prog: "turn_progress ?db1 db'" using ci c by (rule commit_message_progress)
  have "turns_evolve db ?db1"
    unfolding set_failed_def using dist s(1)
    by (rule update_turn_evolves [where s' = to])
      (use s(2) in \<open>auto simp: same_turn_key_def\<close>)
  then have ev: "turns_evolve db db'" using runs by (simp add: turns_evolve_def)
  have "failures_recorded db db'"
    unfolding failures_recorded_def
  proof (intro ballI impI)
    fix t' assume t': "t' \<in> set (turn_runs db')" "failed_row t'"
    then obtain x where x: "x \<in> set (turn_runs db)" "t' = (if tr_turn_id x = i then ?f x else x)"
      by (auto simp: runs set_failed_def update_turn_def row_simps)
    show "(\<exists>t \<in> set (turn_runs db). failed_row t \<and> same_turn_key t t') \<or>
        (\<exists>r \<in> set (messages db'). failure_entry t' r)"
    proof (cases "tr_turn_id x = i")
      case True
      have "x = t" using find_turn_member [OF dist t x(1) True] .
      then have "same_turn_key t t'" using x by (auto simp: same_turn_key_def)
      with entry show ?thesis using failure_entry_key by blast
    next
      case False
      with x t' show ?thesis using same_turn_key_refl by auto
    qed
  qed
  then show "turn_progress db db'"
    using ev prog by (simp add: turn_progress_def committed_kept_def set_failed_def)
qed


section \<open>Every operation is a step\<close>

lemma store_progress_inv: "store_inv db \<Longrightarrow> turn_progress db db' \<Longrightarrow> store_inv db'"
  by (rule turn_progress_inv)

lemma commit_turn_input_progress:
  assumes inv: "store_inv db"
    and ok: "commit_turn_input_with_conversation now m json e i cr cf db = Inr (rv, db')"
  shows "turn_progress db db'" "turn_status db i = Some Accepted"
    "turn_status db' i = Some InputCommitted"
    "find_message (msg_id m) (msg_chat_id m) db = None \<Longrightarrow>
       rv = revision_of (msg_chat_id m) db + 1 \<and>
       messages db' = messages (commit_fresh now m (Some json) db)"
proof -
  from ok obtain out db1 db2 where c: "commit_message_locked now m (Some json) e db = Inr (out, db1)"
    and t: "transition_locked now i Accepted InputCommitted db1 = Inr ((), db2)"
    and db': "db' = update_turn i (\<lambda>t. t\<lparr>tr_input_message_id := Some (msg_id m),
       tr_config_revision := cr, tr_config_fingerprint := cf, tr_updated_at := now\<rparr>) db2"
    and rev: "rv = co_revision out"
    by (auto simp: commit_turn_input_with_conversation_def res_simps)
  have p1: "turn_progress db db1"
    using store_invD(2,3) [OF inv] c by (rule commit_message_progress)
  then have i1: "store_inv db1" using inv by (blast intro: store_progress_inv)
  have "InputCommitted \<notin> {Failed, Uncertain}" by simp
  note st = transition_locked_step [OF i1 this t]
  have i2: "store_inv db2" using i1 st(1) by (rule store_progress_inv)
  have "turn_progress db2 db'"
    unfolding db' using i2 st(2) [of i]
    by (intro update_turn_progress [where s = InputCommitted and s' = InputCommitted])
      (auto simp: same_turn_key_def)
  with p1 st(1) show "turn_progress db db'" by (blast intro: turn_progress_trans)
  have "conv_frame db db1" using store_invD(2) [OF inv] c by (rule commit_message_locked_frame)
  then show "turn_status db i = Some Accepted"
    using transition_locked_ok(1) [OF t] turn_status_cong [OF conv_frame_turns] by metis
  show "turn_status db' i = Some InputCommitted"
    unfolding db' using st(2) [of i]
    by (subst turn_status_update [where s = InputCommitted]) auto
  assume n: "find_message (msg_id m) (msg_chat_id m) db = None"
  have "messages db' = messages db1"
    using transition_locked_ok(3) [OF t] db' by simp
  moreover have "db1 = commit_fresh now m (Some json) db \<and>
      co_revision out = revision_of (msg_chat_id m) db + 1"
    by (rule commit_message_cases [OF store_invD(2) [OF inv] c]) (use n in auto)
  ultimately show "rv = revision_of (msg_chat_id m) db + 1 \<and>
       messages db' = messages (commit_fresh now m (Some json) db)"
    using rev by simp
qed

lemma mark_output_progress:
  assumes inv: "store_inv db" and ok: "mark_turn_output_published now i db = Inr (u, db')"
  shows "turn_progress db db'"
proof -
  obtain x where x: "x \<in> set (turn_runs db)" "tr_turn_id x = i"
    using ok by (auto simp: mark_turn_output_published_def count_rows_zero_iff split: if_splits)
  then obtain t where t: "find_turn i db = Some t"
    by (cases "find_turn i db") (auto simp: find_turn_def find_row_None_iff)
  then have "turn_row_ok t"
    using store_invD(6) [OF inv] by (auto simp: turn_keys_ok_def find_turn_def dest: find_row_Some)
  with t obtain s where s: "turn_status db i = Some s"
    by (auto simp: turn_status_Some_iff turn_row_ok_def)
  have db': "db' = update_turn i (\<lambda>t. t\<lparr>tr_output_published := 1, tr_updated_at := now\<rparr>) db"
    using ok by (auto simp: mark_turn_output_published_def split: if_splits)
  show ?thesis
    unfolding db' using inv s by (rule update_turn_progress [where s' = s]) (auto simp: same_turn_key_def)
qed

lemma begin_model_ok:
  assumes inv: "store_inv db" and ok: "begin_turn_model_iteration now i n h db = Inr (b, db')"
  shows "b = True"
    "\<exists>s. turn_status db i = Some s \<and> s \<in> {InputCommitted, ModelCompleted, ToolsCompleted}"
    "db' = update_turn i (\<lambda>t. t\<lparr>tr_state := ''model_pending'', tr_current_iteration := n,
       tr_model_request_hash := Some h, tr_model_attempt := 1, tr_updated_at := now\<rparr>) db"
proof -
  from ok obtain s where s: "turn_status db i = Some s"
    "s \<in> {InputCommitted, ModelCompleted, ToolsCompleted}"
    by (auto simp: begin_turn_model_iteration_def res_simps read_state_iff split: if_splits)
  then show "\<exists>s. turn_status db i = Some s \<and> s \<in> {InputCommitted, ModelCompleted, ToolsCompleted}"
    by blast
  obtain t where t: "find_turn i db = Some t" "tr_state t = turn_run_state_display s"
    using s(1) by (auto simp: turn_status_Some_iff)
  then have m: "t \<in> set (turn_runs db)" "tr_turn_id t = i"
    by (auto simp: find_turn_def dest: find_row_Some)
  let ?P = "\<lambda>t. tr_turn_id t = i \<and> tr_state t = turn_run_state_display s"
  have "count_rows ?P (turn_runs db) \<noteq> 0" using m t(2) by (auto simp: count_rows_zero_iff)
  moreover have "(tr_turn_id x = i) = ?P x" if "x \<in> set (turn_runs db)" for x
    using find_turn_member [OF store_invD(5) [OF inv] t(1) that] t(2) by auto
  then have "update_rows ?P f (turn_runs db) = update_rows (\<lambda>t. tr_turn_id t = i) f (turn_runs db)" for f
    by (auto simp: update_rows_def)
  moreover have "read_state_locked i db = Inr s" using s(1) by (simp add: read_state_iff)
  ultimately show "b = True"
    "db' = update_turn i (\<lambda>t. t\<lparr>tr_state := ''model_pending'', tr_current_iteration := n,
       tr_model_request_hash := Some h, tr_model_attempt := 1, tr_updated_at := now\<rparr>) db"
    using ok s(2) by (auto simp: begin_turn_model_iteration_def Let_def update_turn_def
        split: if_splits)
qed

lemma begin_model_progress:
  assumes inv: "store_inv db" and ok: "begin_turn_model_iteration now i n h db = Inr (b, db')"
  shows "turn_progress db db'" "turn_status db' i = Some ModelPending"
proof -
  note b = begin_model_ok [OF inv ok]
  obtain s where s: "turn_status db i = Some s" "s \<in> {InputCommitted, ModelCompleted, ToolsCompleted}"
    using b(2) by blast
  then have "can_transition s ModelPending" by (auto simp: can_transition_def)
  then have "can_transition\<^sup>*\<^sup>* s ModelPending" by (rule r_into_rtranclp)
  with inv s(1) show "turn_progress db db'"
    unfolding b(3) by (rule update_turn_progress) (auto simp: same_turn_key_def)
  show "turn_status db' i = Some ModelPending"
    unfolding b(3) using s(1) by (subst turn_status_update [where s = s]) auto
qed

lemma increment_attempt_progress:
  assumes inv: "store_inv db" and ok: "increment_turn_model_attempt now i db = Inr (u, db')"
  shows "turn_progress db db'"
proof -
  have s: "turn_status db i = Some ModelPending"
    using ok by (auto simp: increment_turn_model_attempt_def require_state_locked_def res_simps
        read_state_iff split: if_splits)
  have db': "db' = update_turn i (\<lambda>t. t\<lparr>tr_model_attempt := tr_model_attempt t + 1,
      tr_updated_at := now\<rparr>) db"
    using ok by (auto simp: increment_turn_model_attempt_def res_simps)
  show ?thesis
    unfolding db' using inv s
    by (rule update_turn_progress [where s' = ModelPending]) (auto simp: same_turn_key_def)
qed

lemma complete_turn_progress:
  assumes inv: "store_inv db" and ok: "complete_turn now i fin db = Inr (u, db')"
  shows "turn_progress db db'" "turn_status db' i = Some Completed"
    "\<exists>s. turn_status db i = Some s \<and> s \<in> {ModelCompleted, ToolsCompleted}"
proof -
  from ok obtain s where s: "turn_status db i = Some s" "s \<in> {ModelCompleted, ToolsCompleted}"
    and db': "db' = update_turn i (\<lambda>t. t\<lparr>tr_state := ''completed'',
      tr_final_message_id := Some fin, tr_finished_at := Some now, tr_updated_at := now,
      tr_error_kind := None, tr_error_message := None\<rparr>) db"
    by (auto simp: complete_turn_def res_simps read_state_iff split: if_splits)
  show "\<exists>s. turn_status db i = Some s \<and> s \<in> {ModelCompleted, ToolsCompleted}" using s by blast
  have "can_transition s Completed" using s(2) by (auto simp: can_transition_def)
  then have "can_transition\<^sup>*\<^sup>* s Completed" by (rule r_into_rtranclp)
  with inv s(1) show "turn_progress db db'"
    unfolding db' by (rule update_turn_progress) (auto simp: same_turn_key_def)
  show "turn_status db' i = Some Completed"
    unfolding db' using s(1) by (subst turn_status_update [where s = s]) auto
qed

lemma fail_turn_ok:
  assumes ok: "fail_turn now i to failure db = Inr (u, db')"
  shows "to \<in> {Failed, Uncertain}" "\<exists>s. turn_status db i = Some s \<and> \<not> is_terminal s \<and> can_transition s to"
    "record_turn_failure_message_locked now i (tf_public failure)
       (set_failed now i to (tf_kind failure) (tf_diagnostic failure) db) = Inr (u, db')"
  using ok can_transition_fail
  by (auto simp: fail_turn_def res_simps read_state_iff split: if_splits)

lemma upsert_origin_tables [simp]:
  "turn_runs (upsert_turn_origin now og r db) = turn_runs db"
  "messages (upsert_turn_origin now og r db) = messages db"
  "chats (upsert_turn_origin now og r db) = chats db"
  "sessions (upsert_turn_origin now og r db) = sessions db"
  "tool_calls (upsert_turn_origin now og r db) = tool_calls db"
  by (simp_all add: upsert_turn_origin_def)

lemma upsert_origin_progress:
  assumes "store_inv db"
  shows "turn_progress db (upsert_turn_origin now og r db)"
proof -
  let ?db' = "upsert_turn_origin now og r db"
  have "chat_inv ?db' = chat_inv db" by (rule chat_inv_cong) simp_all
  then show ?thesis using store_invD(2,3) [OF assms]
    by (simp add: turn_progress_def turns_evolve_same staged_only_def failures_recorded_same)
qed

lemma fail_origin_ok:
  assumes inv: "store_inv db"
    and ok: "fail_turn_and_terminate_origin now i to failure og reason db = Inr (u, db')"
  obtains (already) s where "to \<in> {Failed, Uncertain}" "turn_status db i = Some s" "is_terminal s"
      "db' = upsert_turn_origin now og (Some reason) db"
    | (failed) s db1 where "to \<in> {Failed, Uncertain}" "turn_status db i = Some s"
      "\<not> is_terminal s" "can_transition s to"
      "record_turn_failure_message_locked now i (tf_public failure)
         (set_failed now i to (tf_kind failure) (tf_diagnostic failure) db) = Inr ((), db1)"
      "db' = upsert_turn_origin now og (Some reason) db1"
proof -
  have to: "to \<in> {Failed, Uncertain}"
    using ok by (auto simp: fail_turn_and_terminate_origin_def split: if_splits)
  then obtain s where rs: "read_state_locked i db = Inr s"
    using ok by (auto simp: fail_turn_and_terminate_origin_def res_simps)
  then have s: "turn_status db i = Some s" by (simp add: read_state_iff)
  show ?thesis
  proof (cases "is_terminal s")
    case True
    then have "db' = upsert_turn_origin now og (Some reason) db"
      using ok rs to by (simp add: fail_turn_and_terminate_origin_def del: insert_iff)
    then show ?thesis by (rule already [OF to s True])
  next
    case False
    then obtain db1 where f: "can_transition s to" "db' = upsert_turn_origin now og (Some reason) db1"
      "record_turn_failure_message_locked now i (tf_public failure)
         (set_failed now i to (tf_kind failure) (tf_diagnostic failure) db) = Inr ((), db1)"
      using ok rs to
      by (auto simp: fail_turn_and_terminate_origin_def res_simps split: if_split_asm)
    show ?thesis by (rule failed [OF to s False f(1,3,2)])
  qed
qed

lemma fail_origin_progress:
  assumes inv: "store_inv db"
    and ok: "fail_turn_and_terminate_origin now i to failure og reason db = Inr (u, db')"
  shows "turn_progress db db'"
  using inv ok
proof (cases rule: fail_origin_ok)
  case (already s)
  then show ?thesis using inv by (simp add: upsert_origin_progress)
next
  case (failed s db1)
  have "turn_progress db db1" by (rule record_failure_step(1) [OF inv failed(2,4,1,5)])
  moreover from this have "store_inv db1" using inv by (blast intro: store_progress_inv)
  ultimately show ?thesis
    using failed(6) upsert_origin_progress by (blast intro: turn_progress_trans)
qed

lemma fail_invalid_ok:
  assumes ok: "fail_invalid_durable_turn now i db = Inr (u, db')"
  obtains s t to db1 where "turn_status db i = Some s"
    "s \<in> {Accepted, InputCommitted, ToolsCompleted}" "find_turn i db = Some t"
    "tr_scheduled_request_json t \<noteq> None"
    "to = (if s = ToolsCompleted \<and> tr_output_published t \<noteq> 0 then Uncertain else Failed)"
    "record_turn_failure_message_locked now i DURABLE_PAYLOAD_INVALID_PUBLIC_MESSAGE
       (set_failed now i to DURABLE_PAYLOAD_INVALID_ERROR_KIND
          DURABLE_PAYLOAD_INVALID_ERROR_MESSAGE db) = Inr ((), db1)"
    "db' = (case tr_origin_id t of
        Some og \<Rightarrow> if og = [] then db1
          else upsert_turn_origin now og (Some DURABLE_PAYLOAD_INVALID_ERROR_KIND) db1
      | None \<Rightarrow> db1)"
proof -
  obtain s where rs: "read_state_locked i db = Inr s" "s \<in> {Accepted, InputCommitted, ToolsCompleted}"
    using ok by (auto simp: fail_invalid_durable_turn_def res_simps split: if_split_asm)
  then have s: "turn_status db i = Some s" by (simp add: read_state_iff)
  then obtain t where t: "find_turn i db = Some t" by (auto simp: turn_status_Some_iff)
  have json: "tr_scheduled_request_json t \<noteq> None"
    using ok rs t by (auto simp: fail_invalid_durable_turn_def split: if_split_asm)
  let ?to = "if s = ToolsCompleted \<and> tr_output_published t \<noteq> 0 then Uncertain else Failed"
  have run: "rbind (record_turn_failure_message_locked now i DURABLE_PAYLOAD_INVALID_PUBLIC_MESSAGE
       (set_failed now i ?to DURABLE_PAYLOAD_INVALID_ERROR_KIND
          DURABLE_PAYLOAD_INVALID_ERROR_MESSAGE db)) (\<lambda>(_, db1). Inr ((), case tr_origin_id t of
        Some og \<Rightarrow> if og = [] then db1
          else upsert_turn_origin now og (Some DURABLE_PAYLOAD_INVALID_ERROR_KIND) db1
      | None \<Rightarrow> db1)) = Inr (u, db')"
    using ok rs t json
    by (simp add: fail_invalid_durable_turn_def Let_def del: insert_iff not_None_eq)
  obtain db1 where "record_turn_failure_message_locked now i DURABLE_PAYLOAD_INVALID_PUBLIC_MESSAGE
       (set_failed now i ?to DURABLE_PAYLOAD_INVALID_ERROR_KIND
          DURABLE_PAYLOAD_INVALID_ERROR_MESSAGE db) = Inr ((), db1)"
    "db' = (case tr_origin_id t of
        Some og \<Rightarrow> if og = [] then db1
          else upsert_turn_origin now og (Some DURABLE_PAYLOAD_INVALID_ERROR_KIND) db1
      | None \<Rightarrow> db1)"
    using run by (auto simp: rbind_Inr_iff)
  then show ?thesis using that [OF s rs(2) t json refl] by blast
qed

lemma fail_invalid_progress:
  assumes inv: "store_inv db" and ok: "fail_invalid_durable_turn now i db = Inr (u, db')"
  shows "turn_progress db db'"
  using ok
proof (cases rule: fail_invalid_ok)
  case (1 s t to db1)
  have "can_transition s to" "to \<in> {Failed, Uncertain}"
    using 1(2,5) by (auto simp: can_transition_def)
  from record_failure_step(1) [OF inv 1(1) this 1(6)] have p: "turn_progress db db1" .
  then have "store_inv db1" using inv by (blast intro: store_progress_inv)
  then have "turn_progress db1 db'"
    using 1(7) upsert_origin_progress turn_progress_refl store_invD(2,3)
    by (auto split: option.splits)
  with p show ?thesis by (rule turn_progress_trans)
qed

lemma cancel_turn_progress:
  assumes inv: "store_inv db" and ok: "cancel_turn now i k d db = Inr (u, db')"
  shows "turn_progress db db'"
    "turn_status db' i = (if turn_status db i \<in> {Some Accepted, Some InputCommitted}
       then Some Cancelled else turn_status db i)"
proof -
  from ok obtain s where s: "turn_status db i = Some s"
    and c: "is_terminal s \<and> db' = db \<or> can_transition s Cancelled \<and> \<not> is_terminal s \<and>
      db' = set_failed now i Cancelled k d db"
    by (auto simp: cancel_turn_def res_simps read_state_iff split: if_splits)
  show "turn_progress db db'"
    using c
  proof
    assume "is_terminal s \<and> db' = db"
    then show ?thesis using turn_progress_refl store_invD(2,3) [OF inv] by simp
  next
    assume h: "can_transition s Cancelled \<and> \<not> is_terminal s \<and> db' = set_failed now i Cancelled k d db"
    then have "can_transition\<^sup>*\<^sup>* s Cancelled" by blast
    then show ?thesis using h inv s unfolding set_failed_def
      by (auto intro!: update_turn_progress [where s = s and s' = Cancelled] simp: same_turn_key_def)
  qed
  show "turn_status db' i = (if turn_status db i \<in> {Some Accepted, Some InputCommitted}
       then Some Cancelled else turn_status db i)"
    using c s set_failed_status [OF s, where now = now and to = Cancelled and k = k and d = d and j = i]
    by (auto simp: can_transition_cancelled is_durable_pending_def)
qed


section \<open>Acceptance\<close>

text \<open>The struct a row with a known state maps to.\<close>

definition turn_of_row :: "turn_row \<Rightarrow> turn_run_state \<Rightarrow> turn" where
  "turn_of_row r state =
     \<lparr>tr_turn_id = tr_turn_id r, tr_chat_id = tr_chat_id r, tr_request_key = tr_request_key r,
      tr_state = state, tr_current_iteration = tr_current_iteration r,
      tr_input_message_id = tr_input_message_id r, tr_final_message_id = tr_final_message_id r,
      tr_config_revision = tr_config_revision r, tr_config_fingerprint = tr_config_fingerprint r,
      tr_model_request_hash = tr_model_request_hash r, tr_model_attempt = tr_model_attempt r,
      tr_output_published = (tr_output_published r \<noteq> 0), tr_error_kind = tr_error_kind r,
      tr_error_message = tr_error_message r, tr_accepted_at = tr_accepted_at r,
      tr_updated_at = tr_updated_at r, tr_finished_at = tr_finished_at r,
      tr_request_payload_hash = tr_request_payload_hash r,
      tr_scheduled_request_json = tr_scheduled_request_json r, tr_origin_id = tr_origin_id r\<rparr>"

lemma turn_of_row_simps [simp]:
  "tr_turn_id (turn_of_row r s) = tr_turn_id r" "tr_state (turn_of_row r s) = s"
  "tr_request_payload_hash (turn_of_row r s) = tr_request_payload_hash r"
  by (simp_all add: turn_of_row_def)

lemma read_turn_run_row:
  assumes "find_row P (turn_runs db) = Some r" "tr_state r = turn_run_state_display s"
  shows "read_turn_run P db = Inr (Some (turn_of_row r s))"
  using assms by (simp add: read_turn_run_def turn_of_row_def parse_row_enum_def map_err_def)

lemma read_turn_run_None: "find_row P (turn_runs db) = None \<Longrightarrow> read_turn_run P db = Inr None"
  by (simp add: read_turn_run_def)

definition accepted :: "string \<Rightarrow> string \<Rightarrow> accept_turn_params \<Rightarrow> database \<Rightarrow> database" where
  "accepted now i p db = db\<lparr>turn_runs := insert_row (accepted_row now i p) (turn_runs db)\<rparr>"

lemma accepted_row_simps [simp]:
  "tr_turn_id (accepted_row now i p) = i" "tr_chat_id (accepted_row now i p) = atp_chat_id p"
  "tr_request_key (accepted_row now i p) = atp_request_key p"
  "tr_state (accepted_row now i p) = ''accepted''"
  "same_request (atp_chat_id p) (atp_request_key p) (accepted_row now i p)"
  "pending_row (accepted_row now i p)" "\<not> failed_row (accepted_row now i p)"
  by (simp_all add: accepted_row_def same_request_def pending_row_def failed_row_def)

lemma exists_row_find: "exists_row P t = (find_row P t \<noteq> None)"
  by (auto simp: row_simps find_row_None_iff)

lemma count_rows_find: "(count_rows P t = 0) = (find_row P t = None)"
  by (simp add: count_rows_zero_iff find_row_None_iff)

text \<open>A first request is bounded by the two capacities and otherwise creates one row.\<close>

lemma accept_new:
  assumes "find_row (same_request (atp_chat_id p) (atp_request_key p)) (turn_runs db) = None"
  shows "accept_or_get_turn now i p db =
    (if count_rows (\<lambda>t. tr_chat_id t = atp_chat_id p \<and> pending_row t) (turn_runs db)
          \<ge> MAX_DURABLE_PENDING_PER_SESSION then Inl TurnSessionQueueFull
     else if count_rows pending_row (turn_runs db) \<ge> MAX_DURABLE_PENDING_PER_SCOPE
          then Inl TurnGlobalQueueFull
     else if find_turn i db \<noteq> None
          then Inl (Sqlite (ConstraintViolation ''turn_runs.turn_id''))
     else Inr (Created (turn_of_row (accepted_row now i p) Accepted), accepted now i p db))"
proof -
  have "find_row (same_request (atp_chat_id p) (atp_request_key p)) (turn_runs (accepted now i p db)) =
      Some (accepted_row now i p)"
    using assms by (simp add: accepted_def insert_row_def find_row_append)
  then have "read_turn_run (same_request (atp_chat_id p) (atp_request_key p)) (accepted now i p db) =
      Inr (Some (turn_of_row (accepted_row now i p) Accepted))"
    by (rule read_turn_run_row) simp
  then show ?thesis
    using assms
    by (simp add: accept_or_get_turn_def Let_def exists_row_find count_rows_find accepted_def)
qed

text \<open>A repeated request returns the stored Turn, or is refused when its payload differs.\<close>

lemma accept_existing:
  assumes "find_row (same_request (atp_chat_id p) (atp_request_key p)) (turn_runs db) = Some t"
    and s: "tr_state t = turn_run_state_display s" and i: "tr_turn_id t \<noteq> i"
  shows "accept_or_get_turn now i p db =
    (case tr_request_payload_hash t of
       Some h \<Rightarrow> if h \<noteq> atp_request_payload_hash p
         then Inl (Conflict (''turn_runs request_payload_hash mismatch for chat_id='' @
                show_int (atp_chat_id p) @ '' request_key='' @ atp_request_key p))
         else Inr (Existing (turn_of_row t s), db)
     | None \<Rightarrow> Inr (Existing (turn_of_row t s), db))"
  using assms read_turn_run_row [OF assms(1) s]
  by (simp add: accept_or_get_turn_def Let_def exists_row_find count_rows_find split: option.split)

lemma accept_existing_db:
  assumes "find_row (same_request (atp_chat_id p) (atp_request_key p)) (turn_runs db) \<noteq> None"
    and "accept_or_get_turn now i p db = Inr (x, db')"
  shows "db' = db"
  using assms
  by (auto simp: accept_or_get_turn_def Let_def exists_row_find count_rows_find res_simps
      split: if_splits option.splits)

lemma accepted_inv:
  assumes inv: "store_inv db"
    and new: "find_row (same_request (atp_chat_id p) (atp_request_key p)) (turn_runs db) = None"
      "find_turn i db = None"
    and cap: "count_rows (\<lambda>t. tr_chat_id t = atp_chat_id p \<and> pending_row t) (turn_runs db) <
        MAX_DURABLE_PENDING_PER_SESSION"
      "count_rows pending_row (turn_runs db) < MAX_DURABLE_PENDING_PER_SCOPE"
  shows "store_inv (accepted now i p db)"
proof -
  let ?db' = "accepted now i p db"
  have runs: "turn_runs ?db' = turn_runs db @ [accepted_row now i p]"
    by (simp add: accepted_def insert_row_def)
  have other: "messages ?db' = messages db" "chat_inv ?db'"
    using store_invD(2) [OF inv] chat_inv_cong [of ?db' db] by (simp_all add: accepted_def)
  have "i \<notin> set (map tr_turn_id (turn_runs db))"
    using new(2) by (auto simp: find_turn_def find_row_None_iff)
  moreover have "(atp_chat_id p, atp_request_key p) \<notin>
      set (map (\<lambda>t. (tr_chat_id t, tr_request_key t)) (turn_runs db))"
    using new(1) by (auto simp: find_row_None_iff same_request_def)
  moreover have "turn_row_ok (accepted_row now i p)"
    unfolding turn_row_ok_def by (auto intro: range_eqI [of _ _ Accepted])
  ultimately have keys: "turn_keys_ok (turn_runs ?db')"
    using store_invD(6) [OF inv] by (simp add: turn_keys_ok_def runs)
  have "within_capacity (turn_runs db)" using store_invD(1) [OF inv] by (simp add: turn_inv_def)
  then have "within_capacity (turn_runs ?db')"
    using cap by (auto simp: within_capacity_def runs)
  moreover have "visible_failures ?db'"
    using store_invD(4) [OF inv] by (auto simp: visible_failures_def runs other)
  ultimately show ?thesis
    using keys other store_invD(3) [OF inv] by (simp add: store_inv_def turn_inv_def staged_only_def)
qed

lemma accept_step:
  assumes inv: "store_inv db" and ok: "accept_or_get_turn now i p db = Inr (x, db')"
  shows "store_inv db' \<and> (db' = db \<or> (find_turn i db = None \<and> db' = accepted now i p db))"
proof (cases "find_row (same_request (atp_chat_id p) (atp_request_key p)) (turn_runs db)")
  case None
  with ok show ?thesis
    using accepted_inv [OF inv None] by (auto simp: accept_new split: if_splits)
next
  case (Some t)
  then have "db' = db" using accept_existing_db ok by blast
  with inv show ?thesis by simp
qed

lemma turn_status_accepted:
  assumes "find_turn i db = None"
  shows "turn_status (accepted now i p db) j = (if j = i then Some Accepted else turn_status db j)"
proof -
  have "find_turn j (accepted now i p db) =
      (if j = i then Some (accepted_row now i p) else find_turn j db)"
    using assms by (auto simp: find_turn_def accepted_def insert_row_def find_row_append
        split: option.split)
  then show ?thesis
    using turn_run_state_from_str_display [of Accepted] by (simp add: turn_status_def)
qed


section \<open>Recovery\<close>

text \<open>The state recovery gives to a row, read off its action.\<close>

definition recovered_state :: "turn_row \<Rightarrow> turn_run_state \<Rightarrow> turn_run_state" where
  "recovered_state row s =
     (if tr_scheduled_request_json row \<noteq> None \<and> s \<in> {Accepted, InputCommitted, ToolsCompleted} then s
      else case recovery_action s (tr_request_payload_hash row) of
          None \<Rightarrow> s | Some (to, _, _) \<Rightarrow> to)"

lemma recovery_action_cases:
  "(is_terminal s \<and> recovery_action s h = None) \<or>
   (\<exists>to k d. recovery_action s h = Some (to, k, d) \<and> can_transition s to \<and>
      to \<in> {Failed, Uncertain} \<and> (to = Failed) = (s \<in> {Accepted, InputCommitted}))"
  by (cases s) (auto simp: can_transition_def)

lemma recover_row_step:
  assumes inv: "store_inv db" and s: "turn_status db (tr_turn_id row) = Some s"
    "tr_state row = turn_run_state_display s"
    and ok: "recover_row now row (rec, db) = Inr (rec', db')"
  shows "turn_progress db db'"
    "turn_status db' j = (if j = tr_turn_id row then Some (recovered_state row s) else turn_status db j)"
    "rec' = (if recovered_state row s = s then rec else rec @ [\<lparr>rtr_turn_id = tr_turn_id row,
       rtr_chat_id = tr_chat_id row, rtr_from = s, rtr_recovered_to = recovered_state row s\<rparr>])"
    "turn_origins db' = turn_origins db"
proof -
  have p: "map_err (\<lambda>e. Conflict (''invalid turn_runs.state: '' @ e))
      (turn_run_state_from_str (tr_state row)) = Inr s"
    using s(2) by (simp add: map_err_def)
  consider (keep) "db' = db" "rec' = rec" "recovered_state row s = s"
    | (fail) to k d where "recovery_action s (tr_request_payload_hash row) = Some (to, k, d)"
      "recovered_state row s = to" "can_transition s to" "to \<in> {Failed, Uncertain}"
      "record_turn_failure_message_locked now (tr_turn_id row)
         (if to = Uncertain then TURN_UNCERTAIN_PUBLIC_MESSAGE else TURN_INTERRUPTED_PUBLIC_MESSAGE)
         (set_failed now (tr_turn_id row) to k d db) = Inr ((), db')"
      "rec' = rec @ [\<lparr>rtr_turn_id = tr_turn_id row,
       rtr_chat_id = tr_chat_id row, rtr_from = s, rtr_recovered_to = to\<rparr>]"
  proof (cases "tr_scheduled_request_json row \<noteq> None \<and> s \<in> {Accepted, InputCommitted, ToolsCompleted}")
    case True
    then show ?thesis using ok p keep by (simp add: recover_row_def recovered_state_def del: not_None_eq)
  next
    case False
    from recovery_action_cases [of s "tr_request_payload_hash row"] show ?thesis
    proof (elim disjE exE conjE)
      assume "recovery_action s (tr_request_payload_hash row) = None"
      then show ?thesis using ok p False keep
        by (auto simp: recover_row_def recovered_state_def split: if_splits)
    next
      fix to k d assume h: "recovery_action s (tr_request_payload_hash row) = Some (to, k, d)"
        "can_transition s to" "to \<in> {Failed, Uncertain}"
      have "recovered_state row s = to" using False h(1) by (auto simp: recovered_state_def)
      moreover have "rbind (record_turn_failure_message_locked now (tr_turn_id row)
         (if to = Uncertain then TURN_UNCERTAIN_PUBLIC_MESSAGE else TURN_INTERRUPTED_PUBLIC_MESSAGE)
         (set_failed now (tr_turn_id row) to k d db)) (\<lambda>(_, db'). Inr (rec @ [\<lparr>rtr_turn_id =
           tr_turn_id row, rtr_chat_id = tr_chat_id row, rtr_from = s, rtr_recovered_to = to\<rparr>], db')) =
        Inr (rec', db')"
        using ok p False h(1) by (simp add: recover_row_def del: not_None_eq split: if_splits)
      ultimately show ?thesis using h by (auto simp: rbind_Inr_iff intro: fail)
    qed
  qed
  note c = this
  show "turn_progress db db'"
    using c
  proof cases
    case keep
    then show ?thesis using turn_progress_refl store_invD(2,3) [OF inv] by simp
  next
    case (fail to k d)
    show ?thesis by (rule record_failure_step(1) [OF inv s(1) fail(3,4,5)])
  qed
  show "turn_origins db' = turn_origins db"
    using c
  proof cases
    case (fail to k d)
    show ?thesis by (rule record_failure_step(4) [OF inv s(1) fail(3,4,5)])
  qed simp
  show "turn_status db' j = (if j = tr_turn_id row then Some (recovered_state row s) else turn_status db j)"
    using c
  proof cases
    case keep
    then show ?thesis using s(1) by simp
  next
    case (fail to k d)
    then show ?thesis using record_failure_step(2) [OF inv s(1) fail(3,4,5)] by simp
  qed
  show "rec' = (if recovered_state row s = s then rec else rec @ [\<lparr>rtr_turn_id = tr_turn_id row,
       rtr_chat_id = tr_chat_id row, rtr_from = s, rtr_recovered_to = recovered_state row s\<rparr>])"
    using c
  proof cases
    case (fail to k d)
    then have "to \<noteq> s" by auto
    with fail show ?thesis by simp
  qed simp
qed

definition row_state :: "turn_row \<Rightarrow> turn_run_state" where
  "row_state row = (case turn_run_state_from_str (tr_state row) of Inr s \<Rightarrow> s | Inl _ \<Rightarrow> Failed)"

lemma row_state_display: "turn_row_ok t \<Longrightarrow> tr_state t = turn_run_state_display (row_state t)"
  by (auto simp: turn_row_ok_def row_state_def)

definition recovery_record :: "turn_row \<Rightarrow> recovered_turn_run" where
  "recovery_record r =
     \<lparr>rtr_turn_id = tr_turn_id r, rtr_chat_id = tr_chat_id r, rtr_from = row_state r,
      rtr_recovered_to = recovered_state r (row_state r)\<rparr>"

definition recovered_rows ::
  "turn_row list \<Rightarrow> recovered_turn_run list \<Rightarrow> database \<Rightarrow> recovered_turn_run list \<Rightarrow> database \<Rightarrow> bool" where
  "recovered_rows rows rec db rec' db' =
     (turn_progress db db' \<and>
      (\<forall>r \<in> set rows. turn_status db' (tr_turn_id r) = Some (recovered_state r (row_state r))) \<and>
      (\<forall>j. j \<notin> tr_turn_id ` set rows \<longrightarrow> turn_status db' j = turn_status db j) \<and>
      rec' = rec @ map recovery_record (filter (\<lambda>r. recovered_state r (row_state r) \<noteq> row_state r) rows))"

lemma recover_rows:
  assumes "store_inv db" "distinct (map tr_turn_id rows)"
    and "\<And>r. r \<in> set rows \<Longrightarrow> turn_row_ok r \<and> turn_status db (tr_turn_id r) = Some (row_state r)"
    and "rfold (recover_row now) rows (rec, db) = Inr (rec', db')"
  shows "recovered_rows rows rec db rec' db'"
  using assms
proof (induction rows arbitrary: rec db)
  case Nil
  then show ?case by (simp add: recovered_rows_def turn_progress_refl store_invD(2,3))
next
  case (Cons r rows)
  from Cons.prems(4) obtain rec1 db1 where s1: "recover_row now r (rec, db) = Inr (rec1, db1)"
    "rfold (recover_row now) rows (rec1, db1) = Inr (rec', db')"
    by (auto simp: res_simps)
  have r: "turn_status db (tr_turn_id r) = Some (row_state r)"
    "tr_state r = turn_run_state_display (row_state r)"
    using Cons.prems(3) [of r] row_state_display by auto
  note st = recover_row_step [OF Cons.prems(1) r s1(1)]
  have i1: "store_inv db1" using Cons.prems(1) st(1) by (rule store_progress_inv)
  have d: "distinct (map tr_turn_id rows)" using Cons.prems(2) by simp
  have ne: "tr_turn_id r \<notin> tr_turn_id ` set rows" using Cons.prems(2) by simp
  have q: "turn_row_ok x \<and> turn_status db1 (tr_turn_id x) = Some (row_state x)" if "x \<in> set rows" for x
  proof -
    have "tr_turn_id x \<noteq> tr_turn_id r" using ne that by (metis imageI)
    then show ?thesis using Cons.prems(3) [of x] that st(2) [of "tr_turn_id x"] by simp
  qed
  have IH: "recovered_rows rows rec1 db1 rec' db'"
    using i1 d q s1(2) by (rule Cons.IH)
  have "turn_progress db db'"
    using st(1) IH unfolding recovered_rows_def by (blast intro: turn_progress_trans)
  moreover have "\<forall>x \<in> set (r # rows). turn_status db' (tr_turn_id x) = Some (recovered_state x (row_state x))"
    using IH ne st(2) [of "tr_turn_id r"] by (simp add: recovered_rows_def)
  moreover have "\<forall>j. j \<notin> tr_turn_id ` set (r # rows) \<longrightarrow> turn_status db' j = turn_status db j"
    using IH st(2) by (simp add: recovered_rows_def)
  ultimately show ?case
    using IH st(3) by (simp add: recovered_rows_def recovery_record_def)
qed

lemma interrupted_row_iff:
  "tr_state t = turn_run_state_display s \<Longrightarrow> interrupted_row t = (\<not> is_terminal s)"
  by (cases s) (auto simp: interrupted_row_def)

lemma status_of_member:
  assumes "store_inv db" "t \<in> set (turn_runs db)"
  shows "turn_row_ok t" "turn_status db (tr_turn_id t) = Some (row_state t)"
    "find_turn (tr_turn_id t) db = Some t"
proof -
  show ok: "turn_row_ok t" using store_invD(6) [OF assms(1)] assms(2) by (simp add: turn_keys_ok_def)
  show f: "find_turn (tr_turn_id t) db = Some t"
    unfolding find_turn_def using store_invD(5) [OF assms(1)] assms(2) by (rule find_key_unique)
  show "turn_status db (tr_turn_id t) = Some (row_state t)"
    using f row_state_display [OF ok] by (auto simp: turn_status_Some_iff)
qed

lemma recover_interrupted_spec:
  assumes inv: "store_inv db" and ok: "recover_interrupted_turns now db = Inr (rec, db')"
  shows "turn_progress db db'"
    "\<forall>t \<in> set (turn_runs db). turn_status db' (tr_turn_id t) = Some (recovered_state t (row_state t))"
    "rec = map recovery_record (filter (\<lambda>r. recovered_state r (row_state r) \<noteq> row_state r)
         (filter interrupted_row (turn_runs db)))"
proof -
  let ?rows = "filter interrupted_row (turn_runs db)"
  have d: "distinct (map tr_turn_id ?rows)"
    using store_invD(5) [OF inv] by (simp add: distinct_map_filter)
  have q: "turn_row_ok r \<and> turn_status db (tr_turn_id r) = Some (row_state r)" if "r \<in> set ?rows" for r
    using status_of_member [OF inv, of r] that by simp
  have R: "recovered_rows ?rows [] db rec db'"
    using inv d q ok [unfolded recover_interrupted_turns_def] by (rule recover_rows)
  then show "turn_progress db db'" unfolding recovered_rows_def by blast
  from R show "rec = map recovery_record
      (filter (\<lambda>r. recovered_state r (row_state r) \<noteq> row_state r) ?rows)"
    unfolding recovered_rows_def append_Nil by blast
  show "\<forall>t \<in> set (turn_runs db). turn_status db' (tr_turn_id t) = Some (recovered_state t (row_state t))"
  proof
    fix t assume t: "t \<in> set (turn_runs db)"
    note m = status_of_member [OF inv t]
    show "turn_status db' (tr_turn_id t) = Some (recovered_state t (row_state t))"
    proof (cases "interrupted_row t")
      case True
      with t R show ?thesis by (simp add: recovered_rows_def)
    next
      case False
      then have "is_terminal (row_state t)"
        using interrupted_row_iff [OF row_state_display [OF m(1)]] by simp
      then have "recovered_state t (row_state t) = row_state t"
        by (cases "row_state t") (auto simp: recovered_state_def)
      moreover have "tr_turn_id t \<notin> tr_turn_id ` set ?rows"
      proof
        assume "tr_turn_id t \<in> tr_turn_id ` set ?rows"
        then obtain x where "x \<in> set (turn_runs db)" "interrupted_row x" "tr_turn_id x = tr_turn_id t"
          by auto
        then show False using False find_turn_member [OF store_invD(5) [OF inv] m(3)] by auto
      qed
      ultimately show ?thesis using R m(2) by (simp add: recovered_rows_def)
    qed
  qed
qed

end
