(* ===== verification/Turn_Runs.thy ===== *)
theory Turn_Runs
  imports Turn_Steps
begin

text \<open>
  Runs of the store: the step relation whose steps are the operations of \<open>Turn_Store\<close>,
  \<open>Chat_Store\<close> and \<open>Staged_Followups\<close> in any order, the life-cycle contract of the prelude
  interpreted on it, the optimistic-concurrency contract interpreted on the conversation
  writers, and the properties of whole runs.
\<close>

section \<open>Steps\<close>

inductive store_step :: "database \<Rightarrow> database \<Rightarrow> bool" where
  step_accept: "accept_or_get_turn now i p db = Inr (x, db') \<Longrightarrow> store_step db db'"
| step_commit_input:
    "commit_turn_input_with_conversation now m json e i cr cf db = Inr (rv, db') \<Longrightarrow> store_step db db'"
| step_publish: "mark_turn_output_published now i db = Inr (u, db') \<Longrightarrow> store_step db db'"
| step_begin_model: "begin_turn_model_iteration now i n h db = Inr (b, db') \<Longrightarrow> store_step db db'"
| step_retry_model: "increment_turn_model_attempt now i db = Inr (u, db') \<Longrightarrow> store_step db db'"
| step_complete_model: "complete_turn_model now i db = Inr (u, db') \<Longrightarrow> store_step db db'"
| step_begin_tools: "begin_turn_tools now i db = Inr (u, db') \<Longrightarrow> store_step db db'"
| step_complete_tools: "complete_turn_tools now i db = Inr (u, db') \<Longrightarrow> store_step db db'"
| step_complete: "complete_turn now i fin db = Inr (u, db') \<Longrightarrow> store_step db db'"
| step_fail: "fail_turn now i to failure db = Inr (u, db') \<Longrightarrow> store_step db db'"
| step_fail_origin:
    "fail_turn_and_terminate_origin now i to failure og reason db = Inr (u, db') \<Longrightarrow> store_step db db'"
| step_fail_invalid: "fail_invalid_durable_turn now i db = Inr (u, db') \<Longrightarrow> store_step db db'"
| step_cancel: "cancel_turn now i k d db = Inr (u, db') \<Longrightarrow> store_step db db'"
| step_recover: "recover_interrupted_turns now db = Inr (rec, db') \<Longrightarrow> store_step db db'"
| step_origin: "store_step db (upsert_turn_origin now og reason db)"
| step_message: "commit_conversation_message now m json e db = Inr (out, db') \<Longrightarrow> store_step db db'"
| step_snapshot: "update_session_snapshot now c snap e db = Inr (out, db') \<Longrightarrow> store_step db db'"
| step_stage:
    "stage_tool_followup c key hash sender content ts db = Inr (o', db') \<Longrightarrow> store_step db db'"
| step_promote:
    "commit_staged_user_messages now i snap rv db = Inr (co, db') \<Longrightarrow> store_step db db'"
| step_cleanup: "store_step db (delete_staged_user_message_after_promotion c i db)"

lemma transition_turn_state_progress:
  assumes "store_inv db" "to \<notin> {Failed, Uncertain}" "transition_turn_state now i from to db = Inr (u, db')"
  shows "turn_progress db db'"
  using transition_locked_step(1) assms by (simp add: transition_turn_state_def)

text \<open>Every step keeps the invariant; it is a progress step or the acceptance of a new Turn.\<close>

lemma store_step_cases:
  assumes "store_step db db'" "store_inv db"
  shows "store_inv db' \<and>
    (turn_progress db db' \<or> (\<exists>now i p. find_turn i db = None \<and> db' = accepted now i p db))"
proof -
  note c = store_invD(2,3) [OF assms(2)]
  have "turn_progress db db' \<or> (store_inv db' \<and> (\<exists>now i p. find_turn i db = None \<and> db' = accepted now i p db))"
    using assms
  proof (cases rule: store_step.cases)
    case (step_accept now i p x)
    with accept_step [OF assms(2), of now i p x db']
    show ?thesis using turn_progress_refl store_invD(2,3) [OF assms(2)] by auto
  next
    case (step_fail now i to failure u)
    note f = fail_turn_ok [OF step_fail]
    then obtain s where "turn_status db i = Some s" "can_transition s to" by blast
    from record_failure_step(1) [OF assms(2) this f(1)] f(3) show ?thesis by blast
  next
    case step_commit_input
    then show ?thesis using commit_turn_input_progress(1) [OF assms(2)] by blast
  next
    case step_publish
    then show ?thesis using mark_output_progress [OF assms(2)] by blast
  next
    case step_begin_model
    then show ?thesis using begin_model_progress(1) [OF assms(2)] by blast
  next
    case step_retry_model
    then show ?thesis using increment_attempt_progress [OF assms(2)] by blast
  next
    case step_complete
    then show ?thesis using complete_turn_progress(1) [OF assms(2)] by blast
  next
    case step_fail_origin
    then show ?thesis using fail_origin_progress [OF assms(2)] by blast
  next
    case step_fail_invalid
    then show ?thesis using fail_invalid_progress [OF assms(2)] by blast
  next
    case step_cancel
    then show ?thesis using cancel_turn_progress(1) [OF assms(2)] by blast
  next
    case step_recover
    then show ?thesis using recover_interrupted_spec(1) [OF assms(2)] by blast
  next
    case step_origin
    then show ?thesis using upsert_origin_progress [OF assms(2)] by blast
  next
    case step_snapshot
    then show ?thesis using update_snapshot_progress [OF c] by blast
  next
    case step_stage
    then show ?thesis using stage_progress [OF c] by blast
  next
    case step_promote
    then show ?thesis using commit_staged_progress [OF c] by blast
  next
    case step_cleanup
    then show ?thesis using delete_staged_progress [OF c] by blast
  next
    case step_complete_model
    then show ?thesis using transition_turn_state_progress [OF assms(2), of ModelCompleted] by (auto simp: complete_turn_model_def)
  next
    case step_begin_tools
    then show ?thesis using transition_turn_state_progress [OF assms(2), of ToolsPending] by (auto simp: begin_turn_tools_def)
  next
    case step_complete_tools
    then show ?thesis using transition_turn_state_progress [OF assms(2), of ToolsCompleted] by (auto simp: complete_turn_tools_def)
  next
    case step_message
    then show ?thesis using commit_message_progress [OF c] by (auto simp: commit_conversation_message_def)
  qed
  then show ?thesis using turn_progress_inv [OF assms(2)] by blast
qed

lemma turn_status_step:
  assumes "store_step db db'" "store_inv db" "turn_status db k = Some s"
  shows "\<exists>t. turn_status db' k = Some t \<and> can_transition\<^sup>*\<^sup>* s t"
proof -
  from store_step_cases [OF assms(1,2)]
  consider "turn_progress db db'" | now i p where "find_turn i db = None" "db' = accepted now i p db"
    by blast
  then show ?thesis
  proof cases
    case 1
    then show ?thesis using turns_evolve_status assms(3) unfolding turn_progress_def by blast
  next
    case 2
    then have "k \<noteq> i" using assms(3) by (auto simp: turn_status_def)
    with 2 assms(3) show ?thesis by (auto simp: turn_status_accepted)
  qed
qed

interpretation turn_life: lifecycle_store can_transition is_terminal turn_status store_step store_inv
proof
  fix db db' k s
  show "store_step db db' \<Longrightarrow> store_inv db \<Longrightarrow> store_inv db'" using store_step_cases by blast
  show "store_step db db' \<Longrightarrow> store_inv db \<Longrightarrow> turn_status db k = Some s \<Longrightarrow>
      \<exists>t. turn_status db' k = Some t \<and> (t = s \<or> can_transition\<^sup>*\<^sup>* s t)"
    using turn_status_step by blast
qed

lemma store_inv_empty: "store_inv empty_database"
  by (simp add: store_inv_def turn_inv_def chat_inv_def turn_keys_ok_def within_capacity_def
      staged_only_def visible_failures_def empty_database_def MAX_DURABLE_PENDING_PER_SESSION_def
      MAX_DURABLE_PENDING_PER_SCOPE_def)

section \<open>The identity of an accepted Turn over a run\<close>

lemma step_keeps_key:
  assumes "store_step db db'" "store_inv db" "t \<in> set (turn_runs db)"
  shows "\<exists>t' \<in> set (turn_runs db'). same_turn_key t t'"
proof -
  from store_step_cases [OF assms(1,2)]
  consider "turn_progress db db'" | now i p where "db' = accepted now i p db" by blast
  then show ?thesis
  proof cases
    case 1
    then have l: "list_all2 row_evolves (turn_runs db) (turn_runs db')"
      by (simp add: turn_progress_def turns_evolve_def)
    obtain n where "n < length (turn_runs db)" "turn_runs db ! n = t"
      using assms(3) by (auto simp: in_set_conv_nth)
    with l have "row_evolves t (turn_runs db' ! n)" "turn_runs db' ! n \<in> set (turn_runs db')"
      using list_all2_nthD [OF l] list_all2_lengthD [OF l] by fastforce+
    then show ?thesis unfolding row_evolves_def by blast
  next
    case 2
    then have "t \<in> set (turn_runs db')" using assms(3) by (simp add: accepted_def row_simps)
    then show ?thesis using same_turn_key_refl by blast
  qed
qed

lemma run_keeps_key:
  assumes "store_step\<^sup>*\<^sup>* db db'" "store_inv db" "t \<in> set (turn_runs db)"
  shows "\<exists>t' \<in> set (turn_runs db'). same_turn_key t t'"
  using assms(1)
proof (induction rule: rtranclp_induct)
  case base
  then show ?case using assms(3) same_turn_key_refl by blast
next
  case (step u v)
  then obtain t1 where "t1 \<in> set (turn_runs u)" "same_turn_key t t1" by blast
  moreover have "store_inv u" using step.hyps(1) assms(2) by (rule turn_life.run_invar)
  ultimately show ?case
    using step_keeps_key [OF step.hyps(2)] same_turn_key_trans by blast
qed

lemma request_unique:
  assumes "store_inv db" "t \<in> set (turn_runs db)"
  shows "find_row (same_request (tr_chat_id t) (tr_request_key t)) (turn_runs db) = Some t"
proof -
  have "distinct (map (\<lambda>t. (tr_chat_id t, tr_request_key t)) (turn_runs db))"
    using store_invD(6) [OF assms(1)] by (simp add: turn_keys_ok_def)
  from find_key_unique [OF this assms(2)] show ?thesis
    by (simp add: same_request_def [abs_def])
qed

section \<open>Optimistic concurrency of the conversation writers\<close>

datatype conv_write =
    WriteMessage string stored_message "string option"
  | WriteSnapshot string int string
  | WriteInput string stored_message string string int "string option"

fun conv_chat :: "conv_write \<Rightarrow> int" where
  "conv_chat (WriteMessage now m json) = msg_chat_id m"
| "conv_chat (WriteSnapshot now c json) = c"
| "conv_chat (WriteInput now m json i cr cf) = msg_chat_id m"

fun conv_commit :: "conv_write \<Rightarrow> int option \<Rightarrow> database \<Rightarrow> storage_error + database" where
  "conv_commit (WriteMessage now m json) e db =
     rbind (commit_conversation_message now m json e db) (\<lambda>(_, db'). Inr db')"
| "conv_commit (WriteSnapshot now c json) e db =
     rbind (update_session_snapshot now c json e db) (\<lambda>(_, db'). Inr db')"
| "conv_commit (WriteInput now m json i cr cf) e db =
     rbind (commit_turn_input_with_conversation now m json e i cr cf db) (\<lambda>(_, db'). Inr db')"

text \<open>A write changes the conversation unless its message is already stored.\<close>

fun conv_advances :: "conv_write \<Rightarrow> database \<Rightarrow> bool" where
  "conv_advances (WriteMessage now m json) db = (find_message (msg_id m) (msg_chat_id m) db = None)"
| "conv_advances (WriteSnapshot now c json) db = True"
| "conv_advances (WriteInput now m json i cr cf) db =
     (find_message (msg_id m) (msg_chat_id m) db = None)"

lemma commit_message_revision:
  assumes "chat_inv db" "commit_message_locked now m json e db = Inr (out, db')"
  shows "revision_of k db' = revision_of k db +
      (if k = msg_chat_id m \<and> find_message (msg_id m) (msg_chat_id m) db = None then 1 else 0)"
    "e = Some n \<Longrightarrow> n = revision_of (msg_chat_id m) db"
proof -
  show "revision_of k db' = revision_of k db +
      (if k = msg_chat_id m \<and> find_message (msg_id m) (msg_chat_id m) db = None then 1 else 0)"
    by (rule commit_message_cases [OF assms]) (auto simp: commit_fresh_chat)
  show "e = Some n \<Longrightarrow> n = revision_of (msg_chat_id m) db"
    using assms(2) by (auto simp: commit_message_locked_eq [OF assms(1)] cas_ok_def split: if_splits)
qed

lemma revision_of_cong: "chats db' = chats db \<Longrightarrow> revision_of c db' = revision_of c db"
  by (simp add: revision_of_def chat_of_def)

lemma commit_turn_input_message:
  assumes "commit_turn_input_with_conversation now m json e i cr cf db = Inr (rv, db')"
  shows "\<exists>out db1. commit_message_locked now m (Some json) e db = Inr (out, db1) \<and>
    chats db' = chats db1 \<and> messages db' = messages db1 \<and> sessions db' = sessions db1"
  using assms
  by (auto simp: commit_turn_input_with_conversation_def res_simps dest!: transition_locked_ok(3))

lemma conv_commit_facts:
  assumes inv: "store_inv db" and ok: "conv_commit r e db = Inr db'"
  shows "store_inv db'" "e = Some n \<Longrightarrow> n = revision_of (conv_chat r) db"
    "revision_of k db' = revision_of k db + (if k = conv_chat r \<and> conv_advances r db then 1 else 0)"
proof -
  note c = store_invD(2) [OF inv]
  have "store_inv db' \<and> (e = Some n \<longrightarrow> n = revision_of (conv_chat r) db) \<and>
    revision_of k db' = revision_of k db + (if k = conv_chat r \<and> conv_advances r db then 1 else 0)"
  proof (cases r)
    case (WriteMessage now m json)
    then obtain out where o: "commit_message_locked now m json e db = Inr (out, db')"
      using ok by (auto simp: res_simps commit_conversation_message_def)
    have "turn_progress db db'" using c store_invD(3) [OF inv] o by (rule commit_message_progress)
    then show ?thesis
      using inv turn_progress_inv commit_message_revision [OF c o] WriteMessage by auto
  next
    case (WriteSnapshot now d json)
    then obtain out where o: "update_session_snapshot now d json e db = Inr (out, db')"
      using ok by (auto simp: res_simps)
    have "turn_progress db db'" using c store_invD(3) [OF inv] o by (rule update_snapshot_progress)
    then show ?thesis
      using inv turn_progress_inv o WriteSnapshot
      by (auto simp: update_session_snapshot_eq snapshot_write_chat split: if_splits)
  next
    case (WriteInput now m json i cr cf)
    then obtain rv where o: "commit_turn_input_with_conversation now m json e i cr cf db = Inr (rv, db')"
      using ok by (auto simp: res_simps)
    then obtain out db1 where o1: "commit_message_locked now m (Some json) e db = Inr (out, db1)"
      "chats db' = chats db1" using commit_turn_input_message by blast
    have "turn_progress db db'" using inv o by (rule commit_turn_input_progress(1))
    then show ?thesis
      using inv turn_progress_inv commit_message_revision [OF c o1(1)] revision_of_cong [OF o1(2)]
        WriteInput by auto
  qed
  then show "store_inv db'" "e = Some n \<Longrightarrow> n = revision_of (conv_chat r) db"
    "revision_of k db' = revision_of k db + (if k = conv_chat r \<and> conv_advances r db then 1 else 0)"
    by auto
qed

interpretation conversations: revision_cas revision_of conv_commit conv_chat conv_advances store_inv
proof
  fix db db' r e n k
  assume inv: "store_inv db"
  show "conv_commit r (Some n) db = Inr db' \<Longrightarrow> n = revision_of (conv_chat r) db"
    using conv_commit_facts(2) [OF inv] by blast
  show "conv_commit r e db = Inr db' \<Longrightarrow> store_inv db'"
    using conv_commit_facts(1) [OF inv] by blast
  show "conv_commit r e db = Inr db' \<Longrightarrow> revision_of k db \<le> revision_of k db'"
    using conv_commit_facts(3) [OF inv] by simp
  show "conv_commit r e db = Inr db' \<Longrightarrow> conv_advances r db \<Longrightarrow>
      revision_of (conv_chat r) db < revision_of (conv_chat r) db'"
    using conv_commit_facts(3) [OF inv] by simp
qed


section \<open>Failing succeeds when the failure entry is free\<close>

lemma record_failure_total:
  assumes "chat_inv db" "find_turn i db = Some t"
    "find_message (turn_failure_message_id i) (tr_chat_id t) db = None"
  shows "record_turn_failure_message_locked now i pub db =
    Inr ((), commit_fresh now (turn_failure_message now (tr_chat_id t) i pub) None db)"
proof -
  let ?m = "turn_failure_message now (tr_chat_id t) i pub"
  have "msg_id ?m = turn_failure_message_id i" "msg_chat_id ?m = tr_chat_id t"
    by (simp_all add: turn_failure_message_def stored_message_system_def stored_message_new_def)
  then show ?thesis
    using assms(2,3)
    by (simp add: record_turn_failure_message_locked_def commit_message_locked_eq [OF assms(1)]
        cas_ok_def)
qed

lemma find_message_cong: "messages db' = messages db \<Longrightarrow> find_message i c db' = find_message i c db"
  by (simp add: find_message_def)

lemma record_set_failed_total:
  assumes inv: "store_inv db" and t: "find_turn i db = Some t"
    and m: "find_message (turn_failure_message_id i) (tr_chat_id t) db = None"
  shows "\<exists>db'. record_turn_failure_message_locked now i pub (set_failed now i to k d db) = Inr ((), db') \<and>
    turn_runs db' = turn_runs (set_failed now i to k d db) \<and>
    messages db' = messages db @ [message_to_row (turn_failure_message now (tr_chat_id t) i pub)
      (Some (next_seq_of (tr_chat_id t) db))]"
proof -
  let ?db1 = "set_failed now i to k d db"
  have c: "chat_inv ?db1" using store_invD(2) [OF inv] by (simp add: set_failed_def)
  obtain t' where f: "find_turn i ?db1 = Some t'" "tr_chat_id t' = tr_chat_id t"
    using t by (auto simp: set_failed_def find_update_turn)
  have m1: "find_message (turn_failure_message_id i) (tr_chat_id t') ?db1 = None"
    using m f(2) find_message_cong [of ?db1 db] by (simp add: set_failed_def)
  let ?m = "turn_failure_message now (tr_chat_id t') i pub"
  have mc: "msg_chat_id ?m = tr_chat_id t"
    using f(2) by (simp add: turn_failure_message_def stored_message_system_def stored_message_new_def)
  have "next_seq_of c ?db1 = next_seq_of c db" for c
    by (simp add: next_seq_of_def chat_of_def set_failed_def)
  then have "messages (commit_fresh now ?m None ?db1) = messages db @
      [message_to_row ?m (Some (next_seq_of (tr_chat_id t) db))]"
    using mc by (simp add: insert_row_def) (simp add: set_failed_def)
  moreover have "turn_runs (commit_fresh now ?m None ?db1) = turn_runs ?db1"
    using commit_fresh_frame conv_frame_turns by blast
  ultimately show ?thesis
    using record_failure_total [OF c f(1) m1] f(2) by simp
qed

lemma fail_turn_total:
  assumes inv: "store_inv db" and s: "turn_status db i = Some s" and t: "find_turn i db = Some t"
    and ns: "\<not> is_terminal s"
    and m: "find_message (turn_failure_message_id i) (tr_chat_id t) db = None"
    and to: "to \<in> {Failed, Uncertain}"
  shows "\<exists>db'. fail_turn now i to failure db = Inr ((), db') \<and>
    turn_runs db' = turn_runs (set_failed now i to (tf_kind failure) (tf_diagnostic failure) db) \<and>
    messages db' = messages db @ [message_to_row
      (turn_failure_message now (tr_chat_id t) i (tf_public failure))
      (Some (next_seq_of (tr_chat_id t) db))]"
proof -
  have "read_state_locked i db = Inr s" using s by (simp add: read_state_iff)
  then have "fail_turn now i to failure db = record_turn_failure_message_locked now i
      (tf_public failure) (set_failed now i to (tf_kind failure) (tf_diagnostic failure) db)"
    using to ns by (auto simp: fail_turn_def)
  then show ?thesis using record_set_failed_total [OF inv t m] by simp
qed

section \<open>Sample run\<close>

definition sample_params :: accept_turn_params where
  "sample_params =
     \<lparr>atp_chat_id = 7, atp_request_key = ''k'', atp_config_revision = 0,
      atp_config_fingerprint = None, atp_request_payload_hash = ''h'', atp_origin_id = None,
      atp_scheduled_request_json = Some ''{}''\<rparr>"

definition sample_accepted :: database where
  "sample_accepted = accepted ''t0'' ''T'' sample_params empty_database"

lemma sample_accept:
  "accept_or_get_turn ''t0'' ''T'' sample_params empty_database =
     Inr (Created (turn_of_row (accepted_row ''t0'' ''T'' sample_params) Accepted), sample_accepted)"
  by (subst accept_new)
    (simp_all add: empty_database_def find_turn_def sample_accepted_def
      MAX_DURABLE_PENDING_PER_SESSION_def MAX_DURABLE_PENDING_PER_SCOPE_def)

lemma sample_run: "store_step\<^sup>*\<^sup>* empty_database sample_accepted"
  using step_accept [OF sample_accept] by blast

lemma sample_accepted_runs: "turn_runs sample_accepted = [accepted_row ''t0'' ''T'' sample_params]"
  by (simp add: sample_accepted_def accepted_def insert_row_def empty_database_def)

lemma sample_accepted_inv: "store_inv sample_accepted"
  using sample_run store_inv_empty by (rule turn_life.run_invar)

definition sample_failure :: turn_failure where
  "sample_failure = turn_failure_shared ''model_error'' ''failed''"

lemma sample_fail:
  "\<exists>db. fail_turn ''t1'' ''T'' Failed sample_failure sample_accepted = Inr ((), db) \<and>
    store_step\<^sup>*\<^sup>* empty_database db \<and>
    (\<exists>t. turn_runs db = [t] \<and> tr_turn_id t = ''T'' \<and> tr_state t = ''failed'')"
proof -
  let ?t = "accepted_row ''t0'' ''T'' sample_params"
  have f: "find_turn ''T'' sample_accepted = Some ?t"
    by (simp add: find_turn_def sample_accepted_runs)
  have s: "turn_status sample_accepted ''T'' = Some Accepted"
    using f by (auto simp: turn_status_Some_iff)
  have m: "find_message i c sample_accepted = None" for i c
    by (simp add: find_message_def sample_accepted_def accepted_def empty_database_def)
  obtain db where db: "fail_turn ''t1'' ''T'' Failed sample_failure sample_accepted = Inr ((), db)"
    "turn_runs db = turn_runs (set_failed ''t1'' ''T'' Failed (tf_kind sample_failure)
       (tf_diagnostic sample_failure) sample_accepted)"
    using fail_turn_total [OF sample_accepted_inv s f _ m] by fastforce
  have "store_step\<^sup>*\<^sup>* empty_database db"
    using sample_run step_fail [OF db(1)] by (rule rtranclp.rtrancl_into_rtrancl)
  moreover have "\<exists>t. turn_runs db = [t] \<and> tr_turn_id t = ''T'' \<and> tr_state t = ''failed''"
    by (simp add: db(2) set_failed_def update_turn_def sample_accepted_runs)
  ultimately show ?thesis using db(1) by blast
qed


section \<open>Properties of runs\<close>

text \<open>
  C15: Whatever operations run on a fresh database, the durable queue stays within its
  capacities (at most 512 queued Turns in the database, 32 of one chat), no Turn id is used
  twice, and no request key of a chat is accepted twice.
\<close>

theorem durable_queue_bounded:
  assumes "store_step\<^sup>*\<^sup>* empty_database db"
  shows "count_durable_pending db \<le> 512 \<and>
    count_rows (\<lambda>t. tr_chat_id t = c \<and> pending_row t) (turn_runs db) \<le> 32 \<and>
    distinct (map tr_turn_id (turn_runs db)) \<and>
    distinct (map (\<lambda>t. (tr_chat_id t, tr_request_key t)) (turn_runs db))"
proof -
  have "store_inv db" using assms store_inv_empty by (rule turn_life.run_invar)
  then have "within_capacity (turn_runs db)" "turn_keys_ok (turn_runs db)"
    by (simp_all add: store_inv_def turn_inv_def)
  then show ?thesis
    by (simp add: within_capacity_def turn_keys_ok_def count_durable_pending_def
        MAX_DURABLE_PENDING_PER_SESSION_def MAX_DURABLE_PENDING_PER_SCOPE_def)
qed

theorem durable_queue_bounded_witness:
  "count_durable_pending sample_accepted = 1 \<and> count_durable_pending sample_accepted \<le> 512"
  using durable_queue_bounded [OF sample_run]
  by (simp add: count_durable_pending_def sample_accepted_runs)

text \<open>
  C1: In every database the operations can reach from a fresh one, a Turn that ended as failed
  or uncertain has its failure entry in the committed history of its chat, as a turn-failure
  message of that Turn, and the entry is never part of the context given to the model.
\<close>

theorem failed_turn_is_visible:
  assumes "store_step\<^sup>*\<^sup>* empty_database db" "t \<in> set (turn_runs db)"
    "tr_state t = turn_run_state_display Failed \<or> tr_state t = turn_run_state_display Uncertain"
  shows "\<exists>m \<in> set (committed_history (tr_chat_id t) db).
    msg_id m = turn_failure_message_id (tr_turn_id t) \<and> msg_turn_id m = Some (tr_turn_id t) \<and>
    msg_message_kind m = TurnFailureMsg \<and>
    (\<exists>ctx. get_recent_context_messages (tr_chat_id t) n db = Inr ctx \<and> m \<notin> set ctx)"
proof -
  have inv: "store_inv db" using assms(1) store_inv_empty by (rule turn_life.run_invar)
  then obtain r where r: "r \<in> set (messages db)" "failure_entry t r"
    using assms(2,3) unfolding store_inv_def visible_failures_def failed_row_def by auto
  note ci = store_invD(2) [OF inv]
  have ok: "message_row_ok r" using chat_invD(4) [OF ci r(1)] .
  have m: "stored_of r \<in> set (committed_history (tr_chat_id t) db)"
    using r by (auto simp: committed_history_def committed_of_def failure_entry_def)
  have k: "msg_message_kind (stored_of r) = TurnFailureMsg"
    using stored_of_fields(5) [OF ok] r(2) message_kind_display_eq_iff
    by (metis failure_entry_def)
  have "stored_of r \<notin> set (last_n n (filter (\<lambda>m. msg_message_kind m \<noteq> TurnFailureMsg)
      (committed_history (tr_chat_id t) db)))"
    using k by (auto simp: last_n_def dest: in_set_dropD)
  with m k r(2) show ?thesis
    by (intro bexI [OF _ m])
      (simp add: get_recent_context_history [OF ci] stored_of_fields [OF ok] failure_entry_def)
qed

theorem failed_turn_is_visible_witness:
  "\<exists>db t. fail_turn ''t1'' ''T'' Failed sample_failure sample_accepted = Inr ((), db) \<and>
     turn_runs db = [t] \<and> (\<exists>m \<in> set (committed_history (tr_chat_id t) db).
       msg_id m = turn_failure_message_id ''T'')"
proof -
  obtain db t where db: "fail_turn ''t1'' ''T'' Failed sample_failure sample_accepted = Inr ((), db)"
    "store_step\<^sup>*\<^sup>* empty_database db" "turn_runs db = [t]" "tr_turn_id t = ''T''"
    "tr_state t = ''failed''"
    using sample_fail by blast
  then show ?thesis using failed_turn_is_visible [OF db(2), of t] by auto
qed

text \<open>
  C2: A Turn follows the central transition rule through any run of the store: the state it
  has later is reachable from the state it had, and a terminal state is never left.
\<close>

theorem turn_lifecycle:
  assumes "store_inv db" "turn_status db i = Some s" "store_step\<^sup>*\<^sup>* db db'"
  shows "\<exists>s'. turn_status db' i = Some s' \<and> can_transition\<^sup>*\<^sup>* s s' \<and> (is_terminal s \<longrightarrow> s' = s)"
proof -
  obtain s' where "turn_status db' i = Some s'" "can_transition\<^sup>*\<^sup>* s s'"
    using turn_life.run_status [OF assms(3,1,2)] by blast
  moreover have "is_terminal s \<Longrightarrow> turn_status db' i = Some s"
    by (rule turn_life.run_final [OF assms(3,1,2)])
  ultimately show ?thesis by auto
qed

theorem turn_lifecycle_witness:
  "\<exists>db. fail_turn ''t1'' ''T'' Failed sample_failure sample_accepted = Inr ((), db) \<and>
     (\<exists>s'. turn_status db ''T'' = Some s' \<and> can_transition\<^sup>*\<^sup>* Accepted s')"
proof -
  obtain db where db: "fail_turn ''t1'' ''T'' Failed sample_failure sample_accepted = Inr ((), db)"
    using sample_fail by blast
  have "turn_status sample_accepted ''T'' = Some Accepted"
    by (auto simp: turn_status_Some_iff find_turn_def sample_accepted_runs)
  from turn_lifecycle [OF sample_accepted_inv this] step_fail [OF db] db show ?thesis by blast
qed

lemma accept_created:
  assumes ok: "accept_or_get_turn now i p db = Inr (Created t, db')" and fresh: "find_turn i db = None"
  shows "t = turn_of_row (accepted_row now i p) Accepted" "db' = accepted now i p db"
proof -
  have "find_row (same_request (atp_chat_id p) (atp_request_key p)) (turn_runs db) = None"
  proof (rule ccontr)
    assume n: "find_row (same_request (atp_chat_id p) (atp_request_key p)) (turn_runs db) \<noteq> None"
    then obtain r where r: "find_row (same_request (atp_chat_id p) (atp_request_key p)) (turn_runs db) = Some r"
      by auto
    then have "r \<in> set (turn_runs db)" by (auto dest: find_row_Some)
    then have "tr_turn_id r \<noteq> i" using fresh by (auto simp: find_turn_def find_row_None_iff)
    then show False using ok r
      by (auto simp: accept_or_get_turn_def Let_def res_simps exists_row_find count_rows_find
          read_turn_run_def split: if_splits option.splits)
  qed
  from ok [unfolded accept_new [OF this]]
  show "t = turn_of_row (accepted_row now i p) Accepted" "db' = accepted now i p db"
    by (auto split: if_splits)
qed

text \<open>
  C14: A request is accepted exactly once: after its Turn was created, and whatever ran in
  between, a re-delivery under the same key and payload returns that Turn and changes nothing,
  even when the queue is full, and one with another payload is refused.
\<close>

theorem accept_exactly_once:
  assumes inv: "store_inv db" and ok: "accept_or_get_turn now i p db = Inr (Created t, db1)"
    and fresh: "find_turn i db = None" and run: "store_step\<^sup>*\<^sup>* db1 db2"
    and key: "atp_chat_id q = atp_chat_id p" "atp_request_key q = atp_request_key p"
    and other: "j \<noteq> i"
  shows "if atp_request_payload_hash q = atp_request_payload_hash p
    then \<exists>t'. accept_or_get_turn now' j q db2 = Inr (Existing t', db2) \<and> tr_turn_id t' = tr_turn_id t
    else \<exists>e. accept_or_get_turn now' j q db2 = Inl (Conflict e)"
proof -
  note c = accept_created [OF ok fresh]
  have inv1: "store_inv db1" using accept_step [OF inv ok] by blast
  have inv2: "store_inv db2" using run inv1 by (rule turn_life.run_invar)
  have "accepted_row now i p \<in> set (turn_runs db1)" by (simp add: c(2) accepted_def row_simps)
  from run_keeps_key [OF run inv1 this] obtain r
    where r: "r \<in> set (turn_runs db2)" "same_turn_key (accepted_row now i p) r" by blast
  then have k: "tr_chat_id r = atp_chat_id q" "tr_request_key r = atp_request_key q"
    "tr_turn_id r = i" "tr_request_payload_hash r = Some (atp_request_payload_hash p)"
    using key by (simp_all add: same_turn_key_def) (simp add: accepted_row_def)
  have s: "tr_state r = turn_run_state_display (row_state r)"
    using status_of_member(1) [OF inv2 r(1)] by (rule row_state_display)
  have f: "find_row (same_request (atp_chat_id q) (atp_request_key q)) (turn_runs db2) = Some r"
    using request_unique [OF inv2 r(1)] k by simp
  show ?thesis
    using accept_existing [OF f s, of j now'] other k c(1) by simp
qed

theorem accept_exactly_once_witness:
  "\<exists>t'. accept_or_get_turn ''t9'' ''U'' sample_params sample_accepted =
     Inr (Existing t', sample_accepted) \<and> tr_turn_id t' = ''T''"
  using accept_exactly_once [OF store_inv_empty sample_accept _ rtranclp.rtrancl_refl refl refl,
      of "''U''" "''t9''"]
  by (simp add: find_turn_def empty_database_def)



text \<open>
  Starting a model iteration is an exclusive right: it succeeds only from a committed
  input, a completed model answer or completed tools, it always reports ownership (the answer
  that another executor owns the Turn never occurs), and a second start before the first
  model call ended is refused as a conflict.
\<close>

theorem begin_model_exclusive:
  assumes inv: "store_inv db" and ok: "begin_turn_model_iteration now i n h db = Inr (owned, db')"
  shows "owned \<and>
    turn_status db i \<in> {Some InputCommitted, Some ModelCompleted, Some ToolsCompleted} \<and>
    turn_status db' i = Some ModelPending \<and>
    begin_turn_model_iteration now' i n' h' db' =
      Inl (Conflict ''begin_model_iteration rejected from state model_pending'')"
proof -
  have "turn_status db' i = Some ModelPending" using inv ok by (rule begin_model_progress(2))
  moreover from this have "read_state_locked i db' = Inr ModelPending" by (simp add: read_state_iff)
  ultimately show ?thesis
    using begin_model_ok [OF inv ok] by (auto simp: begin_turn_model_iteration_def)
qed


lemma sample_db_store_inv:
  assumes "s \<notin> {Failed, Uncertain}"
  shows "store_inv (sample_db s)"
proof -
  have "turn_inv (sample_db s)"
    unfolding turn_inv_def turn_keys_ok_def within_capacity_def turn_row_ok_def
    by (auto simp: MAX_DURABLE_PENDING_PER_SESSION_def MAX_DURABLE_PENDING_PER_SCOPE_def)
      (simp_all add: sample_db_def sample_turn_def)
  moreover have "staged_only (sample_db s)"
    by (auto simp: staged_only_def staged_user_def sample_defs message_to_row_def)
  moreover have "visible_failures (sample_db s)"
    using assms by (auto simp: visible_failures_def sample_db_def sample_turn_def
        failed_row_iff [where s = s])
  ultimately show ?thesis by (simp add: store_inv_def)
qed

lemma sample_db_status: "turn_status (sample_db s) ''turn-1'' = Some s"
  by (auto simp: turn_status_Some_iff find_turn_def sample_db_def sample_turn_def)

theorem begin_model_exclusive_witness:
  "\<exists>db'. begin_turn_model_iteration ''t2'' ''turn-1'' 1 ''h'' (sample_db InputCommitted) = Inr (True, db') \<and>
     begin_turn_model_iteration ''t3'' ''turn-1'' 1 ''h'' db' =
       Inl (Conflict ''begin_model_iteration rejected from state model_pending'')"
proof -
  have inv: "store_inv (sample_db InputCommitted)" by (rule sample_db_store_inv) simp
  have "read_state_locked ''turn-1'' (sample_db InputCommitted) = Inr InputCommitted"
    by (simp add: read_state_iff sample_db_status)
  then obtain b db' where ok: "begin_turn_model_iteration ''t2'' ''turn-1'' 1 ''h''
      (sample_db InputCommitted) = Inr (b, db')"
    by (auto simp: begin_turn_model_iteration_def Let_def sample_db_def sample_turn_def)
  moreover from begin_model_exclusive [OF inv ok] have "b" by blast
  ultimately show ?thesis
    using begin_model_exclusive [OF inv ok, of "''t3''" 1 "''h''"] by auto
qed

section \<open>Start-up recovery\<close>

text \<open>No conversation already holds the id under which a Turn's failure would be recorded.\<close>

definition failure_ids_free :: "database \<Rightarrow> bool" where
  "failure_ids_free db =
     (\<forall>t \<in> set (turn_runs db). interrupted_row t \<longrightarrow>
        find_message (turn_failure_message_id (tr_turn_id t)) (tr_chat_id t) db = None)"

definition row_free :: "database \<Rightarrow> turn_row \<Rightarrow> bool" where
  "row_free db r =
     (turn_row_ok r \<and> turn_status db (tr_turn_id r) = Some (row_state r) \<and>
      (\<exists>t. find_turn (tr_turn_id r) db = Some t \<and> tr_chat_id t = tr_chat_id r) \<and>
      find_message (turn_failure_message_id (tr_turn_id r)) (tr_chat_id r) db = None)"

lemma recover_row_total:
  assumes inv: "store_inv db" and r: "row_free db r"
  shows "\<exists>rec' db'. recover_row now r (rec, db) = Inr (rec', db') \<and>
    (messages db' = messages db \<or> (\<exists>x. messages db' = messages db @ [x] \<and>
       msg_id x = turn_failure_message_id (tr_turn_id r)))"
proof -
  let ?s = "row_state r"
  have p: "map_err (\<lambda>e. Conflict (''invalid turn_runs.state: '' @ e))
      (turn_run_state_from_str (tr_state r)) = Inr ?s"
    using r row_state_display [of r] by (simp add: row_free_def map_err_def)
  show ?thesis
  proof (cases "tr_scheduled_request_json r \<noteq> None \<and> ?s \<in> {Accepted, InputCommitted, ToolsCompleted} \<or>
      recovery_action ?s (tr_request_payload_hash r) = None")
    case True
    then have "recover_row now r (rec, db) = Inr (rec, db)"
      using p by (auto simp: recover_row_def)
    then show ?thesis by blast
  next
    case False
    then obtain to k d where a: "recovery_action ?s (tr_request_payload_hash r) = Some (to, k, d)"
      by auto
    obtain t where t: "find_turn (tr_turn_id r) db = Some t" "tr_chat_id t = tr_chat_id r"
      using r by (auto simp: row_free_def)
    have "find_message (turn_failure_message_id (tr_turn_id r)) (tr_chat_id t) db = None"
      using r t(2) by (simp add: row_free_def)
    from record_set_failed_total [OF inv t(1) this, where now = now and to = to and k = k and d = d and
        pub = "if to = Uncertain then TURN_UNCERTAIN_PUBLIC_MESSAGE else TURN_INTERRUPTED_PUBLIC_MESSAGE"]
    obtain db' x where db': "record_turn_failure_message_locked now (tr_turn_id r)
        (if to = Uncertain then TURN_UNCERTAIN_PUBLIC_MESSAGE else TURN_INTERRUPTED_PUBLIC_MESSAGE)
        (set_failed now (tr_turn_id r) to k d db) = Inr ((), db')"
      "messages db' = messages db @ [x]" "msg_id x = turn_failure_message_id (tr_turn_id r)"
      by (auto simp: turn_failure_message_def)
    then show ?thesis using a p False by (auto simp: recover_row_def)
  qed
qed

lemma find_message_append:
  "messages db' = messages db @ [x] \<Longrightarrow> msg_id x \<noteq> i \<Longrightarrow> find_message i c db' = find_message i c db"
  by (simp add: find_message_def find_row_append has_message_key_def split: option.split)

lemma recover_rows_total:
  assumes "store_inv db" "distinct (map tr_turn_id rows)" "\<forall>r \<in> set rows. row_free db r"
  shows "\<exists>rec' db'. rfold (recover_row now) rows (rec, db) = Inr (rec', db')"
  using assms
proof (induction rows arbitrary: rec db)
  case Nil
  then show ?case by simp
next
  case (Cons r rows)
  have rf: "row_free db r" using Cons.prems(3) by simp
  from recover_row_total [OF Cons.prems(1) this, of now rec] obtain rec1 db1 where r1:
    "recover_row now r (rec, db) = Inr (rec1, db1)"
    "messages db1 = messages db \<or> (\<exists>x. messages db1 = messages db @ [x] \<and>
       msg_id x = turn_failure_message_id (tr_turn_id r))" by blast
  have s: "turn_status db (tr_turn_id r) = Some (row_state r)"
    "tr_state r = turn_run_state_display (row_state r)"
    using rf row_state_display by (auto simp: row_free_def)
  note st = recover_row_step [OF Cons.prems(1) s r1(1)]
  have inv1: "store_inv db1" using Cons.prems(1) st(1) by (rule store_progress_inv)
  have "row_free db1 x" if x: "x \<in> set rows" for x
  proof -
    have old: "row_free db x" using Cons.prems(3) x by simp
    have ne: "tr_turn_id x \<noteq> tr_turn_id r" using Cons.prems(2) x by (auto simp: image_iff)
    then have "find_message (turn_failure_message_id (tr_turn_id x)) (tr_chat_id x) db1 = None"
      using old r1(2) find_message_cong [of db1 db] find_message_append [of db1 db]
      by (auto simp: row_free_def turn_failure_message_id_def)
    moreover obtain t where t: "find_turn (tr_turn_id x) db = Some t" "tr_chat_id t = tr_chat_id x"
      using old by (auto simp: row_free_def)
    obtain t' where "find_turn (tr_turn_id x) db1 = Some t'" "row_evolves t t'"
      using turns_evolve_find [OF _ t(1)] st(1) unfolding turn_progress_def by blast
    then have "\<exists>t. find_turn (tr_turn_id x) db1 = Some t \<and> tr_chat_id t = tr_chat_id x"
      using t(2) by (auto simp: row_evolves_def same_turn_key_def)
    ultimately show ?thesis using old st(2) [of "tr_turn_id x"] ne by (simp add: row_free_def)
  qed
  then obtain rec' db' where "rfold (recover_row now) rows (rec1, db1) = Inr (rec', db')"
    using Cons.IH [OF inv1] Cons.prems(2) by fastforce
  with r1(1) show ?case by simp
qed

lemma recover_rows_idle:
  assumes "\<And>r. r \<in> set rows \<Longrightarrow> turn_row_ok r \<and> tr_scheduled_request_json r \<noteq> None \<and>
    row_state r \<in> {Accepted, InputCommitted, ToolsCompleted}"
  shows "rfold (recover_row now) rows (rec, db) = Inr (rec, db)"
  using assms
proof (induction rows)
  case (Cons r rows)
  have "turn_row_ok r" using Cons.prems by simp
  then have "map_err (\<lambda>e. Conflict (''invalid turn_runs.state: '' @ e))
      (turn_run_state_from_str (tr_state r)) = Inr (row_state r)"
    using row_state_display [of r] by (simp add: map_err_def)
  then have "recover_row now r (rec, db) = Inr (rec, db)"
    using Cons.prems [of r] by (auto simp: recover_row_def)
  with Cons.IH Cons.prems show ?case by simp
qed simp

lemma recovered_state_settled:
  "is_terminal (recovered_state t s) \<or>
   (tr_scheduled_request_json t \<noteq> None \<and> recovered_state t s = s \<and>
    s \<in> {Accepted, InputCommitted, ToolsCompleted})"
  by (cases s) (auto simp: recovered_state_def)

lemma turn_progress_rows_back:
  assumes "store_inv db" "turn_progress db db'" "t' \<in> set (turn_runs db')"
  shows "\<exists>t \<in> set (turn_runs db). row_evolves t t'"
  using assms(2,3) turns_evolve_set unfolding turn_progress_def by blast

lemma recover_settled:
  assumes inv: "store_inv db" and ok: "recover_interrupted_turns now db = Inr (rec, db')"
    and t': "t' \<in> set (turn_runs db')"
  shows "turn_row_ok t' \<and> (is_terminal (row_state t') \<or>
    (tr_scheduled_request_json t' \<noteq> None \<and> row_state t' \<in> {Accepted, InputCommitted, ToolsCompleted}))"
proof -
  note R = recover_interrupted_spec [OF inv ok]
  have inv': "store_inv db'" using inv R(1) by (rule store_progress_inv)
  obtain t where t: "t \<in> set (turn_runs db)" "row_evolves t t'"
    using turn_progress_rows_back [OF inv R(1) t'] by blast
  have "turn_status db' (tr_turn_id t) = Some (recovered_state t (row_state t))" using R(2) t(1) by blast
  then have "row_state t' = recovered_state t (row_state t)"
    using status_of_member(2) [OF inv' t'] t(2) by (simp add: row_evolves_def same_turn_key_def)
  then show ?thesis
    using recovered_state_settled [of t "row_state t"] status_of_member(1) [OF inv' t'] t(2)
    by (auto simp: row_evolves_def same_turn_key_def)
qed



end
