(* ===== verification/Turn_Tracker.thy ===== *)
theory Turn_Tracker
  imports Turn_Runs "HOL-Library.AList"
begin

text \<open>
  The origin tracker of \<open>src/src/runtime/turn/scheduler.rs\<close>: per human input, the number of
  Turns that began executing, the open reservations and the reason the chain stopped. Each
  method runs under one lock, so it is a function on the table of origins; the clock is an
  argument, in nanoseconds. The theory gives the methods, their invariant, the bound of twelve
  executions per chain over any interleaving, and that a terminated chain stays terminated.
\<close>

section \<open>Stop and reject reasons\<close>

datatype stop_reason = ChainDepthExceeded | TurnCountExceeded | AgentNotFound | LlmFailure

fun stop_reason_display :: "stop_reason \<Rightarrow> string" where
  "stop_reason_display ChainDepthExceeded = ''chain_depth_exceeded''"
| "stop_reason_display TurnCountExceeded = ''turn_count_exceeded''"
| "stop_reason_display AgentNotFound = ''agent_not_found''"
| "stop_reason_display LlmFailure = ''llm_failure''"

definition stop_reason_from_str :: "string \<Rightarrow> string + stop_reason" where
  "stop_reason_from_str s =
     (if s = ''chain_depth_exceeded'' then Inr ChainDepthExceeded
      else if s = ''turn_count_exceeded'' then Inr TurnCountExceeded
      else if s = ''agent_not_found'' then Inr AgentNotFound
      else if s = ''llm_failure'' then Inr LlmFailure
      else Inl (''unknown StopReason: '' @ s))"

lemma stop_reason_roundtrip [simp]: "stop_reason_from_str (stop_reason_display r) = Inr r"
  by (cases r) (simp_all add: stop_reason_from_str_def)

datatype reject_reason =
    SessionQueueFull
  | GlobalQueueFull
  | RequestConflict
  | OriginTrackerFull
  | ChainTerminated
  | Shutdown
  | Internal

fun reject_reason_as_str :: "reject_reason \<Rightarrow> string" where
  "reject_reason_as_str SessionQueueFull = ''session_queue_full''"
| "reject_reason_as_str GlobalQueueFull = ''global_queue_full''"
| "reject_reason_as_str RequestConflict = ''request_conflict''"
| "reject_reason_as_str OriginTrackerFull = ''tracker_full''"
| "reject_reason_as_str ChainTerminated = ''chain_terminated''"
| "reject_reason_as_str Shutdown = ''shutdown''"
| "reject_reason_as_str Internal = ''internal''"

fun reject_reason_message :: "reject_reason \<Rightarrow> string" where
  "reject_reason_message SessionQueueFull = ''session turn queue is at capacity''"
| "reject_reason_message GlobalQueueFull = ''global turn queue is at capacity''"
| "reject_reason_message RequestConflict = ''request id was already used for different input''"
| "reject_reason_message OriginTrackerFull = ''origin turn tracker is at capacity''"
| "reject_reason_message ChainTerminated = ''turn chain already terminated''"
| "reject_reason_message Shutdown = ''runtime is shutting down''"
| "reject_reason_message Internal = ''internal error during turn acceptance''"

section \<open>Limits\<close>

definition MAX_AGENT_CHAIN_DEPTH :: nat where
  "MAX_AGENT_CHAIN_DEPTH = 4"

definition MAX_AGENT_TURNS_PER_INPUT :: nat where
  "MAX_AGENT_TURNS_PER_INPUT = 12"

definition MAX_TRACKED_ORIGINS :: nat where
  "MAX_TRACKED_ORIGINS = 4096"

definition ORIGIN_TTL :: nat where
  "ORIGIN_TTL = 24 * 60 * 60 * 1000000000"

definition evaluate_stop_conditions ::
  "nat \<Rightarrow> nat \<Rightarrow> string \<Rightarrow> string list \<Rightarrow> stop_reason option" where
  "evaluate_stop_conditions chain_depth turn_count agent_id valid_agent_ids =
     (if chain_depth > MAX_AGENT_CHAIN_DEPTH then Some ChainDepthExceeded
      else if turn_count > MAX_AGENT_TURNS_PER_INPUT then Some TurnCountExceeded
      else if agent_id \<notin> set valid_agent_ids then Some AgentNotFound
      else None)"

section \<open>The tracker\<close>

record origin_state =
  os_executed :: nat
  os_pending :: nat
  os_terminal :: "stop_reason option"
  os_touched :: nat

type_synonym tracker = "(string \<times> origin_state) list"

text \<open>An instant before \<open>last_touched\<close> has no elapsed time and is never stale.\<close>

definition stale :: "nat \<Rightarrow> origin_state \<Rightarrow> bool" where
  "stale now s = (os_touched s \<le> now \<and> now - os_touched s > ORIGIN_TTL)"

definition prune_stale_locked :: "nat \<Rightarrow> tracker \<Rightarrow> tracker" where
  "prune_stale_locked now t = filter (\<lambda>(_, s). \<not> stale now s) t"

definition new_origin :: "nat \<Rightarrow> origin_state" where
  "new_origin now = \<lparr>os_executed = 0, os_pending = 0, os_terminal = None, os_touched = now\<rparr>"

text \<open>\<open>entry(origin_id).or_insert(...)\<close>\<close>

definition origin_entry :: "nat \<Rightarrow> string \<Rightarrow> tracker \<Rightarrow> origin_state" where
  "origin_entry now origin_id t =
     (case map_of t origin_id of Some s \<Rightarrow> s | None \<Rightarrow> new_origin now)"

definition reserve :: "nat \<Rightarrow> string \<Rightarrow> tracker \<Rightarrow> (reject_reason + unit) \<times> tracker" where
  "reserve now origin_id t0 =
     (let t = prune_stale_locked now t0 in
      case map_of t origin_id of
        Some s \<Rightarrow>
          if os_terminal s \<noteq> None then (Inl ChainTerminated, t)
          else (Inr (), AList.update origin_id
            (s\<lparr>os_pending := os_pending s + 1, os_touched := now\<rparr>) t)
      | None \<Rightarrow>
          if length t \<ge> MAX_TRACKED_ORIGINS then (Inl OriginTrackerFull, t)
          else (Inr (), AList.update origin_id ((new_origin now)\<lparr>os_pending := 1\<rparr>) t))"

definition release :: "string \<Rightarrow> tracker \<Rightarrow> tracker" where
  "release origin_id t =
     (case map_of t origin_id of
        None \<Rightarrow> t
      | Some s \<Rightarrow>
          (let s' = s\<lparr>os_pending := os_pending s - 1\<rparr>
           in if os_pending s' = 0 \<and> os_executed s' = 0 \<and> os_terminal s' = None
              then AList.delete origin_id t
              else AList.update origin_id s' t))"

definition try_begin_execution ::
  "nat \<Rightarrow> string \<Rightarrow> nat \<Rightarrow> string \<Rightarrow> string list \<Rightarrow> tracker \<Rightarrow> (stop_reason + nat) \<times> tracker" where
  "try_begin_execution now origin_id chain_depth agent_id valid_agent_ids t0 =
     (let t = prune_stale_locked now t0;
          s = (origin_entry now origin_id t)\<lparr>os_touched := now\<rparr>;
          released = s\<lparr>os_pending := os_pending s - 1\<rparr>
      in case os_terminal s of
           Some existing \<Rightarrow> (Inl existing, AList.update origin_id released t)
         | None \<Rightarrow>
             (let prospective = os_executed s + 1 in
              case evaluate_stop_conditions chain_depth prospective agent_id valid_agent_ids of
                Some reason \<Rightarrow>
                  (Inl reason, AList.update origin_id (released\<lparr>os_terminal := Some reason\<rparr>) t)
              | None \<Rightarrow>
                  (Inr prospective,
                   AList.update origin_id (released\<lparr>os_executed := prospective\<rparr>) t)))"

definition try_resume_execution :: "nat \<Rightarrow> string \<Rightarrow> tracker \<Rightarrow> (stop_reason + unit) \<times> tracker" where
  "try_resume_execution now origin_id t0 =
     (let t = prune_stale_locked now t0;
          s = (origin_entry now origin_id t)\<lparr>os_touched := now\<rparr>
      in (case os_terminal s of Some reason \<Rightarrow> Inl reason | None \<Rightarrow> Inr (),
          AList.update origin_id s t))"

definition set_terminal_reason :: "nat \<Rightarrow> string \<Rightarrow> stop_reason \<Rightarrow> tracker \<Rightarrow> tracker" where
  "set_terminal_reason now origin_id reason t0 =
     (let t = prune_stale_locked now t0
      in AList.update origin_id
           ((origin_entry now origin_id t)\<lparr>os_terminal := Some reason, os_touched := now\<rparr>) t)"

definition terminal_reason :: "nat \<Rightarrow> string \<Rightarrow> tracker \<Rightarrow> stop_reason option \<times> tracker" where
  "terminal_reason now origin_id t0 =
     (let t = prune_stale_locked now t0
      in (Option.bind (map_of t origin_id) os_terminal, t))"

text \<open>A stored reason that does not parse is logged and ignored.\<close>

definition rehydrate_one :: "nat \<Rightarrow> recovered_origin \<Rightarrow> tracker \<Rightarrow> tracker" where
  "rehydrate_one now r t =
     (let s = (origin_entry now (ro_origin_id r) t)
                \<lparr>os_executed := ro_executed_turn_count r, os_touched := now\<rparr>;
          s' = (case ro_terminal_reason r of
                  None \<Rightarrow> s
                | Some text \<Rightarrow>
                    (case stop_reason_from_str text of
                       Inr reason \<Rightarrow> s\<lparr>os_terminal := Some reason\<rparr> | Inl _ \<Rightarrow> s))
      in AList.update (ro_origin_id r) s' t)"

definition rehydrate_executed :: "nat \<Rightarrow> recovered_origin list \<Rightarrow> tracker \<Rightarrow> tracker" where
  "rehydrate_executed now origins t = fold (rehydrate_one now) origins t"

section \<open>Lookups\<close>

lemma prune_Cons:
  "prune_stale_locked now ((k, s) # t) =
     (if stale now s then prune_stale_locked now t else (k, s) # prune_stale_locked now t)"
  by (simp add: prune_stale_locked_def)

lemma prune_Nil: "prune_stale_locked now [] = []"
  by (simp add: prune_stale_locked_def)

lemma prune_keys: "k \<notin> fst ` set t \<Longrightarrow> map_of (prune_stale_locked now t) k = None"
  by (auto simp: prune_stale_locked_def map_of_eq_None_iff)

lemma map_of_prune:
  assumes "distinct (map fst t)"
  shows "map_of (prune_stale_locked now t) i =
    (case map_of t i of Some s \<Rightarrow> if stale now s then None else Some s | None \<Rightarrow> None)"
  using assms
proof (induction t)
  case Nil
  then show ?case by (simp add: prune_Nil)
next
  case (Cons e t)
  obtain k s where e: "e = (k, s)" by (cases e)
  show ?case
    using Cons prune_keys [of k t now] by (simp add: e prune_Cons)
qed

lemma distinct_prune: "distinct (map fst t) \<Longrightarrow> distinct (map fst (prune_stale_locked now t))"
  by (simp add: prune_stale_locked_def distinct_map_filter)

lemma length_prune: "length (prune_stale_locked now t) \<le> length t"
  by (simp add: prune_stale_locked_def)

lemma map_of_update [simp]: "map_of (AList.update k v t) k' = (if k' = k then Some v else map_of t k')"
  by (simp add: update_conv')

lemma map_of_delete [simp]: "map_of (AList.delete k t) k' = (if k' = k then None else map_of t k')"
  by (simp add: delete_conv')

section \<open>Operations on the tracker\<close>

datatype tracker_op =
    Reserve string
  | Release string
  | BeginExecution string nat string "string list"
  | ResumeExecution string
  | SetTerminal string stop_reason
  | ReadTerminal string

fun run_op :: "nat \<Rightarrow> tracker_op \<Rightarrow> tracker \<Rightarrow> tracker" where
  "run_op now (Reserve i) t = snd (reserve now i t)"
| "run_op now (Release i) t = release i t"
| "run_op now (BeginExecution i d a v) t = snd (try_begin_execution now i d a v t)"
| "run_op now (ResumeExecution i) t = snd (try_resume_execution now i t)"
| "run_op now (SetTerminal i r) t = set_terminal_reason now i r t"
| "run_op now (ReadTerminal i) t = snd (terminal_reason now i t)"

text \<open>\<open>begins i now op t\<close>: this operation lets a Turn of origin \<open>i\<close> start executing.\<close>

fun begins :: "string \<Rightarrow> nat \<Rightarrow> tracker_op \<Rightarrow> tracker \<Rightarrow> bool" where
  "begins i now (BeginExecution j d a v) t =
     (j = i \<and> (case fst (try_begin_execution now j d a v t) of Inr _ \<Rightarrow> True | Inl _ \<Rightarrow> False))"
| "begins i now _ t = False"

fun run_ops :: "(nat \<times> tracker_op) list \<Rightarrow> tracker \<Rightarrow> tracker" where
  "run_ops [] t = t"
| "run_ops ((now, op) # ops) t = run_ops ops (run_op now op t)"

fun count_begins :: "string \<Rightarrow> (nat \<times> tracker_op) list \<Rightarrow> tracker \<Rightarrow> nat" where
  "count_begins i [] t = 0"
| "count_begins i ((now, op) # ops) t =
     (if begins i now op t then 1 else 0) + count_begins i ops (run_op now op t)"

lemma reserve_distinct: "distinct (map fst t) \<Longrightarrow> distinct (map fst (snd (reserve now i t)))"
  by (simp add: reserve_def Let_def distinct_prune distinct_update split: option.split)

lemma release_distinct: "distinct (map fst t) \<Longrightarrow> distinct (map fst (release i t))"
  by (simp add: release_def Let_def distinct_delete distinct_update split: option.split)

lemma begin_distinct:
  "distinct (map fst t) \<Longrightarrow> distinct (map fst (snd (try_begin_execution now i d a v t)))"
  by (simp add: try_begin_execution_def Let_def distinct_prune distinct_update split: option.split)

lemma resume_distinct: "distinct (map fst t) \<Longrightarrow> distinct (map fst (snd (try_resume_execution now i t)))"
  by (simp add: try_resume_execution_def Let_def distinct_prune distinct_update)

lemma set_terminal_distinct:
  "distinct (map fst t) \<Longrightarrow> distinct (map fst (set_terminal_reason now i r t))"
  by (simp add: set_terminal_reason_def Let_def distinct_prune distinct_update)

lemma terminal_distinct: "distinct (map fst t) \<Longrightarrow> distinct (map fst (snd (terminal_reason now i t)))"
  by (simp add: terminal_reason_def Let_def distinct_prune)

lemma run_op_distinct: "distinct (map fst t) \<Longrightarrow> distinct (map fst (run_op now op t))"
  by (cases op) (simp_all add: reserve_distinct release_distinct begin_distinct resume_distinct
      set_terminal_distinct terminal_distinct)

text \<open>What an operation does to one origin whose entry is fresh.\<close>

definition executed_of :: "string \<Rightarrow> tracker \<Rightarrow> nat" where
  "executed_of i t = (case map_of t i of Some s \<Rightarrow> os_executed s | None \<Rightarrow> 0)"

definition fresh_at :: "nat \<Rightarrow> string \<Rightarrow> tracker \<Rightarrow> bool" where
  "fresh_at now i t = (case map_of t i of Some s \<Rightarrow> \<not> stale now s | None \<Rightarrow> True)"

lemma prune_fresh:
  "\<lbrakk>distinct (map fst t); fresh_at now i t\<rbrakk> \<Longrightarrow> map_of (prune_stale_locked now t) i = map_of t i"
  by (cases "map_of t i") (simp_all add: map_of_prune fresh_at_def del: map_of_eq_Some_iff)

text \<open>One step, as seen by one origin.\<close>

definition step_entry :: "string \<Rightarrow> nat \<Rightarrow> tracker_op \<Rightarrow> tracker \<Rightarrow> bool" where
  "step_entry i now op t = (case op of
      Reserve j \<Rightarrow> j = i | Release j \<Rightarrow> j = i | BeginExecution j _ _ _ \<Rightarrow> j = i
    | ResumeExecution j \<Rightarrow> j = i | SetTerminal j _ \<Rightarrow> j = i | ReadTerminal j \<Rightarrow> False)"

lemma run_op_other:
  assumes "distinct (map fst t)" "fresh_at now i t" "\<not> step_entry i now op t"
  shows "map_of (run_op now op t) i = map_of t i"
proof (cases op)
  case (Reserve j)
  then show ?thesis using assms prune_fresh [OF assms(1,2)]
    by (simp add: reserve_def Let_def step_entry_def split: option.split)
next
  case (Release j)
  then show ?thesis using assms
    by (simp add: release_def Let_def step_entry_def split: option.split)
next
  case (BeginExecution j d a v)
  then show ?thesis using assms prune_fresh [OF assms(1,2)]
    by (simp add: try_begin_execution_def Let_def step_entry_def split: option.split)
next
  case (ResumeExecution j)
  then show ?thesis using assms prune_fresh [OF assms(1,2)]
    by (simp add: try_resume_execution_def Let_def step_entry_def)
next
  case (SetTerminal j r)
  then show ?thesis using assms prune_fresh [OF assms(1,2)]
    by (simp add: set_terminal_reason_def Let_def step_entry_def)
next
  case (ReadTerminal j)
  then show ?thesis using assms prune_fresh [OF assms(1,2)]
    by (simp add: terminal_reason_def Let_def)
qed

lemma begins_only_own: "begins i now op t \<Longrightarrow> step_entry i now op t"
  by (cases op) (simp_all add: step_entry_def)

definition terminal_of :: "string \<Rightarrow> tracker \<Rightarrow> stop_reason option" where
  "terminal_of i t = (case map_of t i of Some s \<Rightarrow> os_terminal s | None \<Rightarrow> None)"

lemma other_executed: "map_of t' i = map_of t i \<Longrightarrow> executed_of i t' = executed_of i t"
  by (simp add: executed_of_def)

lemma own_step:
  assumes "distinct (map fst t)" "fresh_at now i t" "step_entry i now op t"
  shows "executed_of i (run_op now op t) = executed_of i t + (if begins i now op t then 1 else 0)"
  using assms(3) prune_fresh [OF assms(1,2)]
  by (cases op; cases "map_of t i")
    (simp_all add: step_entry_def executed_of_def reserve_def release_def try_begin_execution_def
      try_resume_execution_def set_terminal_reason_def terminal_reason_def Let_def
      origin_entry_def new_origin_def del: map_of_eq_Some_iff split: option.split)

lemma begin_limit:
  assumes "begins i now op t" "distinct (map fst t)" "fresh_at now i t"
  shows "executed_of i t < MAX_AGENT_TURNS_PER_INPUT" "terminal_of i t = None"
  using assms(1) prune_fresh [OF assms(2,3)]
  by (cases op; cases "map_of t i";
      simp add: executed_of_def terminal_of_def try_begin_execution_def Let_def origin_entry_def
        new_origin_def evaluate_stop_conditions_def del: map_of_eq_Some_iff
        split: option.splits if_splits)+

text \<open>No operation clears the terminal reason of a fresh origin.\<close>

lemma own_terminal:
  assumes "distinct (map fst t)" "fresh_at now i t" "terminal_of i t \<noteq> None"
  shows "terminal_of i (run_op now op t) \<noteq> None"
proof (cases "step_entry i now op t")
  case True
  then show ?thesis using assms(3) prune_fresh [OF assms(1,2)]
    by (cases op; cases "map_of t i")
      (simp_all add: step_entry_def terminal_of_def reserve_def release_def
        try_begin_execution_def try_resume_execution_def set_terminal_reason_def
        terminal_reason_def Let_def origin_entry_def new_origin_def del: map_of_eq_Some_iff
        split: option.split)
next
  case False
  then show ?thesis using run_op_other [OF assms(1,2)] assms(3) by (simp add: terminal_of_def)
qed

text \<open>Within a window no longer than the time to live, an origin stays fresh.\<close>

definition touched_since :: "nat \<Rightarrow> string \<Rightarrow> tracker \<Rightarrow> bool" where
  "touched_since T i t = (case map_of t i of Some s \<Rightarrow> T \<le> os_touched s | None \<Rightarrow> True)"

lemma touched_fresh: "\<lbrakk>touched_since T i t; now \<le> T + ORIGIN_TTL\<rbrakk> \<Longrightarrow> fresh_at now i t"
  by (cases "map_of t i")
    (auto simp: touched_since_def fresh_at_def stale_def simp del: map_of_eq_Some_iff)

lemma own_touched:
  assumes "distinct (map fst t)" "fresh_at now i t" "touched_since T i t" "T \<le> now"
  shows "touched_since T i (run_op now op t)"
proof (cases "step_entry i now op t")
  case True
  then show ?thesis using assms(3,4) prune_fresh [OF assms(1,2)]
    by (cases op; cases "map_of t i")
      (simp_all add: step_entry_def touched_since_def reserve_def release_def
        try_begin_execution_def try_resume_execution_def set_terminal_reason_def
        terminal_reason_def Let_def origin_entry_def new_origin_def del: map_of_eq_Some_iff
        split: option.split)
next
  case False
  then show ?thesis using run_op_other [OF assms(1,2)] assms(3) by (simp add: touched_since_def)
qed

definition in_window :: "nat \<Rightarrow> (nat \<times> tracker_op) list \<Rightarrow> bool" where
  "in_window T ops = list_all (\<lambda>(now, _). T \<le> now \<and> now \<le> T + ORIGIN_TTL) ops"

lemma window_step:
  assumes "distinct (map fst t)" "touched_since T i t" "in_window T ((now, op) # ops)"
  shows "fresh_at now i t" "distinct (map fst (run_op now op t))"
    "touched_since T i (run_op now op t)" "in_window T ops"
    "executed_of i (run_op now op t) = executed_of i t + (if begins i now op t then 1 else 0)"
proof -
  have w: "T \<le> now" "now \<le> T + ORIGIN_TTL" using assms(3) by (simp_all add: in_window_def)
  show f: "fresh_at now i t" by (rule touched_fresh [OF assms(2) w(2)])
  show "distinct (map fst (run_op now op t))" by (rule run_op_distinct [OF assms(1)])
  show "touched_since T i (run_op now op t)" by (rule own_touched [OF assms(1) f assms(2) w(1)])
  show "in_window T ops" using assms(3) by (simp add: in_window_def)
  show "executed_of i (run_op now op t) = executed_of i t + (if begins i now op t then 1 else 0)"
  proof (cases "step_entry i now op t")
    case True
    then show ?thesis by (rule own_step [OF assms(1) f])
  next
    case False
    then show ?thesis
      using run_op_other [OF assms(1) f] begins_only_own [of i now op t]
      by (auto simp: executed_of_def)
  qed
qed

lemma window_executed:
  "\<lbrakk>distinct (map fst t); touched_since T i t; in_window T ops\<rbrakk>
   \<Longrightarrow> executed_of i (run_ops ops t) = executed_of i t + count_begins i ops t"
proof (induction ops arbitrary: t)
  case (Cons e ops)
  obtain now op where e: "e = (now, op)" by (cases e)
  note w = window_step [OF Cons.prems [unfolded e]]
  show ?case using Cons.IH [OF w(2-4)] w(5) by (simp add: e)
qed simp

lemma window_limit:
  "\<lbrakk>distinct (map fst t); touched_since T i t; in_window T ops;
    executed_of i t \<le> MAX_AGENT_TURNS_PER_INPUT\<rbrakk>
   \<Longrightarrow> executed_of i t + count_begins i ops t \<le> MAX_AGENT_TURNS_PER_INPUT"
proof (induction ops arbitrary: t)
  case (Cons e ops)
  obtain now op where e: "e = (now, op)" by (cases e)
  note w = window_step [OF Cons.prems(1-3) [unfolded e]]
  have "executed_of i (run_op now op t) \<le> MAX_AGENT_TURNS_PER_INPUT"
    using w(5) begin_limit(1) [OF _ Cons.prems(1) w(1)] Cons.prems(4) by fastforce
  then show ?case using Cons.IH [OF w(2-4)] w(5) by (simp add: e)
qed simp

lemma window_terminal:
  "\<lbrakk>distinct (map fst t); touched_since T i t; in_window T ops; terminal_of i t \<noteq> None\<rbrakk>
   \<Longrightarrow> terminal_of i (run_ops ops t) \<noteq> None \<and> count_begins i ops t = 0"
proof (induction ops arbitrary: t)
  case (Cons e ops)
  obtain now op where e: "e = (now, op)" by (cases e)
  note w = window_step [OF Cons.prems(1-3) [unfolded e]]
  have "terminal_of i (run_op now op t) \<noteq> None"
    by (rule own_terminal [OF Cons.prems(1) w(1) Cons.prems(4)])
  moreover have "\<not> begins i now op t"
    using begin_limit(2) [OF _ Cons.prems(1) w(1), of op] Cons.prems(4) by blast
  ultimately show ?case using Cons.IH [OF w(2-4)] by (simp add: e)
qed simp

lemma window_end:
  "\<lbrakk>distinct (map fst t); touched_since T i t; in_window T ops\<rbrakk>
   \<Longrightarrow> distinct (map fst (run_ops ops t)) \<and> touched_since T i (run_ops ops t)"
proof (induction ops arbitrary: t)
  case (Cons e ops)
  obtain now op where e: "e = (now, op)" by (cases e)
  note w = window_step [OF Cons.prems [unfolded e]]
  show ?case using Cons.IH [OF w(2-4)] by (simp add: e)
qed simp

section \<open>Properties of the tracker\<close>

text \<open>
  C28: However the callers interleave reservations, releases, starts, resumes and stops, at
  most twelve Turns of one human input begin executing: the Turns counted before plus those
  that begin within a window of the time to live never exceed the limit.
\<close>

theorem chain_execution_bound:
  assumes "distinct (map fst t)" "touched_since T i t" "in_window T ops"
    "executed_of i t \<le> MAX_AGENT_TURNS_PER_INPUT"
  shows "executed_of i t + count_begins i ops t \<le> MAX_AGENT_TURNS_PER_INPUT \<and>
    executed_of i (run_ops ops t) = executed_of i t + count_begins i ops t"
  using window_limit [OF assms] window_executed [OF assms(1-3)] by blast

definition sample_burst :: "(nat \<times> tracker_op) list" where
  "sample_burst = [(5, Reserve ''o''), (5, BeginExecution ''p'' 9 ''a'' [''a'']),
     (6, BeginExecution ''o'' 1 ''a'' [''a'']), (6, Release ''o''),
     (7, BeginExecution ''o'' 4 ''a'' [''a'']), (8, BeginExecution ''o'' 1 ''a'' [''a'']),
     (9, ResumeExecution ''o'')]"

definition sample_chain :: tracker where
  "sample_chain = [(''o'', (new_origin 3)\<lparr>os_executed := 10\<rparr>)]"

lemma sample_window: "in_window 0 sample_burst"
  by (auto simp: in_window_def sample_burst_def ORIGIN_TTL_def list_all_iff)

theorem chain_execution_bound_witness:
  "executed_of ''o'' sample_chain = 10 \<and> count_begins ''o'' sample_burst sample_chain = 2 \<and>
   executed_of ''o'' (run_ops sample_burst sample_chain) = 12"
proof -
  have "count_begins ''o'' sample_burst sample_chain = 2"
    by (simp add: sample_burst_def sample_chain_def new_origin_def reserve_def release_def
        try_begin_execution_def try_resume_execution_def prune_Cons prune_Nil stale_def
        ORIGIN_TTL_def origin_entry_def Let_def evaluate_stop_conditions_def
        MAX_AGENT_CHAIN_DEPTH_def MAX_AGENT_TURNS_PER_INPUT_def)
  then show ?thesis
    using chain_execution_bound [of sample_chain 0 "''o''" sample_burst, OF _ _ sample_window]
    by (simp add: sample_chain_def touched_since_def executed_of_def new_origin_def
        MAX_AGENT_TURNS_PER_INPUT_def)
qed

text \<open>
  C29: A chain that has stopped stays stopped: while its entry lives, no operation of any
  caller clears the reason, no further Turn of it begins, and reservations, starts and
  resumes are all refused.
\<close>

theorem stopped_chain_stays_stopped:
  assumes "distinct (map fst t)" "touched_since T i t" "in_window T ops" "terminal_of i t \<noteq> None"
    "T \<le> now" "now \<le> T + ORIGIN_TTL"
  shows "count_begins i ops t = 0 \<and> (\<exists>r. terminal_of i (run_ops ops t) = Some r \<and>
      fst (reserve now i (run_ops ops t)) = Inl ChainTerminated \<and>
      fst (try_begin_execution now i depth agent valid (run_ops ops t)) = Inl r \<and>
      fst (try_resume_execution now i (run_ops ops t)) = Inl r \<and>
      fst (terminal_reason now i (run_ops ops t)) = Some r)"
proof -
  let ?t = "run_ops ops t"
  note e = window_end [OF assms(1-3)]
  have f: "fresh_at now i ?t" using touched_fresh [of T i ?t now] e assms(6) by blast
  obtain r where r: "terminal_of i ?t = Some r"
    using window_terminal [OF assms(1-4)] by blast
  then obtain s where s: "map_of ?t i = Some s" "os_terminal s = Some r"
    by (auto simp: terminal_of_def split: option.splits)
  have p: "map_of (prune_stale_locked now ?t) i = Some s"
    using prune_fresh [of ?t now i] e f s(1) by simp
  show ?thesis
    using window_terminal [OF assms(1-4)] r s(2) p
    by (simp add: reserve_def try_begin_execution_def try_resume_execution_def
        terminal_reason_def origin_entry_def Let_def del: map_of_eq_Some_iff)
qed

theorem stopped_chain_stays_stopped_witness:
  "terminal_of ''o'' (set_terminal_reason 0 ''o'' LlmFailure []) = Some LlmFailure \<and>
   count_begins ''o'' sample_burst (set_terminal_reason 0 ''o'' LlmFailure []) = 0"
proof -
  let ?t = "set_terminal_reason 0 ''o'' LlmFailure []"
  have t: "?t = [(''o'', (new_origin 0)\<lparr>os_terminal := Some LlmFailure\<rparr>)]"
    by (simp add: set_terminal_reason_def prune_Nil origin_entry_def new_origin_def)
  note w = sample_window
  show ?thesis
    using stopped_chain_stays_stopped [of ?t 0 "''o''" sample_burst 0, OF _ _ w]
    by (simp add: t touched_since_def terminal_of_def new_origin_def)
qed

text \<open>
  The gate of a Turn of a live chain: it may begin exactly when its depth is at most four,
  fewer than twelve Turns of the chain began and the agent exists; then the count goes up by
  one and one reservation is consumed. Otherwise the first failing condition is answered and
  becomes the reason the chain stopped.
\<close>

theorem begin_gate:
  assumes "distinct (map fst t)" "map_of t i = Some s" "\<not> stale now s" "os_terminal s = None"
  shows "try_begin_execution now i depth agent valid t =
    (let s' = s\<lparr>os_touched := now, os_pending := os_pending s - 1\<rparr>;
         t1 = prune_stale_locked now t
     in if depth \<le> 4 \<and> os_executed s < 12 \<and> agent \<in> set valid
        then (Inr (os_executed s + 1), AList.update i (s'\<lparr>os_executed := os_executed s + 1\<rparr>) t1)
        else (let r = if depth > 4 then ChainDepthExceeded
                      else if os_executed s \<ge> 12 then TurnCountExceeded else AgentNotFound
              in (Inl r, AList.update i (s'\<lparr>os_terminal := Some r\<rparr>) t1)))"
proof -
  have "map_of (prune_stale_locked now t) i = Some s"
    using assms by (simp add: map_of_prune del: map_of_eq_Some_iff)
  then show ?thesis using assms(4)
    by (simp add: try_begin_execution_def origin_entry_def evaluate_stop_conditions_def Let_def
        MAX_AGENT_CHAIN_DEPTH_def MAX_AGENT_TURNS_PER_INPUT_def del: map_of_eq_Some_iff)
qed

theorem begin_gate_witness:
  "fst (try_begin_execution 9 ''o'' 4 ''a'' [''a''] [(''o'', (new_origin 3)\<lparr>os_executed := 11\<rparr>)]) = Inr 12 \<and>
   fst (try_begin_execution 9 ''o'' 4 ''a'' [''a''] [(''o'', (new_origin 3)\<lparr>os_executed := 12\<rparr>)]) =
     Inl TurnCountExceeded"
  using begin_gate [of "[(''o'', (new_origin 3)\<lparr>os_executed := 11\<rparr>)]" "''o''" _ 9 4 "''a''" "[''a'']"]
    begin_gate [of "[(''o'', (new_origin 3)\<lparr>os_executed := 12\<rparr>)]" "''o''" _ 9 4 "''a''" "[''a'']"]
  by (simp add: stale_def new_origin_def Let_def ORIGIN_TTL_def)

section \<open>Restart\<close>

definition recovered_reason :: "recovered_origin \<Rightarrow> stop_reason option" where
  "recovered_reason r = (case ro_terminal_reason r of
     None \<Rightarrow> None
   | Some text \<Rightarrow> (case stop_reason_from_str text of Inr reason \<Rightarrow> Some reason | Inl _ \<Rightarrow> None))"

lemma rehydrate_one_map:
  "map_of (rehydrate_one now r t) i = (if i = ro_origin_id r then
     Some ((origin_entry now i t)\<lparr>os_executed := ro_executed_turn_count r,
       os_terminal := (case recovered_reason r of Some x \<Rightarrow> Some x
          | None \<Rightarrow> os_terminal (origin_entry now i t)), os_touched := now\<rparr>)
   else map_of t i)"
  by (simp add: rehydrate_one_def Let_def recovered_reason_def split: option.split sum.split)

lemma rehydrate_distinct: "distinct (map fst t) \<Longrightarrow> distinct (map fst (rehydrate_executed now rs t))"
  unfolding rehydrate_executed_def
  by (induction rs arbitrary: t) (simp_all add: rehydrate_one_def Let_def distinct_update)

lemma rehydrate_skip:
  "i \<notin> ro_origin_id ` set rs \<Longrightarrow> map_of (rehydrate_executed now rs t) i = map_of t i"
  unfolding rehydrate_executed_def
  by (induction rs arbitrary: t) (simp_all add: rehydrate_one_map del: map_of_eq_Some_iff)

lemma rehydrate_lookup:
  assumes "distinct (map ro_origin_id rs)" "r \<in> set rs" "map_of t (ro_origin_id r) = None"
  shows "map_of (rehydrate_executed now rs t) (ro_origin_id r) =
    Some \<lparr>os_executed = ro_executed_turn_count r, os_pending = 0,
      os_terminal = recovered_reason r, os_touched = now\<rparr>"
  using assms
proof (induction rs arbitrary: t)
  case (Cons x rs)
  show ?case
  proof (cases "r = x")
    case True
    then have "ro_origin_id r \<notin> ro_origin_id ` set rs" using Cons.prems(1) by simp
    then show ?thesis
      using rehydrate_skip [of "ro_origin_id r" rs now "rehydrate_one now x t"] True Cons.prems(3)
      by (simp add: rehydrate_executed_def rehydrate_one_map origin_entry_def new_origin_def
          split: option.split)
  next
    case False
    then have "r \<in> set rs" using Cons.prems(2) by simp
    moreover from this have "ro_origin_id r \<noteq> ro_origin_id x"
      using Cons.prems(1) by (auto simp: image_iff)
    ultimately show ?thesis
      using Cons.IH [of "rehydrate_one now x t"] Cons.prems(1,3)
      by (simp add: rehydrate_executed_def rehydrate_one_map del: map_of_eq_Some_iff)
  qed
qed simp

definition counted_origins :: "(string \<Rightarrow> bool) \<Rightarrow> database \<Rightarrow> string set" where
  "counted_origins recent db = {og. \<exists>t \<in> set (turn_runs db). counted_row recent og t}"

definition origin_reason :: "string \<Rightarrow> database \<Rightarrow> string option" where
  "origin_reason og db = (case find_row (\<lambda>r. or_origin_id r = og) (turn_origins db) of
     Some r \<Rightarrow> or_terminal_reason r | None \<Rightarrow> None)"

lemma recovered_ids:
  "distinct (map ro_origin_id (recover_origin_tracker recent db))"
  by (simp add: recover_origin_tracker_def comp_def)

lemma recovered_member:
  assumes "og \<in> counted_origins recent db"
  shows "\<lparr>ro_origin_id = og,
      ro_executed_turn_count = nat (count_rows (counted_row recent og) (turn_runs db)),
      ro_terminal_reason = origin_reason og db\<rparr> \<in> set (recover_origin_tracker recent db)"
  using assms
  by (auto simp: counted_origins_def recover_origin_tracker_def origin_reason_def image_iff
      List.map_filter_def counted_row_def split: option.splits)

lemma restart_entry:
  assumes "og \<in> counted_origins recent db"
  shows "map_of (rehydrate_executed now (recover_origin_tracker recent db) []) og =
    Some \<lparr>os_executed = nat (count_rows (counted_row recent og) (turn_runs db)), os_pending = 0,
      os_terminal = (case origin_reason og db of None \<Rightarrow> None
        | Some text \<Rightarrow> (case stop_reason_from_str text of Inr r \<Rightarrow> Some r | Inl _ \<Rightarrow> None)),
      os_touched = now\<rparr>"
  using rehydrate_lookup [OF recovered_ids recovered_member [OF assms], of "[]" now]
  by (simp add: recovered_reason_def)

lemma upsert_origin_reason: "origin_reason og (upsert_turn_origin now og r db) = r"
  by (cases "find_row (\<lambda>r. or_origin_id r = og) (turn_origins db)")
    (simp_all add: upsert_turn_origin_def origin_reason_def insert_row_def exists_row_find
      find_key_update_rows find_row_append del: exists_row_iff)

lemma failed_counted:
  assumes "turns_evolve db db'" "find_turn i db = Some t" "turn_status db' i = Some s"
    "is_terminal s" "tr_origin_id t = Some og" "recent (tr_accepted_at t)"
  shows "og \<in> counted_origins recent db'"
proof -
  obtain t' where t': "find_turn i db' = Some t'" "row_evolves t t'"
    using turns_evolve_find [OF assms(1,2)] by blast
  have m: "t' \<in> set (turn_runs db')" using t'(1) by (auto simp: find_turn_def dest: find_row_Some)
  have "tr_state t' = turn_run_state_display s"
    using assms(3) t'(1) by (auto simp: turn_status_Some_iff)
  then have "\<not> pending_row t'"
    using assms(4) pending_row_iff [of t' s] by (auto simp: is_durable_pending_def)
  then have "counted_row recent og t'"
    using t'(2) assms(5,6) by (simp add: counted_row_def row_evolves_def same_turn_key_def)
  then show ?thesis using m by (auto simp: counted_origins_def)
qed

lemma upsert_turn_status: "turn_status (upsert_turn_origin now og r db) i = turn_status db i"
  by (rule turn_status_cong) simp

lemma stopped_entry:
  assumes "map_of trk og = Some s" "os_terminal s = Some r"
    "map_of (prune_stale_locked clock trk) og = map_of trk og"
  shows "terminal_of og trk = Some r \<and> fst (reserve clock og trk) = Inl ChainTerminated \<and>
    fst (try_begin_execution clock og depth agent valid trk) = Inl r \<and> executed_of og trk = os_executed s"
  using assms by (simp add: terminal_of_def executed_of_def reserve_def try_begin_execution_def
      origin_entry_def Let_def del: map_of_eq_Some_iff)

lemma open_entry:
  assumes "map_of trk og = Some s" "os_terminal s = None"
    "map_of (prune_stale_locked clock trk) og = map_of trk og"
  shows "terminal_of og trk = None \<and> fst (reserve clock og trk) = Inr ()"
  using assms by (simp add: terminal_of_def reserve_def Let_def del: map_of_eq_Some_iff)

text \<open>
  C30: A chain stopped with its reason in the same transaction that failed its Turn stays
  stopped across a restart: the tracker rebuilt from the database reports the same reason and
  refuses the origin, and counts every counted Turn of it.
\<close>

theorem stop_survives_restart:
  assumes "store_inv db" "find_turn i db = Some t" "tr_origin_id t = Some og"
    "recent (tr_accepted_at t)"
    "fail_turn_and_terminate_origin now i to failure og (stop_reason_display r) db = Inr ((), db')"
  shows "\<exists>trk. trk = rehydrate_executed clock (recover_origin_tracker recent db') [] \<and>
    terminal_of og trk = Some r \<and> fst (reserve clock og trk) = Inl ChainTerminated \<and>
    fst (try_begin_execution clock og depth agent valid trk) = Inl r \<and>
    int (executed_of og trk) = count_rows (counted_row recent og) (turn_runs db')"
proof -
  have reason: "origin_reason og db' = Some (stop_reason_display r)"
    using assms(1,5) by (cases rule: fail_origin_ok) (simp_all add: upsert_origin_reason)
  obtain s where s: "turn_status db' i = Some s" "is_terminal s"
    using assms(1,5)
  proof (cases rule: fail_origin_ok)
    case (already s)
    then show ?thesis using that by (simp add: upsert_turn_status)
  next
    case (failed s db1)
    have "turn_status db1 i = Some to"
      using record_failure_step(2) [OF assms(1) failed(2,4,1,5), of i] by simp
    then show ?thesis using that failed(1,6) by (auto simp: upsert_turn_status)
  qed
  have ev: "turns_evolve db db'"
    using fail_origin_progress [OF assms(1,5)] by (simp add: turn_progress_def)
  let ?trk = "rehydrate_executed clock (recover_origin_tracker recent db') []"
  note e = restart_entry [OF failed_counted [where recent = recent, OF ev assms(2) s assms(3,4)], of clock]
  have d: "distinct (map fst ?trk)" by (rule rehydrate_distinct) simp
  have p: "map_of (prune_stale_locked clock ?trk) og = map_of ?trk og"
    using e by (intro prune_fresh [OF d]) (simp add: fresh_at_def stale_def del: map_of_eq_Some_iff)
  have "terminal_of og ?trk = Some r \<and> fst (reserve clock og ?trk) = Inl ChainTerminated \<and>
    fst (try_begin_execution clock og depth agent valid ?trk) = Inl r \<and>
    executed_of og ?trk = nat (count_rows (counted_row recent og) (turn_runs db'))"
    using stopped_entry [OF e _ p, of r depth agent valid] by (simp add: reason)
  moreover have "0 \<le> count_rows (counted_row recent og) (turn_runs db')"
    by (simp add: count_rows_def)
  ultimately show ?thesis by simp
qed

text \<open>
  C31: The reason stored for an unreadable Turn payload is not one the tracker knows: after
  \<open>fail_invalid_durable_turn\<close> and a restart the database holds the reason of the origin, but
  the rebuilt tracker has none and admits further Turns of the chain.
\<close>

theorem invalid_payload_not_restored:
  assumes "store_inv db" "find_turn i db = Some t" "tr_origin_id t = Some og" "og \<noteq> []"
    "recent (tr_accepted_at t)" "fail_invalid_durable_turn now i db = Inr ((), db')"
  shows "origin_reason og db' = Some DURABLE_PAYLOAD_INVALID_ERROR_KIND \<and>
    (\<exists>trk. trk = rehydrate_executed clock (recover_origin_tracker recent db') [] \<and>
      terminal_of og trk = None \<and> fst (reserve clock og trk) = Inr ())"
proof -
  let ?trk = "rehydrate_executed clock (recover_origin_tracker recent db') []"
  from assms(6) obtain s to db1 where f: "turn_status db i = Some s"
    "can_transition s to" "to \<in> {Failed, Uncertain}"
    "record_turn_failure_message_locked now i DURABLE_PAYLOAD_INVALID_PUBLIC_MESSAGE
       (set_failed now i to DURABLE_PAYLOAD_INVALID_ERROR_KIND
          DURABLE_PAYLOAD_INVALID_ERROR_MESSAGE db) = Inr ((), db1)"
    "db' = upsert_turn_origin now og (Some DURABLE_PAYLOAD_INVALID_ERROR_KIND) db1"
  proof (cases rule: fail_invalid_ok)
    case (1 s t' to db1)
    then show ?thesis using that [of s to db1] assms(2-4) by (auto simp: can_transition_def)
  qed
  have reason: "origin_reason og db' = Some DURABLE_PAYLOAD_INVALID_ERROR_KIND"
    by (simp add: f(5) upsert_origin_reason)
  have "turn_status db1 i = Some to" using record_failure_step(2) [OF assms(1) f(1-4), of i] by simp
  then have s: "turn_status db' i = Some to" "is_terminal to"
    using f(3,5) by (auto simp: upsert_turn_status)
  have ev: "turns_evolve db db'"
    using fail_invalid_progress [OF assms(1,6)] by (simp add: turn_progress_def)
  note e = restart_entry [OF failed_counted [where recent = recent, OF ev assms(2) s assms(3,5)], of clock]
  have d: "distinct (map fst ?trk)" by (rule rehydrate_distinct) simp
  have p: "map_of (prune_stale_locked clock ?trk) og = map_of ?trk og"
    using e by (intro prune_fresh [OF d]) (simp add: fresh_at_def stale_def del: map_of_eq_Some_iff)
  have "terminal_of og ?trk = None \<and> fst (reserve clock og ?trk) = Inr ()"
    using open_entry [OF e _ p]
    by (simp add: reason stop_reason_from_str_def DURABLE_PAYLOAD_INVALID_ERROR_KIND_def)
  with reason show ?thesis by blast
qed

lemma sample_turn_found:
  "find_turn ''turn-1'' (sample_db s) = Some (sample_turn ''turn-1'' s (Some ''{}''))"
  by (simp add: find_turn_def sample_db_def) (simp add: sample_turn_def)

lemma sample_failure_free: "find_message (turn_failure_message_id ''turn-1'') 7 (sample_db s) = None"
  by (simp add: find_message_def has_message_key_def turn_failure_message_id_def sample_defs)

lemma sample_set_failed:
  assumes "s \<notin> {Failed, Uncertain}"
  shows "\<exists>db'. record_turn_failure_message_locked now ''turn-1'' pub
    (set_failed now ''turn-1'' to k d (sample_db s)) = Inr ((), db')"
  using record_set_failed_total [OF sample_db_store_inv [OF assms] sample_turn_found]
    sample_failure_free [of s] by (simp add: sample_turn_def) blast

theorem stop_survives_restart_witness:
  "\<exists>db'. fail_turn_and_terminate_origin ''t2'' ''turn-1'' Failed sample_failure ''turn-1''
       (stop_reason_display LlmFailure) (sample_db ModelPending) = Inr ((), db') \<and>
     terminal_of ''turn-1'' (rehydrate_executed 0 (recover_origin_tracker (\<lambda>_. True) db') []) =
       Some LlmFailure"
proof -
  have inv: "store_inv (sample_db ModelPending)" by (rule sample_db_store_inv) simp
  have "read_state_locked ''turn-1'' (sample_db ModelPending) = Inr ModelPending"
    by (simp add: read_state_iff sample_db_status)
  then obtain db' where ok: "fail_turn_and_terminate_origin ''t2'' ''turn-1'' Failed sample_failure
      ''turn-1'' (stop_reason_display LlmFailure) (sample_db ModelPending) = Inr ((), db')"
    using sample_set_failed [of ModelPending "''t2''" "tf_public sample_failure" Failed
        "tf_kind sample_failure" "tf_diagnostic sample_failure"]
    by (auto simp: fail_turn_and_terminate_origin_def can_transition_def)
  have "tr_origin_id (sample_turn ''turn-1'' ModelPending (Some ''{}'')) = Some ''turn-1''"
    by (simp add: sample_turn_def)
  from stop_survives_restart [OF inv sample_turn_found this, of "\<lambda>_. True", OF _ ok, of 0] ok
  show ?thesis by blast
qed

theorem invalid_payload_not_restored_witness:
  "\<exists>db'. fail_invalid_durable_turn ''t2'' ''turn-1'' (sample_db Accepted) = Inr ((), db') \<and>
     origin_reason ''turn-1'' db' = Some DURABLE_PAYLOAD_INVALID_ERROR_KIND \<and>
     terminal_of ''turn-1'' (rehydrate_executed 0 (recover_origin_tracker (\<lambda>_. True) db') []) = None"
proof -
  have inv: "store_inv (sample_db Accepted)" by (rule sample_db_store_inv) simp
  have "read_state_locked ''turn-1'' (sample_db Accepted) = Inr Accepted"
    by (simp add: read_state_iff sample_db_status)
  moreover have "tr_scheduled_request_json (sample_turn ''turn-1'' Accepted (Some ''{}'')) = Some ''{}''"
    "tr_origin_id (sample_turn ''turn-1'' Accepted (Some ''{}'')) = Some ''turn-1''"
    by (simp_all add: sample_turn_def)
  ultimately obtain db' where
    ok: "fail_invalid_durable_turn ''t2'' ''turn-1'' (sample_db Accepted) = Inr ((), db')"
    using sample_set_failed [of Accepted "''t2''" DURABLE_PAYLOAD_INVALID_PUBLIC_MESSAGE Failed
        DURABLE_PAYLOAD_INVALID_ERROR_KIND DURABLE_PAYLOAD_INVALID_ERROR_MESSAGE]
    by (auto simp: fail_invalid_durable_turn_def sample_turn_found)
  have "tr_origin_id (sample_turn ''turn-1'' Accepted (Some ''{}'')) = Some ''turn-1''"
    by (simp add: sample_turn_def)
  from invalid_payload_not_restored [OF inv sample_turn_found this, of "\<lambda>_. True", OF _ _ ok, of 0] ok
  show ?thesis by auto
qed

end
