(* ===== verification/Text_Split.thy ===== *)
theory Text_Split
  imports Rust_Text
begin

text \<open>
  Message splitting of \<open>src/src/channels/utils/text.rs\<close>, on UTF-8 text as its bytes. The splitting
  loop need not end for every limit, so it is a partial function; the property shows that it
  ends, and what it gives, whenever the limit holds the longest character.
\<close>

section \<open>Characters\<close>

definition LF :: char where
  "LF = CHR 0x0A"

text \<open>\<open>str::is_char_boundary\<close>: a position that is not inside a character.\<close>

definition is_cont :: "char \<Rightarrow> bool" where
  "is_cont c = (128 \<le> (of_char c :: nat) \<and> (of_char c :: nat) < 192)"

definition is_char_boundary :: "string \<Rightarrow> nat \<Rightarrow> bool" where
  "is_char_boundary s i = (i = 0 \<or> i = length s \<or> (i < length s \<and> \<not> is_cont (s ! i)))"

text \<open>\<open>str::chars\<close>, each character with its bytes.\<close>

function utf8_chars :: "string \<Rightarrow> string list" where
  "utf8_chars [] = []"
| "utf8_chars (c # s) = (c # takeWhile is_cont s) # utf8_chars (dropWhile is_cont s)"
  by pat_completeness auto

termination
  by (relation "measure length") (auto simp: le_imp_less_Suc length_dropWhile_le)

primrec floor_loop :: "string \<Rightarrow> nat \<Rightarrow> nat" where
  "floor_loop s 0 = 0"
| "floor_loop s (Suc i) = (if is_char_boundary s (Suc i) then Suc i else floor_loop s i)"

definition floor_char_boundary :: "string \<Rightarrow> nat \<Rightarrow> nat" where
  "floor_char_boundary s index = (if length s \<le> index then length s else floor_loop s index)"

section \<open>Splitting\<close>

text \<open>\<open>str::rfind\<close> and \<open>str::find\<close> of a character.\<close>

definition rfind_char :: "char \<Rightarrow> string \<Rightarrow> nat option" where
  "rfind_char c s =
     (case filter (\<lambda>i. s ! i = c) [0..<length s] of [] \<Rightarrow> None | is \<Rightarrow> Some (last is))"

definition chunk_length :: "nat \<Rightarrow> string \<Rightarrow> nat" where
  "chunk_length max_len remaining =
     (if length remaining \<le> max_len then length remaining
      else let boundary = floor_char_boundary remaining (min max_len (length remaining))
           in case rfind_char LF (take boundary remaining) of Some i \<Rightarrow> i | None \<Rightarrow> boundary)"

definition skip_newline :: "string \<Rightarrow> string" where
  "skip_newline s = (case s of c # t \<Rightarrow> if c = LF then t else s | [] \<Rightarrow> [])"

partial_function (option) split_loop :: "nat \<Rightarrow> string \<Rightarrow> string list \<Rightarrow> string list option" where
  "split_loop max_len remaining chunks =
     (if remaining = [] then Some chunks
      else let n = chunk_length max_len remaining
           in split_loop max_len (skip_newline (drop n remaining)) (chunks @ [take n remaining]))"

definition split_text :: "string \<Rightarrow> nat \<Rightarrow> string list option" where
  "split_text s max_len = (if length s \<le> max_len then Some [s] else split_loop max_len s [])"

definition truncate_by_chars :: "string \<Rightarrow> nat \<Rightarrow> string" where
  "truncate_by_chars v max_chars =
     (let cs = utf8_chars v
      in if length cs \<le> max_chars then v
         else if max_chars \<le> 3 then concat (take max_chars cs)
         else concat (take (max_chars - 3) cs) @ ''...'')"

definition keep_tail :: "string \<Rightarrow> nat \<Rightarrow> string" where
  "keep_tail body max_chars =
     (let cs = utf8_chars body
      in if length cs \<le> max_chars then body
         else let start = length cs - max_chars;
                  tail = (if start < length cs then concat (drop start cs) else body)
              in case split_once LF tail of Some (_, rest) \<Rightarrow> rest | None \<Rightarrow> tail)"

text \<open>Sending chunk by chunk, up to the first error; \<open>send\<close> answers the error of a chunk.\<close>

fun send_chunks :: "(string \<Rightarrow> string option) \<Rightarrow> string list \<Rightarrow> string list \<times> string option" where
  "send_chunks send [] = ([], None)"
| "send_chunks send (c # cs) =
     (case send c of
        Some e \<Rightarrow> ([], Some e)
      | None \<Rightarrow> (let (sent, e) = send_chunks send cs in (c # sent, e)))"

definition send_chunked :: "string \<Rightarrow> nat \<Rightarrow> (string \<Rightarrow> string option) \<Rightarrow> (string list \<times> string option) option" where
  "send_chunked s max_len send = map_option (send_chunks send) (split_text s max_len)"

section \<open>Valid text\<close>

definition utf8_char :: "string \<Rightarrow> bool" where
  "utf8_char c = (c \<noteq> [] \<and> length c \<le> 4 \<and> \<not> is_cont (hd c) \<and> list_all is_cont (tl c) \<and>
     ((of_char (hd c) :: nat) < 128 \<longrightarrow> tl c = []))"

definition utf8 :: "string \<Rightarrow> bool" where
  "utf8 s = (\<exists>cs. s = concat cs \<and> list_all utf8_char cs)"

lemma utf8_Nil [simp]: "utf8 []"
  unfolding utf8_def by (rule exI [of _ "[]"]) simp

lemma utf8_single: "utf8_char c \<Longrightarrow> utf8 c"
  unfolding utf8_def by (rule exI [of _ "[c]"]) simp

lemma utf8_append: "utf8 s \<Longrightarrow> utf8 t \<Longrightarrow> utf8 (s @ t)"
  unfolding utf8_def by (metis concat_append list_all_append)

lemma utf8_induct [consumes 1, case_names Nil Char]:
  assumes "utf8 s" "P []" "\<And>c s. utf8_char c \<Longrightarrow> utf8 s \<Longrightarrow> P s \<Longrightarrow> P (c @ s)"
  shows "P s"
proof -
  obtain cs where cs: "s = concat cs" "list_all utf8_char cs" using assms(1) by (auto simp: utf8_def)
  have "list_all utf8_char cs \<Longrightarrow> P (concat cs)"
  proof (induction cs)
    case (Cons c cs)
    then have "utf8_char c" "P (concat cs)" "utf8 (concat cs)" by (auto simp: utf8_def)
    then show ?case using assms(3) by simp
  qed (simp add: assms(2))
  then show ?thesis using cs by simp
qed

lemma utf8_hd: "utf8 s \<Longrightarrow> s \<noteq> [] \<Longrightarrow> \<not> is_cont (hd s)"
  by (induction rule: utf8_induct) (auto simp: utf8_char_def)

lemma boundary_shift:
  assumes "utf8_char c" "utf8 s"
  shows "is_char_boundary (c @ s) (length c + i) = is_char_boundary s i"
proof (cases "i = 0")
  case True
  then show ?thesis using utf8_hd [OF assms(2)] assms(1)
    by (cases s) (auto simp: is_char_boundary_def nth_append)
next
  case False
  then show ?thesis by (auto simp: is_char_boundary_def nth_append)
qed

lemma inside_char:
  assumes "utf8_char c" "0 < i" "i < length c"
  shows "\<not> is_char_boundary (c @ s) i"
proof -
  obtain x where c: "c = hd c # tl c" using assms(1) by (cases c) (auto simp: utf8_char_def)
  have "c ! i \<in> set (tl c)"
    using assms(2,3) by (subst c) (auto simp: nth_Cons' nth_tl [symmetric] intro!: nth_mem)
  then have "is_cont (c ! i)" using assms(1) by (auto simp: utf8_char_def list_all_iff)
  then show ?thesis using assms(2,3) by (auto simp: is_char_boundary_def nth_append)
qed

lemma utf8_split:
  assumes "utf8 s"
  shows "is_char_boundary s i \<Longrightarrow> utf8 (take i s) \<and> utf8 (drop i s)"
  using assms
proof (induction arbitrary: i rule: utf8_induct)
  case (Char c s)
  show ?case
  proof (cases "i < length c")
    case True
    then have "i = 0" using inside_char [OF Char.hyps(1)] Char.prems by blast
    then show ?thesis using utf8_append [OF utf8_single [OF Char.hyps(1)] Char.hyps(2)] by simp
  next
    case False
    then have i: "i = length c + (i - length c)" by simp
    then have "is_char_boundary s (i - length c)"
      using Char.prems boundary_shift [OF Char.hyps(1,2)] by metis
    then have "utf8 (take (i - length c) s)" "utf8 (drop (i - length c) s)" using Char.IH by blast+
    moreover have "utf8 c" by (rule utf8_single [OF Char.hyps(1)])
    ultimately show ?thesis using False by (auto intro: utf8_append)
  qed
qed simp

lemma near_boundary:
  assumes "utf8 s"
  shows "n \<le> length s \<Longrightarrow> \<exists>i \<le> n. n \<le> i + 3 \<and> is_char_boundary s i"
  using assms
proof (induction arbitrary: n rule: utf8_induct)
  case (Char c s)
  show ?case
  proof (cases "n < length c")
    case True
    then show ?thesis using Char.hyps(1) by (intro exI [of _ 0]) (auto simp: utf8_char_def is_char_boundary_def)
  next
    case False
    then have "n - length c \<le> length s" using Char.prems by simp
    from Char.IH [OF this] obtain j where "j \<le> n - length c" "n - length c \<le> j + 3" "is_char_boundary s j" by blast
    then show ?thesis using False boundary_shift [OF Char.hyps(1,2), of j] by (intro exI [of _ "length c + j"]) auto
  qed
qed (auto simp: is_char_boundary_def)

lemma floor_loop_max:
  "floor_loop s i \<le> i \<and> is_char_boundary s (floor_loop s i) \<and>
    (\<forall>j \<le> i. is_char_boundary s j \<longrightarrow> j \<le> floor_loop s i)"
proof (induction i)
  case (Suc i)
  then show ?case by (auto simp: le_Suc_eq)
qed (simp add: is_char_boundary_def)

section \<open>The chunks\<close>

lemma LF_char [simp]: "\<not> is_cont LF" "(of_char LF :: nat) = 10"
  by (simp_all add: LF_def is_cont_def)

lemma utf8_after_newline:
  assumes "utf8 (LF # t)"
  shows "utf8 t"
proof -
  obtain cs where cs: "LF # t = concat cs" "list_all utf8_char cs" using assms by (auto simp: utf8_def)
  have "list_all utf8_char cs \<Longrightarrow> LF # t = concat cs \<Longrightarrow> utf8 t"
  proof (induction cs)
    case (Cons c cs)
    then have "hd c = LF" "tl c = []" "c \<noteq> []" by (auto simp: utf8_char_def Cons_eq_append_conv)
    then have "c = [LF]" by (cases c) auto
    then show ?case using Cons.prems by (auto simp: utf8_def)
  qed simp
  then show ?thesis using cs by blast
qed

lemma rfind_Some:
  assumes "rfind_char c s = Some i"
  shows "i < length s \<and> s ! i = c"
proof -
  let ?is = "filter (\<lambda>i. s ! i = c) [0..<length s]"
  have "?is \<noteq> []" "i = last ?is" using assms by (auto simp: rfind_char_def split: list.splits)
  then have "i \<in> set ?is" using last_in_set by metis
  then show ?thesis by auto
qed

lemma chunk_facts:
  assumes "utf8 s" "s \<noteq> []" "4 \<le> m"
  shows "chunk_length m s \<le> length s \<and> chunk_length m s \<le> m \<and> is_char_boundary s (chunk_length m s) \<and>
    (0 < chunk_length m s \<or> hd s = LF)"
proof (cases "length s \<le> m")
  case True
  then show ?thesis using assms(2) by (simp add: chunk_length_def is_char_boundary_def)
next
  case False
  let ?b = "floor_loop s m"
  have b: "?b \<le> m" "is_char_boundary s ?b" using floor_loop_max [of s m] by auto
  obtain j where "j \<le> m" "m \<le> j + 3" "is_char_boundary s j"
    using near_boundary [OF assms(1), of m] False by auto
  then have "0 < ?b" using floor_loop_max [of s m] assms(3) by fastforce
  have len: "chunk_length m s = (case rfind_char LF (take ?b s) of Some i \<Rightarrow> i | None \<Rightarrow> ?b)"
    using False by (simp add: chunk_length_def floor_char_boundary_def Let_def)
  show ?thesis
  proof (cases "rfind_char LF (take ?b s)")
    case None
    then show ?thesis using len b \<open>0 < ?b\<close> False by simp
  next
    case (Some i)
    then have i: "i < ?b" "i < length s" "s ! i = LF" using rfind_Some [OF Some] by auto
    then have "is_char_boundary s i" by (simp add: is_char_boundary_def)
    moreover have "i = 0 \<Longrightarrow> hd s = LF" using i by (simp add: hd_conv_nth assms(2))
    ultimately show ?thesis using len Some i b(1) by auto
  qed
qed

definition is_separator :: "string \<Rightarrow> bool" where
  "is_separator t = (t = [] \<or> t = [LF])"

lemma skip_newline_cases:
  assumes "utf8 s"
  obtains t where "s = t @ skip_newline s" "is_separator t" "utf8 (skip_newline s)"
    "s \<noteq> [] \<Longrightarrow> hd s = LF \<Longrightarrow> t = [LF]"
proof (cases "s \<noteq> [] \<and> hd s = LF")
  case True
  then obtain u where "s = LF # u" by (cases s) auto
  then show ?thesis using that [of "[LF]"] utf8_after_newline assms
    by (simp add: skip_newline_def is_separator_def)
next
  case False
  then have "skip_newline s = s" by (cases s) (auto simp: skip_newline_def)
  then show ?thesis using assms False by (intro that [of "[]"]) (auto simp: is_separator_def)
qed

lemma split_loop_total:
  assumes "4 \<le> m"
  shows "utf8 s \<Longrightarrow> \<exists>cs seps. split_loop m s acc = Some (acc @ cs) \<and> length seps = length cs \<and>
    list_all is_separator seps \<and> list_all (\<lambda>c. length c \<le> m \<and> utf8 c) cs \<and>
    s = concat (map2 (@) cs seps)"
proof (induction "length s" arbitrary: s acc rule: less_induct)
  case less
  show ?case
  proof (cases "s = []")
    case True
    then show ?thesis by (intro exI [of _ "[]"]) (simp add: split_loop.simps)
  next
    case False
    let ?n = "chunk_length m s"
    note n = chunk_facts [OF less.prems False assms]
    then have u: "utf8 (take ?n s)" "utf8 (drop ?n s)" using utf8_split [OF less.prems] by auto
    obtain t where t: "drop ?n s = t @ skip_newline (drop ?n s)" "is_separator t"
      "utf8 (skip_newline (drop ?n s))" "drop ?n s \<noteq> [] \<Longrightarrow> hd (drop ?n s) = LF \<Longrightarrow> t = [LF]"
      using skip_newline_cases [OF u(2)] by metis
    let ?r = "skip_newline (drop ?n s)"
    have s: "s = take ?n s @ t @ ?r" unfolding t(1) [symmetric] by (rule append_take_drop_id [symmetric])
    have "0 < ?n + length t" using n t(4) False by (cases "?n = 0") auto
    moreover have "length s = ?n + length t + length ?r"
      using arg_cong [OF t(1), of length] n [THEN conjunct1] unfolding length_append length_drop by linarith
    ultimately have "length ?r < length s" by linarith
    from less.hyps [OF this t(3), of "acc @ [take ?n s]"] obtain cs seps where
      ih: "split_loop m ?r (acc @ [take ?n s]) = Some ((acc @ [take ?n s]) @ cs)"
        "length seps = length cs" "list_all is_separator seps"
        "list_all (\<lambda>c. length c \<le> m \<and> utf8 c) cs" "?r = concat (map2 (@) cs seps)" by blast
    have "split_loop m s acc = Some (acc @ take ?n s # cs)"
      using False ih(1) by (simp add: split_loop.simps [of m s] Let_def)
    moreover have "s = concat (map2 (@) (take ?n s # cs) (t # seps))" using s ih(5) by simp
    moreover have "length (take ?n s) \<le> m" using n by simp
    ultimately show ?thesis using ih(2-4) t(2) u(1)
      by (intro exI [of _ "take ?n s # cs"] exI [of _ "t # seps"]) auto
  qed
qed

text \<open>
  C40: Splitting a message for a channel always ends when the limit holds any one character: every
  chunk is valid text within the limit, and the message is the chunks in their order, with at
  most a line feed dropped after each, so nothing else of it is lost, repeated or reordered.
\<close>

theorem split_text_complete:
  assumes "utf8 s" "4 \<le> max_len"
  shows "\<exists>cs seps. split_text s max_len = Some cs \<and>
    list_all (\<lambda>c. length c \<le> max_len \<and> utf8 c) cs \<and>
    length seps = length cs \<and> list_all is_separator seps \<and> s = concat (map2 (@) cs seps)"
proof (cases "length s \<le> max_len")
  case True
  then show ?thesis using assms(1)
    by (intro exI [of _ "[s]"] exI [of _ "[[]]"]) (simp add: split_text_def is_separator_def)
next
  case False
  then show ?thesis using split_loop_total [OF assms(2,1), of "[]"] by (auto simp: split_text_def)
qed

theorem split_text_complete_witness:
  "utf8 ''hello world'' \<and> (\<exists>cs. split_text ''hello world'' 5 = Some cs \<and>
     list_all (\<lambda>c. length c \<le> 5 \<and> utf8 c) cs)"
proof -
  have "list_all utf8_char (map (\<lambda>c. [c]) ''hello world'')" by (simp add: utf8_char_def is_cont_def)
  moreover have "''hello world'' = concat (map (\<lambda>c. [c]) ''hello world'')" by simp
  ultimately have u: "utf8 ''hello world''" unfolding utf8_def by blast
  with split_text_complete [OF u, of 5] show ?thesis by auto
qed

end
