(* ===== verification/Message_Text.thy ===== *)
theory Message_Text
  imports Text_Split Session_Messages Db_Schema
begin

text \<open>
  The texts around a model request (\<open>src/src/agent_loop/message_format.rs\<close>,
  \<open>src/src/agent_loop/response_guard.rs\<close> and the request guards of
  \<open>src/src/agent_loop/loop_runner.rs\<close>). What \<open>serde_json\<close> gives for the string field of an
  object text is the argument \<open>field\<close>, its printer of call arguments the argument \<open>render\<close>, and
  a formatted local time is an argument too.
\<close>

section \<open>Thinking blocks\<close>

lemma split_once_str_shorter:
  "split_once_str p s = Some (a, b) \<Longrightarrow> p \<noteq> [] \<Longrightarrow> length b < length s"
  by (drule split_once_str_Some) (cases p, auto)

text \<open>
  The text before an opening tag is kept; the search for the closing tag starts at the opening
  tag, and without one the rest is dropped.
\<close>

function strip_tag_blocks :: "string \<Rightarrow> string \<Rightarrow> string \<Rightarrow> string" where
  "strip_tag_blocks opening closing rest =
     (if opening = [] then rest
      else case split_once_str opening rest of
             None \<Rightarrow> rest
           | Some (before, after) \<Rightarrow>
               (case split_once_str closing (opening @ after) of
                  None \<Rightarrow> before
                | Some (_, rest') \<Rightarrow>
                    if length rest' < length rest then before @ strip_tag_blocks opening closing rest'
                    else before))"
  by pat_completeness auto

termination
  by (relation "measure (\<lambda>(_, _, rest). length rest)") auto

declare strip_tag_blocks.simps [simp del]

definition strip_thinking :: "string \<Rightarrow> string" where
  "strip_thinking s =
     trim (strip_tag_blocks ''<reasoning>'' ''</reasoning>''
       (strip_tag_blocks ''<thinking>'' ''</thinking>''
         (strip_tag_blocks ''<thought>'' ''</thought>''
           (strip_tag_blocks ''<think>'' ''</think>'' s))))"

definition sanitize_assistant_response_text :: "string \<Rightarrow> string" where
  "sanitize_assistant_response_text content = strip_thinking (trim content)"

definition should_strip_thinking_for_role :: "string \<Rightarrow> bool" where
  "should_strip_thinking_for_role role = (role = ''assistant'' \<or> role = ''tool'')"

text \<open>The guard of the model never triggers: a closing tag is not empty.\<close>

lemma strip_tag_blocks_eq:
  assumes "opening \<noteq> []" "closing \<noteq> []"
  shows "strip_tag_blocks opening closing rest =
    (case split_once_str opening rest of
       None \<Rightarrow> rest
     | Some (before, after) \<Rightarrow>
         (case split_once_str closing (opening @ after) of
            None \<Rightarrow> before
          | Some (_, rest') \<Rightarrow> before @ strip_tag_blocks opening closing rest'))"
proof -
  have "length rest' < length rest"
    if "split_once_str opening rest = Some (before, after)"
      "split_once_str closing (opening @ after) = Some (x, rest')" for before after x rest'
  proof -
    have "rest = before @ opening @ after" using that(1) by (rule split_once_str_Some)
    moreover have "length rest' < length (opening @ after)"
      using split_once_str_shorter [OF that(2) assms(2)] .
    ultimately show ?thesis by simp
  qed
  then show ?thesis
    using assms(1) by (subst strip_tag_blocks.simps) (auto split: option.split prod.split)
qed

text \<open>Text without an opening tag is only trimmed.\<close>

lemma strip_tag_blocks_none: "split_once_str opening s = None \<Longrightarrow> strip_tag_blocks opening closing s = s"
  by (subst strip_tag_blocks.simps) simp

lemma strip_thinking_trimmed: "trim (strip_thinking s) = strip_thinking s"
  by (simp add: strip_thinking_def trim_idem)

section \<open>Tool previews\<close>

definition TOOL_CALL_PREFIX :: string where
  "TOOL_CALL_PREFIX = ''[tool_call] ''"

definition TOOL_RESULT_PREFIX :: string where
  "TOOL_RESULT_PREFIX = ''[tool_result]: ''"

definition TOOL_ERROR_PREFIX :: string where
  "TOOL_ERROR_PREFIX = ''[tool_error]: ''"

definition MAX_TOOL_RESULT_TEXT_CHARS :: nat where
  "MAX_TOOL_RESULT_TEXT_CHARS = 200"

definition summarize_tool_calls_with_content :: "string \<Rightarrow> 'j llm_tool_call list \<Rightarrow> string" where
  "summarize_tool_calls_with_content content calls =
     (let names = join_with '', '' (map ltc_name calls)
      in if trim content = [] then TOOL_CALL_PREFIX @ names
         else trim content @ '' '' @ TOOL_CALL_PREFIX @ names)"

definition is_tool_preview_message :: "string \<Rightarrow> bool" where
  "is_tool_preview_message content =
     (starts_with TOOL_CALL_PREFIX content \<or> starts_with TOOL_RESULT_PREFIX content \<or>
      starts_with TOOL_ERROR_PREFIX content)"

text \<open>\<open>str::rfind\<close> of a text: what comes before its last occurrence.\<close>

fun before_last :: "string \<Rightarrow> string \<Rightarrow> string option" where
  "before_last p [] = (if p = [] then Some [] else None)"
| "before_last p (c # s) =
     (case before_last p s of
        Some a \<Rightarrow> Some (c # a)
      | None \<Rightarrow> if starts_with p (c # s) then Some [] else None)"

definition tool_preview_narration :: "string \<Rightarrow> string" where
  "tool_preview_narration content =
     (case before_last ('' '' @ TOOL_CALL_PREFIX) content of
        Some before \<Rightarrow> trim_end before
      | None \<Rightarrow> content)"

definition tool_result_payload :: "'j llm_message \<Rightarrow> string option" where
  "tool_result_payload m =
     (case lm_content m of
        TextContent s \<Rightarrow> Some s
      | PartsContent parts \<Rightarrow>
          (case List.map_filter (\<lambda>p. case p of InputText s \<Rightarrow> Some s | InputImage _ _ \<Rightarrow> None) parts of
             [] \<Rightarrow> None | s # _ \<Rightarrow> Some s))"

definition is_tool_error_message :: "(string \<Rightarrow> string \<Rightarrow> string option) \<Rightarrow> 'j llm_message \<Rightarrow> bool" where
  "is_tool_error_message field m =
     (case tool_result_payload m of
        None \<Rightarrow> False
      | Some payload \<Rightarrow> field payload ''status'' = Some ''error'')"

definition tool_result_body :: "(string \<Rightarrow> string \<Rightarrow> string option) \<Rightarrow> string \<Rightarrow> string" where
  "tool_result_body field payload =
     (case field payload ''result'' of Some body \<Rightarrow> body | None \<Rightarrow> payload)"

definition render_tool_body :: "(string \<Rightarrow> string \<Rightarrow> string option) \<Rightarrow> string \<Rightarrow> bool \<Rightarrow> string" where
  "render_tool_body field payload shorten =
     (if shorten
      then truncate_by_chars (strip_thinking (tool_result_body field payload)) MAX_TOOL_RESULT_TEXT_CHARS
      else strip_thinking payload)"

definition tool_message_prefix :: "(string \<Rightarrow> string \<Rightarrow> string option) \<Rightarrow> 'j llm_message \<Rightarrow> string" where
  "tool_message_prefix field m = (if is_tool_error_message field m then TOOL_ERROR_PREFIX else TOOL_RESULT_PREFIX)"

definition render_tool_message_text ::
  "(string \<Rightarrow> string \<Rightarrow> string option) \<Rightarrow> 'j llm_message \<Rightarrow> bool \<Rightarrow> string" where
  "render_tool_message_text field m shorten =
     (let payload = (case tool_result_payload m of Some p \<Rightarrow> p | None \<Rightarrow> [])
      in tool_message_prefix field m @ render_tool_body field payload shorten)"

section \<open>Messages as text\<close>

definition sanitize_message_text :: "string \<Rightarrow> bool \<Rightarrow> string" where
  "sanitize_message_text s should_strip = (if should_strip then strip_thinking s else s)"

fun format_message_part :: "bool \<Rightarrow> bool \<Rightarrow> message_content_part \<Rightarrow> string option" where
  "format_message_part should_strip with_image (InputText s) =
     (let t = sanitize_message_text s should_strip in if t \<noteq> [] then Some t else None)"
| "format_message_part should_strip with_image (InputImage url detail) =
     Some (if \<not> with_image then ''[image]''
           else case detail of
                  Some d \<Rightarrow> ''[image: '' @ url @ '' detail='' @ d @ '']''
                | None \<Rightarrow> ''[image: '' @ url @ '']'')"

fun format_message_content :: "message_content_part content \<Rightarrow> bool \<Rightarrow> bool \<Rightarrow> string" where
  "format_message_content (TextContent s) should_strip with_image = sanitize_message_text s should_strip"
| "format_message_content (PartsContent parts) should_strip with_image =
     join_with [LF] (List.map_filter (format_message_part should_strip with_image) parts)"

definition render_message_with_tool_calls ::
  "('j \<Rightarrow> string) \<Rightarrow> string \<Rightarrow> 'j llm_tool_call list \<Rightarrow> string" where
  "render_message_with_tool_calls render content calls =
     join_with [LF] ((if trim content \<noteq> [] then [content] else []) @
       map (\<lambda>c. ''[tool_use: '' @ ltc_name c @ ''('' @ render (ltc_arguments c) @ '')]'') calls)"

definition message_to_text ::
  "(string \<Rightarrow> string \<Rightarrow> string option) \<Rightarrow> ('j \<Rightarrow> string) \<Rightarrow> 'j llm_message \<Rightarrow> string" where
  "message_to_text field render m =
     (if lm_tool_call_id m \<noteq> None then render_tool_message_text field m True
      else render_message_with_tool_calls render
        (format_message_content (lm_content m) (should_strip_thinking_for_role (lm_role m)) False)
        (lm_tool_calls m))"

definition message_to_archive_text ::
  "(string \<Rightarrow> string \<Rightarrow> string option) \<Rightarrow> ('j \<Rightarrow> string) \<Rightarrow> 'j llm_message \<Rightarrow> string" where
  "message_to_archive_text field render m =
     (if lm_tool_call_id m \<noteq> None then render_tool_message_text field m False
      else render_message_with_tool_calls render
        (format_message_content (lm_content m) (should_strip_thinking_for_role (lm_role m)) True)
        (lm_tool_calls m))"

definition format_direct_input :: "string \<Rightarrow> string \<Rightarrow> string" where
  "format_direct_input timestamp input =
     ''<direct-input>'' @ [LF] @ ''[Current time: '' @ timestamp @ '']'' @ [LF] @ input @ [LF] @
     ''</direct-input>''"

definition format_channel_log_message :: "stored_message \<Rightarrow> string" where
  "format_channel_log_message m =
     ''[room-event kind='' @ message_kind_display (msg_message_kind m) @ '' sender='' @ msg_sender_id m @
     '' recipient='' @ (case msg_recipient_agent_id m of Some r \<Rightarrow> r | None \<Rightarrow> ''-'') @
     '' sender-kind='' @ sender_kind_display (msg_sender_kind m) @ '']'' @ [LF] @ msg_content m"

lemma bare_preview_recognised:
  "trim content = [] \<Longrightarrow> is_tool_preview_message (summarize_tool_calls_with_content content calls)"
  by (simp add: is_tool_preview_message_def summarize_tool_calls_with_content_def starts_with_def)

section \<open>Runtime guards\<close>

definition EMPTY_REPLY_RUNTIME_GUARD :: string where
  "EMPTY_REPLY_RUNTIME_GUARD =
     ''[runtime_guard]: Your previous reply had no user-visible text. Reply again now with a concise '' @
     ''visible answer. If tools are required, execute them first and then provide the visible result.''"

definition runtime_guard_messages ::
  "'j llm_message list \<Rightarrow> string \<Rightarrow> string option \<Rightarrow> string \<Rightarrow> 'j llm_message list" where
  "runtime_guard_messages ms assistant_text reasoning guard =
     ms @ [(text_message ''assistant'' assistant_text)\<lparr>lm_reasoning_content := reasoning\<rparr>,
           text_message ''user'' guard]"

definition MAX_TOOL_ITERATIONS :: nat where
  "MAX_TOOL_ITERATIONS = 50"

definition FINAL_RESPONSE_WARNING_ITERATION :: nat where
  "FINAL_RESPONSE_WARNING_ITERATION = MAX_TOOL_ITERATIONS - 2"

definition FINAL_RESPONSE_WARNING_GUARD :: string where
  "FINAL_RESPONSE_WARNING_GUARD =
     ''[runtime_guard]: The tool loop is near its hard limit. Two model iterations remain after '' @
     ''this one. Do not start broad new work; prepare the best concise answer for the user now '' @
     ''and state any uncertainty. If this is a Pulse activation and you have used tools, '' @
     ''summarize the result instead of returning PULSE_OK.''"

definition FINAL_RESPONSE_GUARD :: string where
  "FINAL_RESPONSE_GUARD =
     ''[runtime_guard]: The tool loop is at its final response window. Provide the best concise '' @
     ''answer to the user now. Do not start broad new work; state what was completed and any '' @
     ''uncertainty. If this is a Pulse activation and you have used tools, summarize the result '' @
     ''instead of returning PULSE_OK.''"

definition GUARD_DENIAL_WRAP_GUARD :: string where
  "GUARD_DENIAL_WRAP_GUARD =
     ''[runtime_guard]: The security-guard denial limit has been reached for this run. Treat the '' @
     ''denials as final and stop attempting workarounds or further tool work. Wrap up now: report '' @
     ''to the user what you were trying to do, what was blocked, and any results obtained, then '' @
     ''ask how they want to proceed. If this is a Pulse activation, summarize the outcome instead '' @
     ''of returning PULSE_OK.''"

definition messages_for_iteration :: "'j llm_message list \<Rightarrow> nat \<Rightarrow> 'j llm_message list" where
  "messages_for_iteration ms iteration =
     (if iteration = FINAL_RESPONSE_WARNING_ITERATION
      then ms @ [text_message ''user'' FINAL_RESPONSE_WARNING_GUARD]
      else if FINAL_RESPONSE_WARNING_ITERATION < iteration
      then ms @ [text_message ''user'' FINAL_RESPONSE_GUARD]
      else ms)"

definition append_guard_denial_wrap :: "'j llm_message list \<Rightarrow> bool \<Rightarrow> 'j llm_message list" where
  "append_guard_denial_wrap ms limit_reached =
     (if \<not> limit_reached then ms else ms @ [text_message ''user'' GUARD_DENIAL_WRAP_GUARD])"

definition apply_guard_denial_state :: "'d list \<Rightarrow> bool \<Rightarrow> 'd list" where
  "apply_guard_denial_state tool_defs limit_reached = (if limit_reached then [] else tool_defs)"

text \<open>The counter of security-guard denials (\<open>src/src/agent_loop/tool_execution.rs\<close>).\<close>

definition GUARD_DENIAL_LIMIT :: nat where
  "GUARD_DENIAL_LIMIT = 3"

definition record_denial :: "nat \<Rightarrow> bool \<times> nat" where
  "record_denial count = (count = GUARD_DENIAL_LIMIT - 1, count + 1)"

definition limit_reached :: "nat \<Rightarrow> bool" where
  "limit_reached count = (GUARD_DENIAL_LIMIT \<le> count)"

end
