(* ===== verification/Pulse_Definition.thy ===== *)
theory Pulse_Definition
  imports Rust_Text
begin

text \<open>
  The agent's \<open>PULSE.yaml\<close> (\<open>src/src/pulse/definition.rs\<close>, first half): the document as
  written, its validation into a definition, and the load, save and archive operations. The
  YAML printer and parser and chrono's date parser are arguments; a file is its content or the
  error reading it gives, and the outcome of the write of a save is an argument too.
\<close>

section \<open>Data\<close>

record delivery_spec =
  ds_channel :: string
  ds_external_chat_id :: string

datatype temporal_schedule =
    Daily (sched_at: string)
  | Weekly (sched_day: string) (sched_at: string)
  | Interval (sched_interval_days: int) (sched_at: string)
  | Once (sched_date: string) (sched_at: string)

record temporal_intention =
  ti_id :: string
  ti_enabled :: bool
  ti_schedule :: temporal_schedule
  ti_attention :: string
  ti_delivery :: "delivery_spec option"

record pulse_definition =
  pd_enabled :: bool
  pd_default_delivery :: "delivery_spec option"
  pd_intentions :: "temporal_intention list"

datatype pulse_parse_error =
    ParseFailed string string
  | UnsafeAgentId string
  | DuplicateIntentionId string string
  | InvalidSchedule string string string
  | InvalidDelivery string string
  | SaveFailed string string

record schedule_raw =
  sw_kind :: string
  sw_at :: string
  sw_day :: "string option"
  sw_interval_days :: "int option"
  sw_date :: "string option"

record intention_raw =
  iw_id :: string
  iw_enabled :: bool
  iw_schedule :: schedule_raw
  iw_attention :: string
  iw_delivery :: "delivery_spec option"

record document_raw =
  dw_enabled :: bool
  dw_default_delivery :: "delivery_spec option"
  dw_intentions :: "intention_raw list"

section \<open>Validation\<close>

definition VALID_DELIVERY_CHANNELS :: "string list" where
  "VALID_DELIVERY_CHANNELS = [''discord'', ''telegram'', ''web'']"

definition VALID_WEEKDAYS :: "string list" where
  "VALID_WEEKDAYS = [''mon'', ''tue'', ''wed'', ''thu'', ''fri'', ''sat'', ''sun'']"

definition I64_TOP :: int where
  "I64_TOP = 2 ^ 63 - 1"

definition U32_TOP :: int where
  "U32_TOP = 2 ^ 32 - 1"

definition parse_web_chat_id :: "string \<Rightarrow> int option" where
  "parse_web_chat_id external_chat_id =
     (case strip_prefix ''chat:'' external_chat_id of
        None \<Rightarrow> None
      | Some raw \<Rightarrow>
          if raw = [] \<or> \<not> list_all is_digit raw then None
          else (case parse_unsigned I64_TOP raw of
                  None \<Rightarrow> None
                | Some chat_id \<Rightarrow> if chat_id > 0 then Some chat_id else None))"

definition validate_delivery_raw ::
  "string \<Rightarrow> delivery_spec \<Rightarrow> string \<Rightarrow> pulse_parse_error + delivery_spec" where
  "validate_delivery_raw agent_id raw source =
     (let channel = to_ascii_lowercase (trim (ds_channel raw));
          external_chat_id = trim (ds_external_chat_id raw)
      in if channel \<notin> set VALID_DELIVERY_CHANNELS
         then Inl (InvalidDelivery agent_id (source @ '': invalid delivery channel: '' @ channel @
                '', expected one of '' @ join_with '', '' VALID_DELIVERY_CHANNELS))
         else if external_chat_id = []
         then Inl (InvalidDelivery agent_id (source @ '': delivery external_chat_id must not be empty''))
         else if channel = ''web'' \<and> parse_web_chat_id external_chat_id = None
         then Inl (InvalidDelivery agent_id (source @
                '': web delivery external_chat_id must be a WebUI session ID (chat:{id}), got: '' @
                external_chat_id))
         else Inr \<lparr>ds_channel = channel, ds_external_chat_id = external_chat_id\<rparr>)"

definition validate_date ::
  "(string \<Rightarrow> int option) \<Rightarrow> string \<Rightarrow> string \<Rightarrow> string \<Rightarrow> pulse_parse_error + int" where
  "validate_date parse_date agent_id intention_id date =
     ok_or (parse_date date)
       (InvalidSchedule agent_id intention_id (''invalid date format: '' @ date @ '', expected YYYY-MM-DD''))"

definition validate_hhmm :: "string \<Rightarrow> string \<Rightarrow> string \<Rightarrow> pulse_parse_error + unit" where
  "validate_hhmm agent_id intention_id at =
     (case split_on CHR '':'' at of
        [h, m] \<Rightarrow>
          (let hour = (case parse_unsigned U32_TOP h of Some n \<Rightarrow> n | None \<Rightarrow> 24);
               minute = (case parse_unsigned U32_TOP m of Some n \<Rightarrow> n | None \<Rightarrow> 60)
           in if hour > 23 \<or> minute > 59
              then Inl (InvalidSchedule agent_id intention_id (''invalid time: '' @ at @
                     '', hour must be 0-23 and minute must be 0-59''))
              else Inr ())
      | _ \<Rightarrow> Inl (InvalidSchedule agent_id intention_id
                   (''invalid time format: '' @ at @ '', expected HH:MM'')))"

definition validate_interval_days :: "string \<Rightarrow> string \<Rightarrow> int \<Rightarrow> pulse_parse_error + unit" where
  "validate_interval_days agent_id intention_id interval_days =
     require (interval_days \<noteq> 0)
       (InvalidSchedule agent_id intention_id ''interval_days must be >= 1'')"

definition validate_weekday :: "string \<Rightarrow> string \<Rightarrow> string \<Rightarrow> pulse_parse_error + unit" where
  "validate_weekday agent_id intention_id day =
     require (day \<in> set VALID_WEEKDAYS)
       (InvalidSchedule agent_id intention_id
         (''invalid weekday: '' @ day @ '', expected one of mon,tue,wed,thu,fri,sat,sun''))"

definition or_empty :: "string option \<Rightarrow> string" where
  "or_empty m = (case m of None \<Rightarrow> [] | Some s \<Rightarrow> s)"

definition validate_and_build_schedule ::
  "(string \<Rightarrow> int option) \<Rightarrow> string \<Rightarrow> intention_raw \<Rightarrow> pulse_parse_error + temporal_schedule" where
  "validate_and_build_schedule parse_date agent_id raw =
     (let s = iw_schedule raw; i = iw_id raw; at = sw_at s
      in if sw_kind s = ''daily''
         then rbind (validate_hhmm agent_id i at) (\<lambda>_. Inr (Daily at))
         else if sw_kind s = ''weekly''
         then let day = to_ascii_lowercase (or_empty (sw_day s))
              in rbind (validate_weekday agent_id i day) (\<lambda>_.
                 rbind (validate_hhmm agent_id i at) (\<lambda>_. Inr (Weekly day at)))
         else if sw_kind s = ''interval''
         then let n = (case sw_interval_days s of None \<Rightarrow> 0 | Some n \<Rightarrow> n)
              in rbind (validate_interval_days agent_id i n) (\<lambda>_.
                 rbind (validate_hhmm agent_id i at) (\<lambda>_. Inr (Interval n at)))
         else if sw_kind s = ''once''
         then let date = or_empty (sw_date s)
              in rbind (validate_date parse_date agent_id i date) (\<lambda>_.
                 rbind (validate_hhmm agent_id i at) (\<lambda>_. Inr (Once date at)))
         else Inl (InvalidSchedule agent_id i (''unknown schedule kind: '' @ sw_kind s)))"

definition validate_delivery ::
  "string \<Rightarrow> string \<Rightarrow> delivery_spec option \<Rightarrow> pulse_parse_error + delivery_spec option" where
  "validate_delivery agent_id source raw =
     (case raw of
        None \<Rightarrow> Inr None
      | Some d \<Rightarrow> rbind (validate_delivery_raw agent_id d source) (\<lambda>s. Inr (Some s)))"

text \<open>The body of the loop over the raw intentions; \<open>seen\<close> is the set of earlier ids.\<close>

fun build_intentions ::
  "(string \<Rightarrow> int option) \<Rightarrow> string \<Rightarrow> string set \<Rightarrow> intention_raw list \<Rightarrow>
   pulse_parse_error + temporal_intention list" where
  "build_intentions parse_date agent_id seen [] = Inr []"
| "build_intentions parse_date agent_id seen (raw # rest) =
     (if iw_id raw \<in> seen then Inl (DuplicateIntentionId agent_id (iw_id raw))
      else rbind (validate_and_build_schedule parse_date agent_id raw) (\<lambda>schedule.
           rbind (validate_delivery agent_id (''intention '' @ [CHR 0x27] @ iw_id raw @ [CHR 0x27]) (iw_delivery raw)) (\<lambda>delivery.
           rbind (build_intentions parse_date agent_id (insert (iw_id raw) seen) rest) (\<lambda>done.
           Inr (\<lparr>ti_id = iw_id raw, ti_enabled = iw_enabled raw, ti_schedule = schedule,
                 ti_attention = iw_attention raw, ti_delivery = delivery\<rparr> # done)))))"

text \<open>What is built once the YAML parser has read the document.\<close>

definition build_definition ::
  "(string \<Rightarrow> int option) \<Rightarrow> string \<Rightarrow> document_raw \<Rightarrow> pulse_parse_error + pulse_definition" where
  "build_definition parse_date agent_id doc =
     rbind (validate_delivery agent_id ''default_delivery'' (dw_default_delivery doc)) (\<lambda>default_delivery.
     rbind (build_intentions parse_date agent_id {} (dw_intentions doc)) (\<lambda>intentions.
     Inr \<lparr>pd_enabled = dw_enabled doc, pd_default_delivery = default_delivery,
          pd_intentions = intentions\<rparr>))"

definition unset_definition :: pulse_definition where
  "unset_definition = \<lparr>pd_enabled = True, pd_default_delivery = None, pd_intentions = []\<rparr>"

text \<open>\<open>from_yaml\<close> is the YAML parser into the raw document, with the error's text.\<close>

definition parse_pulse_definition_inner ::
  "(string \<Rightarrow> string + document_raw) \<Rightarrow> (string \<Rightarrow> int option) \<Rightarrow> string \<Rightarrow> string \<Rightarrow>
   pulse_parse_error + pulse_definition" where
  "parse_pulse_definition_inner from_yaml parse_date content agent_id =
     (let trimmed = trim (crlf_to_lf content)
      in if trimmed = [] then Inr unset_definition
         else rbind (map_err (\<lambda>e. ParseFailed agent_id e) (from_yaml trimmed))
                (build_definition parse_date agent_id))"

section \<open>Writing\<close>

definition to_schedule_raw :: "temporal_schedule \<Rightarrow> schedule_raw" where
  "to_schedule_raw s =
     (case s of
        Daily at \<Rightarrow> \<lparr>sw_kind = ''daily'', sw_at = at, sw_day = None, sw_interval_days = None, sw_date = None\<rparr>
      | Weekly day at \<Rightarrow>
          \<lparr>sw_kind = ''weekly'', sw_at = at, sw_day = Some day, sw_interval_days = None, sw_date = None\<rparr>
      | Interval n at \<Rightarrow>
          \<lparr>sw_kind = ''interval'', sw_at = at, sw_day = None, sw_interval_days = Some n, sw_date = None\<rparr>
      | Once date at \<Rightarrow>
          \<lparr>sw_kind = ''once'', sw_at = at, sw_day = None, sw_interval_days = None, sw_date = Some date\<rparr>)"

definition to_intention_raw :: "temporal_intention \<Rightarrow> intention_raw" where
  "to_intention_raw i =
     \<lparr>iw_id = ti_id i, iw_enabled = ti_enabled i, iw_schedule = to_schedule_raw (ti_schedule i),
      iw_attention = ti_attention i, iw_delivery = ti_delivery i\<rparr>"

definition to_document_raw :: "pulse_definition \<Rightarrow> document_raw" where
  "to_document_raw d =
     \<lparr>dw_enabled = pd_enabled d, dw_default_delivery = pd_default_delivery d,
      dw_intentions = map to_intention_raw (pd_intentions d)\<rparr>"

definition format_schedule :: "temporal_schedule \<Rightarrow> string" where
  "format_schedule s =
     (case s of
        Daily at \<Rightarrow> ''daily '' @ at
      | Weekly day at \<Rightarrow> ''weekly '' @ day @ '' '' @ at
      | Interval n at \<Rightarrow> ''every '' @ show_int n @ '' days '' @ at
      | Once date at \<Rightarrow> ''once '' @ date @ '' '' @ at)"

definition suggest_intention_id :: "temporal_schedule \<Rightarrow> string" where
  "suggest_intention_id s =
     (let hhmm = remove_char CHR '':''
      in case s of
           Daily at \<Rightarrow> ''daily-'' @ hhmm at
         | Weekly day at \<Rightarrow> ''weekly-'' @ day @ ''-'' @ hhmm at
         | Interval n at \<Rightarrow> ''every-'' @ show_int n @ ''d-'' @ hhmm at
         | Once date at \<Rightarrow> ''once-'' @ remove_char CHR ''-'' date @ ''-'' @ hhmm at)"

section \<open>Files\<close>

definition is_safe_agent_id :: "string \<Rightarrow> bool" where
  "is_safe_agent_id i =
     (i \<noteq> [] \<and> trim i \<noteq> [] \<and> \<not> contains_str ''..'' i \<and> CHR ''/'' \<notin> set i \<and>
      CHR 0x5C \<notin> set i \<and> CHR '':'' \<notin> set i)"

text \<open>The \<open>PULSE.yaml\<close> of each agent: no file, a file that cannot be read, or its content.\<close>

type_synonym pulse_files = "string \<Rightarrow> (string + string) option"

definition load_pulse_definition ::
  "(string \<Rightarrow> string + document_raw) \<Rightarrow> (string \<Rightarrow> int option) \<Rightarrow> pulse_files \<Rightarrow> string \<Rightarrow>
   pulse_parse_error + pulse_definition" where
  "load_pulse_definition from_yaml parse_date files agent_id =
     (if \<not> is_safe_agent_id agent_id then Inl (UnsafeAgentId agent_id)
      else case files agent_id of
        None \<Rightarrow> Inr unset_definition
      | Some (Inl e) \<Rightarrow> Inl (ParseFailed agent_id (''failed to read PULSE.yaml: '' @ e))
      | Some (Inr content) \<Rightarrow> parse_pulse_definition_inner from_yaml parse_date content agent_id)"

text \<open>
  \<open>written\<close> is the outcome of creating the directory, writing the temporary file and renaming
  it: none, or the detail of the step that failed. The rename is the only step that changes the
  agent's file.
\<close>

definition save_pulse_definition ::
  "(string \<Rightarrow> string + document_raw) \<Rightarrow> (string \<Rightarrow> int option) \<Rightarrow> (document_raw \<Rightarrow> string + string) \<Rightarrow>
   string option \<Rightarrow> string \<Rightarrow> pulse_definition \<Rightarrow> pulse_files \<Rightarrow> pulse_parse_error + pulse_files" where
  "save_pulse_definition from_yaml parse_date to_yaml written agent_id d files =
     (if \<not> is_safe_agent_id agent_id then Inl (UnsafeAgentId agent_id)
      else rbind (map_err (\<lambda>e. SaveFailed agent_id (''failed to serialize PULSE.yaml: '' @ e))
                    (to_yaml (to_document_raw d))) (\<lambda>yaml.
           rbind (parse_pulse_definition_inner from_yaml parse_date yaml agent_id) (\<lambda>_.
           case written of
             Some detail \<Rightarrow> Inl (SaveFailed agent_id detail)
           | None \<Rightarrow> Inr (files(agent_id \<mapsto> Inr yaml)))))"

definition archive_intention ::
  "(string \<Rightarrow> string + document_raw) \<Rightarrow> (string \<Rightarrow> int option) \<Rightarrow> (document_raw \<Rightarrow> string + string) \<Rightarrow>
   string option \<Rightarrow> string \<Rightarrow> temporal_intention \<Rightarrow> pulse_files \<Rightarrow>
   pulse_parse_error + (bool \<times> pulse_files)" where
  "archive_intention from_yaml parse_date to_yaml written agent_id expected files =
     rbind (load_pulse_definition from_yaml parse_date files agent_id) (\<lambda>d.
     case List.find (\<lambda>i. ti_id i = ti_id expected) (pd_intentions d) of
       None \<Rightarrow> Inr (False, files)
     | Some current \<Rightarrow>
         if current \<noteq> expected then Inr (False, files)
         else rbind (save_pulse_definition from_yaml parse_date to_yaml written agent_id
                  (d\<lparr>pd_intentions := filter (\<lambda>i. ti_id i \<noteq> ti_id expected) (pd_intentions d)\<rparr>) files)
                (\<lambda>files'. Inr (True, files')))"

section \<open>A validated definition\<close>

text \<open>
  Validation is idempotent: what it accepts is written back as a document that it accepts with
  the same result. So a definition that was loaded, changed by dropping intentions and saved is
  loaded again as it was saved.
\<close>

definition canonical :: "(string \<Rightarrow> int option) \<Rightarrow> string \<Rightarrow> pulse_definition \<Rightarrow> bool" where
  "canonical parse_date agent_id d = (build_definition parse_date agent_id (to_document_raw d) = Inr d)"

lemma clean_channel: "c \<in> set VALID_DELIVERY_CHANNELS \<Longrightarrow> to_ascii_lowercase (trim c) = c"
proof -
  have "to_ascii_lowercase (trim ''discord'') = ''discord''" "to_ascii_lowercase (trim ''telegram'') = ''telegram''"
    "to_ascii_lowercase (trim ''web'') = ''web''" by code_simp+
  then show "c \<in> set VALID_DELIVERY_CHANNELS \<Longrightarrow> to_ascii_lowercase (trim c) = c"
    by (auto simp: VALID_DELIVERY_CHANNELS_def)
qed

lemma clean_weekday: "d \<in> set VALID_WEEKDAYS \<Longrightarrow> to_ascii_lowercase d = d"
  by (auto simp: VALID_WEEKDAYS_def to_ascii_lowercase_def ascii_lower_char_def)

lemma delivery_idem:
  "validate_delivery_raw a raw src = Inr d \<Longrightarrow> validate_delivery_raw a d src' = Inr d"
  by (auto simp: validate_delivery_raw_def Let_def clean_channel split: if_splits)

lemma validate_delivery_idem:
  "validate_delivery a src raw = Inr d \<Longrightarrow> validate_delivery a src' d = Inr d"
  by (auto simp: validate_delivery_def res_simps dest: delivery_idem split: option.splits)

lemma schedule_idem:
  assumes "validate_and_build_schedule pd a raw = Inr s"
    "iw_id raw' = iw_id raw" "iw_schedule raw' = to_schedule_raw s"
  shows "validate_and_build_schedule pd a raw' = Inr s"
  using assms
  by (auto simp: validate_and_build_schedule_def Let_def res_simps to_schedule_raw_def or_empty_def
      validate_weekday_def clean_weekday split: if_splits)

definition valid_intention :: "(string \<Rightarrow> int option) \<Rightarrow> string \<Rightarrow> temporal_intention \<Rightarrow> bool" where
  "valid_intention parse_date agent_id i =
     (validate_and_build_schedule parse_date agent_id (to_intention_raw i) = Inr (ti_schedule i) \<and>
      (\<forall>src. validate_delivery agent_id src (ti_delivery i) = Inr (ti_delivery i)))"

lemma built_valid:
  "build_intentions pd a seen raws = Inr is \<Longrightarrow>
     (\<forall>i \<in> set is. valid_intention pd a i \<and> ti_id i \<notin> seen) \<and> distinct (map ti_id is)"
proof (induction raws arbitrary: seen "is")
  case (Cons raw raws)
  then obtain s d js where j: "iw_id raw \<notin> seen" "validate_and_build_schedule pd a raw = Inr s"
      "\<exists>src. validate_delivery a src (iw_delivery raw) = Inr d"
      "build_intentions pd a (insert (iw_id raw) seen) raws = Inr js"
      "is = \<lparr>ti_id = iw_id raw, ti_enabled = iw_enabled raw, ti_schedule = s,
        ti_attention = iw_attention raw, ti_delivery = d\<rparr> # js"
    by (auto simp: res_simps split: if_splits)
  have "valid_intention pd a (hd is)"
    using j(2,3) by (auto simp: valid_intention_def j(5) to_intention_raw_def
        intro: schedule_idem validate_delivery_idem)
  then show ?case using Cons.IH [OF j(4)] j(1,5) by auto
qed simp

lemma valid_built:
  "\<forall>i \<in> set is. valid_intention pd a i \<and> ti_id i \<notin> seen \<Longrightarrow> distinct (map ti_id is) \<Longrightarrow>
     build_intentions pd a seen (map to_intention_raw is) = Inr is"
proof (induction "is" arbitrary: seen)
  case (Cons i "is")
  have "build_intentions pd a (insert (ti_id i) seen) (map to_intention_raw is) = Inr is"
  proof (rule Cons.IH)
    have "ti_id j \<noteq> ti_id i" if "j \<in> set is" for j
      using Cons.prems(2) that by (metis distinct.simps(2) image_eqI list.set_map list.simps(9))
    then show "\<forall>j \<in> set is. valid_intention pd a j \<and> ti_id j \<notin> insert (ti_id i) seen"
      using Cons.prems(1) by auto
    show "distinct (map ti_id is)" using Cons.prems(2) by simp
  qed
  then show ?case using Cons.prems by (simp add: valid_intention_def) (simp add: to_intention_raw_def)
qed simp

lemma canonical_iff:
  "canonical pd a d =
     (validate_delivery a ''default_delivery'' (pd_default_delivery d) = Inr (pd_default_delivery d) \<and>
      (\<forall>i \<in> set (pd_intentions d). valid_intention pd a i) \<and> distinct (map ti_id (pd_intentions d)))"
proof
  show "canonical pd a d \<Longrightarrow> validate_delivery a ''default_delivery'' (pd_default_delivery d) =
      Inr (pd_default_delivery d) \<and> (\<forall>i \<in> set (pd_intentions d). valid_intention pd a i) \<and>
      distinct (map ti_id (pd_intentions d))"
    by (cases d) (auto simp: canonical_def build_definition_def to_document_raw_def res_simps
        dest: built_valid)
  show "validate_delivery a ''default_delivery'' (pd_default_delivery d) = Inr (pd_default_delivery d) \<and>
      (\<forall>i \<in> set (pd_intentions d). valid_intention pd a i) \<and> distinct (map ti_id (pd_intentions d)) \<Longrightarrow>
      canonical pd a d"
    by (cases d) (simp add: canonical_def build_definition_def to_document_raw_def valid_built)
qed

lemma built_canonical: "build_definition pd a doc = Inr d \<Longrightarrow> canonical pd a d"
  by (auto simp: canonical_iff build_definition_def res_simps
      dest: built_valid validate_delivery_idem)

lemma loaded_canonical:
  assumes "load_pulse_definition from_yaml pd files a = Inr d"
  shows "canonical pd a d"
proof -
  have "canonical pd a unset_definition"
    by (simp add: canonical_iff unset_definition_def validate_delivery_def)
  then show ?thesis using assms
    by (auto simp: load_pulse_definition_def parse_pulse_definition_inner_def Let_def res_simps
        split: if_splits option.splits sum.splits intro: built_canonical)
qed

section \<open>Saving and archiving\<close>

text \<open>What the YAML library is trusted with: the text printed for the document reads back as it.\<close>

definition yaml_faithful ::
  "(string \<Rightarrow> string + document_raw) \<Rightarrow> (document_raw \<Rightarrow> string + string) \<Rightarrow> document_raw \<Rightarrow> bool" where
  "yaml_faithful from_yaml to_yaml doc =
     (case to_yaml doc of
        Inl _ \<Rightarrow> False
      | Inr y \<Rightarrow> trim (crlf_to_lf y) \<noteq> [] \<and> from_yaml (trim (crlf_to_lf y)) = Inr doc)"

lemma save_reloads:
  assumes "is_safe_agent_id a" "canonical pd a d" "yaml_faithful from_yaml to_yaml (to_document_raw d)"
  shows "\<exists>y. save_pulse_definition from_yaml pd to_yaml None a d files = Inr (files(a \<mapsto> Inr y)) \<and>
    parse_pulse_definition_inner from_yaml pd y a = Inr d"
proof -
  obtain y where y: "to_yaml (to_document_raw d) = Inr y" "trim (crlf_to_lf y) \<noteq> []"
    "from_yaml (trim (crlf_to_lf y)) = Inr (to_document_raw d)"
    using assms(3) by (auto simp: yaml_faithful_def split: sum.splits)
  have "parse_pulse_definition_inner from_yaml pd y a = Inr d"
    using y(2,3) assms(2) by (simp add: parse_pulse_definition_inner_def map_err_def canonical_def)
  then show ?thesis
    using assms(1) y(1) by (intro exI [of _ y]) (simp add: save_pulse_definition_def map_err_def)
qed

text \<open>
  C37: A validated definition that is saved is loaded again exactly as it was saved, and no other
  agent's definition changes; every definition that was loaded is validated in this sense, also
  after intentions were dropped from it or it was switched on or off.
\<close>

theorem saved_definition_reloads:
  assumes "is_safe_agent_id a" "load_pulse_definition from_yaml pd files0 a = Inr d0"
    "d = d0\<lparr>pd_enabled := b, pd_intentions := filter P (pd_intentions d0)\<rparr>"
    "yaml_faithful from_yaml to_yaml (to_document_raw d)"
  shows "\<exists>files'. save_pulse_definition from_yaml pd to_yaml None a d files = Inr files' \<and>
    load_pulse_definition from_yaml pd files' a = Inr d \<and>
    (\<forall>c. c \<noteq> a \<longrightarrow> load_pulse_definition from_yaml pd files' c = load_pulse_definition from_yaml pd files c)"
proof -
  have "canonical pd a d"
    using loaded_canonical [OF assms(2)] by (auto simp: canonical_iff assms(3) distinct_map_filter)
  from save_reloads [OF assms(1) this assms(4)] obtain y
    where "save_pulse_definition from_yaml pd to_yaml None a d files = Inr (files(a \<mapsto> Inr y))"
      "parse_pulse_definition_inner from_yaml pd y a = Inr d" by blast
  then show ?thesis using assms(1) by (auto simp: load_pulse_definition_def)
qed

definition sample_intention :: temporal_intention where
  "sample_intention = \<lparr>ti_id = ''greet'', ti_enabled = True, ti_schedule = Daily ''09:00'',
     ti_attention = ''say hello'', ti_delivery = None\<rparr>"

definition sample_definition :: pulse_definition where
  "sample_definition =
     \<lparr>pd_enabled = True, pd_default_delivery = None, pd_intentions = [sample_intention]\<rparr>"

definition sample_files :: pulse_files where
  "sample_files = [''ana'' \<mapsto> Inr ''greet'']"

text \<open>A reader and printer of two documents, one with the intention and one without.\<close>

definition sample_from_yaml :: "string \<Rightarrow> string + document_raw" where
  "sample_from_yaml s = Inr (to_document_raw
     (if s = ''greet'' then sample_definition else sample_definition\<lparr>pd_intentions := []\<rparr>))"

definition sample_to_yaml :: "document_raw \<Rightarrow> string + string" where
  "sample_to_yaml doc = Inr (if dw_intentions doc = [] then ''none'' else ''greet'')"

lemma sample_trim: "trim (crlf_to_lf ''greet'') = ''greet''" "trim (crlf_to_lf ''none'') = ''none''"
  "is_safe_agent_id ''ana''" "trim ''greet'' = ''greet''" "trim ''none'' = ''none''"
  by code_simp+

lemma sample_loaded: "load_pulse_definition sample_from_yaml pd sample_files ''ana'' = Inr sample_definition"
proof -
  have "validate_hhmm ''ana'' ''greet'' ''09:00'' = Inr ()" by code_simp
  then have "canonical pd ''ana'' sample_definition"
    by (simp add: canonical_iff sample_definition_def valid_intention_def sample_intention_def
        validate_delivery_def validate_and_build_schedule_def to_intention_raw_def to_schedule_raw_def)
  then show ?thesis
    by (simp add: load_pulse_definition_def sample_trim sample_files_def parse_pulse_definition_inner_def
        sample_from_yaml_def map_err_def canonical_def)
qed

lemma sample_yaml_faithful:
  "yaml_faithful sample_from_yaml sample_to_yaml (to_document_raw sample_definition)"
  "yaml_faithful sample_from_yaml sample_to_yaml (to_document_raw (sample_definition\<lparr>pd_intentions := []\<rparr>))"
  by (simp_all add: yaml_faithful_def sample_to_yaml_def sample_from_yaml_def sample_trim
      to_document_raw_def sample_definition_def)

theorem saved_definition_reloads_witness:
  "\<exists>files'. save_pulse_definition sample_from_yaml (\<lambda>_. None) sample_to_yaml None ''ana''
       sample_definition Map.empty = Inr files' \<and>
     load_pulse_definition sample_from_yaml (\<lambda>_. None) files' ''ana'' = Inr sample_definition"
proof -
  have "sample_definition = sample_definition\<lparr>pd_enabled := True,
      pd_intentions := filter (\<lambda>_. True) (pd_intentions sample_definition)\<rparr>"
    by (simp add: sample_definition_def)
  from saved_definition_reloads [OF sample_trim(3) sample_loaded this sample_yaml_faithful(1)]
  show ?thesis by blast
qed

text \<open>
  Archiving a fired intention removes exactly it and only when the file still holds it
  unchanged: the reloaded definition has the other intentions in their order; if the intention
  was edited, renamed or removed meanwhile, the file is left as it is.
\<close>

theorem archive_keeps_edits:
  assumes "load_pulse_definition from_yaml pd files a = Inr d"
    "yaml_faithful from_yaml to_yaml (to_document_raw
       (d\<lparr>pd_intentions := filter (\<lambda>i. ti_id i \<noteq> ti_id fired) (pd_intentions d)\<rparr>))"
  shows "(fired \<in> set (pd_intentions d) \<longrightarrow>
      (\<exists>files'. archive_intention from_yaml pd to_yaml None a fired files = Inr (True, files') \<and>
        load_pulse_definition from_yaml pd files' a = Inr (d\<lparr>pd_intentions := remove1 fired (pd_intentions d)\<rparr>))) \<and>
    (fired \<notin> set (pd_intentions d) \<longrightarrow>
      archive_intention from_yaml pd to_yaml None a fired files = Inr (False, files))"
proof -
  let ?d = "d\<lparr>pd_intentions := filter (\<lambda>i. ti_id i \<noteq> ti_id fired) (pd_intentions d)\<rparr>"
  note can = loaded_canonical [OF assms(1)]
  have dist: "distinct (map ti_id (pd_intentions d))" using can by (simp add: canonical_iff)
  have safe: "is_safe_agent_id a"
    using assms(1) by (auto simp: load_pulse_definition_def split: if_splits)
  have "canonical pd a ?d" using can by (auto simp: canonical_iff distinct_map_filter)
  from save_reloads [OF safe this assms(2)] obtain y
    where y: "save_pulse_definition from_yaml pd to_yaml None a ?d files = Inr (files(a \<mapsto> Inr y))"
      "parse_pulse_definition_inner from_yaml pd y a = Inr ?d" by blast
  have find: "List.find (\<lambda>i. ti_id i = ti_id fired) xs = Some fired"
    "filter (\<lambda>i. ti_id i \<noteq> ti_id fired) xs = remove1 fired xs"
    if "distinct (map ti_id xs)" "fired \<in> set xs" for xs
    using that
  proof (induction xs)
    case (Cons x xs)
    { case 1 then show ?case using Cons.IH(1) by (auto simp: rev_image_eqI) }
    { case 2
      show ?case
      proof (cases "x = fired")
        case True
        then have "\<forall>y \<in> set xs. ti_id y \<noteq> ti_id fired" using 2(1) by (auto simp: rev_image_eqI)
        then show ?thesis using True by (simp add: filter_id_conv)
      next
        case False
        then have "ti_id x \<noteq> ti_id fired" "fired \<in> set xs" using 2 by (auto simp: rev_image_eqI)
        then show ?thesis using False 2(1) Cons.IH(2) by simp
      qed }
  qed simp_all
  show ?thesis
  proof (intro conjI impI)
    assume "fired \<in> set (pd_intentions d)"
    note f = find [OF dist this]
    have "archive_intention from_yaml pd to_yaml None a fired files = Inr (True, files(a \<mapsto> Inr y))"
      using assms(1) f(1) y(1) by (simp add: archive_intention_def)
    moreover have "load_pulse_definition from_yaml pd (files(a \<mapsto> Inr y)) a = Inr ?d"
      using safe y(2) by (simp add: load_pulse_definition_def)
    ultimately show "\<exists>files'. archive_intention from_yaml pd to_yaml None a fired files = Inr (True, files') \<and>
        load_pulse_definition from_yaml pd files' a = Inr (d\<lparr>pd_intentions := remove1 fired (pd_intentions d)\<rparr>)"
      using f(2) by auto
  next
    assume "fired \<notin> set (pd_intentions d)"
    then show "archive_intention from_yaml pd to_yaml None a fired files = Inr (False, files)"
      using assms(1) by (auto simp: archive_intention_def find_Some_iff split: option.split)
  qed
qed

theorem archive_keeps_edits_witness:
  "(\<exists>files'. archive_intention sample_from_yaml (\<lambda>_. None) sample_to_yaml None ''ana''
       sample_intention sample_files = Inr (True, files') \<and>
     load_pulse_definition sample_from_yaml (\<lambda>_. None) files' ''ana'' =
       Inr (sample_definition\<lparr>pd_intentions := []\<rparr>))"
proof -
  have "yaml_faithful sample_from_yaml sample_to_yaml (to_document_raw (sample_definition\<lparr>pd_intentions :=
      filter (\<lambda>i. ti_id i \<noteq> ti_id sample_intention) (pd_intentions sample_definition)\<rparr>))"
    using sample_yaml_faithful(2) by (simp add: sample_definition_def)
  from archive_keeps_edits [OF sample_loaded this] show ?thesis by (simp add: sample_definition_def)
qed

end
