(* ===== verification/Runtime_Error.thy ===== *)
theory Runtime_Error
  imports Storage_Types Pulse_Definition
begin

text \<open>
  The top-level error of \<open>src/src/error.rs\<close>, with the errors of the parts it wraps: their texts,
  their classification tag, the summary a chat channel shows and which provider errors may be
  retried. A payload that is an error of another library is its text; a configuration, MCP or
  setup error, which no modelled operation raises, is its text as well.
\<close>

datatype llm_error =
    LlmInitFailed string
  | RequestFailed string
  | ApiError (api_status: nat) (api_body_preview: string) (api_retry_after_secs: "nat option")
  | InvalidResponse string
  | DeadlineExceeded
  | RequestConstructionFailed string

datatype tui_error = TuiInitFailed string | RenderFailed string | EventFailed string

datatype logging_error = LoggingInitFailed string

datatype channel_error = ChannelNotFound string | SendFailed string | CrossChatNotAllowed

datatype egopulse_error =
    ConfigFailure string
  | LlmFailure llm_error
  | LoggingFailure logging_error
  | TuiFailure tui_error
  | StorageFailure storage_error
  | ChannelFailure channel_error
  | McpFailure string
  | PulseFailure pulse_parse_error
  | SetupFailure string
  | ShutdownRequested
  | RuntimeAlreadyRunning string
  | RuntimeUnavailable
  | RuntimeProtocolMismatch nat nat
  | RuntimeLocalApi string
  | Internal string
  | TurnConcurrencyConflict

section \<open>Texts\<close>

text \<open>A status is shown with its reason phrase by the \<open>http\<close> crate: \<open>status_text\<close>.\<close>

fun llm_error_display :: "(nat \<Rightarrow> string) \<Rightarrow> llm_error \<Rightarrow> string" where
  "llm_error_display status_text (LlmInitFailed s) = ''llm_init_failed: '' @ s"
| "llm_error_display status_text (RequestFailed s) = ''llm_request_failed: '' @ s"
| "llm_error_display status_text (ApiError status body _) =
     ''llm_api_error: status='' @ status_text status @ '' body_preview='' @ body"
| "llm_error_display status_text (InvalidResponse s) = ''llm_invalid_response: '' @ s"
| "llm_error_display status_text DeadlineExceeded =
     ''llm_deadline_exceeded: no response within the model iteration deadline''"
| "llm_error_display status_text (RequestConstructionFailed s) = ''llm_request_construction_failed: '' @ s"

fun tui_error_display :: "tui_error \<Rightarrow> string" where
  "tui_error_display (TuiInitFailed s) = ''tui_init_failed: '' @ s"
| "tui_error_display (RenderFailed s) = ''tui_render_failed: '' @ s"
| "tui_error_display (EventFailed s) = ''tui_event_failed: '' @ s"

fun logging_error_display :: "logging_error \<Rightarrow> string" where
  "logging_error_display (LoggingInitFailed s) = ''logging_init_failed: '' @ s"

fun channel_error_display :: "channel_error \<Rightarrow> string" where
  "channel_error_display (ChannelNotFound s) = ''channel_not_found: '' @ s"
| "channel_error_display (SendFailed s) = ''channel_send_failed: '' @ s"
| "channel_error_display CrossChatNotAllowed = ''channel_cross_chat_not_allowed''"

fun pulse_parse_error_display :: "pulse_parse_error \<Rightarrow> string" where
  "pulse_parse_error_display (ParseFailed agent_id detail) =
     ''pulse_parse_error: '' @ agent_id @ '': '' @ detail"
| "pulse_parse_error_display (UnsafeAgentId agent_id) = ''pulse_unsafe_agent_id: '' @ agent_id"
| "pulse_parse_error_display (DuplicateIntentionId agent_id i) =
     ''pulse_duplicate_intention_id: '' @ agent_id @ '': '' @ i"
| "pulse_parse_error_display (InvalidSchedule agent_id intention_id detail) =
     ''pulse_invalid_schedule: '' @ agent_id @ '': intention='' @ intention_id @ '' '' @ detail"
| "pulse_parse_error_display (InvalidDelivery agent_id detail) =
     ''pulse_invalid_delivery: '' @ agent_id @ '': '' @ detail"
| "pulse_parse_error_display (SaveFailed agent_id detail) =
     ''pulse_save_error: '' @ agent_id @ '': '' @ detail"

fun egopulse_error_display ::
  "(nat \<Rightarrow> string) \<Rightarrow> (sqlite_error \<Rightarrow> string) \<Rightarrow> egopulse_error \<Rightarrow> string" where
  "egopulse_error_display status_text sqlite_text (ConfigFailure s) = s"
| "egopulse_error_display status_text sqlite_text (LlmFailure e) = llm_error_display status_text e"
| "egopulse_error_display status_text sqlite_text (LoggingFailure e) = logging_error_display e"
| "egopulse_error_display status_text sqlite_text (TuiFailure e) = tui_error_display e"
| "egopulse_error_display status_text sqlite_text (StorageFailure e) = storage_error_display sqlite_text e"
| "egopulse_error_display status_text sqlite_text (ChannelFailure e) = channel_error_display e"
| "egopulse_error_display status_text sqlite_text (McpFailure s) = s"
| "egopulse_error_display status_text sqlite_text (PulseFailure e) = pulse_parse_error_display e"
| "egopulse_error_display status_text sqlite_text (SetupFailure s) = s"
| "egopulse_error_display status_text sqlite_text ShutdownRequested = ''shutdown_requested''"
| "egopulse_error_display status_text sqlite_text (RuntimeAlreadyRunning path) =
     ''another EgoPulse process already holds the runtime instance lock for this state root: '' @
     path"
| "egopulse_error_display status_text sqlite_text RuntimeUnavailable =
     ''EgoPulse runtime is not running'' @ [CHR 0x0A, CHR 0x0A] @ ''Start it with:'' @ [CHR 0x0A] @
     ''  egopulse gateway start'' @ [CHR 0x0A] @ ''or:'' @ [CHR 0x0A] @ ''  egopulse run''"
| "egopulse_error_display status_text sqlite_text (RuntimeProtocolMismatch expected actual) =
     ''runtime_protocol_mismatch: expected='' @ show_nat expected @ '' actual='' @ show_nat actual"
| "egopulse_error_display status_text sqlite_text (RuntimeLocalApi s) = ''runtime_local_api: '' @ s"
| "egopulse_error_display status_text sqlite_text (Internal s) = ''internal_error: '' @ s"
| "egopulse_error_display status_text sqlite_text TurnConcurrencyConflict =
     ''turn already claimed by another executor''"

section \<open>Classification\<close>

fun error_kind :: "egopulse_error \<Rightarrow> string" where
  "error_kind (ConfigFailure _) = ''config''"
| "error_kind (LlmFailure _) = ''llm''"
| "error_kind (LoggingFailure _) = ''logging''"
| "error_kind (TuiFailure _) = ''tui''"
| "error_kind (StorageFailure _) = ''storage''"
| "error_kind (ChannelFailure _) = ''channel''"
| "error_kind (McpFailure _) = ''mcp''"
| "error_kind (PulseFailure _) = ''pulse''"
| "error_kind (SetupFailure _) = ''setup''"
| "error_kind ShutdownRequested = ''shutdown''"
| "error_kind (RuntimeAlreadyRunning _) = ''instance_lock''"
| "error_kind RuntimeUnavailable = ''runtime_unavailable''"
| "error_kind (RuntimeProtocolMismatch _ _) = ''runtime_protocol''"
| "error_kind (RuntimeLocalApi _) = ''runtime_local_api''"
| "error_kind TurnConcurrencyConflict = ''concurrency''"
| "error_kind (Internal _) = ''internal''"

definition user_message ::
  "(nat \<Rightarrow> string) \<Rightarrow> (sqlite_error \<Rightarrow> string) \<Rightarrow> egopulse_error \<Rightarrow> string" where
  "user_message status_text sqlite_text e = ''Error: '' @ egopulse_error_display status_text sqlite_text e"

text \<open>\<open>StatusCode::is_server_error\<close> and \<open>is_client_error\<close>\<close>

definition is_server_error :: "nat \<Rightarrow> bool" where
  "is_server_error status = (500 \<le> status \<and> status < 600)"

definition is_client_error :: "nat \<Rightarrow> bool" where
  "is_client_error status = (400 \<le> status \<and> status < 500)"

fun user_facing_summary :: "(nat \<Rightarrow> string) \<Rightarrow> egopulse_error \<Rightarrow> string" where
  "user_facing_summary status_text (LlmFailure (ApiError status _ retry_after)) =
     (case retry_after of
        Some secs \<Rightarrow>
          if status = 429 then ''LLM API rate limited. Available in '' @ show_nat secs @ ''s.''
          else if is_server_error status then ''LLM API server error. Please try again later.''
          else if is_client_error status then ''LLM API request error. Please check your configuration.''
          else ''LLM API error (HTTP '' @ status_text status @ '')''
      | None \<Rightarrow>
          if is_server_error status then ''LLM API server error. Please try again later.''
          else if status = 429 then ''LLM API rate limited. Please try again later.''
          else if is_client_error status then ''LLM API request error. Please check your configuration.''
          else ''LLM API error (HTTP '' @ status_text status @ '')'')"
| "user_facing_summary status_text (LlmFailure (RequestFailed _)) =
     ''LLM API connection failed. Please try again later.''"
| "user_facing_summary status_text (LlmFailure (InvalidResponse _)) =
     ''LLM returned an invalid response.''"
| "user_facing_summary status_text (LlmFailure DeadlineExceeded) =
     ''LLM API request timed out. Please try again later.''"
| "user_facing_summary status_text (StorageFailure _) = ''Internal storage error.''"
| "user_facing_summary status_text _ = ''An unexpected error occurred.''"

definition is_codex_auth_error :: "egopulse_error \<Rightarrow> bool" where
  "is_codex_auth_error e = (case e of LlmFailure (ApiError status _ _) \<Rightarrow> status = 401 | _ \<Rightarrow> False)"

definition is_empty_response :: "llm_error \<Rightarrow> bool" where
  "is_empty_response e =
     (case e of
        InvalidResponse m \<Rightarrow> m = ''assistant content was empty'' \<or>
          starts_with ''assistant content was empty ('' m
      | _ \<Rightarrow> False)"

fun is_retryable :: "llm_error \<Rightarrow> bool" where
  "is_retryable (RequestFailed _) = True"
| "is_retryable (ApiError status _ _) = (status = 429 \<or> is_server_error status)"
| "is_retryable (LlmInitFailed _) = False"
| "is_retryable (InvalidResponse _) = False"
| "is_retryable DeadlineExceeded = False"
| "is_retryable (RequestConstructionFailed _) = False"

end
