(* ===== verification/Model_Step.thy ===== *)
theory Model_Step
  imports Message_Text Runtime_Error Turn_Store
begin

text \<open>
  One model iteration (\<open>src/src/agent_loop/model_step.rs\<close>): a request with its recovery from an
  empty answer, the bounded retry of transport failures under the deadline of the iteration, and
  what a response becomes. The provider is an argument: it answers the \<open>n\<close>-th request, after some
  milliseconds or never, and may have streamed text before. Token estimation, usage logging and
  metrics change nothing the loop reads and are left out.
\<close>

section \<open>Responses\<close>

record 'j messages_response =
  mr_content :: string
  mr_reasoning_content :: "string option"
  mr_tool_calls :: "'j llm_tool_call list"

record 'j assistant_tool_phase =
  atph_assistant_message :: "'j llm_message"
  atph_assistant_preview :: string
  atph_tool_calls :: "'j llm_tool_call list"

datatype 'j model_step =
    FinalStep "'j messages_response"
  | MalformedToolCalls "'j messages_response"
  | ToolCalls "'j assistant_tool_phase"

text \<open>
  A call without a name or an id is skipped; a repeated id replaces the earlier call in its place.
  The index map of the code finds the place of an id in \<open>valid\<close>.
\<close>

fun replace_call :: "'j llm_tool_call \<Rightarrow> 'j llm_tool_call list \<Rightarrow> 'j llm_tool_call list" where
  "replace_call c [] = [c]"
| "replace_call c (d # valid) = (if ltc_id d = ltc_id c then c # valid else d # replace_call c valid)"

definition filter_valid_tool_calls :: "'j llm_tool_call list \<Rightarrow> 'j llm_tool_call list" where
  "filter_valid_tool_calls calls =
     foldl (\<lambda>valid c. if trim (ltc_name c) = [] \<or> trim (ltc_id c) = [] then valid
                      else replace_call c valid) [] calls"

definition build_assistant_tool_phase ::
  "string \<Rightarrow> string option \<Rightarrow> 'j llm_tool_call list \<Rightarrow> 'j assistant_tool_phase" where
  "build_assistant_tool_phase content reasoning calls =
     (let assistant_text = sanitize_assistant_response_text content
      in \<lparr>atph_assistant_message =
            \<lparr>lm_role = ''assistant'', lm_content = TextContent assistant_text,
             lm_reasoning_content = reasoning, lm_tool_calls = calls, lm_tool_call_id = None\<rparr>,
          atph_assistant_preview = summarize_tool_calls_with_content assistant_text calls,
          atph_tool_calls = calls\<rparr>)"

definition step_of_response :: "'j messages_response \<Rightarrow> 'j model_step" where
  "step_of_response r =
     (if mr_tool_calls r = [] then FinalStep r
      else let valid = filter_valid_tool_calls (mr_tool_calls r)
           in if valid = [] then MalformedToolCalls r
              else ToolCalls (build_assistant_tool_phase (mr_content r) (mr_reasoning_content r) valid))"

definition model_step_response_is_empty :: "egopulse_error + 'j model_step \<Rightarrow> bool" where
  "model_step_response_is_empty response =
     (case response of
        Inl (LlmFailure e) \<Rightarrow> is_empty_response e
      | Inr (FinalStep r) \<Rightarrow> trim (strip_thinking (trim (mr_content r))) = []
      | _ \<Rightarrow> False)"

definition empty_response_after_retry :: egopulse_error where
  "empty_response_after_retry = LlmFailure (InvalidResponse ''assistant content was empty after retry'')"

definition empty_response_after_published_output :: egopulse_error where
  "empty_response_after_published_output =
     LlmFailure (InvalidResponse ''assistant content was empty after output was published'')"

section \<open>One request\<close>

record 'j exchange =
  ex_answer :: "llm_error + 'j messages_response"
  ex_millis :: "nat option"
  ex_first_delta :: "nat option"

text \<open>
  The state of an iteration: the requests sent so far, each with whether output had been published
  when it was sent; the clock in milliseconds; the two flags; the world the retry hook writes to.
\<close>

record ('j, 'w) iteration_state =
  is_requests :: "('j llm_message list \<times> bool) list"
  is_clock :: nat
  is_published :: bool
  is_empty_retry_attempted :: bool
  is_world :: 'w

record ('j, 'w) model_env =
  me_provider :: "nat \<Rightarrow> 'j llm_message list \<Rightarrow> 'j exchange"
  me_publishes :: bool
  me_max_backoff :: "nat option"
  me_before_retry :: "'w \<Rightarrow> nat \<times> 'w"
  me_random_range :: "nat \<Rightarrow> nat"

definition delta_within :: "nat option \<Rightarrow> nat \<Rightarrow> bool" where
  "delta_within first_delta millis = (case first_delta of None \<Rightarrow> False | Some d \<Rightarrow> d \<le> millis)"

text \<open>\<open>None\<close>: the timeout around the attempt drops the request at the deadline.\<close>

definition send_model_step ::
  "('j, 'w) model_env \<Rightarrow> nat \<Rightarrow> 'j llm_message list \<Rightarrow> ('j, 'w) iteration_state \<Rightarrow>
   (egopulse_error + 'j model_step) option \<times> ('j, 'w) iteration_state" where
  "send_model_step env deadline ms st =
     (let ex = me_provider env (length (is_requests st)) ms;
          remaining = deadline - is_clock st;
          st = st\<lparr>is_requests := is_requests st @ [(ms, is_published st)]\<rparr>;
          spent = (case ex_millis ex of Some d \<Rightarrow> min d remaining | None \<Rightarrow> remaining);
          st = st\<lparr>is_clock := is_clock st + spent,
                  is_published := is_published st \<or>
                    (me_publishes env \<and> delta_within (ex_first_delta ex) spent)\<rparr>
      in (case ex_millis ex of
            Some d \<Rightarrow> if d \<le> remaining then Some (map_sum LlmFailure step_of_response (ex_answer ex)) else None
          | None \<Rightarrow> None, st))"

text \<open>An error comes with the messages to retry with.\<close>

type_synonym 'j step_outcome = "(egopulse_error \<times> 'j llm_message list) + 'j model_step"

definition with_messages :: "'j llm_message list \<Rightarrow> egopulse_error + 'j model_step \<Rightarrow> 'j step_outcome" where
  "with_messages ms response = map_err (\<lambda>e. (e, ms)) response"

definition empty_retry_messages ::
  "'j llm_message list \<Rightarrow> egopulse_error + 'j model_step \<Rightarrow> 'j llm_message list" where
  "empty_retry_messages ms response =
     (case response of
        Inr (FinalStep r) \<Rightarrow>
          runtime_guard_messages ms (mr_content r) (mr_reasoning_content r) EMPTY_REPLY_RUNTIME_GUARD
      | _ \<Rightarrow> runtime_guard_messages ms [] None EMPTY_REPLY_RUNTIME_GUARD)"

definition send_model_step_with_empty_retry ::
  "('j, 'w) model_env \<Rightarrow> nat \<Rightarrow> 'j llm_message list \<Rightarrow> ('j, 'w) iteration_state \<Rightarrow>
   'j step_outcome option \<times> ('j, 'w) iteration_state" where
  "send_model_step_with_empty_retry env deadline ms st =
     (case send_model_step env deadline ms st of
        (None, st) \<Rightarrow> (None, st)
      | (Some response, st) \<Rightarrow>
          if \<not> model_step_response_is_empty response then (Some (with_messages ms response), st)
          else if is_published st then (Some (Inl (empty_response_after_published_output, ms)), st)
          else if is_empty_retry_attempted st then (Some (Inl (empty_response_after_retry, ms)), st)
          else let retry_messages = empty_retry_messages ms response
               in case send_model_step env deadline retry_messages (st\<lparr>is_empty_retry_attempted := True\<rparr>) of
                    (None, st) \<Rightarrow> (None, st)
                  | (Some retry_response, st) \<Rightarrow>
                      (Some (if model_step_response_is_empty retry_response
                             then Inl (empty_response_after_retry, retry_messages)
                             else with_messages retry_messages retry_response), st))"

section \<open>Retries\<close>

definition MAX_LLM_RETRIES :: nat where
  "MAX_LLM_RETRIES = 3"

definition MODEL_ITERATION_DEADLINE :: nat where
  "MODEL_ITERATION_DEADLINE = 300000"

definition LLM_RETRY_BASE_BACKOFF_MS :: nat where
  "LLM_RETRY_BASE_BACKOFF_MS = 500"

text \<open>Milliseconds; \<open>random_range\<close> draws a number from 0 to its argument.\<close>

definition llm_retry_backoff :: "(nat \<Rightarrow> nat) \<Rightarrow> nat \<Rightarrow> egopulse_error \<Rightarrow> nat" where
  "llm_retry_backoff random_range attempt e =
     (let ceiling_ms = min (LLM_RETRY_BASE_BACKOFF_MS * min (2 ^ (attempt - 1)) (2 ^ 64 - 1)) (2 ^ 64 - 1)
      in case e of
           LlmFailure (ApiError _ _ (Some secs)) \<Rightarrow> secs * 1000
         | _ \<Rightarrow> random_range ceiling_ms)"

definition retryable_error :: "egopulse_error \<Rightarrow> bool" where
  "retryable_error e = (case e of LlmFailure l \<Rightarrow> is_retryable l | _ \<Rightarrow> False)"

text \<open>
  The timeout around the wait covers the hook and the sleep; the write of the hook is a blocking
  task and is done even when the wait is cut.
\<close>

function retry_from ::
  "('j, 'w) model_env \<Rightarrow> nat \<Rightarrow> nat \<Rightarrow> 'j llm_message list \<Rightarrow> ('j, 'w) iteration_state \<Rightarrow>
   ((egopulse_error \<times> bool) + 'j model_step) \<times> ('j, 'w) iteration_state" where
  "retry_from env deadline attempt ms st =
     (let (outcome, st) = send_model_step_with_empty_retry env deadline ms st
      in case (case outcome of Some r \<Rightarrow> r | None \<Rightarrow> Inl (LlmFailure DeadlineExceeded, ms)) of
           Inr step \<Rightarrow> (Inr step, st)
         | Inl (e, ms) \<Rightarrow>
             (let published = is_published st;
                  backoff = llm_retry_backoff (me_random_range env) attempt e
              in if retryable_error e \<and> \<not> published \<and>
                    (case me_max_backoff env of None \<Rightarrow> True | Some limit \<Rightarrow> backoff \<le> limit) \<and>
                    backoff < deadline - is_clock st \<and> attempt < MAX_LLM_RETRIES
                 then (let (hook_millis, world) = me_before_retry env (is_world st);
                           waited = hook_millis + backoff;
                           remaining = deadline - is_clock st;
                           st = st\<lparr>is_world := world, is_clock := is_clock st + min waited remaining\<rparr>
                       in if remaining < waited then (Inl (e, published), st)
                          else retry_from env deadline (attempt + 1) ms st)
                 else (Inl (e, published), st)))"
  by pat_completeness auto

termination
  by (relation "measure (\<lambda>(_, _, attempt, _). MAX_LLM_RETRIES - attempt)") auto

declare retry_from.simps [simp del]

definition retry_transient_failures ::
  "('j, 'w) model_env \<Rightarrow> 'j llm_message list \<Rightarrow> nat \<Rightarrow> 'w \<Rightarrow>
   ((egopulse_error \<times> bool) + 'j model_step) \<times> ('j, 'w) iteration_state" where
  "retry_transient_failures env ms started world =
     retry_from env (started + MODEL_ITERATION_DEADLINE) 1 ms
       \<lparr>is_requests = [], is_clock = started, is_published = False,
        is_empty_retry_attempted = False, is_world = world\<rparr>"

text \<open>
  The two callers. A Turn publishes its deltas and counts the attempts in its row; a failure to
  count is ignored. Without a Turn, deltas are dropped and long waits are refused.
\<close>

definition count_attempt :: "string \<Rightarrow> string \<Rightarrow> nat \<Rightarrow> database \<Rightarrow> nat \<times> database" where
  "count_attempt now turn_id millis db =
     (millis, case increment_turn_model_attempt now turn_id db of Inr (_, db') \<Rightarrow> db' | Inl _ \<Rightarrow> db)"

definition run_with_retry ::
  "(nat \<Rightarrow> 'j llm_message list \<Rightarrow> 'j exchange) \<Rightarrow> (nat \<Rightarrow> nat) \<Rightarrow> string \<Rightarrow> nat \<Rightarrow> nat \<Rightarrow> string \<Rightarrow> nat \<Rightarrow> string \<Rightarrow>
   'j llm_message list \<Rightarrow> database \<Rightarrow> ((egopulse_error \<times> bool) + 'j model_step) \<times> database" where
  "run_with_retry provider random_range now hook_millis started turn_id iteration request_hash ms db =
     (case begin_turn_model_iteration now turn_id (int iteration) request_hash db of
        Inl e \<Rightarrow> (Inl (StorageFailure e, False), db)
      | Inr (advanced, db) \<Rightarrow>
          if \<not> advanced then (Inl (TurnConcurrencyConflict, False), db)
          else let (r, st) = retry_transient_failures
                 \<lparr>me_provider = provider, me_publishes = True, me_max_backoff = None,
                  me_before_retry = count_attempt now turn_id hook_millis,
                  me_random_range = random_range\<rparr> ms started db
               in (r, is_world st))"

definition run_with_transient_retry ::
  "(nat \<Rightarrow> 'j llm_message list \<Rightarrow> 'j exchange) \<Rightarrow> (nat \<Rightarrow> nat) \<Rightarrow> nat \<Rightarrow> nat \<Rightarrow> 'j llm_message list \<Rightarrow>
   (egopulse_error \<times> bool) + 'j model_step" where
  "run_with_transient_retry provider random_range max_backoff started ms =
     fst (retry_transient_failures
       \<lparr>me_provider = provider, me_publishes = False, me_max_backoff = Some max_backoff,
        me_before_retry = (\<lambda>w. (0, w)), me_random_range = random_range\<rparr> ms started ())"

section \<open>Usable calls\<close>

definition usable_call :: "'j llm_tool_call \<Rightarrow> bool" where
  "usable_call c = (trim (ltc_name c) \<noteq> [] \<and> trim (ltc_id c) \<noteq> [])"

lemma replace_call_ids:
  "map ltc_id (replace_call c valid) =
     (if ltc_id c \<in> ltc_id ` set valid then map ltc_id valid else map ltc_id valid @ [ltc_id c])"
  by (induction valid) auto

lemma set_replace_call: "set (replace_call c valid) \<subseteq> insert c (set valid)"
  by (induction valid) auto

lemma filter_valid_snoc:
  "filter_valid_tool_calls (cs @ [c]) =
     (if usable_call c then replace_call c (filter_valid_tool_calls cs) else filter_valid_tool_calls cs)"
  by (simp add: filter_valid_tool_calls_def usable_call_def)

lemma filter_valid_calls:
  "distinct (map ltc_id (filter_valid_tool_calls cs)) \<and>
   list_all usable_call (filter_valid_tool_calls cs) \<and> set (filter_valid_tool_calls cs) \<subseteq> set cs"
proof (induction cs rule: rev_induct)
  case Nil
  then show ?case by (simp add: filter_valid_tool_calls_def)
next
  case (snoc c cs)
  then show ?case
    using set_replace_call [of c "filter_valid_tool_calls cs"]
    by (auto simp: filter_valid_snoc replace_call_ids list_all_iff)
qed

text \<open>A step the loop may act on: text to show, or calls that can each be answered.\<close>

fun well_formed_step :: "'j model_step \<Rightarrow> bool" where
  "well_formed_step (FinalStep r) = (strip_thinking (trim (mr_content r)) \<noteq> [])"
| "well_formed_step (MalformedToolCalls r) = (mr_tool_calls r \<noteq> [])"
| "well_formed_step (ToolCalls p) =
     (atph_tool_calls p \<noteq> [] \<and> distinct (map ltc_id (atph_tool_calls p)) \<and>
      list_all usable_call (atph_tool_calls p) \<and>
      lm_tool_calls (atph_assistant_message p) = atph_tool_calls p)"

lemma trim_Nil [simp]: "trim [] = []"
  by code_simp

lemma step_of_response_well_formed:
  assumes "\<not> model_step_response_is_empty (Inr (step_of_response r))"
  shows "well_formed_step (step_of_response r)"
  using assms filter_valid_calls [of "mr_tool_calls r"]
  by (auto simp: step_of_response_def model_step_response_is_empty_def Let_def
        build_assistant_tool_phase_def strip_thinking_trimmed)

section \<open>The requests of an iteration\<close>

abbreviation guarded :: "'j llm_message list \<Rightarrow> 'j llm_message \<Rightarrow> 'j llm_message list" where
  "guarded ms a \<equiv> ms @ [a, text_message ''user'' EMPTY_REPLY_RUNTIME_GUARD]"

lemma empty_retry_messages_guarded: "\<exists>a. empty_retry_messages ms response = guarded ms a"
  by (auto simp: empty_retry_messages_def runtime_guard_messages_def split: sum.split model_step.split)

lemma send_model_step_state:
  assumes "send_model_step env deadline ms st = (r, st')" and "is_clock st \<le> deadline"
  shows "is_requests st' = is_requests st @ [(ms, is_published st)]" "is_clock st' \<le> deadline"
    "is_empty_retry_attempted st' = is_empty_retry_attempted st" "is_world st' = is_world st"
    "is_published st \<Longrightarrow> is_published st'"
  using assms by (auto simp: send_model_step_def Let_def split: option.splits if_splits)

lemma send_model_step_answer:
  assumes "send_model_step env deadline ms st = (Some (Inr step), st')"
    and "\<not> model_step_response_is_empty (Inr step)"
  shows "well_formed_step step"
proof -
  obtain r where "step = step_of_response r"
    using assms(1) by (auto simp: send_model_step_def Let_def split: option.splits if_splits)
      (metis map_sum_sel(2) sum.disc(2) sum.sel(2) isl_map_sum)
  then show ?thesis using assms(2) step_of_response_well_formed by blast
qed

text \<open>
  Before an attempt with \<open>n\<close> attempts made: nothing is published, every request so far was the
  original one or the one guarded copy of it, and the guarded copy costs one request more.
\<close>

definition attempt_ok ::
  "'j llm_message list \<Rightarrow> 'j llm_message \<Rightarrow> nat \<Rightarrow> nat \<Rightarrow> 'j llm_message list \<Rightarrow> ('j, 'w) iteration_state \<Rightarrow> bool" where
  "attempt_ok ms0 a deadline n ms st =
     (is_clock st \<le> deadline \<and>
      fst ` set (is_requests st) \<subseteq> {ms0, guarded ms0 a} \<and> True \<notin> snd ` set (is_requests st) \<and>
      ms \<in> {ms0, guarded ms0 a} \<and>
      length (is_requests st) \<le> n + (if is_empty_retry_attempted st then 1 else 0) \<and>
      (is_empty_retry_attempted st \<or> (ms = ms0 \<and> fst ` set (is_requests st) \<subseteq> {ms0})))"

lemma attempt_ok_send:
  assumes "attempt_ok ms0 a deadline n ms st" "\<not> is_published st"
    and "send_model_step env deadline ms st = (r, st')"
  shows "attempt_ok ms0 a deadline (Suc n) ms st'"
  using assms(1,2) send_model_step_state(1,2,3) [OF assms(3)]
  by (auto simp: attempt_ok_def split: if_splits)

lemma attempt_ok_guarded_send:
  assumes ok: "attempt_ok ms0 a deadline n ms st" and fresh: "\<not> is_published st" "\<not> is_empty_retry_attempted st"
    and send: "send_model_step env deadline (guarded ms b) (st\<lparr>is_empty_retry_attempted := True\<rparr>) = (r, st')"
  shows "attempt_ok ms0 b deadline n ms st'" "attempt_ok ms0 b deadline n (guarded ms b) st'"
  using ok fresh send_model_step_state(1,2,3) [OF send] by (auto simp: attempt_ok_def)

text \<open>One attempt, with the recovery from an empty answer.\<close>

definition outcome_ok ::
  "'j llm_message list \<Rightarrow> nat \<Rightarrow> nat \<Rightarrow> 'j llm_message list \<Rightarrow> 'j step_outcome option \<Rightarrow> ('j, 'w) iteration_state \<Rightarrow> bool" where
  "outcome_ok ms0 deadline n ms outcome st =
     (\<exists>a. case outcome of
            None \<Rightarrow> attempt_ok ms0 a deadline n ms st
          | Some (Inl (_, ms')) \<Rightarrow> attempt_ok ms0 a deadline n ms' st
          | Some (Inr step) \<Rightarrow> attempt_ok ms0 a deadline n ms st \<and> well_formed_step step)"

lemma outcome_ok_with_messages:
  assumes "attempt_ok ms0 a deadline n ms st" "attempt_ok ms0 a deadline n ms' st"
    and "send_model_step env deadline ms'' st'' = (Some response, st)" "\<not> model_step_response_is_empty response"
  shows "outcome_ok ms0 deadline n ms (Some (with_messages ms' response)) st"
  using assms send_model_step_answer [of env deadline ms'' st'']
  by (cases response) (auto simp: outcome_ok_def with_messages_def map_err_def)

lemma empty_retry_outcome:
  assumes ok: "attempt_ok ms0 a deadline n ms st" and fresh: "\<not> is_published st"
    and run: "send_model_step_with_empty_retry env deadline ms st = (outcome, st')"
  shows "outcome_ok ms0 deadline (Suc n) ms outcome st'"
proof -
  obtain r st1 where send: "send_model_step env deadline ms st = (r, st1)" by fastforce
  have ok1: "attempt_ok ms0 a deadline (Suc n) ms st1" using attempt_ok_send [OF ok fresh send] .
  show ?thesis
  proof (cases r)
    case None
    then show ?thesis
      using run send ok1 by (auto simp: send_model_step_with_empty_retry_def outcome_ok_def)
  next
    case (Some response)
    show ?thesis
    proof (cases "model_step_response_is_empty response \<and> \<not> is_published st1 \<and> \<not> is_empty_retry_attempted st1")
      case False
      then show ?thesis
        using run send Some ok1 outcome_ok_with_messages [OF ok1 ok1 send [unfolded Some]]
        by (auto simp: send_model_step_with_empty_retry_def outcome_ok_def split: if_splits)
    next
      case True
      obtain b where b: "empty_retry_messages ms response = guarded ms b"
        using empty_retry_messages_guarded by blast
      obtain r2 st2 where send2:
        "send_model_step env deadline (guarded ms b) (st1\<lparr>is_empty_retry_attempted := True\<rparr>) = (r2, st2)"
        by fastforce
      note ok2 = attempt_ok_guarded_send [OF ok1 _ _ send2]
      show ?thesis
      proof (cases r2)
        case None
        then show ?thesis using run send Some True b send2 ok2
          by (auto simp: send_model_step_with_empty_retry_def outcome_ok_def Let_def)
      next
        case (Some response2)
        then show ?thesis
          using run send \<open>r = Some response\<close> True b send2 ok2
            outcome_ok_with_messages [OF ok2(1) ok2(2) send2 [unfolded Some]]
          by (auto simp: send_model_step_with_empty_retry_def outcome_ok_def Let_def split: if_splits)
      qed
    qed
  qed
qed

section \<open>The whole iteration\<close>

definition iteration_ok ::
  "'j llm_message list \<Rightarrow> nat \<Rightarrow> (egopulse_error \<times> bool) + 'j model_step \<Rightarrow> ('j, 'w) iteration_state \<Rightarrow> bool" where
  "iteration_ok ms0 deadline r st =
     (length (is_requests st) \<le> MAX_LLM_RETRIES + 1 \<and> is_clock st \<le> deadline \<and>
      (\<exists>a. fst ` set (is_requests st) \<subseteq> {ms0, guarded ms0 a}) \<and> True \<notin> snd ` set (is_requests st) \<and>
      (case r of Inl (_, published) \<Rightarrow> published = is_published st | Inr step \<Rightarrow> well_formed_step step))"

lemma attempt_ok_iteration:
  assumes "attempt_ok ms0 a deadline n ms st" "n \<le> MAX_LLM_RETRIES"
    and "case r of Inl (_, published) \<Rightarrow> published = is_published st | Inr step \<Rightarrow> well_formed_step step"
  shows "iteration_ok ms0 deadline r st"
  using assms by (auto simp: attempt_ok_def iteration_ok_def split: if_splits)

lemma attempt_ok_wait:
  assumes "attempt_ok ms0 a deadline n ms st"
  shows "attempt_ok ms0 a deadline n ms
    (st\<lparr>is_world := w, is_clock := is_clock st + min waited (deadline - is_clock st)\<rparr>)"
  using assms by (auto simp: attempt_ok_def)

lemma retry_from_ok:
  assumes "attempt_ok ms0 a deadline (attempt - 1) ms st" "\<not> is_published st"
    and "1 \<le> attempt" "attempt \<le> MAX_LLM_RETRIES"
    and "retry_from env deadline attempt ms st = (r, st')"
  shows "iteration_ok ms0 deadline r st'"
  using assms
proof (induction env deadline attempt ms st arbitrary: a rule: retry_from.induct)
  case (1 env deadline attempt ms st)
  obtain outcome st1 where run: "send_model_step_with_empty_retry env deadline ms st = (outcome, st1)"
    by fastforce
  let ?answer = "case outcome of Some r \<Rightarrow> r | None \<Rightarrow> Inl (LlmFailure DeadlineExceeded, ms)"
  have out: "outcome_ok ms0 deadline attempt ms outcome st1"
    using empty_retry_outcome [OF 1(2,3) run] 1(4) by simp
  show ?case
  proof (cases ?answer)
    case (Inr step)
    then obtain b where "attempt_ok ms0 b deadline attempt ms st1" "well_formed_step step"
      using out by (auto simp: outcome_ok_def split: option.splits)
    then show ?thesis
      using 1(5,6) run Inr by (intro attempt_ok_iteration [of _ b _ attempt]) (auto simp: retry_from.simps)
  next
    case (Inl failed)
    obtain e ms1 where failed: "failed = (e, ms1)" by fastforce
    then obtain b where b: "attempt_ok ms0 b deadline attempt ms1 st1"
      using out Inl by (auto simp: outcome_ok_def split: option.splits)
    obtain millis world where hook: "me_before_retry env (is_world st1) = (millis, world)" by fastforce
    let ?backoff = "llm_retry_backoff (me_random_range env) attempt e"
    let ?st2 = "st1\<lparr>is_world := world,
      is_clock := is_clock st1 + min (millis + ?backoff) (deadline - is_clock st1)\<rparr>"
    let ?retry = "retryable_error e \<and> \<not> is_published st1 \<and>
      (case me_max_backoff env of None \<Rightarrow> True | Some limit \<Rightarrow> ?backoff \<le> limit) \<and>
      ?backoff < deadline - is_clock st1 \<and> attempt < MAX_LLM_RETRIES"
    have eq: "retry_from env deadline attempt ms st =
      (if \<not> ?retry then (Inl (e, is_published st1), st1)
       else if deadline - is_clock st1 < millis + ?backoff then (Inl (e, is_published st1), ?st2)
       else retry_from env deadline (attempt + 1) ms1 ?st2)"
      using run Inl failed hook by (subst retry_from.simps) (simp add: Let_def)
    show ?thesis
    proof (cases "?retry \<and> \<not> deadline - is_clock st1 < millis + ?backoff")
      case False
      then have stop: "(if \<not> ?retry then (Inl (e, is_published st1), st1) else (Inl (e, is_published st1), ?st2)) = (r, st')"
        using 1(6) unfolding eq by argo
      have "iteration_ok ms0 deadline (Inl (e, is_published st1)) st1"
        "iteration_ok ms0 deadline (Inl (e, is_published st1)) ?st2"
        by (rule attempt_ok_iteration [OF b 1(5)], simp)
          (rule attempt_ok_iteration [OF attempt_ok_wait [OF b] 1(5)], simp)
      then show ?thesis using stop by (metis prod.inject)
    next
      case True
      have "retry_from env deadline (attempt + 1) ms1 ?st2 = (r, st')" using eq 1(6) True by simp
      moreover have "attempt_ok ms0 b deadline (attempt + 1 - 1) ms1 ?st2" using attempt_ok_wait [OF b] by simp
      ultimately show ?thesis
        using 1(1) [OF run [symmetric] refl Inl [unfolded failed] refl refl refl _ hook [symmetric] refl refl refl] True
        by (simp add: hook)
    qed
  qed
qed


text \<open>A connection failure, then an answer of hidden thinking only, then calls with a repeated id.\<close>

definition flaky_provider :: "nat \<Rightarrow> nat llm_message list \<Rightarrow> nat exchange" where
  "flaky_provider n ms =
     \<lparr>ex_answer =
        (if n = 0 then Inl (RequestFailed ''reset'')
         else if n = 1 then Inr \<lparr>mr_content = ''<think>plan</think>'', mr_reasoning_content = None, mr_tool_calls = []\<rparr>
         else Inr \<lparr>mr_content = ''Reading'', mr_reasoning_content = None, mr_tool_calls =
           [\<lparr>ltc_id = ''c1'', ltc_name = ''read'', ltc_arguments = 1, ltc_invalid_arguments = None\<rparr>,
            \<lparr>ltc_id = '' '', ltc_name = ''read'', ltc_arguments = 2, ltc_invalid_arguments = None\<rparr>,
            \<lparr>ltc_id = ''c1'', ltc_name = ''grep'', ltc_arguments = 3, ltc_invalid_arguments = None\<rparr>]\<rparr>),
      ex_millis = Some 1000, ex_first_delta = None\<rparr>"

definition flaky_env :: "(nat, int) model_env" where
  "flaky_env =
     \<lparr>me_provider = flaky_provider, me_publishes = True, me_max_backoff = None,
      me_before_retry = (\<lambda>w. (5, w + 1)), me_random_range = (\<lambda>n. n)\<rparr>"

definition flaky_run :: "((egopulse_error \<times> bool) + nat model_step) \<times> (nat, int) iteration_state" where
  "flaky_run = retry_transient_failures flaky_env [text_message ''user'' ''hello''] 0 0"

abbreviation flaky_answer :: "nat \<Rightarrow> egopulse_error + nat model_step" where
  "flaky_answer n \<equiv> map_sum LlmFailure step_of_response (ex_answer (flaky_provider n []))"

lemma flaky_send:
  assumes "is_clock st + 1000 \<le> deadline"
  shows "send_model_step flaky_env deadline ms st =
    (Some (flaky_answer (length (is_requests st))),
     st\<lparr>is_requests := is_requests st @ [(ms, is_published st)], is_clock := is_clock st + 1000\<rparr>)"
  using assms by (simp add: send_model_step_def flaky_env_def flaky_provider_def delta_within_def)

lemma flaky_steps:
  "flaky_answer 0 = Inl (LlmFailure (RequestFailed ''reset''))"
  "model_step_response_is_empty (Inl (LlmFailure (RequestFailed ''reset''))) = False"
  "model_step_response_is_empty (flaky_answer (Suc 0)) = True"
  "model_step_response_is_empty (flaky_answer (Suc (Suc 0))) = False"
  "\<exists>step. flaky_answer (Suc (Suc 0)) = Inr step"
  by (code_simp, code_simp, code_simp, code_simp, simp add: flaky_provider_def)

lemma flaky_run_result:
  "length (is_requests (snd flaky_run)) = 3 \<and> is_world (snd flaky_run) = 1 \<and> is_clock (snd flaky_run) = 3505 \<and>
   fst flaky_run = map_sum (\<lambda>e. (e, False)) id (flaky_answer 2)"
proof -
  obtain step where third: "flaky_answer (Suc (Suc 0)) = Inr step" using flaky_steps(5) by blast
  have env: "me_before_retry flaky_env w = (5, w + 1)" "me_max_backoff flaky_env = None"
    "me_random_range flaky_env n = n" for w n by (simp_all add: flaky_env_def)
  let ?ms = "[text_message ''user'' ''hello''] :: nat llm_message list"
  let ?g = "empty_retry_messages ?ms (flaky_answer (Suc 0))"
  let ?st0 = "\<lparr>is_requests = [], is_clock = 0, is_published = False,
    is_empty_retry_attempted = False, is_world = 0 :: int\<rparr>"
  let ?st1 = "?st0\<lparr>is_requests := [(?ms, False)], is_clock := 1000\<rparr>"
  let ?st2 = "?st1\<lparr>is_world := 1, is_clock := 1505\<rparr>"
  let ?st3 = "?st2\<lparr>is_requests := [(?ms, False), (?ms, False), (?g, False)],
    is_empty_retry_attempted := True, is_clock := 3505\<rparr>"
  have first: "send_model_step_with_empty_retry flaky_env 300000 ?ms ?st0 =
      (Some (Inl (LlmFailure (RequestFailed ''reset''), ?ms)), ?st1)"
    by (simp add: send_model_step_with_empty_retry_def flaky_send flaky_steps(1,2) with_messages_def map_err_def
        del: map_sum.simps)
  have second: "send_model_step_with_empty_retry flaky_env 300000 ?ms ?st2 = (Some (Inr step), ?st3)"
    using flaky_steps(3,4) third
    by (simp add: send_model_step_with_empty_retry_def flaky_send with_messages_def map_err_def Let_def
        del: map_sum.simps)
  have "retry_from flaky_env 300000 1 ?ms ?st0 = retry_from flaky_env 300000 (Suc (Suc 0)) ?ms ?st2"
    by (subst retry_from.simps)
      (simp add: first env llm_retry_backoff_def LLM_RETRY_BASE_BACKOFF_MS_def retryable_error_def MAX_LLM_RETRIES_def)
  also have "\<dots> = (Inr step, ?st3)"
    by (subst retry_from.simps, subst second) simp
  finally show ?thesis
    using third by (simp add: flaky_run_def retry_transient_failures_def MODEL_ITERATION_DEADLINE_def numeral_2_eq_2)
qed


end
