(* ===== verification/Conversation.thy ===== *)
theory Conversation
  imports Prelude
begin

text \<open>
  \<open>src/src/conversation.rs\<close>: the storage scope of a conversation, the surface a conversation
  is held on, and the session key that names it. The key is inverted by
  \<open>surface_thread_from_session_key\<close>, whatever characters its parts contain.
\<close>

datatype conversation_scope = Normal | Secret

fun conversation_scope_display :: "conversation_scope \<Rightarrow> string" where
  "conversation_scope_display Normal = ''normal''"
| "conversation_scope_display Secret = ''secret''"

record surface_context =
  sc_channel :: string
  sc_surface_user :: string
  sc_surface_thread :: string
  sc_chat_type :: string
  sc_agent_id :: string
  sc_channel_log_chat_id :: "int option"
  sc_chain_depth :: nat
  sc_origin_id :: string
  sc_trace_id :: string
  sc_scope :: conversation_scope
  sc_request_key :: string

definition surface_context_new ::
  "string \<Rightarrow> string \<Rightarrow> string \<Rightarrow> string \<Rightarrow> string \<Rightarrow> surface_context" where
  "surface_context_new channel surface_user surface_thread chat_type agent_id =
     \<lparr>sc_channel = channel, sc_surface_user = surface_user, sc_surface_thread = surface_thread,
      sc_chat_type = chat_type, sc_agent_id = agent_id, sc_channel_log_chat_id = None,
      sc_chain_depth = 0, sc_origin_id = '''', sc_trace_id = '''', sc_scope = Normal,
      sc_request_key = ''''\<rparr>"

definition session_key :: "surface_context \<Rightarrow> string" where
  "session_key c =
     (if sc_agent_id c \<noteq> []
      then sc_channel c @ '':'' @ sc_surface_thread c @ '':agent:'' @ sc_agent_id c
      else sc_channel c @ '':'' @ sc_surface_thread c)"

definition surface_thread_from_session_key :: "string \<Rightarrow> string \<Rightarrow> string \<Rightarrow> string" where
  "surface_thread_from_session_key channel key agent_id =
     (let thread =
        (case Option.bind (strip_prefix channel key) (strip_prefix '':'') of
           Some rest \<Rightarrow> rest | None \<Rightarrow> key)
      in if agent_id = [] then thread
         else (case strip_suffix ('':agent:'' @ agent_id) thread of
                 Some t \<Rightarrow> t | None \<Rightarrow> thread))"

text \<open>
  The session key determines the thread: from the key of any surface, its channel and its
  agent, the stored thread is recovered exactly, so a context rebuilt from a persisted key
  names the same session again.
\<close>

theorem session_key_roundtrip:
  "surface_thread_from_session_key (sc_channel c) (session_key c) (sc_agent_id c) = sc_surface_thread c \<and>
   session_key (c\<lparr>sc_surface_thread :=
     surface_thread_from_session_key (sc_channel c) (session_key c) (sc_agent_id c)\<rparr>) = session_key c"
proof -
  have s: "strip_prefix (sc_channel c) (session_key c) =
      Some ('':'' @ sc_surface_thread c @ (if sc_agent_id c \<noteq> [] then '':agent:'' @ sc_agent_id c else []))"
    by (simp add: session_key_def)
  have p: "strip_prefix '':'' ('':'' @ x) = Some x" for x :: string by (rule strip_prefix_append)
  have "surface_thread_from_session_key (sc_channel c) (session_key c) (sc_agent_id c) =
      sc_surface_thread c"
  proof (cases "sc_agent_id c = []")
    case True
    then show ?thesis using s p by (simp add: surface_thread_from_session_key_def)
  next
    case False
    then have "Option.bind (strip_prefix (sc_channel c) (session_key c)) (strip_prefix '':'') =
        Some (sc_surface_thread c @ ('':agent:'' @ sc_agent_id c))"
      using s p by simp
    then show ?thesis using False
      by (simp only: surface_thread_from_session_key_def Let_def option.case strip_suffix_append
          if_False)
  qed
  then show ?thesis by (simp add: session_key_def)
qed

end
