(* ===== verification/Json.thy ===== *)
theory Json
  imports Prelude
begin

text \<open>
  JSON values as the trees of \<open>serde_json\<close>, and its accessors. A number that is not an integer is
  kept as its text.
\<close>

datatype json =
    JNull
  | JBool bool
  | JNum int
  | JFloat string
  | JStr string
  | JArr "json list"
  | JObj "(string \<times> json) list"

text \<open>Parsing yields objects whose keys are in order (a \<open>BTreeMap\<close>).\<close>

fun normalize :: "json \<Rightarrow> json" where
  "normalize (JArr xs) = JArr (map normalize xs)"
| "normalize (JObj kvs) = JObj (sort_key fst (map (\<lambda>(k, v). (k, normalize v)) kvs))"
| "normalize v = v"

fun json_get :: "string \<Rightarrow> json \<Rightarrow> json option" where
  "json_get k (JObj kvs) = map_of kvs k"
| "json_get k _ = None"

fun json_as_u64 :: "json \<Rightarrow> nat option" where
  "json_as_u64 (JNum n) = (if 0 \<le> n \<and> n < 2 ^ 64 then Some (nat n) else None)"
| "json_as_u64 _ = None"

fun json_as_i64 :: "json \<Rightarrow> int option" where
  "json_as_i64 (JNum n) = (if - (2 ^ 63) \<le> n \<and> n < 2 ^ 63 then Some n else None)"
| "json_as_i64 _ = None"

fun json_as_str :: "json \<Rightarrow> string option" where
  "json_as_str (JStr s) = Some s"
| "json_as_str _ = None"

text \<open>An optional value is \<open>null\<close> or the value; a missing optional field reads as \<open>None\<close>.\<close>

definition json_option :: "('a \<Rightarrow> json) \<Rightarrow> 'a option \<Rightarrow> json" where
  "json_option enc m = (case m of None \<Rightarrow> JNull | Some x \<Rightarrow> enc x)"

definition json_as_option :: "(json \<Rightarrow> 'a option) \<Rightarrow> json option \<Rightarrow> 'a option option" where
  "json_as_option dec m =
     (case m of None \<Rightarrow> Some None
      | Some v \<Rightarrow> (if v = JNull then Some None else map_option Some (dec v)))"

end
