(* ===== verification/Scheduled_Turn.thy ===== *)
theory Scheduled_Turn
  imports Conversation Json "HOL-Library.Countable"
begin

text \<open>
  \<open>src/src/runtime/turn/scheduled.rs\<close>: a scheduled Turn, its durable payload and its request
  hash. The \<open>serde_json\<close> printer and parser and SHA-256 are
  parameters, and the round trip states what it needs of them.
\<close>

section \<open>Scheduled Turns\<close>

datatype response_delivery = Channel | ClientOwned

datatype persisted_response_delivery = PersistedChannel | PersistedClientOwned

fun to_persisted_delivery :: "response_delivery \<Rightarrow> persisted_response_delivery" where
  "to_persisted_delivery Channel = PersistedChannel"
| "to_persisted_delivery ClientOwned = PersistedClientOwned"

fun from_persisted_delivery :: "persisted_response_delivery \<Rightarrow> response_delivery" where
  "from_persisted_delivery PersistedChannel = Channel"
| "from_persisted_delivery PersistedClientOwned = ClientOwned"

record 'snapshot scheduled_turn =
  sdt_turn_id :: string
  sdt_context :: surface_context
  sdt_input :: string
  sdt_origin_id :: string
  sdt_received_at :: "string option"
  sdt_config_snapshot :: "'snapshot option"
  sdt_response_delivery :: response_delivery

definition turn_session_key :: "'s scheduled_turn \<Rightarrow> string" where
  "turn_session_key t = session_key (sdt_context t)"

section \<open>Request hash\<close>

definition canonical_request :: "surface_context \<Rightarrow> string \<Rightarrow> json" where
  "canonical_request c input =
     JObj [(''agent_id'', JStr (sc_agent_id c)), (''chain_depth'', JNum (int (sc_chain_depth c))),
       (''channel'', JStr (sc_channel c)),
       (''channel_log_chat_id'', json_option JNum (sc_channel_log_chat_id c)),
       (''chat_type'', JStr (sc_chat_type c)), (''input'', JStr input),
       (''surface_thread'', JStr (sc_surface_thread c)),
       (''surface_user'', JStr (sc_surface_user c)), (''version'', JNum 1)]"

definition canonical_request_hash ::
  "(json \<Rightarrow> string) \<Rightarrow> (string \<Rightarrow> string) \<Rightarrow> surface_context \<Rightarrow> string \<Rightarrow> string" where
  "canonical_request_hash print sha256_hex c input = sha256_hex (print (canonical_request c input))"

text \<open>
  The request hash identifies the content of a request and nothing else: it does not depend
  on the origin, the trace, the request key or the scope, and two requests hash alike (under a
  faithful printer and no digest collision) only when agent, depth, channel, channel log, chat
  type, thread, user and input agree.
\<close>

theorem request_hash_identifies_content:
  assumes "inj print"
    and "sha256_hex (print (canonical_request c input)) = sha256_hex (print (canonical_request d input'))
      \<Longrightarrow> print (canonical_request c input) = print (canonical_request d input')"
  shows "(canonical_request_hash print sha256_hex c input = canonical_request_hash print sha256_hex d input') =
    (sc_agent_id c = sc_agent_id d \<and> sc_chain_depth c = sc_chain_depth d \<and>
     sc_channel c = sc_channel d \<and> sc_channel_log_chat_id c = sc_channel_log_chat_id d \<and>
     sc_chat_type c = sc_chat_type d \<and> sc_surface_thread c = sc_surface_thread d \<and>
     sc_surface_user c = sc_surface_user d \<and> input = input')"
proof -
  have opt: "(json_option JNum m = json_option JNum n) = (m = n)" for m n
    by (cases m; cases n) (simp_all add: json_option_def)
  have "(canonical_request_hash print sha256_hex c input = canonical_request_hash print sha256_hex d input') =
      (canonical_request c input = canonical_request d input')"
    using assms by (auto simp: canonical_request_hash_def dest: injD)
  also have "\<dots> = (sc_agent_id c = sc_agent_id d \<and> sc_chain_depth c = sc_chain_depth d \<and>
     sc_channel c = sc_channel d \<and> sc_channel_log_chat_id c = sc_channel_log_chat_id d \<and>
     sc_chat_type c = sc_chat_type d \<and> sc_surface_thread c = sc_surface_thread d \<and>
     sc_surface_user c = sc_surface_user d \<and> input = input')"
    by (auto simp: canonical_request_def opt)
  finally show ?thesis .
qed

text \<open>
  JSON values are countable, which gives a faithful printer on which the properties with a
  printer as parameter are instantiated.
\<close>

instance json :: countable
  by countable_datatype

definition unary_print :: "json \<Rightarrow> string" where
  "unary_print v = replicate (to_nat v) CHR ''x''"

definition unary_parse :: "string \<Rightarrow> json option" where
  "unary_parse s = Some (normalize (from_nat (length s)))"

lemma unary_print_inj: "inj unary_print"
proof (rule injI)
  fix v w assume "unary_print v = unary_print w"
  then have "length (unary_print v) = length (unary_print w)" by (rule arg_cong)
  then show "v = w" by (simp add: unary_print_def)
qed

lemma unary_parse_print: "unary_parse (unary_print v) = Some (normalize v)"
  by (simp add: unary_parse_def unary_print_def)

definition sample_context :: surface_context where
  "sample_context = surface_context_new ''web'' ''ana'' ''t-1'' ''web'' ''dev''"

theorem request_hash_identifies_content_witness:
  "canonical_request_hash unary_print id sample_context ''hi'' =
     canonical_request_hash unary_print id (sample_context\<lparr>sc_trace_id := ''x''\<rparr>) ''hi'' \<and>
   canonical_request_hash unary_print id sample_context ''hi'' \<noteq>
     canonical_request_hash unary_print id sample_context ''ho''"
  using request_hash_identifies_content [OF unary_print_inj, of id] by simp

section \<open>Durable payload\<close>

record persisted_scheduled_turn =
  pst_version :: nat
  pst_context :: surface_context
  pst_input :: string
  pst_received_at :: "string option"
  pst_response_delivery :: persisted_response_delivery

definition SCHEDULED_TURN_VERSION :: nat where
  "SCHEDULED_TURN_VERSION = 1"

text \<open>The derived serializers: a struct is an object of its fields, a unit variant its name.\<close>

fun scope_to_json :: "conversation_scope \<Rightarrow> json" where
  "scope_to_json Normal = JStr ''Normal''"
| "scope_to_json Secret = JStr ''Secret''"

definition scope_from_json :: "json \<Rightarrow> conversation_scope option" where
  "scope_from_json v =
     (if v = JStr ''Normal'' then Some Normal
      else if v = JStr ''Secret'' then Some Secret else None)"

fun delivery_to_json :: "persisted_response_delivery \<Rightarrow> json" where
  "delivery_to_json PersistedChannel = JStr ''Channel''"
| "delivery_to_json PersistedClientOwned = JStr ''ClientOwned''"

definition delivery_from_json :: "json \<Rightarrow> persisted_response_delivery option" where
  "delivery_from_json v =
     (if v = JStr ''Channel'' then Some PersistedChannel
      else if v = JStr ''ClientOwned'' then Some PersistedClientOwned else None)"

definition context_to_json :: "surface_context \<Rightarrow> json" where
  "context_to_json c =
     JObj [(''channel'', JStr (sc_channel c)), (''surface_user'', JStr (sc_surface_user c)),
       (''surface_thread'', JStr (sc_surface_thread c)), (''chat_type'', JStr (sc_chat_type c)),
       (''agent_id'', JStr (sc_agent_id c)),
       (''channel_log_chat_id'', json_option JNum (sc_channel_log_chat_id c)),
       (''chain_depth'', JNum (int (sc_chain_depth c))), (''origin_id'', JStr (sc_origin_id c)),
       (''trace_id'', JStr (sc_trace_id c)), (''scope'', scope_to_json (sc_scope c)),
       (''request_key'', JStr (sc_request_key c))]"

definition field :: "string \<Rightarrow> (json \<Rightarrow> 'a option) \<Rightarrow> json \<Rightarrow> 'a option" where
  "field k dec v = Option.bind (json_get k v) dec"

definition context_from_json :: "json \<Rightarrow> surface_context option" where
  "context_from_json v =
     Option.bind (field ''channel'' json_as_str v) (\<lambda>channel.
     Option.bind (field ''surface_user'' json_as_str v) (\<lambda>user.
     Option.bind (field ''surface_thread'' json_as_str v) (\<lambda>thread.
     Option.bind (field ''chat_type'' json_as_str v) (\<lambda>chat_type.
     Option.bind (field ''agent_id'' json_as_str v) (\<lambda>agent.
     Option.bind (json_as_option json_as_i64 (json_get ''channel_log_chat_id'' v)) (\<lambda>log.
     Option.bind (field ''chain_depth'' json_as_u64 v) (\<lambda>depth.
     Option.bind (field ''origin_id'' json_as_str v) (\<lambda>origin.
     Option.bind (field ''trace_id'' json_as_str v) (\<lambda>trace.
     Option.bind (field ''scope'' scope_from_json v) (\<lambda>scope.
     Option.bind (field ''request_key'' json_as_str v) (\<lambda>key.
     Some \<lparr>sc_channel = channel, sc_surface_user = user, sc_surface_thread = thread,
       sc_chat_type = chat_type, sc_agent_id = agent, sc_channel_log_chat_id = log,
       sc_chain_depth = depth, sc_origin_id = origin, sc_trace_id = trace, sc_scope = scope,
       sc_request_key = key\<rparr>)))))))))))"

definition persisted_to_json :: "persisted_scheduled_turn \<Rightarrow> json" where
  "persisted_to_json p =
     JObj [(''version'', JNum (int (pst_version p))), (''context'', context_to_json (pst_context p)),
       (''input'', JStr (pst_input p)), (''received_at'', json_option JStr (pst_received_at p)),
       (''response_delivery'', delivery_to_json (pst_response_delivery p))]"

text \<open>\<open>#[serde(default)]\<close> fills the fields that older payloads lack.\<close>

definition persisted_from_json :: "json \<Rightarrow> persisted_scheduled_turn option" where
  "persisted_from_json v =
     Option.bind (Option.bind (field ''version'' json_as_u64 v)
         (\<lambda>n. if n < 2 ^ 32 then Some n else None)) (\<lambda>version.
     Option.bind (field ''context'' context_from_json v) (\<lambda>context.
     Option.bind (field ''input'' json_as_str v) (\<lambda>input.
     Option.bind (json_as_option json_as_str (json_get ''received_at'' v)) (\<lambda>received.
     Option.bind (case json_get ''response_delivery'' v of
         None \<Rightarrow> Some PersistedChannel | Some d \<Rightarrow> delivery_from_json d) (\<lambda>delivery.
     Some \<lparr>pst_version = version, pst_context = context, pst_input = input,
       pst_received_at = received, pst_response_delivery = delivery\<rparr>)))))"

text \<open>
  The ways \<open>deserialize_scheduled_turn\<close> fails, each an \<open>EgoPulseError::Internal\<close>; the text of
  \<open>serde_json\<close>'s own message is not part of the model.
\<close>

datatype payload_error = ParseFailed | MissingVersion | UnsupportedVersion nat | DecodeFailed

definition serialize_scheduled_turn :: "(json \<Rightarrow> string) \<Rightarrow> 's scheduled_turn \<Rightarrow> string" where
  "serialize_scheduled_turn print t =
     print (persisted_to_json
       \<lparr>pst_version = SCHEDULED_TURN_VERSION, pst_context = sdt_context t, pst_input = sdt_input t,
        pst_received_at = sdt_received_at t,
        pst_response_delivery = to_persisted_delivery (sdt_response_delivery t)\<rparr>)"

text \<open>\<open>as u32\<close> keeps the low 32 bits of the version.\<close>

definition deserialize_scheduled_turn ::
  "(string \<Rightarrow> json option) \<Rightarrow> string \<Rightarrow> payload_error + 's scheduled_turn" where
  "deserialize_scheduled_turn parse text =
     rbind (ok_or (parse text) ParseFailed) (\<lambda>v.
     rbind (ok_or (Option.bind (json_get ''version'' v) json_as_u64) MissingVersion) (\<lambda>n.
     let version = n mod 2 ^ 32 in
     if version \<noteq> SCHEDULED_TURN_VERSION then Inl (UnsupportedVersion version)
     else rbind (ok_or (persisted_from_json v) DecodeFailed) (\<lambda>p.
       Inr \<lparr>sdt_turn_id = '''', sdt_context = pst_context p, sdt_input = pst_input p,
         sdt_origin_id = sc_origin_id (pst_context p), sdt_received_at = pst_received_at p,
         sdt_config_snapshot = None,
         sdt_response_delivery = from_persisted_delivery (pst_response_delivery p)\<rparr>)))"

section \<open>Round trip\<close>

lemma map_of_sort_key:
  assumes "distinct (map fst kvs)"
  shows "map_of (sort_key fst kvs) k = map_of kvs k"
proof -
  have "distinct (map fst (sort_key fst kvs))"
    using assms by (simp add: distinct_map)
  then show ?thesis using assms by (metis map_of_inject_set set_sort)
qed

lemma json_get_normalize:
  assumes "distinct (map fst kvs)"
  shows "json_get k (normalize (JObj kvs)) = map_option normalize (map_of kvs k)"
proof -
  have "map fst (map (\<lambda>(k, v). (k, normalize v)) kvs) = map fst kvs" by (induction kvs) auto
  then have d: "distinct (map fst (map (\<lambda>(k, v). (k, normalize v)) kvs))"
    using assms by (simp only:)
  have "json_get k (normalize (JObj kvs)) =
      map_of (sort_key fst (map (\<lambda>(k, v). (k, normalize v)) kvs)) k" by simp
  also have "\<dots> = map_of (map (\<lambda>(k, v). (k, normalize v)) kvs) k"
    using d by (rule map_of_sort_key)
  also have "\<dots> = map_option normalize (map_of kvs k)" by (simp add: map_of_map)
  finally show ?thesis .
qed

lemma json_option_back:
  assumes "\<And>x. m = Some x \<Longrightarrow> dec (normalize (enc x)) = Some x \<and> normalize (enc x) \<noteq> JNull"
  shows "json_as_option dec (Some (normalize (json_option enc m))) = Some m"
  using assms by (cases m) (auto simp: json_option_def json_as_option_def)

lemma context_get:
  "json_get k (normalize (context_to_json c)) = map_option normalize (map_of
     [(''channel'', JStr (sc_channel c)), (''surface_user'', JStr (sc_surface_user c)),
      (''surface_thread'', JStr (sc_surface_thread c)), (''chat_type'', JStr (sc_chat_type c)),
      (''agent_id'', JStr (sc_agent_id c)),
      (''channel_log_chat_id'', json_option JNum (sc_channel_log_chat_id c)),
      (''chain_depth'', JNum (int (sc_chain_depth c))), (''origin_id'', JStr (sc_origin_id c)),
      (''trace_id'', JStr (sc_trace_id c)), (''scope'', scope_to_json (sc_scope c)),
      (''request_key'', JStr (sc_request_key c))] k)"
  unfolding context_to_json_def by (rule json_get_normalize) simp

lemma context_fields:
  "field ''channel'' json_as_str (normalize (context_to_json c)) = Some (sc_channel c)"
  "field ''surface_user'' json_as_str (normalize (context_to_json c)) = Some (sc_surface_user c)"
  "field ''surface_thread'' json_as_str (normalize (context_to_json c)) = Some (sc_surface_thread c)"
  "field ''chat_type'' json_as_str (normalize (context_to_json c)) = Some (sc_chat_type c)"
  "field ''agent_id'' json_as_str (normalize (context_to_json c)) = Some (sc_agent_id c)"
  "field ''origin_id'' json_as_str (normalize (context_to_json c)) = Some (sc_origin_id c)"
  "field ''trace_id'' json_as_str (normalize (context_to_json c)) = Some (sc_trace_id c)"
  "field ''request_key'' json_as_str (normalize (context_to_json c)) = Some (sc_request_key c)"
  "field ''scope'' scope_from_json (normalize (context_to_json c)) = Some (sc_scope c)"
  by (simp_all add: field_def context_get) (cases "sc_scope c"; simp add: scope_from_json_def)

lemma context_from_to_json:
  assumes "sc_chain_depth c < 2 ^ 64"
    "\<And>n. sc_channel_log_chat_id c = Some n \<Longrightarrow> - (2 ^ 63) \<le> n \<and> n < 2 ^ 63"
  shows "context_from_json (normalize (context_to_json c)) = Some c"
proof -
  have "json_get ''channel_log_chat_id'' (normalize (context_to_json c)) =
      Some (normalize (json_option JNum (sc_channel_log_chat_id c)))"
    by (simp add: context_get)
  moreover have "json_as_option json_as_i64 (Some (normalize (json_option JNum (sc_channel_log_chat_id c)))) =
      Some (sc_channel_log_chat_id c)"
    by (rule json_option_back) (use assms(2) in auto)
  moreover have "field ''chain_depth'' json_as_u64 (normalize (context_to_json c)) =
      Some (sc_chain_depth c)"
  proof -
    have "int (sc_chain_depth c) < 2 ^ 64" using assms(1) by simp
    then show ?thesis by (simp add: field_def context_get)
  qed
  ultimately show ?thesis by (simp add: context_from_json_def context_fields)
qed


lemma persisted_get:
  "json_get k (normalize (persisted_to_json p)) = map_option normalize (map_of
     [(''version'', JNum (int (pst_version p))), (''context'', context_to_json (pst_context p)),
      (''input'', JStr (pst_input p)), (''received_at'', json_option JStr (pst_received_at p)),
      (''response_delivery'', delivery_to_json (pst_response_delivery p))] k)"
  unfolding persisted_to_json_def by (rule json_get_normalize) simp

lemma persisted_from_to_json:
  assumes "sc_chain_depth (pst_context p) < 2 ^ 64"
    "\<And>n. sc_channel_log_chat_id (pst_context p) = Some n \<Longrightarrow> - (2 ^ 63) \<le> n \<and> n < 2 ^ 63"
    "pst_version p < 2 ^ 32"
  shows "persisted_from_json (normalize (persisted_to_json p)) = Some p"
    "Option.bind (json_get ''version'' (normalize (persisted_to_json p))) json_as_u64 = Some (pst_version p)"
proof -
  have "int (pst_version p) < 2 ^ 64" "pst_version p < 2 ^ 32" using assms(3) by simp_all
  then show v: "Option.bind (json_get ''version'' (normalize (persisted_to_json p))) json_as_u64 =
      Some (pst_version p)"
    by (simp add: persisted_get)
  have c: "field ''context'' context_from_json (normalize (persisted_to_json p)) = Some (pst_context p)"
    using context_from_to_json [OF assms(1,2)] by (simp add: field_def persisted_get)
  have i: "field ''input'' json_as_str (normalize (persisted_to_json p)) = Some (pst_input p)"
    by (simp add: field_def persisted_get)
  have r: "json_as_option json_as_str (json_get ''received_at'' (normalize (persisted_to_json p))) =
      Some (pst_received_at p)"
  proof -
    have "json_as_option json_as_str (Some (normalize (json_option JStr (pst_received_at p)))) =
        Some (pst_received_at p)"
      by (rule json_option_back) auto
    then show ?thesis by (simp add: persisted_get)
  qed
  have d: "json_get ''response_delivery'' (normalize (persisted_to_json p)) =
      Some (delivery_to_json (pst_response_delivery p))"
    by (cases "pst_response_delivery p") (simp_all add: persisted_get)
  have dd: "delivery_from_json (delivery_to_json (pst_response_delivery p)) = Some (pst_response_delivery p)"
    by (cases "pst_response_delivery p") (simp_all add: delivery_from_json_def)
  show "persisted_from_json (normalize (persisted_to_json p)) = Some p"
    using v c i r d dd assms(3) by (simp add: persisted_from_json_def field_def)
qed

text \<open>
  A scheduled Turn survives a restart: reading back its durable payload gives the Turn with
  the same context, input, acceptance time and delivery, its origin taken from the context, and
  no Turn id or configuration, which the dispatcher fills in. The JSON printer and parser are
  only asked to be inverse up to the order of object keys.
\<close>

theorem scheduled_turn_roundtrip:
  assumes "\<And>v. parse (print v) = Some (normalize v)"
    and "sc_chain_depth (sdt_context t) < 2 ^ 64"
    and "\<And>n. sc_channel_log_chat_id (sdt_context t) = Some n \<Longrightarrow> - (2 ^ 63) \<le> n \<and> n < 2 ^ 63"
  shows "deserialize_scheduled_turn parse (serialize_scheduled_turn print t) =
    Inr (t\<lparr>sdt_turn_id := '''', sdt_origin_id := sc_origin_id (sdt_context t), sdt_config_snapshot := None\<rparr>)"
proof -
  let ?p = "\<lparr>pst_version = SCHEDULED_TURN_VERSION, pst_context = sdt_context t, pst_input = sdt_input t,
    pst_received_at = sdt_received_at t,
    pst_response_delivery = to_persisted_delivery (sdt_response_delivery t)\<rparr>"
  have p: "persisted_from_json (normalize (persisted_to_json ?p)) = Some ?p"
    "Option.bind (json_get ''version'' (normalize (persisted_to_json ?p))) json_as_u64 = Some SCHEDULED_TURN_VERSION"
    using persisted_from_to_json [of ?p] assms(2,3) by (simp_all add: SCHEDULED_TURN_VERSION_def)
  have d: "from_persisted_delivery (to_persisted_delivery (sdt_response_delivery t)) = sdt_response_delivery t"
    by (cases "sdt_response_delivery t") simp_all
  have v: "SCHEDULED_TURN_VERSION mod 2 ^ 32 = SCHEDULED_TURN_VERSION"
    by (simp add: SCHEDULED_TURN_VERSION_def)
  show ?thesis
    using p d v by (simp add: deserialize_scheduled_turn_def serialize_scheduled_turn_def assms(1) Let_def)
qed

theorem scheduled_turn_roundtrip_witness:
  "deserialize_scheduled_turn unary_parse (serialize_scheduled_turn unary_print
     \<lparr>sdt_turn_id = ''T'', sdt_context = sample_context, sdt_input = ''hi'', sdt_origin_id = ''O'',
      sdt_received_at = Some ''t0'', sdt_config_snapshot = Some (), sdt_response_delivery = ClientOwned\<rparr>) =
   (Inr \<lparr>sdt_turn_id = '''', sdt_context = sample_context, sdt_input = ''hi'', sdt_origin_id = '''',
      sdt_received_at = Some ''t0'', sdt_config_snapshot = None,
      sdt_response_delivery = ClientOwned\<rparr> :: payload_error + unit scheduled_turn)"
  by (subst scheduled_turn_roundtrip [OF unary_parse_print])
    (simp_all add: sample_context_def surface_context_new_def)

end
