(* ===== verification/Turn_Phases.thy ===== *)
theory Turn_Phases
  imports Session_Persist Turn_Tracker Message_Text Model_Step Scheduled_Turn
begin

text \<open>
  The phases of one durable Turn: its acceptance, its transitions, its failure and the validation
  of a resume (\<open>src/src/agent_loop/turn/lifecycle.rs\<close>), and what it writes to the conversation
  (\<open>src/src/agent_loop/turn/persistence.rs\<close>). The state is the database, the image files and the
  rest of the world \<open>'x\<close>; before each blocking call the other tasks of the process run. Events
  and log lines change nothing and are left out.
\<close>

section \<open>Asynchronous functions\<close>

type_synonym 'x turn_state = "database \<times> asset_store \<times> 'x"

type_synonym ('x, 'a) run = "'x turn_state \<Rightarrow> (egopulse_error + 'a) \<times> 'x turn_state"

definition sreturn :: "'a \<Rightarrow> ('x, 'a) run" where
  "sreturn a s = (Inr a, s)"

definition sfail :: "egopulse_error \<Rightarrow> ('x, 'a) run" where
  "sfail e s = (Inl e, s)"

definition sbind :: "('x, 'a) run \<Rightarrow> ('a \<Rightarrow> ('x, 'b) run) \<Rightarrow> ('x, 'b) run" where
  "sbind m k s = (case m s of (Inl e, s') \<Rightarrow> (Inl e, s') | (Inr a, s') \<Rightarrow> k a s')"

text \<open>
  What one Turn runs with: its context and configuration, the parts of the process that are not
  modelled here, and \<open>te_others\<close>, what the other tasks do to the state while this one awaits.
  Since \<open>'x\<close> is arbitrary and may record anything, so may every choice made from it.
\<close>

record 'x turn_env =
  te_context :: surface_context
  te_session :: "json session_env"
  te_max_history :: nat
  te_config_revision :: int
  te_config_fingerprint :: string
  te_others :: "'x turn_state \<Rightarrow> 'x turn_state"
  te_clock :: "'x turn_state \<Rightarrow> nat \<Rightarrow> string"
  te_new_id :: "'x turn_state \<Rightarrow> string"
  te_local_time :: "string \<Rightarrow> string"
  te_status_text :: "nat \<Rightarrow> string"
  te_payload_text :: "payload_error \<Rightarrow> string"
  te_print :: "json \<Rightarrow> string"
  te_parse :: "string \<Rightarrow> json option"
  te_compact :: "int \<Rightarrow> json llm_message list \<Rightarrow> ('x, json llm_message list) run"

text \<open>\<open>call_blocking\<close>: the operation gets the time at which it starts and commits or leaves the database.\<close>

definition db_call :: "('x, 'z) turn_env_scheme \<Rightarrow> (string \<Rightarrow> database \<Rightarrow> 'a tx) \<Rightarrow> ('x, 'a) run" where
  "db_call env f s =
     (let s = te_others env s
      in case f (te_clock env s 0) (fst s) of
           Inl e \<Rightarrow> (Inl (StorageFailure e), s)
         | Inr (a, db) \<Rightarrow> (Inr a, (db, snd s)))"

definition db_read :: "('x, 'z) turn_env_scheme \<Rightarrow> (database \<Rightarrow> storage_error + 'a) \<Rightarrow> ('x, 'a) run" where
  "db_read env f = db_call env (\<lambda>_ db. rbind (f db) (\<lambda>a. Inr (a, db)))"

text \<open>A call whose failure is only logged.\<close>

definition ignoring :: "('x, 'a) run \<Rightarrow> ('x, unit) run" where
  "ignoring m s = (Inr (), snd (m s))"

text \<open>The session functions act on the database and the image files.\<close>

definition on_world ::
  "('x, 'z) turn_env_scheme \<Rightarrow>
   ((nat \<Rightarrow> string) \<Rightarrow> (nat \<Rightarrow> world \<Rightarrow> world) \<Rightarrow> world \<Rightarrow> (storage_error + 'a) \<times> world) \<Rightarrow> ('x, 'a) run" where
  "on_world env f s =
     (let s = te_others env s; x = snd (snd s);
          others = (\<lambda>_ w. let s' = te_others env (w_db w, w_assets w, x)
                          in \<lparr>w_db = fst s', w_assets = fst (snd s')\<rparr>);
          (r, w) = f (te_clock env s) others \<lparr>w_db = fst s, w_assets = fst (snd s)\<rparr>
      in (map_err StorageFailure r, (w_db w, w_assets w, x)))"

text \<open>An operation that receives the serialized session; the images are on disk before it starts.\<close>

definition with_snapshot ::
  "json session_env \<Rightarrow> json llm_message list \<Rightarrow> (string \<Rightarrow> string \<Rightarrow> database \<Rightarrow> 'a tx) \<Rightarrow>
   (nat \<Rightarrow> string) \<Rightarrow> (nat \<Rightarrow> world \<Rightarrow> world) \<Rightarrow> world \<Rightarrow> (storage_error + 'a) \<times> world" where
  "with_snapshot session ms f clock others w =
     (case serialize_snapshot session (clock 0) ms (w_assets w) of
        Inl e \<Rightarrow> (Inl e, w)
      | Inr (json, assets') \<Rightarrow>
          (let w1 = others 0 (w\<lparr>w_assets := assets'\<rparr>)
           in case f (clock 1) json (w_db w1) of
                Inl e \<Rightarrow> (Inl e, w1)
              | Inr (a, db') \<Rightarrow> (Inr a, w1\<lparr>w_db := db'\<rparr>)))"

text \<open>A conflict with another writer of the session continues with \<open>again\<close>.\<close>

definition on_conflict :: "('x, 'a) run \<Rightarrow> ('x, 'a) run \<Rightarrow> ('x, 'a) run" where
  "on_conflict again m s =
     (case m s of
        (Inl e, s') \<Rightarrow> if e = StorageFailure SessionSnapshotConflict then again s' else (Inl e, s')
      | (Inr a, s') \<Rightarrow> (Inr a, s'))"

section \<open>Acceptance\<close>

datatype turn_acceptance =
    Proceed turn
  | AcceptanceCompleted string string string
  | InProgress string "string option" string
  | Terminated string "string option" string

record turn_acceptance_request =
  tar_chat_id :: int
  tar_request_key :: string
  tar_payload_hash :: string
  tar_origin_id :: string
  tar_scheduled_request_json :: "string option"

definition resolve_request_key :: "string \<Rightarrow> surface_context \<Rightarrow> string" where
  "resolve_request_key uuid context =
     (if sc_request_key context = [] then uuid else sc_request_key context)"

text \<open>The two Japanese notices, in UTF-8.\<close>

definition in_progress_notice :: string where
  "in_progress_notice =
     [CHR 0xE3, CHR 0x81, CHR 0x93, CHR 0xE3, CHR 0x81, CHR 0xAE, CHR 0xE3, CHR 0x83, CHR 0xAA,
      CHR 0xE3, CHR 0x82, CHR 0xAF, CHR 0xE3, CHR 0x82, CHR 0xA8, CHR 0xE3, CHR 0x82, CHR 0xB9,
      CHR 0xE3, CHR 0x83, CHR 0x88, CHR 0xE3, CHR 0x81, CHR 0xAF, CHR 0xE3, CHR 0x81, CHR 0x99,
      CHR 0xE3, CHR 0x81, CHR 0xA7, CHR 0xE3, CHR 0x81, CHR 0xAB, CHR 0xE5, CHR 0x87, CHR 0xA6,
      CHR 0xE7, CHR 0x90, CHR 0x86, CHR 0xE4, CHR 0xB8, CHR 0xAD, CHR 0xE3, CHR 0x81, CHR 0xA7,
      CHR 0xE3, CHR 0x81, CHR 0x99, CHR 0xE3, CHR 0x80, CHR 0x82]"

definition terminated_notice :: "turn_run_state \<Rightarrow> string" where
  "terminated_notice state =
     [CHR 0xE3, CHR 0x81, CHR 0x93, CHR 0xE3, CHR 0x81, CHR 0xAE, CHR 0xE3, CHR 0x83, CHR 0xAA,
      CHR 0xE3, CHR 0x82, CHR 0xAF, CHR 0xE3, CHR 0x82, CHR 0xA8, CHR 0xE3, CHR 0x82, CHR 0xB9,
      CHR 0xE3, CHR 0x83, CHR 0x88, CHR 0xE3, CHR 0x81, CHR 0xAF, CHR 0xE4, CHR 0xBB, CHR 0xA5,
      CHR 0xE5, CHR 0x89, CHR 0x8D, CHR 0xE3, CHR 0x81, CHR 0xAB, CHR 0xE5, CHR 0x87, CHR 0xA6,
      CHR 0xE7, CHR 0x90, CHR 0x86, CHR 0xE3, CHR 0x81, CHR 0x95, CHR 0xE3, CHR 0x82, CHR 0x8C,
      CHR 0xE3, CHR 0x81, CHR 0xBE, CHR 0xE3, CHR 0x81, CHR 0x97, CHR 0xE3, CHR 0x81, CHR 0x9F,
      CHR 0xE3, CHR 0x81, CHR 0x8C, CHR 0xE3, CHR 0x80, CHR 0x81, CHR 0xE7, CHR 0x8A, CHR 0xB6,
      CHR 0xE6, CHR 0x85, CHR 0x8B, CHR 0xE3, CHR 0x81, CHR 0x8C, CHR 0x20] @ turn_run_state_display state @
     [CHR 0x20, CHR 0xE3, CHR 0x81, CHR 0xAB, CHR 0xE3, CHR 0x81, CHR 0xAA, CHR 0xE3, CHR 0x82,
      CHR 0x8A, CHR 0xE3, CHR 0x81, CHR 0xBE, CHR 0xE3, CHR 0x81, CHR 0x97, CHR 0xE3, CHR 0x81,
      CHR 0x9F, CHR 0xE3, CHR 0x80, CHR 0x82, CHR 0xE5, CHR 0x86, CHR 0x8D, CHR 0xE5, CHR 0xBA,
      CHR 0xA6, CHR 0xE3, CHR 0x81, CHR 0x8A, CHR 0xE8, CHR 0xA9, CHR 0xA6, CHR 0xE3, CHR 0x81,
      CHR 0x97, CHR 0xE3, CHR 0x81, CHR 0x8F, CHR 0xE3, CHR 0x81, CHR 0xA0, CHR 0xE3, CHR 0x81,
      CHR 0x95, CHR 0xE3, CHR 0x81, CHR 0x84, CHR 0xE3, CHR 0x80, CHR 0x82]"

definition accept_params :: "('x, 'z) turn_env_scheme \<Rightarrow> turn_acceptance_request \<Rightarrow> accept_turn_params" where
  "accept_params env request =
     \<lparr>atp_chat_id = tar_chat_id request, atp_request_key = tar_request_key request,
      atp_config_revision = te_config_revision env,
      atp_config_fingerprint = Some (te_config_fingerprint env),
      atp_request_payload_hash = tar_payload_hash request, atp_origin_id = Some (tar_origin_id request),
      atp_scheduled_request_json = tar_scheduled_request_json request\<rparr>"

definition replay_completed :: "('x, 'z) turn_env_scheme \<Rightarrow> turn \<Rightarrow> ('x, turn_acceptance) run" where
  "replay_completed env t =
     (case tr_final_message_id t of
        None \<Rightarrow> sfail (Internal ''completed turn_run has no final_message_id'')
      | Some final_id \<Rightarrow>
          sbind (db_read env (\<lambda>db. Inr (get_message_content final_id db))) (\<lambda>content.
          case content of
            None \<Rightarrow> sfail (Internal ''completed turn_run final message is missing'')
          | Some text' \<Rightarrow> sreturn (AcceptanceCompleted (tr_turn_id t) final_id text')))"

definition accept :: "('x, 'z) turn_env_scheme \<Rightarrow> string \<Rightarrow> turn_acceptance_request \<Rightarrow> ('x, turn_acceptance) run" where
  "accept env proposed_turn_id request =
     sbind (db_call env (\<lambda>now. accept_or_get_turn now proposed_turn_id (accept_params env request)))
       (\<lambda>outcome. case outcome of
          Created t \<Rightarrow> sreturn (Proceed t)
        | Existing t \<Rightarrow>
            if tr_state t = Accepted then sreturn (Proceed t)
            else if tr_state t = Completed then replay_completed env t
            else if is_terminal (tr_state t)
            then sreturn (Terminated (tr_turn_id t) (tr_final_message_id t) (terminated_notice (tr_state t)))
            else sreturn (InProgress (tr_turn_id t) (tr_final_message_id t) in_progress_notice))"

section \<open>Transitions\<close>

definition turn_transition ::
  "('x, 'z) turn_env_scheme \<Rightarrow> (string \<Rightarrow> string \<Rightarrow> database \<Rightarrow> unit tx) \<Rightarrow> string \<Rightarrow> ('x, unit) run" where
  "turn_transition env apply turn_id = db_call env (\<lambda>now. apply now turn_id)"

definition mark_output_published :: "('x, 'z) turn_env_scheme \<Rightarrow> string \<Rightarrow> ('x, unit) run" where
  "mark_output_published env turn_id =
     ignoring (db_call env (\<lambda>now. mark_turn_output_published now turn_id))"

definition complete_model :: "('x, 'z) turn_env_scheme \<Rightarrow> string \<Rightarrow> ('x, unit) run" where
  "complete_model env turn_id = turn_transition env complete_turn_model turn_id"

definition begin_tools :: "('x, 'z) turn_env_scheme \<Rightarrow> string \<Rightarrow> ('x, unit) run" where
  "begin_tools env turn_id = turn_transition env begin_turn_tools turn_id"

definition complete_tools :: "('x, 'z) turn_env_scheme \<Rightarrow> string \<Rightarrow> ('x, unit) run" where
  "complete_tools env turn_id = turn_transition env complete_turn_tools turn_id"

definition complete :: "('x, 'z) turn_env_scheme \<Rightarrow> string \<Rightarrow> string \<Rightarrow> ('x, unit) run" where
  "complete env turn_id final_message_id =
     db_call env (\<lambda>now. complete_turn now turn_id final_message_id)"

section \<open>Failure\<close>

definition sanitize_error_message :: "(nat \<Rightarrow> string) \<Rightarrow> egopulse_error \<Rightarrow> string" where
  "sanitize_error_message status_text e = truncate_by_chars (user_facing_summary status_text e) 200"

definition failure_target :: "turn \<Rightarrow> turn_run_state" where
  "failure_target t = (if tr_output_published t then Uncertain else Failed)"

definition turn_failure_of :: "(nat \<Rightarrow> string) \<Rightarrow> turn_run_state \<Rightarrow> egopulse_error \<Rightarrow> turn_failure" where
  "turn_failure_of status_text target e =
     (if target = Uncertain
      then turn_failure_with_public (error_kind e) (sanitize_error_message status_text e)
             TURN_UNCERTAIN_PUBLIC_MESSAGE
      else turn_failure_shared (error_kind e) (sanitize_error_message status_text e))"

definition record_failure ::
  "('x, 'z) turn_env_scheme \<Rightarrow> string \<Rightarrow> turn_run_state \<Rightarrow> egopulse_error \<Rightarrow> ('x, unit) run" where
  "record_failure env turn_id target e =
     (let failure = turn_failure_of (te_status_text env) target e; origin_id = sc_origin_id (te_context env)
      in ignoring (db_call env (\<lambda>now db.
           if origin_id = [] then fail_turn now turn_id target failure db
           else fail_turn_and_terminate_origin now turn_id target failure origin_id
                  (stop_reason_display stop_reason.LlmFailure) db)))"

definition fail :: "('x, 'z) turn_env_scheme \<Rightarrow> string \<Rightarrow> egopulse_error \<Rightarrow> ('x, unit) run" where
  "fail env turn_id e =
     ignoring (sbind (db_read env (get_turn_run turn_id)) (\<lambda>t.
       if is_terminal (tr_state t) then sreturn ()
       else record_failure env turn_id (failure_target t) e))"

definition record_failure_excluding_conflict ::
  "('x, 'z) turn_env_scheme \<Rightarrow> string \<Rightarrow> egopulse_error \<Rightarrow> ('x, unit) run" where
  "record_failure_excluding_conflict env turn_id e =
     (if e = TurnConcurrencyConflict then sreturn () else fail env turn_id e)"

section \<open>Resuming\<close>

definition fail_resume_permanently ::
  "('x, 'z) turn_env_scheme \<Rightarrow> string \<Rightarrow> turn_run_state \<Rightarrow> string \<Rightarrow> ('x, unit) run" where
  "fail_resume_permanently env turn_id resume_target reason =
     (let (target, public) =
        (if resume_target = ToolsCompleted then (Uncertain, TURN_UNCERTAIN_PUBLIC_MESSAGE)
         else (Failed, TURN_INTERRUPTED_PUBLIC_MESSAGE))
      in ignoring (db_call env (\<lambda>now. fail_turn now turn_id target
           (turn_failure_with_public ''validation'' reason public))))"

text \<open>Recording the failure and the error the caller gets.\<close>

definition refuse_resume ::
  "('x, 'z) turn_env_scheme \<Rightarrow> string \<Rightarrow> turn_run_state \<Rightarrow> string \<Rightarrow> string \<Rightarrow> ('x, 'a) run" where
  "refuse_resume env turn_id resume_target reason internal =
     sbind (fail_resume_permanently env turn_id resume_target reason) (\<lambda>_. sfail (Internal internal))"

definition validate_resume_target ::
  "('x, 'z) turn_env_scheme \<Rightarrow> string \<Rightarrow> turn \<Rightarrow> turn_run_state \<Rightarrow> bool \<Rightarrow> ('x, 's scheduled_turn) run" where
  "validate_resume_target env turn_id t expected_state reject_published_output =
     (let refuse = (\<lambda>reason internal. refuse_resume env turn_id expected_state reason internal) in
      if tr_state t \<noteq> expected_state then sfail TurnConcurrencyConflict
      else case tr_scheduled_request_json t of
        None \<Rightarrow> refuse ''resume target has no scheduled request''
          ''resume target turn has no scheduled request''
      | Some scheduled_json \<Rightarrow>
          if reject_published_output \<and> tr_output_published t
          then refuse ''resume target already published output''
            ''resume target turn already published output''
          else (case deserialize_scheduled_turn (te_parse env) scheduled_json of
              Inl e \<Rightarrow> refuse ''failed to decode scheduled request'' (''failed to decode scheduled request for resume: '' @ te_payload_text env e)
            | Inr persisted \<Rightarrow>
                if (case tr_config_fingerprint t of
                      Some f \<Rightarrow> f \<noteq> [] \<and> f \<noteq> te_config_fingerprint env | None \<Rightarrow> False)
                then refuse ''config fingerprint mismatch on resume''
                  ''config fingerprint mismatch on resume''
                else (case tr_input_message_id t of
                    None \<Rightarrow> refuse ''resume target input message missing''
                      ''resume target input message is missing''
                  | Some input_message_id \<Rightarrow>
                      sbind (db_read env (\<lambda>db. Inr (get_message_content input_message_id db))) (\<lambda>content.
                      if content = None
                      then refuse ''resume target input message missing''
                        ''resume target input message is missing''
                      else sreturn persisted))))"

definition validate_resume ::
  "('x, 'z) turn_env_scheme \<Rightarrow> string \<Rightarrow> turn \<Rightarrow> ('x, 's scheduled_turn) run" where
  "validate_resume env turn_id t = validate_resume_target env turn_id t InputCommitted True"

definition validate_tools_completed_resume ::
  "('x, 'z) turn_env_scheme \<Rightarrow> string \<Rightarrow> turn \<Rightarrow> ('x, 's scheduled_turn) run" where
  "validate_tools_completed_resume env turn_id t =
     validate_resume_target env turn_id t ToolsCompleted False"

section \<open>Writing the conversation\<close>

definition load_turn_messages :: "('x, 'z) turn_env_scheme \<Rightarrow> int \<Rightarrow> ('x, json loaded_session) run" where
  "load_turn_messages env chat_id =
     on_world env (\<lambda>_ _ w.
       (load_messages_for_turn_with_limit (te_session env) chat_id (te_max_history env) w, w))"

definition commit_user_turn_input ::
  "('x, 'z) turn_env_scheme \<Rightarrow> string \<Rightarrow> stored_message \<Rightarrow> json llm_message list \<Rightarrow> int option \<Rightarrow>
   ('x, json persisted_turn) run" where
  "commit_user_turn_input env turn_id m ms revision =
     sbind (on_world env (with_snapshot (te_session env) ms (\<lambda>now json.
       commit_turn_input_with_conversation now m json revision turn_id (te_config_revision env)
         (Some (te_config_fingerprint env)))))
     (\<lambda>new_revision. sreturn \<lparr>pt_revision = new_revision, pt_messages = ms\<rparr>)"

record user_input =
  ui_message_id :: string
  ui_message :: "json llm_message"
  ui_input :: string
  ui_received_at :: string

definition user_input_message ::
  "('x, 'z) turn_env_scheme \<Rightarrow> int \<Rightarrow> string \<Rightarrow> user_input \<Rightarrow> stored_message" where
  "user_input_message env chat_id turn_id input =
     (stored_message_user '''' '''' chat_id (sc_surface_user (te_context env)) (ui_input input))
       \<lparr>msg_id := ui_message_id input, msg_turn_id := Some turn_id,
        msg_timestamp := ui_received_at input\<rparr>"

text \<open>One round of the loop, and what follows a conflict.\<close>

definition user_input_attempt ::
  "('x, 'z) turn_env_scheme \<Rightarrow> int \<Rightarrow> string \<Rightarrow> user_input \<Rightarrow>
   ('x, json llm_message list \<times> int option) run \<Rightarrow> json loaded_session \<Rightarrow>
   ('x, json llm_message list \<times> int option) run" where
  "user_input_attempt env chat_id turn_id input again loaded =
     sbind (te_compact env chat_id (ls_messages loaded @ [ui_message input])) (\<lambda>candidate.
     on_conflict again
       (sbind (commit_user_turn_input env turn_id (user_input_message env chat_id turn_id input) candidate
          (ls_session_revision loaded))
        (\<lambda>persisted. sreturn (pt_messages persisted, Some (pt_revision persisted)))))"

definition persist_user_input ::
  "('x, 'z) turn_env_scheme \<Rightarrow> int \<Rightarrow> string \<Rightarrow> user_input \<Rightarrow> ('x, json llm_message list \<times> int option) run" where
  "persist_user_input env chat_id turn_id input =
     (let attempt = user_input_attempt env chat_id turn_id input
      in sbind (load_turn_messages env chat_id)
           (attempt (sbind (load_turn_messages env chat_id)
             (attempt (sfail (StorageFailure SessionSnapshotConflict))))))"

definition persist_turn_phase ::
  "('x, 'z) turn_env_scheme \<Rightarrow> stored_message \<Rightarrow> json llm_message list \<Rightarrow> json llm_message list \<Rightarrow>
   int option \<Rightarrow> ('x, json persisted_turn) run" where
  "persist_turn_phase env m phase_messages ms revision =
     on_world env (\<lambda>clock others.
       persist_phase_messages (te_session env) clock others m phase_messages ms revision)"

definition persist_final ::
  "('x, 'z) turn_env_scheme \<Rightarrow> int \<Rightarrow> string \<Rightarrow> string \<Rightarrow> json llm_message list \<Rightarrow> int option \<Rightarrow>
   string \<Rightarrow> string option \<Rightarrow> ('x, string) run" where
  "persist_final env chat_id turn_id final_message_id ms revision final_content reasoning s =
     (let assistant_message = (text_message ''assistant'' final_content)\<lparr>lm_reasoning_content := reasoning\<rparr>;
          stored = (stored_message_assistant '''' (te_clock env s 0) chat_id (sc_agent_id (te_context env))
                     final_content)\<lparr>msg_id := final_message_id, msg_turn_id := Some turn_id\<rparr>
      in sbind (persist_turn_phase env stored [assistant_message] (ms @ [assistant_message]) revision)
           (\<lambda>_. sreturn final_content) s)"

definition persist_tool_call ::
  "('x, 'z) turn_env_scheme \<Rightarrow> int \<Rightarrow> string \<Rightarrow> string \<Rightarrow> json assistant_tool_phase \<Rightarrow>
   json llm_message list \<Rightarrow> int option \<Rightarrow> ('x, json persisted_turn) run" where
  "persist_tool_call env chat_id turn_id assistant_message_id phase ms revision s =
     (let stored = (stored_message_assistant '''' (te_clock env s 0) chat_id (sc_agent_id (te_context env))
            (atph_assistant_preview phase))
              \<lparr>msg_id := assistant_message_id, msg_turn_id := Some turn_id\<rparr>
      in persist_turn_phase env stored [atph_assistant_message phase]
           (ms @ [atph_assistant_message phase]) revision s)"

definition persist_tool_results ::
  "('x, 'z) turn_env_scheme \<Rightarrow> int \<Rightarrow> string \<Rightarrow> string \<Rightarrow> json llm_message list \<Rightarrow> json llm_message list \<Rightarrow>
   string \<Rightarrow> int option \<Rightarrow> ('x, json persisted_turn) run" where
  "persist_tool_results env chat_id turn_id assistant_message_id ms tool_messages preview revision s =
     (if tool_messages = []
      then (Inr \<lparr>pt_revision = (case revision of Some r \<Rightarrow> r | None \<Rightarrow> 0), pt_messages = ms\<rparr>, s)
      else
        (let tool_summary = (stored_message_tool_result_preview (te_new_id env s) (te_clock env s 0) chat_id
               (sc_agent_id (te_context env)) preview assistant_message_id)\<lparr>msg_turn_id := Some turn_id\<rparr>
         in persist_turn_phase env tool_summary tool_messages (ms @ tool_messages) revision s))"

section \<open>Staged follow-ups\<close>

definition staged_candidate ::
  "('x, 'z) turn_env_scheme \<Rightarrow> json llm_message list \<Rightarrow> stored_message list \<Rightarrow> json llm_message list" where
  "staged_candidate env ms staged =
     ms @ map (\<lambda>m. text_message ''user''
       (format_direct_input (te_local_time env (msg_timestamp m)) (msg_content m))) staged"

definition staged_attempt ::
  "('x, 'z) turn_env_scheme \<Rightarrow> string \<Rightarrow> ('x, json persisted_turn) run \<Rightarrow> json llm_message list \<Rightarrow> int \<Rightarrow>
   ('x, json persisted_turn) run" where
  "staged_attempt env turn_id again ms revision =
     sbind (db_read env (list_staged_user_messages turn_id)) (\<lambda>staged.
     if staged = [] then sreturn \<lparr>pt_revision = revision, pt_messages = ms\<rparr>
     else
       (let candidate = staged_candidate env ms staged
        in on_conflict again
             (sbind (on_world env (with_snapshot (te_session env) candidate (\<lambda>now json.
                commit_staged_user_messages now turn_id json revision)))
              (\<lambda>committed. sreturn \<lparr>pt_revision = csm_revision committed, pt_messages = candidate\<rparr>))))"

definition commit_staged ::
  "('x, 'z) turn_env_scheme \<Rightarrow> int \<Rightarrow> string \<Rightarrow> json llm_message list \<Rightarrow> int option \<Rightarrow>
   ('x, json persisted_turn) run" where
  "commit_staged env chat_id turn_id ms session_revision =
     (case session_revision of
        None \<Rightarrow>
          sbind (db_read env (list_staged_user_messages turn_id)) (\<lambda>staged.
          if staged = [] then sreturn \<lparr>pt_revision = 0, pt_messages = ms\<rparr>
          else sfail (StorageFailure (Conflict ''staged follow-up requires an existing session snapshot'')))
      | Some revision \<Rightarrow>
          (let again = sbind (load_turn_messages env chat_id) (\<lambda>loaded.
             case ls_session_revision loaded of
               None \<Rightarrow> sfail (StorageFailure SessionSnapshotConflict)
             | Some revision \<Rightarrow>
                 staged_attempt env turn_id (sfail (StorageFailure SessionSnapshotConflict))
                   (ls_messages loaded) revision)
           in staged_attempt env turn_id again ms revision))"

section \<open>What a Turn does to the store\<close>

text \<open>
  Whatever interleaves, the store keeps its invariant, every Turn only moves along the transition
  rule, and no committed message is lost.
\<close>

definition store_evolves :: "database \<Rightarrow> database \<Rightarrow> bool" where
  "store_evolves db db' =
     (store_inv db' \<and> committed_kept db db' \<and>
      (\<forall>k s. turn_status db k = Some s \<longrightarrow> (\<exists>t. turn_status db' k = Some t \<and> can_transition\<^sup>*\<^sup>* s t)))"

lemma store_evolves_refl: "store_inv db \<Longrightarrow> store_evolves db db"
  by (auto simp: store_evolves_def)

lemma committed_kept_trans: "committed_kept a b \<Longrightarrow> committed_kept b c \<Longrightarrow> committed_kept a c"
  unfolding committed_kept_def by blast

lemma store_evolves_trans: "store_evolves a b \<Longrightarrow> store_evolves b c \<Longrightarrow> store_evolves a c"
  unfolding store_evolves_def
  by (intro conjI) (blast, blast intro: committed_kept_trans, meson rtranclp_trans)

lemma store_evolves_inv: "store_evolves db db' \<Longrightarrow> store_inv db'"
  by (simp add: store_evolves_def)

lemma store_evolves_status:
  "store_evolves db db' \<Longrightarrow> turn_status db k = Some s \<Longrightarrow>
   \<exists>t. turn_status db' k = Some t \<and> can_transition\<^sup>*\<^sup>* s t"
  unfolding store_evolves_def by blast

lemma store_step_evolves:
  assumes "store_step db db'" "store_inv db"
  shows "store_evolves db db'"
proof -
  from store_step_cases [OF assms]
  consider "turn_progress db db'" | now i p where "db' = accepted now i p db" by blast
  then have "committed_kept db db'"
    by cases (auto simp: turn_progress_def accepted_def committed_kept_def)
  then show ?thesis
    using store_step_cases [OF assms] turn_status_step [OF assms] by (simp add: store_evolves_def)
qed

lemma chats_change_evolves:
  assumes "store_inv db" "turn_runs db' = turn_runs db" "messages db' = messages db" "chat_inv db'"
  shows "store_evolves db db'"
proof -
  have "store_inv db'"
    using assms store_invD [OF assms(1)]
    by (simp add: store_inv_def turn_inv_def staged_only_def visible_failures_def)
  then show ?thesis
    using assms(3) turn_status_cong [OF assms(2)] by (auto simp: store_evolves_def)
qed

lemma terminal_stays:
  assumes "store_evolves db db'" "turn_status db k = Some s" "is_terminal s"
  shows "turn_status db' k = Some s"
  using store_evolves_status [OF assms(1,2)] turn_graph.final_path assms(3) by metis

definition steady :: "('x, 'a) run \<Rightarrow> bool" where
  "steady m = (\<forall>s. store_inv (fst s) \<longrightarrow> store_evolves (fst s) (fst (snd (m s))))"

definition env_steady :: "('x, 'z) turn_env_scheme \<Rightarrow> bool" where
  "env_steady env =
     ((\<forall>s. store_inv (fst s) \<longrightarrow> store_evolves (fst s) (fst (te_others env s))) \<and>
      (\<forall>c ms. steady (te_compact env c ms)))"

lemma steadyD: "steady m \<Longrightarrow> m s = (r, s') \<Longrightarrow> store_inv (fst s) \<Longrightarrow> store_evolves (fst s) (fst s')"
  unfolding steady_def by (metis snd_conv)

named_theorems steady

lemma steady_return [steady]: "steady (sreturn a)"
  by (simp add: steady_def sreturn_def store_evolves_refl)

lemma steady_fail [steady]: "steady (sfail e)"
  by (simp add: steady_def sfail_def store_evolves_refl)

lemma steady_bind [steady]:
  assumes "steady m" "\<And>a. steady (k a)"
  shows "steady (sbind m k)"
proof (unfold steady_def, intro allI impI)
  fix s :: "'a turn_state" assume inv: "store_inv (fst s)"
  obtain r s1 where m: "m s = (r, s1)" by (metis prod.exhaust)
  note one = steadyD [OF assms(1) m inv]
  show "store_evolves (fst s) (fst (snd (sbind m k s)))"
  proof (cases r)
    case (Inr a)
    have "store_evolves (fst s1) (fst (snd (k a s1)))"
      using assms(2) [of a] store_evolves_inv [OF one] unfolding steady_def by blast
    then show ?thesis using m Inr one by (simp add: sbind_def store_evolves_trans)
  qed (use m one in \<open>simp add: sbind_def\<close>)
qed

lemma others_evolve: "env_steady env \<Longrightarrow> store_inv (fst s) \<Longrightarrow> store_evolves (fst s) (fst (te_others env s))"
  unfolding env_steady_def by blast

lemma steady_compact [steady]: "env_steady env \<Longrightarrow> steady (te_compact env c ms)"
  by (simp add: env_steady_def)

lemma steady_db_call [steady]:
  assumes env: "env_steady env"
    and f: "\<And>now db a db'. f now db = Inr (a, db') \<Longrightarrow> store_inv db \<Longrightarrow> store_evolves db db'"
  shows "steady (db_call env f)"
proof (unfold steady_def, intro allI impI)
  fix s :: "'a turn_state" assume "store_inv (fst s)"
  note o = others_evolve [OF env this]
  then have "store_evolves (fst (te_others env s)) db'"
    if "f now (fst (te_others env s)) = Inr (a, db')" for now a db'
    using f [OF that] store_evolves_inv by blast
  then show "store_evolves (fst s) (fst (snd (db_call env f s)))"
    using o store_evolves_trans [OF o] by (auto simp: db_call_def Let_def split: sum.split)
qed

lemma steady_db_read [steady]: "env_steady env \<Longrightarrow> steady (db_read env f)"
  unfolding db_read_def by (rule steady_db_call) (auto simp: res_simps store_evolves_refl)

lemma steady_ignoring [steady]: "steady m \<Longrightarrow> steady (ignoring m)"
  by (simp add: steady_def ignoring_def)

lemma steady_on_world [steady]:
  assumes env: "env_steady env"
    and f: "\<And>clock others w. store_inv (w_db w) \<Longrightarrow>
      (\<And>i v. store_inv (w_db v) \<Longrightarrow> store_evolves (w_db v) (w_db (others i v))) \<Longrightarrow>
      store_evolves (w_db w) (w_db (snd (f clock others w)))"
  shows "steady (on_world env f)"
proof (unfold steady_def, intro allI impI)
  fix s :: "'a turn_state" assume inv: "store_inv (fst s)"
  let ?s = "te_others env s"
  let ?others = "\<lambda>_ w. let s' = te_others env (w_db w, w_assets w, snd (snd ?s))
    in \<lparr>w_db = fst s', w_assets = fst (snd s')\<rparr>"
  let ?w = "\<lparr>w_db = fst ?s, w_assets = fst (snd ?s)\<rparr>"
  note o = others_evolve [OF env inv]
  have "store_evolves (w_db ?w) (w_db (snd (f (te_clock env ?s) ?others ?w)))"
  proof (rule f)
    show "store_inv (w_db ?w)" using store_evolves_inv [OF o] by simp
    show "store_evolves (w_db v) (w_db (?others i v))" if "store_inv (w_db v)" for i v
      using others_evolve [OF env, of "(w_db v, w_assets v, snd (snd ?s))"] that by (simp add: Let_def)
  qed
  then show "store_evolves (fst s) (fst (snd (on_world env f s)))"
    using store_evolves_trans [OF o] by (simp add: on_world_def Let_def case_prod_beta)
qed

text \<open>The phases, each a sequence of store operations.\<close>

lemma steady_step:
  assumes "env_steady env" "\<And>now db a db'. f now db = Inr (a, db') \<Longrightarrow> store_step db db'"
  shows "steady (db_call env f)"
  using assms by (intro steady_db_call store_step_evolves) auto

lemma steady_accept [steady]: "env_steady env \<Longrightarrow> steady (accept env i request)"
  unfolding accept_def replay_completed_def
  by (auto intro!: steady steady_step step_accept split: accept_outcome.split option.split)

lemma steady_transitions [steady]:
  assumes "env_steady env"
  shows "steady (mark_output_published env i)" "steady (complete_model env i)"
    "steady (begin_tools env i)" "steady (complete_tools env i)" "steady (complete env i fin)"
  using assms
  unfolding mark_output_published_def complete_model_def begin_tools_def complete_tools_def
    complete_def turn_transition_def
  by (auto intro!: steady steady_step intro: store_step.intros)

lemma steady_record_failure [steady]: "env_steady env \<Longrightarrow> steady (record_failure env i target e)"
  unfolding record_failure_def Let_def
  by (auto intro!: steady steady_step intro: step_fail step_fail_origin split: if_splits)

lemma steady_failing [steady]:
  assumes "env_steady env"
  shows "steady (fail env i e)" "steady (record_failure_excluding_conflict env i e)"
  using assms unfolding record_failure_excluding_conflict_def fail_def
  by (auto intro!: steady split: if_splits)

lemma steady_refuse [steady]: "env_steady env \<Longrightarrow> steady (refuse_resume env i target reason internal)"
  unfolding refuse_resume_def fail_resume_permanently_def Let_def
  by (auto intro!: steady steady_step intro: step_fail)

lemma steady_validate [steady]: "env_steady env \<Longrightarrow> steady (validate_resume_target env i t expected reject)"
  unfolding validate_resume_target_def Let_def
  by (auto intro!: steady split: option.split sum.split if_splits)

lemma steady_load [steady]: "env_steady env \<Longrightarrow> steady (load_turn_messages env c)"
  unfolding load_turn_messages_def by (rule steady_on_world) (simp_all add: store_evolves_refl)

lemma steady_on_conflict [steady]:
  assumes "steady again" "steady m"
  shows "steady (on_conflict again m)"
proof (unfold steady_def, intro allI impI)
  fix s :: "'a turn_state" assume inv: "store_inv (fst s)"
  obtain r s1 where m: "m s = (r, s1)" by (metis prod.exhaust)
  note one = steadyD [OF assms(2) m inv]
  have "store_evolves (fst s1) (fst (snd (again s1)))"
    using assms(1) store_evolves_inv [OF one] unfolding steady_def by blast
  then show "store_evolves (fst s) (fst (snd (on_conflict again m s)))"
    using m one store_evolves_trans [OF one] by (auto simp: on_conflict_def split: sum.split)
qed

lemma steady_with_snapshot [steady]:
  assumes env: "env_steady env"
    and f: "\<And>now json db a db'. f now json db = Inr (a, db') \<Longrightarrow> store_step db db'"
  shows "steady (on_world env (with_snapshot session ms f))"
proof (rule steady_on_world [OF env])
  fix clock :: "nat \<Rightarrow> string" and others :: "nat \<Rightarrow> world \<Rightarrow> world" and w :: world
  assume inv: "store_inv (w_db w)"
    and o: "\<And>i v. store_inv (w_db v) \<Longrightarrow> store_evolves (w_db v) (w_db (others i v))"
  have one: "store_evolves (w_db w) (w_db (others 0 (w\<lparr>w_assets := a\<rparr>)))" for a
    using o [of "w\<lparr>w_assets := a\<rparr>"] inv by simp
  have "store_evolves (w_db w) db'"
    if "f now json (w_db (others 0 (w\<lparr>w_assets := a\<rparr>))) = Inr (rv, db')" for now json a rv db'
    using store_evolves_trans [OF one store_step_evolves [OF f [OF that] store_evolves_inv [OF one]]] .
  with one show "store_evolves (w_db w) (w_db (snd (with_snapshot session ms f clock others w)))"
    using inv by (auto simp: with_snapshot_def Let_def store_evolves_refl split: sum.split prod.split)
qed

lemma steady_user_input [steady]: "env_steady env \<Longrightarrow> steady (persist_user_input env c i input)"
  unfolding persist_user_input_def user_input_attempt_def commit_user_turn_input_def Let_def
  by (intro steady step_commit_input | assumption)+

lemma store_phase_snapshot_evolves:
  assumes "store_inv (w_db w)"
  shows "store_evolves (w_db w) (w_db (snd (store_phase_snapshot env now m ms revision w)))"
proof -
  have "store_evolves (w_db w) db'"
    if "store_message_with_session now m json revision (w_db w) = Inr (r, db')" for json r db'
  proof -
    note ok = that
    obtain out where "commit_conversation_message now m (Some json) revision (w_db w) = Inr (out, db')"
      using ok by (auto simp: store_message_with_session_def res_simps)
    then show ?thesis by (rule store_step_evolves [OF step_message assms])
  qed
  then show ?thesis
    using assms by (auto simp: store_phase_snapshot_def Let_def store_evolves_refl split: sum.split prod.split)
qed

lemma persist_phase_messages_evolves:
  assumes inv: "store_inv (w_db w)"
    and o: "\<And>i v. store_inv (w_db v) \<Longrightarrow> store_evolves (w_db v) (w_db (others i v))"
  shows "store_evolves (w_db w) (w_db (snd (persist_phase_messages env clock others m phase ms revision w)))"
proof -
  obtain first w1 where f: "store_phase_snapshot env (clock 0) m ms revision w = (first, w1)"
    by (metis prod.exhaust)
  have a: "store_evolves (w_db w) (w_db w1)"
    using store_phase_snapshot_evolves [OF inv, of env "clock 0" m ms revision] f by simp
  then have b: "store_evolves (w_db w1) (w_db (others 0 w1))" using o store_evolves_inv by blast
  then have c: "store_evolves (w_db (others 0 w1)) (w_db (others 1 (others 0 w1)))"
    using o store_evolves_inv by blast
  note d = store_phase_snapshot_evolves [OF store_evolves_inv [OF c]]
  note ab = store_evolves_trans [OF a b]
  note abcd = store_evolves_trans [OF ab store_evolves_trans [OF c d]]
  show ?thesis
    using f a ab abcd by (auto simp: persist_phase_messages_def Let_def split: sum.split option.split)
qed

lemma steady_phase [steady]: "env_steady env \<Longrightarrow> steady (persist_turn_phase env m phase ms revision)"
  unfolding persist_turn_phase_def by (rule steady_on_world) (auto intro: persist_phase_messages_evolves)

lemma steady_conversation [steady]:
  assumes env: "env_steady env"
  shows "steady (persist_final env c i fin ms revision final reasoning)"
    "steady (persist_tool_call env c i mid phase ms revision)"
    "steady (persist_tool_results env c i mid ms tools preview revision)"
    "steady (commit_staged env c i ms revision)"
proof -
  have p: "store_inv (fst s) \<Longrightarrow> store_evolves (fst s) (fst (snd (persist_turn_phase env m phase msgs rv s)))"
    for s m phase msgs rv
    using steady_phase [OF env] unfolding steady_def by blast
  have b: "store_inv (fst s) \<Longrightarrow> store_evolves (fst s)
      (fst (snd (sbind (persist_turn_phase env m phase msgs rv) (\<lambda>_. sreturn a) s)))"
    for s m phase msgs rv and a :: string
    using steady_bind [OF steady_phase [OF env] steady_return, of m phase msgs rv "\<lambda>_. a"]
    unfolding steady_def by blast
  show "steady (persist_final env c i fin ms revision final reasoning)"
    using b unfolding steady_def persist_final_def Let_def by blast
  show "steady (persist_tool_call env c i mid phase ms revision)"
    using p unfolding steady_def persist_tool_call_def Let_def by blast
  show "steady (persist_tool_results env c i mid ms tools preview revision)"
    using p store_evolves_refl unfolding steady_def persist_tool_results_def Let_def
    by (cases "tools = []") simp_all
  show "steady (commit_staged env c i ms revision)"
    using env unfolding commit_staged_def staged_attempt_def Let_def
    by (auto intro!: steady split: option.split if_splits) (blast intro: step_promote)+
qed

section \<open>Failing ends a Turn\<close>

definition settled :: "string \<Rightarrow> database \<Rightarrow> bool" where
  "settled i db = (\<exists>s. turn_status db i = Some s \<and> is_terminal s)"

text \<open>The id of a Turn's failure entry is in use.\<close>

definition failure_id_used :: "string \<Rightarrow> database \<Rightarrow> bool" where
  "failure_id_used i db = (turn_failure_message_id i \<in> msg_id ` set (messages db))"

lemma settled_evolves: "store_evolves db db' \<Longrightarrow> settled i db \<Longrightarrow> settled i db'"
  unfolding settled_def using terminal_stays by blast

lemma status_find: "turn_status db i = Some s \<Longrightarrow> \<exists>t. find_turn i db = Some t \<and> tr_state t = turn_run_state_display s"
  by (auto simp: turn_status_Some_iff)

lemma get_turn_run_status:
  assumes "turn_status db i = Some s"
  shows "\<exists>t. find_turn i db = Some t \<and> get_turn_run i db = Inr (turn_of_row t s)"
  using status_find [OF assms] read_turn_run_row
  by (force simp: get_turn_run_def find_turn_def)

lemma unused_failure_id: "\<not> failure_id_used i db \<Longrightarrow> find_message (turn_failure_message_id i) c db = None"
  by (auto simp: failure_id_used_def find_message_def find_row_None_iff has_message_key_def image_iff)

text \<open>What either way of failing leaves of a live Turn.\<close>

lemma failed_status:
  assumes "turn_status db i = Some s" "turn_runs db' = turn_runs (set_failed now i to k d db)"
  shows "turn_status db' i = Some to"
  using set_failed_status [OF assms(1)] turn_status_cong [OF assms(2)] by simp

lemma fail_turn_settles:
  assumes inv: "store_inv db" and s: "turn_status db i = Some s" "\<not> is_terminal s"
    and free: "\<not> failure_id_used i db" and to: "to \<in> {Failed, Uncertain}"
  shows "\<exists>db'. fail_turn now i to failure db = Inr ((), db') \<and> turn_status db' i = Some to"
    "\<exists>db'. fail_turn_and_terminate_origin now i to failure og reason db = Inr ((), db') \<and>
       turn_status db' i = Some to"
proof -
  obtain t where t: "find_turn i db = Some t" using status_find [OF s(1)] by blast
  note m = unused_failure_id [OF free]
  show "\<exists>db'. fail_turn now i to failure db = Inr ((), db') \<and> turn_status db' i = Some to"
    using fail_turn_total [OF inv s(1) t s(2) m to] failed_status [OF s(1)] by metis
  obtain db1 where db1: "record_turn_failure_message_locked now i (tf_public failure)
      (set_failed now i to (tf_kind failure) (tf_diagnostic failure) db) = Inr ((), db1)"
    "turn_runs db1 = turn_runs (set_failed now i to (tf_kind failure) (tf_diagnostic failure) db)"
    using record_set_failed_total [OF inv t m] by metis
  have "read_state_locked i db = Inr s" using s(1) by (simp add: read_state_iff)
  then have "fail_turn_and_terminate_origin now i to failure og reason db =
      Inr ((), upsert_turn_origin now og (Some reason) db1)"
    using to s(2) db1(1) can_transition_fail [OF s(2)]
    by (auto simp: fail_turn_and_terminate_origin_def)
  then show "\<exists>db'. fail_turn_and_terminate_origin now i to failure og reason db = Inr ((), db') \<and>
       turn_status db' i = Some to"
    using failed_status [OF s(1), of "upsert_turn_origin now og (Some reason) db1"] db1(2) by simp
qed

text \<open>The recorded failure, or the reason it is not: the Turn is final already or the id is in use.\<close>

lemma fail_call_settles:
  assumes inv: "store_inv db" and s: "turn_status db i = Some st" and to: "to \<in> {Failed, Uncertain}"
    and r: "(if og = [] then fail_turn now i to failure db
       else fail_turn_and_terminate_origin now i to failure og reason db) = r"
  shows "case r of Inl _ \<Rightarrow> settled i db \<or> failure_id_used i db | Inr (_, db') \<Rightarrow> settled i db'"
proof (cases r)
  case (Inl e)
  show ?thesis
  proof (rule ccontr)
    assume "\<not> ?thesis"
    then have "\<not> is_terminal st" "\<not> failure_id_used i db" using s Inl by (auto simp: settled_def)
    note total = fail_turn_settles [OF inv s this to]
    show False using total(1) [of now failure] total(2) [of now failure og reason] r Inl by (auto split: if_splits)
  qed
next
  case (Inr x)
  have final: "is_terminal to" using to by auto
  obtain db' where x: "x = ((), db')" by (cases x) auto
  have "settled i db'"
  proof (cases "og = []")
    case True
    with r Inr x have "fail_turn now i to failure db = Inr ((), db')" by simp
    from fail_turn_ok [OF this] record_failure_step(2) [OF inv] show ?thesis
      using final by (metis settled_def)
  next
    case False
    with r Inr x have "fail_turn_and_terminate_origin now i to failure og reason db = Inr ((), db')" by simp
    with inv show ?thesis
    proof (cases rule: fail_origin_ok)
      case (already s)
      then show ?thesis using turn_status_cong [of db' db] by (auto simp: settled_def)
    next
      case (failed s db1)
      then have "turn_status db1 i = Some to" using record_failure_step(2) [OF inv] by metis
      then show ?thesis using failed(6) turn_status_cong [of db' db1] final by (auto simp: settled_def)
    qed
  qed
  then show ?thesis using Inr x by simp
qed

lemma record_failure_settles:
  assumes env: "env_steady env" and inv: "store_inv (fst s)" and s: "turn_status (fst s) i = Some st"
    and to: "to \<in> {Failed, Uncertain}"
    and run: "record_failure env i to e s = (r, s')"
  shows "settled i (fst s') \<or> failure_id_used i (fst s')"
proof -
  let ?s = "te_others env s"
  note o = others_evolve [OF env inv]
  obtain st1 where st1: "turn_status (fst ?s) i = Some st1" using store_evolves_status [OF o s] by blast
  show ?thesis
    using fail_call_settles [OF store_evolves_inv [OF o] st1 to refl, of "sc_origin_id (te_context env)"
        "te_clock env ?s 0" "turn_failure_of (te_status_text env) to e"
        "stop_reason_display stop_reason.LlmFailure"] run
    by (auto simp: record_failure_def ignoring_def db_call_def Let_def split: sum.splits if_splits)
qed

lemma fail_settles:
  assumes env: "env_steady env" and inv: "store_inv (fst s)" and s: "turn_status (fst s) i = Some st"
    and run: "fail env i e s = (r, s')"
  shows "settled i (fst s') \<or> failure_id_used i (fst s')"
proof -
  let ?s = "te_others env s"
  note o = others_evolve [OF env inv]
  obtain st1 where st1: "turn_status (fst ?s) i = Some st1" using store_evolves_status [OF o s] by blast
  then obtain t where t: "get_turn_run i (fst ?s) = Inr (turn_of_row t st1)"
    using get_turn_run_status by blast
  have eq: "db_read env (get_turn_run i) s = (Inr (turn_of_row t st1), ?s)"
    by (simp add: db_read_def db_call_def Let_def t)
  obtain r' s1 where rec: "record_failure env i (failure_target (turn_of_row t st1)) e ?s = (r', s1)"
    by (metis prod.exhaust)
  have "failure_target (turn_of_row t st1) \<in> {Failed, Uncertain}" by (simp add: failure_target_def)
  note settles = record_failure_settles [OF env store_evolves_inv [OF o] st1 this rec]
  show ?thesis
  proof (cases "is_terminal st1")
    case True
    then have "s' = ?s" using run eq by (simp add: fail_def ignoring_def sbind_def sreturn_def)
    then show ?thesis using st1 True by (simp add: settled_def)
  next
    case False
    then have "s' = s1" using run eq rec by (simp add: fail_def ignoring_def sbind_def)
    then show ?thesis using settles by simp
  qed
qed

lemma refuse_settles:
  assumes env: "env_steady env" and inv: "store_inv (fst s)" and s: "turn_status (fst s) i = Some st"
    and run: "refuse_resume env i target reason internal s = (r, s')"
  shows "settled i (fst s') \<or> failure_id_used i (fst s')"
proof -
  let ?s = "te_others env s"
  note o = others_evolve [OF env inv]
  obtain st1 where st1: "turn_status (fst ?s) i = Some st1" using store_evolves_status [OF o s] by blast
  let ?to = "if target = ToolsCompleted then Uncertain else Failed"
  have "?to \<in> {Failed, Uncertain}" by simp
  from fail_call_settles [OF store_evolves_inv [OF o] st1 this refl, of "[]" "te_clock env ?s 0"
      "turn_failure_with_public ''validation'' reason
        (if target = ToolsCompleted then TURN_UNCERTAIN_PUBLIC_MESSAGE else TURN_INTERRUPTED_PUBLIC_MESSAGE)"]
    run show ?thesis
    by (auto simp: refuse_resume_def fail_resume_permanently_def ignoring_def db_call_def Let_def
        sbind_def sfail_def split: sum.splits if_splits)
qed

section \<open>What a successful phase has left\<close>

definition yields :: "('x, 'a) run \<Rightarrow> ('a \<Rightarrow> database \<Rightarrow> bool) \<Rightarrow> bool" where
  "yields m P = (\<forall>s a s'. store_inv (fst s) \<longrightarrow> m s = (Inr a, s') \<longrightarrow> P a (fst s'))"

lemma yieldsD: "yields m P \<Longrightarrow> store_inv (fst s) \<Longrightarrow> m s = (Inr a, s') \<Longrightarrow> P a (fst s')"
  unfolding yields_def by blast

named_theorems yields

lemma yields_bind [yields]:
  assumes "steady m" "\<And>a. yields (k a) P"
  shows "yields (sbind m k) P"
proof (unfold yields_def, intro allI impI)
  fix s b s' assume inv: "store_inv (fst s)" and run: "sbind m k s = (Inr b, s')"
  obtain r s1 where m: "m s = (r, s1)" by (metis prod.exhaust)
  with run obtain a where a: "r = Inr a" "k a s1 = (Inr b, s')" by (cases r) (auto simp: sbind_def)
  then show "P b (fst s')"
    using yieldsD [OF assms(2) store_evolves_inv [OF steadyD [OF assms(1) m inv]]] by blast
qed

lemma yields_return:
  assumes "yields m Q" "\<And>a db. Q a db \<Longrightarrow> P (g a) db"
  shows "yields (sbind m (\<lambda>a. sreturn (g a))) P"
  unfolding yields_def
proof (intro allI impI)
  fix s b s' assume "store_inv (fst s)" "sbind m (\<lambda>a. sreturn (g a)) s = (Inr b, s')"
  then obtain a where "store_inv (fst s)" "m s = (Inr a, s')" "b = g a"
    by (auto simp: sbind_def sreturn_def split: sum.splits prod.splits)
  then show "P b (fst s')" using yieldsD [OF assms(1)] assms(2) by blast
qed

lemma yields_fail [yields]: "yields (sfail e) P"
  by (simp add: yields_def sfail_def)

lemma yields_on_conflict [yields]:
  assumes "yields again P" "yields m P" "steady m"
  shows "yields (on_conflict again m) P"
proof (unfold yields_def, intro allI impI)
  fix s a s' assume inv: "store_inv (fst s)" and run: "on_conflict again m s = (Inr a, s')"
  obtain r s1 where m: "m s = (r, s1)" by (metis prod.exhaust)
  note inv1 = store_evolves_inv [OF steadyD [OF assms(3) m inv]]
  show "P a (fst s')"
  proof (cases r)
    case (Inl e)
    then have "again s1 = (Inr a, s')" using run m by (auto simp: on_conflict_def split: if_splits)
    then show ?thesis using yieldsD [OF assms(1) inv1] by blast
  next
    case (Inr b)
    then have "m s = (Inr a, s')" using run m by (auto simp: on_conflict_def)
    then show ?thesis using yieldsD [OF assms(2) inv] by blast
  qed
qed

lemma yields_with_snapshot:
  assumes env: "env_steady env"
    and f: "\<And>now json db a db'. store_inv db \<Longrightarrow> f now json db = Inr (a, db') \<Longrightarrow> P a db'"
  shows "yields (on_world env (with_snapshot session ms f)) P"
proof (unfold yields_def, intro allI impI)
  fix s :: "'a turn_state" and a s'
  assume inv: "store_inv (fst s)"
    and run: "on_world env (with_snapshot session ms f) s = (Inr a, s')"
  let ?s = "te_others env s"
  note o = store_evolves_inv [OF others_evolve [OF env inv]]
  have o2: "store_inv (fst (te_others env (fst ?s, assets, x)))" for assets x
    using store_evolves_inv [OF others_evolve [OF env]] o by simp
  show "P a (fst s')"
    using run f [OF o2]
    by (auto simp: on_world_def with_snapshot_def Let_def map_err_def split: sum.splits prod.splits)
qed

text \<open>The input of a Turn is in the history of its chat, and the Turn has advanced to it.\<close>

definition input_committed :: "int \<Rightarrow> string \<Rightarrow> string \<Rightarrow> string \<Rightarrow> database \<Rightarrow> bool" where
  "input_committed c i message_id content db =
     (turn_status db i = Some InputCommitted \<and>
      (\<exists>t. find_turn i db = Some t \<and> tr_input_message_id t = Some message_id) \<and>
      (\<exists>r \<in> set (messages db). msg_id r = message_id \<and> msg_chat_id r = c \<and> msg_content r = content))"

lemma commit_input_done:
  assumes inv: "store_inv db"
    and ok: "commit_turn_input_with_conversation now m json e i cr cf db = Inr (rv, db')"
  shows "rv = revision_of (msg_chat_id m) db' \<and>
    input_committed (msg_chat_id m) i (msg_id m) (msg_content m) db'"
proof -
  from ok obtain out db1 db2 where c: "commit_message_locked now m (Some json) e db = Inr (out, db1)"
    and t: "transition_locked now i Accepted InputCommitted db1 = Inr ((), db2)"
    and db': "db' = update_turn i (\<lambda>t. t\<lparr>tr_input_message_id := Some (msg_id m),
       tr_config_revision := cr, tr_config_fingerprint := cf, tr_updated_at := now\<rparr>) db2"
    and rev: "rv = co_revision out"
    by (auto simp: commit_turn_input_with_conversation_def res_simps)
  have tables: "messages db' = messages db1" "chats db' = chats db1"
    using transition_locked_ok(3) [OF t] db' by simp_all
  note st = commit_turn_input_progress(3) [OF inv ok]
  have "co_revision out = revision_of (msg_chat_id m) db1 \<and>
      (\<exists>r \<in> set (messages db1). msg_id r = msg_id m \<and> msg_chat_id r = msg_chat_id m \<and> msg_content r = msg_content m)"
    by (rule commit_message_cases [OF store_invD(2) [OF inv] c])
      (auto simp: commit_fresh_chat row_simps find_message_def same_stored_message_def has_message_key_def
        dest!: find_row_Some)
  then have "rv = revision_of (msg_chat_id m) db'"
    "\<exists>r \<in> set (messages db'). msg_id r = msg_id m \<and> msg_chat_id r = msg_chat_id m \<and> msg_content r = msg_content m"
    using rev tables revision_of_cong [OF tables(2)] by auto
  moreover have "\<exists>t. find_turn i db' = Some t \<and> tr_input_message_id t = Some (msg_id m)"
    using st unfolding db' turn_status_Some_iff by (auto simp: find_update_turn split: if_splits)
  ultimately show ?thesis using st by (simp add: input_committed_def)
qed

section \<open>Properties\<close>

lemma user_input_attempt_done:
  assumes env: "env_steady env"
    and again: "yields again (\<lambda>(_, rev) db. rev = Some (revision_of c db) \<and>
      input_committed c i (ui_message_id input) (ui_input input) db)"
  shows "yields (user_input_attempt env c i input again loaded) (\<lambda>(_, rev) db. rev = Some (revision_of c db) \<and>
      input_committed c i (ui_message_id input) (ui_input input) db)"
proof -
  let ?m = "user_input_message env c i input"
  have m: "msg_chat_id ?m = c" "msg_id ?m = ui_message_id input" "msg_content ?m = ui_input input"
    by (simp_all add: user_input_message_def stored_message_user_def stored_message_new_def)
  have commit: "yields (commit_user_turn_input env i ?m ms revision)
      (\<lambda>p db. pt_revision p = revision_of c db \<and>
        input_committed c i (ui_message_id input) (ui_input input) db)" for ms revision
    unfolding commit_user_turn_input_def
    by (rule yields_return [OF yields_with_snapshot [OF env, where P =
          "\<lambda>rv db. rv = revision_of c db \<and> input_committed c i (ui_message_id input) (ui_input input) db"]])
      (use commit_input_done [where m = ?m, unfolded m] in auto)
  have st: "steady (commit_user_turn_input env i ?m ms revision)" for ms revision
    using env unfolding commit_user_turn_input_def by (intro steady step_commit_input | assumption)+
  show ?thesis
    unfolding user_input_attempt_def
    by (intro yields_bind steady_compact [OF env] yields_on_conflict again steady_bind st steady_return
        yields_return [OF commit]) simp
qed

text \<open>
  C5: When the user's message is persisted, in the same database state the Turn is
  \<open>input_committed\<close> and names the message as its input, the message is in the history of the chat,
  and the revision handed to the model loop is the chat's revision. This holds whatever other
  tasks do between the awaits, after a compaction, and after a conflict that made it reload.
\<close>

theorem user_input_committed_atomically:
  assumes "env_steady env" "store_inv (fst s)"
    and "persist_user_input env chat_id turn_id input s = (Inr (ms, revision), s')"
  shows "turn_status (fst s') turn_id = Some InputCommitted \<and>
    (\<exists>t. find_turn turn_id (fst s') = Some t \<and> tr_input_message_id t = Some (ui_message_id input)) \<and>
    (\<exists>r \<in> set (messages (fst s')). msg_id r = ui_message_id input \<and> msg_chat_id r = chat_id \<and>
       msg_content r = ui_input input) \<and>
    revision = Some (revision_of chat_id (fst s'))"
proof -
  have "yields (persist_user_input env chat_id turn_id input) (\<lambda>(_, rev) db. rev = Some (revision_of chat_id db) \<and>
      input_committed chat_id turn_id (ui_message_id input) (ui_input input) db)"
    using assms(1) unfolding persist_user_input_def Let_def
    by (intro yields_bind steady user_input_attempt_done yields_fail)
  from yieldsD [OF this assms(2,3)] show ?thesis by (simp add: input_committed_def)
qed

text \<open>The three ways a validation ends.\<close>

lemma validate_cases:
  assumes run: "validate_resume_target env i t expected reject s = (r :: egopulse_error + 'p scheduled_turn, s')"
  obtains (moved) "tr_state t \<noteq> expected" "r = Inl TurnConcurrencyConflict"
    | (refused) reason internal v where "v = s \<or> v = te_others env s"
      "refuse_resume env i expected reason internal v = (r, s')"
    | (valid) persisted json mid where "tr_state t = expected" "\<not> (reject \<and> tr_output_published t)"
      "tr_scheduled_request_json t = Some json" "tr_input_message_id t = Some mid"
      "deserialize_scheduled_turn (te_parse env) json = Inr persisted"
      "get_message_content mid (fst s') \<noteq> None" "r = Inr persisted"
proof -
  let ?lookup = "\<lambda>mid persisted. sbind (db_read env (\<lambda>db. Inr (get_message_content mid db))) (\<lambda>content.
    if content = None
    then refuse_resume env i expected ''resume target input message missing'' ''resume target input message is missing''
    else sreturn persisted) s"
  have lookup: "?lookup mid persisted =
      (if get_message_content mid (fst (te_others env s)) = None
       then refuse_resume env i expected ''resume target input message missing''
         ''resume target input message is missing'' (te_others env s)
       else (Inr persisted, te_others env s))" for mid persisted
    by (simp add: sbind_def db_read_def db_call_def Let_def sreturn_def)
  show ?thesis
  proof (cases "tr_state t = expected")
    case False
    then show ?thesis using run moved by (simp add: validate_resume_target_def sfail_def)
  next
    case state: True
    show ?thesis
    proof (cases "tr_scheduled_request_json t")
      case None
      then show ?thesis using run state refused [of s] by (auto simp: validate_resume_target_def)
    next
      case json: (Some json)
      show ?thesis
      proof (cases "(reject \<and> tr_output_published t) \<or> isl (deserialize_scheduled_turn (te_parse env) json :: payload_error + 'p scheduled_turn) \<or>
          tr_input_message_id t = None \<or> (case tr_config_fingerprint t of
            Some f \<Rightarrow> f \<noteq> [] \<and> f \<noteq> te_config_fingerprint env | None \<Rightarrow> False)")
        case True
        then show ?thesis using run state json refused [of s]
          by (auto simp: validate_resume_target_def Let_def split: if_splits sum.splits option.splits)
      next
        case False
        then obtain persisted :: "'p scheduled_turn" and mid where p: "deserialize_scheduled_turn (te_parse env) json = Inr persisted"
          "tr_input_message_id t = Some mid"
          by (cases "deserialize_scheduled_turn (te_parse env) json :: payload_error + 'p scheduled_turn") auto
        then have "validate_resume_target env i t expected reject s = ?lookup mid persisted"
          using False state json unfolding validate_resume_target_def Let_def by auto
        then show ?thesis
          using run state json False p refused [of "te_others env s"] valid
          by (auto simp: lookup split: if_splits)
      qed
    qed
  qed
qed

lemma validate_settles:
  assumes env: "env_steady env" and inv: "store_inv (fst s)" and st: "turn_status (fst s) i = Some st"
    and run: "validate_resume_target env i t expected reject s = (Inl e, s')"
  shows "(tr_state t \<noteq> expected \<and> e = TurnConcurrencyConflict) \<or> settled i (fst s') \<or> failure_id_used i (fst s')"
proof -
  note o = others_evolve [OF env inv]
  obtain st1 where st1: "turn_status (fst (te_others env s)) i = Some st1" using store_evolves_status [OF o st] by blast
  from run show ?thesis
  proof (cases rule: validate_cases)
    case (refused reason internal v)
    then show ?thesis
      using refuse_settles [OF env inv st] refuse_settles [OF env store_evolves_inv [OF o] st1] by metis
  qed simp_all
qed


text \<open>A Turn alone in its process, over the sample store.\<close>

definition sample_turn_env :: "unit turn_env" where
  "sample_turn_env =
     \<lparr>te_context = sample_context,
      te_session = \<lparr>se_codecs = sample_codecs, se_sqlite_text = (\<lambda>_. []), se_print = (\<lambda>_. Inr ''[]''),
        se_parse = (\<lambda>_. Inl ''''), se_max_history = 50\<rparr>,
      te_max_history = 50, te_config_revision = 1, te_config_fingerprint = ''fp'',
      te_others = (\<lambda>s. s), te_clock = (\<lambda>_ _. ''t1''), te_new_id = (\<lambda>_. ''new''),
      te_local_time = (\<lambda>t. t), te_status_text = show_nat, te_payload_text = (\<lambda>_. ''bad''),
      te_print = (\<lambda>_. ''{}''), te_parse = (\<lambda>_. None), te_compact = (\<lambda>_ ms s. (Inr ms, s))\<rparr>"

definition sample_turn_state :: "unit turn_state" where
  "sample_turn_state = (sample_accepted, \<lparr>as_data = Map.empty, as_metadata = Map.empty\<rparr>, ())"

definition sample_input :: user_input where
  "sample_input = \<lparr>ui_message_id = ''k'', ui_message = text_message ''user'' ''hi'', ui_input = ''hi'',
     ui_received_at = ''t1''\<rparr>"

lemma sample_env_steady: "env_steady sample_turn_env"
  by (simp add: env_steady_def sample_turn_env_def steady_def store_evolves_refl)

lemma sample_persisted:
  "fst (persist_user_input sample_turn_env 7 ''T'' sample_input sample_turn_state) =
     Inr ([text_message ''user'' ''hi''], Some 1)"
  by code_simp

theorem user_input_committed_atomically_witness:
  "\<exists>s'. snd (persist_user_input sample_turn_env 7 ''T'' sample_input sample_turn_state) = s' \<and>
     turn_status (fst s') ''T'' = Some InputCommitted \<and> revision_of 7 (fst s') = 1"
proof -
  obtain s' where run: "persist_user_input sample_turn_env 7 ''T'' sample_input sample_turn_state =
      (Inr ([text_message ''user'' ''hi''], Some 1), s')"
    using sample_persisted by (metis prod.collapse)
  have "store_inv (fst sample_turn_state)" by (simp add: sample_turn_state_def sample_accepted_inv)
  from user_input_committed_atomically [OF sample_env_steady this run] run show ?thesis by simp
qed

definition sample_resume_state :: "unit turn_state" where
  "sample_resume_state = (sample_db InputCommitted, \<lparr>as_data = Map.empty, as_metadata = Map.empty\<rparr>, ())"

definition sample_resumed :: "(egopulse_error + unit scheduled_turn) \<times> unit turn_state" where
  "sample_resumed = validate_resume_target sample_turn_env ''turn-1''
     (turn_of_row (sample_turn ''turn-1'' InputCommitted (Some ''{}'')) InputCommitted)
     InputCommitted True sample_resume_state"

lemma sample_resumed_error: "isl (fst sample_resumed)"
proof -
  have "isl (fst (refuse_resume env i target reason internal s))" for env :: "unit turn_env" and i target reason internal s
    by (auto simp: refuse_resume_def fail_resume_permanently_def sbind_def sfail_def ignoring_def Let_def)
  then show ?thesis
    by (simp add: sample_resumed_def validate_resume_target_def Let_def sample_turn_def sample_turn_env_def
        deserialize_scheduled_turn_def turn_of_row_def)
qed


end
