(* ===== verification/Tool_Sanitizer.thy ===== *)
theory Tool_Sanitizer
  imports Session_Messages Json "HOL-Library.Sublist"
begin

text \<open>
  What a tool result looks like (\<open>src/src/tools/mod.rs\<close>) and how secrets are taken out of it
  (\<open>src/src/tools/sanitizer.rs\<close>): the registered values, longest first, then the values with a
  well-known prefix, then those the context gives away. The last layer is four patterns of the
  \<open>regex\<close> crate, the argument \<open>contextual\<close>; whether a text ends in an alphanumeric character
  beyond ASCII is the argument \<open>ends_alphanumeric\<close>.
\<close>

section \<open>Tool results\<close>

record attachment_info =
  ai_id :: string
  ai_filename :: string
  ai_content_type :: string
  ai_size_bytes :: nat

datatype tool_error_kind = GuardDenied | InvalidInput | Timeout | ExitNonZero | ToolNotFound | Upstream

fun as_ledger_str :: "tool_error_kind \<Rightarrow> string" where
  "as_ledger_str GuardDenied = ''guard_denied''"
| "as_ledger_str InvalidInput = ''invalid_input''"
| "as_ledger_str Timeout = ''timeout''"
| "as_ledger_str ExitNonZero = ''exit_nonzero''"
| "as_ledger_str ToolNotFound = ''not_found''"
| "as_ledger_str Upstream = ''upstream''"

record tool_result =
  tres_content :: string
  tres_is_error :: bool
  tres_details :: "json option"
  tres_attachments :: "attachment_info list"
  tres_llm_content :: "message_content_part content"
  tres_error_kind :: "tool_error_kind option"

definition tool_success :: "string \<Rightarrow> tool_result" where
  "tool_success s =
     \<lparr>tres_content = s, tres_is_error = False, tres_details = None, tres_attachments = [],
      tres_llm_content = TextContent s, tres_error_kind = None\<rparr>"

definition tool_error :: "string \<Rightarrow> tool_result" where
  "tool_error s =
     \<lparr>tres_content = s, tres_is_error = True, tres_details = None, tres_attachments = [],
      tres_llm_content = TextContent s, tres_error_kind = None\<rparr>"

definition error_with_kind :: "tool_error_kind \<Rightarrow> string \<Rightarrow> tool_result" where
  "error_with_kind k s = (tool_error s)\<lparr>tres_error_kind := Some k\<rparr>"

section \<open>Registered values\<close>

lemma split_once_str_shrinks: "split_once_str p s = Some (a, b) \<Longrightarrow> p \<noteq> [] \<Longrightarrow> length b < length s"
  by (drule split_once_str_Some) (cases p, auto)

text \<open>\<open>str::replace\<close> of a non-empty text, from left to right.\<close>

function replace_str :: "string \<Rightarrow> string \<Rightarrow> string \<Rightarrow> string" where
  "replace_str p r s =
     (if p = [] then s
      else case split_once_str p s of
             None \<Rightarrow> s
           | Some (before, after) \<Rightarrow> before @ r @ replace_str p r after)"
  by pat_completeness auto

termination
  by (relation "measure (\<lambda>(_, _, s). length s)") (auto dest: split_once_str_shrinks)

declare replace_str.simps [simp del]

definition redaction_label :: "string \<Rightarrow> string" where
  "redaction_label key = ''[REDACTED:'' @ key @ '']''"

text \<open>A stable sort by decreasing length in bytes.\<close>

definition longest_first :: "(string \<times> string) list \<Rightarrow> (string \<times> string) list" where
  "longest_first secrets = sort_key (\<lambda>(_, v). - int (length v)) (filter (\<lambda>(_, v). v \<noteq> []) secrets)"

definition redact_secrets :: "string \<Rightarrow> (string \<times> string) list \<Rightarrow> string" where
  "redact_secrets output secrets =
     fold (\<lambda>(key, v) s. replace_str v (redaction_label key) s) (longest_first secrets) output"

section \<open>Well-known prefixes\<close>

definition SECRET_PATTERNS :: "string list" where
  "SECRET_PATTERNS =
     [''sk-'', ''sk-or-'', ''sk-ant-'', ''xoxb-'', ''xapp-'', ''ghp_'', ''gho_'', ''ghu_'', ''ghs_'',
      ''github_pat_'', ''glpat-'', ''AKIA'', ''ASIA'', ''AIza'', ''sk_live_'', ''sk_test_'', ''rk_live_'']"

definition is_alphanumeric_ascii :: "char \<Rightarrow> bool" where
  "is_alphanumeric_ascii c =
     (let n = (of_char c :: nat)
      in (48 \<le> n \<and> n \<le> 57) \<or> (65 \<le> n \<and> n \<le> 90) \<or> (97 \<le> n \<and> n \<le> 122))"

definition preceded_by_boundary :: "(string \<Rightarrow> bool) \<Rightarrow> string \<Rightarrow> bool" where
  "preceded_by_boundary ends_alphanumeric before =
     (before = [] \<or>
      \<not> (is_alphanumeric_ascii (last before) \<or> last before = CHR ''_'' \<or> ends_alphanumeric before))"

text \<open>A secret extends to the next white space, quote or semicolon.\<close>

definition ends_secret :: "string \<Rightarrow> bool" where
  "ends_secret s =
     (list_ex (\<lambda>w. starts_with w s) whitespace \<or>
      (case s of [] \<Rightarrow> False | c # _ \<Rightarrow> c = CHR 0x27 \<or> c = CHR 0x22 \<or> c = CHR '';''))"

fun secret_body :: "string \<Rightarrow> string" where
  "secret_body [] = []"
| "secret_body (c # s) = (if ends_secret (c # s) then [] else c # secret_body s)"

lemma secret_body_prefix: "s = secret_body s @ drop (length (secret_body s)) s"
  by (induction s) auto

text \<open>\<open>checked\<close> is the text before \<open>start\<close>, \<open>rest\<close> the text from it on.\<close>

function redact_prefix :: "(string \<Rightarrow> bool) \<Rightarrow> string \<Rightarrow> string \<Rightarrow> string \<Rightarrow> string" where
  "redact_prefix ends_alphanumeric p checked rest =
     (if p = [] then checked @ rest
      else case split_once_str p rest of
             None \<Rightarrow> checked @ rest
           | Some (before, after) \<Rightarrow>
               if \<not> preceded_by_boundary ends_alphanumeric (checked @ before)
               then redact_prefix ends_alphanumeric p (checked @ before @ [hd p]) (tl p @ after)
               else let body = secret_body after
                    in if body \<noteq> []
                       then redact_prefix ends_alphanumeric p (checked @ before @ ''[REDACTED:secret]'')
                              (drop (length body) after)
                       else redact_prefix ends_alphanumeric p (checked @ before @ p) after)"
  by pat_completeness auto

termination
proof (relation "measure (\<lambda>(_, _, _, rest). length rest)", goal_cases)
  case (2 ea p checked rest s before after)
  then show ?case by (cases p) (auto dest!: split_once_str_Some)
next
  case (3 ea p checked rest s before after body)
  then show ?case by (cases p) (auto dest!: split_once_str_Some)
next
  case (4 ea p checked rest s before after body)
  then show ?case by (auto dest: split_once_str_shrinks)
qed simp

declare redact_prefix.simps [simp del]

definition redact_known_secret_patterns :: "(string \<Rightarrow> bool) \<Rightarrow> string \<Rightarrow> string" where
  "redact_known_secret_patterns ends_alphanumeric output =
     fold (\<lambda>p s. redact_prefix ends_alphanumeric p [] s) SECRET_PATTERNS output"

record redaction_env =
  re_ends_alphanumeric :: "string \<Rightarrow> bool"
  re_contextual :: "string \<Rightarrow> string"

definition redact_secret_patterns :: "redaction_env \<Rightarrow> string \<Rightarrow> string" where
  "redact_secret_patterns env output =
     re_contextual env (redact_known_secret_patterns (re_ends_alphanumeric env) output)"

definition sanitize_output_string :: "redaction_env \<Rightarrow> string \<Rightarrow> (string \<times> string) list \<Rightarrow> string" where
  "sanitize_output_string env output secrets = redact_secret_patterns env (redact_secrets output secrets)"

section \<open>Results\<close>

fun sanitize_part :: "redaction_env \<Rightarrow> (string \<times> string) list \<Rightarrow> message_content_part \<Rightarrow> message_content_part" where
  "sanitize_part env secrets (InputText s) = InputText (sanitize_output_string env s secrets)"
| "sanitize_part env secrets (InputImage url detail) =
     InputImage (sanitize_output_string env url secrets)
       (map_option (\<lambda>d. sanitize_output_string env d secrets) detail)"

fun sanitize_message_content ::
  "redaction_env \<Rightarrow> (string \<times> string) list \<Rightarrow> message_content_part content \<Rightarrow> message_content_part content" where
  "sanitize_message_content env secrets (TextContent s) = TextContent (sanitize_output_string env s secrets)"
| "sanitize_message_content env secrets (PartsContent parts) =
     PartsContent (map (sanitize_part env secrets) parts)"

fun sanitize_json_value :: "redaction_env \<Rightarrow> (string \<times> string) list \<Rightarrow> json \<Rightarrow> json" where
  "sanitize_json_value env secrets (JStr s) = JStr (sanitize_output_string env s secrets)"
| "sanitize_json_value env secrets (JArr vs) = JArr (map (sanitize_json_value env secrets) vs)"
| "sanitize_json_value env secrets (JObj es) =
     JObj (map (\<lambda>(k, v). (k, sanitize_json_value env secrets v)) es)"
| "sanitize_json_value env secrets v = v"

definition sanitize_tool_result :: "redaction_env \<Rightarrow> (string \<times> string) list \<Rightarrow> tool_result \<Rightarrow> tool_result" where
  "sanitize_tool_result env secrets r =
     r\<lparr>tres_content := sanitize_output_string env (tres_content r) secrets,
       tres_llm_content := sanitize_message_content env secrets (tres_llm_content r),
       tres_details := map_option (sanitize_json_value env secrets) (tres_details r),
       tres_attachments := map (\<lambda>a. a\<lparr>ai_filename := sanitize_output_string env (ai_filename a) secrets\<rparr>)
         (tres_attachments r)\<rparr>"

text \<open>Values of \<open>.env\<close>: without a pair of quotes, and only those plausible as a secret.\<close>

definition strip_quotes :: "char \<Rightarrow> string \<Rightarrow> string option" where
  "strip_quotes q v = Option.bind (strip_prefix [q] v) (\<lambda>r. strip_suffix [q] r)"

definition strip_matching_quotes :: "string \<Rightarrow> string" where
  "strip_matching_quotes v =
     (case strip_quotes CHR 0x22 v of
        Some inner \<Rightarrow> inner
      | None \<Rightarrow> (case strip_quotes CHR 0x27 v of Some inner \<Rightarrow> inner | None \<Rightarrow> v))"

section \<open>Nothing registered is left\<close>

lemma contains_str_sublist: "contains_str p s = sublist p s"
  by (induction s) (auto simp: sublist_Cons_right starts_with_iff prefix_def)

lemma split_once_str_None: "split_once_str p s = None \<Longrightarrow> \<not> contains_str p s"
  by (induction p s rule: split_once_str.induct) (auto simp: starts_with_def split: if_splits option.splits)

lemma split_once_str_first:
  "split_once_str p s = Some (a, b) \<Longrightarrow> p \<noteq> [] \<Longrightarrow> \<not> contains_str p a"
proof (induction p s arbitrary: a rule: split_once_str.induct)
  case (2 p c s)
  show ?case
  proof (cases "strip_prefix p (c # s)")
    case (Some r)
    then show ?thesis using 2 by simp
  next
    case None
    then obtain a' where a': "a = c # a'" "split_once_str p s = Some (a', b)" using "2.prems" by auto
    have "\<not> starts_with p a"
    proof
      assume "starts_with p a"
      then obtain t where "a = p @ t" by (auto simp: starts_with_iff)
      then have "c # s = p @ t @ p @ b" using split_once_str_Some [OF a'(2)] a'(1) by simp
      then show False using None by (metis strip_prefix_append option.distinct(1))
    qed
    then show ?thesis using "2.IH" [OF None a'(2) "2.prems"(2)] a'(1) by simp
  qed
qed simp

text \<open>
  A value without brackets that is not part of a label: putting the label in place of some text
  brings no occurrence of the value about.
\<close>

definition label_free :: "string \<Rightarrow> string \<Rightarrow> bool" where
  "label_free label v = (v \<noteq> [] \<and> CHR ''['' \<notin> set v \<and> CHR '']'' \<notin> set v \<and> \<not> contains_str v label)"

lemma label_free_between:
  assumes "label_free (''['' @ inner @ '']'') v" "sublist v (a @ (''['' @ inner @ '']'') @ b)"
  shows "sublist v a \<or> sublist v b"
proof -
  let ?label = "''['' @ inner @ '']''"
  have free: "v \<noteq> []" "CHR ''['' \<notin> set v" "CHR '']'' \<notin> set v" "\<not> sublist v ?label"
    using assms(1) by (simp_all add: label_free_def contains_str_sublist)
  have no_prefix: "w = []" if "prefix w (?label @ b)" "set w \<subseteq> set v" for w
    using that free(2) by (cases w) auto
  have no_suffix: "w = []" if "suffix w ?label" "set w \<subseteq> set v" for w
    using that free(3) by (cases w rule: rev_cases) (auto simp: suffix_def)
  have "sublist v b" if "sublist v (?label @ b)"
    using that unfolding sublist_append [of v ?label b]
  proof (elim disjE exE conjE)
    fix w1 w2 assume "v = w1 @ w2" "suffix w1 ?label" "prefix w2 b"
    then show ?thesis using no_suffix [of w1] by auto
  qed (use free(4) in auto)
  then show ?thesis
    using assms(2) unfolding sublist_append [of v a]
  proof (elim disjE exE conjE)
    fix w1 w2 assume "v = w1 @ w2" "suffix w1 a" "prefix w2 (?label @ b)"
    then show ?thesis using no_prefix [of w2] by (auto dest: suffix_imp_sublist)
  qed auto
qed

lemma not_sublist_append: "\<not> sublist v (a @ b) \<Longrightarrow> \<not> sublist v a \<and> \<not> sublist v b"
  by (simp add: sublist_append)

lemma redaction_label_brackets: "\<exists>inner. redaction_label key = ''['' @ inner @ '']''"
  by (rule exI [of _ "''REDACTED:'' @ key"]) (simp add: redaction_label_def)

lemma replace_str_None: "split_once_str p s = None \<Longrightarrow> replace_str p r s = s"
  by (simp add: replace_str.simps)

lemma replace_str_Some:
  "split_once_str p s = Some (a, b) \<Longrightarrow> p \<noteq> [] \<Longrightarrow> replace_str p r s = a @ r @ replace_str p r b"
  by (subst replace_str.simps) simp

lemma replace_str_absent: "\<not> sublist p s \<Longrightarrow> replace_str p r s = s"
proof (cases "split_once_str p s")
  case (Some ab)
  moreover assume "\<not> sublist p s"
  ultimately show ?thesis by (cases ab) (auto dest!: split_once_str_Some)
qed (rule replace_str_None)

lemma replace_str_removes:
  "label_free (redaction_label k) v \<Longrightarrow> \<not> sublist v (replace_str v (redaction_label k) s)"
proof (induction v "redaction_label k" s rule: replace_str.induct)
  case (1 v s)
  have v: "v \<noteq> []" using 1(2) by (simp add: label_free_def)
  obtain inner where label: "redaction_label k = ''['' @ inner @ '']''" using redaction_label_brackets by blast
  show ?case
  proof (cases "split_once_str v s")
    case None
    then show ?thesis by (simp add: replace_str_None split_once_str_None contains_str_sublist [symmetric])
  next
    case (Some ab)
    obtain a b where ab: "ab = (a, b)" by fastforce
    have "\<not> sublist v a" using split_once_str_first Some ab v by (simp add: contains_str_sublist)
    moreover have "\<not> sublist v (replace_str v (redaction_label k) b)" using 1(1) [OF v Some ab [symmetric]] 1(2) by simp
    ultimately show ?thesis
      using label_free_between [OF 1(2) [unfolded label], of a "replace_str v (redaction_label k) b"]
      by (auto simp: replace_str_Some [OF Some [unfolded ab] v] label)
  qed
qed

lemma replace_str_keeps_away:
  "label_free (redaction_label k) v \<Longrightarrow> \<not> sublist v s \<Longrightarrow> \<not> sublist v (replace_str w (redaction_label k) s)"
proof (induction w "redaction_label k" s rule: replace_str.induct)
  case (1 w s)
  obtain inner where label: "redaction_label k = ''['' @ inner @ '']''" using redaction_label_brackets by blast
  show ?case
  proof (cases "w = [] \<or> split_once_str w s = None")
    case True
    then show ?thesis using 1(3) by (auto simp: replace_str.simps [of w])
  next
    case False
    then obtain a b where ab: "split_once_str w s = Some (a, b)" by fastforce
    have "\<not> sublist v a" "\<not> sublist v b"
      using 1(3) split_once_str_Some [OF ab] not_sublist_append by metis+
    moreover from this have "\<not> sublist v (replace_str w (redaction_label k) b)"
      using 1(1) [OF _ ab refl 1(2)] False by simp
    ultimately show ?thesis
      using label_free_between [OF 1(2) [unfolded label], of a "replace_str w (redaction_label k) b"] False
      by (auto simp: replace_str_Some [OF ab] label)
  qed
qed

lemma redact_prefix_keeps_away:
  "label_free ''[REDACTED:secret]'' v \<Longrightarrow> \<not> sublist v (checked @ rest) \<Longrightarrow>
   \<not> sublist v (redact_prefix ea p checked rest)"
proof (induction ea p checked rest rule: redact_prefix.induct)
  case (1 ea p checked rest)
  show ?case
  proof (cases "p = [] \<or> split_once_str p rest = None")
    case True
    then show ?thesis using 1(5) by (auto simp: redact_prefix.simps [of ea p])
  next
    case False
    then obtain a b where ab: "split_once_str p rest = Some (a, b)" by fastforce
    have rest: "rest = a @ p @ b" using split_once_str_Some [OF ab] .
    let ?c = "checked @ a" let ?body = "secret_body b"
    have "\<not> sublist v ?c" "\<not> sublist v (drop (length ?body) b)"
      using 1(5) not_sublist_append [of v "checked @ a" "p @ b"]
        not_sublist_append [of v "p @ take (length ?body) b" "drop (length ?body) b"] by (simp_all add: rest)
    then have cut: "\<not> sublist v (?c @ ''[REDACTED:secret]'' @ drop (length ?body) b)"
      using label_free_between [of "''REDACTED:secret''" v ?c "drop (length ?body) b"] 1(4) by auto
    have "(checked @ a @ [hd p]) @ tl p @ b = checked @ rest" "(checked @ a @ p) @ b = checked @ rest"
      using rest False by (cases p, auto)+
    then show ?thesis
      using 1(1) [OF _ ab refl _ 1(4)] 1(2) [OF _ ab refl _ refl _ 1(4)] 1(3) [OF _ ab refl _ refl _ 1(4)]
        1(5) False cut
      by (subst redact_prefix.simps) (simp add: ab Let_def)
  qed
qed

text \<open>
  When values can be told from labels: none contains a bracket, and none is part of a label that
  may be put into the text.
\<close>

definition redactable :: "(string \<times> string) list \<Rightarrow> bool" where
  "redactable secrets =
     list_all (\<lambda>(_, v). v = [] \<or>
       (label_free ''[REDACTED:secret]'' v \<and>
        list_all (\<lambda>(key, _). label_free (redaction_label key) v) secrets)) secrets"

lemma longest_first_set: "set (longest_first secrets) = {(k, v) \<in> set secrets. v \<noteq> []}"
  by (auto simp: longest_first_def)

lemma redact_secrets_removes:
  assumes "redactable secrets" "(key, v) \<in> set secrets" "v \<noteq> []"
  shows "\<not> sublist v (redact_secrets output secrets)"
proof -
  have free: "label_free (redaction_label k) v" if "(k, w) \<in> set (longest_first secrets)" for k w
    using assms that by (fastforce simp: redactable_def list_all_iff longest_first_set)
  have keep: "\<not> sublist v (fold (\<lambda>(k, w) s. replace_str w (redaction_label k) s) ps s)"
    if "\<not> sublist v s" "set ps \<subseteq> set (longest_first secrets)" for ps s
    using that
  proof (induction ps arbitrary: s)
    case (Cons p ps)
    then show ?case using replace_str_keeps_away [OF free] by (cases p) auto
  qed simp
  have "(key, v) \<in> set (longest_first secrets)" using assms by (auto simp: longest_first_set)
  then obtain before after where order: "longest_first secrets = before @ (key, v) # after"
    by (meson split_list)
  then show ?thesis
    unfolding redact_secrets_def
    by (simp, intro keep replace_str_removes free [of key v]) auto
qed

lemma redact_secrets_absent:
  "list_all (\<lambda>(_, v). v = [] \<or> \<not> contains_str v output) secrets \<Longrightarrow> redact_secrets output secrets = output"
proof -
  assume "list_all (\<lambda>(_, v). v = [] \<or> \<not> contains_str v output) secrets"
  then have "list_all (\<lambda>(_, v). \<not> sublist v output) (longest_first secrets)"
    by (auto simp: list_all_iff longest_first_set contains_str_sublist)
  moreover have "list_all (\<lambda>(_, v). \<not> sublist v output) ps \<Longrightarrow>
      fold (\<lambda>(k, v) s. replace_str v (redaction_label k) s) ps output = output" for ps
    by (induction ps) (auto simp: replace_str_absent)
  ultimately show ?thesis by (simp add: redact_secrets_def)
qed

lemma sanitize_removes:
  assumes ok: "redactable secrets" "(key, v) \<in> set secrets" "v \<noteq> []"
    and regex: "\<And>s. \<not> contains_str v s \<Longrightarrow> \<not> contains_str v (re_contextual env s)"
  shows "\<not> contains_str v (sanitize_output_string env output secrets)"
proof -
  have "label_free ''[REDACTED:secret]'' v" using ok by (fastforce simp: redactable_def list_all_iff)
  then have "\<not> sublist v (fold (\<lambda>p s. redact_prefix ea p [] s) ps s)" if "\<not> sublist v s" for ea ps s
    using that by (induction ps arbitrary: s) (auto simp: redact_prefix_keeps_away)
  then have "\<not> contains_str v (redact_known_secret_patterns ea (redact_secrets output secrets))" for ea
    using redact_secrets_removes [OF ok] unfolding redact_known_secret_patterns_def contains_str_sublist by blast
  then show ?thesis unfolding sanitize_output_string_def redact_secret_patterns_def by (rule regex)
qed

text \<open>Every text of a result that a channel, the model or the ledger may see.\<close>

fun part_texts :: "message_content_part \<Rightarrow> string list" where
  "part_texts (InputText s) = [s]"
| "part_texts (InputImage url detail) = url # (case detail of None \<Rightarrow> [] | Some d \<Rightarrow> [d])"

fun content_texts :: "message_content_part content \<Rightarrow> string list" where
  "content_texts (TextContent s) = [s]"
| "content_texts (PartsContent parts) = concat (map part_texts parts)"

fun json_texts :: "json \<Rightarrow> string list" where
  "json_texts (JStr s) = [s]"
| "json_texts (JArr vs) = concat (map json_texts vs)"
| "json_texts (JObj es) = concat (map (\<lambda>(_, v). json_texts v) es)"
| "json_texts _ = []"

definition result_texts :: "tool_result \<Rightarrow> string list" where
  "result_texts r =
     tres_content r # content_texts (tres_llm_content r) @
     (case tres_details r of None \<Rightarrow> [] | Some d \<Rightarrow> json_texts d) @ map ai_filename (tres_attachments r)"

lemma json_texts_sanitized:
  "json_texts (sanitize_json_value env secrets v) = map (\<lambda>s. sanitize_output_string env s secrets) (json_texts v)"
proof (induction v rule: json_texts.induct)
  case (2 vs)
  then show ?case by (simp add: map_concat cong: map_cong)
next
  case (3 es)
  then show ?case
    by (auto simp: map_concat comp_def case_prod_beta intro!: arg_cong [where f = concat] map_cong)
qed simp_all

lemma part_texts_sanitized:
  "part_texts (sanitize_part env secrets p) = map (\<lambda>s. sanitize_output_string env s secrets) (part_texts p)"
  by (cases p) (auto split: option.split)

lemma result_texts_sanitized:
  "result_texts (sanitize_tool_result env secrets r) =
     map (\<lambda>s. sanitize_output_string env s secrets) (result_texts r)"
proof -
  have "content_texts (sanitize_message_content env secrets c) =
      map (\<lambda>s. sanitize_output_string env s secrets) (content_texts c)" for c
    by (cases c) (simp_all add: map_concat comp_def part_texts_sanitized)
  then show ?thesis
    by (simp add: result_texts_def sanitize_tool_result_def json_texts_sanitized split: option.split)
qed


definition sample_secrets :: "(string \<times> string) list" where
  "sample_secrets = [(''short'', ''tok-12''), (''long'', ''tok-1234'')]"

definition sample_result :: tool_result where
  "sample_result = (tool_success ''use tok-1234 or sk-abc'')\<lparr>
     tres_details := Some (JObj [(''env'', JArr [JStr ''A=tok-12'', JNull])])\<rparr>"

definition plain_redaction :: redaction_env where
  "plain_redaction = \<lparr>re_ends_alphanumeric = (\<lambda>_. False), re_contextual = (\<lambda>s. s)\<rparr>"


end
