(* ===== verification/Tool_Ledger.thy ===== *)
theory Tool_Ledger
  imports Turn_Runs
begin

text \<open>
  \<open>src/src/storage/tool.rs\<close>: the tool execution ledger. A tool call is claimed before it
  runs, its result is recorded once, and a call left running by a crash becomes uncertain. The
  theory gives every operation, the life cycle of a ledger row as an instance of the contract
  of the prelude, and the properties: a slot is acquired at most once over any run, a recorded
  success is returned ever after, and recovery leaves nothing running.
\<close>

section \<open>Parameters and results\<close>

record tool_call =
  tc_id :: string
  tc_message_id :: string
  tc_tool_name :: string
  tc_tool_input :: string
  tc_tool_output :: "string option"
  tc_timestamp :: string
  tc_state :: tool_state
  tc_error_kind :: "string option"
  tc_error_message :: "string option"

record claim_params =
  clp_turn_id :: string
  clp_chat_id :: int
  clp_message_id :: string
  clp_tool_call_id :: string
  clp_tool_name :: string
  clp_tool_input :: string
  clp_input_hash :: string
  clp_idempotency_class :: idempotency_class
  clp_idempotency_key :: "string option"

record read_only_tool_outcome =
  rot_turn_id :: string
  rot_chat_id :: int
  rot_message_id :: string
  rot_tool_call_id :: string
  rot_tool_name :: string
  rot_tool_input :: string
  rot_input_hash :: string
  rot_tool_output :: "string option"
  rot_succeeded :: bool
  rot_error_kind :: "string option"
  rot_error_message :: "string option"

datatype claim_outcome = Acquired | Reused string | Blocked tool_state

record recovered_tool_call =
  rtc_turn_id :: string
  rtc_tool_call_id :: string
  rtc_tool_name :: string
  rtc_recovered_to :: tool_state

section \<open>Reads\<close>

definition row_to_tool_call :: "tool_row \<Rightarrow> storage_error + tool_call" where
  "row_to_tool_call r =
     rbind (parse_row_enum tool_state_from_str 6 (tl_state r)) (\<lambda>s.
     Inr \<lparr>tc_id = tl_id r, tc_message_id = tl_message_id r, tc_tool_name = tl_tool_name r,
       tc_tool_input = tl_tool_input r, tc_tool_output = tl_tool_output r,
       tc_timestamp = tl_timestamp r, tc_state = s, tc_error_kind = tl_error_kind r,
       tc_error_message = tl_error_message r\<rparr>)"

definition get_tool_calls_for_chat :: "int \<Rightarrow> database \<Rightarrow> storage_error + tool_call list" where
  "get_tool_calls_for_chat chat_id db =
     rmap row_to_tool_call
       (sort_key tl_timestamp (filter (\<lambda>r. tl_chat_id r = chat_id) (tool_calls db)))"

definition get_tool_calls_for_messages ::
  "int \<Rightarrow> string list \<Rightarrow> database \<Rightarrow> storage_error + tool_call list" where
  "get_tool_calls_for_messages chat_id message_ids db =
     (if message_ids = [] then Inr []
      else rmap row_to_tool_call
        (sort_key tl_timestamp
          (filter (\<lambda>r. tl_chat_id r = chat_id \<and> tl_message_id r \<in> set message_ids)
            (tool_calls db))))"

section \<open>The ledger\<close>

definition tool_at :: "string \<Rightarrow> string \<Rightarrow> tool_row \<Rightarrow> bool" where
  "tool_at turn_id tool_call_id r = (tl_turn_id r = Some turn_id \<and> tl_id r = tool_call_id)"

definition find_tool :: "string \<Rightarrow> string \<Rightarrow> database \<Rightarrow> tool_row option" where
  "find_tool turn_id tool_call_id db = find_row (tool_at turn_id tool_call_id) (tool_calls db)"

definition update_tool :: "string \<Rightarrow> string \<Rightarrow> (tool_row \<Rightarrow> tool_row) \<Rightarrow> database \<Rightarrow> database" where
  "update_tool turn_id tool_call_id f db =
     db\<lparr>tool_calls := update_rows (tool_at turn_id tool_call_id) f (tool_calls db)\<rparr>"

text \<open>The primary key and the foreign key to \<open>chats\<close> guard an insert.\<close>

definition insert_tool :: "tool_row \<Rightarrow> database \<Rightarrow> storage_error + database" where
  "insert_tool row db =
     (if exists_row (\<lambda>r. tl_id r = tl_id row \<and> tl_chat_id r = tl_chat_id row \<and>
            tl_message_id r = tl_message_id row) (tool_calls db)
      then Inl (Sqlite (ConstraintViolation ''tool_calls.id, tool_calls.chat_id, tool_calls.message_id''))
      else if \<not> exists_row (\<lambda>c. ch_chat_id c = tl_chat_id row) (chats db)
      then Inl (Sqlite (ConstraintViolation ''FOREIGN KEY''))
      else Inr (db\<lparr>tool_calls := insert_row row (tool_calls db)\<rparr>))"

definition advance_to_running :: "string \<Rightarrow> string \<Rightarrow> string \<Rightarrow> database \<Rightarrow> database" where
  "advance_to_running now turn_id tool_call_id db =
     update_tool turn_id tool_call_id
       (\<lambda>r. r\<lparr>tl_state := ''running'', tl_started_at := Some now\<rparr>) db"

definition claimed_row :: "string \<Rightarrow> claim_params \<Rightarrow> tool_row" where
  "claimed_row now p =
     \<lparr>tl_id = clp_tool_call_id p, tl_chat_id = clp_chat_id p, tl_message_id = clp_message_id p,
      tl_tool_name = clp_tool_name p, tl_tool_input = clp_tool_input p, tl_tool_output = None,
      tl_timestamp = now, tl_turn_id = Some (clp_turn_id p), tl_state = ''pending'',
      tl_input_hash = Some (clp_input_hash p),
      tl_idempotency_class = Some (idempotency_class_display (clp_idempotency_class p)),
      tl_idempotency_key = clp_idempotency_key p, tl_started_at = None, tl_finished_at = None,
      tl_error_kind = None, tl_error_message = None\<rparr>"

text \<open>A class that is missing or does not parse counts as not idempotent.\<close>

definition stored_class_of :: "tool_row \<Rightarrow> idempotency_class" where
  "stored_class_of r =
     (case tl_idempotency_class r of
        None \<Rightarrow> NonIdempotent
      | Some s \<Rightarrow> (case idempotency_class_from_str s of Inr c \<Rightarrow> c | Inl _ \<Rightarrow> NonIdempotent))"

definition claim_locked :: "string \<Rightarrow> claim_params \<Rightarrow> database \<Rightarrow> claim_outcome tx" where
  "claim_locked now p db =
     (case find_tool (clp_turn_id p) (clp_tool_call_id p) db of
        None \<Rightarrow>
          rbind (insert_tool (claimed_row now p) db) (\<lambda>db1.
          Inr (Acquired, advance_to_running now (clp_turn_id p) (clp_tool_call_id p) db1))
      | Some row \<Rightarrow>
          (let stored_hash = (case tl_input_hash row of Some h \<Rightarrow> h | None \<Rightarrow> '''') in
           if stored_hash \<noteq> clp_input_hash p
           then Inl (ToolInputConflict (clp_tool_call_id p) stored_hash (clp_input_hash p))
           else if stored_class_of row \<noteq> clp_idempotency_class p
           then Inl (Conflict (''tool_calls idempotency_class changed: stored '' @
                  idempotency_class_display (stored_class_of row) @ '' but requested '' @
                  idempotency_class_display (clp_idempotency_class p)))
           else rbind (map_err (\<lambda>e. Conflict (''invalid tool_calls.state: '' @ e))
                  (tool_state_from_str (tl_state row))) (\<lambda>state.
             case state of
               ToolSucceeded \<Rightarrow>
                 Inr (Reused (case tl_tool_output row of Some out \<Rightarrow> out | None \<Rightarrow> ''''), db)
             | ToolPending \<Rightarrow>
                 Inr (Acquired, advance_to_running now (clp_turn_id p) (clp_tool_call_id p) db)
             | other \<Rightarrow> Inr (Blocked other, db))))"

definition claim_tool_execution :: "string \<Rightarrow> claim_params \<Rightarrow> database \<Rightarrow> claim_outcome tx" where
  "claim_tool_execution now p db = claim_locked now p db"

definition require_state ::
  "string \<Rightarrow> string \<Rightarrow> tool_state \<Rightarrow> database \<Rightarrow> storage_error + unit" where
  "require_state turn_id tool_call_id expected db =
     rbind (ok_or (find_tool turn_id tool_call_id db)
              (NotFound (''tool_call:'' @ turn_id @ '':'' @ tool_call_id))) (\<lambda>row.
     rbind (map_err (\<lambda>e. Conflict (''invalid tool_calls.state: '' @ e))
              (tool_state_from_str (tl_state row))) (\<lambda>state.
     if state \<noteq> expected
     then Inl (Conflict (''tool state transition rejected: expected '' @
            tool_state_display expected @ '' but was '' @ tool_state_display state))
     else Inr ()))"

definition record_tool_success ::
  "string \<Rightarrow> string \<Rightarrow> string \<Rightarrow> string \<Rightarrow> database \<Rightarrow> unit tx" where
  "record_tool_success now turn_id tool_call_id tool_output db =
     rbind (require_state turn_id tool_call_id ToolRunning db) (\<lambda>_.
     Inr ((), update_tool turn_id tool_call_id
       (\<lambda>r. r\<lparr>tl_state := ''succeeded'', tl_tool_output := Some tool_output,
              tl_finished_at := Some now, tl_error_kind := None, tl_error_message := None\<rparr>) db))"

definition record_tool_failure ::
  "string \<Rightarrow> string \<Rightarrow> string \<Rightarrow> string \<Rightarrow> string \<Rightarrow> database \<Rightarrow> unit tx" where
  "record_tool_failure now turn_id tool_call_id error_kind error_message db =
     rbind (require_state turn_id tool_call_id ToolRunning db) (\<lambda>_.
     Inr ((), update_tool turn_id tool_call_id
       (\<lambda>r. r\<lparr>tl_state := ''failed'', tl_error_kind := Some error_kind,
              tl_error_message := Some error_message, tl_finished_at := Some now\<rparr>) db))"

text \<open>
  \<open>{:?}\<close> of an optional string: quotes, backslashes and the usual control characters are
  escaped; the classes stored are plain lower-case words.
\<close>

definition debug_option :: "string option \<Rightarrow> string" where
  "debug_option m =
     (case m of None \<Rightarrow> ''None''
      | Some s \<Rightarrow> ''Some('' @ [CHR 0x22] @ concat (map debug_char s) @ [CHR 0x22] @ '')'')"

definition read_only_row :: "string \<Rightarrow> read_only_tool_outcome \<Rightarrow> tool_row" where
  "read_only_row now out =
     \<lparr>tl_id = rot_tool_call_id out, tl_chat_id = rot_chat_id out,
      tl_message_id = rot_message_id out, tl_tool_name = rot_tool_name out,
      tl_tool_input = rot_tool_input out,
      tl_tool_output = (if rot_succeeded out then rot_tool_output out else None),
      tl_timestamp = now, tl_turn_id = Some (rot_turn_id out),
      tl_state = (if rot_succeeded out then ''succeeded'' else ''failed''),
      tl_input_hash = Some (rot_input_hash out), tl_idempotency_class = Some ''read_only'',
      tl_idempotency_key = None, tl_started_at = Some now, tl_finished_at = Some now,
      tl_error_kind = (if rot_succeeded out then None
        else Some (case rot_error_kind out of Some k \<Rightarrow> k | None \<Rightarrow> ''tool_error'')),
      tl_error_message = (if rot_succeeded out then None else rot_error_message out)\<rparr>"

definition record_read_only_outcome ::
  "string \<Rightarrow> read_only_tool_outcome \<Rightarrow> database \<Rightarrow> storage_error + database" where
  "record_read_only_outcome now out db =
     (case find_tool (rot_turn_id out) (rot_tool_call_id out) db of
        Some row \<Rightarrow>
          (let stored_hash = (case tl_input_hash row of Some h \<Rightarrow> h | None \<Rightarrow> '''') in
           if stored_hash \<noteq> rot_input_hash out
           then Inl (ToolInputConflict (rot_tool_call_id out) stored_hash (rot_input_hash out))
           else if tl_tool_name row \<noteq> rot_tool_name out
           then Inl (Conflict (''tool_calls tool_name changed for call '' @ rot_tool_call_id out @
                  '': stored '' @ tl_tool_name row @ '' but requested '' @ rot_tool_name out))
           else if tl_idempotency_class row \<noteq> Some ''read_only''
           then Inl (Conflict (''tool_calls idempotency_class changed for call '' @
                  rot_tool_call_id out @ '': stored '' @ debug_option (tl_idempotency_class row) @
                  '' but requested read_only''))
           else Inr db)
      | None \<Rightarrow> insert_tool (read_only_row now out) db)"

definition record_read_only_tool_outcomes ::
  "string \<Rightarrow> read_only_tool_outcome list \<Rightarrow> database \<Rightarrow> unit tx" where
  "record_read_only_tool_outcomes now outcomes db =
     rbind (rfold (record_read_only_outcome now) outcomes db) (\<lambda>db'. Inr ((), db'))"

text \<open>A running row without a Turn fails the read of its \<open>turn_id\<close> column.\<close>

definition running_key :: "tool_row \<Rightarrow> storage_error + (string \<times> string \<times> string)" where
  "running_key r =
     rbind (ok_or (tl_turn_id r) (Sqlite (InvalidColumnType 0))) (\<lambda>t.
     Inr (t, tl_id r, tl_tool_name r))"

fun mark_uncertain :: "string \<times> string \<times> string \<Rightarrow> database \<Rightarrow> database" where
  "mark_uncertain (turn_id, tool_call_id, tool_name) db =
     update_tool turn_id tool_call_id (\<lambda>r. r\<lparr>tl_state := ''uncertain''\<rparr>) db"

definition recover_running_tools :: "database \<Rightarrow> recovered_tool_call list tx" where
  "recover_running_tools db =
     rbind (rmap running_key (filter (\<lambda>r. tl_state r = ''running'') (tool_calls db))) (\<lambda>running.
     Inr (map (\<lambda>(turn_id, tool_call_id, tool_name).
             \<lparr>rtc_turn_id = turn_id, rtc_tool_call_id = tool_call_id, rtc_tool_name = tool_name,
              rtc_recovered_to = ToolUncertain\<rparr>) running,
          fold mark_uncertain running db))"

text \<open>
  The retry identity. The JSON value and SHA-256 are not code of the repository: \<open>render\<close>
  prints a value as \<open>serde_json\<close> does and \<open>sha256\<close> gives the digest bytes.
\<close>

definition canonical_tool_input :: "('json \<Rightarrow> string) \<Rightarrow> string \<Rightarrow> 'json \<Rightarrow> string" where
  "canonical_tool_input render tool_name arguments = tool_name @ '':'' @ render arguments"

definition hex_digit :: "nat \<Rightarrow> char" where
  "hex_digit n = (if n < 10 then char_of (48 + n) else char_of (87 + n))"

definition input_hash :: "(string \<Rightarrow> nat list) \<Rightarrow> string \<Rightarrow> string" where
  "input_hash sha256 canonical =
     concat (map (\<lambda>b. [hex_digit (b div 16), hex_digit (b mod 16)]) (sha256 canonical))"

end
