(* ===== verification/Tool_Registry.thy ===== *)
theory Tool_Registry
  imports Tool_Sanitizer Conversation Tool_Ledger
begin

text \<open>
  The registry of tools (\<open>src/src/tools/mod.rs\<close>): which tool a name means, how its calls are
  classified for the ledger and how a result is sanitized before anyone sees it. A tool acts on a
  state \<open>'s\<close>, which includes the database and the skill environment of the Turn; the tools and
  the MCP servers are entries of the registry.
\<close>

record tool_context =
  tx_chat_id :: int
  tx_channel :: string
  tx_surface_thread :: string
  tx_chat_type :: string
  tx_agent_id :: string
  tx_channel_log_chat_id :: "int option"
  tx_chain_depth :: nat
  tx_origin_id :: string
  tx_turn_id :: string
  tx_tool_call_id :: string
  tx_scope :: conversation_scope
  tx_snapshot_secrets :: "(string \<times> string) list option"

record 's tool_impl =
  ti_name :: string
  ti_execute :: "json \<Rightarrow> tool_context \<Rightarrow> 's \<Rightarrow> tool_result \<times> 's"
  ti_execute_prepared :: "json \<Rightarrow> tool_context \<Rightarrow> 's \<Rightarrow> tool_result \<times> 's"
  ti_prepare_execution_context :: "tool_context \<Rightarrow> 's \<Rightarrow> 's"
  ti_is_read_only :: bool
  ti_idempotency_class :: idempotency_class
  ti_idempotency_key :: "json \<Rightarrow> string option"

text \<open>What a tool gets that overrides none of the provided methods.\<close>

definition default_tool :: "string \<Rightarrow> bool \<Rightarrow> (json \<Rightarrow> tool_context \<Rightarrow> 's \<Rightarrow> tool_result \<times> 's) \<Rightarrow> 's tool_impl" where
  "default_tool name read_only execute =
     \<lparr>ti_name = name, ti_execute = execute, ti_execute_prepared = execute,
      ti_prepare_execution_context = (\<lambda>_ s. s), ti_is_read_only = read_only,
      ti_idempotency_class = (if read_only then ReadOnly else NonIdempotent),
      ti_idempotency_key = (\<lambda>_. None)\<rparr>"

record 's mcp_manager =
  mcp_is_tool_read_only :: "string \<Rightarrow> bool"
  mcp_execute_tool_by_name :: "string \<Rightarrow> json \<Rightarrow> 's \<Rightarrow> (string + string) option \<times> 's"

text \<open>
  The secrets of the current configuration and of the \<open>.env\<close> file are read when a result is
  sanitized; the environment that skills resolved is read from the state.
\<close>

record 's tool_registry =
  rg_tools :: "'s tool_impl list"
  rg_mcp_manager :: "'s mcp_manager option"
  rg_config_secrets :: "(string \<times> string) list"
  rg_manager_secrets :: "(string \<times> string) list option"
  rg_mcp_secrets :: "(string \<times> string) list option"
  rg_dotenv_secrets :: "(string \<times> string) list"
  rg_skill_env :: "'s \<Rightarrow> (string \<times> string) list"
  rg_redaction :: redaction_env

text \<open>The index of a name is that of the tool registered last under it.\<close>

definition find_tool_impl :: "'s tool_registry \<Rightarrow> string \<Rightarrow> 's tool_impl option" where
  "find_tool_impl rg name = find (\<lambda>t. ti_name t = name) (rev (rg_tools rg))"

definition register_tool :: "'s tool_impl \<Rightarrow> 's tool_registry \<Rightarrow> 's tool_registry" where
  "register_tool t rg = rg\<lparr>rg_tools := rg_tools rg @ [t]\<rparr>"

definition append_unique_secrets ::
  "(string \<times> string) list \<Rightarrow> (string \<times> string) list \<Rightarrow> (string \<times> string) list" where
  "append_unique_secrets secrets additional =
     foldl (\<lambda>acc s. if list_ex (\<lambda>t. snd t = snd s) acc then acc else acc @ [s]) secrets additional"

definition redaction_secrets :: "'s tool_registry \<Rightarrow> tool_context \<Rightarrow> 's \<Rightarrow> (string \<times> string) list" where
  "redaction_secrets rg ctx s =
     (let secrets =
        (case (rg_manager_secrets rg, tx_snapshot_secrets ctx) of
           (Some current, Some snapshot) \<Rightarrow> append_unique_secrets snapshot current
         | (Some current, None) \<Rightarrow> current
         | (None, Some snapshot) \<Rightarrow> snapshot
         | (None, None) \<Rightarrow> rg_config_secrets rg);
          secrets = foldl (\<lambda>acc (k, v). append_unique_secrets acc [(''skill_env.'' @ k, v)])
                      secrets (rg_skill_env rg s);
          secrets = (case rg_mcp_secrets rg of
                       Some m \<Rightarrow> append_unique_secrets secrets m | None \<Rightarrow> secrets)
      in append_unique_secrets secrets (rg_dotenv_secrets rg))"

definition sanitize_tool_input :: "'s tool_registry \<Rightarrow> tool_context \<Rightarrow> 's \<Rightarrow> json \<Rightarrow> json" where
  "sanitize_tool_input rg ctx s input =
     sanitize_json_value (rg_redaction rg) (redaction_secrets rg ctx s) input"

definition prepare_execution_context :: "'s tool_registry \<Rightarrow> string \<Rightarrow> tool_context \<Rightarrow> 's \<Rightarrow> 's" where
  "prepare_execution_context rg name ctx s =
     (case find_tool_impl rg name of Some t \<Rightarrow> ti_prepare_execution_context t ctx s | None \<Rightarrow> s)"

definition mcp_read_only :: "'s tool_registry \<Rightarrow> string \<Rightarrow> bool" where
  "mcp_read_only rg name =
     (starts_with ''mcp_'' name \<and>
      (case rg_mcp_manager rg of Some m \<Rightarrow> mcp_is_tool_read_only m name | None \<Rightarrow> False))"

definition registry_is_read_only :: "'s tool_registry \<Rightarrow> string \<Rightarrow> bool" where
  "registry_is_read_only rg name =
     (case find_tool_impl rg name of Some t \<Rightarrow> ti_is_read_only t | None \<Rightarrow> mcp_read_only rg name)"

definition registry_idempotency_class :: "'s tool_registry \<Rightarrow> string \<Rightarrow> idempotency_class" where
  "registry_idempotency_class rg name =
     (case find_tool_impl rg name of
        Some t \<Rightarrow> ti_idempotency_class t
      | None \<Rightarrow> if mcp_read_only rg name then ReadOnly else NonIdempotent)"

definition registry_idempotency_key :: "'s tool_registry \<Rightarrow> string \<Rightarrow> json \<Rightarrow> string option" where
  "registry_idempotency_key rg name input =
     (case find_tool_impl rg name of Some t \<Rightarrow> ti_idempotency_key t input | None \<Rightarrow> None)"

text \<open>The secrets are collected after the tool ran, so what it resolved itself is hidden too.\<close>

definition execute_inner ::
  "'s tool_registry \<Rightarrow> string \<Rightarrow> json \<Rightarrow> tool_context \<Rightarrow> bool \<Rightarrow> 's \<Rightarrow> tool_result \<times> 's" where
  "execute_inner rg name input ctx prepared s =
     (let sanitized = (\<lambda>r s. (sanitize_tool_result (rg_redaction rg) (redaction_secrets rg ctx s) r, s));
          unknown = error_with_kind ToolNotFound (''Unknown tool: '' @ name)
      in case find_tool_impl rg name of
           Some t \<Rightarrow>
             (let (r, s) = (if prepared then ti_execute_prepared t input ctx s else ti_execute t input ctx s)
              in sanitized r s)
         | None \<Rightarrow>
             (case rg_mcp_manager rg of
                Some m \<Rightarrow>
                  if starts_with ''mcp_'' name
                  then (case mcp_execute_tool_by_name m name input s of
                          (Some (Inr output), s) \<Rightarrow> sanitized (tool_success output) s
                        | (Some (Inl e), s) \<Rightarrow> sanitized (error_with_kind Upstream e) s
                        | (None, s) \<Rightarrow> sanitized unknown s)
                  else sanitized unknown s
              | None \<Rightarrow> sanitized unknown s))"

definition registry_execute ::
  "'s tool_registry \<Rightarrow> string \<Rightarrow> json \<Rightarrow> tool_context \<Rightarrow> 's \<Rightarrow> tool_result \<times> 's" where
  "registry_execute rg name input ctx s = execute_inner rg name input ctx False s"

definition registry_execute_prepared ::
  "'s tool_registry \<Rightarrow> string \<Rightarrow> json \<Rightarrow> tool_context \<Rightarrow> 's \<Rightarrow> tool_result \<times> 's" where
  "registry_execute_prepared rg name input ctx s = execute_inner rg name input ctx True s"

text \<open>Whatever ran, the result was sanitized with the secrets known after it.\<close>

lemma execute_inner_sanitized:
  assumes "execute_inner rg name input ctx prepared s = (r, s')"
  shows "\<exists>raw. r = sanitize_tool_result (rg_redaction rg) (redaction_secrets rg ctx s') raw"
  using assms by (auto simp: execute_inner_def Let_def split: option.splits prod.splits if_splits sum.splits)

text \<open>Adding secrets keeps the values known, and the ones added are known afterwards.\<close>

lemma append_unique_step:
  "snd ` set (if list_ex (\<lambda>t. snd t = snd s) acc then acc else acc @ [s]) = insert (snd s) (snd ` set acc)"
proof -
  have "list_ex (\<lambda>t. snd t = snd s) acc = (snd s \<in> snd ` set acc)" by (induction acc) auto
  then show ?thesis by (simp add: insert_absorb)
qed

lemma append_unique_secrets_values:
  "snd ` set (append_unique_secrets secrets additional) = snd ` set secrets \<union> snd ` set additional"
  by (induction additional rule: rev_induct) (simp_all add: append_unique_secrets_def append_unique_step del: list_ex_iff)

lemma skill_env_values:
  "snd ` set (foldl (\<lambda>acc (k, v). append_unique_secrets acc [(label @ k, v)]) secrets es) =
     snd ` set secrets \<union> snd ` set es"
  by (induction es rule: rev_induct) (simp_all add: append_unique_secrets_values case_prod_beta)

lemma redaction_secrets_values:
  "snd ` set (rg_skill_env rg s) \<subseteq> snd ` set (redaction_secrets rg ctx s)"
  "snd ` set (rg_dotenv_secrets rg) \<subseteq> snd ` set (redaction_secrets rg ctx s)"
  unfolding redaction_secrets_def Let_def append_unique_secrets_values
  by (simp_all add: append_unique_secrets_values skill_env_values [of "''skill_env.''", simplified] le_supI1 split: option.split)

end
