(* ===== verification/Tool_Runs.thy ===== *)
theory Tool_Runs
  imports Tool_Ledger
begin

text \<open>
  The life cycle of the ledger rows: the graph of tool states, the invariant of the ledger, its
  step relation with the contract of the prelude interpreted on it, and the properties of runs.
\<close>

section \<open>The graph of tool states\<close>

fun tool_allowed :: "tool_state \<Rightarrow> tool_state \<Rightarrow> bool" where
  "tool_allowed ToolPending t = (t = ToolRunning)"
| "tool_allowed ToolRunning t = (t \<in> {ToolSucceeded, ToolFailed, ToolUncertain})"
| "tool_allowed _ t = False"

fun tool_final :: "tool_state \<Rightarrow> bool" where
  "tool_final ToolPending = False"
| "tool_final ToolRunning = False"
| "tool_final _ = True"

lemma tool_final_stuck: "tool_final s \<Longrightarrow> \<not> tool_allowed s t"
  by (cases s) auto

interpretation tool_graph: lifecycle_graph tool_allowed tool_final
  by unfold_locales (rule tool_final_stuck)

text \<open>No way leads back to a state from which a slot can be acquired.\<close>

lemma tool_path_pending: "tool_allowed\<^sup>*\<^sup>* s ToolPending \<Longrightarrow> s = ToolPending"
proof (induction rule: converse_rtranclp_induct)
  case (step y z)
  then show ?case by (cases y) auto
qed simp

section \<open>The invariant of the ledger\<close>

definition owned :: "tool_row \<Rightarrow> bool" where
  "owned r = (tl_turn_id r \<noteq> None)"

definition tool_key :: "tool_row \<Rightarrow> string option \<times> string" where
  "tool_key r = (tl_turn_id r, tl_id r)"

definition tool_row_state :: "tool_row \<Rightarrow> tool_state" where
  "tool_row_state r = (case tool_state_from_str (tl_state r) of Inr s \<Rightarrow> s | Inl _ \<Rightarrow> ToolFailed)"

text \<open>
  A Turn's call ids are unique, every state parses, and rows from before the ledger (without a
  Turn) are settled.
\<close>

definition ledger_inv :: "database \<Rightarrow> bool" where
  "ledger_inv db =
     (distinct (map tool_key (filter owned (tool_calls db))) \<and>
      (\<forall>r \<in> set (tool_calls db). tl_state r \<in> range tool_state_display \<and>
         (\<not> owned r \<longrightarrow> tool_final (tool_row_state r))))"

lemma tool_row_state_display: "tl_state r = tool_state_display s \<Longrightarrow> tool_row_state r = s"
  by (simp add: tool_row_state_def)

lemma tool_row_state_back:
  "tl_state r \<in> range tool_state_display \<Longrightarrow> tl_state r = tool_state_display (tool_row_state r)"
  by (auto simp: tool_row_state_def)

lemma find_tool_Some: "find_tool t i db = Some r \<Longrightarrow> r \<in> set (tool_calls db) \<and> tl_turn_id r = Some t \<and> tl_id r = i"
  by (auto simp: find_tool_def tool_at_def dest: find_row_Some)

lemma tool_unique:
  assumes "ledger_inv db" "find_tool t i db = Some r" "x \<in> set (tool_calls db)" "tool_at t i x"
  shows "x = r"
proof -
  note r = find_tool_Some [OF assms(2)]
  have "x \<in> set (filter owned (tool_calls db))" "r \<in> set (filter owned (tool_calls db))"
    "tool_key x = tool_key r"
    using r assms(3,4) by (auto simp: owned_def tool_at_def tool_key_def)
  then show ?thesis using assms(1) by (auto simp: ledger_inv_def distinct_map inj_on_def)
qed

lemma find_tool_member:
  assumes "ledger_inv db" "r \<in> set (tool_calls db)" "tl_turn_id r = Some t"
  shows "find_tool t (tl_id r) db = Some r"
proof (cases "find_tool t (tl_id r) db")
  case None
  then show ?thesis using assms(2,3) by (auto simp: find_tool_def find_row_None_iff tool_at_def)
next
  case (Some x)
  with tool_unique [OF assms(1) Some assms(2)] assms(3) show ?thesis by (simp add: tool_at_def)
qed

lemma find_update_tool:
  assumes "\<And>r. tool_key (f r) = tool_key r"
  shows "find_tool t i (update_tool u j f db) =
    (if (t, i) = (u, j) then map_option f (find_tool t i db) else find_tool t i db)"
proof -
  have "tl_turn_id (f r) = tl_turn_id r" "tl_id (f r) = tl_id r" for r
    using assms [of r] by (simp_all add: tool_key_def)
  then have k: "\<And>r. tool_at t i (f r) = tool_at t i r" by (simp add: tool_at_def)
  have "find_tool t i (update_tool u j f db) =
      map_option (\<lambda>r. if tool_at u j r then f r else r) (find_tool t i db)"
    unfolding find_tool_def update_tool_def by (simp add: find_row_update_other k)
  then show ?thesis
    using find_tool_Some [of t i db] by (cases "find_tool t i db") (auto simp: tool_at_def)
qed

lemma update_tool_inv:
  assumes inv: "ledger_inv db" and k: "\<And>r. tool_key (f r) = tool_key r"
    and s: "\<And>r. tl_state (f r) = tool_state_display s"
  shows "ledger_inv (update_tool t i f db)"
proof -
  have o: "owned (f r) = owned r" for r using k [of r] by (simp add: owned_def tool_key_def)
  have "map tool_key (filter owned (update_rows P f xs)) = map tool_key (filter owned xs)" for P xs
    by (induction xs) (auto simp: k o)
  moreover have "tl_state x \<in> range tool_state_display \<and>
      (\<not> owned x \<longrightarrow> tool_final (tool_row_state x))"
    if x: "x \<in> set (update_rows (tool_at t i) f (tool_calls db))" for x
  proof -
    obtain y where y: "y \<in> set (tool_calls db)" "x = (if tool_at t i y then f y else y)"
      using x by (auto simp: row_simps)
    show ?thesis
    proof (cases "tool_at t i y")
      case True
      then have "owned y" by (simp add: tool_at_def owned_def)
      with True y s o show ?thesis by simp
    next
      case False
      with y inv show ?thesis by (simp add: ledger_inv_def)
    qed
  qed
  ultimately show ?thesis using inv by (simp add: ledger_inv_def update_tool_def)
qed

section \<open>How a row evolves\<close>

text \<open>A row keeps its identity, moves along the graph, and is frozen once it is final.\<close>

definition tool_evolves :: "tool_row \<Rightarrow> tool_row \<Rightarrow> bool" where
  "tool_evolves r r' =
     (tool_key r' = tool_key r \<and> tl_input_hash r' = tl_input_hash r \<and>
      tl_idempotency_class r' = tl_idempotency_class r \<and>
      tool_allowed\<^sup>*\<^sup>* (tool_row_state r) (tool_row_state r') \<and>
      (tool_final (tool_row_state r) \<longrightarrow> r' = r))"

lemma tool_evolves_refl [simp]: "tool_evolves r r"
  by (simp add: tool_evolves_def)

lemma tool_evolves_trans: "tool_evolves a b \<Longrightarrow> tool_evolves b c \<Longrightarrow> tool_evolves a c"
  unfolding tool_evolves_def by (auto intro: rtranclp_trans)

definition ledger_progress :: "database \<Rightarrow> database \<Rightarrow> bool" where
  "ledger_progress db db' =
     (ledger_inv db' \<and> (\<forall>t i r. find_tool t i db = Some r \<longrightarrow>
        (\<exists>r'. find_tool t i db' = Some r' \<and> tool_evolves r r')))"

lemma ledger_progress_refl: "ledger_inv db \<Longrightarrow> ledger_progress db db"
  by (simp add: ledger_progress_def)

lemma ledger_progress_trans: "ledger_progress a b \<Longrightarrow> ledger_progress b c \<Longrightarrow> ledger_progress a c"
  unfolding ledger_progress_def by (blast intro: tool_evolves_trans)

lemma update_tool_progress:
  assumes inv: "ledger_inv db" and r: "find_tool t i db = Some r"
    and k: "\<And>r. tool_key (f r) = tool_key r \<and> tl_input_hash (f r) = tl_input_hash r \<and>
      tl_idempotency_class (f r) = tl_idempotency_class r"
    and s: "\<And>r. tl_state (f r) = tool_state_display s" "tool_allowed (tool_row_state r) s"
  shows "ledger_progress db (update_tool t i f db)"
proof -
  have "\<not> tool_final (tool_row_state r)" using s(2) tool_final_stuck by blast
  moreover have "tool_row_state (f r) = s" using s(1) by (rule tool_row_state_display)
  ultimately have "tool_evolves r (f r)" using k s(2) by (auto simp: tool_evolves_def)
  moreover have "ledger_inv (update_tool t i f db)"
    using inv k s(1) by (intro update_tool_inv) auto
  ultimately show ?thesis
    using r by (auto simp: ledger_progress_def find_update_tool k)
qed

lemma insert_tool_progress:
  assumes inv: "ledger_inv db" and new: "find_tool t i db = None"
    and row: "tl_turn_id row = Some t" "tl_id row = i" "tl_state row = tool_state_display s"
    and ok: "insert_tool row db = Inr db'"
  shows "ledger_progress db db'" "find_tool t i db' = Some row"
    "find_tool u j db' = (if (u, j) = (t, i) then Some row else find_tool u j db)"
proof -
  have db': "tool_calls db' = tool_calls db @ [row]"
    using ok by (auto simp: insert_tool_def insert_row_def split: if_splits)
  show f: "find_tool t i db' = Some row"
    using new row by (simp add: find_tool_def db' find_row_append tool_at_def)
  show g: "find_tool u j db' = (if (u, j) = (t, i) then Some row else find_tool u j db)" for u j
    using new row by (auto simp: find_tool_def db' find_row_append tool_at_def split: option.split)
  have "tool_key row \<notin> set (map tool_key (filter owned (tool_calls db)))"
    using new row by (auto simp: find_tool_def find_row_None_iff tool_at_def tool_key_def)
  then have "ledger_inv db'"
    using inv row by (auto simp: ledger_inv_def db' owned_def tool_row_state_def)
  then show "ledger_progress db db'"
    using new g by (auto simp: ledger_progress_def)
qed

section \<open>The operations\<close>

lemma claim_existing:
  assumes "find_tool (clp_turn_id p) (clp_tool_call_id p) db = Some row"
    and "tl_state row = tool_state_display s"
  shows "claim_tool_execution now p db =
    (let h = (case tl_input_hash row of Some h \<Rightarrow> h | None \<Rightarrow> '''') in
     if h \<noteq> clp_input_hash p then Inl (ToolInputConflict (clp_tool_call_id p) h (clp_input_hash p))
     else if stored_class_of row \<noteq> clp_idempotency_class p
     then Inl (Conflict (''tool_calls idempotency_class changed: stored '' @
       idempotency_class_display (stored_class_of row) @ '' but requested '' @
       idempotency_class_display (clp_idempotency_class p)))
     else case s of
       ToolSucceeded \<Rightarrow> Inr (Reused (case tl_tool_output row of Some out \<Rightarrow> out | None \<Rightarrow> ''''), db)
     | ToolPending \<Rightarrow> Inr (Acquired, advance_to_running now (clp_turn_id p) (clp_tool_call_id p) db)
     | other \<Rightarrow> Inr (Blocked other, db))"
  using assms by (simp add: claim_tool_execution_def claim_locked_def Let_def map_err_def)

lemma ledger_row_state:
  assumes "ledger_inv db" "find_tool t i db = Some r"
  shows "tl_state r = tool_state_display (tool_row_state r)"
proof (rule tool_row_state_back)
  have "r \<in> set (tool_calls db)" using find_tool_Some [OF assms(2)] by blast
  then show "tl_state r \<in> range tool_state_display" using assms(1) by (simp add: ledger_inv_def)
qed

lemma claim_acquired:
  assumes inv: "ledger_inv db" and ok: "claim_tool_execution now p db = Inr (Acquired, db')"
  shows "ledger_progress db db'"
    "\<exists>r. find_tool (clp_turn_id p) (clp_tool_call_id p) db' = Some r \<and> tool_row_state r = ToolRunning"
    "\<forall>r. find_tool (clp_turn_id p) (clp_tool_call_id p) db = Some r \<longrightarrow> tool_row_state r = ToolPending"
proof -
  let ?t = "clp_turn_id p" and ?i = "clp_tool_call_id p"
  let ?f = "\<lambda>r. r\<lparr>tl_state := ''running'', tl_started_at := Some now\<rparr>"
  obtain db1 r where r: "find_tool ?t ?i db1 = Some r" "tl_state r = tool_state_display ToolPending"
    and p1: "ledger_progress db db1" and db': "db' = update_tool ?t ?i ?f db1"
    and old: "find_tool ?t ?i db = None \<or> db1 = db"
  proof (cases "find_tool ?t ?i db")
    case None
    with ok obtain db1 where d: "insert_tool (claimed_row now p) db = Inr db1"
      "db' = update_tool ?t ?i ?f db1"
      by (auto simp: claim_tool_execution_def claim_locked_def res_simps advance_to_running_def)
    have row: "tl_turn_id (claimed_row now p) = Some ?t" "tl_id (claimed_row now p) = ?i"
      "tl_state (claimed_row now p) = tool_state_display ToolPending"
      by (simp_all add: claimed_row_def)
    note I = insert_tool_progress [OF inv None row d(1)]
    show ?thesis by (rule that [OF I(2) row(3) I(1) d(2)]) (simp add: None)
  next
    case (Some x)
    note st = ledger_row_state [OF inv Some]
    have "tl_state x = tool_state_display ToolPending \<and> db' = update_tool ?t ?i ?f db"
      using ok st unfolding claim_existing [OF Some st]
      by (cases "tool_row_state x") (auto simp: Let_def advance_to_running_def split: if_splits)
    then show ?thesis using that [OF Some _ ledger_progress_refl [OF inv]] by blast
  qed
  have inv1: "ledger_inv db1" using p1 by (simp add: ledger_progress_def)
  have "ledger_progress db1 db'"
    unfolding db' using inv1 r(1)
    by (rule update_tool_progress [where s = ToolRunning])
      (use tool_row_state_display [OF r(2)] in \<open>auto simp: tool_key_def\<close>)
  with p1 show "ledger_progress db db'" by (rule ledger_progress_trans)
  have "find_tool ?t ?i db' = Some (?f r)"
    unfolding db' using r(1) by (simp add: find_update_tool tool_key_def)
  then show "\<exists>r. find_tool ?t ?i db' = Some r \<and> tool_row_state r = ToolRunning"
    by (auto simp: tool_row_state_def)
      (use tool_state_from_str_display [of ToolRunning] in simp)
  show "\<forall>r. find_tool ?t ?i db = Some r \<longrightarrow> tool_row_state r = ToolPending"
    using old r by (auto simp: tool_row_state_def)
      (use tool_state_from_str_display [of ToolPending] in simp)
qed

lemma claim_not_acquired:
  assumes inv: "ledger_inv db" and ok: "claim_tool_execution now p db = Inr (out, db')"
    and n: "out \<noteq> Acquired"
  shows "db' = db"
proof (cases "find_tool (clp_turn_id p) (clp_tool_call_id p) db")
  case None
  with ok n show ?thesis
    by (auto simp: claim_tool_execution_def claim_locked_def res_simps)
next
  case (Some r)
  show ?thesis
    using ok n unfolding claim_existing [OF Some ledger_row_state [OF inv Some]]
    by (cases "tool_row_state r") (auto simp: Let_def split: if_splits)
qed

lemma claim_progress:
  assumes inv: "ledger_inv db" and ok: "claim_tool_execution now p db = Inr (out, db')"
  shows "ledger_progress db db'"
  using claim_acquired(1) [OF inv] claim_not_acquired [OF inv ok] ok ledger_progress_refl [OF inv]
  by (cases out) auto

lemma require_state_ok:
  "require_state t i s db = Inr u \<Longrightarrow> \<exists>r. find_tool t i db = Some r \<and> tool_row_state r = s"
  by (auto simp: require_state_def res_simps tool_row_state_def split: if_splits)

lemma record_success_ok:
  assumes inv: "ledger_inv db" and ok: "record_tool_success now t i out db = Inr (u, db')"
  shows "ledger_progress db db'"
    "\<exists>r r'. find_tool t i db = Some r \<and> find_tool t i db' = Some r' \<and>
       tool_row_state r' = ToolSucceeded \<and> tl_tool_output r' = Some out \<and>
       tl_input_hash r' = tl_input_hash r \<and> tl_idempotency_class r' = tl_idempotency_class r"
proof -
  let ?f = "\<lambda>r. r\<lparr>tl_state := ''succeeded'', tl_tool_output := Some out,
    tl_finished_at := Some now, tl_error_kind := None, tl_error_message := None\<rparr>"
  obtain r where r: "find_tool t i db = Some r" "tool_row_state r = ToolRunning"
    and db': "db' = update_tool t i ?f db"
    using ok require_state_ok by (fastforce simp: record_tool_success_def res_simps)
  show "ledger_progress db db'"
    unfolding db' using inv r(1)
    by (rule update_tool_progress [where s = ToolSucceeded]) (use r(2) in \<open>auto simp: tool_key_def\<close>)
  have "find_tool t i db' = Some (?f r)"
    unfolding db' using r(1) by (simp add: find_update_tool tool_key_def)
  moreover have "tool_row_state (?f r) = ToolSucceeded" by (rule tool_row_state_display) simp
  ultimately show "\<exists>r r'. find_tool t i db = Some r \<and> find_tool t i db' = Some r' \<and>
       tool_row_state r' = ToolSucceeded \<and> tl_tool_output r' = Some out \<and>
       tl_input_hash r' = tl_input_hash r \<and> tl_idempotency_class r' = tl_idempotency_class r"
    using r(1) by force
qed

lemma record_failure_progress:
  assumes inv: "ledger_inv db" and ok: "record_tool_failure now t i k m db = Inr (u, db')"
  shows "ledger_progress db db'"
proof -
  let ?f = "\<lambda>r. r\<lparr>tl_state := ''failed'', tl_error_kind := Some k,
    tl_error_message := Some m, tl_finished_at := Some now\<rparr>"
  obtain r where r: "find_tool t i db = Some r" "tool_row_state r = ToolRunning"
    and db': "db' = update_tool t i ?f db"
    using ok require_state_ok by (fastforce simp: record_tool_failure_def res_simps)
  show ?thesis
    unfolding db' using inv r(1)
    by (rule update_tool_progress [where s = ToolFailed]) (use r(2) in \<open>auto simp: tool_key_def\<close>)
qed

lemma record_read_only_progress:
  assumes inv: "ledger_inv db" and ok: "record_read_only_outcome now out db = Inr db'"
  shows "ledger_progress db db'"
    "\<exists>r. find_tool (rot_turn_id out) (rot_tool_call_id out) db' = Some r \<and>
       tl_idempotency_class r = Some ''read_only''"
proof -
  let ?t = "rot_turn_id out" and ?i = "rot_tool_call_id out"
  have "ledger_progress db db' \<and> (\<exists>r. find_tool ?t ?i db' = Some r \<and>
       tl_idempotency_class r = Some ''read_only'')"
  proof (cases "find_tool ?t ?i db")
    case None
    let ?s = "if rot_succeeded out then ToolSucceeded else ToolFailed"
    have row: "tl_turn_id (read_only_row now out) = Some ?t" "tl_id (read_only_row now out) = ?i"
      "tl_state (read_only_row now out) = tool_state_display ?s"
      by (simp_all add: read_only_row_def)
    have "insert_tool (read_only_row now out) db = Inr db'"
      using ok None by (simp add: record_read_only_outcome_def)
    from insert_tool_progress [OF inv None row this] show ?thesis
      by (simp add: read_only_row_def)
  next
    case (Some r)
    then show ?thesis using ok ledger_progress_refl [OF inv]
      by (auto simp: record_read_only_outcome_def Let_def split: if_splits)
  qed
  then show "ledger_progress db db'"
    "\<exists>r. find_tool ?t ?i db' = Some r \<and> tl_idempotency_class r = Some ''read_only''" by auto
qed

lemma record_read_only_outcomes_progress:
  assumes "ledger_inv db" "record_read_only_tool_outcomes now outs db = Inr (u, db')"
  shows "ledger_progress db db'"
proof -
  have "rfold (record_read_only_outcome now) outs db = Inr db'"
    using assms(2) by (auto simp: record_read_only_tool_outcomes_def res_simps)
  note run = this
  have step: "ledger_progress db b"
    if "ledger_progress db a" "record_read_only_outcome now x a = Inr b" for x a b
    using that record_read_only_progress(1) [of a now x b] ledger_progress_trans [of db a b]
    by (auto simp: ledger_progress_def [of db a])
  show ?thesis
    by (rule rfold_invariant [where P = "ledger_progress db", OF _ ledger_progress_refl [OF assms(1)] run])
      (rule step)
qed

section \<open>Recovery\<close>

definition settle :: "tool_row \<Rightarrow> tool_row" where
  "settle r = (if tl_state r = ''running'' then r\<lparr>tl_state := ''uncertain''\<rparr> else r)"

lemma fold_mark_uncertain:
  "tool_calls (fold mark_uncertain ks db) =
     map (\<lambda>r. if \<exists>(t, i, n) \<in> set ks. tool_at t i r then r\<lparr>tl_state := ''uncertain''\<rparr> else r)
       (tool_calls db)"
proof (induction ks arbitrary: db)
  case (Cons k ks)
  obtain t i n where k: "k = (t, i, n)" by (cases k)
  have at: "tool_at u j (r\<lparr>tl_state := s\<rparr>) = tool_at u j r" for u j r s
    by (simp add: tool_at_def)
  show ?case
    by (auto simp: k Cons.IH update_tool_def update_rows_def at)
qed simp

lemma recover_running_eq:
  assumes inv: "ledger_inv db"
  shows "\<exists>rec db'. recover_running_tools db = Inr (rec, db') \<and>
    tool_calls db' = map settle (tool_calls db) \<and>
    length rec = length (filter (\<lambda>r. tl_state r = ''running'') (tool_calls db))"
proof -
  let ?rs = "filter (\<lambda>r. tl_state r = ''running'') (tool_calls db)"
  let ?ks = "map (\<lambda>r. (the (tl_turn_id r), tl_id r, tl_tool_name r)) ?rs"
  have owned: "tl_turn_id r \<noteq> None" if "r \<in> set (tool_calls db)" "tl_state r = ''running''" for r
  proof
    assume "tl_turn_id r = None"
    then have "tool_final (tool_row_state r)" using inv that(1) by (auto simp: ledger_inv_def owned_def)
    moreover have "tool_row_state r = ToolRunning" using that(2) by (intro tool_row_state_display) simp
    ultimately show False by simp
  qed
  have ks: "rmap running_key ?rs = Inr ?ks"
    by (rule rmap_Inr) (use owned in \<open>fastforce simp: running_key_def\<close>)
  have mark: "(\<exists>(t, i, n) \<in> set ?ks. tool_at t i r) = (tl_state r = ''running'')"
    if r: "r \<in> set (tool_calls db)" for r
  proof
    assume "\<exists>(t, i, n) \<in> set ?ks. tool_at t i r"
    then obtain x t where x: "x \<in> set (tool_calls db)" "tl_state x = ''running''" "tl_turn_id x = Some t"
      "tool_at t (tl_id x) r"
      using owned by fastforce
    have "r = x" using tool_unique [OF inv find_tool_member [OF inv x(1,3)] r x(4)] .
    with x show "tl_state r = ''running''" by simp
  next
    assume s: "tl_state r = ''running''"
    then obtain t where "tl_turn_id r = Some t" using owned [OF r] by blast
    with r s show "\<exists>(t, i, n) \<in> set ?ks. tool_at t i r"
      by (intro bexI [of _ "(t, tl_id r, tl_tool_name r)"]) (force simp: tool_at_def)+
  qed
  have "tool_calls (fold mark_uncertain ?ks db) = map settle (tool_calls db)"
    unfolding fold_mark_uncertain by (rule map_cong [OF refl]) (simp only: mark settle_def)
  then show ?thesis by (simp add: recover_running_tools_def ks)
qed

lemma tool_at_settle [simp]: "tool_at t i (settle r) = tool_at t i r"
  by (simp add: settle_def tool_at_def)

lemma find_row_map:
  "(\<And>x. P (f x) = P x) \<Longrightarrow> find_row P (map f xs) = map_option f (find_row P xs)"
  by (induction xs) auto

lemma settle_evolves:
  assumes "tl_state r \<in> range tool_state_display"
  shows "tool_evolves r (settle r)" "tl_state (settle r) \<in> range tool_state_display"
    "tool_key (settle r) = tool_key r" "tl_state (settle r) \<noteq> ''running''"
proof -
  have run: "tl_state r = ''running'' \<Longrightarrow> tool_row_state r = ToolRunning"
    by (rule tool_row_state_display) simp
  have unc: "tool_row_state (r\<lparr>tl_state := ''uncertain''\<rparr>) = ToolUncertain"
    by (rule tool_row_state_display) simp
  show "tool_evolves r (settle r)"
    using run unc by (auto simp: settle_def tool_evolves_def tool_key_def)
  show "tool_key (settle r) = tool_key r" by (simp add: settle_def tool_key_def)
  show "tl_state (settle r) \<noteq> ''running''" by (simp add: settle_def)
  show "tl_state (settle r) \<in> range tool_state_display"
    using assms by (auto simp: settle_def intro: range_eqI [of _ _ ToolUncertain])
qed

lemma recover_running_progress:
  assumes inv: "ledger_inv db" and ok: "recover_running_tools db = Inr (rec, db')"
  shows "ledger_progress db db'" "tool_calls db' = map settle (tool_calls db)"
proof -
  show calls: "tool_calls db' = map settle (tool_calls db)" using recover_running_eq [OF inv] ok by auto
  have st: "tl_state r \<in> range tool_state_display" if "r \<in> set (tool_calls db)" for r
    using inv that by (simp add: ledger_inv_def)
  have own: "owned (settle r) = owned r" for r by (simp add: settle_def owned_def)
  have "filter owned (map settle xs) = map settle (filter owned xs)" for xs
    by (induction xs) (auto simp: own)
  moreover have "tool_key (settle r) = tool_key r" for r by (simp add: settle_def tool_key_def)
  ultimately have "distinct (map tool_key (filter owned (tool_calls db')))"
    using inv by (simp add: ledger_inv_def calls comp_def)
  moreover have "tl_state x \<in> range tool_state_display \<and> (\<not> owned x \<longrightarrow> tool_final (tool_row_state x))"
    if x: "x \<in> set (tool_calls db')" for x
  proof -
    obtain r where r: "r \<in> set (tool_calls db)" "x = settle r" using x by (auto simp: calls)
    have "\<not> owned r \<Longrightarrow> settle r = r"
      using inv r(1) settle_evolves(1) [OF st [OF r(1)]] by (auto simp: ledger_inv_def tool_evolves_def)
    with r settle_evolves(2) [OF st [OF r(1)]] own inv show ?thesis by (auto simp: ledger_inv_def)
  qed
  ultimately have inv': "ledger_inv db'" by (simp add: ledger_inv_def)
  have find: "find_tool t i db' = map_option settle (find_tool t i db)" for t i
    unfolding find_tool_def calls by (rule find_row_map) simp
  show "ledger_progress db db'"
    unfolding ledger_progress_def
  proof (intro conjI allI impI)
    fix t i r assume f: "find_tool t i db = Some r"
    then have "r \<in> set (tool_calls db)" using find_tool_Some by blast
    then show "\<exists>r'. find_tool t i db' = Some r' \<and> tool_evolves r r'"
      using f find settle_evolves(1) [OF st] by simp
  qed (rule inv')
qed

section \<open>Steps\<close>

text \<open>The last rule is any operation of another component, which leaves the ledger alone.\<close>

inductive ledger_step :: "database \<Rightarrow> database \<Rightarrow> bool" where
  ledger_claim: "claim_tool_execution now p db = Inr (out, db') \<Longrightarrow> ledger_step db db'"
| ledger_success: "record_tool_success now t i txt db = Inr (u, db') \<Longrightarrow> ledger_step db db'"
| ledger_failure: "record_tool_failure now t i k m db = Inr (u, db') \<Longrightarrow> ledger_step db db'"
| ledger_read_only: "record_read_only_tool_outcomes now outs db = Inr (u, db') \<Longrightarrow> ledger_step db db'"
| ledger_recover: "recover_running_tools db = Inr (rec, db') \<Longrightarrow> ledger_step db db'"
| ledger_other: "tool_calls db' = tool_calls db \<Longrightarrow> ledger_step db db'"

lemma ledger_step_progress:
  assumes "ledger_step db db'" "ledger_inv db"
  shows "ledger_progress db db'"
  using assms(1)
proof (cases rule: ledger_step.cases)
  case ledger_other
  then have "find_tool t i db' = find_tool t i db" for t i by (simp add: find_tool_def)
  moreover have "ledger_inv db'" using assms(2) ledger_other by (simp add: ledger_inv_def)
  ultimately show ?thesis by (simp add: ledger_progress_def)
next
  case ledger_claim
  then show ?thesis by (rule claim_progress [OF assms(2)])
next
  case ledger_success
  then show ?thesis by (rule record_success_ok(1) [OF assms(2)])
next
  case ledger_failure
  then show ?thesis by (rule record_failure_progress [OF assms(2)])
next
  case ledger_read_only
  then show ?thesis by (rule record_read_only_outcomes_progress [OF assms(2)])
next
  case ledger_recover
  then show ?thesis by (rule recover_running_progress(1) [OF assms(2)])
qed

definition tool_status :: "database \<Rightarrow> string \<times> string \<Rightarrow> tool_state option" where
  "tool_status db k = map_option tool_row_state (find_tool (fst k) (snd k) db)"

interpretation tool_life: lifecycle_store tool_allowed tool_final tool_status ledger_step ledger_inv
proof
  fix db db' k s
  show "ledger_step db db' \<Longrightarrow> ledger_inv db \<Longrightarrow> ledger_inv db'"
    using ledger_step_progress unfolding ledger_progress_def by blast
  show "\<exists>t. tool_status db' k = Some t \<and> (t = s \<or> tool_allowed\<^sup>*\<^sup>* s t)"
    if h: "ledger_step db db'" "ledger_inv db" "tool_status db k = Some s"
  proof -
    obtain r where r: "find_tool (fst k) (snd k) db = Some r" "tool_row_state r = s"
      using h(3) by (auto simp: tool_status_def)
    then obtain r' where "find_tool (fst k) (snd k) db' = Some r'" "tool_evolves r r'"
      using ledger_step_progress [OF h(1,2)] unfolding ledger_progress_def by blast
    then show ?thesis using r by (auto simp: tool_status_def tool_evolves_def)
  qed
qed

lemma ledger_run_progress:
  assumes "ledger_step\<^sup>*\<^sup>* db db'" "ledger_inv db"
  shows "ledger_progress db db'"
  using assms(1)
proof (induction rule: rtranclp_induct)
  case base
  then show ?case using assms(2) by (rule ledger_progress_refl)
next
  case (step u v)
  then have "ledger_inv u" by (simp add: ledger_progress_def)
  then show ?case using ledger_step_progress [OF step.hyps(2)] step.IH ledger_progress_trans by blast
qed

section \<open>Properties\<close>

text \<open>
  C19: A tool slot is acquired at most once. Once a claim was granted, and whatever is recorded,
  recovered or claimed afterwards, no later claim of the same call is granted: it reuses the
  stored output, is blocked, or is refused.
\<close>

theorem tool_acquired_once:
  assumes inv: "ledger_inv db" and ok: "claim_tool_execution now p db = Inr (Acquired, db1)"
    and run: "ledger_step\<^sup>*\<^sup>* db1 db2"
    and key: "clp_turn_id q = clp_turn_id p" "clp_tool_call_id q = clp_tool_call_id p"
    and again: "claim_tool_execution now' q db2 = Inr (out, db3)"
  shows "out \<noteq> Acquired \<and> db3 = db2"
proof -
  let ?k = "(clp_turn_id p, clp_tool_call_id p)"
  have inv1: "ledger_inv db1" using claim_acquired(1) [OF inv ok] by (simp add: ledger_progress_def)
  have inv2: "ledger_inv db2" using run inv1 by (rule tool_life.run_invar)
  have "tool_status db1 ?k = Some ToolRunning"
    using claim_acquired(2) [OF inv ok] by (auto simp: tool_status_def)
  from tool_life.run_status [OF run inv1 this] obtain s where
    s: "tool_status db2 ?k = Some s" "tool_allowed\<^sup>*\<^sup>* ToolRunning s" by blast
  have "out \<noteq> Acquired"
  proof
    assume "out = Acquired"
    then have "claim_tool_execution now' q db2 = Inr (Acquired, db3)" using again by simp
    from claim_acquired(3) [OF inv2 this] s(1) key have "s = ToolPending"
      by (auto simp: tool_status_def)
    with s(2) tool_path_pending show False by blast
  qed
  then show ?thesis using claim_not_acquired [OF inv2 again] by simp
qed

text \<open>
  C20: A recorded success is durable. After a tool's output was recorded, and whatever else the
  ledger does, a claim with the input hash and class of the call returns exactly that output
  and changes nothing.
\<close>

theorem tool_success_reused:
  assumes inv: "ledger_inv db" and ok: "record_tool_success now t i txt db = Inr (u, db1)"
    and run: "ledger_step\<^sup>*\<^sup>* db1 db2"
    and row: "find_tool t i db = Some r" "tl_input_hash r = Some (clp_input_hash p)"
      "tl_idempotency_class r = Some (idempotency_class_display (clp_idempotency_class p))"
    and key: "clp_turn_id p = t" "clp_tool_call_id p = i"
  shows "claim_tool_execution now' p db2 = Inr (Reused txt, db2)"
proof -
  note S = record_success_ok [OF inv ok]
  then obtain r1 where r1: "find_tool t i db1 = Some r1" "tool_row_state r1 = ToolSucceeded"
    "tl_tool_output r1 = Some txt" "tl_input_hash r1 = Some (clp_input_hash p)"
    "tl_idempotency_class r1 = Some (idempotency_class_display (clp_idempotency_class p))"
    using row by auto
  have inv1: "ledger_inv db1" using S(1) by (simp add: ledger_progress_def)
  have inv2: "ledger_inv db2" using run inv1 by (rule tool_life.run_invar)
  obtain r2 where "find_tool t i db2 = Some r2" "tool_evolves r1 r2"
    using ledger_run_progress [OF run inv1] r1(1) unfolding ledger_progress_def by blast
  with r1(2) have f: "find_tool t i db2 = Some r1" by (auto simp: tool_evolves_def)
  have st: "tl_state r1 = tool_state_display ToolSucceeded"
    using ledger_row_state [OF inv2 f] r1(2) by simp
  show ?thesis
    using claim_existing [of p db2 r1 ToolSucceeded now'] f st r1(3-5) key
    by (simp add: stored_class_of_def)
qed

text \<open>
  Recovery of the ledger always completes and leaves no call running: exactly the running
  calls become uncertain, every other row is unchanged, and no call it settled can be acquired.
\<close>

theorem tool_recovery_settles:
  assumes inv: "ledger_inv db"
  shows "\<exists>rec db'. recover_running_tools db = Inr (rec, db') \<and> ledger_inv db' \<and>
    tool_calls db' = map settle (tool_calls db) \<and>
    length rec = length (filter (\<lambda>r. tl_state r = tool_state_display ToolRunning) (tool_calls db)) \<and>
    (\<forall>r \<in> set (tool_calls db'). tl_state r \<noteq> tool_state_display ToolRunning) \<and>
    recover_running_tools db' = Inr ([], db')"
proof -
  obtain rec db' where ok: "recover_running_tools db = Inr (rec, db')"
    "length rec = length (filter (\<lambda>r. tl_state r = ''running'') (tool_calls db))"
    using recover_running_eq [OF inv] by blast
  note R = recover_running_progress [OF inv ok(1)]
  have none: "\<forall>r \<in> set (tool_calls db'). tl_state r \<noteq> ''running''"
    using R(2) by (auto simp: settle_def)
  then have "filter (\<lambda>r. tl_state r = ''running'') (tool_calls db') = []"
    by (simp add: filter_empty_conv)
  then have "recover_running_tools db' = Inr ([], db')"
    by (simp add: recover_running_tools_def)
  with ok R none show ?thesis by (simp add: ledger_progress_def)
qed

text \<open>
  A claim never guesses. When the stored input hash of a call differs from the one
  presented, the claim is refused with both hashes, in whatever state the call is; when the
  recorded idempotency class differs, it is refused as a conflict.
\<close>

theorem tool_claim_checks_identity:
  assumes inv: "ledger_inv db" and row: "find_tool (clp_turn_id p) (clp_tool_call_id p) db = Some r"
    and h: "tl_input_hash r = Some h"
  shows "(h \<noteq> clp_input_hash p \<longrightarrow> claim_tool_execution now p db =
      Inl (ToolInputConflict (clp_tool_call_id p) h (clp_input_hash p))) \<and>
    (h = clp_input_hash p \<and> stored_class_of r \<noteq> clp_idempotency_class p \<longrightarrow>
      (\<exists>e. claim_tool_execution now p db = Inl (Conflict e)))"
  using claim_existing [OF row ledger_row_state [OF inv row], of now] h by simp

section \<open>Sample ledger\<close>

definition sample_claim :: claim_params where
  "sample_claim =
     \<lparr>clp_turn_id = ''turn-1'', clp_chat_id = 7, clp_message_id = ''m1'',
      clp_tool_call_id = ''c1'', clp_tool_name = ''bash'', clp_tool_input = ''{}'',
      clp_input_hash = ''h'', clp_idempotency_class = NonIdempotent, clp_idempotency_key = None\<rparr>"

definition sample_claimed :: database where
  "sample_claimed = advance_to_running ''t1'' ''turn-1'' ''c1''
     ((sample_db ToolsPending)\<lparr>tool_calls := [claimed_row ''t1'' sample_claim]\<rparr>)"

lemma sample_ledger_inv: "ledger_inv (sample_db s)"
  by (simp add: ledger_inv_def sample_db_def empty_database_def)

lemma sample_claim_ok:
  "claim_tool_execution ''t1'' sample_claim (sample_db ToolsPending) = Inr (Acquired, sample_claimed)"
proof -
  have "tool_calls (sample_db ToolsPending) = []" "chats (sample_db ToolsPending) = [sample_chat]"
    by (simp_all add: sample_db_def empty_database_def)
  moreover have "ch_chat_id sample_chat = 7" by (simp add: sample_chat_def new_chat_row_def)
  moreover have "tl_chat_id (claimed_row ''t1'' sample_claim) = 7"
    "clp_turn_id sample_claim = ''turn-1''" "clp_tool_call_id sample_claim = ''c1''"
    by (simp_all add: claimed_row_def sample_claim_def)
  ultimately show ?thesis
    by (simp add: claim_tool_execution_def claim_locked_def find_tool_def insert_tool_def
        exists_row_def insert_row_def sample_claimed_def)
qed

lemma sample_claimed_inv: "ledger_inv sample_claimed"
  using claim_acquired(1) [OF sample_ledger_inv sample_claim_ok] by (simp add: ledger_progress_def)

lemma sample_claimed_row:
  "find_tool ''turn-1'' ''c1'' sample_claimed =
     Some ((claimed_row ''t1'' sample_claim)\<lparr>tl_state := ''running'', tl_started_at := Some ''t1''\<rparr>)"
  by (simp add: sample_claimed_def advance_to_running_def update_tool_def find_tool_def tool_at_def
      claimed_row_def sample_claim_def)

theorem tool_acquired_once_witness:
  "\<exists>s. claim_tool_execution ''t2'' sample_claim sample_claimed = Inr (Blocked s, sample_claimed)"
proof -
  have st: "tl_state ((claimed_row ''t1'' sample_claim)\<lparr>tl_state := ''running'',
      tl_started_at := Some ''t1''\<rparr>) = tool_state_display ToolRunning" by simp
  have f: "find_tool (clp_turn_id sample_claim) (clp_tool_call_id sample_claim) sample_claimed =
      Some ((claimed_row ''t1'' sample_claim)\<lparr>tl_state := ''running'', tl_started_at := Some ''t1''\<rparr>)"
    using sample_claimed_row by (simp add: sample_claim_def)
  obtain out db3 where again: "claim_tool_execution ''t2'' sample_claim sample_claimed = Inr (out, db3)"
    "\<exists>s. out = Blocked s"
    using claim_existing [OF f st, of "''t2''"] idempotency_class_from_str_display [of NonIdempotent]
    by (simp add: claimed_row_def sample_claim_def stored_class_of_def)
  then show ?thesis
    using tool_acquired_once [OF sample_ledger_inv sample_claim_ok rtranclp.rtrancl_refl refl refl again(1)]
    by auto
qed

theorem tool_success_reused_witness:
  "\<exists>db1. record_tool_success ''t2'' ''turn-1'' ''c1'' ''ok'' sample_claimed = Inr ((), db1) \<and>
     claim_tool_execution ''t3'' sample_claim db1 = Inr (Reused ''ok'', db1)"
proof -
  have "tool_state_from_str ''running'' = Inr ToolRunning"
    using tool_state_from_str_display [of ToolRunning] by simp
  then obtain db1 where ok: "record_tool_success ''t2'' ''turn-1'' ''c1'' ''ok'' sample_claimed = Inr ((), db1)"
    by (simp add: record_tool_success_def require_state_def sample_claimed_row map_err_def)
  from tool_success_reused [OF sample_claimed_inv ok rtranclp.rtrancl_refl sample_claimed_row, of sample_claim]
  show ?thesis using ok by (simp add: claimed_row_def sample_claim_def)
qed

theorem tool_recovery_settles_witness:
  "\<exists>rec db'. recover_running_tools sample_claimed = Inr (rec, db') \<and> length rec = 1 \<and>
     recover_running_tools db' = Inr ([], db')"
proof -
  have "length (filter (\<lambda>r. tl_state r = tool_state_display ToolRunning) (tool_calls sample_claimed)) = 1"
    by (simp add: sample_claimed_def advance_to_running_def update_tool_def tool_at_def
        claimed_row_def sample_claim_def)
  with tool_recovery_settles [OF sample_claimed_inv] show ?thesis by fastforce
qed

theorem tool_claim_checks_identity_witness:
  "claim_tool_execution ''t2'' (sample_claim\<lparr>clp_input_hash := ''x''\<rparr>) sample_claimed =
     Inl (ToolInputConflict ''c1'' ''h'' ''x'')"
  using tool_claim_checks_identity [OF sample_claimed_inv, of "sample_claim\<lparr>clp_input_hash := ''x''\<rparr>"
      _ "''h''" "''t2''"] sample_claimed_row
  by (simp add: sample_claim_def claimed_row_def)

end
