(* ===== verification/Tool_Executor.thy ===== *)
theory Tool_Executor
  imports Tool_Registry Message_Text Runtime_Error Tool_Runs
begin

text \<open>
  The tool phase of an agent loop (\<open>src/src/agent_loop/tool_execution.rs\<close>) over the ledger of
  \<open>Tool_Ledger\<close>: a side-effecting call is claimed before it runs and recorded after it, read-only
  calls run in blocks that are recorded afterwards, and after the limit of security-guard denials
  every further call is refused. The calls of a read-only block run concurrently in the program and
  in list order here. Events, metrics and durations are left out.
\<close>

section \<open>Results for the model\<close>

record executed_call =
  ec_tool_call :: "json llm_tool_call"
  ec_result :: tool_result
  ec_payload :: string
  ec_message :: "json llm_message"

definition attachment_json :: "attachment_info \<Rightarrow> json" where
  "attachment_json a =
     JObj [(''content_type'', JStr (ai_content_type a)), (''filename'', JStr (ai_filename a)),
       (''id'', JStr (ai_id a)), (''size_bytes'', JNum (int (ai_size_bytes a)))]"

definition tool_payload :: "json llm_tool_call \<Rightarrow> tool_result \<Rightarrow> json" where
  "tool_payload call r =
     JObj ((if tres_attachments r = [] then []
               else [(''attachments'', JArr (map attachment_json (tres_attachments r)))]) @
       (case tres_details r of Some d \<Rightarrow> [(''details'', d)] | None \<Rightarrow> []) @
       [(''result'', JStr (tres_content r)),
        (''status'', JStr (if tres_is_error r then ''error'' else ''success'')),
        (''tool'', JStr (ltc_name call))])"

definition format_tool_result :: "(json \<Rightarrow> string) \<Rightarrow> json llm_tool_call \<Rightarrow> tool_result \<Rightarrow> string" where
  "format_tool_result render call r = render (tool_payload call r)"

definition tool_message_content :: "string \<Rightarrow> tool_result \<Rightarrow> message_content_part content" where
  "tool_message_content payload r =
     (case tres_llm_content r of
        TextContent _ \<Rightarrow> TextContent payload
      | PartsContent parts \<Rightarrow>
          PartsContent (InputText payload #
            filter (\<lambda>p. case p of InputText _ \<Rightarrow> False | InputImage _ _ \<Rightarrow> True) parts))"

definition invalid_arguments_message :: "string \<Rightarrow> string \<Rightarrow> string" where
  "invalid_arguments_message tool_name parse_error =
     ''Tool call was not executed: the arguments for '' @ [CHR 0x27] @ tool_name @ [CHR 0x27] @
     '' are not valid JSON ('' @ parse_error @ ''). Resend the call with complete, valid JSON arguments. '' @
     ''For large file content, use `write` or split the change into smaller `edit` calls.''"

definition attachment_of_json :: "json \<Rightarrow> attachment_info option" where
  "attachment_of_json v =
     (case (Option.bind (json_get ''id'' v) json_as_str, Option.bind (json_get ''filename'' v) json_as_str,
            Option.bind (json_get ''content_type'' v) json_as_str, Option.bind (json_get ''size_bytes'' v) json_as_u64) of
        (Some i, Some f, Some c, Some n) \<Rightarrow>
          Some \<lparr>ai_id = i, ai_filename = f, ai_content_type = c, ai_size_bytes = n\<rparr>
      | _ \<Rightarrow> None)"

definition attachments_from_stored_payload :: "(string \<Rightarrow> json option) \<Rightarrow> string \<Rightarrow> attachment_info list" where
  "attachments_from_stored_payload parse payload =
     (case Option.bind (parse payload) (json_get ''attachments'') of
        Some (JArr vs) \<Rightarrow>
          (if None \<in> set (map attachment_of_json vs) then [] else List.map_filter attachment_of_json vs)
      | _ \<Rightarrow> [])"

section \<open>One call\<close>

record 'w executor_env =
  xe_registry :: "(database \<times> 'w) tool_registry"
  xe_context :: tool_context
  xe_tracked :: bool
  xe_render :: "json \<Rightarrow> string"
  xe_parse :: "string \<Rightarrow> json option"
  xe_sha256 :: "string \<Rightarrow> nat list"
  xe_now :: string

definition call_input_hash :: "'w executor_env \<Rightarrow> json llm_tool_call \<Rightarrow> string" where
  "call_input_hash env c =
     input_hash (xe_sha256 env) (canonical_tool_input (xe_render env) (ltc_name c) (ltc_arguments c))"

definition call_tool_input :: "'w executor_env \<Rightarrow> json llm_tool_call \<Rightarrow> database \<times> 'w \<Rightarrow> string" where
  "call_tool_input env c s =
     xe_render env (sanitize_tool_input (xe_registry env) (xe_context env) s (ltc_arguments c))"

definition claim_params_of ::
  "'w executor_env \<Rightarrow> string \<Rightarrow> json llm_tool_call \<Rightarrow> database \<times> 'w \<Rightarrow> claim_params" where
  "claim_params_of env mid c s =
     \<lparr>clp_turn_id = tx_turn_id (xe_context env), clp_chat_id = tx_chat_id (xe_context env),
      clp_message_id = mid, clp_tool_call_id = ltc_id c, clp_tool_name = ltc_name c,
      clp_tool_input = call_tool_input env c s, clp_input_hash = call_input_hash env c,
      clp_idempotency_class = registry_idempotency_class (xe_registry env) (ltc_name c),
      clp_idempotency_key = registry_idempotency_key (xe_registry env) (ltc_name c) (ltc_arguments c)\<rparr>"

definition claim_tool_slot ::
  "'w executor_env \<Rightarrow> string \<Rightarrow> json llm_tool_call \<Rightarrow> database \<times> 'w \<Rightarrow>
   (egopulse_error + claim_outcome) \<times> (database \<times> 'w)" where
  "claim_tool_slot env mid c s =
     (let s = prepare_execution_context (xe_registry env) (ltc_name c) (xe_context env) s
      in case claim_tool_execution (xe_now env) (claim_params_of env mid c s) (fst s) of
           Inl e \<Rightarrow> (Inl (StorageFailure e), s)
         | Inr (claim, db) \<Rightarrow> (Inr claim, (db, snd s)))"

definition record_tool_outcome ::
  "'w executor_env \<Rightarrow> json llm_tool_call \<Rightarrow> tool_result \<Rightarrow> string \<Rightarrow> database \<Rightarrow> unit tx" where
  "record_tool_outcome env c r payload db =
     (if tres_is_error r
      then record_tool_failure (xe_now env) (tx_turn_id (xe_context env)) (ltc_id c)
             (case tres_error_kind r of Some k \<Rightarrow> as_ledger_str k | None \<Rightarrow> ''tool_error'') (tres_content r) db
      else record_tool_success (xe_now env) (tx_turn_id (xe_context env)) (ltc_id c) payload db)"

text \<open>What a call gives: the result, the payload for the model, and whether the tool ran.\<close>

type_synonym 'w call_run = "(egopulse_error + (tool_result \<times> string \<times> bool)) \<times> (database \<times> 'w)"

definition run_acquired ::
  "'w executor_env \<Rightarrow> json llm_tool_call \<Rightarrow> bool \<Rightarrow> database \<times> 'w \<Rightarrow> 'w call_run" where
  "run_acquired env c is_read_only s =
     (let ctx = (xe_context env)\<lparr>tx_tool_call_id := ltc_id c\<rparr>;
          (r, s) = (if is_read_only
                    then registry_execute (xe_registry env) (ltc_name c) (ltc_arguments c) ctx s
                    else registry_execute_prepared (xe_registry env) (ltc_name c) (ltc_arguments c) ctx s);
          payload = format_tool_result (xe_render env) c r
      in if is_read_only then (Inr (r, payload, True), s)
         else case record_tool_outcome env c r payload (fst s) of
                Inl e \<Rightarrow> (Inl (StorageFailure e), s)
              | Inr (_, db) \<Rightarrow> (Inr (r, payload, True), (db, snd s)))"

definition run_claimed_tool ::
  "'w executor_env \<Rightarrow> string \<Rightarrow> json llm_tool_call \<Rightarrow> bool \<Rightarrow> database \<times> 'w \<Rightarrow> 'w call_run" where
  "run_claimed_tool env mid c is_read_only s =
     (let (claim, s) = (if is_read_only then (Inr Acquired, s) else claim_tool_slot env mid c s)
      in case claim of
           Inl e \<Rightarrow> (Inl e, s)
         | Inr Acquired \<Rightarrow> run_acquired env c is_read_only s
         | Inr (Reused tool_output) \<Rightarrow>
             (Inr ((tool_success tool_output)\<lparr>tres_attachments :=
                     attachments_from_stored_payload (xe_parse env) tool_output\<rparr>, tool_output, False), s)
         | Inr (Blocked state) \<Rightarrow>
             (let r = tool_error (''tool call blocked: ledger state='' @ tool_state_display state)
              in (Inr (r, format_tool_result (xe_render env) c r, False), s)))"

definition finish_tool_call :: "json llm_tool_call \<Rightarrow> tool_result \<Rightarrow> string \<Rightarrow> executed_call" where
  "finish_tool_call c r payload =
     \<lparr>ec_tool_call = c, ec_result = r, ec_payload = payload,
      ec_message = \<lparr>lm_role = ''tool'', lm_content = tool_message_content payload r,
        lm_reasoning_content = None, lm_tool_calls = [], lm_tool_call_id = Some (ltc_id c)\<rparr>\<rparr>"

text \<open>The state of a phase: the denials counted so far, the database and the rest of the world.\<close>

type_synonym 'w phase_state = "nat \<times> database \<times> 'w"

definition execute_single_tool ::
  "'w executor_env \<Rightarrow> string \<Rightarrow> bool \<Rightarrow> json llm_tool_call \<Rightarrow> 'w phase_state \<Rightarrow>
   (egopulse_error + executed_call) \<times> 'w phase_state" where
  "execute_single_tool env mid is_read_only c st =
     (let (denials, s) = st;
          (run, s) =
            (case ltc_invalid_arguments c of
               Some parse_error \<Rightarrow>
                 (let r = error_with_kind InvalidInput (invalid_arguments_message (ltc_name c) parse_error)
                  in (Inr (r, format_tool_result (xe_render env) c r, False), s))
             | None \<Rightarrow> run_claimed_tool env mid c is_read_only s)
      in case run of
           Inl e \<Rightarrow> (Inl e, (denials, s))
         | Inr (r, payload, _) \<Rightarrow>
             (Inr (finish_tool_call c r payload),
              (if xe_tracked env \<and> tres_error_kind r = Some GuardDenied then snd (record_denial denials)
               else denials, s)))"

definition guard_limit_message :: string where
  "guard_limit_message =
     ''[runtime_guard]: All Tool execution is stopped for this run because the security-guard denial limit ('' @
     show_nat GUARD_DENIAL_LIMIT @
     '') was reached. Do not retry or request another Tool; report what was blocked to the user.''"

definition reject_after_guard_limit :: "'w executor_env \<Rightarrow> json llm_tool_call \<Rightarrow> executed_call" where
  "reject_after_guard_limit env c =
     (let r = error_with_kind GuardDenied guard_limit_message
      in finish_tool_call c r (format_tool_result (xe_render env) c r))"

section \<open>The phase\<close>

definition read_only_outcome_of ::
  "'w executor_env \<Rightarrow> string \<Rightarrow> database \<times> 'w \<Rightarrow> executed_call \<Rightarrow> read_only_tool_outcome" where
  "read_only_outcome_of env mid s out =
     (let c = ec_tool_call out; r = ec_result out
      in \<lparr>rot_turn_id = tx_turn_id (xe_context env), rot_chat_id = tx_chat_id (xe_context env),
          rot_message_id = mid, rot_tool_call_id = ltc_id c, rot_tool_name = ltc_name c,
          rot_tool_input = call_tool_input env c s, rot_input_hash = call_input_hash env c,
          rot_tool_output = (if tres_is_error r then None else Some (ec_payload out)),
          rot_succeeded = (\<not> tres_is_error r),
          rot_error_kind = map_option as_ledger_str (tres_error_kind r),
          rot_error_message = (if tres_is_error r then Some (tres_content r) else None)\<rparr>)"

definition record_read_only_block ::
  "'w executor_env \<Rightarrow> string \<Rightarrow> executed_call list \<Rightarrow> database \<times> 'w \<Rightarrow> storage_error + database" where
  "record_read_only_block env mid outcomes s =
     (let records = map (read_only_outcome_of env mid s)
            (filter (\<lambda>out. ltc_invalid_arguments (ec_tool_call out) = None) outcomes)
      in if records = [] then Inr (fst s)
         else map_sum id snd (record_read_only_tool_outcomes (xe_now env) records (fst s)))"

fun execute_block ::
  "'w executor_env \<Rightarrow> string \<Rightarrow> json llm_tool_call list \<Rightarrow> 'w phase_state \<Rightarrow>
   (egopulse_error + executed_call list) \<times> 'w phase_state" where
  "execute_block env mid [] st = (Inr [], st)"
| "execute_block env mid (c # cs) st =
     (let (r, st) = execute_single_tool env mid True c st;
          (rs, st) = execute_block env mid cs st
      in (case r of Inl e \<Rightarrow> Inl e
          | Inr out \<Rightarrow> (case rs of Inl e \<Rightarrow> Inl e | Inr outs \<Rightarrow> Inr (out # outs)), st))"

function execute ::
  "'w executor_env \<Rightarrow> string \<Rightarrow> json llm_tool_call list \<Rightarrow> executed_call list \<Rightarrow> 'w phase_state \<Rightarrow>
   (egopulse_error + executed_call list) \<times> 'w phase_state" where
  "execute env mid [] outcomes st = (Inr outcomes, st)"
| "execute env mid (c # cs) outcomes st =
     (let read_only = (\<lambda>c. registry_is_read_only (xe_registry env) (ltc_name c)) in
      if xe_tracked env \<and> limit_reached (fst st)
      then execute env mid cs (outcomes @ [reject_after_guard_limit env c]) st
      else if read_only c
      then (case execute_block env mid (c # takeWhile read_only cs) st of
              (Inl e, st) \<Rightarrow> (Inl e, st)
            | (Inr outs, st) \<Rightarrow>
                (case record_read_only_block env mid outs (snd st) of
                   Inl e \<Rightarrow> (Inl (StorageFailure e), st)
                 | Inr db \<Rightarrow>
                     execute env mid (dropWhile read_only cs) (outcomes @ outs) (fst st, db, snd (snd st))))
      else (case execute_single_tool env mid False c st of
              (Inl e, st) \<Rightarrow> (Inl e, st)
            | (Inr out, st) \<Rightarrow> execute env mid cs (outcomes @ [out]) st))"
  by pat_completeness auto

termination
  by (relation "measure (\<lambda>(_, _, cs, _). length cs)") (auto simp: le_imp_less_Suc length_dropWhile_le)

section \<open>The result phase\<close>

record tool_result_phase =
  trp_tool_messages :: "json llm_message list"
  trp_tool_result_preview :: string

definition summarize_tool_result_messages ::
  "(string \<Rightarrow> string \<Rightarrow> string option) \<Rightarrow> (json \<Rightarrow> string) \<Rightarrow> json llm_message list \<Rightarrow> string" where
  "summarize_tool_result_messages field render ms =
     truncate_by_chars (join_with [LF] (map (message_to_text field render) ms)) MAX_TOOL_RESULT_TEXT_CHARS"

text \<open>The string field of a payload that parses.\<close>

definition payload_field :: "(string \<Rightarrow> json option) \<Rightarrow> string \<Rightarrow> string \<Rightarrow> string option" where
  "payload_field parse payload k = Option.bind (Option.bind (parse payload) (json_get k)) json_as_str"

definition build_tool_result_phase :: "'w executor_env \<Rightarrow> executed_call list \<Rightarrow> tool_result_phase" where
  "build_tool_result_phase env outcomes =
     (let ms = map ec_message outcomes
      in \<lparr>trp_tool_messages = ms,
          trp_tool_result_preview =
            summarize_tool_result_messages (payload_field (xe_parse env)) (xe_render env) ms\<rparr>)"

end
