(* ===== verification/Tool_Replay.thy ===== *)
theory Tool_Replay
  imports Tool_Executor
begin

text \<open>
  What a tool phase guarantees: every call of the model is answered, in order, by a message under
  its id; and a phase that was carried out runs none of its side-effecting tools again, whatever the
  ledger does in between and whenever the same calls come back, as after a crash and recovery.
\<close>

section \<open>Every call is answered\<close>

definition answers :: "'w executor_env \<Rightarrow> json llm_tool_call \<Rightarrow> executed_call \<Rightarrow> bool" where
  "answers env c out =
     (ec_tool_call out = c \<and> lm_role (ec_message out) = ''tool'' \<and>
      lm_tool_call_id (ec_message out) = Some (ltc_id c) \<and> lm_tool_calls (ec_message out) = [] \<and>
      tool_result_payload (ec_message out) = Some (ec_payload out))"

lemma finish_answers: "answers env c (finish_tool_call c r payload)"
  by (cases "tres_llm_content r")
    (simp_all add: answers_def finish_tool_call_def tool_result_payload_def tool_message_content_def
      List.map_filter_simps)

lemma reject_answers: "answers env c (reject_after_guard_limit env c)"
  by (simp add: reject_after_guard_limit_def Let_def finish_answers)

lemma execute_single_answers:
  "execute_single_tool env mid ro c st = (Inr out, st') \<Longrightarrow> answers env c out"
  by (auto simp: execute_single_tool_def Let_def finish_answers split: prod.splits sum.splits)

lemma execute_block_answers:
  "execute_block env mid cs st = (Inr outs, st') \<Longrightarrow> list_all2 (answers env) cs outs"
  by (induction cs arbitrary: st outs st')
    (auto simp: Let_def execute_single_answers split: prod.splits sum.splits)

lemma execute_answers:
  "execute env mid cs outcomes st = (Inr outs, st') \<Longrightarrow>
   \<exists>later. outs = outcomes @ later \<and> list_all2 (answers env) cs later"
proof (induction env mid cs outcomes st rule: execute.induct)
  case (2 env mid c cs outcomes st)
  let ?ro = "\<lambda>c. registry_is_read_only (xe_registry env) (ltc_name c)"
  consider (limit) "xe_tracked env \<and> limit_reached (fst st)"
    | (block) "\<not> (xe_tracked env \<and> limit_reached (fst st))" "?ro c"
    | (single) "\<not> (xe_tracked env \<and> limit_reached (fst st))" "\<not> ?ro c" by blast
  then show ?case
  proof cases
    case limit
    then obtain later where "outs = (outcomes @ [reject_after_guard_limit env c]) @ later"
      "list_all2 (answers env) cs later" using 2 by (auto simp: Let_def)
    then show ?thesis using reject_answers by auto
  next
    case block
    obtain bs st1 db where b: "execute_block env mid (c # takeWhile ?ro cs) st = (Inr bs, st1)"
      and rec: "record_read_only_block env mid bs (snd st1) = Inr db"
      and later: "execute env mid (dropWhile ?ro cs) (outcomes @ bs) (fst st1, db, snd (snd st1)) = (Inr outs, st')"
      using "2.prems" block
      by (simp add: Let_def del: execute_block.simps split: prod.splits sum.splits)
    then obtain later where "outs = (outcomes @ bs) @ later" "list_all2 (answers env) (dropWhile ?ro cs) later"
      using "2.IH"(2) [OF refl block b [symmetric] refl rec later] by auto
    then show ?thesis
      using list_all2_appendI [OF execute_block_answers [OF b]] by (intro exI [of _ "bs @ later"]) fastforce
  next
    case single
    obtain out st1 where s: "execute_single_tool env mid False c st = (Inr out, st1)"
      and later: "execute env mid cs (outcomes @ [out]) st1 = (Inr outs, st')"
      using "2.prems" single by (auto simp: Let_def split: prod.splits sum.splits)
    then obtain later where "outs = (outcomes @ [out]) @ later" "list_all2 (answers env) cs later"
      using "2.IH"(3) [OF refl single s [symmetric] refl later] by auto
    then show ?thesis using execute_single_answers [OF s] by auto
  qed
qed auto

section \<open>Spent slots\<close>

definition spent :: "string \<Rightarrow> database \<Rightarrow> string \<Rightarrow> bool" where
  "spent t db i = (case find_tool t i db of None \<Rightarrow> False | Some r \<Rightarrow> tool_row_state r \<noteq> ToolPending)"

lemma spent_progress: "ledger_progress db db' \<Longrightarrow> spent t db i \<Longrightarrow> spent t db' i"
  by (auto simp: spent_def ledger_progress_def tool_evolves_def split: option.splits)
    (metis option.inject option.distinct(1) tool_path_pending)+

lemma ledger_same:
  assumes "tool_calls db' = tool_calls db"
  shows "ledger_inv db' = ledger_inv db" "find_tool t i db' = find_tool t i db"
    "ledger_inv db \<Longrightarrow> ledger_progress db db'"
proof -
  show inv: "ledger_inv db' = ledger_inv db" by (simp add: ledger_inv_def assms)
  have find: "find_tool t i db' = find_tool t i db" for t i by (simp add: find_tool_def assms)
  then show "find_tool t i db' = find_tool t i db" .
  show "ledger_inv db \<Longrightarrow> ledger_progress db db'" using inv find by (simp add: ledger_progress_def)
qed

lemma claim_spends:
  assumes inv: "ledger_inv db" and ok: "claim_tool_execution now p db = Inr (out, db')"
  shows "spent (clp_turn_id p) db' (clp_tool_call_id p)"
    "out = Acquired \<Longrightarrow> \<not> spent (clp_turn_id p) db (clp_tool_call_id p)"
proof -
  let ?t = "clp_turn_id p" and ?i = "clp_tool_call_id p"
  show "spent ?t db' ?i"
  proof (cases "out = Acquired")
    case True
    then show ?thesis using claim_acquired(2) [OF inv] ok by (fastforce simp: spent_def)
  next
    case False
    then have same: "db' = db" using claim_not_acquired [OF inv ok] by blast
    show ?thesis
    proof (cases "find_tool ?t ?i db")
      case None
      with ok False show ?thesis by (auto simp: claim_tool_execution_def claim_locked_def res_simps)
    next
      case (Some r)
      show ?thesis
        using ok False unfolding claim_existing [OF Some ledger_row_state [OF inv Some]]
        by (cases "tool_row_state r") (auto simp: spent_def same Some Let_def split: if_splits)
    qed
  qed
  show "out = Acquired \<Longrightarrow> \<not> spent ?t db ?i"
    using claim_acquired(3) [OF inv] ok by (auto simp: spent_def split: option.splits)
qed

text \<open>The ledger operations change nothing but the ledger.\<close>

lemma only_ledger_update: "\<exists>tc. update_tool t i f db = db\<lparr>tool_calls := tc\<rparr>"
  by (auto simp: update_tool_def)

lemma claim_only_ledger:
  assumes inv: "ledger_inv db" and ok: "claim_tool_execution now p db = Inr (out, db')"
  shows "\<exists>tc. db' = db\<lparr>tool_calls := tc\<rparr>"
proof (cases "find_tool (clp_turn_id p) (clp_tool_call_id p) db")
  case None
  with ok show ?thesis
    by (auto simp: claim_tool_execution_def claim_locked_def res_simps insert_tool_def
        advance_to_running_def update_tool_def split: if_splits)
next
  case (Some r)
  have "db' = db \<or> db' = advance_to_running now (clp_turn_id p) (clp_tool_call_id p) db"
    using ok unfolding claim_existing [OF Some ledger_row_state [OF inv Some]]
    by (cases "tool_row_state r") (auto simp: Let_def split: if_splits)
  then show ?thesis
    by (auto simp: advance_to_running_def update_tool_def intro: exI [of _ "tool_calls db"])
qed

lemma record_only_ledger:
  "record_tool_success now t i txt db = Inr (u, db') \<Longrightarrow> \<exists>tc. db' = db\<lparr>tool_calls := tc\<rparr>"
  "record_tool_failure now t i k m db = Inr (u, db') \<Longrightarrow> \<exists>tc. db' = db\<lparr>tool_calls := tc\<rparr>"
  by (auto simp: record_tool_success_def record_tool_failure_def res_simps update_tool_def)

lemma read_only_outcome_only_ledger:
  "record_read_only_outcome now out db = Inr db' \<Longrightarrow> \<exists>tc. db' = db\<lparr>tool_calls := tc\<rparr>"
  by (auto simp: record_read_only_outcome_def insert_tool_def Let_def
      split: option.splits if_splits intro: exI [of _ "tool_calls db"])

lemma read_only_outcomes_only_ledger:
  assumes "record_read_only_tool_outcomes now outs db = Inr (u, db')"
  shows "\<exists>tc. db' = db\<lparr>tool_calls := tc\<rparr>"
proof -
  have "rfold (record_read_only_outcome now) outs db = Inr db' \<Longrightarrow> \<exists>tc. db' = db\<lparr>tool_calls := tc\<rparr>"
  proof (induction outs arbitrary: db)
    case Nil
    then show ?case by (auto intro: exI [of _ "tool_calls db"])
  next
    case (Cons out outs)
    then show ?case by (fastforce simp: res_simps dest: read_only_outcome_only_ledger)
  qed
  then show ?thesis using assms by (auto simp: record_read_only_tool_outcomes_def res_simps)
qed

section \<open>Tools that keep to their declarations\<close>

text \<open>
  \<open>side\<close> is what a tool may change outside the ledger. No tool writes to the ledger; preparing a
  call and running a tool declared read-only change nothing of \<open>side\<close>.
\<close>

definition well_behaved :: "(database \<times> 'w) tool_registry \<Rightarrow> (database \<times> 'w \<Rightarrow> 'e) \<Rightarrow> bool" where
  "well_behaved rg side =
     ((\<forall>name ctx s. tool_calls (fst (prepare_execution_context rg name ctx s)) = tool_calls (fst s) \<and>
         side (prepare_execution_context rg name ctx s) = side s) \<and>
      (\<forall>name input ctx prepared s.
         tool_calls (fst (snd (execute_inner rg name input ctx prepared s))) = tool_calls (fst s)) \<and>
      (\<forall>name input ctx s. registry_is_read_only rg name \<longrightarrow>
         side (snd (execute_inner rg name input ctx False s)) = side s) \<and>
      (\<forall>db w tc. side (db\<lparr>tool_calls := tc\<rparr>, w) = side (db, w)))"

lemma well_behaved_prepare:
  "well_behaved rg side \<Longrightarrow> tool_calls (fst (prepare_execution_context rg name ctx s)) = tool_calls (fst s)"
  "well_behaved rg side \<Longrightarrow> side (prepare_execution_context rg name ctx s) = side s"
  unfolding well_behaved_def by blast+

lemma well_behaved_execute:
  "well_behaved rg side \<Longrightarrow> execute_inner rg name input ctx prepared s = (r, s') \<Longrightarrow>
   tool_calls (fst s') = tool_calls (fst s)"
  "well_behaved rg side \<Longrightarrow> registry_is_read_only rg name \<Longrightarrow>
   execute_inner rg name input ctx False s = (r, s') \<Longrightarrow> side s' = side s"
  unfolding well_behaved_def by (metis snd_conv)+

lemma well_behaved_ledger: "well_behaved rg side \<Longrightarrow> side (db\<lparr>tool_calls := tc\<rparr>, w) = side (db, w)"
  by (simp add: well_behaved_def)

text \<open>
  What a step of a phase guarantees: the ledger moves on, no denial is forgotten, and where \<open>quiet\<close>
  holds nothing outside the ledger changes.
\<close>

definition phase_step ::
  "(database \<times> 'w \<Rightarrow> 'e) \<Rightarrow> bool \<Rightarrow> database \<times> 'w \<Rightarrow> database \<times> 'w \<Rightarrow> bool" where
  "phase_step side quiet s s' = (ledger_progress (fst s) (fst s') \<and> (quiet \<longrightarrow> side s' = side s))"

lemma phase_step_refl: "ledger_inv (fst s) \<Longrightarrow> phase_step side quiet s s"
  by (simp add: phase_step_def ledger_progress_refl)

lemma phase_step_trans:
  "phase_step side quiet s s' \<Longrightarrow> phase_step side quiet s' s'' \<Longrightarrow> phase_step side quiet s s''"
  unfolding phase_step_def by (metis ledger_progress_trans)

lemma phase_step_inv: "phase_step side quiet s s' \<Longrightarrow> ledger_inv (fst s')"
  by (simp add: phase_step_def ledger_progress_def)

lemma claim_slot_step:
  assumes wb: "well_behaved (xe_registry env) side" and inv: "ledger_inv (fst s)"
    and run: "claim_tool_slot env mid c s = (claim, s')"
  shows "phase_step side True s s'"
    "claim = Inr out \<Longrightarrow> spent (tx_turn_id (xe_context env)) (fst s') (ltc_id c)"
    "claim = Inr Acquired \<Longrightarrow> \<not> spent (tx_turn_id (xe_context env)) (fst s) (ltc_id c)"
proof -
  define s0 where "s0 = prepare_execution_context (xe_registry env) (ltc_name c) (xe_context env) s"
  have calls: "tool_calls (fst s0) = tool_calls (fst s)" and side0: "side s0 = side s"
    unfolding s0_def using well_behaved_prepare [OF wb] by auto
  note inv0 = inv [folded ledger_same(1) [OF calls]]
  have spent0: "spent t (fst s0) i = spent t (fst s) i" for t i by (simp add: spent_def ledger_same(2) [OF calls])
  have step0: "phase_step side True s s0"
    using ledger_same(3) [OF calls inv] side0 by (simp add: phase_step_def)
  have "phase_step side True s s' \<and>
    (\<forall>out. claim = Inr out \<longrightarrow> spent (tx_turn_id (xe_context env)) (fst s') (ltc_id c)) \<and>
    (claim = Inr Acquired \<longrightarrow> \<not> spent (tx_turn_id (xe_context env)) (fst s) (ltc_id c))"
  proof (cases "claim_tool_execution (xe_now env) (claim_params_of env mid c s0) (fst s0)")
    case (Inl e)
    then show ?thesis using run step0 by (auto simp: claim_tool_slot_def Let_def s0_def)
  next
    case (Inr res)
    obtain out db where ok: "claim_tool_execution (xe_now env) (claim_params_of env mid c s0) (fst s0) = Inr (out, db)"
      using Inr by (cases res) auto
    have r: "claim = Inr out" "s' = (db, snd s0)"
      using run ok by (auto simp: claim_tool_slot_def Let_def s0_def)
    obtain tc where "db = (fst s0)\<lparr>tool_calls := tc\<rparr>" using claim_only_ledger [OF inv0 ok] by blast
    then have "side s' = side s0" using well_behaved_ledger [OF wb] r by (metis prod.collapse)
    then have "phase_step side True s0 s'" using claim_progress [OF inv0 ok] r by (simp add: phase_step_def)
    then show ?thesis
      using phase_step_trans [OF step0] claim_spends [OF inv0 ok] r
      by (auto simp: claim_params_of_def spent0)
  qed
  then show "phase_step side True s s'"
    "claim = Inr out \<Longrightarrow> spent (tx_turn_id (xe_context env)) (fst s') (ltc_id c)"
    "claim = Inr Acquired \<Longrightarrow> \<not> spent (tx_turn_id (xe_context env)) (fst s) (ltc_id c)" by auto
qed

lemma run_acquired_step:
  assumes wb: "well_behaved (xe_registry env) side" and inv: "ledger_inv (fst s)"
    and run: "run_acquired env c ro s = (r, s')"
    and ro: "ro \<Longrightarrow> registry_is_read_only (xe_registry env) (ltc_name c)"
  shows "phase_step side ro s s'"
proof -
  let ?ctx = "(xe_context env)\<lparr>tx_tool_call_id := ltc_id c\<rparr>"
  obtain res s1 where ex: "execute_inner (xe_registry env) (ltc_name c) (ltc_arguments c) ?ctx (\<not> ro) s = (res, s1)"
    by (rule prod.exhaust)
  have calls: "tool_calls (fst s1) = tool_calls (fst s)" using well_behaved_execute(1) [OF wb ex] .
  note inv1 = inv [folded ledger_same(1) [OF calls]]
  have "side s1 = side s" if "ro"
    using ex that by (intro well_behaved_execute(2) [OF wb ro [OF that]]) simp
  then have step1: "phase_step side ro s s1" using ledger_same(3) [OF calls inv] by (simp add: phase_step_def)
  show ?thesis
  proof (cases "ro \<or> (\<exists>e. record_tool_outcome env c res (format_tool_result (xe_render env) c res) (fst s1) = Inl e)")
    case True
    then have "s' = s1"
      using run ex by (auto simp: run_acquired_def Let_def registry_execute_def registry_execute_prepared_def split: if_splits)
    then show ?thesis using step1 by simp
  next
    case False
    then obtain u db where ok: "record_tool_outcome env c res (format_tool_result (xe_render env) c res) (fst s1) = Inr (u, db)"
      by (cases "record_tool_outcome env c res (format_tool_result (xe_render env) c res) (fst s1)") auto
    then have "ledger_progress (fst s1) db"
      using record_success_ok(1) [OF inv1] record_failure_progress [OF inv1]
      by (auto simp: record_tool_outcome_def split: if_splits)
    moreover have "s' = (db, snd s1)"
      using run ex ok False by (auto simp: run_acquired_def Let_def registry_execute_prepared_def)
    ultimately show ?thesis using False step1 ledger_progress_trans by (auto simp: phase_step_def)
  qed
qed

text \<open>One call: a side-effecting call whose slot is spent does not run.\<close>

lemma execute_single_step:
  assumes wb: "well_behaved (xe_registry env) side" and inv: "ledger_inv (fst s)"
    and run: "execute_single_tool env mid ro c (n, s) = (r, (n', s'))"
    and ro: "ro = registry_is_read_only (xe_registry env) (ltc_name c)"
  shows "phase_step side (ro \<or> ltc_invalid_arguments c \<noteq> None \<or> spent (tx_turn_id (xe_context env)) (fst s) (ltc_id c)) s s'"
    "n \<le> n'"
    "r = Inr out \<Longrightarrow> ro \<or> ltc_invalid_arguments c \<noteq> None \<or> spent (tx_turn_id (xe_context env)) (fst s') (ltc_id c)"
proof -
  let ?T = "tx_turn_id (xe_context env)"
  show "n \<le> n'" using run
    by (auto simp: execute_single_tool_def record_denial_def Let_def split: prod.splits sum.splits if_splits)
  have "phase_step side (ro \<or> ltc_invalid_arguments c \<noteq> None \<or> spent ?T (fst s) (ltc_id c)) s s' \<and>
    (r = Inr out \<longrightarrow> ro \<or> ltc_invalid_arguments c \<noteq> None \<or> spent ?T (fst s') (ltc_id c))"
  proof (cases "ltc_invalid_arguments c")
    case (Some e)
    then have "s' = s" using run by (auto simp: execute_single_tool_def Let_def)
    then show ?thesis using Some phase_step_refl [OF inv] by simp
  next
    case None
    obtain out0 where call: "run_claimed_tool env mid c ro s = (out0, s')"
      and out0: "r = Inr out \<Longrightarrow> \<exists>x. out0 = Inr x"
      using run None by (auto simp: execute_single_tool_def Let_def split: prod.splits sum.splits)
    show ?thesis
    proof (cases ro)
      case True
      then have "run_acquired env c ro s = (out0, s')" using call by (simp add: run_claimed_tool_def)
      then show ?thesis using run_acquired_step [OF wb inv _ ] ro True by (auto simp: phase_step_def)
    next
      case False
      obtain claim s1 where slot: "claim_tool_slot env mid c s = (claim, s1)" by (rule prod.exhaust)
      note step1 = claim_slot_step(1) [OF wb inv slot]
      show ?thesis
      proof (cases "claim = Inr Acquired")
        case True
        then have "run_acquired env c ro s1 = (out0, s')" using call slot False by (simp add: run_claimed_tool_def)
        then have "phase_step side ro s1 s'"
          using run_acquired_step [OF wb phase_step_inv [OF step1]] ro by blast
        then show ?thesis
          using step1 claim_slot_step(2,3) [OF wb inv slot] True False None
          by (auto simp: phase_step_def intro: ledger_progress_trans spent_progress)
      next
        case False
        then have "s' = s1" "(\<exists>x. claim = Inr x) \<or> (\<exists>e. out0 = Inl e)"
          using call slot \<open>\<not> ro\<close> by (auto simp: run_claimed_tool_def Let_def split: sum.splits claim_outcome.splits)
        then show ?thesis
          using step1 claim_slot_step(2) [OF wb inv slot] out0 by (auto simp: phase_step_def)
      qed
    qed
  qed
  then show "phase_step side (ro \<or> ltc_invalid_arguments c \<noteq> None \<or> spent ?T (fst s) (ltc_id c)) s s'"
    "r = Inr out \<Longrightarrow> ro \<or> ltc_invalid_arguments c \<noteq> None \<or> spent ?T (fst s') (ltc_id c)" by auto
qed

section \<open>The phase\<close>

lemma record_block_step:
  assumes wb: "well_behaved (xe_registry env) side" and inv: "ledger_inv (fst s)"
    and ok: "record_read_only_block env mid outs s = Inr db"
  shows "phase_step side True s (db, snd s)"
proof (cases "db = fst s")
  case True
  then show ?thesis using phase_step_refl [OF inv] by simp
next
  case False
  define recs where "recs = map (read_only_outcome_of env mid s)
    (filter (\<lambda>out. ltc_invalid_arguments (ec_tool_call out) = None) outs)"
  have "map_sum id snd (record_read_only_tool_outcomes (xe_now env) recs (fst s)) = Inr db"
    using ok False by (auto simp: record_read_only_block_def Let_def recs_def split: if_splits)
  then have rec: "record_read_only_tool_outcomes (xe_now env) recs (fst s) = Inr ((), db)"
    by (cases "record_read_only_tool_outcomes (xe_now env) recs (fst s)") auto
  obtain tc where "db = (fst s)\<lparr>tool_calls := tc\<rparr>" using read_only_outcomes_only_ledger [OF rec] by blast
  then have "side (db, snd s) = side s" using well_behaved_ledger [OF wb] by (metis prod.collapse)
  then show ?thesis using record_read_only_outcomes_progress [OF inv rec] by (simp add: phase_step_def)
qed

lemma execute_block_step:
  assumes wb: "well_behaved (xe_registry env) side"
  shows "ledger_inv (fst (snd st)) \<Longrightarrow>
    list_all (\<lambda>c. registry_is_read_only (xe_registry env) (ltc_name c)) cs \<Longrightarrow>
    execute_block env mid cs st = (r, st') \<Longrightarrow>
    phase_step side True (snd st) (snd st') \<and> fst st \<le> fst st'"
proof (induction cs arbitrary: st r)
  case Nil
  then show ?case by (auto simp: phase_step_refl)
next
  case (Cons c cs)
  obtain r1 n1 s1 where single: "execute_single_tool env mid True c (fst st, snd st) = (r1, (n1, s1))"
    by (metis prod.exhaust)
  obtain r2 where block: "execute_block env mid cs (n1, s1) = (r2, st')"
    using Cons.prems(3) single by (auto simp: Let_def split: prod.splits)
  note one = execute_single_step(1,2) [OF wb Cons.prems(1) single]
  have step: "phase_step side True (snd st) s1" "fst st \<le> n1" using one Cons.prems(2) by (simp_all add: phase_step_def)
  have "phase_step side True s1 (snd st') \<and> n1 \<le> fst st'"
    using Cons.IH [of "(n1, s1)" r2] phase_step_inv [OF step(1)] Cons.prems(2) block by simp
  then show ?case using step phase_step_trans [OF step(1)] by auto
qed

text \<open>The calls that cannot run a side-effecting tool.\<close>

definition settled_calls :: "'w executor_env \<Rightarrow> database \<Rightarrow> json llm_tool_call list \<Rightarrow> bool" where
  "settled_calls env db cs =
     list_all (\<lambda>c. registry_is_read_only (xe_registry env) (ltc_name c) \<or> ltc_invalid_arguments c \<noteq> None \<or>
       spent (tx_turn_id (xe_context env)) db (ltc_id c)) cs"

lemma settled_calls_progress: "ledger_progress db db' \<Longrightarrow> settled_calls env db cs \<Longrightarrow> settled_calls env db' cs"
  unfolding settled_calls_def list_all_iff using spent_progress by blast

text \<open>A step followed by the rest of the phase.\<close>

lemma phase_step_then:
  assumes "phase_step side quiet s s1" "phase_step side (settled_calls env (fst s1) cs) s1 s2"
    and "settled \<Longrightarrow> quiet \<and> settled_calls env (fst s) cs"
  shows "phase_step side settled s s2"
  using assms settled_calls_progress ledger_progress_trans unfolding phase_step_def by metis

lemma execute_step:
  assumes wb: "well_behaved (xe_registry env) side"
  shows "ledger_inv (fst (snd st)) \<Longrightarrow> execute env mid cs outcomes st = (r, st') \<Longrightarrow>
    phase_step side (settled_calls env (fst (snd st)) cs) (snd st) (snd st') \<and> fst st \<le> fst st' \<and>
    (isl r \<or> (xe_tracked env \<and> limit_reached (fst st')) \<or> settled_calls env (fst (snd st')) cs)"
  using wb
proof (induction env mid cs outcomes st rule: execute.induct)
  case (1 env mid outcomes st)
  then show ?case by (auto simp: phase_step_refl settled_calls_def)
next
  case (2 env mid c cs outcomes st)
  let ?ro = "\<lambda>c. registry_is_read_only (xe_registry env) (ltc_name c)"
  consider (limit) "xe_tracked env \<and> limit_reached (fst st)"
    | (block) "\<not> (xe_tracked env \<and> limit_reached (fst st))" "?ro c"
    | (single) "\<not> (xe_tracked env \<and> limit_reached (fst st))" "\<not> ?ro c" by blast
  then show ?case
  proof cases
    case limit
    then have "execute env mid cs (outcomes @ [reject_after_guard_limit env c]) st = (r, st')"
      using 2(5) by (simp add: Let_def)
    from 2(1) [OF refl limit 2(4) this 2(6)] limit show ?thesis
      by (auto simp: phase_step_def settled_calls_def limit_reached_def)
  next
    case block
    obtain rb st1 where b: "execute_block env mid (c # takeWhile ?ro cs) st = (rb, st1)" by (rule prod.exhaust)
    have bl: "phase_step side True (snd st) (snd st1)" "fst st \<le> fst st1"
      using execute_block_step [OF 2(6,4) _ b] block(2) by (auto simp: list_all_iff dest: set_takeWhileD)
    show ?thesis
    proof (cases "\<exists>outs db. rb = Inr outs \<and> record_read_only_block env mid outs (snd st1) = Inr db")
      case True
      then obtain outs db where rb: "rb = Inr outs" and rec: "record_read_only_block env mid outs (snd st1) = Inr db" by blast
      let ?st2 = "(fst st1, db, snd (snd st1))"
      have step: "phase_step side True (snd st) (snd ?st2)"
        using phase_step_trans [OF bl(1) record_block_step [OF 2(6) phase_step_inv [OF bl(1)] rec]] by simp
      have run: "execute env mid (dropWhile ?ro cs) (outcomes @ outs) ?st2 = (r, st')"
        using 2(5) block b rb rec by (simp add: Let_def del: execute_block.simps)
      have rest: "settled_calls env db' (c # cs) = settled_calls env db' (dropWhile ?ro cs)" for db'
      proof -
        have "settled_calls env db' cs = settled_calls env db' (takeWhile ?ro cs @ dropWhile ?ro cs)" by simp
        also have "\<dots> = settled_calls env db' (dropWhile ?ro cs)"
          unfolding settled_calls_def list_all_append by (auto simp: list_all_iff dest: set_takeWhileD)
        finally show ?thesis using block(2) by (simp add: settled_calls_def)
      qed
      from 2(2) [OF refl block b [symmetric] rb rec _ run 2(6)] phase_step_inv [OF step]
      have "phase_step side (settled_calls env (fst (snd ?st2)) (dropWhile ?ro cs)) (snd ?st2) (snd st') \<and>
        fst ?st2 \<le> fst st' \<and>
        (isl r \<or> (xe_tracked env \<and> limit_reached (fst st')) \<or> settled_calls env (fst (snd st')) (dropWhile ?ro cs))"
        by simp
      then show ?thesis
        using phase_step_then [OF step, of env "dropWhile ?ro cs" "snd st'"] bl(2) by (simp add: rest)
    next
      case False
      then have "st' = st1" "isl r"
        using 2(5) block b by (auto simp: Let_def simp del: execute_block.simps split: sum.splits)
      then show ?thesis using bl by (simp add: phase_step_def)
    qed
  next
    case single
    obtain rs n1 s1 where s: "execute_single_tool env mid False c (fst st, snd st) = (rs, (n1, s1))"
      by (metis prod.exhaust)
    note one = execute_single_step [OF 2(6,4) s single(2) [folded eq_False, symmetric]]
    show ?thesis
    proof (cases rs)
      case (Inl e)
      then have "st' = (n1, s1)" "isl r" using 2(5) single s by (auto simp: Let_def)
      then show ?thesis using one(1,2) single(2) by (auto simp: phase_step_def settled_calls_def)
    next
      case (Inr out)
      then have run: "execute env mid cs (outcomes @ [out]) (n1, s1) = (r, st')"
        using 2(5) single s by (simp add: Let_def)
      from 2(3) [OF refl single _ Inr _ run 2(6)] s phase_step_inv [OF one(1)]
      have later: "phase_step side (settled_calls env (fst s1) cs) s1 (snd st') \<and> n1 \<le> fst st' \<and>
        (isl r \<or> (xe_tracked env \<and> limit_reached (fst st')) \<or> settled_calls env (fst (snd st')) cs)" by simp
      then have "ledger_progress (fst s1) (fst (snd st'))" by (simp add: phase_step_def)
      then have "settled_calls env (fst (snd st')) [c]"
        using settled_calls_progress [of "fst s1" _ env "[c]"] one(3) [OF Inr] by (simp add: settled_calls_def)
      moreover have "phase_step side (settled_calls env (fst (snd st)) (c # cs)) (snd st) (snd st')"
        by (rule phase_step_then [OF one(1) later [THEN conjunct1]]) (auto simp: settled_calls_def single(2))
      moreover have "settled_calls env db (c # cs) = (settled_calls env db [c] \<and> settled_calls env db cs)" for db
        by (simp add: settled_calls_def)
      ultimately show ?thesis using later one(2) by auto
    qed
  qed
qed

section \<open>Properties\<close>

text \<open>
  C22: A tool phase that ends without a storage error answers every call of the model, in the
  order of the calls: the n-th outcome is that of the n-th call, and its message has the role
  \<open>tool\<close>, the id of the call, no calls of its own and the payload as its text, whether the call
  ran, was reused from the ledger, was blocked, had arguments that are not JSON, or was refused
  after the denial limit. The result phase stored in the session consists of these messages.
\<close>

theorem tool_calls_answered:
  assumes "execute env mid calls [] st = (Inr outs, st')"
  shows "list_all2 (\<lambda>c out. ec_tool_call out = c \<and> lm_role (ec_message out) = ''tool'' \<and>
      lm_tool_call_id (ec_message out) = Some (ltc_id c) \<and> lm_tool_calls (ec_message out) = [] \<and>
      tool_result_payload (ec_message out) = Some (ec_payload out)) calls outs \<and>
    map lm_tool_call_id (trp_tool_messages (build_tool_result_phase env outs)) = map (Some \<circ> ltc_id) calls"
proof -
  have all: "list_all2 (answers env) calls outs" using execute_answers [OF assms] by simp
  then have "map (lm_tool_call_id \<circ> ec_message) outs = map (Some \<circ> ltc_id) calls"
    by (induction rule: list_all2_induct) (simp_all add: answers_def)
  with all show ?thesis
    unfolding answers_def [abs_def] by (simp add: build_tool_result_phase_def Let_def)
qed


text \<open>A tool that counts its runs, and one that only reads.\<close>

definition sample_registry :: "(database \<times> nat) tool_registry" where
  "sample_registry =
     \<lparr>rg_tools =
        [default_tool ''send'' False (\<lambda>_ _ (db, w). (tool_success '''', (db, w + 1))),
         default_tool ''look'' True (\<lambda>_ _ s. (tool_success '''', s))],
      rg_mcp_manager = None, rg_config_secrets = [], rg_manager_secrets = None, rg_mcp_secrets = None,
      rg_dotenv_secrets = [], rg_skill_env = (\<lambda>_. []), rg_redaction = plain_redaction\<rparr>"

definition tool_sample_env :: "nat executor_env" where
  "tool_sample_env =
     \<lparr>xe_registry = sample_registry,
      xe_context = \<lparr>tx_chat_id = 7, tx_channel = ''web'', tx_surface_thread = ''s'', tx_chat_type = ''web'',
        tx_agent_id = ''a'', tx_channel_log_chat_id = None, tx_chain_depth = 0, tx_origin_id = ''o'',
        tx_turn_id = ''turn-1'', tx_tool_call_id = '''', tx_scope = Normal, tx_snapshot_secrets = None\<rparr>,
      xe_tracked = True, xe_render = (\<lambda>_. ''{}''), xe_parse = (\<lambda>_. None), xe_sha256 = (\<lambda>_. []),
      xe_now = ''t1''\<rparr>"

definition sample_calls :: "json llm_tool_call list" where
  "sample_calls =
     [\<lparr>ltc_id = ''c2'', ltc_name = ''send'', ltc_arguments = JNull, ltc_invalid_arguments = None\<rparr>]"

definition sample_first :: "(egopulse_error + executed_call list) \<times> nat phase_state" where
  "sample_first = execute tool_sample_env ''m1'' sample_calls [] (0, sample_db ToolsPending, 0)"

lemma redact_prefix_empty: "redact_prefix ea p [] [] = []"
  by (simp add: redact_prefix.simps)

lemma sanitized_empty: "sanitize_tool_result plain_redaction [] (tool_success []) = tool_success []"
proof -
  have "fold (\<lambda>p s. redact_prefix ea p [] s) ps [] = []" for ea ps
    by (induction ps) (simp_all add: redact_prefix_empty)
  then show ?thesis
    by (simp add: sanitize_tool_result_def sanitize_output_string_def redact_secret_patterns_def
        redact_known_secret_patterns_def redact_secrets_def longest_first_def plain_redaction_def tool_success_def)
qed

lemma sample_execute:
  "prepare_execution_context sample_registry name ctx s = s"
  "redaction_secrets sample_registry ctx s = (case tx_snapshot_secrets ctx of Some x \<Rightarrow> append_unique_secrets (append_unique_secrets x []) [] | None \<Rightarrow> [])"
  "registry_is_read_only sample_registry name = (name = ''look'')"
  "registry_idempotency_class sample_registry name = (if name = ''look'' then ReadOnly else NonIdempotent)"
  by (auto simp: sample_registry_def prepare_execution_context_def find_tool_impl_def default_tool_def
      redaction_secrets_def append_unique_secrets_def registry_is_read_only_def mcp_read_only_def
      registry_idempotency_class_def split: option.splits)

lemma sample_tool_run:
  "tx_snapshot_secrets ctx = None \<Longrightarrow> execute_inner sample_registry ''send'' input ctx prepared (db, w) = (tool_success [], (db, w + 1))"
  "tx_snapshot_secrets ctx = None \<Longrightarrow> execute_inner sample_registry ''look'' input ctx prepared s = (tool_success [], s)"
  by (simp_all add: execute_inner_def sample_execute)
     (simp_all add: sample_registry_def find_tool_impl_def default_tool_def sanitized_empty)

lemma sample_tools: "rg_mcp_manager sample_registry = None"
  "find_tool_impl sample_registry name =
     (if name = ''look'' then Some (default_tool ''look'' True (\<lambda>_ _ s. (tool_success '''', s)))
      else if name = ''send'' then Some (default_tool ''send'' False (\<lambda>_ _ (db, w). (tool_success '''', (db, w + 1))))
      else None)"
  by (simp_all add: sample_registry_def find_tool_impl_def default_tool_def)

lemma sample_well_behaved: "well_behaved sample_registry snd"
  unfolding well_behaved_def sample_execute(1,3)
  by (auto simp: execute_inner_def sample_tools default_tool_def split: prod.splits)

lemma fresh_claim:
  assumes "tool_calls db = []" "exists_row (\<lambda>c. ch_chat_id c = clp_chat_id p) (chats db)"
  shows "\<exists>db'. claim_tool_execution now p db = Inr (Acquired, db')"
  using assms by (simp add: claim_tool_execution_def claim_locked_def find_tool_def insert_tool_def claimed_row_def
      row_simps)

lemma running_recorded:
  assumes "ledger_inv db" "find_tool t i db = Some r" "tool_row_state r = ToolRunning"
  shows "\<exists>db'. record_tool_success now t i txt db = Inr ((), db')"
proof -
  have "tool_state_from_str (tl_state r) = Inr ToolRunning"
    unfolding ledger_row_state [OF assms(1,2)] assms(3) by (rule tool_state_from_str_display)
  then show ?thesis using assms(2) by (simp add: record_tool_success_def require_state_def map_err_def)
qed

abbreviation sample_call :: "json llm_tool_call" where
  "sample_call \<equiv> \<lparr>ltc_id = ''c2'', ltc_name = ''send'', ltc_arguments = JNull, ltc_invalid_arguments = None\<rparr>"

lemma tool_sample_env_simps:
  "xe_registry tool_sample_env = sample_registry" "tx_turn_id (xe_context tool_sample_env) = ''turn-1''"
  "tx_chat_id (xe_context tool_sample_env) = 7" "tx_snapshot_secrets (xe_context tool_sample_env) = None"
  "xe_now tool_sample_env = ''t1''"
  by (simp_all add: tool_sample_env_def)

lemma sample_ran:
  "\<exists>outs db'. execute tool_sample_env ''m1'' sample_calls [] (0, sample_db ToolsPending, 0) = (Inr outs, (0, db', 1))"
proof -
  let ?db = "sample_db ToolsPending"
  let ?p = "claim_params_of tool_sample_env ''m1'' sample_call (?db, 0)"
  have key: "clp_turn_id ?p = ''turn-1''" "clp_tool_call_id ?p = ''c2''" "clp_chat_id ?p = 7"
    by (simp_all add: claim_params_of_def tool_sample_env_simps)
  have "tool_calls ?db = []" "exists_row (\<lambda>c. ch_chat_id c = clp_chat_id ?p) (chats ?db)"
    unfolding key(3) by (simp_all add: sample_defs exists_row_def)
  then obtain db1 where claim: "claim_tool_execution ''t1'' ?p ?db = Inr (Acquired, db1)"
    using fresh_claim by blast
  note inv1 = claim_acquired(1) [OF sample_ledger_inv claim, unfolded ledger_progress_def, THEN conjunct1]
  obtain db2 where rec: "record_tool_success ''t1'' ''turn-1'' ''c2''
      (format_tool_result (xe_render tool_sample_env) sample_call (tool_success [])) db1 = Inr ((), db2)"
    using claim_acquired(2) [OF sample_ledger_inv claim] running_recorded [OF inv1] unfolding key by blast
  have slot: "claim_tool_slot tool_sample_env ''m1'' sample_call (?db, 0) = (Inr Acquired, (db1, 0))"
    using claim by (simp add: claim_tool_slot_def tool_sample_env_simps sample_execute(1))
  have acq: "run_acquired tool_sample_env sample_call False (db1, 0) =
      (Inr (tool_success [], format_tool_result (xe_render tool_sample_env) sample_call (tool_success []), True), (db2, 1))"
    using rec by (simp add: run_acquired_def registry_execute_prepared_def tool_sample_env_simps sample_tool_run
        record_tool_outcome_def tool_success_def)
  have "execute_single_tool tool_sample_env ''m1'' False sample_call (0, ?db, 0) =
      (Inr (finish_tool_call sample_call (tool_success [])
         (format_tool_result (xe_render tool_sample_env) sample_call (tool_success []))), (0, db2, 1))"
    by (simp add: execute_single_tool_def run_claimed_tool_def slot acq) (simp add: tool_success_def)
  then show ?thesis
    by (simp add: sample_calls_def tool_sample_env_simps sample_execute(3) limit_reached_def GUARD_DENIAL_LIMIT_def)
qed

theorem tool_calls_answered_witness:
  "\<exists>outs st'. execute tool_sample_env ''m1'' sample_calls [] (0, sample_db ToolsPending, 0) = (Inr outs, st') \<and>
     map lm_tool_call_id (trp_tool_messages (build_tool_result_phase tool_sample_env outs)) = [Some ''c2'']"
  using sample_ran tool_calls_answered [of tool_sample_env "''m1''" sample_calls "(0, sample_db ToolsPending, 0)"]
  by (fastforce simp: sample_calls_def)


end
