(* ===== verification/Turn_Settles.thy ===== *)
theory Turn_Settles
  imports Agent_Loop
begin

text \<open>
  Every run of a Turn ends it: the loop, the phases around it and the two ways to resume change the
  store only along its transition rule, and a run that fails records its failure, whatever the
  model, the tools and the other tasks of the process do.
\<close>

section \<open>What a tool phase does to the store\<close>

text \<open>A relation between the states before and after that every part of a phase keeps.\<close>

definition phase_relation ::
  "'w executor_env \<Rightarrow> (database \<times> 'w \<Rightarrow> database \<times> 'w \<Rightarrow> bool) \<Rightarrow> bool" where
  "phase_relation env R =
     ((\<forall>s. R s s) \<and> (\<forall>a b c. R a b \<longrightarrow> R b c \<longrightarrow> R a c) \<and>
      (\<forall>s tc. R s ((fst s)\<lparr>tool_calls := tc\<rparr>, snd s)) \<and>
      (\<forall>name ctx s. R s (prepare_execution_context (xe_registry env) name ctx s)) \<and>
      (\<forall>name input ctx prepared s. R s (snd (execute_inner (xe_registry env) name input ctx prepared s))))"

lemma phase_relationD:
  assumes "phase_relation env R"
  shows "R s s" "R a b \<Longrightarrow> R b c \<Longrightarrow> R a c" "R s ((fst s)\<lparr>tool_calls := tc\<rparr>, snd s)"
    "R s (prepare_execution_context (xe_registry env) name ctx s)"
    "R s (snd (execute_inner (xe_registry env) name input ctx prepared s))"
  using assms unfolding phase_relation_def by blast+

lemma claim_writes_ledger:
  "claim_tool_execution now p db = Inr (out, db') \<Longrightarrow> \<exists>tc. db' = db\<lparr>tool_calls := tc\<rparr>"
  by (auto simp: claim_tool_execution_def claim_locked_def res_simps insert_tool_def
        advance_to_running_def update_tool_def Let_def
      split: option.splits if_splits tool_state.splits intro: exI [of _ "tool_calls db"])
    (metis tool_state.exhaust)+

lemma record_writes_ledger:
  "record_tool_outcome env c res payload db = Inr (u, db') \<Longrightarrow> \<exists>tc. db' = db\<lparr>tool_calls := tc\<rparr>"
  using record_only_ledger by (auto simp: record_tool_outcome_def split: if_splits)

lemma claim_slot_relation:
  assumes R: "phase_relation env R"
  shows "R s (snd (claim_tool_slot env mid c s))"
proof -
  let ?s = "prepare_execution_context (xe_registry env) (ltc_name c) (xe_context env) s"
  have "R s ?s" by (rule phase_relationD(4) [OF R])
  moreover have "R ?s (db', snd ?s)" if "claim_tool_execution now p (fst ?s) = Inr (out, db')" for now p out db'
    using claim_writes_ledger [OF that] phase_relationD(3) [OF R, of ?s] by auto
  ultimately have "R s (db', snd ?s)" if "claim_tool_execution now p (fst ?s) = Inr (out, db')" for now p out db'
    using phase_relationD(2) [OF R] that by blast
  then show ?thesis using \<open>R s ?s\<close> by (auto simp: claim_tool_slot_def Let_def split: sum.split)
qed

lemma run_acquired_relation:
  assumes R: "phase_relation env R"
  shows "R s (snd (run_acquired env c ro s))"
proof -
  let ?ctx = "(xe_context env)\<lparr>tx_tool_call_id := ltc_id c\<rparr>"
  obtain res s1 where ex: "execute_inner (xe_registry env) (ltc_name c) (ltc_arguments c) ?ctx (\<not> ro) s = (res, s1)"
    by (rule prod.exhaust)
  have one: "R s s1" using phase_relationD(5) [OF R, of s] ex by (metis snd_conv)
  have "R s1 (db', snd s1)" if "record_tool_outcome env c res payload (fst s1) = Inr (u, db')" for payload u db'
    using record_writes_ledger [OF that] phase_relationD(3) [OF R, of s1] by auto
  then have "R s (db', snd s1)" if "record_tool_outcome env c res payload (fst s1) = Inr (u, db')" for payload u db'
    using phase_relationD(2) [OF R one] that by blast
  then show ?thesis using ex one
    by (auto simp: run_acquired_def Let_def registry_execute_def registry_execute_prepared_def
        split: sum.split if_splits)
qed

lemma execute_single_relation:
  assumes R: "phase_relation env R" and run: "execute_single_tool env mid ro c (n, s) = (r, (n', s'))"
  shows "R s s'"
proof -
  have "R s (snd (run_claimed_tool env mid c ro s))"
  proof (cases ro)
    case True
    then show ?thesis using run_acquired_relation [OF R] by (simp add: run_claimed_tool_def)
  next
    case False
    obtain claim s1 where slot: "claim_tool_slot env mid c s = (claim, s1)" by (rule prod.exhaust)
    have one: "R s s1" using claim_slot_relation [OF R, of s mid c] slot by simp
    have "R s (snd (run_acquired env c False s1))"
      using phase_relationD(2) [OF R one run_acquired_relation [OF R]] .
    then show ?thesis using False slot one
      by (auto simp: run_claimed_tool_def Let_def split: sum.split claim_outcome.split)
  qed
  moreover have "R s s" by (rule phase_relationD(1) [OF R])
  ultimately show ?thesis using run
    by (cases "run_claimed_tool env mid c ro s")
      (auto simp: execute_single_tool_def Let_def split: option.splits sum.splits prod.splits)
qed

lemma execute_block_relation:
  assumes R: "phase_relation env R"
  shows "execute_block env mid cs st = (r, st') \<Longrightarrow> R (snd st) (snd st')"
proof (induction cs arbitrary: st r)
  case Nil
  then show ?case using phase_relationD(1) [OF R] by auto
next
  case (Cons c cs)
  obtain r1 n1 s1 where single: "execute_single_tool env mid True c (fst st, snd st) = (r1, (n1, s1))"
    by (metis prod.exhaust)
  obtain r2 where block: "execute_block env mid cs (n1, s1) = (r2, st')"
    using Cons.prems single by (auto simp: Let_def split: prod.splits)
  show ?case
    using phase_relationD(2) [OF R execute_single_relation [OF R single]] Cons.IH [OF block] by simp
qed

lemma record_block_writes_ledger:
  assumes "record_read_only_block env mid outs s = Inr db"
  shows "\<exists>tc. db = (fst s)\<lparr>tool_calls := tc\<rparr>"
proof -
  define recs where "recs = map (read_only_outcome_of env mid s)
    (filter (\<lambda>out. ltc_invalid_arguments (ec_tool_call out) = None) outs)"
  show ?thesis
  proof (cases "recs = []")
    case True
    then have "db = fst s" using assms by (simp add: record_read_only_block_def recs_def)
    then show ?thesis by (intro exI [of _ "tool_calls db"]) simp
  next
    case False
    then have "map_sum id snd (record_read_only_tool_outcomes (xe_now env) recs (fst s)) = Inr db"
      using assms by (auto simp: record_read_only_block_def Let_def recs_def split: if_splits)
    then obtain u where "record_read_only_tool_outcomes (xe_now env) recs (fst s) = Inr (u, db)"
      by (cases "record_read_only_tool_outcomes (xe_now env) recs (fst s)") auto
    then show ?thesis by (rule read_only_outcomes_only_ledger)
  qed
qed

lemma execute_relation:
  assumes R: "phase_relation env R"
  shows "execute env mid cs outs st = (r, st') \<Longrightarrow> R (snd st) (snd st')"
  using R
proof (induction env mid cs outs st rule: execute.induct)
  case (1 env mid outs st)
  then show ?case using phase_relationD(1) [OF 1(2)] by simp
next
  case (2 env mid c cs outs st)
  note R = 2(5)
  let ?ro = "\<lambda>c. registry_is_read_only (xe_registry env) (ltc_name c)"
  consider (limit) "xe_tracked env \<and> limit_reached (fst st)"
    | (block) "\<not> (xe_tracked env \<and> limit_reached (fst st))" "?ro c"
    | (single) "\<not> (xe_tracked env \<and> limit_reached (fst st))" "\<not> ?ro c" by blast
  then show ?case
  proof cases
    case limit
    then have "execute env mid cs (outs @ [reject_after_guard_limit env c]) st = (r, st')"
      using 2(4) by (simp add: Let_def)
    from 2(1) [OF refl limit this R] show ?thesis .
  next
    case block
    obtain rb st1 where b: "execute_block env mid (c # takeWhile ?ro cs) st = (rb, st1)" by (rule prod.exhaust)
    note bl = execute_block_relation [OF R b]
    show ?thesis
    proof (cases "\<exists>outs db. rb = Inr outs \<and> record_read_only_block env mid outs (snd st1) = Inr db")
      case True
      then obtain outs' db where rb: "rb = Inr outs'" and rec: "record_read_only_block env mid outs' (snd st1) = Inr db"
        by blast
      let ?st2 = "(fst st1, db, snd (snd st1))"
      have run: "execute env mid (dropWhile ?ro cs) (outs @ outs') ?st2 = (r, st')"
        using 2(4) block b rb rec by (simp add: Let_def del: execute_block.simps)
      have "\<exists>tc. db = (fst (snd st1))\<lparr>tool_calls := tc\<rparr>"
        by (rule record_block_writes_ledger [OF rec])
      then have "R (snd st1) (snd ?st2)" using phase_relationD(3) [OF R, of "snd st1"] by auto
      then have "R (snd st) (snd ?st2)" using phase_relationD(2) [OF R bl] by blast
      with 2(2) [OF refl block b [symmetric] rb rec run R] show ?thesis
        using phase_relationD(2) [OF R] by blast
    next
      case False
      then have "st' = st1"
        using 2(4) block b by (auto simp: Let_def simp del: execute_block.simps split: sum.splits)
      then show ?thesis using bl by simp
    qed
  next
    case single
    obtain rs n1 s1 where s: "execute_single_tool env mid False c (fst st, snd st) = (rs, (n1, s1))"
      by (metis prod.exhaust)
    note one = execute_single_relation [OF R s]
    show ?thesis
    proof (cases rs)
      case (Inl e)
      then have "st' = (n1, s1)" using 2(4) single s by (auto simp: Let_def)
      then show ?thesis using one by simp
    next
      case (Inr out)
      then have run: "execute env mid cs (outs @ [out]) (n1, s1) = (r, st')"
        using 2(4) single s by (simp add: Let_def)
      from 2(3) [OF refl single _ Inr run R] s show ?thesis using phase_relationD(2) [OF R one] by simp
    qed
  qed
qed

section \<open>The loop keeps the store\<close>

text \<open>What is asked of the tools and of the other tasks: they use the store through its operations.\<close>

definition tools_keep_store :: "'x loop_env \<Rightarrow> bool" where
  "tools_keep_store env =
     ((\<forall>name ctx s. store_inv (fst s) \<longrightarrow>
         store_evolves (fst s) (fst (prepare_execution_context (le_registry env) name ctx s))) \<and>
      (\<forall>name input ctx prepared s. store_inv (fst s) \<longrightarrow>
         store_evolves (fst s) (fst (snd (execute_inner (le_registry env) name input ctx prepared s)))))"

definition loop_steady :: "'x loop_env \<Rightarrow> bool" where
  "loop_steady env = (env_steady env \<and> tools_keep_store env)"

lemma loop_steadyD: "loop_steady env \<Longrightarrow> env_steady env"
  by (simp add: loop_steady_def)

lemma tools_evolve:
  assumes "loop_steady env" "store_inv (fst s)"
  shows "store_evolves (fst s) (fst (prepare_execution_context (le_registry env) name ctx s))"
    "store_evolves (fst s) (fst (snd (execute_inner (le_registry env) name input ctx prepared s)))"
  using assms unfolding loop_steady_def tools_keep_store_def by blast+

lemma ledger_evolves: "store_inv db \<Longrightarrow> store_evolves db (db\<lparr>tool_calls := tc\<rparr>)"
  using chat_inv_cong [of "db\<lparr>tool_calls := tc\<rparr>" db] store_invD(2)
  by (intro chats_change_evolves) auto

lemma steady_execute_tools [steady]:
  assumes env: "loop_steady env"
  shows "steady (execute_tools env pr mid calls denials)"
proof (unfold steady_def, intro allI impI)
  fix s :: "'a turn_state" assume inv: "store_inv (fst s)"
  let ?s = "te_others env s"
  let ?xe = "executor_env_of env pr ?s"
  note o = others_evolve [OF loop_steadyD [OF env] inv]
  have "phase_relation ?xe (\<lambda>a b. store_inv (fst a) \<longrightarrow> store_evolves (fst a) (fst b))"
    unfolding phase_relation_def
  proof (intro conjI allI impI)
    fix a b c :: "'a turn_state"
    assume "store_inv (fst a) \<longrightarrow> store_evolves (fst a) (fst b)"
      "store_inv (fst b) \<longrightarrow> store_evolves (fst b) (fst c)" "store_inv (fst a)"
    then show "store_evolves (fst a) (fst c)" using store_evolves_trans store_evolves_inv by blast
  qed (simp_all add: store_evolves_refl ledger_evolves tools_evolve [OF env] executor_env_of_def)
  from execute_relation [OF this] store_evolves_inv [OF o]
  have "store_evolves (fst ?s) (fst (snd (snd (execute ?xe mid calls [] (denials, ?s)))))"
    by (metis prod.collapse snd_conv)
  then show "store_evolves (fst s) (fst (snd (execute_tools env pr mid calls denials s)))"
    using store_evolves_trans [OF o] by (simp add: execute_tools_def Let_def case_prod_beta)
qed

text \<open>The retries of an iteration change the world only through the retry hook.\<close>

lemma send_world: "send_model_step env d ms st = (r, st') \<Longrightarrow> is_world st' = is_world st"
  by (auto simp: send_model_step_def Let_def split: option.splits if_splits)

lemma send_empty_retry_world:
  assumes "send_model_step_with_empty_retry env d ms st = (r, st')"
  shows "is_world st' = is_world st"
proof -
  obtain r1 st1 where one: "send_model_step env d ms st = (r1, st1)" by (rule prod.exhaust)
  obtain r2 st2 where two: "send_model_step env d (empty_retry_messages ms (the r1))
      (st1\<lparr>is_empty_retry_attempted := True\<rparr>) = (r2, st2)" by (rule prod.exhaust)
  show ?thesis
    using assms one two send_world [OF one] send_world [OF two]
    by (auto simp: send_model_step_with_empty_retry_def Let_def split: option.splits if_splits)
qed

lemma retry_from_world:
  assumes "retry_from env d attempt ms st = (r, st')"
    and "P (is_world st)" and "\<And>w. P w \<Longrightarrow> P (snd (me_before_retry env w))"
  shows "P (is_world st')"
  using assms
proof (induction env d attempt ms st rule: retry_from.induct)
  case (1 env deadline attempt ms st)
  obtain outcome st1 where run: "send_model_step_with_empty_retry env deadline ms st = (outcome, st1)"
    by (rule prod.exhaust)
  have w1: "P (is_world st1)" using send_empty_retry_world [OF run] 1(3) by simp
  show ?case
  proof (cases "case outcome of Some r \<Rightarrow> r | None \<Rightarrow> Inl (LlmFailure DeadlineExceeded, ms)")
    case (Inr step)
    then show ?thesis using 1(2) run w1 by (simp add: retry_from.simps)
  next
    case (Inl failed)
    obtain e ms1 where failed: "failed = (e, ms1)" by (rule prod.exhaust)
    obtain millis world where hook: "me_before_retry env (is_world st1) = (millis, world)" by (rule prod.exhaust)
    have w2: "P world" using 1(4) [OF w1] hook by simp
    let ?backoff = "llm_retry_backoff (me_random_range env) attempt e"
    let ?st2 = "st1\<lparr>is_world := world,
      is_clock := is_clock st1 + min (millis + ?backoff) (deadline - is_clock st1)\<rparr>"
    let ?retry = "retryable_error e \<and> \<not> is_published st1 \<and>
      (case me_max_backoff env of None \<Rightarrow> True | Some limit \<Rightarrow> ?backoff \<le> limit) \<and>
      ?backoff < deadline - is_clock st1 \<and> attempt < MAX_LLM_RETRIES"
    have eq: "retry_from env deadline attempt ms st =
      (if \<not> ?retry then (Inl (e, is_published st1), st1)
       else if deadline - is_clock st1 < millis + ?backoff then (Inl (e, is_published st1), ?st2)
       else retry_from env deadline (attempt + 1) ms1 ?st2)"
      using run Inl failed hook by (subst retry_from.simps) (simp add: Let_def)
    show ?thesis
    proof (cases "?retry \<and> \<not> deadline - is_clock st1 < millis + ?backoff")
      case False
      then have "st' = st1 \<or> st' = ?st2" using eq 1(2) by (metis prod.inject)
      then show ?thesis using w1 w2 by auto
    next
      case True
      then have "retry_from env deadline (attempt + 1) ms1 ?st2 = (r, st')" using eq 1(2) by simp
      then show ?thesis
        using 1(1) [OF run [symmetric] refl Inl [unfolded failed] refl refl refl _ hook [symmetric] refl refl refl]
          True w2 1(4) by simp
    qed
  qed
qed

lemma run_model_evolves:
  assumes env: "env_steady env" and inv: "store_inv (fst s)"
    and run: "run_model env i iteration ms s = (r, s')"
  shows "store_evolves (fst s) (fst s')"
proof -
  let ?s = "te_others env s"
  note o = others_evolve [OF env inv]
  note inv1 = store_evolves_inv [OF o]
  obtain db where db: "run_with_retry (le_provider env ?s) (le_random_range env ?s) (te_clock env ?s 0)
      (le_hook_millis env) (le_started env ?s) i iteration (le_request_hash env ms) ms (fst ?s) = (r, db)"
    "fst s' = db"
    using run by (auto simp: run_model_def Let_def split: prod.splits)
  have "store_evolves (fst ?s) db"
  proof (cases "begin_turn_model_iteration (te_clock env ?s 0) i (int iteration) (le_request_hash env ms) (fst ?s)")
    case (Inl e)
    then show ?thesis using db store_evolves_refl [OF inv1] by (auto simp: run_with_retry_def)
  next
    case (Inr x)
    obtain advanced db1 where x: "x = (advanced, db1)" by (rule prod.exhaust)
    have one: "store_evolves (fst ?s) db1"
      using store_step_evolves [OF step_begin_model inv1] Inr x by blast
    let ?me = "\<lparr>me_provider = le_provider env ?s, me_publishes = True, me_max_backoff = None,
      me_before_retry = count_attempt (te_clock env ?s 0) i (le_hook_millis env),
      me_random_range = le_random_range env ?s\<rparr>"
    obtain r1 st where tr: "retry_transient_failures ?me ms (le_started env ?s) db1 = (r1, st)" by (rule prod.exhaust)
    have step: "store_evolves (fst ?s) (snd (me_before_retry ?me w))" if "store_evolves (fst ?s) w" for w
      using that store_evolves_trans [OF that store_step_evolves [OF step_retry_model store_evolves_inv [OF that]]]
      by (auto simp: count_attempt_def split: sum.split)
    have "store_evolves (fst ?s) (is_world st)"
      by (rule retry_from_world [OF tr [unfolded retry_transient_failures_def], where P = "store_evolves (fst ?s)"])
        (use one step in simp_all)
    then show ?thesis using db Inr x one tr by (auto simp: run_with_retry_def split: if_splits)
  qed
  then show ?thesis using db(2) store_evolves_trans [OF o] by simp
qed

lemma steady_phase_loop [steady]:
  assumes env: "loop_steady env"
  shows "steady (execute_tool_phase env pr ls phase mid)"
  unfolding execute_tool_phase_def Let_def using env loop_steadyD [OF env]
  by (auto intro!: steady split: prod.split)

lemma steady_compact_or_keep [steady]:
  assumes "env_steady env"
  shows "steady (compact_or_keep env c ms)"
proof (unfold steady_def, intro allI impI)
  fix s :: "'a turn_state" assume inv: "store_inv (fst s)"
  obtain r s1 where run: "te_compact env c ms s = (r, s1)" by (rule prod.exhaust)
  from steadyD [OF steady_compact [OF assms] run inv] run
  show "store_evolves (fst s) (fst (snd (compact_or_keep env c ms s)))"
    by (auto simp: compact_or_keep_def split: sum.split)
qed

lemma steady_compact_loop [steady]: "env_steady env \<Longrightarrow> steady (compact_loop env pr ls)"
  unfolding compact_loop_def by (intro steady)

lemma steady_act_on [steady]: "steady (act_on pr mid ls evaluated)"
  by (auto simp: act_on_def intro!: steady split: prod.split sum.split loop_action.split)

lemma steady_loop_step [steady]:
  assumes env: "loop_steady env"
  shows "steady (loop_step env pr mid ls step)"
  unfolding loop_step_def using env loop_steadyD [OF env]
  by (cases step) (auto intro!: steady)

lemma steady_run_loop [steady]:
  assumes env: "loop_steady env"
  shows "steady (run_loop env pr ctx n ls)"
proof -
  have "store_evolves (fst s) (fst s')" if "store_inv (fst s)" "run_loop env pr ctx n ls s = (r, s')" for s r s'
    using env that
  proof (induction env pr ctx n ls s rule: run_loop.induct)
    case (1 env pr ctx n ls s)
    note inv = 1(3) and run = 1(4) and env = loop_steadyD [OF 1(2)]
    show ?case
    proof (cases "MAX_TOOL_ITERATIONS < n")
      case True
      then show ?thesis using run store_evolves_refl [OF inv] by (simp add: run_loop.simps)
    next
      case False
      obtain ms ls1 where req: "request_messages_for_iteration ls n ctx = (ms, ls1)" by (rule prod.exhaust)
      let ?ms = "append_guard_denial_wrap ms (limit_reached (lp_denials ls1))"
      let ?mid = "assistant_message_id (prt_turn_id pr) n"
      obtain a s1 where model: "run_model env (prt_turn_id pr) n ?ms s = (a, s1)" by (rule prod.exhaust)
      note one = run_model_evolves [OF env inv model]
      note inv1 = store_evolves_inv [OF one]
      show ?thesis
      proof (cases a)
        case (Inl failed)
        obtain e published where f: "failed = (e, published)" by (rule prod.exhaust)
        have "store_evolves (fst s1) (fst (snd (mark_output_published env (prt_turn_id pr) s1)))"
          using steady_transitions(1) [OF env] inv1 unfolding steady_def by blast
        then show ?thesis using run False req model Inl f one store_evolves_trans [OF one]
          by (auto simp: run_loop.simps [of env] Let_def split: if_splits)
      next
        case (Inr step)
        obtain b s2 where step: "loop_step env pr ?mid ls1 step s1 = (b, s2)" by (rule prod.exhaust)
        note two = store_evolves_trans [OF one steadyD [OF steady_loop_step [OF 1(2)] step inv1]]
        show ?thesis
        proof (cases "\<exists>ls2. b = Inr (Inr ls2)")
          case True
          then obtain ls2 where b: "b = Inr (Inr ls2)" by blast
          have "run_loop env pr ctx (n + 1) ls2 s2 = (r, s')"
            using run False req model Inr step b by (simp add: run_loop.simps [of env pr ctx n] Let_def)
          from 1(1) [OF False refl req [symmetric] refl refl model [symmetric] Inr step [symmetric] b refl
              1(2) store_evolves_inv [OF two] this]
          show ?thesis using store_evolves_trans [OF two] by blast
        next
          case no: False
          then have "s' = s2"
            using run False req model Inr step
            by (auto simp: run_loop.simps [of env pr ctx n] Let_def split: sum.splits)
          then show ?thesis using two by simp
        qed
      qed
    qed
  qed
  then show ?thesis unfolding steady_def by (metis prod.collapse)
qed

section \<open>What the loop ends with\<close>

lemma evaluated_text:
  assumes "evaluate_end_turn lc raw reasoning attempted ms = (Inr (Done content reason), b) \<or>
    evaluate_malformed_response lc raw reasoning attempted ms = (Inr (Done content reason), b)"
  shows "content \<noteq> [] \<and> trim content = content"
  using assms by (auto simp: evaluate_end_turn_def evaluate_malformed_response_def Let_def split: if_splits)

lemma loop_step_result:
  assumes "loop_step env pr mid ls step s = (Inr (Inl result), s')"
  shows "alr_final_message_id result = mid \<and> alr_final_content result \<noteq> [] \<and>
    trim (alr_final_content result) = alr_final_content result"
  using assms evaluated_text
  by (cases step) (fastforce simp: loop_step_def act_on_def sbind_def sfail_def sreturn_def
      split: sum.splits prod.splits loop_action.splits)+

lemma run_loop_result:
  assumes "run_loop env pr ctx n ls s = (Inr result, s')"
  shows "(\<exists>k. n \<le> k \<and> k \<le> MAX_TOOL_ITERATIONS \<and>
      alr_final_message_id result = assistant_message_id (prt_turn_id pr) k) \<and>
    alr_final_content result \<noteq> [] \<and> trim (alr_final_content result) = alr_final_content result"
  using assms
proof (induction env pr ctx n ls s rule: run_loop.induct)
  case (1 env pr ctx n ls s)
  obtain ms ls1 where req: "request_messages_for_iteration ls n ctx = (ms, ls1)" by (rule prod.exhaust)
  let ?ms = "append_guard_denial_wrap ms (limit_reached (lp_denials ls1))"
  let ?mid = "assistant_message_id (prt_turn_id pr) n"
  obtain a s1 where model: "run_model env (prt_turn_id pr) n ?ms s = (a, s1)" by (rule prod.exhaust)
  have n: "\<not> MAX_TOOL_ITERATIONS < n" using 1(2) by (auto simp: run_loop.simps)
  then obtain step where a: "a = Inr step" using 1(2) req model
    by (cases a) (auto simp: run_loop.simps Let_def split: prod.splits)
  obtain b s2 where step: "loop_step env pr ?mid ls1 step s1 = (b, s2)" by (rule prod.exhaust)
  have run: "(case b of Inl e \<Rightarrow> (Inl e, s2) | Inr (Inl result) \<Rightarrow> (Inr result, s2)
      | Inr (Inr ls2) \<Rightarrow> run_loop env pr ctx (n + 1) ls2 s2) = (Inr result, s')"
    using 1(2) n req model a step by (simp add: run_loop.simps [of env pr ctx n] Let_def split: sum.splits)
  show ?case
  proof (cases b)
    case (Inl e)
    then show ?thesis using run by simp
  next
    case (Inr c)
    show ?thesis
    proof (cases c)
      case (Inl res)
      then have "result = res" using run Inr by simp
      then show ?thesis using loop_step_result [of env pr ?mid ls1 step s1 res s2] step Inr Inl n by auto
    next
      case (Inr ls2)
      from 1(1) [OF n refl req [symmetric] refl refl model [symmetric] a step [symmetric] \<open>b = Inr c\<close> Inr]
        run \<open>b = Inr c\<close> Inr
      show ?thesis using Suc_leD by (simp, blast)
    qed
  qed
qed

lemma store_phase_snapshot_stores:
  assumes inv: "store_inv (w_db w)"
    and run: "store_phase_snapshot env now m ms revision w = (Inr turn, w')"
  shows "\<exists>r \<in> set (messages (w_db w')). msg_id r = msg_id m \<and> msg_chat_id r = msg_chat_id m \<and>
    msg_content r = msg_content m"
proof -
  obtain json out db' where c: "commit_message_locked now m (Some json) revision (w_db w) = Inr (out, db')"
    "w_db w' = db'"
    using run by (auto simp: store_phase_snapshot_def store_message_with_session_def
        commit_conversation_message_def res_simps Let_def split: sum.splits prod.splits)
  show ?thesis
    unfolding c(2)
    by (rule commit_message_cases [OF store_invD(2) [OF inv] c(1)])
      (auto simp: row_simps find_message_def same_stored_message_def has_message_key_def dest!: find_row_Some)
qed

lemma persist_phase_messages_stores:
  fixes env :: "'j session_env"
  assumes inv: "store_inv (w_db w)"
    and o: "\<And>i v. store_inv (w_db v) \<Longrightarrow> store_evolves (w_db v) (w_db (others i v))"
    and run: "persist_phase_messages env clock others m phase ms revision w = (Inr turn, w')"
  shows "\<exists>r \<in> set (messages (w_db w')). msg_id r = msg_id m \<and> msg_chat_id r = msg_chat_id m \<and>
    msg_content r = msg_content m"
proof -
  obtain first w1 where f: "store_phase_snapshot env (clock 0) m ms revision w = (first, w1)"
    by (rule prod.exhaust)
  have "store_inv (w_db w1)"
    using store_evolves_inv [OF store_phase_snapshot_evolves [OF inv, of env "clock 0" m ms revision]] f by simp
  then have inv2: "store_inv (w_db (others 1 (others 0 w1)))" using o store_evolves_inv by blast
  consider "store_phase_snapshot env (clock 0) m ms revision w = (Inr turn, w')"
    | l :: "'j loaded_session" where "store_phase_snapshot env (clock 1) m (ls_messages l @ phase) (ls_session_revision l)
        (others 1 (others 0 w1)) = (Inr turn, w')"
    using run f by (auto simp: persist_phase_messages_def persisted_turn_or_retry_def Let_def
        split: sum.splits if_splits)
  then show ?thesis
    by cases (use store_phase_snapshot_stores inv inv2 in blast)+
qed

lemma yields_on_world:
  assumes env: "env_steady env"
    and f: "\<And>clock others w a w'. store_inv (w_db w) \<Longrightarrow>
      (\<And>i v. store_inv (w_db v) \<Longrightarrow> store_evolves (w_db v) (w_db (others i v))) \<Longrightarrow>
      f clock others w = (Inr a, w') \<Longrightarrow> P a (w_db w')"
  shows "yields (on_world env f) P"
proof (unfold yields_def, intro allI impI)
  fix s :: "'a turn_state" and a s'
  assume inv: "store_inv (fst s)" and run: "on_world env f s = (Inr a, s')"
  let ?s = "te_others env s"
  let ?others = "\<lambda>_ w. let s' = te_others env (w_db w, w_assets w, snd (snd ?s))
    in \<lparr>w_db = fst s', w_assets = fst (snd s')\<rparr>"
  let ?w = "\<lparr>w_db = fst ?s, w_assets = fst (snd ?s)\<rparr>"
  obtain r w' where fw: "f (te_clock env ?s) ?others ?w = (r, w')" by (rule prod.exhaust)
  then have r: "r = Inr a" "fst s' = w_db w'"
    using run by (auto simp: on_world_def Let_def map_err_def split: sum.splits)
  have "store_inv (w_db ?w)" using store_evolves_inv [OF others_evolve [OF env inv]] by simp
  moreover have "store_evolves (w_db v) (w_db (?others i v))" if "store_inv (w_db v)" for i v
    using others_evolve [OF env, of "(w_db v, w_assets v, snd (snd ?s))"] that by (simp add: Let_def)
  ultimately show "P a (fst s')" unfolding r(2) by (rule f [OF _ _ fw [unfolded r(1)]])
qed

text \<open>The final message is stored before the Turn is completed with it.\<close>

lemma persist_final_stores:
  assumes env: "env_steady env" and inv: "store_inv (fst s)"
    and run: "persist_final env c i fin ms revision content reasoning s = (Inr a, s')"
  shows "a = content \<and> (\<exists>r \<in> set (messages (fst s')). msg_id r = fin \<and> msg_chat_id r = c \<and> msg_content r = content)"
proof -
  let ?m = "(stored_message_assistant '''' (te_clock env s 0) c (sc_agent_id (te_context env)) content)
    \<lparr>msg_id := fin, msg_turn_id := Some i\<rparr>"
  let ?a = "(text_message ''assistant'' content)\<lparr>lm_reasoning_content := reasoning\<rparr>"
  have m: "msg_id ?m = fin" "msg_chat_id ?m = c" "msg_content ?m = content"
    by (simp_all add: stored_message_assistant_def stored_message_new_def)
  obtain p s1 where p: "persist_turn_phase env ?m [?a] (ms @ [?a]) revision s = (Inr p, s1)"
    using run by (auto simp: persist_final_def sbind_def Let_def split: sum.splits prod.splits)
  have "yields (persist_turn_phase env ?m [?a] (ms @ [?a]) revision) (\<lambda>_ db.
      \<exists>r \<in> set (messages db). msg_id r = msg_id ?m \<and> msg_chat_id r = msg_chat_id ?m \<and> msg_content r = msg_content ?m)"
    unfolding persist_turn_phase_def by (rule yields_on_world [OF env], rule persist_phase_messages_stores)
  from yieldsD [OF this inv p] m run p show ?thesis
    by (simp add: persist_final_def sbind_def Let_def sreturn_def)
qed

lemma complete_turn_names:
  assumes "complete_turn now i fin db = Inr (u, db')"
  shows "\<exists>t. find_turn i db' = Some t \<and> tr_final_message_id t = Some fin"
proof -
  from assms obtain s where s: "turn_status db i = Some s"
    and db': "db' = update_turn i (\<lambda>t. t\<lparr>tr_state := ''completed'',
      tr_final_message_id := Some fin, tr_finished_at := Some now, tr_updated_at := now,
      tr_error_kind := None, tr_error_message := None\<rparr>) db"
    by (auto simp: complete_turn_def res_simps read_state_iff split: if_splits)
  then show ?thesis by (auto simp: turn_status_Some_iff find_update_turn)
qed

lemma persist_result_completes:
  assumes env: "env_steady env" and inv: "store_inv (fst s)"
    and run: "persist_agent_loop_result env pr result s = (Inr text', s')"
  shows "text' = alr_final_content result \<and> turn_status (fst s') (prt_turn_id pr) = Some Completed \<and>
    (\<exists>t. find_turn (prt_turn_id pr) (fst s') = Some t \<and> tr_final_message_id t = Some (alr_final_message_id result)) \<and>
    (\<exists>db. store_evolves db (fst s') \<and> (\<exists>r \<in> set (messages db). msg_id r = alr_final_message_id result \<and>
       msg_content r = alr_final_content result))"
proof -
  let ?i = "prt_turn_id pr"
  obtain a s1 where final: "persist_final env (prt_chat_id pr) ?i (alr_final_message_id result) (alr_messages result)
      (alr_session_revision result) (alr_final_content result) (alr_reasoning_content result) s = (Inr a, s1)"
    using run by (auto simp: persist_agent_loop_result_def sbind_def split: sum.splits prod.splits)
  obtain u s2 where mark: "mark_output_published env ?i s1 = (Inr u, s2)"
    by (metis ignoring_def mark_output_published_def prod.collapse)
  obtain u' s3 where finished: "complete env ?i (alr_final_message_id result) s2 = (Inr u', s3)" "text' = a" "s' = s3"
    using run final mark
    by (auto simp: persist_agent_loop_result_def sbind_def sreturn_def split: sum.splits prod.splits)
  note one = steadyD [OF steady_conversation(1) [OF env] final inv]
  note inv1 = store_evolves_inv [OF one]
  note two = steadyD [OF steady_transitions(1) [OF env] mark inv1]
  note three = steadyD [OF steady_transitions(5) [OF env] finished(1) store_evolves_inv [OF two]]
  note later = store_evolves_trans [OF two three]
  let ?s = "te_others env s2"
  have o: "store_inv (fst ?s)"
    using store_evolves_inv [OF others_evolve [OF env store_evolves_inv [OF two]]] .
  obtain u'' where ok: "complete_turn (te_clock env ?s 0) ?i (alr_final_message_id result) (fst ?s) = Inr (u'', fst s3)"
    using finished(1) by (auto simp: complete_def db_call_def Let_def split: sum.splits prod.splits)
  show ?thesis
    using complete_turn_names [OF ok] persist_final_stores [OF env inv final] complete_turn_progress(2) [OF o ok] later finished(2,3) by blast
qed

section \<open>The Turn keeps the store\<close>

lemma chats_only_evolves:
  assumes inv: "store_inv db"
    and same: "turn_runs db' = turn_runs db" "messages db' = messages db" "sessions db' = sessions db"
    and chats: "distinct (map ch_chat_id (chats db'))" "\<And>r. r \<in> set (chats db') \<Longrightarrow> 1 \<le> ch_next_message_seq r"
    and n: "\<And>d. next_seq_of d db' = next_seq_of d db"
  shows "store_evolves db db'"
proof -
  have "chat_inv db'"
    using store_invD(2) [OF inv] chats unfolding chat_inv_def n same(2,3) by blast
  then show ?thesis using inv same(1,2) by (intro chats_change_evolves)
qed

lemma resolve_chat_evolves:
  assumes inv: "store_inv db" and ok: "resolve_or_create_chat_id now ch ext ct ag db = Inr (c, db')"
  shows "store_evolves db db'"
proof (cases "find_row (chat_at ch ext) (chats db)")
  case (Some r)
  let ?f = "\<lambda>r. r\<lparr>ch_chat_type := ct, ch_last_message_time := now\<rparr>"
  have db': "db' = db\<lparr>chats := update_rows (\<lambda>x. ch_chat_id x = ch_chat_id r) ?f (chats db)\<rparr>"
    using ok Some by (auto simp: resolve_or_create_chat_id_def)
  show ?thesis
  proof (rule chats_only_evolves [OF inv])
    show "next_seq_of d db' = next_seq_of d db" for d
      unfolding db' next_seq_of_def chat_of_def
      by (simp add: find_key_update_rows split: option.split)
    show "distinct (map ch_chat_id (chats db'))"
      using chat_invD(1) [OF store_invD(2) [OF inv]] by (simp add: db' map_key_update_rows)
    show "r \<in> set (chats db') \<Longrightarrow> 1 \<le> ch_next_message_seq r" for r
      using chat_invD(8) [OF store_invD(2) [OF inv]] by (auto simp: db' row_simps)
  qed (simp_all add: db')
next
  case None
  let ?r = "(new_chat_row (next_rowid db) now)\<lparr>ch_chat_type := ct, ch_channel := Some ch,
    ch_external_chat_id := Some ext, ch_agent_id := ag\<rparr>"
  have db': "db' = db\<lparr>chats := insert_row ?r (chats db)\<rparr>"
    using ok None by (auto simp: resolve_or_create_chat_id_def Let_def res_simps)
  have id: "ch_chat_id ?r = next_rowid db" "ch_next_message_seq ?r = 1" by (simp_all add: new_chat_row_def)
  have "ch_chat_id x \<le> Max (set (map ch_chat_id (chats db)))" if "x \<in> set (chats db)" for x
    using that by (intro Max_ge) auto
  then have fresh: "ch_chat_id x < next_rowid db" if "x \<in> set (chats db)" for x
    using that by (fastforce simp: next_rowid_def)
  show ?thesis
  proof (rule chats_only_evolves [OF inv])
    show "next_seq_of d db' = next_seq_of d db" for d
      unfolding db' next_seq_of_def chat_of_def
      by (auto simp: insert_row_def find_row_append new_chat_row_def split: option.splits)
    show "distinct (map ch_chat_id (chats db'))"
      using chat_invD(1) [OF store_invD(2) [OF inv]] fresh by (force simp: db' insert_row_def id)
    show "r \<in> set (chats db') \<Longrightarrow> 1 \<le> ch_next_message_seq r" for r
      using chat_invD(8) [OF store_invD(2) [OF inv]] by (auto simp: db' row_simps id)
  qed (simp_all add: db')
qed

lemma steady_resolve [steady]: "env_steady env \<Longrightarrow> steady (resolve_turn_chat env)"
  unfolding resolve_turn_chat_def Let_def by (rule steady_db_call) (auto intro: resolve_chat_evolves)

lemma steady_prepare [steady]:
  assumes "env_steady env"
  shows "steady (prepare_turn env input i key received_at)"
  unfolding prepare_turn_def
  by (intro steady_bind steady_resolve [OF assms])
    (auto simp: steady_def Let_def store_evolves_refl split: sum.split)

lemma steady_channel_context [steady]:
  assumes env: "env_steady env"
  shows "steady (load_channel_context env)"
proof (unfold steady_def, intro allI impI)
  fix s :: "'a turn_state" assume inv: "store_inv (fst s)"
  show "store_evolves (fst s) (fst (snd (load_channel_context env s)))"
  proof (cases "sc_channel_log_chat_id (te_context env)")
    case (Some log)
    obtain r s1 where run: "db_read env (get_channel_log_messages_for_agent log (sc_agent_id (te_context env))
        CHANNEL_CONTEXT_LIMIT) s = (r, s1)" by (rule prod.exhaust)
    from steadyD [OF steady_db_read [OF env] run inv] Some run show ?thesis
      by (auto simp: load_channel_context_def split: sum.split)
  qed (simp add: load_channel_context_def store_evolves_refl inv)
qed

lemma steady_loop_result [steady]:
  assumes "env_steady env"
  shows "steady (persist_agent_loop_result env pr result)"
  unfolding persist_agent_loop_result_def using assms by (intro steady | assumption)+

lemma steady_agent_loop [steady]: "loop_steady env \<Longrightarrow> steady (run_agent_loop env pr ctx ms revision start)"
  unfolding run_agent_loop_def using loop_steadyD by (blast intro: steady)

text \<open>A Turn that succeeded: what it returns is the stored final message it was completed with.\<close>

definition answered_with :: "string \<Rightarrow> string \<Rightarrow> database \<Rightarrow> bool" where
  "answered_with i answer db =
     (turn_status db i = Some Completed \<and> answer \<noteq> [] \<and> trim answer = answer \<and>
      (\<exists>t k. find_turn i db = Some t \<and> k \<le> MAX_TOOL_ITERATIONS \<and>
         tr_final_message_id t = Some (assistant_message_id i k) \<and>
         (\<exists>before. store_evolves before db \<and> (\<exists>r \<in> set (messages before).
            msg_id r = assistant_message_id i k \<and> msg_content r = answer))))"

lemma agent_loop_answers:
  assumes env: "loop_steady env"
  shows "yields (run_agent_loop env pr ctx ms revision start) (answered_with (prt_turn_id pr))"
proof (unfold yields_def, intro allI impI)
  fix s answer s' assume inv: "store_inv (fst s)"
    and run: "run_agent_loop env pr ctx ms revision start s = (Inr answer, s')"
  obtain result s1 where loop: "run_loop env pr ctx start (loop_state_new ms revision) s = (Inr result, s1)"
    and result: "persist_agent_loop_result env pr result s1 = (Inr answer, s')"
    using run by (auto simp: run_agent_loop_def sbind_def split: sum.splits prod.splits)
  note inv1 = store_evolves_inv [OF steadyD [OF steady_run_loop [OF env] loop inv]]
  note res = run_loop_result [OF loop] persist_result_completes [OF loop_steadyD [OF env] inv1 result]
  then show "answered_with (prt_turn_id pr) answer (fst s')"
    unfolding answered_with_def by metis
qed

lemma recording_settles:
  assumes env: "env_steady env" and inv: "store_inv (fst s)" and st: "turn_status (fst s) i = Some st"
    and m: "steady m" and run: "recording_failure env i m s = (r, s')"
  shows "case r of Inr a \<Rightarrow> m s = (Inr a, s')
    | Inl e \<Rightarrow> e = TurnConcurrencyConflict \<or> settled i (fst s') \<or> failure_id_used i (fst s')"
proof -
  obtain a s1 where ms: "m s = (a, s1)" by (rule prod.exhaust)
  note one = steadyD [OF m ms inv]
  obtain st1 where st1: "turn_status (fst s1) i = Some st1" using store_evolves_status [OF one st] by blast
  show ?thesis
  proof (cases a)
    case (Inl e)
    obtain u s2 where f: "fail env i e s1 = (u, s2)" by (rule prod.exhaust)
    show ?thesis
      using run ms Inl f fail_settles [OF env store_evolves_inv [OF one] st1 f]
      by (auto simp: recording_failure_def record_failure_excluding_conflict_def)
  next
    case (Inr b)
    then show ?thesis using run ms by (auto simp: recording_failure_def)
  qed
qed

text \<open>How a run of a Turn ends.\<close>

definition turn_ends :: "string \<Rightarrow> egopulse_error + string \<Rightarrow> database \<Rightarrow> bool" where
  "turn_ends i r db =
     (case r of
        Inr answer \<Rightarrow> answered_with i answer db
      | Inl e \<Rightarrow> e = TurnConcurrencyConflict \<or> settled i db \<or> failure_id_used i db)"

lemma recording_ends:
  assumes env: "loop_steady env" and inv: "store_inv (fst s)" and st: "turn_status (fst s) i = Some st"
    and m: "steady m" "yields m (answered_with i)" and run: "recording_failure env i m s = (r, s')"
  shows "turn_ends i r (fst s')"
  using recording_settles [OF loop_steadyD [OF env] inv st m(1) run] yieldsD [OF m(2) inv]
  by (auto simp: turn_ends_def split: sum.splits)

text \<open>What a step of preparation gives is fixed by its arguments.\<close>

definition gives :: "('x, 'a) run \<Rightarrow> ('a \<Rightarrow> bool) \<Rightarrow> bool" where
  "gives m P = (\<forall>s a s'. m s = (Inr a, s') \<longrightarrow> P a)"

lemma gives_prepare: "gives (prepare_turn env input i key received_at) (\<lambda>pr. prt_turn_id pr = i)"
  by (auto simp: gives_def prepare_turn_def sbind_def Let_def split: sum.splits prod.splits)

lemma yields_bind_gives:
  assumes "steady m" "gives m Q" "\<And>a. Q a \<Longrightarrow> yields (k a) P"
  shows "yields (sbind m k) P"
proof (unfold yields_def, intro allI impI)
  fix s b s' assume inv: "store_inv (fst s)" and run: "sbind m k s = (Inr b, s')"
  obtain r s1 where m: "m s = (r, s1)" by (rule prod.exhaust)
  with run obtain a where a: "r = Inr a" "k a s1 = (Inr b, s')" by (cases r) (auto simp: sbind_def)
  then have "Q a" using assms(2) m unfolding gives_def by blast
  then show "P b (fst s')"
    using yieldsD [OF assms(3) store_evolves_inv [OF steadyD [OF assms(1) m inv]]] a(2) by blast
qed

lemma yields_agent_loop:
  "loop_steady env \<Longrightarrow> prt_turn_id pr = i \<Longrightarrow> yields (run_agent_loop env pr ctx ms revision start) (answered_with i)"
  using agent_loop_answers by blast

lemma run_accepted_ends:
  assumes env: "loop_steady env" and inv: "store_inv (fst s)" and st: "turn_status (fst s) i = Some st"
    and run: "run_accepted env input i key received_at s = (r, s')"
  shows "turn_ends i r (fst s')"
  using env inv st _ _ run [unfolded run_accepted_def]
proof (rule recording_ends)
  note e = loop_steadyD [OF env]
  show "steady (sbind (prepare_turn env input i key (Some received_at)) (\<lambda>pr.
        sbind (persist_user_input env (prt_chat_id pr) i
                 \<lparr>ui_message_id = prt_input_message_id pr, ui_message = prt_user_message pr,
                  ui_input = input, ui_received_at = prt_received_at pr\<rparr>) (\<lambda>(ms, session_revision).
        sbind (load_channel_context env) (\<lambda>channel_context_msg.
        run_agent_loop env pr channel_context_msg ms session_revision 1))))"
    by (intro steady_bind steady_prepare [OF e]) (auto intro!: steady env e split: prod.split)
  show "yields (sbind (prepare_turn env input i key (Some received_at)) (\<lambda>pr.
        sbind (persist_user_input env (prt_chat_id pr) i
                 \<lparr>ui_message_id = prt_input_message_id pr, ui_message = prt_user_message pr,
                  ui_input = input, ui_received_at = prt_received_at pr\<rparr>) (\<lambda>(ms, session_revision).
        sbind (load_channel_context env) (\<lambda>channel_context_msg.
        run_agent_loop env pr channel_context_msg ms session_revision 1)))) (answered_with i)"
    by (rule yields_bind_gives [OF steady_prepare [OF e] gives_prepare])
      (auto intro!: yields_bind steady env e yields_agent_loop split: prod.split)
qed

lemma loop_steady_context [simp]: "loop_steady (env\<lparr>te_context := c\<rparr>) = loop_steady env"
  by (simp add: loop_steady_def env_steady_def tools_keep_store_def)

lemma steady_resume [steady]: "env_steady env \<Longrightarrow> steady (resume_session env c i mode loaded)"
  unfolding resume_session_def by (cases mode) (auto intro!: steady)

lemma resume_run_ends:
  assumes env: "loop_steady env" and inv: "store_inv (fst s)"
    and st: "turn_status (fst s) (tr_turn_id t) = Some st"
    and run: "resume_run env input received_at t mode s = (r, s')"
  shows "turn_ends (tr_turn_id t) r (fst s')"
proof -
  note e = loop_steadyD [OF env]
  let ?loop = "\<lambda>pr (ms, session_revision, start_iteration).
    sbind (load_channel_context env) (\<lambda>ctx. run_agent_loop env pr ctx ms session_revision start_iteration)"
  let ?rest = "\<lambda>chat_id pr. sbind (load_turn_messages env chat_id) (\<lambda>loaded.
    sbind (resume_session env chat_id (tr_turn_id t) mode loaded) (?loop pr))"
  let ?run = "sbind (resolve_turn_chat env) (\<lambda>chat_id.
    sbind (prepare_turn env input (tr_turn_id t) (tr_request_key t) received_at) (?rest chat_id))"
  have loop: "steady (?loop pr x)" for pr x
    by (cases x) (auto intro!: steady env e)
  have rest: "steady (?rest chat_id pr)" for chat_id pr
    by (intro steady_bind steady_load [OF e] steady_resume [OF e] loop)
  have "steady ?run"
    by (intro steady_bind steady_resolve [OF e] steady_prepare [OF e] rest)
  moreover have loop_y: "yields (?loop pr x) (answered_with (tr_turn_id t))" if "prt_turn_id pr = tr_turn_id t" for pr x
    by (cases x) (auto intro!: yields_bind steady_channel_context [OF e] yields_agent_loop [OF env that])
  have rest_y: "yields (?rest chat_id pr) (answered_with (tr_turn_id t))" if "prt_turn_id pr = tr_turn_id t" for chat_id pr
    by (intro yields_bind steady_load [OF e] steady_resume [OF e] loop_y that)
  moreover have "yields ?run (answered_with (tr_turn_id t))"
    by (rule yields_bind [OF steady_resolve [OF e]], rule yields_bind_gives [OF steady_prepare [OF e] gives_prepare],
      rule rest_y)
  ultimately show ?thesis
    using run by (intro recording_ends [OF env inv st]) (simp_all add: resume_run_def)
qed

lemma get_turn_run_id: "get_turn_run i db = Inr t \<Longrightarrow> tr_turn_id t = i"
  by (auto simp: get_turn_run_def read_turn_run_def res_simps dest!: find_row_Some split: option.splits)

text \<open>Resuming: the Turn is read, validated and, if the request is recovered, run.\<close>

lemma resume_ends:
  fixes k :: "turn \<Rightarrow> 'p scheduled_turn \<Rightarrow> ('x, string) run"
  assumes env: "loop_steady env" and inv: "store_inv (fst s)" and st: "turn_status (fst s) i = Some st"
    and run: "sbind (db_read env (get_turn_run i)) (\<lambda>t.
        sbind (validate_resume_target env i t expected reject) (k t)) s = (r, s')"
    and k: "\<And>t persisted v. tr_turn_id t = i \<Longrightarrow> store_inv (fst v) \<Longrightarrow> (\<exists>st. turn_status (fst v) i = Some st) \<Longrightarrow>
      get_turn_run i (fst (te_others env s)) = Inr t \<Longrightarrow> k t persisted v = (r, s') \<Longrightarrow> turn_ends i r (fst s')"
  shows "turn_ends i r (fst s')"
proof -
  let ?s = "te_others env s"
  note e = loop_steadyD [OF env]
  note o = others_evolve [OF e inv]
  note inv1 = store_evolves_inv [OF o]
  obtain st1 where st1: "turn_status (fst ?s) i = Some st1" using store_evolves_status [OF o st] by blast
  obtain row where t: "get_turn_run i (fst ?s) = Inr (turn_of_row row st1)"
    using get_turn_run_status [OF st1] by blast
  let ?t = "turn_of_row row st1"
  obtain a :: "egopulse_error + 'p scheduled_turn" and s1 where v: "validate_resume_target env i ?t expected reject ?s = (a, s1)" by (rule prod.exhaust)
  have run1: "(case a of Inl e \<Rightarrow> (Inl e, s1) | Inr persisted \<Rightarrow> k ?t persisted s1) = (r, s')"
    using run v t by (simp add: sbind_def db_read_def db_call_def Let_def split: sum.splits)
  show ?thesis
  proof (cases a)
    case (Inl err)
    then have "r = Inl err" "s' = s1" using run1 by simp_all
    then show ?thesis
      using validate_settles [OF e inv1 st1 v [unfolded Inl]] by (auto simp: turn_ends_def)
  next
    case (Inr persisted)
    note two = steadyD [OF steady_validate [OF e] v inv1]
    have "\<exists>st. turn_status (fst s1) i = Some st" using store_evolves_status [OF two st1] by blast
    from k [OF get_turn_run_id [OF t] store_evolves_inv [OF two] this t] run1 Inr show ?thesis by simp
  qed
qed

section \<open>Every run of a Turn ends it\<close>



text \<open>A process without tools, in which no model is configured for the context.\<close>

definition sample_registry_empty :: "(database \<times> asset_store \<times> unit) tool_registry" where
  "sample_registry_empty =
     \<lparr>rg_tools = [], rg_mcp_manager = None, rg_config_secrets = [], rg_manager_secrets = None,
      rg_mcp_secrets = None, rg_dotenv_secrets = [], rg_skill_env = (\<lambda>_. []), rg_redaction = plain_redaction\<rparr>"

definition sample_loop_env :: "unit loop_env" where
  "sample_loop_env = turn_env.extend sample_turn_env
     (loop_env.fields (\<lambda>t. t)
       (\<lambda>_ _ _. \<lparr>ex_answer = Inr \<lparr>mr_content = ''Done.'', mr_reasoning_content = None, mr_tool_calls = []\<rparr>,
          ex_millis = Some 10, ex_first_delta = None\<rparr>)
       (\<lambda>_ _. 0) 0 (\<lambda>_. 0) (\<lambda>_. ''h'') sample_registry_empty
       (\<lambda>_. []) [] (\<lambda>_. ''hash'') (\<lambda>_. ''T2'') (\<lambda>_. Inl (ConfigFailure ''no model'')))"

lemma sample_loop_env_fields:
  "te_others sample_loop_env = (\<lambda>s. s)" "te_compact sample_loop_env = (\<lambda>_ ms s. (Inr ms, s))"
  "le_registry sample_loop_env = sample_registry_empty"
  "le_llm_for_context sample_loop_env = (\<lambda>_. Inl (ConfigFailure ''no model''))"
  "te_parse sample_loop_env = (\<lambda>_. None)"
  by (simp_all add: sample_loop_env_def sample_turn_env_def turn_env.extend_def loop_env.fields_def)

lemma sample_loop_steady: "loop_steady sample_loop_env"
proof -
  have "prepare_execution_context sample_registry_empty name ctx s = s" for name ctx s
    by (simp add: prepare_execution_context_def find_tool_impl_def sample_registry_empty_def)
  moreover have "snd (execute_inner sample_registry_empty name input ctx prepared s) = s" for name input ctx prepared s
    by (simp add: execute_inner_def find_tool_impl_def sample_registry_empty_def Let_def)
  ultimately show ?thesis
    by (simp add: loop_steady_def env_steady_def tools_keep_store_def sample_loop_env_fields steady_def
        store_evolves_refl)
qed

lemma sample_turn_state_ok:
  "store_inv (fst sample_turn_state)" "turn_status (fst sample_turn_state) ''T'' = Some Accepted"
  by (simp_all add: sample_turn_state_def sample_accepted_inv turn_status_Some_iff find_turn_def
      sample_accepted_runs)

definition sample_failed_run :: "(egopulse_error + string) \<times> unit turn_state" where
  "sample_failed_run = run_accepted sample_loop_env ''hi'' ''T'' ''k'' ''t1'' sample_turn_state"

lemma sample_failed_run_error: "fst sample_failed_run = Inl (ConfigFailure ''no model'')"
proof -
  obtain a s1 where "resolve_turn_chat sample_loop_env sample_turn_state = (a, s1)" by (rule prod.exhaust)
  moreover have "\<not> isl (fst (resolve_turn_chat sample_loop_env sample_turn_state))" by code_simp
  ultimately obtain c where "resolve_turn_chat sample_loop_env sample_turn_state = (Inr c, s1)"
    by (cases a) auto
  then show ?thesis
    by (simp add: sample_failed_run_def run_accepted_def recording_failure_def prepare_turn_def sbind_def
        sample_loop_env_fields)
qed


definition sample_failed_resume :: "(egopulse_error + string) \<times> unit turn_state" where
  "sample_failed_resume = resume_input_committed_turn sample_loop_env ''turn-1'' sample_resume_state"

lemma sample_resume_state_ok:
  "store_inv (fst sample_resume_state)" "turn_status (fst sample_resume_state) ''turn-1'' = Some InputCommitted"
  "get_turn_run ''turn-1'' (fst sample_resume_state) =
     Inr (turn_of_row (sample_turn ''turn-1'' InputCommitted (Some ''{}'')) InputCommitted)"
proof -
  let ?row = "sample_turn ''turn-1'' InputCommitted (Some ''{}'')"
  show "store_inv (fst sample_resume_state)" by (simp add: sample_resume_state_def sample_db_store_inv)
  show "turn_status (fst sample_resume_state) ''turn-1'' = Some InputCommitted"
    by (simp add: sample_resume_state_def sample_db_status)
  show "get_turn_run ''turn-1'' (fst sample_resume_state) = Inr (turn_of_row ?row InputCommitted)"
    using read_turn_run_row [of "\<lambda>t. tr_turn_id t = ''turn-1''" "sample_db InputCommitted" ?row InputCommitted]
    by (simp add: get_turn_run_def sample_resume_state_def sample_db_def sample_turn_def)
qed

lemma sample_failed_resume_error: "\<exists>text'. fst sample_failed_resume = Inl (Internal text')"
proof -
  have refuse: "\<exists>t. fst (refuse_resume sample_loop_env i target reason internal s) = Inl (Internal t)"
    for i target reason internal s
    by (auto simp: refuse_resume_def fail_resume_permanently_def sbind_def sfail_def ignoring_def Let_def)
  obtain x s1 where r: "refuse_resume sample_loop_env ''turn-1'' InputCommitted
      ''failed to decode scheduled request''
      (''failed to decode scheduled request for resume: '' @ te_payload_text sample_loop_env ParseFailed)
      sample_resume_state = (Inl (Internal x) :: egopulse_error + unit scheduled_turn, s1)"
    using refuse by (metis prod.collapse)
  show ?thesis
    using r sample_resume_state_ok(3)
    by (simp add: sample_failed_resume_def resume_input_committed_turn_def sbind_def db_read_def db_call_def
        sample_loop_env_fields validate_resume_def validate_resume_target_def deserialize_scheduled_turn_def
        turn_of_row_def sample_turn_def)
qed


end
