(* ===== verification/Compaction.thy ===== *)
theory Compaction
  imports Complex_Main Runtime_Error Message_Text Tool_Sanitizer Session_Repair
begin

text \<open>
  The compaction of long conversations (\<open>src/src/agent_loop/compaction.rs\<close>): when the estimated
  prompt comes near the context window, the old part of a conversation is replaced by a summary of
  it. Arithmetic on \<open>f64\<close> is exact arithmetic followed by the rounding \<open>ce_round\<close>. The estimates
  count bytes as the code does; sizes are far below the range of \<open>usize\<close>, so they are natural
  numbers. The metrics of the summarizer and its calibration record are left out.
\<close>

section \<open>Estimates\<close>

definition CHARS_PER_TOKEN_ESTIMATE :: nat where
  "CHARS_PER_TOKEN_ESTIMATE = 3"

definition CONTEXT_RESERVE_TOKENS :: nat where
  "CONTEXT_RESERVE_TOKENS = 8192"

definition SUMMARIZER_OUTPUT_RESERVE :: nat where
  "SUMMARIZER_OUTPUT_RESERVE = 4096"

text \<open>\<open>as usize\<close> of an \<open>f64\<close> saturates.\<close>

definition f64_as_usize :: "real \<Rightarrow> nat" where
  "f64_as_usize x = min (nat \<lfloor>x\<rfloor>) (2 ^ 64 - 1)"

text \<open>What the summarizer gave: an answer, an error of the provider, or a timeout.\<close>

datatype summary_reply = SummaryReply string | SummarizeProvider llm_error | SummarizeTimeout

record compact_env =
  ce_round :: "real \<Rightarrow> real"
  ce_render :: "json \<Rightarrow> string"
  ce_field :: "string \<Rightarrow> string \<Rightarrow> string option"
  ce_redaction :: redaction_env
  ce_secrets :: "(string \<times> string) list"
  ce_context_window :: nat
  ce_threshold_ratio :: real
  ce_target_ratio :: real
  ce_keep_recent :: nat
  ce_factor :: real

fun sum_nats :: "nat list \<Rightarrow> nat" where
  "sum_nats [] = 0"
| "sum_nats (n # ns) = n + sum_nats ns"

definition message_chars :: "(json \<Rightarrow> string) \<Rightarrow> json llm_message \<Rightarrow> nat" where
  "message_chars render m =
     length (lm_role m) + length (as_text_lossy (lm_content m)) +
     sum_nats (map (\<lambda>c. length (ltc_name c) + length (render (ltc_arguments c))) (lm_tool_calls m))"

definition estimate_prompt_tokens ::
  "(json \<Rightarrow> string) \<Rightarrow> string \<Rightarrow> json llm_message list \<Rightarrow> string option \<Rightarrow> nat" where
  "estimate_prompt_tokens render system_prompt ms tools_json =
     max ((length system_prompt + sum_nats (map (message_chars render) ms) +
           (case tools_json of Some t \<Rightarrow> length t | None \<Rightarrow> 0)) div CHARS_PER_TOKEN_ESTIMATE) 1"

definition calibrated_estimate :: "(real \<Rightarrow> real) \<Rightarrow> nat \<Rightarrow> real \<Rightarrow> nat" where
  "calibrated_estimate rnd raw_estimate factor =
     f64_as_usize (max (of_int \<lceil>rnd (rnd (of_nat raw_estimate) * factor)\<rceil>) 1)"

definition usable_context_tokens :: "nat \<Rightarrow> nat" where
  "usable_context_tokens context_window_tokens = max (context_window_tokens - CONTEXT_RESERVE_TOKENS) 1"

definition should_compact :: "(real \<Rightarrow> real) \<Rightarrow> nat \<Rightarrow> nat \<Rightarrow> real \<Rightarrow> bool" where
  "should_compact rnd estimated_tokens usable_context threshold_ratio =
     (max (f64_as_usize (rnd (rnd (of_nat usable_context) * threshold_ratio))) 1 \<le> estimated_tokens)"

definition compaction_target_tokens :: "(real \<Rightarrow> real) \<Rightarrow> nat \<Rightarrow> real \<Rightarrow> nat" where
  "compaction_target_tokens rnd usable_context target_ratio =
     max (f64_as_usize (rnd (rnd (of_nat usable_context) * target_ratio))) 1"

section \<open>What the summarizer reads\<close>

definition take_chars :: "nat \<Rightarrow> string \<Rightarrow> string" where
  "take_chars n s = concat (take n (utf8_chars s))"

definition char_count :: "string \<Rightarrow> nat" where
  "char_count s = length (utf8_chars s)"

definition shrink_summary_input :: "string \<Rightarrow> nat \<Rightarrow> string" where
  "shrink_summary_input v budget_tokens =
     (let max_chars = budget_tokens * CHARS_PER_TOKEN_ESTIMATE
      in if char_count v \<le> max_chars then v
         else take_chars max_chars v @ [LF] @ ''... (truncated to fit summarizer budget)'')"

definition lighten_message :: "compact_env \<Rightarrow> json llm_message \<Rightarrow> string" where
  "lighten_message env m =
     (let v = message_to_text (ce_field env) (ce_render env) m
      in if lm_role m = ''tool'' \<and> 500 < char_count v
         then take_chars 400 v @ ''... (tool result truncated for summary)'' else v)"

definition build_summary_input :: "compact_env \<Rightarrow> json llm_message list \<Rightarrow> nat \<Rightarrow> string" where
  "build_summary_input env old_messages usable_context =
     (let budget = compaction_target_tokens (ce_round env) usable_context (ce_target_ratio env)
            - SUMMARIZER_OUTPUT_RESERVE;
          summary_input = concat (map (\<lambda>m. ''['' @ lm_role m @ '']: '' @ lighten_message env m @ [LF, LF])
            old_messages)
      in if char_count summary_input \<le> budget * CHARS_PER_TOKEN_ESTIMATE then summary_input
         else shrink_summary_input summary_input budget)"

definition redact_summary_text :: "compact_env \<Rightarrow> string \<Rightarrow> string" where
  "redact_summary_text env v = sanitize_output_string (ce_redaction env) v (ce_secrets env)"

section \<open>Where the conversation is split\<close>

definition find_tool_call_parent :: "'j llm_message list \<Rightarrow> nat \<Rightarrow> string \<Rightarrow> nat option" where
  "find_tool_call_parent ms before_index tool_call_id =
     List.find (\<lambda>i. calls_tools (ms ! i) \<and> tool_call_id \<in> set (call_ids (ms ! i))) (rev [0..<before_index])"

function tool_safe_from :: "'j llm_message list \<Rightarrow> nat \<Rightarrow> nat" where
  "tool_safe_from ms split_at =
     (if length ms \<le> split_at \<or> \<not> is_tool (ms ! split_at) then split_at
      else case lm_tool_call_id (ms ! split_at) of
        None \<Rightarrow> tool_safe_from ms (split_at + 1)
      | Some tool_call_id \<Rightarrow>
          (case find_tool_call_parent ms split_at tool_call_id of
             None \<Rightarrow> tool_safe_from ms (split_at + 1)
           | Some parent_index \<Rightarrow> tool_safe_from ms parent_index))"
  by pat_completeness auto

termination
proof (relation "measure (\<lambda>(ms, i). if i < length ms \<and> is_tool (ms ! i) then 1 + length ms - i else 0)", goal_cases)
  case (4 ms i tool_call_id parent)
  then show ?case by (auto simp: find_tool_call_parent_def find_Some_iff)
qed auto

declare tool_safe_from.simps [simp del]

definition tool_safe_split_at :: "'j llm_message list \<Rightarrow> nat \<Rightarrow> nat" where
  "tool_safe_split_at ms preferred_split_at = tool_safe_from ms (min preferred_split_at (length ms))"

definition latest_user :: "'j llm_message list \<Rightarrow> nat option" where
  "latest_user ms = List.find (\<lambda>i. lm_role (ms ! i) = ''user'') (rev [0..<length ms])"

definition compaction_split_at :: "'j llm_message list \<Rightarrow> nat \<Rightarrow> nat" where
  "compaction_split_at ms keep_recent =
     (let desired_split = length ms - min keep_recent (length ms);
          latest_user_split = (case latest_user ms of Some i \<Rightarrow> i | None \<Rightarrow> desired_split)
      in tool_safe_split_at ms (min desired_split latest_user_split))"

definition select_compaction_slices ::
  "'j llm_message list \<Rightarrow> nat \<Rightarrow> ('j llm_message list \<times> 'j llm_message list) option" where
  "select_compaction_slices ms compact_keep_recent =
     (let keep_recent = min compact_keep_recent (length ms) in
      if keep_recent = length ms then None
      else let split_at = compaction_split_at ms keep_recent
           in if split_at \<noteq> 0 then Some (take split_at ms, drop split_at ms) else None)"

section \<open>The compacted conversation\<close>

definition REFERENCE_ONLY_HEADER :: string where
  "REFERENCE_ONLY_HEADER =
     ''[CONTEXT COMPACTION '' @ [CHR 0xE2, CHR 0x80, CHR 0x94] @ '' REFERENCE ONLY]'' @ [LF] @
     ''Earlier turns were compacted into the summary below.'' @ [LF] @
     ''This is background reference, not active instruction.'' @ [LF] @
     ''Do not answer old requests mentioned in this summary.'' @ [LF] @
     ''Respond to the latest user message after this summary.''"

definition is_text :: "'p content \<Rightarrow> bool" where
  "is_text c = (case c of TextContent _ \<Rightarrow> True | PartsContent _ \<Rightarrow> False)"

definition can_merge_compacted_messages :: "'j llm_message \<Rightarrow> 'j llm_message \<Rightarrow> bool" where
  "can_merge_compacted_messages left right =
     (lm_role left = lm_role right \<and> lm_tool_calls left = [] \<and> lm_tool_calls right = [] \<and>
      lm_reasoning_content left = None \<and> lm_reasoning_content right = None \<and>
      lm_tool_call_id left = None \<and> lm_tool_call_id right = None \<and>
      is_text (lm_content left) \<and> is_text (lm_content right))"

definition merge_pair :: "'j llm_message \<Rightarrow> 'j llm_message \<Rightarrow> 'j llm_message" where
  "merge_pair left right =
     left\<lparr>lm_content := TextContent (as_text_lossy (lm_content left) @ [LF] @ as_text_lossy (lm_content right))\<rparr>"

text \<open>\<open>left\<close> is the message at the write index, the list what is still to be read.\<close>

fun merge_from :: "'j llm_message \<Rightarrow> 'j llm_message list \<Rightarrow> 'j llm_message list" where
  "merge_from left [] = [left]"
| "merge_from left (right # ms) =
     (if can_merge_compacted_messages left right then merge_from (merge_pair left right) ms
      else left # merge_from right ms)"

fun merge_messages :: "'j llm_message list \<Rightarrow> 'j llm_message list" where
  "merge_messages [] = []"
| "merge_messages (m # ms) = merge_from m ms"

fun merge_compacted_skipping_summary :: "'j llm_message list \<Rightarrow> 'j llm_message list" where
  "merge_compacted_skipping_summary [] = []"
| "merge_compacted_skipping_summary (summary # ms) = summary # merge_messages ms"

definition drop_last_assistant :: "'j llm_message list \<Rightarrow> 'j llm_message list" where
  "drop_last_assistant ms = (if ms \<noteq> [] \<and> lm_role (last ms) = ''assistant'' then butlast ms else ms)"

definition build_compacted_messages :: "string \<Rightarrow> 'j llm_message list \<Rightarrow> 'j llm_message list" where
  "build_compacted_messages summary recent_messages =
     drop_last_assistant (merge_compacted_skipping_summary
       (text_message ''user'' (REFERENCE_ONLY_HEADER @ [LF, LF] @ summary) # recent_messages))"

definition truncate_summary_for_target :: "string \<Rightarrow> nat \<Rightarrow> string" where
  "truncate_summary_for_target summary max_chars =
     (if char_count summary \<le> max_chars then summary
      else if max_chars = 0 then ''''
      else take_chars max_chars summary @ [LF] @ ''... (summary truncated to fit compaction target)'')"

text \<open>The loop: \<open>fits\<close> tests the candidate of a length, \<open>best\<close> is the length of the last that did.\<close>

function longest_fit :: "(nat \<Rightarrow> bool) \<Rightarrow> nat \<Rightarrow> nat \<Rightarrow> nat option \<Rightarrow> nat option" where
  "longest_fit fits low high best =
     (if high < low then best
      else let mid = low + (high - low) div 2
           in if fits mid then longest_fit fits (mid + 1) high (Some mid)
              else if mid = 0 then best
              else longest_fit fits low (mid - 1) best)"
  by pat_completeness auto

termination
  by (relation "measure (\<lambda>(_, low, high, _). high + 1 - low)") auto

declare longest_fit.simps [simp del]

definition fits_target :: "compact_env \<Rightarrow> nat \<Rightarrow> json llm_message list \<Rightarrow> bool" where
  "fits_target env target_tokens ms =
     (calibrated_estimate (ce_round env) (estimate_prompt_tokens (ce_render env) '''' ms None) (ce_factor env)
        \<le> target_tokens)"

definition build_targeted_compacted_messages ::
  "compact_env \<Rightarrow> string \<Rightarrow> json llm_message list \<Rightarrow> nat \<Rightarrow> json llm_message list" where
  "build_targeted_compacted_messages env summary recent_messages target_tokens =
     (let compacted = build_compacted_messages summary recent_messages;
          candidate = (\<lambda>n. build_compacted_messages (truncate_summary_for_target summary n) recent_messages)
      in if target_tokens = 0 \<or> fits_target env target_tokens compacted then compacted
         else case longest_fit (\<lambda>n. fits_target env target_tokens (candidate n)) 0 (char_count summary) None of
           Some n \<Rightarrow> candidate n
         | None \<Rightarrow> build_compacted_messages '''' recent_messages)"

section \<open>Compaction\<close>

text \<open>\<open>reply\<close> is what the summarizer answers to its input.\<close>

definition summarize_old_messages ::
  "compact_env \<Rightarrow> (string \<Rightarrow> summary_reply) \<Rightarrow> json llm_message list \<Rightarrow> nat \<Rightarrow> string option" where
  "summarize_old_messages env reply old_messages usable_context =
     (case reply (redact_summary_text env (build_summary_input env old_messages usable_context)) of
        SummarizeProvider _ \<Rightarrow> None
      | SummarizeTimeout \<Rightarrow> None
      | SummaryReply content \<Rightarrow>
          (let summary = strip_thinking content
           in if trim summary = [] then None else Some (redact_summary_text env summary)))"

definition safety_compact ::
  "compact_env \<Rightarrow> (string \<Rightarrow> summary_reply) \<Rightarrow> nat \<Rightarrow> json llm_message list \<Rightarrow> json llm_message list" where
  "safety_compact env reply usable ms =
     (case select_compaction_slices ms (ce_keep_recent env) of
        None \<Rightarrow> ms
      | Some (old_messages, recent_messages) \<Rightarrow>
          (case summarize_old_messages env reply old_messages usable of
             None \<Rightarrow> ms
           | Some summary \<Rightarrow>
               build_targeted_compacted_messages env summary recent_messages
                 (compaction_target_tokens (ce_round env) usable (ce_target_ratio env))))"

definition maybe_compact_messages ::
  "compact_env \<Rightarrow> (string \<Rightarrow> summary_reply) \<Rightarrow> string \<Rightarrow> string option \<Rightarrow> json llm_message list \<Rightarrow>
   json llm_message list" where
  "maybe_compact_messages env reply system_prompt tools_json ms =
     (let usable = usable_context_tokens (ce_context_window env);
          estimated = calibrated_estimate (ce_round env)
            (estimate_prompt_tokens (ce_render env) system_prompt ms tools_json) (ce_factor env)
      in if should_compact (ce_round env) estimated usable (ce_threshold_ratio env)
         then safety_compact env reply usable ms else ms)"

definition force_compact ::
  "compact_env \<Rightarrow> (string \<Rightarrow> summary_reply) \<Rightarrow> json llm_message list \<Rightarrow> json llm_message list" where
  "force_compact env reply ms =
     (if ms = [] then []
      else safety_compact env reply (usable_context_tokens (ce_context_window env)) ms)"

section \<open>The archive\<close>

text \<open>
  The files of the archive by path. A step of the write may fail with a text; a failed write leaves
  any content in the temporary file.
\<close>

type_synonym archive_files = "string \<Rightarrow> string option"

record archive_io =
  ai_create_dir :: "string option"
  ai_write_tmp :: "(string \<times> string) option"
  ai_rename :: "string option"

definition path_join :: "string \<Rightarrow> string \<Rightarrow> string" where
  "path_join base p =
     (if starts_with ''/'' p then p
      else if base = [] \<or> last base = CHR ''/'' then base @ p
      else base @ ''/'' @ p)"

definition archive_dir :: "string \<Rightarrow> string \<Rightarrow> int \<Rightarrow> string" where
  "archive_dir groups_dir channel chat_id =
     path_join (path_join (path_join groups_dir (if trim channel = [] then ''unknown'' else trim channel))
       (show_int chat_id)) ''conversations''"

definition archive_text :: "compact_env \<Rightarrow> json llm_message list \<Rightarrow> string" where
  "archive_text env ms =
     concat (map (\<lambda>m. ''## '' @ lm_role m @ [LF, LF] @
       redact_summary_text env (message_to_archive_text (ce_field env) (ce_render env) m) @ [LF, LF] @
       ''---'' @ [LF, LF]) ms)"

definition archive_conversation_blocking ::
  "compact_env \<Rightarrow> archive_io \<Rightarrow> string \<Rightarrow> string \<Rightarrow> int \<Rightarrow> json llm_message list \<Rightarrow> string \<Rightarrow> archive_files \<Rightarrow>
   (string + unit) \<times> archive_files" where
  "archive_conversation_blocking env io groups_dir channel chat_id ms idempotency_key files =
     (let dir = archive_dir groups_dir channel chat_id;
          path = path_join dir (idempotency_key @ ''.md'');
          tmp = path_join dir (idempotency_key @ ''.tmp'')
      in case ai_create_dir io of
           Some e \<Rightarrow> (Inl e, files)
         | None \<Rightarrow>
             if files path \<noteq> None then (Inr (), files)
             else (case ai_write_tmp io of
                 Some (e, partial) \<Rightarrow> (Inl e, files(tmp := Some partial))
               | None \<Rightarrow>
                   (let files = files(tmp := Some (archive_text env ms))
                    in case ai_rename io of
                         Some e \<Rightarrow> (Inl e, files)
                       | None \<Rightarrow> (Inr (), files(tmp := None, path := files tmp)))))"

section \<open>The search finds the longest summary that fits\<close>

text \<open>The specification: the greatest length up to \<open>n\<close> that fits.\<close>

fun greatest_fit :: "(nat \<Rightarrow> bool) \<Rightarrow> nat \<Rightarrow> nat option" where
  "greatest_fit fits 0 = (if fits 0 then Some 0 else None)"
| "greatest_fit fits (Suc n) = (if fits (Suc n) then Some (Suc n) else greatest_fit fits n)"

lemma greatest_fit_Some:
  "fits k \<Longrightarrow> k \<le> n \<Longrightarrow> (\<And>i. k < i \<Longrightarrow> i \<le> n \<Longrightarrow> \<not> fits i) \<Longrightarrow> greatest_fit fits n = Some k"
proof (induction n)
  case (Suc n)
  then show ?case by (cases "k = Suc n") auto
qed simp

lemma greatest_fit_None: "(\<And>i. i \<le> n \<Longrightarrow> \<not> fits i) \<Longrightarrow> greatest_fit fits n = None"
  by (induction n) auto

text \<open>Everything below \<open>low\<close> fits and is beaten by \<open>best\<close>; nothing above \<open>high\<close> fits.\<close>

lemma longest_fit_greatest:
  assumes "\<And>i j. i \<le> j \<Longrightarrow> j \<le> n \<Longrightarrow> fits j \<Longrightarrow> fits i" "high \<le> n" "low \<le> high + 1"
    and "\<And>i. high < i \<Longrightarrow> i \<le> n \<Longrightarrow> \<not> fits i"
    and "best = (if low = 0 then None else Some (low - 1))" "low \<noteq> 0 \<Longrightarrow> fits (low - 1)"
  shows "longest_fit fits low high best = greatest_fit fits n"
  using assms
proof (induction fits low high best rule: longest_fit.induct)
  case (1 fits low high best)
  let ?mid = "low + (high - low) div 2"
  show ?case
  proof (cases "high < low")
    case True
    then have "low = high + 1" using "1.prems"(3) by simp
    then have "greatest_fit fits n = Some high"
      using "1.prems" by (intro greatest_fit_Some) auto
    then show ?thesis using True \<open>low = high + 1\<close> "1.prems"(5) by (simp add: longest_fit.simps)
  next
    case False
    then have mid: "low \<le> ?mid" "?mid \<le> high" by auto
    show ?thesis
    proof (cases "fits ?mid")
      case True
      have "longest_fit fits (?mid + 1) high (Some ?mid) = greatest_fit fits n"
        using "1.prems" mid True by (intro "1.IH"(1) [OF False refl True]) auto
      then show ?thesis using False True by (subst longest_fit.simps) (simp add: Let_def)
    next
      case no: False
      show ?thesis
      proof (cases "?mid = 0")
        case True
        then have "greatest_fit fits n = None"
          using "1.prems"(1) no by (intro greatest_fit_None) (metis le0)
        then show ?thesis using False no True "1.prems"(5) by (subst longest_fit.simps) (auto simp: Let_def)
      next
        case mid0: False
        have "longest_fit fits low (?mid - 1) best = greatest_fit fits n"
        proof (rule "1.IH"(2) [OF False refl no mid0 "1.prems"(1)])
          fix i assume "?mid - 1 < i" "i \<le> n"
          then show "\<not> fits i" using "1.prems"(1) [of ?mid i] no by linarith
        qed (use "1.prems" mid mid0 in \<open>auto\<close>)
        then show ?thesis using False no mid0 by (subst longest_fit.simps) (auto simp: Let_def)
      qed
    qed
  qed
qed

lemma sum_nats_append [simp]: "sum_nats (xs @ ys) = sum_nats xs + sum_nats ys"
  by (induction xs) auto

lemma sum_nats_mono: "list_all2 (\<le>) xs ys \<Longrightarrow> sum_nats xs \<le> sum_nats ys"
  by (induction rule: list_all2_induct) auto

lemma f64_as_usize_mono: "x \<le> y \<Longrightarrow> f64_as_usize x \<le> f64_as_usize y"
  unfolding f64_as_usize_def by (intro min.mono nat_mono floor_mono) simp_all

lemma calibrated_mono:
  assumes "mono rnd" "0 \<le> factor" "m \<le> n"
  shows "calibrated_estimate rnd m factor \<le> calibrated_estimate rnd n factor"
proof -
  have "rnd (real m) * factor \<le> rnd (real n) * factor"
    using assms(2,3) by (intro mult_right_mono monoD [OF assms(1)]) simp_all
  then have "\<lceil>rnd (rnd (real m) * factor)\<rceil> \<le> \<lceil>rnd (rnd (real n) * factor)\<rceil>"
    by (intro ceiling_mono monoD [OF assms(1)])
  then show ?thesis
    unfolding calibrated_estimate_def by (intro f64_as_usize_mono max.mono) simp_all
qed

lemma compacted_shape:
  "build_compacted_messages summary recent =
     text_message ''user'' (REFERENCE_ONLY_HEADER @ [LF, LF] @ summary) #
     drop_last_assistant (merge_messages recent)"
  by (simp add: build_compacted_messages_def drop_last_assistant_def text_message_def)

lemma estimate_mono:
  "length a \<le> length b \<Longrightarrow>
   estimate_prompt_tokens render '''' (build_compacted_messages a recent) None
     \<le> estimate_prompt_tokens render '''' (build_compacted_messages b recent) None"
  unfolding compacted_shape estimate_prompt_tokens_def
  by (intro max.mono div_le_mono) (simp_all add: message_chars_def text_message_def)

lemma fits_mono:
  assumes "mono (ce_round env)" "0 \<le> ce_factor env" "length a \<le> length b"
    and "fits_target env target (build_compacted_messages b recent)"
  shows "fits_target env target (build_compacted_messages a recent)"
  using calibrated_mono [OF assms(1,2) estimate_mono [OF assms(3)]] assms(4)
  unfolding fits_target_def by (meson order_trans)

lemma take_chars_mono: "m \<le> n \<Longrightarrow> length (take_chars m s) \<le> length (take_chars n s)"
proof -
  assume "m \<le> n"
  then have "take n (utf8_chars s) = take m (utf8_chars s) @ take (n - m) (drop m (utf8_chars s))"
    using take_add [of m "n - m" "utf8_chars s"] by simp
  then show ?thesis by (simp add: take_chars_def)
qed

lemma truncate_mono:
  "m \<le> n \<Longrightarrow> n < char_count s \<Longrightarrow>
   length (truncate_summary_for_target s m) \<le> length (truncate_summary_for_target s n)"
  using take_chars_mono by (simp add: truncate_summary_for_target_def)

text \<open>The search is the specification: the longest summary whose conversation fits the target.\<close>

lemma targeted_longest:
  assumes env: "mono (ce_round env)" "0 \<le> ce_factor env" and target: "target \<noteq> 0"
    and big: "\<not> fits_target env target (build_compacted_messages summary recent)"
  defines "candidate \<equiv> (\<lambda>n. build_compacted_messages (truncate_summary_for_target summary n) recent)"
  shows "build_targeted_compacted_messages env summary recent target =
    (case greatest_fit (\<lambda>n. fits_target env target (candidate n)) (char_count summary) of
       Some n \<Rightarrow> candidate n | None \<Rightarrow> build_compacted_messages '''' recent)"
proof -
  let ?fits = "\<lambda>n. fits_target env target (candidate n)"
  have whole: "\<not> ?fits (char_count summary)"
    using big by (simp add: candidate_def truncate_summary_for_target_def)
  have "?fits i" if "i \<le> j" "j \<le> char_count summary" "?fits j" for i j
  proof -
    have "j \<noteq> char_count summary" using whole that(3) by metis
    then have "j < char_count summary" using that(2) by simp
    from fits_mono [OF env truncate_mono [OF that(1) this]] that(3) show ?thesis
      unfolding candidate_def by blast
  qed
  then have "longest_fit ?fits 0 (char_count summary) None = greatest_fit ?fits (char_count summary)"
    by (intro longest_fit_greatest) auto
  then show ?thesis
    using target big unfolding candidate_def by (simp add: build_targeted_compacted_messages_def Let_def)
qed

section \<open>Tool blocks stay whole\<close>

text \<open>
  Every tool message directly follows, in its block, the assistant message whose call it answers;
  \<open>open_ids\<close> are the calls of the message that opened the block.
\<close>

fun results_called :: "string set \<Rightarrow> 'j llm_message list \<Rightarrow> bool" where
  "results_called open_ids [] = True"
| "results_called open_ids (m # ms) =
     (if is_tool m
      then (case lm_tool_call_id m of Some i \<Rightarrow> i \<in> open_ids | None \<Rightarrow> False) \<and> results_called open_ids ms
      else results_called (if calls_tools m then set (call_ids m) else {}) ms)"

lemma results_called_anywhere:
  "ms = [] \<or> \<not> is_tool (hd ms) \<Longrightarrow> results_called X ms = results_called Y ms"
  by (cases ms) auto

text \<open>A tool message has its parent before it.\<close>

lemma results_called_parent:
  "results_called X ms \<Longrightarrow> i < length ms \<Longrightarrow> is_tool (ms ! i) \<Longrightarrow>
   \<exists>c. lm_tool_call_id (ms ! i) = Some c \<and>
     (c \<in> X \<or> (\<exists>j < i. calls_tools (ms ! j) \<and> c \<in> set (call_ids (ms ! j))))"
proof (induction ms arbitrary: X i)
  case (Cons m ms)
  show ?case
  proof (cases i)
    case 0
    then show ?thesis using Cons.prems by (auto split: option.splits)
  next
    case (Suc k)
    define Y where "Y = (if is_tool m then X else if calls_tools m then set (call_ids m) else {})"
    have rc: "results_called Y ms" using Cons.prems(1) by (simp add: Y_def split: if_splits)
    have "k < length ms" "is_tool (ms ! k)" using Cons.prems(2,3) Suc by simp_all
    from Cons.IH [OF rc this]
    obtain c where c: "lm_tool_call_id (ms ! k) = Some c"
      "c \<in> Y \<or> (\<exists>j < k. calls_tools (ms ! j) \<and> c \<in> set (call_ids (ms ! j)))" by blast
    have "c \<in> X \<or> (\<exists>j < Suc k. calls_tools ((m # ms) ! j) \<and> c \<in> set (call_ids ((m # ms) ! j)))"
    proof (cases "c \<in> Y")
      case True
      then show ?thesis by (auto simp: Y_def split: if_splits intro!: exI [of _ "0 :: nat"])
    next
      case False
      then obtain j where "j < k" "calls_tools (ms ! j)" "c \<in> set (call_ids (ms ! j))" using c(2) by blast
      then have "Suc j < Suc k \<and> calls_tools ((m # ms) ! Suc j) \<and> c \<in> set (call_ids ((m # ms) ! Suc j))" by simp
      then show ?thesis by blast
    qed
    then show ?thesis using c(1) Suc by simp
  qed
qed simp

lemma results_called_drop:
  "results_called X ms \<Longrightarrow> n = length ms \<or> n < length ms \<and> \<not> is_tool (ms ! n) \<Longrightarrow> results_called Y (drop n ms)"
proof (induction ms arbitrary: X n)
  case (Cons m ms)
  show ?case
  proof (cases n)
    case 0
    then show ?thesis using Cons.prems by auto
  next
    case (Suc k)
    then show ?thesis using Cons by (auto split: if_splits)
  qed
qed simp

lemma tools_answered_drop: "tools_answered ms \<Longrightarrow> tools_answered (drop n ms)"
proof (induction ms arbitrary: n)
  case (Cons m ms)
  then show ?case by (cases n) auto
qed simp

lemma call_ids_calls: "c \<in> set (call_ids m) \<Longrightarrow> lm_tool_calls m \<noteq> []"
  by (auto simp: call_ids_def)

lemma find_SomeD: "List.find P xs = Some x \<Longrightarrow> x \<in> set xs \<and> P x"
  by (induction xs) (auto split: if_splits)

lemma parent_calls: "find_tool_call_parent ms i c = Some j \<Longrightarrow> j < i \<and> calls_tools (ms ! j)"
  by (auto simp: find_tool_call_parent_def dest!: find_SomeD)

lemma parent_found:
  "j < i \<Longrightarrow> calls_tools (ms ! j) \<Longrightarrow> c \<in> set (call_ids (ms ! j)) \<Longrightarrow> find_tool_call_parent ms i c \<noteq> None"
  by (auto simp: find_tool_call_parent_def find_None_iff)

text \<open>The split is never inside a tool block.\<close>

lemma tool_safe_stop:
  "i \<le> length ms \<Longrightarrow>
   tool_safe_from ms i = length ms \<or> tool_safe_from ms i < length ms \<and> \<not> is_tool (ms ! tool_safe_from ms i)"
proof (induction ms i rule: tool_safe_from.induct)
  case (1 ms i)
  show ?case
  proof (cases "length ms \<le> i \<or> \<not> is_tool (ms ! i)")
    case True
    then show ?thesis using "1.prems" by (auto simp: tool_safe_from.simps [of ms i])
  next
    case False
    then show ?thesis
      using "1.IH" [OF False] parent_calls [of ms i]
      by (simp add: tool_safe_from.simps [of ms i] split: option.split) (meson less_imp_le_nat less_trans not_le)
  qed
qed

text \<open>It moves forward at most to the next message that is not a tool message.\<close>

lemma tool_safe_before:
  "i \<le> q \<Longrightarrow> q < length ms \<Longrightarrow> \<not> is_tool (ms ! q) \<Longrightarrow> tool_safe_from ms i \<le> q"
proof (induction ms i rule: tool_safe_from.induct)
  case (1 ms i)
  show ?case
  proof (cases "length ms \<le> i \<or> \<not> is_tool (ms ! i)")
    case True
    then show ?thesis using "1.prems" by (simp add: tool_safe_from.simps [of ms i])
  next
    case False
    then have "i < q" using "1.prems" le_neq_implies_less by blast
    then show ?thesis
      using "1.IH" [OF False] parent_calls [of ms i] "1.prems" False
      by (simp add: tool_safe_from.simps [of ms i] split: option.split) (meson less_trans less_imp_le_nat)
  qed
qed

text \<open>Where every result has its call, the split only moves backwards.\<close>

lemma tool_safe_back:
  assumes "results_called {} ms" "i \<le> length ms"
  shows "tool_safe_from ms i \<le> i"
proof (cases "length ms \<le> i \<or> \<not> is_tool (ms ! i)")
  case True
  then show ?thesis by (simp add: tool_safe_from.simps [of ms i])
next
  case False
  then obtain c j where c: "lm_tool_call_id (ms ! i) = Some c"
    and j: "j < i" "calls_tools (ms ! j)" "c \<in> set (call_ids (ms ! j))"
    using results_called_parent [OF assms(1), of i] by auto
  obtain k where k: "find_tool_call_parent ms i c = Some k" using parent_found [OF j] by auto
  have "k < i" "\<not> is_tool (ms ! k)" using parent_calls [OF k] tool_calls_none by blast+
  then show ?thesis using False c k by (simp add: tool_safe_from.simps [of ms i] tool_safe_from.simps [of ms k])
qed

lemma split_safe:
  assumes "results_called {} ms"
  shows "compaction_split_at ms k = length ms \<or>
      compaction_split_at ms k < length ms \<and> \<not> is_tool (ms ! compaction_split_at ms k)"
    "compaction_split_at ms k \<le> length ms - min k (length ms)"
    "latest_user ms = Some i \<Longrightarrow> compaction_split_at ms k \<le> i"
proof -
  let ?p = "min (length ms - min k (length ms))
    (case latest_user ms of Some i \<Rightarrow> i | None \<Rightarrow> length ms - min k (length ms))"
  have eq: "compaction_split_at ms k = tool_safe_from ms (min ?p (length ms))"
    by (simp add: compaction_split_at_def tool_safe_split_at_def Let_def)
  show "compaction_split_at ms k = length ms \<or>
      compaction_split_at ms k < length ms \<and> \<not> is_tool (ms ! compaction_split_at ms k)"
    unfolding eq by (rule tool_safe_stop) simp
  have le: "compaction_split_at ms k \<le> ?p"
    unfolding eq using tool_safe_back [OF assms, of "min ?p (length ms)"] by simp
  then show "compaction_split_at ms k \<le> length ms - min k (length ms)" by simp
  show "latest_user ms = Some i \<Longrightarrow> compaction_split_at ms k \<le> i" using le by simp
qed

lemma merge_pair_simps [simp]:
  "lm_role (merge_pair l r) = lm_role l" "lm_tool_calls (merge_pair l r) = lm_tool_calls l"
  "lm_tool_call_id (merge_pair l r) = lm_tool_call_id l" "is_tool (merge_pair l r) = is_tool l"
  "calls_tools (merge_pair l r) = calls_tools l" "call_ids (merge_pair l r) = call_ids l"
  by (simp_all add: merge_pair_def is_tool_def calls_tools_def call_ids_def)

lemma merged_same:
  "can_merge_compacted_messages l r \<Longrightarrow>
   is_tool l = is_tool r \<and> \<not> calls_tools l \<and> \<not> calls_tools r \<and> answered_ids [l] = {} \<and> answered_ids [r] = {}"
  by (auto simp: can_merge_compacted_messages_def is_tool_def calls_tools_def answered_ids_def List.map_filter_def)

lemma answered_ids_Cons: "answered_ids (m # ms) = answered_ids [m] \<union> answered_ids ms"
  using answered_ids_append [of "[m]" ms] by simp

lemma answered_ids_merge_pair [simp]: "answered_ids [merge_pair l r] = answered_ids [l]"
  by (simp add: answered_ids_def List.map_filter_def)

lemma merge_answered_ids:
  "answered_ids (takeWhile is_tool (merge_from l ms)) = answered_ids (takeWhile is_tool (l # ms))"
proof (induction l ms rule: merge_from.induct)
  case (2 l r ms)
  show ?case
  proof (cases "can_merge_compacted_messages l r")
    case True
    then show ?thesis
      using "2.IH"(1) [OF True] merged_same [OF True] answered_ids_Cons [of l "r # takeWhile is_tool ms"]
        answered_ids_Cons [of r "takeWhile is_tool ms"]
        answered_ids_Cons [of "merge_pair l r" "takeWhile is_tool ms"] by simp
  next
    case False
    then show ?thesis
      using "2.IH"(2) [OF False] answered_ids_Cons [of l "takeWhile is_tool (merge_from r ms)"]
        answered_ids_Cons [of l "takeWhile is_tool (r # ms)"] by simp
  qed
qed simp

lemma merge_answered: "tools_answered (l # ms) \<Longrightarrow> tools_answered (merge_from l ms)"
proof (induction l ms rule: merge_from.induct)
  case (2 l r ms)
  then show ?case using merged_same [of l r] merge_answered_ids [of r ms] by auto
qed simp

lemma merge_results_called: "results_called X (l # ms) \<Longrightarrow> results_called X (merge_from l ms)"
proof (induction l ms arbitrary: X rule: merge_from.induct)
  case (2 l r ms)
  show ?case
  proof (cases "can_merge_compacted_messages l r")
    case True
    then have "\<not> is_tool l" using "2.prems" by (auto simp: can_merge_compacted_messages_def split: if_splits)
    then show ?thesis
      using "2.IH"(1) [OF True, of X] True "2.prems" merged_same [OF True] by simp
  next
    case False
    show ?thesis
    proof (cases "is_tool l")
      case True
      then show ?thesis using "2.IH"(2) [OF False, of X] False "2.prems" by simp
    next
      case no: False
      then show ?thesis
        using "2.IH"(2) [OF False, of "if calls_tools l then set (call_ids l) else {}"] False "2.prems" by simp
    qed
  qed
qed simp

lemma results_called_append: "results_called X (xs @ ys) \<Longrightarrow> results_called X xs"
  by (induction xs arbitrary: X) (auto split: if_splits)

lemma tools_answered_butlast: "\<not> is_tool m \<Longrightarrow> tools_answered (xs @ [m]) \<Longrightarrow> tools_answered xs"
proof (induction xs)
  case (Cons x xs)
  have "takeWhile is_tool (xs @ [m]) = takeWhile is_tool xs"
    using Cons.prems(1) by (induction xs) auto
  then show ?case using Cons by auto
qed simp

lemma drop_last_keeps:
  "tools_answered ms \<Longrightarrow> tools_answered (drop_last_assistant ms)"
  "results_called X ms \<Longrightarrow> results_called X (drop_last_assistant ms)"
proof -
  have eq: "ms = butlast ms @ [last ms]" if "ms \<noteq> []" using that by simp
  show "tools_answered ms \<Longrightarrow> tools_answered (drop_last_assistant ms)"
    using tools_answered_butlast [of "last ms" "butlast ms"]
    by (auto simp: drop_last_assistant_def is_tool_def)
  show "results_called X ms \<Longrightarrow> results_called X (drop_last_assistant ms)"
    using results_called_append [of X "butlast ms" "[last ms]"] by (auto simp: drop_last_assistant_def)
qed

lemma merge_messages_keeps:
  "tools_answered ms \<Longrightarrow> tools_answered (merge_messages ms)"
  "results_called X ms \<Longrightarrow> results_called X (merge_messages ms)"
  by (cases ms; simp add: merge_answered merge_results_called del: tools_answered.simps(2) results_called.simps(2))+

lemma compacted_answered: "tools_answered ms \<Longrightarrow> tools_answered (build_compacted_messages summary ms)"
  unfolding compacted_shape
  by (simp add: drop_last_keeps merge_messages_keeps is_tool_def calls_tools_def text_message_def)

lemma compacted_called:
  assumes "results_called X ms" "ms = [] \<or> \<not> is_tool (hd ms)"
  shows "results_called {} (build_compacted_messages summary ms)"
proof -
  have "results_called {} ms" using results_called_anywhere [OF assms(2)] assms(1) by blast
  then show ?thesis
    unfolding compacted_shape
    by (simp add: drop_last_keeps merge_messages_keeps is_tool_def calls_tools_def text_message_def)
qed

lemma targeted_shape:
  "\<exists>v. build_targeted_compacted_messages env summary recent target = build_compacted_messages v recent"
  unfolding build_targeted_compacted_messages_def Let_def by (auto split: option.split)

text \<open>Either nothing changes, or a summary replaces what is before a split outside the tool blocks.\<close>

definition compacted_from :: "nat \<Rightarrow> json llm_message list \<Rightarrow> nat \<Rightarrow> json llm_message list \<Rightarrow> bool" where
  "compacted_from keep_recent ms n out =
     (0 < n \<and> n \<le> length ms - keep_recent \<and> (\<forall>i. latest_user ms = Some i \<longrightarrow> n \<le> i) \<and>
      (\<exists>summary. out = text_message ''user'' (REFERENCE_ONLY_HEADER @ [LF, LF] @ summary) #
         drop_last_assistant (merge_messages (drop n ms))))"

lemma safety_compact_answered:
  assumes "tools_answered ms"
  shows "tools_answered (safety_compact env reply usable ms)"
proof -
  have "tools_answered (build_targeted_compacted_messages env v (drop n ms) target)" for v n target
    using targeted_shape [of env v "drop n ms" target] compacted_answered [OF tools_answered_drop [OF assms]]
    by auto
  then show ?thesis
    using assms by (auto simp: safety_compact_def select_compaction_slices_def Let_def split: option.split)
qed

lemma safety_compact_keeps:
  assumes "tools_answered ms" "results_called {} ms"
  shows "tools_answered (safety_compact env reply usable ms)"
    "results_called {} (safety_compact env reply usable ms)"
    "safety_compact env reply usable ms = ms \<or>
     (\<exists>n. compacted_from (ce_keep_recent env) ms n (safety_compact env reply usable ms))"
proof -
  let ?out = "safety_compact env reply usable ms"
  let ?k = "min (ce_keep_recent env) (length ms)"
  let ?n = "compaction_split_at ms ?k"
  note safe = split_safe [OF assms(2), of ?k]
  have start: "drop ?n ms = [] \<or> \<not> is_tool (hd (drop ?n ms))" using safe(1) by (auto simp: hd_drop_conv_nth)
  have slices: "select_compaction_slices ms (ce_keep_recent env) =
      (if ?k = length ms \<or> ?n = 0 then None else Some (take ?n ms, drop ?n ms))"
    by (simp add: select_compaction_slices_def Let_def)
  have "?out = ms \<or> (\<exists>v. ?out = build_compacted_messages v (drop ?n ms) \<and> 0 < ?n \<and> ?k < length ms)"
  proof (cases "?k = length ms \<or> ?n = 0 \<or> summarize_old_messages env reply (take ?n ms) usable = None")
    case True
    then show ?thesis unfolding safety_compact_def slices by auto
  next
    case False
    then obtain v where v: "summarize_old_messages env reply (take ?n ms) usable = Some v" by auto
    have "?out = build_targeted_compacted_messages env v (drop ?n ms)
        (compaction_target_tokens (ce_round env) usable (ce_target_ratio env))"
      unfolding safety_compact_def slices using False v by simp
    moreover have "0 < ?n" "?k < length ms" using False by linarith+
    ultimately show ?thesis using targeted_shape by metis
  qed
  then consider "?out = ms"
    | v where "?out = build_compacted_messages v (drop ?n ms)" "0 < ?n" "?k < length ms" by blast
  then have "tools_answered ?out \<and> results_called {} ?out \<and>
    (?out = ms \<or> (\<exists>n. compacted_from (ce_keep_recent env) ms n ?out))"
  proof cases
    case 1
    then show ?thesis using assms by simp
  next
    case (2 v)
    have "compacted_from (ce_keep_recent env) ms ?n ?out"
      using safe(2) split_safe(3) [OF assms(2)] 2 by (auto simp: compacted_from_def compacted_shape)
    then show ?thesis
      using safety_compact_answered [OF assms(1), of env reply usable] compacted_called [OF results_called_drop [OF assms(2) safe(1)] start] 2(1)
      by auto
  qed
  then show "tools_answered ?out" "results_called {} ?out"
    "?out = ms \<or> (\<exists>n. compacted_from (ce_keep_recent env) ms n ?out)" by blast+
qed

section \<open>Properties\<close>

text \<open>
  C12: Compacting a conversation keeps it acceptable to providers. If every call in it is directly
  followed by its answers and every tool result answers a call of its block, the same holds
  afterwards, whatever the summarizer answers. Either nothing is changed, or one reference-only
  summary stands for all before a point outside the tool blocks, not after the latest user
  message and with the configured number of recent messages behind it; of those only plain
  neighbours are merged and a final assistant message is dropped.
\<close>

theorem compaction_keeps_conversation:
  assumes "tools_answered ms" "results_called {} ms"
  shows "tools_answered (maybe_compact_messages env reply system_prompt tools_json ms) \<and>
    results_called {} (maybe_compact_messages env reply system_prompt tools_json ms) \<and>
    (maybe_compact_messages env reply system_prompt tools_json ms = ms \<or>
     (\<exists>n. compacted_from (ce_keep_recent env) ms n (maybe_compact_messages env reply system_prompt tools_json ms)))"
  using assms safety_compact_keeps [OF assms] by (simp add: maybe_compact_messages_def Let_def)

text \<open>
  C13: When the conversation with the whole summary is above the target size, the binary search
  over the length of the summary finds the best one: the longest beginning of the summary (with
  its mark of truncation) with which the conversation still fits the target, and the empty summary
  if none does. The rounding of \<open>f64\<close> is asked to be monotone.
\<close>

theorem summary_cut_is_longest:
  assumes "mono (ce_round env)" "0 \<le> ce_factor env" "target \<noteq> 0"
    and "\<not> fits_target env target (build_compacted_messages summary recent)"
  shows "build_targeted_compacted_messages env summary recent target =
    (case greatest_fit (\<lambda>n. fits_target env target
        (build_compacted_messages (truncate_summary_for_target summary n) recent)) (char_count summary) of
       Some n \<Rightarrow> build_compacted_messages (truncate_summary_for_target summary n) recent
     | None \<Rightarrow> build_compacted_messages '''' recent)"
  using assms by (rule targeted_longest)

definition sample_compact_env :: compact_env where
  "sample_compact_env =
     \<lparr>ce_round = (\<lambda>x. x), ce_render = (\<lambda>_. ''{}''), ce_field = (\<lambda>_ _. None),
      ce_redaction = \<lparr>re_ends_alphanumeric = (\<lambda>_. False), re_contextual = (\<lambda>s. s)\<rparr>, ce_secrets = [],
      ce_context_window = 8192, ce_threshold_ratio = 1, ce_target_ratio = 1, ce_keep_recent = 1,
      ce_factor = 1\<rparr>"

definition sample_call :: "json llm_message" where
  "sample_call = (text_message ''assistant'' ''reading'')\<lparr>lm_tool_calls :=
     [\<lparr>ltc_id = ''c1'', ltc_name = ''read'', ltc_arguments = JNull, ltc_invalid_arguments = None\<rparr>]\<rparr>"

definition sample_block :: "json llm_message list" where
  "sample_block =
     [text_message ''user'' ''first'', text_message ''assistant'' ''ok'', text_message ''user'' ''read it'',
      sample_call, (text_message ''tool'' ''done'')\<lparr>lm_tool_call_id := Some ''c1''\<rparr>]"

lemma sample_block_ok: "tools_answered sample_block" "results_called {} sample_block"
  by (simp_all add: sample_block_def sample_call_def text_message_def is_tool_def calls_tools_def call_ids_def
      answered_ids_def List.map_filter_def)

theorem compaction_keeps_conversation_witness:
  "tools_answered (maybe_compact_messages sample_compact_env (\<lambda>_. SummaryReply ''short'') '''' None sample_block)"
  using compaction_keeps_conversation [OF sample_block_ok] by blast

theorem summary_cut_is_longest_witness:
  "build_targeted_compacted_messages sample_compact_env ''abc'' [] 1 = build_compacted_messages '''' []"
proof -
  have big: "\<not> fits_target sample_compact_env 1 (build_compacted_messages v [])" for v
  proof -
    have "2 \<le> estimate_prompt_tokens (\<lambda>_. ''{}'') '''' (build_compacted_messages v []) None"
      by (simp add: compacted_shape drop_last_assistant_def estimate_prompt_tokens_def message_chars_def
          text_message_def REFERENCE_ONLY_HEADER_def CHARS_PER_TOKEN_ESTIMATE_def)
    then show ?thesis
      by (simp add: fits_target_def sample_compact_env_def calibrated_estimate_def f64_as_usize_def)
  qed
  then have "greatest_fit (\<lambda>n. fits_target sample_compact_env 1
      (build_compacted_messages (truncate_summary_for_target ''abc'' n) [])) (char_count ''abc'') = None"
    by (intro greatest_fit_None)
  then show ?thesis
    using summary_cut_is_longest [of sample_compact_env 1 "''abc''" "[]"] big
    by (simp add: sample_compact_env_def mono_def)
qed

end
