(* ===== verification/Loop_Requests.thy ===== *)
theory Loop_Requests
  imports Turn_Settles Compaction
begin

text \<open>
  What the loop sends to the model: every request, in every iteration and retry, is a conversation
  in which each tool call is directly followed by its answers, as providers demand.
\<close>

section \<open>Answered conversations\<close>

lemma answered_ids_mono: "answered_ids (takeWhile is_tool xs) \<subseteq> answered_ids (takeWhile is_tool (xs @ ys))"
  by (induction xs) (auto simp: answered_ids_def List.map_filter_def)

lemma tools_answered_append:
  "tools_answered xs \<Longrightarrow> tools_answered ys \<Longrightarrow> tools_answered (xs @ ys)"
proof (induction xs)
  case (Cons m xs)
  then show ?case using answered_ids_mono [of xs ys] by auto
qed simp

lemma plain_answered: "\<forall>m \<in> set ms. \<not> calls_tools m \<Longrightarrow> tools_answered ms"
  by (induction ms) auto

lemma call_answered:
  assumes "\<forall>t \<in> set ts. is_tool t" "set (call_ids m) \<subseteq> answered_ids ts"
  shows "tools_answered (m # ts)"
proof -
  have "takeWhile is_tool ts = ts" using assms(1) by (simp add: takeWhile_eq_all_conv)
  moreover have "tools_answered ts" using assms(1) by (intro plain_answered) simp
  ultimately show ?thesis using assms(2) by (simp only: tools_answered.simps) blast
qed

lemma text_calls_none [simp]: "\<not> calls_tools (text_message role v)"
  "\<not> calls_tools ((text_message role v)\<lparr>lm_reasoning_content := r\<rparr>)"
  by (simp_all add: calls_tools_def text_message_def)

lemma guarded_answered: "tools_answered ms \<Longrightarrow> tools_answered (runtime_guard_messages ms v r g)"
  unfolding runtime_guard_messages_def by (rule tools_answered_append) simp_all

lemma empty_retry_answered: "tools_answered ms \<Longrightarrow> tools_answered (empty_retry_messages ms response)"
  by (auto simp: empty_retry_messages_def guarded_answered split: sum.split model_step.split)

section \<open>The model is asked nothing else\<close>

text \<open>Two providers that agree on the requests of a kind that retries stay in.\<close>

definition agree :: "('j llm_message list \<Rightarrow> bool) \<Rightarrow> ('j, 'w) model_env \<Rightarrow> (nat \<Rightarrow> 'j llm_message list \<Rightarrow> 'j exchange) \<Rightarrow> bool" where
  "agree P env q = ((\<forall>n ms. P ms \<longrightarrow> me_provider env n ms = q n ms) \<and>
     (\<forall>ms response. P ms \<longrightarrow> P (empty_retry_messages ms response)))"

lemma send_agrees:
  "agree P env q \<Longrightarrow> P ms \<Longrightarrow> send_model_step (env\<lparr>me_provider := q\<rparr>) d ms st = send_model_step env d ms st"
  by (simp add: agree_def send_model_step_def)

lemma send_empty_agrees:
  assumes "agree P env q" "P ms"
  shows "send_model_step_with_empty_retry (env\<lparr>me_provider := q\<rparr>) d ms st =
    send_model_step_with_empty_retry env d ms st"
proof -
  have retry: "P (empty_retry_messages ms response)" for response using assms by (simp add: agree_def)
  obtain r st1 where "send_model_step env d ms st = (r, st1)" by (rule prod.exhaust)
  then show ?thesis
    using send_agrees [OF assms] send_agrees [OF assms(1) retry]
    by (simp add: send_model_step_with_empty_retry_def split: option.split)
qed

lemma send_empty_kind:
  assumes "agree P env q" "P ms" "send_model_step_with_empty_retry env d ms st = (Some (Inl (e, ms')), st')"
  shows "P ms'"
proof -
  have "P (empty_retry_messages ms response)" for response using assms by (simp add: agree_def)
  then show ?thesis using assms(2,3)
    by (auto simp: send_model_step_with_empty_retry_def with_messages_def map_err_def Let_def
        split: option.splits prod.splits if_splits sum.splits)
qed

lemma retry_agrees:
  "agree P env q \<Longrightarrow> P ms \<Longrightarrow>
   retry_from (env\<lparr>me_provider := q\<rparr>) d attempt ms st = retry_from env d attempt ms st"
proof (induction env d attempt ms st rule: retry_from.induct)
  case (1 env deadline attempt ms st)
  obtain outcome st1 where run: "send_model_step_with_empty_retry env deadline ms st = (outcome, st1)"
    by (rule prod.exhaust)
  note run' = send_empty_agrees [OF 1(2,3), of deadline st, unfolded run]
  show ?case
  proof (cases "case outcome of Some r \<Rightarrow> r | None \<Rightarrow> Inl (LlmFailure DeadlineExceeded, ms)")
    case (Inr step)
    then show ?thesis using run run' by (simp add: retry_from.simps)
  next
    case (Inl failed)
    obtain e ms1 where failed: "failed = (e, ms1)" by (rule prod.exhaust)
    have kind: "P ms1"
      using Inl failed send_empty_kind [OF 1(2,3)] run 1(3) by (auto split: option.splits)
    obtain millis world where hook: "me_before_retry env (is_world st1) = (millis, world)" by (rule prod.exhaust)
    let ?backoff = "llm_retry_backoff (me_random_range env) attempt e"
    let ?st2 = "st1\<lparr>is_world := world,
      is_clock := is_clock st1 + min (millis + ?backoff) (deadline - is_clock st1)\<rparr>"
    let ?retry = "retryable_error e \<and> \<not> is_published st1 \<and>
      (case me_max_backoff env of None \<Rightarrow> True | Some limit \<Rightarrow> ?backoff \<le> limit) \<and>
      ?backoff < deadline - is_clock st1 \<and> attempt < MAX_LLM_RETRIES"
    have eq: "retry_from env deadline attempt ms st =
      (if \<not> ?retry then (Inl (e, is_published st1), st1)
       else if deadline - is_clock st1 < millis + ?backoff then (Inl (e, is_published st1), ?st2)
       else retry_from env deadline (attempt + 1) ms1 ?st2)"
      using run Inl failed hook by (subst retry_from.simps) (simp add: Let_def)
    have eq': "retry_from (env\<lparr>me_provider := q\<rparr>) deadline attempt ms st =
      (if \<not> ?retry then (Inl (e, is_published st1), st1)
       else if deadline - is_clock st1 < millis + ?backoff then (Inl (e, is_published st1), ?st2)
       else retry_from (env\<lparr>me_provider := q\<rparr>) deadline (attempt + 1) ms1 ?st2)"
      using run' Inl failed hook by (subst retry_from.simps) (simp add: Let_def)
    show ?thesis
    proof (cases "?retry \<and> \<not> deadline - is_clock st1 < millis + ?backoff")
      case False
      then show ?thesis unfolding eq eq' by argo
    next
      case True
      then show ?thesis
        using 1(1) [OF run [symmetric] refl Inl [unfolded failed] refl refl refl _ hook [symmetric] refl refl refl refl
            _ 1(2) kind] True
        unfolding eq eq' by simp
    qed
  qed
qed

lemma run_with_retry_agrees:
  assumes "\<And>n ms. tools_answered ms \<Longrightarrow> p n ms = q n ms" "tools_answered ms"
  shows "run_with_retry q rr now hook started i iteration h ms db =
    run_with_retry p rr now hook started i iteration h ms db"
proof -
  have "agree tools_answered \<lparr>me_provider = p, me_publishes = True, me_max_backoff = None,
      me_before_retry = count_attempt now i hook, me_random_range = rr\<rparr> q"
    unfolding agree_def using assms(1) empty_retry_answered by simp blast
  from retry_agrees [OF this assms(2)]
  have "retry_transient_failures \<lparr>me_provider = q, me_publishes = True, me_max_backoff = None,
      me_before_retry = count_attempt now i hook, me_random_range = rr\<rparr> ms started d =
    retry_transient_failures \<lparr>me_provider = p, me_publishes = True, me_max_backoff = None,
      me_before_retry = count_attempt now i hook, me_random_range = rr\<rparr> ms started d" for d
    by (simp add: retry_transient_failures_def)
  then show ?thesis unfolding run_with_retry_def by presburger
qed

lemma retry_step:
  assumes "retry_transient_failures env ms started world = (Inr step, st)"
  shows "well_formed_step step"
proof -
  have "iteration_ok ms (started + MODEL_ITERATION_DEADLINE) (Inr step) st"
    using assms unfolding retry_transient_failures_def
    by (rule retry_from_ok [rotated -1]) (simp_all add: attempt_ok_def MAX_LLM_RETRIES_def)
  then show ?thesis by (simp add: iteration_ok_def)
qed

lemma run_with_retry_step:
  "run_with_retry p rr now hook started i iteration h ms db = (Inr step, db') \<Longrightarrow> well_formed_step step"
  by (auto simp: run_with_retry_def dest: retry_step split: sum.splits if_splits prod.splits)

section \<open>What the parts of a Turn hand on\<close>

definition answered :: "json persisted_turn \<Rightarrow> bool" where
  "answered p = tools_answered (pt_messages p)"

text \<open>The compaction keeps conversations answered, as \<open>maybe_compact_messages\<close> does.\<close>

definition compacts_answered :: "('x, 'z) turn_env_scheme \<Rightarrow> bool" where
  "compacts_answered env = (\<forall>c ms. tools_answered ms \<longrightarrow> gives (te_compact env c ms) tools_answered)"

lemma givesI: "(\<And>s a s'. m s = (Inr a, s') \<Longrightarrow> P a) \<Longrightarrow> gives m P"
  unfolding gives_def by blast

lemma givesD: "gives m P \<Longrightarrow> m s = (Inr a, s') \<Longrightarrow> P a"
  unfolding gives_def by blast

lemma gives_return: "P a \<Longrightarrow> gives (sreturn a) P"
  by (simp add: gives_def sreturn_def)

lemma gives_fail: "gives (sfail e) P"
  by (simp add: gives_def sfail_def)

lemma gives_True: "gives m (\<lambda>_. True)"
  by (simp add: gives_def)

lemma gives_bind: "gives m Q \<Longrightarrow> (\<And>a. Q a \<Longrightarrow> gives (k a) P) \<Longrightarrow> gives (sbind m k) P"
  by (rule givesI) (auto simp: sbind_def dest: givesD split: prod.splits sum.splits)

lemma gives_then: "(\<And>a. gives (k a) P) \<Longrightarrow> gives (sbind m k) P"
  by (rule gives_bind [OF gives_True])

lemma gives_conflict: "gives m P \<Longrightarrow> gives again P \<Longrightarrow> gives (on_conflict again m) P"
  by (rule givesI) (auto simp: on_conflict_def dest: givesD split: prod.splits sum.splits if_splits)

lemma bind_cong: "gives m P \<Longrightarrow> (\<And>a. P a \<Longrightarrow> k a = k' a) \<Longrightarrow> sbind m k = sbind m k'"
  by (rule ext) (auto simp: sbind_def dest: givesD split: prod.split sum.split)

lemma loaded_answered: "tools_answered (ls_messages (snapshot_to_loaded env store s))"
proof -
  have "tools_answered (ls_messages (loaded_from_recent s))"
    by (simp add: loaded_from_recent_def plain_answered)
  then show ?thesis
    by (auto simp: snapshot_to_loaded_def repair_answers split: option.split sum.split)
qed

lemma load_limit_answered:
  "load_messages_for_turn_with_limit env c n w = Inr loaded \<Longrightarrow> tools_answered (ls_messages loaded)"
  using loaded_answered by (auto simp: load_messages_for_turn_with_limit_def res_simps)

lemma gives_load: "gives (load_turn_messages env c) (\<lambda>loaded. tools_answered (ls_messages loaded))"
proof (rule givesI)
  fix s loaded s' assume "load_turn_messages env c s = (Inr loaded, s')"
  then obtain w where "load_messages_for_turn_with_limit (te_session env) c (te_max_history env) w = Inr loaded"
    by (auto simp: load_turn_messages_def on_world_def map_err_def Let_def split: sum.splits)
  then show "tools_answered (ls_messages loaded)" by (rule load_limit_answered)
qed

lemma store_phase_messages:
  "store_phase_snapshot env now m ms revision w = (Inr p, w') \<Longrightarrow> pt_messages p = ms"
  by (auto simp: store_phase_snapshot_def Let_def split: sum.splits)

text \<open>A phase is stored behind the messages given or behind a reloaded session.\<close>

lemma persist_phase_kinds:
  assumes "persist_phase_messages env clock others m phase ms revision w = (Inr p, w')"
  shows "pt_messages p = ms \<or> (\<exists>loaded. tools_answered loaded \<and> pt_messages p = loaded @ phase)"
proof -
  obtain first w1 where store: "store_phase_snapshot env (clock 0) m ms revision w = (first, w1)"
    by (rule prod.exhaust)
  show ?thesis
  proof (cases "\<exists>turn. first = Inr turn")
    case True
    then show ?thesis using assms store store_phase_messages [of env "clock 0" m ms revision w]
      by (auto simp: persist_phase_messages_def persisted_turn_or_retry_def)
  next
    case False
    then obtain refreshed w2 where "load_messages_for_turn env (msg_chat_id m) w2 = Inr refreshed"
      "store_phase_snapshot env (clock 1) m (ls_messages refreshed @ phase) (ls_session_revision refreshed)
        (others 1 w2) = (Inr p, w')"
      using assms store
      by (auto simp: persist_phase_messages_def persisted_turn_or_retry_def Let_def split: sum.splits if_splits)
    then show ?thesis
      using load_limit_answered store_phase_messages unfolding load_messages_for_turn_def by metis
  qed
qed

lemma gives_persist_phase:
  "gives (persist_turn_phase env m phase ms revision)
     (\<lambda>p. pt_messages p = ms \<or> (\<exists>loaded. tools_answered loaded \<and> pt_messages p = loaded @ phase))"
proof (rule givesI)
  fix s p s' assume "persist_turn_phase env m phase ms revision s = (Inr p, s')"
  then obtain clock others w w' where
    "persist_phase_messages (te_session env) clock others m phase ms revision w = (Inr p, w')"
    by (auto simp: persist_turn_phase_def on_world_def map_err_def Let_def split: sum.splits prod.splits)
  then show "pt_messages p = ms \<or> (\<exists>loaded. tools_answered loaded \<and> pt_messages p = loaded @ phase)"
    by (rule persist_phase_kinds)
qed

lemma gives_staged:
  assumes "tools_answered ms" "gives again answered"
  shows "gives (staged_attempt env i again ms revision) answered"
proof -
  have "tools_answered (staged_candidate env ms staged)" for staged
    unfolding staged_candidate_def by (intro tools_answered_append assms(1) plain_answered) simp
  then show ?thesis
    unfolding staged_attempt_def Let_def using assms
    by (intro gives_then) (auto intro!: gives_then gives_return gives_conflict simp: answered_def)
qed

lemma gives_commit_staged: "tools_answered ms \<Longrightarrow> gives (commit_staged env c i ms revision) answered"
proof (cases revision)
  case None
  assume "tools_answered ms"
  then show ?thesis using None
    by (auto simp: commit_staged_def answered_def intro!: gives_then gives_return gives_fail)
next
  case (Some v)
  assume ms: "tools_answered ms"
  have "gives (case ls_session_revision loaded of
      None \<Rightarrow> sfail (StorageFailure SessionSnapshotConflict)
    | Some revision \<Rightarrow> staged_attempt env i (sfail (StorageFailure SessionSnapshotConflict))
        (ls_messages loaded) revision) answered" if "tools_answered (ls_messages loaded)" for loaded
    using that by (auto intro!: gives_fail gives_staged split: option.split)
  then show ?thesis using Some ms
    by (auto simp: commit_staged_def intro!: gives_staged gives_bind [OF gives_load])
qed

text \<open>The messages of the results answer the calls.\<close>

definition answer_calls :: "json llm_tool_call list \<Rightarrow> json llm_message list \<Rightarrow> bool" where
  "answer_calls calls ts = ((\<forall>t \<in> set ts. is_tool t) \<and> answered_ids ts = ltc_id ` set calls)"

lemma gives_execute_tools:
  "gives (execute_tools env pr mid calls denials) (\<lambda>(results, _). answer_calls calls (trp_tool_messages results))"
proof (rule givesI)
  fix s a s' assume run: "execute_tools env pr mid calls denials s = (Inr a, s')"
  let ?xe = "executor_env_of env pr (te_others env s)"
  obtain outs st where "execute ?xe mid calls [] (denials, te_others env s) = (Inr outs, st)"
    and a: "fst a = build_tool_result_phase ?xe outs"
    using run by (auto simp: execute_tools_def Let_def split: prod.splits sum.splits)
  then have outs: "list_all2 (answers ?xe) calls outs" using execute_answers by fastforce
  then have "\<forall>t \<in> set (map ec_message outs). is_tool t"
    by (induction rule: list_all2_induct) (auto simp: answers_def is_tool_def)
  moreover from outs have "answered_ids (map ec_message outs) = ltc_id ` set calls"
    by (induction rule: list_all2_induct) (auto simp: answers_def answered_ids_def List.map_filter_def)
  ultimately show "case a of (results, _) \<Rightarrow> answer_calls calls (trp_tool_messages results)"
    using a by (simp add: case_prod_beta answer_calls_def build_tool_result_phase_def Let_def)
qed

text \<open>A conversation that ends in the calls of a phase.\<close>

definition calls_open :: "json assistant_tool_phase \<Rightarrow> json llm_message list \<Rightarrow> bool" where
  "calls_open phase ms = (\<exists>before. tools_answered before \<and> ms = before @ [atph_assistant_message phase])"

lemma gives_tool_call:
  "tools_answered ms \<Longrightarrow>
   gives (persist_tool_call env c i mid phase ms revision) (\<lambda>p. calls_open phase (pt_messages p))"
proof (rule givesI)
  fix s p s'
  assume ms: "tools_answered ms" and "persist_tool_call env c i mid phase ms revision s = (Inr p, s')"
  then obtain m where "persist_turn_phase env m [atph_assistant_message phase]
      (ms @ [atph_assistant_message phase]) revision s = (Inr p, s')"
    by (auto simp: persist_tool_call_def Let_def)
  then show "calls_open phase (pt_messages p)"
    using ms by (auto dest!: givesD [OF gives_persist_phase] simp: calls_open_def)
qed

lemma results_answer:
  assumes "calls_open phase ms" "answer_calls (atph_tool_calls phase) ts" "well_formed_step (ToolCalls phase)"
  shows "tools_answered (ms @ ts)"
proof -
  obtain before where before: "tools_answered before" "ms = before @ [atph_assistant_message phase]"
    using assms(1) by (auto simp: calls_open_def)
  have "set (call_ids (atph_assistant_message phase)) \<subseteq> answered_ids ts"
    using assms(2,3) by (auto simp: answer_calls_def call_ids_def)
  then have "tools_answered (atph_assistant_message phase # ts)"
    using assms(2) by (intro call_answered) (auto simp: answer_calls_def)
  from tools_answered_append [OF before(1) this] before(2) show ?thesis by simp
qed

lemma gives_tool_results:
  assumes calls: "calls_open phase ms" and ts: "answer_calls (atph_tool_calls phase) ts"
    and step: "well_formed_step (ToolCalls phase)"
  shows "gives (persist_tool_results env c i mid ms ts preview revision) answered"
proof (rule givesI)
  fix s p s' assume run: "persist_tool_results env c i mid ms ts preview revision s = (Inr p, s')"
  note all = results_answer [OF calls ts step]
  show "answered p"
  proof (cases "ts = []")
    case True
    then show ?thesis using run all by (auto simp: persist_tool_results_def answered_def)
  next
    case False
    then obtain m where "persist_turn_phase env m ts (ms @ ts) revision s = (Inr p, s')"
      using run by (auto simp: persist_tool_results_def Let_def)
    then consider "pt_messages p = ms @ ts"
      | loaded where "tools_answered loaded" "pt_messages p = loaded @ ts"
      by (auto dest!: givesD [OF gives_persist_phase])
    moreover have "tools_answered ts"
      using ts by (intro plain_answered) (auto simp: answer_calls_def)
    ultimately show ?thesis using all by cases (auto simp: answered_def intro: tools_answered_append)
  qed
qed

section \<open>The loop\<close>

definition loop_ok :: "loop_state \<Rightarrow> bool" where
  "loop_ok ls = (tools_answered (lp_messages ls) \<and> (\<forall>ms. lp_retry_messages ls = Some ms \<longrightarrow> tools_answered ms))"

lemma gives_tool_phase:
  assumes ls: "loop_ok ls" "lp_retry_messages ls = None" and step: "well_formed_step (ToolCalls phase)"
  shows "gives (execute_tool_phase env pr ls phase mid) (\<lambda>ls'. loop_ok ls' \<and> lp_retry_messages ls' = None)"
  unfolding execute_tool_phase_def Let_def
  apply (rule gives_then, rule gives_then, rule gives_then)
  apply (rule gives_bind [OF gives_tool_call])
  subgoal using ls(1) by (simp add: loop_ok_def)
  apply (rule gives_bind [OF gives_execute_tools])
  apply (clarify, rule gives_bind [OF gives_tool_results [OF _ _ step]], assumption, assumption)
  apply (rule gives_then)
  apply (rule gives_bind [OF gives_commit_staged])
  subgoal by (simp add: answered_def)
  subgoal using ls(2) by (intro gives_return) (simp add: loop_ok_def answered_def)
  done

lemma gives_compact:
  assumes "compacts_answered env" "tools_answered ms"
  shows "gives (compact_or_keep env c ms) tools_answered"
proof (rule givesI)
  fix s a s' assume "compact_or_keep env c ms s = (Inr a, s')"
  then show "tools_answered a"
    using assms(2) givesD [of "te_compact env c ms" tools_answered] assms(1)
    by (auto simp: compact_or_keep_def compacts_answered_def split: prod.splits sum.splits)
qed

lemma end_turn_kinds:
  assumes "tools_answered ms"
  shows "evaluate_end_turn lower v r a ms = (Inr (Retry ms'), a') \<Longrightarrow> tools_answered ms'"
    "evaluate_malformed_response lower v r a ms = (Inr (Retry ms'), a') \<Longrightarrow> tools_answered ms'"
  using assms guarded_answered
  by (auto simp: evaluate_end_turn_def evaluate_malformed_response_def Let_def split: if_splits)

lemma gives_act:
  assumes "loop_ok ls" "\<And>ms a. evaluated = (Inr (Retry ms), a) \<Longrightarrow> tools_answered ms"
  shows "gives (act_on pr mid ls evaluated) (\<lambda>r. case r of Inl _ \<Rightarrow> True | Inr ls \<Rightarrow> loop_ok ls)"
  unfolding act_on_def using assms
  by (auto intro!: gives_fail gives_return simp: loop_ok_def split: prod.split sum.split loop_action.split)

lemma gives_step:
  assumes env: "compacts_answered env" and ls: "loop_ok ls" "lp_retry_messages ls = None"
    and step: "well_formed_step step"
  shows "gives (loop_step env pr mid ls step) (\<lambda>r. case r of Inl _ \<Rightarrow> True | Inr ls \<Rightarrow> loop_ok ls)"
proof (cases step)
  case (ToolCalls phase)
  show ?thesis
    using step unfolding ToolCalls loop_step_def model_step.case compact_loop_def
    apply (intro gives_bind [OF gives_tool_phase [OF ls]], assumption)
    apply (rule gives_bind [where Q = loop_ok])
     apply (rule gives_bind [OF gives_compact [OF env]])
    subgoal by (simp add: loop_ok_def)
     apply (rule gives_return)
    subgoal by (simp add: loop_ok_def)
    apply (rule gives_return)
    apply simp
    done
next
  case (FinalStep response)
  have "tools_answered (lp_messages ls)" using ls(1) by (simp add: loop_ok_def)
  from end_turn_kinds [OF this] show ?thesis
    unfolding FinalStep loop_step_def model_step.case by (intro gives_then gives_act ls(1)) blast
next
  case (MalformedToolCalls response)
  have "tools_answered (lp_messages ls)" using ls(1) by (simp add: loop_ok_def)
  from end_turn_kinds [OF this] show ?thesis
    unfolding MalformedToolCalls loop_step_def model_step.case by (intro gives_then gives_act ls(1)) blast
qed

lemma request_answered:
  assumes "loop_ok ls" "\<And>m. channel = Some m \<Longrightarrow> \<not> calls_tools m"
    and "request_messages_for_iteration ls iteration channel = (ms, ls')"
  shows "tools_answered (append_guard_denial_wrap ms limited)" "loop_ok ls'" "lp_retry_messages ls' = None"
proof -
  let ?ms = "case lp_retry_messages ls of Some ms \<Rightarrow> ms | None \<Rightarrow> lp_messages ls"
  let ?request = "if iteration = 1 then (case channel of Some m \<Rightarrow> m # ?ms | None \<Rightarrow> ?ms) else ?ms"
  have "tools_answered ?ms" using assms(1) by (auto simp: loop_ok_def split: option.split)
  then have "tools_answered ?request" using assms(2) by (auto split: option.split)
  moreover have "\<exists>gs. messages_for_iteration ?request iteration = ?request @ gs \<and> (\<forall>g \<in> set gs. \<not> calls_tools g)"
    by (auto simp: messages_for_iteration_def)
  ultimately have "tools_answered (messages_for_iteration ?request iteration)"
    using tools_answered_append plain_answered by metis
  moreover have "ms = messages_for_iteration ?request iteration" "ls' = ls\<lparr>lp_retry_messages := None\<rparr>"
    using assms(3) by (simp_all add: request_messages_for_iteration_def request_messages_def Let_def split: if_splits)
  ultimately show "tools_answered (append_guard_denial_wrap ms limited)" "loop_ok ls'"
    "lp_retry_messages ls' = None"
    using assms(1) by (simp_all add: append_guard_denial_wrap_def tools_answered_append loop_ok_def)
qed

section \<open>The provider and everything else\<close>

text \<open>Nothing but the model iteration looks at the provider.\<close>

lemma same_base [simp]:
  fixes env :: "'x loop_env"
  shows "db_call (env\<lparr>le_provider := q\<rparr>) f = db_call env f" "db_read (env\<lparr>le_provider := q\<rparr>) g = db_read env g"
    "on_world (env\<lparr>le_provider := q\<rparr>) h = on_world env h"
  by (rule ext, simp add: db_call_def db_read_def on_world_def)+

lemma same_lifecycle [simp]:
  fixes env :: "'x loop_env"
  shows "mark_output_published (env\<lparr>le_provider := q\<rparr>) i = mark_output_published env i"
    "complete_model (env\<lparr>le_provider := q\<rparr>) i = complete_model env i"
    "begin_tools (env\<lparr>le_provider := q\<rparr>) i = begin_tools env i"
    "complete_tools (env\<lparr>le_provider := q\<rparr>) i = complete_tools env i"
    "Turn_Phases.complete (env\<lparr>le_provider := q\<rparr>) i mid = Turn_Phases.complete env i mid"
    "record_failure_excluding_conflict (env\<lparr>le_provider := q\<rparr>) i e = record_failure_excluding_conflict env i e"
proof -
  have "record_failure (env\<lparr>le_provider := q\<rparr>) i target e = record_failure env i target e" for target
    by (simp add: record_failure_def)
  then show "record_failure_excluding_conflict (env\<lparr>le_provider := q\<rparr>) i e = record_failure_excluding_conflict env i e"
    by (simp add: record_failure_excluding_conflict_def fail_def cong: if_cong)
qed (simp_all add: mark_output_published_def complete_model_def begin_tools_def complete_tools_def
      turn_transition_def Turn_Phases.complete_def)

lemma same_persistence [simp]:
  fixes env :: "'x loop_env"
  shows "load_turn_messages (env\<lparr>le_provider := q\<rparr>) c = load_turn_messages env c"
    "persist_user_input (env\<lparr>le_provider := q\<rparr>) c i input = persist_user_input env c i input"
    "persist_final (env\<lparr>le_provider := q\<rparr>) c i mid ms r content reasoning = persist_final env c i mid ms r content reasoning"
    "persist_tool_call (env\<lparr>le_provider := q\<rparr>) c i mid phase ms r = persist_tool_call env c i mid phase ms r"
    "persist_tool_results (env\<lparr>le_provider := q\<rparr>) c i mid ms ts preview r = persist_tool_results env c i mid ms ts preview r"
    "commit_staged (env\<lparr>le_provider := q\<rparr>) c i ms r = commit_staged env c i ms r"
proof -
  have load: "load_turn_messages (env\<lparr>le_provider := q\<rparr>) = load_turn_messages env"
    by (rule ext) (simp add: load_turn_messages_def)
  have phase: "persist_turn_phase (env\<lparr>le_provider := q\<rparr>) = persist_turn_phase env"
    by (intro ext) (simp add: persist_turn_phase_def)
  have commit: "commit_user_turn_input (env\<lparr>le_provider := q\<rparr>) = commit_user_turn_input env"
    by (intro ext) (simp add: commit_user_turn_input_def)
  have attempt: "user_input_attempt (env\<lparr>le_provider := q\<rparr>) = user_input_attempt env"
    by (intro ext) (simp add: user_input_attempt_def commit user_input_message_def)
  have staged: "staged_attempt (env\<lparr>le_provider := q\<rparr>) = staged_attempt env"
    by (intro ext) (simp add: staged_attempt_def staged_candidate_def cong: if_cong)
  show "load_turn_messages (env\<lparr>le_provider := q\<rparr>) c = load_turn_messages env c" by (simp add: load)
  show "persist_user_input (env\<lparr>le_provider := q\<rparr>) c i input = persist_user_input env c i input"
    by (simp add: persist_user_input_def load attempt)
  show "persist_final (env\<lparr>le_provider := q\<rparr>) c i mid ms r content reasoning = persist_final env c i mid ms r content reasoning"
    "persist_tool_call (env\<lparr>le_provider := q\<rparr>) c i mid phase ms r = persist_tool_call env c i mid phase ms r"
    "persist_tool_results (env\<lparr>le_provider := q\<rparr>) c i mid ms ts preview r = persist_tool_results env c i mid ms ts preview r"
    by (intro ext; simp add: persist_final_def persist_tool_call_def persist_tool_results_def phase)+
  show "commit_staged (env\<lparr>le_provider := q\<rparr>) c i ms r = commit_staged env c i ms r"
    by (simp add: commit_staged_def load staged cong del: option.case_cong_weak)
qed

lemma same_compact [simp]: "compact_or_keep (env\<lparr>le_provider := q\<rparr>) c ms = compact_or_keep env c ms"
  by (rule ext) (simp add: compact_or_keep_def)

lemma same_tool_context [simp]: "turn_tool_context (env\<lparr>le_provider := q\<rparr>) c i = turn_tool_context env c i"
  by (simp add: turn_tool_context_def)

lemma same_loop [simp]:
  fixes env :: "'x loop_env"
  shows "execute_tools (env\<lparr>le_provider := q\<rparr>) pr mid calls n = execute_tools env pr mid calls n"
    "load_channel_context (env\<lparr>le_provider := q\<rparr>) = load_channel_context env"
    "resolve_turn_chat (env\<lparr>le_provider := q\<rparr>) = resolve_turn_chat env"
    "persist_agent_loop_result (env\<lparr>le_provider := q\<rparr>) pr result = persist_agent_loop_result env pr result"
    "recording_failure (env\<lparr>le_provider := q\<rparr>) i m = recording_failure env i m"
    "resume_session (env\<lparr>le_provider := q\<rparr>) c i mode loaded = resume_session env c i mode loaded"
  by (intro ext; simp add: execute_tools_def executor_env_of_def load_channel_context_def
      resolve_turn_chat_def turn_tool_context_def persist_agent_loop_result_def recording_failure_def
      resume_session_def cong del: if_weak_cong sum.case_cong_weak prod.case_cong_weak
      option.case_cong_weak resume_mode.case_cong_weak)+

lemma same_prepare [simp]: "prepare_turn (env\<lparr>le_provider := q\<rparr>) input i key r = prepare_turn env input i key r"
  by (simp add: prepare_turn_def cong del: sum.case_cong_weak option.case_cong_weak)

lemma same_step: "loop_step (env\<lparr>le_provider := q\<rparr>) pr mid ls step = loop_step env pr mid ls step"
  by (simp add: loop_step_def execute_tool_phase_def compact_loop_def Let_def
      cong del: prod.case_cong_weak model_step.case_cong_weak)

definition same_answers ::
  "'x loop_env \<Rightarrow> ('x turn_state \<Rightarrow> nat \<Rightarrow> json llm_message list \<Rightarrow> json exchange) \<Rightarrow> bool" where
  "same_answers env q = (\<forall>s n ms. tools_answered ms \<longrightarrow> le_provider env s n ms = q s n ms)"

lemma run_model_same:
  assumes "same_answers env q" "tools_answered ms"
  shows "run_model (env\<lparr>le_provider := q\<rparr>) i iteration ms s = run_model env i iteration ms s"
proof -
  have "le_provider env (te_others env s) n m = q (te_others env s) n m" if "tools_answered m" for n m
    using assms(1) that unfolding same_answers_def by blast
  from run_with_retry_agrees [OF this assms(2)] show ?thesis by (simp add: run_model_def Let_def)
qed

lemma run_model_step: "run_model env i iteration ms s = (Inr step, s') \<Longrightarrow> well_formed_step step"
  by (auto simp: run_model_def Let_def dest: run_with_retry_step split: prod.splits)

lemma run_loop_same:
  assumes env: "compacts_answered env" "same_answers env q"
    and channel: "\<And>m. channel = Some m \<Longrightarrow> \<not> calls_tools m"
  shows "loop_ok ls \<Longrightarrow>
    run_loop (env\<lparr>le_provider := q\<rparr>) pr channel iteration ls s = run_loop env pr channel iteration ls s"
proof (induction "MAX_TOOL_ITERATIONS + 1 - iteration" arbitrary: iteration ls s rule: less_induct)
  case less
  show ?case
  proof (cases "MAX_TOOL_ITERATIONS < iteration")
    case True
    then show ?thesis by (simp add: run_loop.simps [of _ _ _ iteration])
  next
    case False
    let ?mid = "assistant_message_id (prt_turn_id pr) iteration"
    obtain ms ls1 where req: "request_messages_for_iteration ls iteration channel = (ms, ls1)" by (rule prod.exhaust)
    let ?ms = "append_guard_denial_wrap ms (limit_reached (lp_denials ls1))"
    note ok = request_answered [OF less.prems channel req]
    obtain r s1 where model: "run_model env (prt_turn_id pr) iteration ?ms s = (r, s1)" by (rule prod.exhaust)
    note model' = run_model_same [OF env(2) ok(1), of "prt_turn_id pr" iteration "limit_reached (lp_denials ls1)" s]
    show ?thesis
    proof (cases r)
      case (Inl e)
      then show ?thesis using False req model model'
        by (simp add: run_loop.simps [of _ _ _ iteration] Let_def split: prod.split)
    next
      case (Inr step)
      obtain r2 s2 where step: "loop_step env pr ?mid ls1 step s1 = (r2, s2)" by (rule prod.exhaust)
      have "run_loop (env\<lparr>le_provider := q\<rparr>) pr channel (iteration + 1) ls2 s2 =
          run_loop env pr channel (iteration + 1) ls2 s2" if "r2 = Inr (Inr ls2)" for ls2
      proof (rule less.hyps)
        show "MAX_TOOL_ITERATIONS + 1 - (iteration + 1) < MAX_TOOL_ITERATIONS + 1 - iteration" using False by simp
        show "loop_ok ls2"
          using givesD [OF gives_step [OF env(1) ok(2,3) run_model_step [OF model [unfolded Inr]]] step [unfolded that]]
          by simp
      qed
      then show ?thesis using False req model model' Inr step same_step [of q env pr ?mid ls1 step]
        by (simp add: run_loop.simps [of _ _ _ iteration] Let_def split: sum.split)
    qed
  qed
qed

section \<open>The Turn around the loop\<close>

lemma gives_user_input:
  assumes env: "compacts_answered env" and user: "\<not> calls_tools (ui_message input)"
  shows "gives (persist_user_input env c i input) (\<lambda>(ms, _). tools_answered ms)"
proof -
  have attempt: "gives (user_input_attempt env c i input again loaded) (\<lambda>(ms, _). tools_answered ms)"
    if "tools_answered (ls_messages loaded)" "gives again (\<lambda>(ms, _). tools_answered ms)" for again loaded
  proof -
    have "tools_answered (ls_messages loaded @ [ui_message input])"
      using that(1) user by (intro tools_answered_append) simp_all
    then have compacted: "gives (te_compact env c (ls_messages loaded @ [ui_message input])) tools_answered"
      using env by (simp add: compacts_answered_def)
    have commit: "gives (commit_user_turn_input env i m ms r) (\<lambda>p. pt_messages p = ms)" for m ms r
      unfolding commit_user_turn_input_def by (intro gives_then gives_return) simp
    show ?thesis
      unfolding user_input_attempt_def
      by (intro gives_bind [OF compacted] gives_conflict gives_bind [OF commit] gives_return that(2)) simp
  qed
  show ?thesis
    unfolding persist_user_input_def Let_def
    by (intro gives_bind [OF gives_load] attempt gives_fail)
qed

lemma gives_context: "gives (load_channel_context env) (\<lambda>c. \<forall>m. c = Some m \<longrightarrow> \<not> calls_tools m)"
  by (rule givesI) (auto simp: load_channel_context_def split: option.splits prod.splits sum.splits if_splits)

lemma gives_prepared:
  "gives (prepare_turn env input i key r) (\<lambda>pr. \<not> calls_tools (prt_user_message pr))"
  by (rule givesI) (auto simp: prepare_turn_def sbind_def Let_def split: sum.splits prod.splits)

lemma agent_loop_same:
  assumes "compacts_answered env" "same_answers env q" "tools_answered ms"
    and "\<forall>m. channel = Some m \<longrightarrow> \<not> calls_tools m"
  shows "run_agent_loop (env\<lparr>le_provider := q\<rparr>) pr channel ms r start = run_agent_loop env pr channel ms r start"
proof -
  have "loop_ok (loop_state_new ms r)" using assms(3) by (simp add: loop_ok_def loop_state_new_def)
  then have "run_loop (env\<lparr>le_provider := q\<rparr>) pr channel start (loop_state_new ms r) =
      run_loop env pr channel start (loop_state_new ms r)"
    using run_loop_same [OF assms(1,2)] assms(4) by blast
  moreover have "persist_agent_loop_result (env\<lparr>le_provider := q\<rparr>) pr = persist_agent_loop_result env pr"
    by (rule ext) simp
  ultimately show ?thesis by (simp add: run_agent_loop_def)
qed

lemma run_accepted_same:
  assumes env: "compacts_answered env" "same_answers env q"
  shows "run_accepted (env\<lparr>le_provider := q\<rparr>) input i key r = run_accepted env input i key r"
proof -
  have "sbind (load_channel_context env) (\<lambda>channel. run_agent_loop (env\<lparr>le_provider := q\<rparr>) pr channel ms v 1) =
      sbind (load_channel_context env) (\<lambda>channel. run_agent_loop env pr channel ms v 1)"
    if "tools_answered ms" for pr ms v
    by (rule bind_cong [OF gives_context]) (rule agent_loop_same [OF env that])
  then have "sbind (persist_user_input env (prt_chat_id pr) i ui)
      (\<lambda>(ms, v). sbind (load_channel_context env)
        (\<lambda>channel. run_agent_loop (env\<lparr>le_provider := q\<rparr>) pr channel ms v 1)) =
    sbind (persist_user_input env (prt_chat_id pr) i ui)
      (\<lambda>(ms, v). sbind (load_channel_context env) (\<lambda>channel. run_agent_loop env pr channel ms v 1))"
    if "\<not> calls_tools (ui_message ui)" for pr ui
    by (intro bind_cong [OF gives_user_input [OF env(1) that]]) (auto split: prod.splits)
  then have "sbind (prepare_turn env input i key (Some r)) (\<lambda>pr.
      sbind (persist_user_input env (prt_chat_id pr) i
               \<lparr>ui_message_id = prt_input_message_id pr, ui_message = prt_user_message pr,
                ui_input = input, ui_received_at = prt_received_at pr\<rparr>) (\<lambda>(ms, v).
      sbind (load_channel_context env) (\<lambda>channel. run_agent_loop (env\<lparr>le_provider := q\<rparr>) pr channel ms v 1))) =
    sbind (prepare_turn env input i key (Some r)) (\<lambda>pr.
      sbind (persist_user_input env (prt_chat_id pr) i
               \<lparr>ui_message_id = prt_input_message_id pr, ui_message = prt_user_message pr,
                ui_input = input, ui_received_at = prt_received_at pr\<rparr>) (\<lambda>(ms, v).
      sbind (load_channel_context env) (\<lambda>channel. run_agent_loop env pr channel ms v 1)))"
    by (intro bind_cong [OF gives_prepared]) simp
  then show ?thesis by (simp add: run_accepted_def)
qed

lemma resume_run_same:
  assumes env: "compacts_answered env" "same_answers env q"
  shows "resume_run (env\<lparr>le_provider := q\<rparr>) input r t mode = resume_run env input r t mode"
proof -
  have session: "gives (resume_session env c i mode loaded) (\<lambda>(ms, _, _). tools_answered ms)"
    if "tools_answered (ls_messages loaded)" for c i loaded
    unfolding resume_session_def using that
    by (auto simp: answered_def split: resume_mode.split
        intro!: gives_return gives_bind [OF gives_commit_staged] gives_bind [OF gives_compact [OF env(1)]])
  have "sbind (load_channel_context env) (\<lambda>channel. run_agent_loop (env\<lparr>le_provider := q\<rparr>) pr channel ms v n) =
      sbind (load_channel_context env) (\<lambda>channel. run_agent_loop env pr channel ms v n)"
    if "tools_answered ms" for pr ms v n
    by (rule bind_cong [OF gives_context]) (rule agent_loop_same [OF env that])
  then have "sbind (resume_session env c i mode loaded) (\<lambda>(ms, v, n). sbind (load_channel_context env)
        (\<lambda>channel. run_agent_loop (env\<lparr>le_provider := q\<rparr>) pr channel ms v n)) =
    sbind (resume_session env c i mode loaded) (\<lambda>(ms, v, n). sbind (load_channel_context env)
        (\<lambda>channel. run_agent_loop env pr channel ms v n))"
    if "tools_answered (ls_messages loaded)" for c i loaded pr
    by (intro bind_cong [OF session [OF that]]) (auto split: prod.splits)
  then have "sbind (load_turn_messages env c) (\<lambda>loaded. sbind (resume_session env c i mode loaded)
      (\<lambda>(ms, v, n). sbind (load_channel_context env)
        (\<lambda>channel. run_agent_loop (env\<lparr>le_provider := q\<rparr>) pr channel ms v n))) =
    sbind (load_turn_messages env c) (\<lambda>loaded. sbind (resume_session env c i mode loaded)
      (\<lambda>(ms, v, n). sbind (load_channel_context env) (\<lambda>channel. run_agent_loop env pr channel ms v n)))" for c i pr
    by (intro bind_cong [OF gives_load])
  then show ?thesis by (simp add: resume_run_def)
qed

text \<open>
  C11: The model is only ever asked with conversations in which every tool call is directly followed
  by its answers, as the providers demand; a provider that gives other answers, or none, to other
  requests makes no difference. So it is in every iteration, in the retries with a guard, after
  tool phases, conflicts with other writers, follow-ups and compaction, for a new Turn and for a
  resumed one. The compaction is asked to keep conversations answered.
\<close>

theorem requests_are_answered:
  assumes "compacts_answered env" "same_answers env q"
  shows "run_accepted (env\<lparr>le_provider := q\<rparr>) user_input turn_id request_key received_at =
      run_accepted env user_input turn_id request_key received_at \<and>
    resume_run (env\<lparr>le_provider := q\<rparr>) user_input at_time t mode = resume_run env user_input at_time t mode"
  using run_accepted_same [OF assms] resume_run_same [OF assms] by blast

text \<open>
  The compaction of \<open>compaction.rs\<close> meets what is asked, whatever the summarizer answers in a state
  and with the estimates and limits it is given.
\<close>

definition compaction_of ::
  "('x turn_state \<Rightarrow> compact_env) \<Rightarrow> ('x turn_state \<Rightarrow> string \<Rightarrow> summary_reply) \<Rightarrow> string \<Rightarrow> string option \<Rightarrow>
   int \<Rightarrow> json llm_message list \<Rightarrow> ('x, json llm_message list) run" where
  "compaction_of ce reply system_prompt tools_json chat_id ms s =
     (Inr (maybe_compact_messages (ce s) (reply s) system_prompt tools_json ms), s)"

lemma compaction_compacts_answered:
  assumes "te_compact env = compaction_of ce reply system_prompt tools_json"
  shows "compacts_answered env"
  by (auto simp: assms compacts_answered_def compaction_of_def maybe_compact_messages_def Let_def
      safety_compact_answered intro!: givesI)

definition sample_requests_env :: "unit loop_env" where
  "sample_requests_env = sample_loop_env\<lparr>te_compact :=
     compaction_of (\<lambda>_. sample_compact_env) (\<lambda>_ _. SummarizeTimeout) [] None,
     le_llm_for_context := (\<lambda>_. Inr ())\<rparr>"

definition picky_provider :: "unit turn_state \<Rightarrow> nat \<Rightarrow> json llm_message list \<Rightarrow> json exchange" where
  "picky_provider s n ms =
     (if tools_answered ms then le_provider sample_requests_env s n ms
      else \<lparr>ex_answer = Inl (RequestFailed ''400''), ex_millis = None, ex_first_delta = None\<rparr>)"

theorem requests_are_answered_witness:
  "run_accepted (sample_requests_env\<lparr>le_provider := picky_provider\<rparr>) ''hi'' ''T'' ''k'' ''t1'' =
   run_accepted sample_requests_env ''hi'' ''T'' ''k'' ''t1''"
proof -
  have "compacts_answered sample_requests_env"
    by (rule compaction_compacts_answered) (simp add: sample_requests_env_def)
  moreover have "same_answers sample_requests_env picky_provider"
    by (simp add: same_answers_def picky_provider_def)
  ultimately show ?thesis using requests_are_answered by blast
qed

end
