(* ===== verification/Turn_Scheduler.thy ===== *)
theory Turn_Scheduler
  imports Scheduled_Turn "HOL-Library.AList" "HOL-Library.Word"
begin

text \<open>
  The per-session scheduler and the counter of running Turns in
  \<open>src/src/runtime/turn/scheduler.rs\<close>. Each method runs under one lock and is a function on
  the state. The theory shows that the queues keep their bounds and the global count, that a
  session starts its Turns one at a time and in the order they were taken, and that repeating
  a submission changes nothing.
\<close>

section \<open>Running Turns of an agent\<close>

type_synonym active_turns = "(string \<times> 32 word) list"

definition begin_turn :: "string \<Rightarrow> active_turns \<Rightarrow> active_turns" where
  "begin_turn agent_id t =
     AList.update agent_id ((case map_of t agent_id of Some c \<Rightarrow> c | None \<Rightarrow> 0) + 1) t"

definition end_turn :: "string \<Rightarrow> active_turns \<Rightarrow> active_turns" where
  "end_turn agent_id t =
     (case map_of t agent_id of
        None \<Rightarrow> t
      | Some c \<Rightarrow>
          (let c' = (if c = 0 then 0 else c - 1)
           in if c' = 0 then AList.delete agent_id t else AList.update agent_id c' t))"

definition is_active :: "string \<Rightarrow> active_turns \<Rightarrow> bool" where
  "is_active agent_id t = (case map_of t agent_id of Some c \<Rightarrow> 0 < c | None \<Rightarrow> False)"

definition total_active :: "active_turns \<Rightarrow> nat" where
  "total_active t = sum_list (map (unat \<circ> snd) t)"

section \<open>The scheduler\<close>

definition MAX_QUEUED_TURNS_PER_SESSION :: nat where
  "MAX_QUEUED_TURNS_PER_SESSION = 32"

definition MAX_GLOBAL_QUEUED_TURNS :: nat where
  "MAX_GLOBAL_QUEUED_TURNS = 512"

datatype 's schedule_result =
    Started "'s scheduled_turn"
  | Enqueued
  | AlreadyOwned
  | DeferredCapacity

record 's turn_slot =
  slot_busy :: bool
  slot_current_turn_id :: "string option"
  slot_queue :: "'s scheduled_turn list"

record 's scheduler =
  sch_slots :: "(string \<times> 's turn_slot) list"
  sch_global_queued :: nat

definition scheduler_new :: "'s scheduler" where
  "scheduler_new = \<lparr>sch_slots = [], sch_global_queued = 0\<rparr>"

definition owned :: "string \<Rightarrow> 's turn_slot \<Rightarrow> bool" where
  "owned turn_id s =
     (slot_current_turn_id s = Some turn_id \<or> list_ex (\<lambda>t. sdt_turn_id t = turn_id) (slot_queue s))"

definition submit :: "'s scheduled_turn \<Rightarrow> 's scheduler \<Rightarrow> 's schedule_result \<times> 's scheduler" where
  "submit turn inner =
     (let key = turn_session_key turn;
          turn_id = sdt_turn_id turn;
          slot = map_of (sch_slots inner) key
      in if turn_id \<noteq> [] \<and> (case slot of Some s \<Rightarrow> owned turn_id s | None \<Rightarrow> False)
         then (AlreadyOwned, inner)
         else if (case slot of Some s \<Rightarrow> \<not> slot_busy s | None \<Rightarrow> True)
         then (let s = (case slot of Some s \<Rightarrow> s
                  | None \<Rightarrow> \<lparr>slot_busy = False, slot_current_turn_id = None, slot_queue = []\<rparr>)
               in (Started turn, inner\<lparr>sch_slots := AList.update key
                     (s\<lparr>slot_busy := True, slot_current_turn_id := Some turn_id\<rparr>) (sch_slots inner)\<rparr>))
         else if (case slot of Some s \<Rightarrow> MAX_QUEUED_TURNS_PER_SESSION \<le> length (slot_queue s)
                  | None \<Rightarrow> False)
         then (DeferredCapacity, inner)
         else if MAX_GLOBAL_QUEUED_TURNS \<le> sch_global_queued inner
         then (DeferredCapacity, inner)
         else (Enqueued, inner\<lparr>sch_slots := AList.update key
                 (case slot of Some s \<Rightarrow> s\<lparr>slot_queue := slot_queue s @ [turn]\<rparr>
                  | None \<Rightarrow> \<lparr>slot_busy = False, slot_current_turn_id = None, slot_queue = [turn]\<rparr>)
                 (sch_slots inner),
               sch_global_queued := sch_global_queued inner + 1\<rparr>))"

text \<open>
  In the last branch the slot exists, because the session is busy; the source states it with
  \<open>expect\<close>, and the case without a slot is never reached.
\<close>

definition on_turn_completed ::
  "string \<Rightarrow> 's scheduler \<Rightarrow> 's scheduled_turn option \<times> 's scheduler" where
  "on_turn_completed key inner =
     (case map_of (sch_slots inner) key of
        Some s \<Rightarrow>
          (case slot_queue s of
             n # rest \<Rightarrow>
               (Some n, inner\<lparr>sch_global_queued := sch_global_queued inner - 1,
                  sch_slots := AList.update key
                    (s\<lparr>slot_queue := rest, slot_current_turn_id := Some (sdt_turn_id n)\<rparr>)
                    (sch_slots inner)\<rparr>)
           | [] \<Rightarrow> (None, inner\<lparr>sch_slots := AList.delete key (sch_slots inner)\<rparr>))
      | None \<Rightarrow> (None, inner\<lparr>sch_slots := AList.delete key (sch_slots inner)\<rparr>))"

section \<open>Invariant\<close>

definition slot_ids :: "'s turn_slot \<Rightarrow> string list" where
  "slot_ids s = (case slot_current_turn_id s of Some i \<Rightarrow> [i] | None \<Rightarrow> []) @
     map sdt_turn_id (slot_queue s)"

definition slot_ok :: "string \<Rightarrow> 's turn_slot \<Rightarrow> bool" where
  "slot_ok key s =
     (slot_busy s \<and> slot_current_turn_id s \<noteq> None \<and>
      length (slot_queue s) \<le> MAX_QUEUED_TURNS_PER_SESSION \<and>
      list_all (\<lambda>t. turn_session_key t = key) (slot_queue s) \<and>
      distinct (filter (\<lambda>i. i \<noteq> []) (slot_ids s)))"

definition queued :: "(string \<times> 's turn_slot) list \<Rightarrow> nat" where
  "queued slots = sum_list (map (\<lambda>(_, s). length (slot_queue s)) slots)"

definition sched_inv :: "'s scheduler \<Rightarrow> bool" where
  "sched_inv inner =
     (distinct (map fst (sch_slots inner)) \<and>
      (\<forall>(k, s) \<in> set (sch_slots inner). slot_ok k s) \<and>
      sch_global_queued inner = queued (sch_slots inner) \<and>
      sch_global_queued inner \<le> MAX_GLOBAL_QUEUED_TURNS)"

lemma sched_inv_new [simp]: "sched_inv scheduler_new"
  by (simp add: sched_inv_def scheduler_new_def queued_def)

lemma map_of_update' [simp]:
  "map_of (AList.update k v t) k' = (if k' = k then Some v else map_of t k')"
  by (simp add: update_conv')

lemma map_of_delete' [simp]:
  "map_of (AList.delete k t) k' = (if k' = k then None else map_of t k')"
  by (simp add: delete_conv')

lemma queued_update:
  "distinct (map fst t) \<Longrightarrow>
    queued (AList.update k v t) + (case map_of t k of Some s \<Rightarrow> length (slot_queue s) | None \<Rightarrow> 0) =
    queued t + length (slot_queue v)"
  unfolding queued_def by (induction t) (auto split: option.splits)

lemma queued_delete:
  "distinct (map fst t) \<Longrightarrow>
    queued (AList.delete k t) + (case map_of t k of Some s \<Rightarrow> length (slot_queue s) | None \<Rightarrow> 0) =
    queued t"
  unfolding queued_def by (induction t) (auto simp: image_iff split: option.splits)

lemma queued_member: "map_of t k = Some s \<Longrightarrow> length (slot_queue s) \<le> queued t"
  unfolding queued_def by (induction t) (auto split: if_splits)

lemma sched_invD:
  assumes "sched_inv inner"
  shows "distinct (map fst (sch_slots inner))"
    "map_of (sch_slots inner) k = Some s \<Longrightarrow> slot_ok k s"
    "sch_global_queued inner = queued (sch_slots inner)"
    "sch_global_queued inner \<le> MAX_GLOBAL_QUEUED_TURNS"
  using assms by (auto simp: sched_inv_def dest: map_of_SomeD)

lemma slots_ok_iff:
  "distinct (map fst t) \<Longrightarrow>
    (\<forall>(k, s) \<in> set t. slot_ok k s) = (\<forall>k s. map_of t k = Some s \<longrightarrow> slot_ok k s)"
  by auto

lemma sched_invI:
  assumes "distinct (map fst (sch_slots inner))"
    "\<And>k s. map_of (sch_slots inner) k = Some s \<Longrightarrow> slot_ok k s"
    "sch_global_queued inner = queued (sch_slots inner)"
    "sch_global_queued inner \<le> MAX_GLOBAL_QUEUED_TURNS"
  shows "sched_inv inner"
  using assms by (auto simp: sched_inv_def)

text \<open>The four answers of \<open>submit\<close>, and when each is given.\<close>

lemma submit_cases:
  assumes "sched_inv inner"
  obtains (owned) s where "map_of (sch_slots inner) (turn_session_key turn) = Some s"
      "sdt_turn_id turn \<noteq> []" "owned (sdt_turn_id turn) s" "submit turn inner = (AlreadyOwned, inner)"
    | (started) "map_of (sch_slots inner) (turn_session_key turn) = None"
      "submit turn inner = (Started turn, inner\<lparr>sch_slots := AList.update (turn_session_key turn)
         \<lparr>slot_busy = True, slot_current_turn_id = Some (sdt_turn_id turn), slot_queue = []\<rparr>
         (sch_slots inner)\<rparr>)"
    | (full) s where "map_of (sch_slots inner) (turn_session_key turn) = Some s"
      "length (slot_queue s) = MAX_QUEUED_TURNS_PER_SESSION \<or>
       sch_global_queued inner = MAX_GLOBAL_QUEUED_TURNS"
      "submit turn inner = (DeferredCapacity, inner)"
    | (enqueued) s where "map_of (sch_slots inner) (turn_session_key turn) = Some s"
      "sdt_turn_id turn = [] \<or> \<not> owned (sdt_turn_id turn) s"
      "length (slot_queue s) < MAX_QUEUED_TURNS_PER_SESSION"
      "sch_global_queued inner < MAX_GLOBAL_QUEUED_TURNS"
      "submit turn inner = (Enqueued, inner\<lparr>sch_slots := AList.update (turn_session_key turn)
         (s\<lparr>slot_queue := slot_queue s @ [turn]\<rparr>) (sch_slots inner),
         sch_global_queued := sch_global_queued inner + 1\<rparr>)"
proof (cases "map_of (sch_slots inner) (turn_session_key turn)")
  case None
  then show ?thesis using that(2) by (simp add: submit_def Let_def)
next
  case (Some s)
  have ok: "slot_ok (turn_session_key turn) s" by (rule sched_invD(2) [OF assms Some])
  then have b: "slot_busy s" "length (slot_queue s) \<le> MAX_QUEUED_TURNS_PER_SESSION"
    by (simp_all add: slot_ok_def)
  note g = sched_invD(4) [OF assms]
  show ?thesis
  proof (cases "sdt_turn_id turn \<noteq> [] \<and> owned (sdt_turn_id turn) s")
    case True
    then show ?thesis using that(1) [OF Some] Some by (simp add: submit_def)
  next
    case no: False
    show ?thesis
    proof (cases "MAX_QUEUED_TURNS_PER_SESSION \<le> length (slot_queue s) \<or>
        MAX_GLOBAL_QUEUED_TURNS \<le> sch_global_queued inner")
      case True
      then show ?thesis using that(3) [OF Some] Some b g no by (auto simp: submit_def)
    next
      case False
      then show ?thesis using that(4) [OF Some] Some b no by (auto simp: submit_def)
    qed
  qed
qed

lemma completed_cases:
  obtains (idle) "map_of (sch_slots inner) key = None" "on_turn_completed key inner =
        (None, inner\<lparr>sch_slots := AList.delete key (sch_slots inner)\<rparr>)"
    | (last) s where "map_of (sch_slots inner) key = Some s" "slot_queue s = []"
      "on_turn_completed key inner =
        (None, inner\<lparr>sch_slots := AList.delete key (sch_slots inner)\<rparr>)"
    | (drained) s n rest where "map_of (sch_slots inner) key = Some s" "slot_queue s = n # rest"
      "on_turn_completed key inner =
        (Some n, inner\<lparr>sch_global_queued := sch_global_queued inner - 1,
           sch_slots := AList.update key
             (s\<lparr>slot_queue := rest, slot_current_turn_id := Some (sdt_turn_id n)\<rparr>) (sch_slots inner)\<rparr>)"
proof (cases "map_of (sch_slots inner) key")
  case None
  then show ?thesis using that(1) by (simp add: on_turn_completed_def)
next
  case (Some s)
  then show ?thesis using that(2,3) by (cases "slot_queue s") (simp_all add: on_turn_completed_def)
qed

lemma slot_ok_new:
  "slot_ok k \<lparr>slot_busy = True, slot_current_turn_id = Some i, slot_queue = []\<rparr>"
  by (simp add: slot_ok_def slot_ids_def)

lemma slot_ok_push:
  assumes "slot_ok (turn_session_key turn) s" "sdt_turn_id turn = [] \<or> \<not> owned (sdt_turn_id turn) s"
    "length (slot_queue s) < MAX_QUEUED_TURNS_PER_SESSION"
  shows "slot_ok (turn_session_key turn) (s\<lparr>slot_queue := slot_queue s @ [turn]\<rparr>)"
  using assms
  by (auto simp: slot_ok_def slot_ids_def owned_def list_ex_iff split: option.splits)

lemma slot_ok_pop:
  assumes "slot_ok k s" "slot_queue s = n # rest"
  shows "slot_ok k (s\<lparr>slot_queue := rest, slot_current_turn_id := Some (sdt_turn_id n)\<rparr>)"
  using assms by (auto simp: slot_ok_def slot_ids_def split: if_splits)

lemma submit_inv:
  assumes inv: "sched_inv inner"
  shows "sched_inv (snd (submit turn inner))"
proof -
  note d = sched_invD [OF inv]
  from inv show ?thesis
  proof (cases rule: submit_cases [where turn = turn])
    case started
    show ?thesis
      unfolding started(2) snd_conv
      using d started(1) queued_update [OF d(1), of "turn_session_key turn"
          "\<lparr>slot_busy = True, slot_current_turn_id = Some (sdt_turn_id turn), slot_queue = []\<rparr>"]
      by (intro sched_invI) (auto simp: distinct_update slot_ok_new split: if_splits)
  next
    case (enqueued s)
    have "slot_ok (turn_session_key turn) (s\<lparr>slot_queue := slot_queue s @ [turn]\<rparr>)"
      by (rule slot_ok_push [OF d(2) [OF enqueued(1)] enqueued(2,3)])
    then show ?thesis
      unfolding enqueued(5) snd_conv
      using d enqueued(1,4) queued_update [OF d(1), of "turn_session_key turn"
          "s\<lparr>slot_queue := slot_queue s @ [turn]\<rparr>"]
      by (intro sched_invI) (auto simp: distinct_update split: if_splits)
  qed (simp_all add: inv)
qed

lemma completed_inv:
  assumes inv: "sched_inv inner"
  shows "sched_inv (snd (on_turn_completed key inner))"
proof -
  note d = sched_invD [OF inv]
  show ?thesis
  proof (cases rule: completed_cases [of inner key])
    case idle
    then show ?thesis
      using d queued_delete [OF d(1), of key]
      by (auto intro!: sched_invI simp: distinct_delete split: if_splits)
  next
    case (last s)
    then show ?thesis
      using d queued_delete [OF d(1), of key]
      by (auto intro!: sched_invI simp: distinct_delete split: if_splits)
  next
    case (drained s n rest)
    let ?s = "s\<lparr>slot_queue := rest, slot_current_turn_id := Some (sdt_turn_id n)\<rparr>"
    have "slot_ok key ?s" by (rule slot_ok_pop [OF d(2) [OF drained(1)] drained(2)])
    then show ?thesis
      unfolding drained(3) snd_conv
      using d drained(1,2) queued_update [OF d(1), of key ?s]
      by (intro sched_invI) (auto simp: distinct_update split: if_splits)
  qed
qed

section \<open>A fair server\<close>

text \<open>
  What a session queue promises its clients: the work items of a key that start, followed by
  those still waiting, are those that were waiting, followed by those newly taken; and a key
  starts an item only when its previous one has completed. The laws are about one operation;
  the facts about whole runs follow once, here.
\<close>

fun run_steps :: "('op \<Rightarrow> 's \<Rightarrow> 's) \<Rightarrow> 'op list \<Rightarrow> 's \<Rightarrow> 's" where
  "run_steps step [] s = s"
| "run_steps step (op # ops) s = run_steps step ops (step op s)"

fun events :: "('op \<Rightarrow> 's \<Rightarrow> 's) \<Rightarrow> ('op \<Rightarrow> 's \<Rightarrow> 'e list) \<Rightarrow> 'op list \<Rightarrow> 's \<Rightarrow> 'e list" where
  "events step f [] s = []"
| "events step f (op # ops) s = f op s @ events step f ops (step op s)"

locale fair_server =
  fixes step :: "'op \<Rightarrow> 's \<Rightarrow> 's"
    and inv :: "'s \<Rightarrow> bool"
    and waiting :: "'k \<Rightarrow> 's \<Rightarrow> 'e list"
    and running :: "'k \<Rightarrow> 's \<Rightarrow> bool"
    and taken :: "'k \<Rightarrow> 'op \<Rightarrow> 's \<Rightarrow> 'e list"
    and started :: "'k \<Rightarrow> 'op \<Rightarrow> 's \<Rightarrow> 'e list"
    and completes :: "'k \<Rightarrow> 'op \<Rightarrow> bool"
  assumes inv_step: "inv s \<Longrightarrow> inv (step op s)"
    and queue_law: "inv s \<Longrightarrow> started k op s @ waiting k (step op s) = waiting k s @ taken k op s"
    and one_at_a_time: "inv s \<Longrightarrow>
      length (started k op s) + (if running k s then 1 else 0) =
      (if completes k op \<and> running k s then 1 else 0) + (if running k (step op s) then 1 else 0)"
    and served: "inv s \<Longrightarrow> completes k op \<Longrightarrow> waiting k s \<noteq> [] \<Longrightarrow> length (started k op s) = 1"
begin

lemma run_inv: "inv s \<Longrightarrow> inv (run_steps step ops s)"
  by (induction ops arbitrary: s) (auto intro: inv_step)

lemma run_queue:
  "inv s \<Longrightarrow> events step (started k) ops s @ waiting k (run_steps step ops s) =
     waiting k s @ events step (taken k) ops s"
proof (induction ops arbitrary: s)
  case (Cons op ops)
  have "started k op s @ events step (started k) ops (step op s) @ waiting k (run_steps step ops (step op s))
      = (started k op s @ waiting k (step op s)) @ events step (taken k) ops (step op s)"
    using Cons.IH [OF inv_step [OF Cons.prems, of op]] by simp
  also have "\<dots> = waiting k s @ taken k op s @ events step (taken k) ops (step op s)"
    using queue_law [OF Cons.prems, of k op] by simp
  finally show ?case by simp
qed simp

lemma exclusive_arith:
  "\<lbrakk>m + r = (if b \<and> r0 then 1 else 0) + r'; n + r' \<le> c + q\<rbrakk>
   \<Longrightarrow> m + n + r \<le> (if b then Suc c else c) + q" for c m n r r' q :: nat
  by (cases b; cases r0) simp_all

lemma run_exclusive:
  "inv s \<Longrightarrow> length (events step (started k) ops s) + (if running k s then 1 else 0) \<le>
     length (filter (completes k) ops) + (if running k (run_steps step ops s) then 1 else 0)"
proof (induction ops arbitrary: s)
  case (Cons op ops)
  have "length (started k op s) + length (events step (started k) ops (step op s)) +
      (if running k s then 1 else 0) \<le> (if completes k op then Suc (length (filter (completes k) ops))
        else length (filter (completes k) ops)) +
      (if running k (run_steps step ops (step op s)) then 1 else 0)"
    by (rule exclusive_arith [OF one_at_a_time [OF Cons.prems]
          Cons.IH [OF inv_step [OF Cons.prems, of op]]])
  then show ?case by (cases "completes k op") simp_all
qed simp

lemma served_arith:
  "\<lbrakk>min c w' \<le> n; w \<le> m + w'; b \<Longrightarrow> 0 < w \<Longrightarrow> m = 1\<rbrakk>
   \<Longrightarrow> min (if b then Suc c else c) w \<le> m + n" for c w w' m n :: nat
  by (auto simp: min_def split: if_splits)

lemma run_served:
  "inv s \<Longrightarrow> min (length (filter (completes k) ops)) (length (waiting k s)) \<le>
     length (events step (started k) ops s)"
proof (induction ops arbitrary: s)
  case (Cons op ops)
  note ih = Cons.IH [OF inv_step [OF Cons.prems, of op]]
  have "length (started k op s) + length (waiting k (step op s)) \<ge> length (waiting k s)"
    using arg_cong [OF queue_law [OF Cons.prems, of k op], of length] by simp
  moreover have "completes k op \<Longrightarrow> 0 < length (waiting k s) \<Longrightarrow> length (started k op s) = 1"
    using served [OF Cons.prems] by simp
  ultimately have "min (if completes k op then Suc (length (filter (completes k) ops))
      else length (filter (completes k) ops)) (length (waiting k s)) \<le>
      length (started k op s) + length (events step (started k) ops (step op s))"
    by (rule served_arith [OF ih])
  then show ?case by (cases "completes k op") simp_all
qed simp

end

section \<open>The scheduler is a fair server\<close>

datatype 's sched_op = Submit "'s scheduled_turn" | Complete string

fun sched_step :: "'s sched_op \<Rightarrow> 's scheduler \<Rightarrow> 's scheduler" where
  "sched_step (Submit t) inner = snd (submit t inner)"
| "sched_step (Complete k) inner = snd (on_turn_completed k inner)"

definition waiting_turns :: "string \<Rightarrow> 's scheduler \<Rightarrow> 's scheduled_turn list" where
  "waiting_turns k inner = (case map_of (sch_slots inner) k of Some s \<Rightarrow> slot_queue s | None \<Rightarrow> [])"

definition session_running :: "string \<Rightarrow> 's scheduler \<Rightarrow> bool" where
  "session_running k inner = (map_of (sch_slots inner) k \<noteq> None)"

text \<open>The Turn an operation lets the session start, and the Turn it takes.\<close>

fun started_turns :: "string \<Rightarrow> 's sched_op \<Rightarrow> 's scheduler \<Rightarrow> 's scheduled_turn list" where
  "started_turns k (Submit t) inner =
     (if turn_session_key t = k
      then (case fst (submit t inner) of Started t' \<Rightarrow> [t'] | _ \<Rightarrow> []) else [])"
| "started_turns k (Complete k') inner =
     (if k' = k then (case fst (on_turn_completed k' inner) of Some t \<Rightarrow> [t] | None \<Rightarrow> []) else [])"

fun taken_turns :: "string \<Rightarrow> 's sched_op \<Rightarrow> 's scheduler \<Rightarrow> 's scheduled_turn list" where
  "taken_turns k (Submit t) inner =
     (if turn_session_key t = k
      then (case fst (submit t inner) of Started _ \<Rightarrow> [t] | Enqueued \<Rightarrow> [t] | _ \<Rightarrow> []) else [])"
| "taken_turns k (Complete k') inner = []"

fun completes_session :: "string \<Rightarrow> 's sched_op \<Rightarrow> bool" where
  "completes_session k (Submit t) = False"
| "completes_session k (Complete k') = (k' = k)"

lemma sched_step_inv: "sched_inv inner \<Longrightarrow> sched_inv (sched_step op inner)"
  by (cases op) (simp_all add: submit_inv completed_inv)

lemma submit_queue_law:
  assumes "sched_inv inner"
  shows "started_turns k (Submit t) inner @ waiting_turns k (sched_step (Submit t) inner) =
      waiting_turns k inner @ taken_turns k (Submit t) inner"
  using assms
  by (cases rule: submit_cases [where turn = t])
    (auto simp: waiting_turns_def simp del: map_of_eq_Some_iff)

lemma submit_running_law:
  assumes "sched_inv inner"
  shows "length (started_turns k (Submit t) inner) + (if session_running k inner then 1 else 0) =
      (if session_running k (sched_step (Submit t) inner) then 1 else 0)"
  using assms
  by (cases rule: submit_cases [where turn = t])
    (auto simp: session_running_def simp del: map_of_eq_Some_iff)

lemma complete_queue_law:
  "started_turns k (Complete j) inner @ waiting_turns k (sched_step (Complete j) inner) =
     waiting_turns k inner"
  by (cases rule: completed_cases [of inner j])
    (auto simp: waiting_turns_def simp del: map_of_eq_Some_iff)

lemma complete_running_law:
  "length (started_turns k (Complete j) inner) + (if session_running k inner then 1 else 0) =
     (if j = k \<and> session_running k inner then 1 else 0) +
     (if session_running k (sched_step (Complete j) inner) then 1 else 0)"
  by (cases rule: completed_cases [of inner j])
    (auto simp: session_running_def simp del: map_of_eq_Some_iff)

lemma complete_serves:
  "waiting_turns k inner \<noteq> [] \<Longrightarrow> length (started_turns k (Complete k) inner) = 1"
  by (cases rule: completed_cases [of inner k])
    (auto simp: waiting_turns_def simp del: map_of_eq_Some_iff)

interpretation sessions: fair_server "sched_step :: 'a sched_op \<Rightarrow> 'a scheduler \<Rightarrow> 'a scheduler" sched_inv waiting_turns session_running taken_turns
    started_turns completes_session
proof
  show "\<And>s op. sched_inv s \<Longrightarrow> sched_inv (sched_step op s)" by (rule sched_step_inv)
next
  fix s :: "'a scheduler" and k and op :: "'a sched_op"
  assume "sched_inv s"
  then show "started_turns k op s @ waiting_turns k (sched_step op s) =
      waiting_turns k s @ taken_turns k op s"
    by (cases op) (simp_all only: submit_queue_law complete_queue_law taken_turns.simps append_Nil2)
next
  fix s :: "'a scheduler" and k and op :: "'a sched_op"
  assume "sched_inv s"
  then show "length (started_turns k op s) + (if session_running k s then 1 else 0) =
      (if completes_session k op \<and> session_running k s then 1 else 0) +
      (if session_running k (sched_step op s) then 1 else 0)"
    by (cases op) (simp_all only: submit_running_law complete_running_law completes_session.simps
        simp_thms if_False add_0)
next
  fix s :: "'a scheduler" and k and op :: "'a sched_op"
  assume "completes_session k op" "waiting_turns k s \<noteq> []"
  then show "length (started_turns k op s) = 1"
    using complete_serves by (cases op) auto
qed

section \<open>Properties of the scheduler\<close>

definition sample_turn_of :: "string \<Rightarrow> string \<Rightarrow> unit scheduled_turn" where
  "sample_turn_of i thread =
     \<lparr>sdt_turn_id = i, sdt_context = sample_context\<lparr>sc_surface_thread := thread\<rparr>, sdt_input = ''hi'',
      sdt_origin_id = ''O'', sdt_received_at = None, sdt_config_snapshot = None,
      sdt_response_delivery = Channel\<rparr>"

definition sample_key :: string where
  "sample_key = turn_session_key (sample_turn_of ''a'' ''c1'')"

definition sample_ops :: "unit sched_op list" where
  "sample_ops =
     [Submit (sample_turn_of ''a'' ''c1''), Submit (sample_turn_of ''b'' ''c1''),
      Submit (sample_turn_of ''x'' ''c2''), Submit (sample_turn_of ''b'' ''c1''),
      Submit (sample_turn_of ''c'' ''c1''), Complete sample_key]"

text \<open>
  C24: The Turns of one session start in the order they were taken, none is lost or repeated,
  and at most one of them runs at a time, whatever is submitted and completed in other
  sessions: those started, followed by those waiting, are those that waited before followed
  by those taken; a start needs a completion, and each completion starts the next one waiting.
\<close>

theorem session_turns_in_order:
  assumes "sched_inv s"
  shows "events sched_step (started_turns k) ops s @ waiting_turns k (run_steps sched_step ops s) =
      waiting_turns k s @ events sched_step (taken_turns k) ops s \<and>
    length (events sched_step (started_turns k) ops s) + (if session_running k s then 1 else 0) \<le>
      length (filter (completes_session k) ops) + 1 \<and>
    min (length (filter (completes_session k) ops)) (length (waiting_turns k s)) \<le>
      length (events sched_step (started_turns k) ops s)"
  using sessions.run_queue [OF assms, of k ops] sessions.run_exclusive [OF assms, of k ops]
    sessions.run_served [OF assms, of k ops]
  by (simp split: if_splits)

theorem session_turns_in_order_witness:
  "map sdt_turn_id (events sched_step (started_turns sample_key) sample_ops scheduler_new @
     waiting_turns sample_key (run_steps sched_step sample_ops scheduler_new)) = [''a'', ''b'', ''c'']"
proof -
  have "map sdt_turn_id (events sched_step (taken_turns sample_key) sample_ops scheduler_new) =
      [''a'', ''b'', ''c'']"
    by code_simp
  moreover have "waiting_turns sample_key (scheduler_new :: unit scheduler) = []"
    by (simp add: waiting_turns_def scheduler_new_def)
  ultimately show ?thesis
    using session_turns_in_order [OF sched_inv_new, of sample_key sample_ops] by simp
qed

text \<open>
  After any submissions and completions the global count is the number of queued Turns and
  at most 512, each session has a running Turn and at most 32 queued ones, all of that session,
  and no Turn id is owned twice by a session.
\<close>

theorem scheduler_bounded:
  "\<exists>s. s = run_steps sched_step ops scheduler_new \<and>
     sch_global_queued s = queued (sch_slots s) \<and> sch_global_queued s \<le> 512 \<and>
     (\<forall>(k, slot) \<in> set (sch_slots s). slot_busy slot \<and> length (slot_queue slot) \<le> 32 \<and>
        list_all (\<lambda>t. turn_session_key t = k) (slot_queue slot) \<and>
        distinct (filter (\<lambda>i. i \<noteq> []) (slot_ids slot)))"
proof -
  have "sched_inv (run_steps sched_step ops scheduler_new)"
    by (rule sessions.run_inv [OF sched_inv_new])
  then show ?thesis
    by (auto simp: sched_inv_def slot_ok_def MAX_QUEUED_TURNS_PER_SESSION_def
        MAX_GLOBAL_QUEUED_TURNS_def)
qed

theorem scheduler_bounded_witness:
  "sch_global_queued (run_steps sched_step sample_ops scheduler_new) = 1 \<and>
   sch_global_queued (run_steps sched_step sample_ops scheduler_new) \<le> 512"
proof -
  have "sch_global_queued (run_steps sched_step sample_ops scheduler_new) = 1" by code_simp
  then show ?thesis using scheduler_bounded [of sample_ops] by auto
qed

text \<open>
  Submitting is safe to repeat: once a Turn with an id has been started or queued,
  submitting it again answers \<open>AlreadyOwned\<close> and changes nothing; a Turn is deferred only
  when its session has 32 queued Turns or all sessions together 512, and then nothing changed;
  an idle session starts the Turn at once. Other sessions are never touched.
\<close>

theorem submit_idempotent:
  assumes "sched_inv s" "sdt_turn_id t \<noteq> []" "submit t s = (r, s')"
  shows "(if r = DeferredCapacity
      then s' = s \<and> (length (waiting_turns (turn_session_key t) s) = 32 \<or> sch_global_queued s = 512)
      else submit t s' = (AlreadyOwned, s')) \<and>
    (\<not> session_running (turn_session_key t) s \<longrightarrow> r = Started t) \<and>
    (k \<noteq> turn_session_key t \<longrightarrow> map_of (sch_slots s') k = map_of (sch_slots s) k)"
  using assms(1)
proof (cases rule: submit_cases [where turn = t])
  case (owned slot)
  then show ?thesis using assms(3) by (simp add: session_running_def)
next
  case started
  then show ?thesis using assms(2,3)
    by (auto simp: session_running_def submit_def Let_def owned_def)
next
  case (full slot)
  then show ?thesis using assms(3)
    by (auto simp: session_running_def waiting_turns_def MAX_QUEUED_TURNS_PER_SESSION_def
        MAX_GLOBAL_QUEUED_TURNS_def)
next
  case (enqueued slot)
  then show ?thesis using assms(2,3)
    by (auto simp: session_running_def submit_def Let_def owned_def)
qed

theorem submit_idempotent_witness:
  "submit (sample_turn_of ''a'' ''c1'')
     (snd (submit (sample_turn_of ''a'' ''c1'') scheduler_new)) =
   (AlreadyOwned, snd (submit (sample_turn_of ''a'' ''c1'') scheduler_new))"
proof -
  obtain r s' where r: "submit (sample_turn_of ''a'' ''c1'') scheduler_new = (r, s')"
    by (cases "submit (sample_turn_of ''a'' ''c1'') scheduler_new")
  have "\<not> session_running k (scheduler_new :: unit scheduler)" for k
    by (simp add: session_running_def scheduler_new_def)
  moreover have "sdt_turn_id (sample_turn_of ''a'' ''c1'') \<noteq> []" by (simp add: sample_turn_of_def)
  ultimately show ?thesis
    using submit_idempotent [OF sched_inv_new _ r] r by (simp split: if_splits)
qed

section \<open>Counting the running Turns of an agent\<close>

datatype active_op = BeginTurn string | EndTurn string

fun active_step :: "active_op \<Rightarrow> active_turns \<Rightarrow> active_turns" where
  "active_step (BeginTurn a) t = begin_turn a t"
| "active_step (EndTurn a) t = end_turn a t"

text \<open>The abstract counter: one up at each begin, one down (not below zero) at each end.\<close>

fun balance :: "string \<Rightarrow> active_op list \<Rightarrow> nat \<Rightarrow> nat" where
  "balance a [] n = n"
| "balance a (BeginTurn b # ops) n = balance a ops (if a = b then n + 1 else n)"
| "balance a (EndTurn b # ops) n = balance a ops (if a = b then n - 1 else n)"

definition count_of :: "string \<Rightarrow> active_turns \<Rightarrow> nat" where
  "count_of a t = (case map_of t a of Some c \<Rightarrow> unat c | None \<Rightarrow> 0)"

lemma count_begin:
  "count_of a t + 1 < 2 ^ 32 \<Longrightarrow>
    count_of a (begin_turn b t) = (if a = b then count_of a t + 1 else count_of a t)"
  by (auto simp: count_of_def begin_turn_def unat_word_ariths split: option.splits)

lemma count_end: "count_of a (end_turn b t) = (if a = b then count_of a t - 1 else count_of a t)"
proof (cases "map_of t b")
  case None
  then show ?thesis by (simp add: count_of_def end_turn_def)
next
  case (Some c)
  have "unat (c - 1) = unat c - 1" if "c \<noteq> 0"
    using that by (simp add: unat_minus_one)
  moreover have "(c - 1 = 0) = (c = 1)" by simp
  ultimately show ?thesis using Some
    by (auto simp: count_of_def end_turn_def Let_def simp del: map_of_eq_Some_iff)
qed

lemma balance_run:
  "count_of a t + length ops < 2 ^ 32 \<Longrightarrow>
    count_of a (run_steps active_step ops t) = balance a ops (count_of a t)"
proof (induction ops arbitrary: t)
  case (Cons op ops)
  show ?case
  proof (cases op)
    case (BeginTurn b)
    have "count_of a (begin_turn b t) = (if a = b then count_of a t + 1 else count_of a t)"
      using Cons.prems by (intro count_begin) simp
    then show ?thesis using Cons.IH [of "begin_turn b t"] Cons.prems
      by (simp add: BeginTurn split: if_splits)
  next
    case (EndTurn b)
    then show ?thesis using Cons.IH [of "end_turn b t"] Cons.prems
      by (cases "a = b") (simp_all add: count_end)
  qed
qed simp

text \<open>
  The counter that lets a scheduled batch wait for an agent is exact: after any begins and
  ends (fewer than two to the 32) an agent is active exactly when more of its Turns began than
  ended.
\<close>

theorem active_exactly_while_running:
  assumes "length ops < 2 ^ 32"
  shows "is_active a (run_steps active_step ops []) = (0 < balance a ops 0)"
proof -
  have "is_active a t = (0 < count_of a t)" for t
    by (simp add: is_active_def count_of_def word_gt_0 unat_gt_0 split: option.split)
  then show ?thesis using balance_run [of a "[]" ops] assms by (simp add: count_of_def)
qed

theorem active_exactly_while_running_witness:
  "is_active ''a'' (run_steps active_step [BeginTurn ''a'', BeginTurn ''b'', BeginTurn ''a'',
     EndTurn ''a''] [])"
  using active_exactly_while_running [of "[BeginTurn ''a'', BeginTurn ''b'', BeginTurn ''a'',
     EndTurn ''a'']" "''a''"] by simp

end
