(* ===== verification/Keyset_Pages.thy ===== *)
theory Keyset_Pages
  imports Prelude
begin

text \<open>
  Reading a long listing page by page with a keyset cursor: \<open>WHERE ... AND key < ? ORDER BY key
  DESC LIMIT n\<close> (or upwards). The caller passes the key of the last row it has as the cursor of
  the next page. The contract \<open>keyset_reader\<close> shows once that the pages, put together, are the
  whole listing, without a gap or a repetition; the listings of sleep runs, of pulse runs, of
  the messages of a chat and of the Turns to dispatch are its instances.
\<close>

section \<open>Pages and the reading loop\<close>

definition comes_after :: "('k \<Rightarrow> 'k \<Rightarrow> bool) \<Rightarrow> ('r \<Rightarrow> 'k) \<Rightarrow> 'k option \<Rightarrow> 'r \<Rightarrow> bool" where
  "comes_after lt key c r = (case c of None \<Rightarrow> True | Some k \<Rightarrow> lt k (key r))"

text \<open>The caller's loop: ask for a page, and then for the one after its last row.\<close>

fun read_pages :: "('k option \<Rightarrow> 'r list) \<Rightarrow> ('r \<Rightarrow> 'k) \<Rightarrow> nat \<Rightarrow> 'k option \<Rightarrow> 'r list" where
  "read_pages page key 0 c = []"
| "read_pages page key (Suc fuel) c =
     (let p = page c
      in if p = [] then [] else p @ read_pages page key fuel (Some (key (last p))))"

section \<open>The contract\<close>

locale keyset_reader =
  fixes lt :: "'k \<Rightarrow> 'k \<Rightarrow> bool"
    and key :: "'r \<Rightarrow> 'k"
    and inv :: "'db \<Rightarrow> bool"
    and whole :: "'db \<Rightarrow> 'r list"
    and page :: "'k option \<Rightarrow> nat \<Rightarrow> 'db \<Rightarrow> 'r list"
  assumes lt_trans: "lt a b \<Longrightarrow> lt b c \<Longrightarrow> lt a c"
    and lt_irrefl: "\<not> lt a a"
    and whole_sorted: "inv db \<Longrightarrow> sorted_wrt (\<lambda>r s. lt (key r) (key s)) (whole db)"
    and page_eq: "inv db \<Longrightarrow> page cur n db = take n (filter (comes_after lt key cur) (whole db))"
begin

lemma after_split:
  assumes "sorted_wrt (\<lambda>r s. lt (key r) (key s)) (xs @ [x] @ ys)"
  shows "filter (comes_after lt key (Some (key x))) (xs @ [x] @ ys) = ys"
proof -
  have "\<not> lt (key x) (key r)" if "r \<in> set xs" for r
  proof -
    have "lt (key r) (key x)" using assms that by (simp add: sorted_wrt_append)
    then show ?thesis using lt_trans lt_irrefl by blast
  qed
  then have "filter (\<lambda>r. lt (key x) (key r)) xs = []" by (simp add: filter_empty_conv)
  moreover have "filter (\<lambda>r. lt (key x) (key r)) ys = ys"
    using assms by (auto simp: sorted_wrt_append filter_id_conv)
  moreover have "comes_after lt key (Some (key x)) = (\<lambda>r. lt (key x) (key r))"
    by (rule ext) (simp add: comes_after_def)
  ultimately show ?thesis using lt_irrefl by simp
qed

lemma after_page:
  assumes "sorted_wrt (\<lambda>r s. lt (key r) (key s)) F" "0 < n" "F \<noteq> []"
  shows "filter (comes_after lt key (Some (key (last (take n F))))) F = drop n F"
proof -
  have ne: "take n F \<noteq> []" using assms(2,3) by simp
  then have F: "F = butlast (take n F) @ [last (take n F)] @ drop n F"
    by (metis append_assoc append_butlast_last_id append_take_drop_id)
  show ?thesis using after_split [of "butlast (take n F)" "last (take n F)" "drop n F"] assms(1) F
    by metis
qed

lemma rest_after_page:
  assumes "inv db" "0 < n" "filter (comes_after lt key c) (whole db) \<noteq> []"
  shows "filter (comes_after lt key (Some (key (last (page c n db))))) (whole db) =
    drop n (filter (comes_after lt key c) (whole db))"
proof -
  let ?F = "filter (comes_after lt key c) (whole db)"
  let ?l = "last (take n ?F)"
  have l: "?l \<in> set ?F" using assms(2,3) by (metis last_in_set in_set_takeD take_eq_Nil neq0_conv)
  have lc: "comes_after lt key c ?l" using l by (simp only: set_filter mem_Collect_eq)
  have "comes_after lt key (Some (key ?l)) r =
      (comes_after lt key c r \<and> comes_after lt key (Some (key ?l)) r)" for r
    using lc lt_trans by (cases c) (auto simp only: comes_after_def option.case)
  then have "filter (comes_after lt key (Some (key ?l))) (whole db) =
      filter (comes_after lt key (Some (key ?l))) ?F"
    unfolding filter_filter by (intro filter_cong [OF refl])
  also have "\<dots> = drop n ?F"
    by (rule after_page [OF sorted_wrt_filter [OF whole_sorted [OF assms(1)]] assms(2,3)])
  finally show ?thesis by (simp only: page_eq [OF assms(1)])
qed

lemma read_from:
  assumes "inv db" "0 < n"
  shows "length (filter (comes_after lt key c) (whole db)) < fuel \<Longrightarrow>
    read_pages (\<lambda>c. page c n db) key fuel c = filter (comes_after lt key c) (whole db)"
proof (induction fuel arbitrary: c)
  case (Suc fuel)
  let ?F = "filter (comes_after lt key c) (whole db)"
  show ?case
  proof (cases "?F = []")
    case True
    then show ?thesis by (simp add: page_eq [OF assms(1)])
  next
    case False
    note rest = rest_after_page [OF assms False]
    have "0 < length ?F" using False by (simp only: length_greater_0_conv not_False_eq_True)
    then have "length (filter (comes_after lt key (Some (key (last (page c n db))))) (whole db)) < fuel"
      unfolding rest length_drop using Suc.prems assms(2) by linarith
    note ih = Suc.IH [OF this, unfolded rest]
    have "page c n db \<noteq> []"
      using False assms(2) unfolding page_eq [OF assms(1)] by (metis take_eq_Nil neq0_conv)
    then have "read_pages (\<lambda>c. page c n db) key (Suc fuel) c = take n ?F @ drop n ?F"
      using ih by (simp only: read_pages.simps Let_def if_False page_eq [OF assms(1)])
    then show ?thesis by (simp only: append_take_drop_id)
  qed
qed simp

lemma read_all:
  assumes "inv db" "0 < n" "length (whole db) < fuel"
  shows "read_pages (\<lambda>c. page c n db) key fuel None = whole db"
proof -
  have all: "filter (comes_after lt key None) (whole db) = whole db"
    by (simp add: comes_after_def)
  show ?thesis using read_from [OF assms(1,2), of None fuel] assms(3) unfolding all by blast
qed

text \<open>Reading only so many pages gives a prefix: the first rows of the listing.\<close>

lemma read_some:
  assumes "inv db" "0 < n"
  shows "read_pages (\<lambda>c. page c n db) key fuel c =
    take (fuel * n) (filter (comes_after lt key c) (whole db))"
proof (induction fuel arbitrary: c)
  case (Suc fuel)
  let ?F = "filter (comes_after lt key c) (whole db)"
  show ?case
  proof (cases "?F = []")
    case True
    then show ?thesis by (simp add: page_eq [OF assms(1)])
  next
    case False
    note ih = Suc.IH [of "Some (key (last (page c n db)))", unfolded rest_after_page [OF assms False]]
    have "page c n db \<noteq> []"
      using False assms(2) unfolding page_eq [OF assms(1)] by (metis take_eq_Nil neq0_conv)
    then have "read_pages (\<lambda>c. page c n db) key (Suc fuel) c = take n ?F @ take (fuel * n) (drop n ?F)"
      using ih by (simp only: read_pages.simps Let_def if_False page_eq [OF assms(1)])
    also have "\<dots> = take (n + fuel * n) ?F" by (simp only: take_add)
    finally show ?thesis by simp
  qed
qed simp

end

section \<open>Listings in descending key order\<close>

definition listing :: "('r \<Rightarrow> 'k::linorder) \<Rightarrow> ('r \<Rightarrow> bool) \<Rightarrow> 'r list \<Rightarrow> 'r list" where
  "listing key P rows = rev (sort_key key (filter P rows))"

lemma set_listing [simp]: "set (listing key P rows) = {r \<in> set rows. P r}"
  by (auto simp: listing_def)

lemma length_listing: "length (listing key P rows) \<le> length rows"
  by (simp add: listing_def)

lemma listing_filter: "listing key (\<lambda>r. P r \<and> Q r) rows = filter Q (listing key P rows)"
proof -
  have "filter (\<lambda>r. P r \<and> Q r) rows = filter Q (filter P rows)" by (simp add: conj_commute)
  then show ?thesis by (simp add: listing_def rev_filter [symmetric] filter_sort)
qed

lemma sort_key_strict:
  fixes key :: "'r \<Rightarrow> 'k::linorder"
  assumes "distinct (map key rows)"
  shows "sorted_wrt (\<lambda>a b. key a < key b) (sort_key key (filter P rows))"
proof -
  let ?s = "sort_key key (filter P rows)"
  have "distinct (map key (filter P rows))" by (rule distinct_map_filter [OF assms])
  then have "distinct (map key ?s)" by (metis distinct_map distinct_sort set_sort)
  then have "sorted_wrt (<) (map key ?s)" by (simp add: strict_sorted_iff)
  then show ?thesis by (simp add: sorted_wrt_map)
qed

lemma listing_sorted:
  "distinct (map key rows) \<Longrightarrow> sorted_wrt (\<lambda>a b. key b < key a) (listing key P rows)"
  using sort_key_strict by (simp add: listing_def sorted_wrt_rev)

text \<open>The cursor condition \<open>(started_at, id) < (?, ?)\<close> of the run listings.\<close>

definition before_cursor :: "('r \<Rightarrow> cursor) \<Rightarrow> cursor option \<Rightarrow> 'r \<Rightarrow> bool" where
  "before_cursor key before r = (case before of None \<Rightarrow> True | Some c \<Rightarrow> key r < c)"

lemma comes_before: "comes_after (\<lambda>a b. b < a) key c = before_cursor key c"
  by (rule ext) (simp add: comes_after_def before_cursor_def split: option.split)

text \<open>A listing whose rows are parsed into typed values with the same cursor.\<close>

lemma typed_page:
  assumes "\<And>r. r \<in> set rows \<Longrightarrow> parse r = Inr (ty r)" "\<And>r. r \<in> set rows \<Longrightarrow> keyt (ty r) = key r"
  shows "rmap parse (take n (listing key (\<lambda>r. P r \<and> before_cursor key c r) rows)) =
    Inr (take n (filter (before_cursor keyt c) (map ty (listing key P rows))))"
proof -
  have "rmap parse (take n (filter (before_cursor key c) (listing key P rows))) =
      Inr (map ty (take n (filter (before_cursor key c) (listing key P rows))))"
    by (rule rmap_Inr) (auto dest!: in_set_takeD intro: assms(1))
  moreover have "map ty (filter (before_cursor key c) (listing key P rows)) =
      filter (before_cursor keyt c) (map ty (listing key P rows))"
    unfolding filter_map
    by (intro arg_cong [where f = "map ty"] filter_cong refl)
      (auto simp: before_cursor_def assms(2) split: option.split)
  ultimately show ?thesis by (simp add: listing_filter take_map [symmetric])
qed

lemma typed_listing_sorted:
  assumes "distinct (map key rows)" "\<And>r. r \<in> set rows \<Longrightarrow> keyt (ty r) = key r"
  shows "sorted_wrt (\<lambda>a b. keyt b < keyt a) (map ty (listing key P rows))"
  unfolding sorted_wrt_map
  by (rule sorted_wrt_mono_rel [OF _ listing_sorted [OF assms(1)]]) (simp add: assms(2))

end
