(* ===== verification/Sleep_Store.thy ===== *)
theory Sleep_Store
  imports Db_Schema Keyset_Pages "HOL-Library.Product_Lexorder"
begin

text \<open>
  \<open>src/src/storage/sleep.rs\<close>: the runs of the nightly memory batch, their steps, the cursors
  that say how far the messages and events of an agent were read, and the snapshots of its
  memory files. An operation that opens a transaction answers an error without a database, for
  it rolls back. Fresh identifiers and the clock are arguments; the clock is read once per
  operation.
\<close>

section \<open>Row mappers\<close>

definition row_to_sleep_run ::
  "sleep_run_row \<Rightarrow> storage_error + (sleep_run_status, sleep_run_trigger) sleep_run" where
  "row_to_sleep_run r =
     rbind (parse_row_enum sleep_run_status_from_str 2 (sr_status r)) (\<lambda>s.
     rbind (parse_row_enum sleep_run_trigger_from_str 3 (sr_trigger r)) (\<lambda>t.
     Inr \<lparr>sr_id = sr_id r, sr_agent_id = sr_agent_id r, sr_status = s, sr_trigger = t,
       sr_started_at = sr_started_at r, sr_finished_at = sr_finished_at r,
       sr_source_chats_json = sr_source_chats_json r, sr_source_digest_md = sr_source_digest_md r,
       sr_input_tokens = sr_input_tokens r, sr_output_tokens = sr_output_tokens r,
       sr_total_tokens = sr_total_tokens r, sr_error_message = sr_error_message r\<rparr>))"

definition row_to_memory_snapshot :: "memory_snapshot_row \<Rightarrow> storage_error + memory_file memory_snapshot" where
  "row_to_memory_snapshot r =
     rbind (parse_row_enum memory_file_from_str 3 (ms_file r)) (\<lambda>f.
     Inr \<lparr>ms_id = ms_id r, ms_run_id = ms_run_id r, ms_agent_id = ms_agent_id r, ms_file = f,
       ms_content_before = ms_content_before r, ms_content_after = ms_content_after r,
       ms_created_at = ms_created_at r\<rparr>)"

definition row_to_sleep_run_step :: "sleep_step_row \<Rightarrow> storage_error + sleep_run_step" where
  "row_to_sleep_run_step r =
     rbind (parse_row_enum sleep_step_name_from_str 1 (st_step_name r)) (\<lambda>n.
     rbind (parse_row_enum sleep_step_status_from_str 2 (st_status r)) (\<lambda>s.
     Inr \<lparr>st_sleep_run_id = st_sleep_run_id r, st_step_name = n, st_status = s,
       st_started_at = st_started_at r, st_finished_at = st_finished_at r,
       st_input_tokens = st_input_tokens r, st_output_tokens = st_output_tokens r,
       st_error_message = st_error_message r, st_metadata_json = st_metadata_json r\<rparr>))"

definition row_to_sleep_checkpoint :: "checkpoint_row \<Rightarrow> storage_error + sleep_step_checkpoint" where
  "row_to_sleep_checkpoint r =
     rbind (parse_row_enum sleep_step_name_from_str 1 (cp_step_name r)) (\<lambda>n.
     rbind (parse_row_enum checkpoint_source_kind_from_str 2 (cp_source_kind r)) (\<lambda>k.
     Inr \<lparr>cp_agent_id = cp_agent_id r, cp_step_name = n, cp_source_kind = k,
       cp_source_id = cp_source_id r, cp_cursor_at = cp_cursor_at r, cp_cursor_id = cp_cursor_id r,
       cp_updated_at = cp_updated_at r\<rparr>))"

section \<open>Statements shared by the transactions\<close>

definition checkpoint_to_row :: "sleep_step_checkpoint \<Rightarrow> checkpoint_row" where
  "checkpoint_to_row c =
     \<lparr>cp_agent_id = cp_agent_id c, cp_step_name = sleep_step_name_display (cp_step_name c),
      cp_source_kind = checkpoint_source_kind_display (cp_source_kind c),
      cp_source_id = cp_source_id c, cp_cursor_at = cp_cursor_at c, cp_cursor_id = cp_cursor_id c,
      cp_updated_at = cp_updated_at c\<rparr>"

type_synonym checkpoint_key = "string \<times> string \<times> string \<times> string"

definition checkpoint_key :: "checkpoint_row \<Rightarrow> checkpoint_key" where
  "checkpoint_key r = (cp_agent_id r, cp_step_name r, cp_source_kind r, cp_source_id r)"

definition checkpoint_cursor :: "checkpoint_row \<Rightarrow> cursor" where
  "checkpoint_cursor r = Cursor (cp_cursor_at r) (cp_cursor_id r)"

text \<open>The table's \<open>CHECK\<close>: which source a step reads.\<close>

definition checkpoint_check :: "checkpoint_row \<Rightarrow> bool" where
  "checkpoint_check r =
     (cp_step_name r \<in> {''event_extraction'', ''prospective_update''} \<and> cp_source_kind r = ''messages'' \<or>
      cp_step_name r = ''semantic_update'' \<and> cp_source_kind r = ''episode_events'')"

definition did_not_advance :: "sleep_step_checkpoint \<Rightarrow> storage_error" where
  "did_not_advance c = Conflict (''checkpoint:'' @ cp_agent_id c @ '':'' @
     sleep_step_name_display (cp_step_name c) @ '':'' @
     checkpoint_source_kind_display (cp_source_kind c) @ '':'' @ cp_source_id c @ '' did not advance'')"

definition commit_checkpoint :: "sleep_step_checkpoint \<Rightarrow> database \<Rightarrow> storage_error + database" where
  "commit_checkpoint c db =
     (let row = checkpoint_to_row c; k = checkpoint_key row in
      if \<not> checkpoint_check row
      then Inl (Sqlite (ConstraintViolation ''CHECK sleep_step_checkpoints''))
      else case find_row (\<lambda>r. checkpoint_key r = k) (sleep_step_checkpoints db) of
        None \<Rightarrow> Inr (db\<lparr>sleep_step_checkpoints := insert_row row (sleep_step_checkpoints db)\<rparr>)
      | Some r \<Rightarrow>
          if checkpoint_cursor r < checkpoint_cursor row
          then Inr (db\<lparr>sleep_step_checkpoints :=
                 update_rows (\<lambda>r. checkpoint_key r = k)
                   (\<lambda>r. r\<lparr>cp_cursor_at := cp_cursor_at c, cp_cursor_id := cp_cursor_id c,
                          cp_updated_at := cp_updated_at c\<rparr>) (sleep_step_checkpoints db)\<rparr>)
          else Inl (did_not_advance c))"

definition commit_checkpoints_in_tx ::
  "sleep_step_checkpoint list \<Rightarrow> database \<Rightarrow> storage_error + database" where
  "commit_checkpoints_in_tx checkpoints db = rfold commit_checkpoint checkpoints db"

record sleep_step_result =
  ssr_status :: sleep_step_status
  ssr_input_tokens :: int
  ssr_output_tokens :: int
  ssr_error_message :: "string option"
  ssr_metadata_json :: "string option"

definition require_success_result :: "string \<Rightarrow> sleep_step_result \<Rightarrow> storage_error + unit" where
  "require_success_result operation result =
     require (ssr_status result = StepSuccess)
       (Conflict (operation @ '' requires success status, got '' @
          sleep_step_status_display (ssr_status result)))"

definition insert_memory_snapshot_in_tx ::
  "string \<Rightarrow> string \<Rightarrow> string \<Rightarrow> string \<Rightarrow> memory_file \<Rightarrow> string \<Rightarrow> string \<Rightarrow> database \<Rightarrow>
   storage_error + database" where
  "insert_memory_snapshot_in_tx uuid now sleep_run_id agent_id file content_before content_after db =
     (if \<not> exists_row (\<lambda>r. sr_id r = sleep_run_id \<and> sr_agent_id r = agent_id) (sleep_runs db)
      then Inl (NotFound (''sleep_run:'' @ sleep_run_id))
      else if exists_row (\<lambda>s. ms_id s = uuid) (memory_snapshots db)
      then Inl (Sqlite (ConstraintViolation ''memory_snapshots.id''))
      else if exists_row (\<lambda>s. ms_run_id s = sleep_run_id \<and> ms_file s = memory_file_display file)
                (memory_snapshots db)
      then Inl (Sqlite (ConstraintViolation ''memory_snapshots.run_id, memory_snapshots.file''))
      else Inr (db\<lparr>memory_snapshots := insert_row
             \<lparr>ms_id = uuid, ms_run_id = sleep_run_id, ms_agent_id = agent_id,
              ms_file = memory_file_display file, ms_content_before = content_before,
              ms_content_after = content_after, ms_created_at = now\<rparr> (memory_snapshots db)\<rparr>))"

definition step_key :: "sleep_step_row \<Rightarrow> string \<times> string" where
  "step_key r = (st_sleep_run_id r, st_step_name r)"

text \<open>\<open>UPDATE sleep_run_steps SET ... WHERE sleep_run_id = ? AND step_name = ? AND status = ?\<close>\<close>

definition update_step ::
  "string \<Rightarrow> sleep_step_name \<Rightarrow> sleep_step_status \<Rightarrow> (sleep_step_row \<Rightarrow> sleep_step_row) \<Rightarrow> storage_error \<Rightarrow>
   database \<Rightarrow> storage_error + database" where
  "update_step sleep_run_id step_name from f e db =
     (let here = (\<lambda>r. step_key r = (sleep_run_id, sleep_step_name_display step_name) \<and>
                      st_status r = sleep_step_status_display from)
      in if exists_row here (sleep_run_steps db)
         then Inr (db\<lparr>sleep_run_steps := update_rows here f (sleep_run_steps db)\<rparr>)
         else Inl e)"

definition step_not :: "string \<Rightarrow> string \<Rightarrow> sleep_step_name \<Rightarrow> storage_error" where
  "step_not what sleep_run_id step_name =
     Conflict (''sleep_run_step:'' @ sleep_run_id @ '':'' @ sleep_step_name_display step_name @
       '' is not '' @ what)"

definition finish_step_in_tx ::
  "string \<Rightarrow> string \<Rightarrow> sleep_step_name \<Rightarrow> sleep_step_result \<Rightarrow> database \<Rightarrow> storage_error + database" where
  "finish_step_in_tx now sleep_run_id step_name result db =
     update_step sleep_run_id step_name StepRunning
       (\<lambda>r. r\<lparr>st_status := sleep_step_status_display (ssr_status result), st_finished_at := Some now,
              st_input_tokens := ssr_input_tokens result, st_output_tokens := ssr_output_tokens result,
              st_error_message := ssr_error_message result,
              st_metadata_json := ssr_metadata_json result\<rparr>)
       (step_not ''running'' sleep_run_id step_name) db"

text \<open>The tokens of the shared model call are recorded on the first of the two steps.\<close>

definition memory_step_results :: "sleep_step_result \<Rightarrow> (sleep_step_name \<times> sleep_step_result) list" where
  "memory_step_results result =
     [(SemanticUpdate, result),
      (ProspectiveUpdate, result\<lparr>ssr_input_tokens := 0, ssr_output_tokens := 0\<rparr>)]"

definition finish_memory_steps_in_tx ::
  "string \<Rightarrow> string \<Rightarrow> sleep_step_result \<Rightarrow> database \<Rightarrow> storage_error + database" where
  "finish_memory_steps_in_tx now sleep_run_id result db =
     rfold (\<lambda>(step_name, r). finish_step_in_tx now sleep_run_id step_name r)
       (memory_step_results result) db"

definition pending_step :: "string \<Rightarrow> sleep_step_name \<Rightarrow> sleep_step_row" where
  "pending_step sleep_run_id step =
     \<lparr>st_sleep_run_id = sleep_run_id, st_step_name = sleep_step_name_display step,
      st_status = sleep_step_status_display StepPending, st_started_at = None, st_finished_at = None,
      st_input_tokens = 0, st_output_tokens = 0, st_error_message = None, st_metadata_json = None\<rparr>"

definition insert_pending_steps :: "string \<Rightarrow> database \<Rightarrow> storage_error + database" where
  "insert_pending_steps sleep_run_id db =
     rfold (\<lambda>step db.
        if exists_row (\<lambda>r. step_key r = (sleep_run_id, sleep_step_name_display step)) (sleep_run_steps db)
        then Inl (Sqlite (ConstraintViolation ''sleep_run_steps.sleep_run_id, sleep_run_steps.step_name''))
        else Inr (db\<lparr>sleep_run_steps := insert_row (pending_step sleep_run_id step) (sleep_run_steps db)\<rparr>))
       sleep_step_name_variants db"

section \<open>Runs\<close>

definition new_sleep_run ::
  "string \<Rightarrow> string \<Rightarrow> sleep_run_status \<Rightarrow> sleep_run_trigger \<Rightarrow> string \<Rightarrow> string option \<Rightarrow> string option \<Rightarrow>
   sleep_run_row" where
  "new_sleep_run i agent_id status trigger started_at finished_at error_message =
     \<lparr>sr_id = i, sr_agent_id = agent_id, sr_status = sleep_run_status_display status,
      sr_trigger = sleep_run_trigger_display trigger, sr_started_at = started_at,
      sr_finished_at = finished_at, sr_source_chats_json = ''[]'', sr_source_digest_md = None,
      sr_input_tokens = 0, sr_output_tokens = 0, sr_total_tokens = 0,
      sr_error_message = error_message\<rparr>"

definition insert_sleep_run :: "sleep_run_row \<Rightarrow> database \<Rightarrow> storage_error + database" where
  "insert_sleep_run row db =
     (if exists_row (\<lambda>r. sr_id r = sr_id row) (sleep_runs db)
      then Inl (Sqlite (ConstraintViolation ''sleep_runs.id''))
      else Inr (db\<lparr>sleep_runs := insert_row row (sleep_runs db)\<rparr>))"

definition running_for :: "string \<Rightarrow> sleep_run_row \<Rightarrow> bool" where
  "running_for agent_id r = (sr_agent_id r = agent_id \<and> sr_status r = sleep_run_status_display SleepRunning)"

definition try_create_sleep_run ::
  "string \<Rightarrow> string \<Rightarrow> string \<Rightarrow> sleep_run_trigger \<Rightarrow> database \<Rightarrow> string option tx" where
  "try_create_sleep_run uuid now agent_id trigger db =
     (if count_rows (running_for agent_id) (sleep_runs db) > 0 then Inr (None, db)
      else rbind (insert_sleep_run (new_sleep_run uuid agent_id SleepRunning trigger now None None) db)
             (\<lambda>db1. rbind (insert_pending_steps uuid db1) (\<lambda>db2. Inr (Some uuid, db2))))"

definition record_skipped_sleep_run ::
  "string \<Rightarrow> string \<Rightarrow> string \<Rightarrow> sleep_run_trigger \<Rightarrow> string \<Rightarrow> database \<Rightarrow> string tx" where
  "record_skipped_sleep_run uuid now agent_id trigger reason db =
     rbind (insert_sleep_run
        (new_sleep_run uuid agent_id SleepSkipped trigger now (Some now) (Some reason)) db)
       (\<lambda>db1. Inr (uuid, db1))"

text \<open>\<open>UPDATE sleep_runs SET ... WHERE id = ? AND status = 'running'\<close>\<close>

definition running_run :: "string \<Rightarrow> sleep_run_row \<Rightarrow> bool" where
  "running_run i r = (sr_id r = i \<and> sr_status r = sleep_run_status_display SleepRunning)"

definition update_running_run ::
  "string \<Rightarrow> (sleep_run_row \<Rightarrow> sleep_run_row) \<Rightarrow> database \<Rightarrow> storage_error + database" where
  "update_running_run i f db =
     (if exists_row (running_run i) (sleep_runs db)
      then Inr (db\<lparr>sleep_runs := update_rows (running_run i) f (sleep_runs db)\<rparr>)
      else Inl (Conflict (''sleep_run:'' @ i @ '' is not running'')))"

text \<open>\<open>i64::saturating_add\<close>\<close>

definition sat_add :: "int \<Rightarrow> int \<Rightarrow> int" where
  "sat_add a b = max (- (2 ^ 63)) (min (2 ^ 63 - 1) (a + b))"

definition update_sleep_run_success ::
  "string \<Rightarrow> string \<Rightarrow> string \<Rightarrow> string option \<Rightarrow> int \<Rightarrow> int \<Rightarrow> database \<Rightarrow> storage_error + database" where
  "update_sleep_run_success now i source_chats_json source_digest_md input_tokens output_tokens db =
     update_running_run i
       (\<lambda>r. r\<lparr>sr_status := sleep_run_status_display SleepSuccess, sr_finished_at := Some now,
              sr_source_chats_json := source_chats_json, sr_source_digest_md := source_digest_md,
              sr_input_tokens := input_tokens, sr_output_tokens := output_tokens,
              sr_total_tokens := sat_add input_tokens output_tokens\<rparr>) db"

definition update_sleep_run_failed ::
  "string \<Rightarrow> string \<Rightarrow> string \<Rightarrow> database \<Rightarrow> storage_error + database" where
  "update_sleep_run_failed now i error_message db =
     update_running_run i
       (\<lambda>r. r\<lparr>sr_status := sleep_run_status_display SleepFailed, sr_finished_at := Some now,
              sr_error_message := Some error_message\<rparr>) db"

definition update_sleep_run_source_chats :: "string \<Rightarrow> string \<Rightarrow> database \<Rightarrow> database" where
  "update_sleep_run_source_chats i source_chats_json db =
     db\<lparr>sleep_runs := update_rows (\<lambda>r. sr_id r = i)
          (\<lambda>r. r\<lparr>sr_source_chats_json := source_chats_json\<rparr>) (sleep_runs db)\<rparr>"

definition get_sleep_run ::
  "string \<Rightarrow> database \<Rightarrow> storage_error + (sleep_run_status, sleep_run_trigger) sleep_run option" where
  "get_sleep_run i db =
     (case find_row (\<lambda>r. sr_id r = i) (sleep_runs db) of
        None \<Rightarrow> Inr None
      | Some r \<Rightarrow> rbind (row_to_sleep_run r) (\<lambda>s. Inr (Some s)))"

definition run_cursor :: "('s, 't) sleep_run \<Rightarrow> cursor" where
  "run_cursor r = Cursor (sr_started_at r) (sr_id r)"

definition listed_sleep_run :: "string \<Rightarrow> sleep_run_status list \<Rightarrow> sleep_run_row \<Rightarrow> bool" where
  "listed_sleep_run agent_id statuses r =
     (sr_agent_id r = agent_id \<and>
      (statuses = [] \<or> sr_status r \<in> set (map sleep_run_status_display statuses)))"

definition list_sleep_runs ::
  "string \<Rightarrow> sleep_run_status list \<Rightarrow> cursor option \<Rightarrow> nat \<Rightarrow> database \<Rightarrow>
   storage_error + (sleep_run_status, sleep_run_trigger) sleep_run list" where
  "list_sleep_runs agent_id statuses before limit db =
     rmap row_to_sleep_run
       (take limit (listing run_cursor
          (\<lambda>r. listed_sleep_run agent_id statuses r \<and> before_cursor run_cursor before r)
          (sleep_runs db)))"

definition list_running_sleep_runs ::
  "database \<Rightarrow> storage_error + (sleep_run_status, sleep_run_trigger) sleep_run list" where
  "list_running_sleep_runs db =
     rmap row_to_sleep_run
       (sort_key sr_started_at (filter (\<lambda>r. sr_status r = ''running'') (sleep_runs db)))"

section \<open>Steps\<close>

definition start_sleep_step ::
  "string \<Rightarrow> string \<Rightarrow> sleep_step_name \<Rightarrow> database \<Rightarrow> storage_error + database" where
  "start_sleep_step now sleep_run_id step_name db =
     update_step sleep_run_id step_name StepPending
       (\<lambda>r. r\<lparr>st_status := sleep_step_status_display StepRunning, st_started_at := Some now\<rparr>)
       (step_not ''pending'' sleep_run_id step_name) db"

definition start_memory_update_steps :: "string \<Rightarrow> string \<Rightarrow> database \<Rightarrow> storage_error + database" where
  "start_memory_update_steps now sleep_run_id db =
     rfold (start_sleep_step now sleep_run_id) [SemanticUpdate, ProspectiveUpdate] db"

text \<open>
  \<open>finish_sleep_step\<close> and \<open>finish_memory_update_steps\<close> run the statement of
  \<open>finish_step_in_tx\<close> on their own connection.
\<close>

definition finish_sleep_step ::
  "string \<Rightarrow> string \<Rightarrow> sleep_step_name \<Rightarrow> sleep_step_result \<Rightarrow> database \<Rightarrow> storage_error + database" where
  "finish_sleep_step now sleep_run_id step_name result db =
     finish_step_in_tx now sleep_run_id step_name result db"

definition finish_memory_update_steps ::
  "string \<Rightarrow> string \<Rightarrow> sleep_step_result \<Rightarrow> database \<Rightarrow> storage_error + database" where
  "finish_memory_update_steps now sleep_run_id result db =
     rfold (\<lambda>(step_name, r). finish_step_in_tx now sleep_run_id step_name r)
       (memory_step_results result) db"

definition list_sleep_run_steps :: "string \<Rightarrow> database \<Rightarrow> storage_error + sleep_run_step list" where
  "list_sleep_run_steps sleep_run_id db =
     rmap row_to_sleep_run_step
       (sort_key st_step_name (filter (\<lambda>r. st_sleep_run_id r = sleep_run_id) (sleep_run_steps db)))"

section \<open>Commits of a step's result\<close>

type_synonym typed_episode_event = "(episode_event_kind, episode_event_certainty) episode_event"

definition event_to_row :: "typed_episode_event \<Rightarrow> episode_event_row" where
  "event_to_row e =
     \<lparr>ev_id = ev_id e, ev_agent_id = ev_agent_id e, ev_experienced_at = ev_experienced_at e,
      ev_encoded_at = ev_encoded_at e, ev_kind = episode_event_kind_display (ev_kind e),
      ev_title = ev_title e, ev_body_md = ev_body_md e, ev_ripple_strength = ev_ripple_strength e,
      ev_certainty = episode_event_certainty_display (ev_certainty e),
      ev_sleep_run_id = ev_sleep_run_id e, ev_source_refs_json = ev_source_refs_json e,
      ev_created_at = ev_created_at e, ev_updated_at = ev_updated_at e\<rparr>"

definition insert_event ::
  "string \<Rightarrow> string \<Rightarrow> typed_episode_event \<Rightarrow> database \<Rightarrow> storage_error + database" where
  "insert_event sleep_run_id agent_id e db =
     (if ev_sleep_run_id e \<noteq> sleep_run_id \<or> ev_agent_id e \<noteq> agent_id
      then Inl (Conflict (''event scope does not match run='' @ sleep_run_id @ '' agent='' @ agent_id))
      else if ev_ripple_strength e < 1 \<or> 5 < ev_ripple_strength e
      then Inl (Sqlite (ConstraintViolation ''CHECK episode_events''))
      else if exists_row (\<lambda>r. ev_id r = ev_id e) (episode_events db)
      then Inl (Sqlite (ConstraintViolation ''episode_events.id''))
      else Inr (db\<lparr>episode_events := insert_row (event_to_row e) (episode_events db)\<rparr>))"

definition event_checkpoint_ok :: "string \<Rightarrow> sleep_step_checkpoint \<Rightarrow> bool" where
  "event_checkpoint_ok agent_id c =
     (cp_step_name c = EventExtraction \<and> cp_agent_id c = agent_id \<and> cp_source_kind c = SourceMessages)"

definition bad_event_scope :: "sleep_step_checkpoint \<Rightarrow> storage_error" where
  "bad_event_scope c = Conflict (''invalid event extraction checkpoint scope: agent='' @ cp_agent_id c @
     '' step='' @ sleep_step_name_display (cp_step_name c) @ '' source='' @
     checkpoint_source_kind_display (cp_source_kind c))"

definition commit_event_extraction_success ::
  "string \<Rightarrow> string \<Rightarrow> string \<Rightarrow> typed_episode_event list \<Rightarrow> sleep_step_result \<Rightarrow> sleep_step_checkpoint list \<Rightarrow>
   database \<Rightarrow> storage_error + database" where
  "commit_event_extraction_success now sleep_run_id agent_id events result checkpoints db =
     rbind (require_success_result ''commit_event_extraction_success'' result) (\<lambda>_.
     case List.find (\<lambda>c. \<not> event_checkpoint_ok agent_id c) checkpoints of
       Some c \<Rightarrow> Inl (bad_event_scope c)
     | None \<Rightarrow>
         rbind (rfold (insert_event sleep_run_id agent_id) events db) (\<lambda>db1.
         rbind (commit_checkpoints_in_tx checkpoints db1) (\<lambda>db2.
         finish_step_in_tx now sleep_run_id EventExtraction result db2)))"

definition memory_checkpoint_ok :: "string \<Rightarrow> sleep_step_checkpoint \<Rightarrow> bool" where
  "memory_checkpoint_ok agent_id c =
     ((cp_step_name c = SemanticUpdate \<or> cp_step_name c = ProspectiveUpdate) \<and> cp_agent_id c = agent_id)"

definition bad_memory_scope :: "sleep_step_checkpoint \<Rightarrow> storage_error" where
  "bad_memory_scope c = Conflict (''invalid memory update checkpoint scope: agent='' @ cp_agent_id c @
     '' step='' @ sleep_step_name_display (cp_step_name c))"

text \<open>A snapshot to insert: its fresh id, the file, and its content before and after.\<close>

type_synonym new_snapshot = "string \<times> memory_file \<times> string \<times> string"

definition insert_snapshots ::
  "string \<Rightarrow> string \<Rightarrow> string \<Rightarrow> new_snapshot list \<Rightarrow> database \<Rightarrow> storage_error + database" where
  "insert_snapshots now sleep_run_id agent_id snapshots db =
     rfold (\<lambda>(uuid, file, before, after).
        insert_memory_snapshot_in_tx uuid now sleep_run_id agent_id file before after) snapshots db"

definition commit_memory_update_success ::
  "string \<Rightarrow> string \<Rightarrow> string \<Rightarrow> sleep_step_result \<Rightarrow> sleep_step_checkpoint list \<Rightarrow> new_snapshot list \<Rightarrow>
   database \<Rightarrow> storage_error + database" where
  "commit_memory_update_success now sleep_run_id agent_id result checkpoints snapshots db =
     rbind (require_success_result ''commit_memory_update_success'' result) (\<lambda>_.
     case List.find (\<lambda>c. \<not> memory_checkpoint_ok agent_id c) checkpoints of
       Some c \<Rightarrow> Inl (bad_memory_scope c)
     | None \<Rightarrow>
         rbind (insert_snapshots now sleep_run_id agent_id snapshots db) (\<lambda>db1.
         rbind (commit_checkpoints_in_tx checkpoints db1) (\<lambda>db2.
         finish_memory_steps_in_tx now sleep_run_id result db2)))"

definition commit_episodic_update_success ::
  "string \<Rightarrow> string \<Rightarrow> string \<Rightarrow> string \<Rightarrow> string \<Rightarrow> string \<Rightarrow> sleep_step_result \<Rightarrow> database \<Rightarrow>
   storage_error + database" where
  "commit_episodic_update_success uuid now sleep_run_id agent_id before after result db =
     rbind (require_success_result ''commit_episodic_update_success'' result) (\<lambda>_.
     rbind (insert_memory_snapshot_in_tx uuid now sleep_run_id agent_id FileEpisodic before after db) (\<lambda>db1.
     finish_step_in_tx now sleep_run_id EpisodicUpdate result db1))"

section \<open>Finalizing a run\<close>

text \<open>The counters of the loop over the steps.\<close>

record step_tally =
  ty_success :: nat
  ty_failed :: nat
  ty_skipped :: nat
  ty_open :: bool
  ty_input :: int
  ty_output :: int
  ty_errors :: "string list"

definition tally_start :: step_tally where
  "tally_start = \<lparr>ty_success = 0, ty_failed = 0, ty_skipped = 0, ty_open = False, ty_input = 0,
     ty_output = 0, ty_errors = []\<rparr>"

definition tally_step :: "sleep_run_step \<Rightarrow> step_tally \<Rightarrow> step_tally" where
  "tally_step step t =
     (let t' = (case st_status step of
           StepSuccess \<Rightarrow> t\<lparr>ty_success := ty_success t + 1\<rparr>
         | StepFailed \<Rightarrow>
             t\<lparr>ty_failed := ty_failed t + 1,
               ty_errors := ty_errors t @ (case st_error_message step of
                  Some e \<Rightarrow> [sleep_step_name_display (st_step_name step) @ '': '' @ e] | None \<Rightarrow> [])\<rparr>
         | StepSkipped \<Rightarrow> t\<lparr>ty_skipped := ty_skipped t + 1\<rparr>
         | StepPending \<Rightarrow> t\<lparr>ty_open := True\<rparr>
         | StepRunning \<Rightarrow> t\<lparr>ty_open := True\<rparr>)
      in t'\<lparr>ty_input := sat_add (ty_input t) (st_input_tokens step),
            ty_output := sat_add (ty_output t) (st_output_tokens step)\<rparr>)"

definition tally_steps :: "sleep_run_step list \<Rightarrow> step_tally" where
  "tally_steps steps = fold tally_step steps tally_start"

definition derived_status :: "step_tally \<Rightarrow> sleep_run_status" where
  "derived_status t =
     (if ty_open t then SleepFailed
      else if ty_success t = 0 \<and> ty_failed t = 0 \<and> ty_skipped t > 0 then SleepSkipped
      else if ty_success t > 0 \<and> ty_failed t = 0 then SleepSuccess
      else if ty_success t > 0 \<and> ty_failed t > 0 then SleepPartialFailure
      else SleepFailed)"

text \<open>The steps come in the order of the primary key, through which the query reads them.\<close>

definition finalize_sleep_run :: "string \<Rightarrow> string \<Rightarrow> database \<Rightarrow> sleep_run_status tx" where
  "finalize_sleep_run now sleep_run_id db =
     rbind (list_sleep_run_steps sleep_run_id db) (\<lambda>steps.
     (let t = tally_steps steps;
          status = derived_status t;
          error_message = (if ty_errors t = [] then None else Some (join_with ''; '' (ty_errors t)))
      in rbind (update_running_run sleep_run_id
            (\<lambda>r. r\<lparr>sr_status := sleep_run_status_display status, sr_finished_at := Some now,
                   sr_input_tokens := ty_input t, sr_output_tokens := ty_output t,
                   sr_total_tokens := sat_add (ty_input t) (ty_output t),
                   sr_error_message := error_message\<rparr>) db)
           (\<lambda>db'. Inr (status, db'))))"

section \<open>Checkpoints and the messages still to be read\<close>

definition get_sleep_checkpoint ::
  "string \<Rightarrow> sleep_step_name \<Rightarrow> checkpoint_source_kind \<Rightarrow> string \<Rightarrow> database \<Rightarrow>
   storage_error + sleep_step_checkpoint option" where
  "get_sleep_checkpoint agent_id step_name source_kind source_id db =
     (case find_row (\<lambda>r. checkpoint_key r = (agent_id, sleep_step_name_display step_name,
              checkpoint_source_kind_display source_kind, source_id)) (sleep_step_checkpoints db) of
        None \<Rightarrow> Inr None
      | Some r \<Rightarrow> rbind (row_to_sleep_checkpoint r) (\<lambda>c. Inr (Some c)))"

text \<open>
  The two left joins: a message is past a cursor when the step has no checkpoint for the chat
  yet, or the checkpoint is below it. \<open>CAST(c.chat_id AS TEXT)\<close> is its decimal form.
\<close>

definition message_cursor :: "message_row \<Rightarrow> cursor" where
  "message_cursor m = Cursor (msg_timestamp m) (msg_id m)"

definition chat_checkpoint :: "string \<Rightarrow> sleep_step_name \<Rightarrow> int \<Rightarrow> database \<Rightarrow> cursor option" where
  "chat_checkpoint agent_id step chat_id db =
     map_option checkpoint_cursor
       (find_row (\<lambda>r. checkpoint_key r =
           (agent_id, sleep_step_name_display step, ''messages'', show_int chat_id))
         (sleep_step_checkpoints db))"

definition past_checkpoint :: "sleep_step_name \<Rightarrow> chat_row \<Rightarrow> message_row \<Rightarrow> database \<Rightarrow> bool" where
  "past_checkpoint step c m db =
     (case chat_checkpoint (ch_agent_id c) step (ch_chat_id c) db of
        None \<Rightarrow> True | Some cur \<Rightarrow> cur < message_cursor m)"

definition pending_in :: "string \<Rightarrow> database \<Rightarrow> chat_row \<Rightarrow> message_row \<Rightarrow> bool" where
  "pending_in agent_id db c m =
     (msg_chat_id m = ch_chat_id c \<and> ch_agent_id c = agent_id \<and> ch_chat_type c \<noteq> ''voice'' \<and>
      msg_seq m \<noteq> None \<and>
      (past_checkpoint EventExtraction c m db \<or> past_checkpoint ProspectiveUpdate c m db))"

definition count_agent_pending_sleep_messages :: "string \<Rightarrow> database \<Rightarrow> int" where
  "count_agent_pending_sleep_messages agent_id db =
     int (length (remdups (map (\<lambda>m. (msg_chat_id m, msg_id m))
       (filter (\<lambda>m. list_ex (\<lambda>c. pending_in agent_id db c m) (chats db)) (messages db)))))"

record agent_session_info =
  asi_chat_id :: int
  asi_channel :: string
  asi_external_chat_id :: string
  asi_updated_at :: string
  asi_message_count :: int
  asi_estimated_tokens :: int

text \<open>SQLite's \<open>LENGTH\<close> of a text: the characters before a NUL; a continuation byte is none.\<close>

definition sql_length :: "string \<Rightarrow> int" where
  "sql_length s = int (length (filter (\<lambda>c. of_char c div 64 \<noteq> (2 :: nat))
     (takeWhile (\<lambda>c. of_char c \<noteq> (0 :: nat)) s)))"

definition first_pending :: "string \<Rightarrow> database \<Rightarrow> chat_row \<Rightarrow> message_row option" where
  "first_pending agent_id db c =
     (case sort_key message_cursor (filter (pending_in agent_id db c) (messages db)) of
        [] \<Rightarrow> None | m # _ \<Rightarrow> Some m)"

definition session_info ::
  "database \<Rightarrow> chat_row \<times> session_row \<Rightarrow> storage_error + agent_session_info" where
  "session_info db cs = (case cs of (c, s) \<Rightarrow>
     rbind (ok_or (ch_channel c) (Sqlite (InvalidColumnType 1))) (\<lambda>channel.
     rbind (ok_or (ch_external_chat_id c) (Sqlite (InvalidColumnType 2))) (\<lambda>external.
     Inr \<lparr>asi_chat_id = ch_chat_id c, asi_channel = channel,
      asi_external_chat_id = external, asi_updated_at = ses_updated_at s,
      asi_message_count =
        count_rows (\<lambda>m. msg_chat_id m = ch_chat_id c \<and> msg_seq m \<noteq> None) (messages db),
      asi_estimated_tokens = sql_length (ses_messages_json s) div 3\<rparr>)))"

definition get_agent_sessions_with_pending_sleep_messages ::
  "string \<Rightarrow> nat \<Rightarrow> database \<Rightarrow> storage_error + agent_session_info list" where
  "get_agent_sessions_with_pending_sleep_messages agent_id limit db =
     rmap (\<lambda>(_, cs). session_info db cs) (take limit
       (sort_key fst (List.map_filter (\<lambda>c.
          case (find_row (\<lambda>s. ses_chat_id s = ch_chat_id c) (sessions db), first_pending agent_id db c) of
            (Some s, Some m) \<Rightarrow> Some ((message_cursor m, ch_chat_id c), (c, s))
          | _ \<Rightarrow> None) (chats db))))"

section \<open>Snapshots\<close>

definition get_snapshots_for_run :: "string \<Rightarrow> database \<Rightarrow> storage_error + memory_file memory_snapshot list" where
  "get_snapshots_for_run run_id db =
     rmap row_to_memory_snapshot
       (sort_key ms_created_at (filter (\<lambda>s. ms_run_id s = run_id) (memory_snapshots db)))"

text \<open>A change is published once its run was finalized as a success or a partial failure.\<close>

definition published :: "database \<Rightarrow> memory_snapshot_row \<Rightarrow> bool" where
  "published db s =
     (ms_content_before s \<noteq> ms_content_after s \<and>
      exists_row (\<lambda>r. sr_id r = ms_run_id s \<and>
        (sr_status r = sleep_run_status_display SleepSuccess \<or>
         sr_status r = sleep_run_status_display SleepPartialFailure)) (sleep_runs db))"

definition snapshot_cursor :: "'f memory_snapshot \<Rightarrow> cursor" where
  "snapshot_cursor s = Cursor (ms_created_at s) (ms_id s)"

definition list_memory_changes ::
  "string \<Rightarrow> nat \<Rightarrow> database \<Rightarrow> storage_error + memory_file memory_snapshot list" where
  "list_memory_changes agent_id limit db =
     rmap row_to_memory_snapshot
       (take limit (listing snapshot_cursor
          (\<lambda>s. ms_agent_id s = agent_id \<and> published db s) (memory_snapshots db)))"

definition file_rank :: "string \<Rightarrow> nat" where
  "file_rank f = (if f = ''episodic'' then 0 else if f = ''semantic'' then 1 else 2)"

definition push_file ::
  "string \<times> memory_file \<Rightarrow> (string \<rightharpoonup> memory_file list) \<Rightarrow> (string \<rightharpoonup> memory_file list)" where
  "push_file p m = (case p of (i, f) \<Rightarrow>
     m(i \<mapsto> (case m i of None \<Rightarrow> [] | Some fs \<Rightarrow> fs) @ [f]))"

definition changed_memory_files ::
  "string list \<Rightarrow> database \<Rightarrow> storage_error + (string \<rightharpoonup> memory_file list)" where
  "changed_memory_files run_ids db =
     (if run_ids = [] then Inr Map.empty
      else rbind (rmap (\<lambda>s. rbind (parse_row_enum memory_file_from_str 1 (ms_file s))
                              (\<lambda>f. Inr (ms_run_id s, f)))
             (sort_key (\<lambda>s. file_rank (ms_file s))
               (filter (\<lambda>s. ms_run_id s \<in> set run_ids \<and> published db s) (memory_snapshots db))))
           (\<lambda>rows. Inr (fold push_file rows Map.empty)))"

definition ensure_snapshot ::
  "string \<Rightarrow> string \<Rightarrow> string \<Rightarrow> string \<times> memory_file \<times> string \<Rightarrow> database \<Rightarrow> storage_error + database" where
  "ensure_snapshot now sleep_run_id agent_id b db =
     (case b of (uuid, file, base) \<Rightarrow>
      if exists_row (\<lambda>r. sr_id r = sleep_run_id \<and> sr_agent_id r = agent_id) (sleep_runs db) \<and>
         \<not> exists_row (\<lambda>s. ms_run_id s = sleep_run_id \<and> ms_file s = memory_file_display file)
             (memory_snapshots db)
      then insert_memory_snapshot_in_tx uuid now sleep_run_id agent_id file base base db
      else Inr db)"

definition ensure_memory_snapshots_complete ::
  "string \<Rightarrow> string \<Rightarrow> string \<Rightarrow> (string \<times> memory_file \<times> string) list \<Rightarrow> database \<Rightarrow>
   storage_error + database" where
  "ensure_memory_snapshots_complete now sleep_run_id agent_id base db =
     rfold (ensure_snapshot now sleep_run_id agent_id) base db"

end
