(* ===== verification/Sleep_Runs.thy ===== *)
theory Sleep_Runs
  imports Sleep_Store
begin

text \<open>
  What runs of the operations of \<open>Sleep_Store\<close> keep: identifiers stay unique, an agent has at
  most one running batch, runs and steps move along their life cycle and never leave a final
  state, and the cursors of the checkpoints only go up. \<open>sleep_progress\<close> is what one operation
  may do; every operation is shown to be such a progress, and runs of operations follow from
  the contract of \<open>Prelude\<close>.
\<close>

section \<open>The tables\<close>

definition sleep_run_ok :: "sleep_run_row \<Rightarrow> bool" where
  "sleep_run_ok r = ((\<exists>s. sr_status r = sleep_run_status_display s) \<and>
     (\<exists>t. sr_trigger r = sleep_run_trigger_display t))"

definition runs_inv :: "sleep_run_row list \<Rightarrow> bool" where
  "runs_inv runs =
     (distinct (map sr_id runs) \<and> (\<forall>r \<in> set runs. sleep_run_ok r) \<and>
      (\<forall>a. count_rows (running_for a) runs \<le> 1))"

definition step_row_ok :: "sleep_step_row \<Rightarrow> bool" where
  "step_row_ok r = ((\<exists>n. st_step_name r = sleep_step_name_display n) \<and>
     (\<exists>s. st_status r = sleep_step_status_display s))"

definition steps_inv :: "sleep_step_row list \<Rightarrow> bool" where
  "steps_inv steps = (distinct (map step_key steps) \<and> (\<forall>r \<in> set steps. step_row_ok r))"

definition checkpoints_inv :: "checkpoint_row list \<Rightarrow> bool" where
  "checkpoints_inv cps = (distinct (map checkpoint_key cps) \<and> (\<forall>r \<in> set cps. checkpoint_check r))"

definition run_owner :: "('s, 't) sleep_run \<Rightarrow> string \<times> string" where
  "run_owner r = (sr_id r, sr_agent_id r)"

definition snapshots_inv :: "sleep_run_row list \<Rightarrow> memory_snapshot_row list \<Rightarrow> bool" where
  "snapshots_inv runs snaps =
     (distinct (map ms_id snaps) \<and> distinct (map (\<lambda>s. (ms_run_id s, ms_file s)) snaps) \<and>
      (\<forall>s \<in> set snaps. (ms_run_id s, ms_agent_id s) \<in> run_owner ` set runs \<and>
         (\<exists>f. ms_file s = memory_file_display f)))"

definition sleep_inv :: "database \<Rightarrow> bool" where
  "sleep_inv db =
     (runs_inv (sleep_runs db) \<and> steps_inv (sleep_run_steps db) \<and>
      checkpoints_inv (sleep_step_checkpoints db) \<and>
      snapshots_inv (sleep_runs db) (memory_snapshots db) \<and> distinct (map ev_id (episode_events db)))"

lemma sleep_inv_empty: "sleep_inv empty_database"
  by (simp add: sleep_inv_def empty_database_def runs_inv_def steps_inv_def checkpoints_inv_def
      snapshots_inv_def)

lemma status_text [simp]:
  "(sleep_run_status_display s = ''running'') = (s = SleepRunning)"
  "(sleep_step_status_display t = ''running'') = (t = StepRunning)"
  "(sleep_step_status_display t = ''pending'') = (t = StepPending)"
  by (cases s; simp; fail | cases t; simp)+

section \<open>Life cycles\<close>

fun run_allowed :: "sleep_run_status \<Rightarrow> sleep_run_status \<Rightarrow> bool" where
  "run_allowed SleepRunning t = (t \<noteq> SleepRunning)"
| "run_allowed _ t = False"

definition run_final :: "sleep_run_status \<Rightarrow> bool" where
  "run_final s = (s \<noteq> SleepRunning)"

fun step_allowed :: "sleep_step_status \<Rightarrow> sleep_step_status \<Rightarrow> bool" where
  "step_allowed StepPending t = (t = StepRunning)"
| "step_allowed StepRunning t = (t \<noteq> StepRunning)"
| "step_allowed _ t = False"

definition step_final :: "sleep_step_status \<Rightarrow> bool" where
  "step_final s = (s \<in> {StepSuccess, StepFailed, StepSkipped})"

interpretation run_graph: lifecycle_graph run_allowed run_final
proof
  fix s t show "run_final s \<Longrightarrow> \<not> run_allowed s t" by (cases s) (simp_all add: run_final_def)
qed

interpretation step_graph: lifecycle_graph step_allowed step_final
proof
  fix s t show "step_final s \<Longrightarrow> \<not> step_allowed s t" by (cases s) (simp_all add: step_final_def)
qed

definition find_sleep_run :: "string \<Rightarrow> database \<Rightarrow> sleep_run_row option" where
  "find_sleep_run i db = find_row (\<lambda>r. sr_id r = i) (sleep_runs db)"

definition find_step :: "string \<times> string \<Rightarrow> database \<Rightarrow> sleep_step_row option" where
  "find_step k db = find_row (\<lambda>r. step_key r = k) (sleep_run_steps db)"

fun parsed :: "(string \<Rightarrow> string + 'a) \<Rightarrow> string option \<Rightarrow> 'a option" where
  "parsed p None = None"
| "parsed p (Some s) = (case p s of Inr v \<Rightarrow> Some v | Inl _ \<Rightarrow> None)"

lemma parsed_Some_iff: "(parsed p x = Some v) = (\<exists>s. x = Some s \<and> p s = Inr v)"
  by (cases x) (auto split: sum.splits)

definition run_status :: "database \<Rightarrow> string \<Rightarrow> sleep_run_status option" where
  "run_status db i = parsed sleep_run_status_from_str (map_option sr_status (find_sleep_run i db))"

definition step_status :: "database \<Rightarrow> string \<times> string \<Rightarrow> sleep_step_status option" where
  "step_status db k = parsed sleep_step_status_from_str (map_option st_status (find_step k db))"

lemma run_status_Some_iff:
  "(run_status db i = Some s) =
    (\<exists>r. find_sleep_run i db = Some r \<and> sr_status r = sleep_run_status_display s)"
  by (auto simp: run_status_def parsed_Some_iff sleep_run_status_from_str_iff)

lemma step_status_Some_iff:
  "(step_status db k = Some s) =
    (\<exists>r. find_step k db = Some r \<and> st_status r = sleep_step_status_display s)"
  by (auto simp: step_status_def parsed_Some_iff sleep_step_status_from_str_iff)

definition cursor_of :: "checkpoint_key \<Rightarrow> database \<Rightarrow> cursor option" where
  "cursor_of k db = map_option checkpoint_cursor
     (find_row (\<lambda>r. checkpoint_key r = k) (sleep_step_checkpoints db))"

fun advances :: "cursor option \<Rightarrow> cursor option \<Rightarrow> bool" where
  "advances None b = True"
| "advances (Some x) (Some y) = (x \<le> y)"
| "advances (Some x) None = False"

lemma advances_refl [simp]: "advances a a"
  by (cases a) simp_all

lemma advances_trans: "advances a b \<Longrightarrow> advances b c \<Longrightarrow> advances a c"
  by (cases a; cases b; cases c) auto

section \<open>Progress\<close>

definition sleep_progress :: "database \<Rightarrow> database \<Rightarrow> bool" where
  "sleep_progress db db' =
     (sleep_inv db' \<and>
      (\<forall>i s. run_status db i = Some s \<longrightarrow> (\<exists>t. run_status db' i = Some t \<and> run_allowed\<^sup>*\<^sup>* s t)) \<and>
      (\<forall>k s. step_status db k = Some s \<longrightarrow> (\<exists>t. step_status db' k = Some t \<and> step_allowed\<^sup>*\<^sup>* s t)) \<and>
      (\<forall>k. advances (cursor_of k db) (cursor_of k db')) \<and>
      set (memory_snapshots db) \<subseteq> set (memory_snapshots db') \<and>
      set (episode_events db) \<subseteq> set (episode_events db'))"

lemma sleep_progress_refl: "sleep_inv db \<Longrightarrow> sleep_progress db db"
  by (auto simp: sleep_progress_def)

lemma sleep_progress_trans:
  assumes "sleep_progress a b" "sleep_progress b c"
  shows "sleep_progress a c"
proof -
  have "\<exists>t. run_status c i = Some t \<and> run_allowed\<^sup>*\<^sup>* s t" if s: "run_status a i = Some s" for i s
  proof -
    obtain t where t: "run_status b i = Some t" "run_allowed\<^sup>*\<^sup>* s t"
      using assms(1) s unfolding sleep_progress_def by blast
    then obtain u where "run_status c i = Some u" "run_allowed\<^sup>*\<^sup>* t u"
      using assms(2) unfolding sleep_progress_def by blast
    with t(2) show ?thesis by (auto intro: rtranclp_trans)
  qed
  moreover have "\<exists>t. step_status c k = Some t \<and> step_allowed\<^sup>*\<^sup>* s t" if s: "step_status a k = Some s" for k s
  proof -
    obtain t where t: "step_status b k = Some t" "step_allowed\<^sup>*\<^sup>* s t"
      using assms(1) s unfolding sleep_progress_def by blast
    then obtain u where "step_status c k = Some u" "step_allowed\<^sup>*\<^sup>* t u"
      using assms(2) unfolding sleep_progress_def by blast
    with t(2) show ?thesis by (auto intro: rtranclp_trans)
  qed
  moreover have "advances (cursor_of k a) (cursor_of k c)" for k
    using assms advances_trans unfolding sleep_progress_def by blast
  ultimately show ?thesis
    using assms unfolding sleep_progress_def by (meson subset_trans)
qed

lemma sleep_progress_inv: "sleep_progress db db' \<Longrightarrow> sleep_inv db'"
  by (simp add: sleep_progress_def)

lemma rfold_progress:
  assumes "\<And>x s s'. x \<in> set xs \<Longrightarrow> sleep_inv s \<Longrightarrow> f x s = Inr s' \<Longrightarrow> sleep_progress s s'"
    and "sleep_inv s" "rfold f xs s = Inr s'"
  shows "sleep_progress s s'"
  using assms
proof (induction xs arbitrary: s)
  case Nil
  then show ?case by (simp add: sleep_progress_refl)
next
  case (Cons x xs)
  from Cons.prems(3) obtain t where t: "f x s = Inr t" "rfold f xs t = Inr s'"
    by (auto simp: res_simps)
  have p: "sleep_progress s t" using Cons.prems(1) [of x s t] Cons.prems(2) t(1) by simp
  have "sleep_progress t s'"
    by (rule Cons.IH [OF Cons.prems(1) sleep_progress_inv [OF p] t(2)]) simp_all
  with p show ?case by (rule sleep_progress_trans)
qed

lemma rfold_run:
  "\<lbrakk>rfold f xs s = Inr s'; sleep_inv s;
    \<And>x u v. x \<in> set xs \<Longrightarrow> sleep_inv u \<Longrightarrow> f x u = Inr v \<Longrightarrow> sleep_progress u v\<rbrakk>
   \<Longrightarrow> sleep_progress s s'"
  using rfold_progress by metis

text \<open>An operation that leaves a table alone leaves what is read from it.\<close>

lemma sleep_progressI:
  assumes "sleep_inv db'"
    and "\<And>i s. run_status db i = Some s \<Longrightarrow> \<exists>t. run_status db' i = Some t \<and> run_allowed\<^sup>*\<^sup>* s t"
    and "\<And>k s. step_status db k = Some s \<Longrightarrow> \<exists>t. step_status db' k = Some t \<and> step_allowed\<^sup>*\<^sup>* s t"
    and "\<And>k. advances (cursor_of k db) (cursor_of k db')"
    and "set (memory_snapshots db) \<subseteq> set (memory_snapshots db')"
    and "set (episode_events db) \<subseteq> set (episode_events db')"
  shows "sleep_progress db db'"
  using assms by (auto simp: sleep_progress_def)

lemma run_status_same: "sleep_runs db' = sleep_runs db \<Longrightarrow> run_status db' i = run_status db i"
  by (simp add: run_status_def find_sleep_run_def)

lemma step_status_same: "sleep_run_steps db' = sleep_run_steps db \<Longrightarrow> step_status db' k = step_status db k"
  by (simp add: step_status_def find_step_def)

lemma cursor_same:
  "sleep_step_checkpoints db' = sleep_step_checkpoints db \<Longrightarrow> cursor_of k db' = cursor_of k db"
  by (simp add: cursor_of_def)

lemma progress_runsI:
  assumes "sleep_inv db'"
    "\<And>i s. run_status db i = Some s \<Longrightarrow> \<exists>t. run_status db' i = Some t \<and> run_allowed\<^sup>*\<^sup>* s t"
    "sleep_run_steps db' = sleep_run_steps db" "sleep_step_checkpoints db' = sleep_step_checkpoints db"
    "memory_snapshots db' = memory_snapshots db" "episode_events db' = episode_events db"
  shows "sleep_progress db db'"
  using assms step_status_same [OF assms(3)] cursor_same [OF assms(4)]
  by (intro sleep_progressI) auto

lemma progress_stepsI:
  assumes "sleep_inv db'"
    "\<And>k s. step_status db k = Some s \<Longrightarrow> \<exists>t. step_status db' k = Some t \<and> step_allowed\<^sup>*\<^sup>* s t"
    "sleep_runs db' = sleep_runs db" "sleep_step_checkpoints db' = sleep_step_checkpoints db"
    "memory_snapshots db' = memory_snapshots db" "episode_events db' = episode_events db"
  shows "sleep_progress db db'"
  using assms run_status_same [OF assms(3)] cursor_same [OF assms(4)]
  by (intro sleep_progressI) auto

lemma progress_cursorI:
  assumes "sleep_inv db'" "\<And>k. advances (cursor_of k db) (cursor_of k db')"
    "sleep_runs db' = sleep_runs db" "sleep_run_steps db' = sleep_run_steps db"
    "memory_snapshots db' = memory_snapshots db" "episode_events db' = episode_events db"
  shows "sleep_progress db db'"
  using assms run_status_same [OF assms(3)] step_status_same [OF assms(4)]
  by (intro sleep_progressI) auto

lemma progress_recordI:
  assumes "sleep_inv db'" "set (memory_snapshots db) \<subseteq> set (memory_snapshots db')"
    "set (episode_events db) \<subseteq> set (episode_events db')"
    "sleep_runs db' = sleep_runs db" "sleep_run_steps db' = sleep_run_steps db"
    "sleep_step_checkpoints db' = sleep_step_checkpoints db"
  shows "sleep_progress db db'"
  using assms run_status_same [OF assms(4)] step_status_same [OF assms(5)] cursor_same [OF assms(6)]
  by (intro sleep_progressI) auto

section \<open>Each statement is a progress\<close>

lemma runs_inv_insert:
  assumes "runs_inv runs" "sr_id r \<notin> sr_id ` set runs" "sleep_run_ok r"
    "sr_status r = sleep_run_status_display SleepRunning \<longrightarrow>
       count_rows (running_for (sr_agent_id r)) runs = 0"
  shows "runs_inv (insert_row r runs)"
proof -
  have "count_rows (running_for a) (insert_row r runs) \<le> 1" for a
    using assms(1,4) by (cases "running_for a r")
      (auto simp: insert_row_def runs_inv_def running_for_def)
  then show ?thesis using assms(1-3) by (auto simp: runs_inv_def insert_row_def)
qed

lemma snapshots_inv_mono:
  "snapshots_inv runs snaps \<Longrightarrow> run_owner ` set runs \<subseteq> run_owner ` set runs' \<Longrightarrow> snapshots_inv runs' snaps"
  by (auto simp: snapshots_inv_def)

lemma insert_run_progress:
  assumes inv: "sleep_inv db" and ok: "insert_sleep_run r db = Inr db'" and r: "sleep_run_ok r"
    "sr_status r = sleep_run_status_display SleepRunning \<longrightarrow>
       count_rows (running_for (sr_agent_id r)) (sleep_runs db) = 0"
  shows "sleep_progress db db'"
proof -
  have db': "db' = db\<lparr>sleep_runs := insert_row r (sleep_runs db)\<rparr>"
    and new: "sr_id r \<notin> sr_id ` set (sleep_runs db)"
    using ok by (auto simp: insert_sleep_run_def row_simps split: if_splits)
  have "runs_inv (sleep_runs db')"
    using inv new r by (simp add: db' sleep_inv_def runs_inv_insert)
  moreover have "snapshots_inv (sleep_runs db') (memory_snapshots db')"
    using inv by (auto simp: db' sleep_inv_def row_simps intro: snapshots_inv_mono)
  ultimately have "sleep_inv db'" using inv by (simp add: sleep_inv_def db')
  moreover have "run_status db' i = Some s" if "run_status db i = Some s" for i s
    using that by (auto simp: run_status_Some_iff find_sleep_run_def db' find_key_insert_row)
  ultimately show ?thesis
    by (intro progress_runsI) (auto simp: db')
qed

text \<open>An update of the running run that settles it, or one that leaves its state alone.\<close>

lemma count_update_le:
  assumes "\<And>r. U r \<Longrightarrow> running_for a (f r) \<Longrightarrow> running_for a r"
  shows "count_rows (running_for a) (update_rows U f runs) \<le> count_rows (running_for a) runs"
  using assms by (intro count_rows_update_le) auto

lemma update_runs_progress:
  assumes inv: "sleep_inv db"
    and db': "db' = db\<lparr>sleep_runs := update_rows U f (sleep_runs db)\<rparr>"
    and keep: "\<And>r. sr_id (f r) = sr_id r" "\<And>r. sr_agent_id (f r) = sr_agent_id r"
      "\<And>r. sr_trigger (f r) = sr_trigger r"
    and st: "\<And>r. U r \<Longrightarrow> sr_status (f r) = sr_status r \<or>
      (sr_status r = sleep_run_status_display SleepRunning \<and>
       (\<exists>t. t \<noteq> SleepRunning \<and> sr_status (f r) = sleep_run_status_display t))"
  shows "sleep_progress db db'"
proof -
  have ids: "map sr_id (update_rows U f (sleep_runs db)) = map sr_id (sleep_runs db)"
    by (rule map_key_update_rows) (rule keep(1))
  have owners: "run_owner ` set (sleep_runs db') = run_owner ` set (sleep_runs db)"
  proof -
    have "map run_owner (update_rows U f (sleep_runs db)) = map run_owner (sleep_runs db)"
      by (rule map_key_update_rows) (simp add: run_owner_def keep)
    then have "set (map run_owner (sleep_runs db')) = set (map run_owner (sleep_runs db))"
      by (simp add: db')
    then show ?thesis by simp
  qed
  have ok: "sleep_run_ok r'" if "r' \<in> set (sleep_runs db')" for r'
  proof -
    from that obtain r where r: "r \<in> set (sleep_runs db)" "r' = (if U r then f r else r)"
      by (auto simp: db' row_simps)
    have "sleep_run_ok r" using inv r(1) by (auto simp: sleep_inv_def runs_inv_def)
    then show ?thesis using r(2) st [of r] keep(3) [of r] by (auto simp: sleep_run_ok_def)
  qed
  have "count_rows (running_for a) (sleep_runs db') \<le> count_rows (running_for a) (sleep_runs db)" for a
    unfolding db' using st keep(2)
    by (simp, intro count_update_le) (fastforce simp: running_for_def)
  then have "count_rows (running_for a) (sleep_runs db') \<le> 1" for a
    using inv order_trans unfolding sleep_inv_def runs_inv_def by blast
  then have "runs_inv (sleep_runs db')"
    using inv ids ok by (auto simp: sleep_inv_def runs_inv_def db')
  then have inv': "sleep_inv db'"
    using inv snapshots_inv_mono [of "sleep_runs db" "memory_snapshots db" "sleep_runs db'"] owners
    by (simp add: sleep_inv_def db')
  have "\<exists>t. run_status db' i = Some t \<and> run_allowed\<^sup>*\<^sup>* s t" if s: "run_status db i = Some s" for i s
  proof -
    obtain r where r: "find_sleep_run i db = Some r" "sr_status r = sleep_run_status_display s"
      using s by (auto simp: run_status_Some_iff)
    have f: "find_sleep_run i db' = Some (if U r then f r else r)"
      using r(1) keep(1) unfolding find_sleep_run_def db'
      by (simp add: find_row_update_other)
    show ?thesis
    proof (cases "U r \<and> sr_status (f r) \<noteq> sr_status r")
      case True
      then obtain t where t: "s = SleepRunning" "t \<noteq> SleepRunning"
          "sr_status (f r) = sleep_run_status_display t"
        using st [of r] r(2) by auto
      then have "run_allowed s t" by simp
      then show ?thesis using f t True by (auto simp: run_status_Some_iff)
    next
      case False
      then show ?thesis using f r(2) by (auto simp: run_status_Some_iff)
    qed
  qed
  with inv' show ?thesis
    by (intro progress_runsI) (auto simp: db')
qed

lemma update_running_progress:
  assumes "sleep_inv db" "update_running_run i f db = Inr db'"
    and "\<And>r. sr_id (f r) = sr_id r" "\<And>r. sr_agent_id (f r) = sr_agent_id r"
      "\<And>r. sr_trigger (f r) = sr_trigger r"
      "\<And>r. sr_status (f r) = sleep_run_status_display t" "t \<noteq> SleepRunning"
  shows "sleep_progress db db'"
proof (rule update_runs_progress [OF assms(1) _ assms(3-5)])
  show "db' = db\<lparr>sleep_runs := update_rows (running_run i) f (sleep_runs db)\<rparr>"
    using assms(2) by (auto simp: update_running_run_def split: if_splits)
  show "sr_status (f r) = sr_status r \<or> sr_status r = sleep_run_status_display SleepRunning \<and>
      (\<exists>t. t \<noteq> SleepRunning \<and> sr_status (f r) = sleep_run_status_display t)" if "running_run i r" for r
    using that assms(6,7) by (auto simp: running_run_def)
qed

lemma update_step_progress:
  assumes inv: "sleep_inv db" and ok: "update_step i n s0 f e db = Inr db'"
    and keep: "\<And>r. step_key (f r) = step_key r"
      "\<And>r. sleep_step_name_display n = st_step_name r \<Longrightarrow> st_step_name (f r) = st_step_name r"
    and st: "\<And>r. st_status (f r) = sleep_step_status_display s1" "s1 = s0 \<or> step_allowed s0 s1"
  shows "sleep_progress db db'"
proof -
  let ?U = "\<lambda>r. step_key r = (i, sleep_step_name_display n) \<and> st_status r = sleep_step_status_display s0"
  have db': "db' = db\<lparr>sleep_run_steps := update_rows ?U f (sleep_run_steps db)\<rparr>"
    using ok by (auto simp: update_step_def Let_def split: if_splits)
  have keys: "map step_key (update_rows ?U f (sleep_run_steps db)) = map step_key (sleep_run_steps db)"
    by (rule map_key_update_rows) (rule keep(1))
  have "step_row_ok r'" if "r' \<in> set (sleep_run_steps db')" for r'
  proof -
    from that obtain r where r: "r \<in> set (sleep_run_steps db)" "r' = (if ?U r then f r else r)"
      by (auto simp: db' row_simps)
    have "step_row_ok r" using inv r(1) by (auto simp: sleep_inv_def steps_inv_def)
    then show ?thesis using r(2) st(1) [of r] keep(2) [of r] by (auto simp: step_row_ok_def step_key_def)
  qed
  then have inv': "sleep_inv db'" using inv keys by (auto simp: sleep_inv_def steps_inv_def db')
  have "\<exists>t. step_status db' k = Some t \<and> step_allowed\<^sup>*\<^sup>* s t" if s: "step_status db k = Some s" for k s
  proof -
    obtain r where r: "find_step k db = Some r" "st_status r = sleep_step_status_display s"
      using s by (auto simp: step_status_Some_iff)
    have f: "find_step k db' = Some (if ?U r then f r else r)"
      using r(1) keep(1) unfolding find_step_def db' by (simp add: find_row_update_other)
    show ?thesis
    proof (cases "?U r")
      case True
      then have "s = s0" using r(2) by simp
      moreover have "st_status (f r) = sleep_step_status_display s1" by (rule st(1))
      ultimately show ?thesis using f True st(2) by (auto simp: step_status_Some_iff)
    next
      case False
      then show ?thesis using f r(2) by (auto simp: step_status_Some_iff)
    qed
  qed
  with inv' show ?thesis by (intro progress_stepsI) (auto simp: db')
qed

lemma start_step_progress:
  "sleep_inv db \<Longrightarrow> start_sleep_step now i n db = Inr db' \<Longrightarrow> sleep_progress db db'"
  unfolding start_sleep_step_def
  by (erule (1) update_step_progress [where ?s0.0 = StepPending and ?s1.0 = StepRunning])
    (simp_all add: step_key_def)

lemma finish_step_progress:
  "sleep_inv db \<Longrightarrow> finish_step_in_tx now i n result db = Inr db' \<Longrightarrow> sleep_progress db db'"
  unfolding finish_step_in_tx_def
  by (erule (1) update_step_progress [where ?s0.0 = StepRunning and ?s1.0 = "ssr_status result"])
    (simp_all add: step_key_def)

text \<open>Adding a row under a new key.\<close>

lemma insert_step_progress:
  assumes inv: "sleep_inv db" and new: "step_key r \<notin> step_key ` set (sleep_run_steps db)" "step_row_ok r"
  shows "sleep_progress db (db\<lparr>sleep_run_steps := insert_row r (sleep_run_steps db)\<rparr>)"
proof -
  let ?db' = "db\<lparr>sleep_run_steps := insert_row r (sleep_run_steps db)\<rparr>"
  have "sleep_inv ?db'" using inv new by (auto simp: sleep_inv_def steps_inv_def insert_row_def)
  moreover have "step_status ?db' k = Some s" if "step_status db k = Some s" for k s
    using that by (auto simp: step_status_Some_iff find_step_def find_key_insert_row)
  ultimately show ?thesis by (intro progress_stepsI) auto
qed

lemma pending_steps_progress:
  assumes "sleep_inv db" "insert_pending_steps i db = Inr db'"
  shows "sleep_progress db db'"
  using assms(2) unfolding insert_pending_steps_def
proof (rule rfold_progress [rotated -1])
  fix n and s s' :: database
  assume s: "sleep_inv s" and "(if exists_row (\<lambda>r. step_key r = (i, sleep_step_name_display n))
      (sleep_run_steps s) then Inl (Sqlite (ConstraintViolation
        ''sleep_run_steps.sleep_run_id, sleep_run_steps.step_name''))
    else Inr (s\<lparr>sleep_run_steps := insert_row (pending_step i n) (sleep_run_steps s)\<rparr>)) = Inr s'"
  then show "sleep_progress s s'"
    by (auto simp: row_simps step_row_ok_def pending_step_def step_key_def split: if_splits
        intro!: insert_step_progress)
      (metis sleep_step_status_display.simps(1))
qed (rule assms(1))

lemma commit_checkpoint_progress:
  assumes inv: "sleep_inv db" and ok: "commit_checkpoint c db = Inr db'"
  shows "sleep_progress db db'"
    "cursor_of (checkpoint_key (checkpoint_to_row c)) db' = Some (checkpoint_cursor (checkpoint_to_row c))"
    "\<And>x. cursor_of (checkpoint_key (checkpoint_to_row c)) db = Some x \<Longrightarrow>
       x < checkpoint_cursor (checkpoint_to_row c)"
proof -
  let ?row = "checkpoint_to_row c" and ?t = "sleep_step_checkpoints db"
  let ?k = "checkpoint_key ?row"
  let ?f = "\<lambda>r. r\<lparr>cp_cursor_at := cp_cursor_at c, cp_cursor_id := cp_cursor_id c,
      cp_updated_at := cp_updated_at c\<rparr>"
  have chk: "checkpoint_check ?row" using ok by (auto simp: commit_checkpoint_def Let_def split: if_splits)
  have keyf: "checkpoint_key (?f r) = checkpoint_key r" for r :: checkpoint_row
    by (simp add: checkpoint_key_def)
  have cur: "checkpoint_cursor (?f r) = checkpoint_cursor ?row" for r :: checkpoint_row
    by (simp add: checkpoint_cursor_def checkpoint_to_row_def)
  consider (new) "find_row (\<lambda>r. checkpoint_key r = ?k) ?t = None"
      "db' = db\<lparr>sleep_step_checkpoints := insert_row ?row ?t\<rparr>"
    | (old) r where "find_row (\<lambda>r. checkpoint_key r = ?k) ?t = Some r"
      "checkpoint_cursor r < checkpoint_cursor ?row"
      "db' = db\<lparr>sleep_step_checkpoints := update_rows (\<lambda>r. checkpoint_key r = ?k) ?f ?t\<rparr>"
    using ok by (auto simp: commit_checkpoint_def Let_def split: if_splits option.splits)
  then have all: "sleep_inv db' \<and> (\<forall>k. advances (cursor_of k db) (cursor_of k db')) \<and>
      cursor_of ?k db' = Some (checkpoint_cursor ?row) \<and>
      (\<forall>x. cursor_of ?k db = Some x \<longrightarrow> x < checkpoint_cursor ?row)"
  proof cases
    case new
    have "sleep_inv db'"
      using inv new chk by (auto simp: sleep_inv_def checkpoints_inv_def insert_row_def find_row_None_iff)
    moreover have "cursor_of k db' = (if k = ?k then Some (checkpoint_cursor ?row) else cursor_of k db)" for k
      using new(1) by (auto simp: cursor_of_def new(2) find_key_insert_row split: option.split)
    ultimately show ?thesis using new(1) by (simp add: cursor_of_def)
  next
    case (old r)
    have "map checkpoint_key (update_rows (\<lambda>r. checkpoint_key r = ?k) ?f ?t) = map checkpoint_key ?t"
      by (rule map_key_update_rows) (rule keyf)
    then have "sleep_inv db'"
      using inv by (auto simp: sleep_inv_def checkpoints_inv_def old(3) row_simps checkpoint_check_def)
    moreover have "cursor_of k db' = (if k = ?k then Some (checkpoint_cursor ?row) else cursor_of k db)" for k
      using old(1) by (simp add: cursor_of_def old(3) find_key_update_rows [where key = checkpoint_key and f = ?f, OF keyf] cur)
    ultimately show ?thesis using old(1,2) by (auto simp: cursor_of_def)
  qed
  have frame: "sleep_runs db' = sleep_runs db" "sleep_run_steps db' = sleep_run_steps db"
    "memory_snapshots db' = memory_snapshots db" "episode_events db' = episode_events db"
    using ok by (auto simp: commit_checkpoint_def Let_def split: if_splits option.splits)
  show "sleep_progress db db'" using all frame by (intro progress_cursorI) blast+
  show "cursor_of ?k db' = Some (checkpoint_cursor ?row)" using all by blast
  show "\<And>x. cursor_of ?k db = Some x \<Longrightarrow> x < checkpoint_cursor ?row" using all by blast
qed

lemma commit_checkpoints_progress:
  "sleep_inv db \<Longrightarrow> commit_checkpoints_in_tx cps db = Inr db' \<Longrightarrow> sleep_progress db db'"
  unfolding commit_checkpoints_in_tx_def
  by (rule rfold_progress [of cps commit_checkpoint]) (rule commit_checkpoint_progress(1))

lemma insert_snapshot_progress:
  assumes inv: "sleep_inv db"
    and ok: "insert_memory_snapshot_in_tx u now i a f before after db = Inr db'"
  shows "sleep_progress db db'"
proof -
  let ?r = "\<lparr>ms_id = u, ms_run_id = i, ms_agent_id = a, ms_file = memory_file_display f,
    ms_content_before = before, ms_content_after = after, ms_created_at = now\<rparr>"
  have db': "db' = db\<lparr>memory_snapshots := insert_row ?r (memory_snapshots db)\<rparr>"
    and new: "(i, a) \<in> run_owner ` set (sleep_runs db)" "u \<notin> ms_id ` set (memory_snapshots db)"
      "(i, memory_file_display f) \<notin> (\<lambda>s. (ms_run_id s, ms_file s)) ` set (memory_snapshots db)"
    using ok by (auto simp: insert_memory_snapshot_in_tx_def run_owner_def row_simps split: if_splits)
  have "snapshots_inv (sleep_runs db) (insert_row ?r (memory_snapshots db))"
    using inv new by (auto simp: sleep_inv_def snapshots_inv_def insert_row_def)
  then have "sleep_inv db'" using inv by (simp add: sleep_inv_def db')
  then show ?thesis by (intro progress_recordI) (auto simp: db' row_simps)
qed

lemma insert_snapshots_progress:
  assumes "sleep_inv db" "insert_snapshots now i a snaps db = Inr db'"
  shows "sleep_progress db db'"
  using assms(2) unfolding insert_snapshots_def
  by (rule rfold_run [OF _ assms(1)]) (auto intro: insert_snapshot_progress)

lemma ensure_progress:
  assumes "sleep_inv db" "ensure_memory_snapshots_complete now i a base db = Inr db'"
  shows "sleep_progress db db'"
  using assms(2) unfolding ensure_memory_snapshots_complete_def
proof (rule rfold_run [OF _ assms(1)])
  fix b s s' assume "sleep_inv s" "ensure_snapshot now i a b s = Inr s'"
  then show "sleep_progress s s'"
    by (auto simp: ensure_snapshot_def split: prod.splits if_splits
        intro: insert_snapshot_progress sleep_progress_refl)
qed

lemma insert_event_progress:
  assumes inv: "sleep_inv db" and ok: "insert_event i a e db = Inr db'"
  shows "sleep_progress db db'"
proof -
  have db': "db' = db\<lparr>episode_events := insert_row (event_to_row e) (episode_events db)\<rparr>"
    and new: "ev_id e \<notin> ev_id ` set (episode_events db)"
    using ok by (auto simp: insert_event_def row_simps split: if_splits)
  have "ev_id (event_to_row e) = ev_id e" by (simp add: event_to_row_def)
  then have "sleep_inv db'" using inv new by (auto simp: sleep_inv_def db' insert_row_def)
  then show ?thesis by (intro progress_recordI) (auto simp: db' row_simps)
qed

lemma finish_memory_progress:
  assumes "sleep_inv db" "finish_memory_update_steps now i result db = Inr db'"
  shows "sleep_progress db db'"
  using assms(2) unfolding finish_memory_update_steps_def
  by (rule rfold_run [OF _ assms(1)]) (auto intro: finish_step_progress)

lemma finish_memory_same: "finish_memory_steps_in_tx = finish_memory_update_steps"
  by (intro ext) (simp add: finish_memory_steps_in_tx_def finish_memory_update_steps_def)

section \<open>Each operation is a progress\<close>

lemma new_run_ok: "sleep_run_ok (new_sleep_run i a status trigger s f e)"
  by (auto simp: sleep_run_ok_def new_sleep_run_def simp del: sleep_run_status_display.simps)

lemma try_create_progress:
  assumes inv: "sleep_inv db" and ok: "try_create_sleep_run u now a trigger db = Inr (r, db')"
  shows "sleep_progress db db'"
proof (cases "count_rows (running_for a) (sleep_runs db) > 0")
  case True
  then show ?thesis using ok inv by (simp add: try_create_sleep_run_def sleep_progress_refl)
next
  case False
  then have none: "count_rows (running_for a) (sleep_runs db) = 0"
    using count_rows_nonneg [of "running_for a" "sleep_runs db"] by linarith
  obtain db1 where db1: "insert_sleep_run (new_sleep_run u a SleepRunning trigger now None None) db = Inr db1"
    "insert_pending_steps u db1 = Inr db'"
    using ok False by (auto simp: try_create_sleep_run_def res_simps)
  have "sleep_progress db db1"
    using none by (intro insert_run_progress [OF inv db1(1) new_run_ok]) (simp add: new_sleep_run_def)
  moreover from this have "sleep_progress db1 db'"
    by (intro pending_steps_progress [OF _ db1(2)]) (rule sleep_progress_inv)
  ultimately show ?thesis by (rule sleep_progress_trans)
qed

lemma skipped_progress:
  assumes inv: "sleep_inv db" and ok: "record_skipped_sleep_run u now a trigger reason db = Inr (r, db')"
  shows "sleep_progress db db'"
proof -
  have "insert_sleep_run (new_sleep_run u a SleepSkipped trigger now (Some now) (Some reason)) db = Inr db'"
    using ok by (auto simp: record_skipped_sleep_run_def res_simps)
  then show ?thesis
    by (rule insert_run_progress [OF inv _ new_run_ok]) (simp add: new_sleep_run_def)
qed

lemma run_success_progress:
  "sleep_inv db \<Longrightarrow> update_sleep_run_success now i sc sd it ot db = Inr db' \<Longrightarrow> sleep_progress db db'"
  unfolding update_sleep_run_success_def
  by (erule (1) update_running_progress [where t = SleepSuccess]) simp_all

lemma run_failed_progress:
  "sleep_inv db \<Longrightarrow> update_sleep_run_failed now i e db = Inr db' \<Longrightarrow> sleep_progress db db'"
  unfolding update_sleep_run_failed_def
  by (erule (1) update_running_progress [where t = SleepFailed]) simp_all

lemma source_chats_progress:
  "sleep_inv db \<Longrightarrow> sleep_progress db (update_sleep_run_source_chats i sc db)"
  unfolding update_sleep_run_source_chats_def
  by (rule update_runs_progress [OF _ refl]) simp_all

lemma derived_not_running: "derived_status t \<noteq> SleepRunning"
  by (simp add: derived_status_def)

lemma finalize_progress:
  assumes inv: "sleep_inv db" and ok: "finalize_sleep_run now i db = Inr (st, db')"
  shows "sleep_progress db db'"
  using ok unfolding finalize_sleep_run_def
  by (auto simp: res_simps Let_def intro: update_running_progress [OF inv _ _ _ _ _ derived_not_running])

lemma start_memory_progress:
  assumes "sleep_inv db" "start_memory_update_steps now i db = Inr db'"
  shows "sleep_progress db db'"
  using assms(2) unfolding start_memory_update_steps_def
  by (rule rfold_run [OF _ assms(1)]) (rule start_step_progress)

lemma event_commit_cases:
  assumes "commit_event_extraction_success now i a events result cps db = Inr db'"
  obtains db1 db2 where "ssr_status result = StepSuccess" "\<forall>c \<in> set cps. event_checkpoint_ok a c"
    "rfold (insert_event i a) events db = Inr db1" "commit_checkpoints_in_tx cps db1 = Inr db2"
    "finish_step_in_tx now i EventExtraction result db2 = Inr db'"
  using assms unfolding commit_event_extraction_success_def require_success_result_def
  by (auto simp: res_simps find_None_iff split: option.splits)

lemma event_commit_progress:
  assumes inv: "sleep_inv db" and ok: "commit_event_extraction_success now i a events result cps db = Inr db'"
  shows "sleep_progress db db'"
  using ok
proof (cases rule: event_commit_cases)
  case (1 db1 db2)
  have p1: "sleep_progress db db1"
    by (rule rfold_run [OF 1(3) inv]) (rule insert_event_progress)
  have p2: "sleep_progress db1 db2"
    by (rule commit_checkpoints_progress [OF sleep_progress_inv [OF p1] 1(4)])
  have "sleep_progress db2 db'" by (rule finish_step_progress [OF sleep_progress_inv [OF p2] 1(5)])
  with p1 p2 show ?thesis by (blast intro: sleep_progress_trans)
qed

lemma memory_commit_cases:
  assumes "commit_memory_update_success now i a result cps snaps db = Inr db'"
  obtains db1 db2 where "ssr_status result = StepSuccess" "\<forall>c \<in> set cps. memory_checkpoint_ok a c"
    "insert_snapshots now i a snaps db = Inr db1" "commit_checkpoints_in_tx cps db1 = Inr db2"
    "finish_memory_update_steps now i result db2 = Inr db'"
  using assms unfolding commit_memory_update_success_def require_success_result_def finish_memory_same
  by (auto simp: res_simps find_None_iff split: option.splits)

lemma memory_commit_progress:
  assumes inv: "sleep_inv db" and ok: "commit_memory_update_success now i a result cps snaps db = Inr db'"
  shows "sleep_progress db db'"
  using ok
proof (cases rule: memory_commit_cases)
  case (1 db1 db2)
  have p1: "sleep_progress db db1" by (rule insert_snapshots_progress [OF inv 1(3)])
  have p2: "sleep_progress db1 db2"
    by (rule commit_checkpoints_progress [OF sleep_progress_inv [OF p1] 1(4)])
  have "sleep_progress db2 db'" by (rule finish_memory_progress [OF sleep_progress_inv [OF p2] 1(5)])
  with p1 p2 show ?thesis by (blast intro: sleep_progress_trans)
qed

lemma episodic_commit_progress:
  assumes inv: "sleep_inv db"
    and ok: "commit_episodic_update_success u now i a before after result db = Inr db'"
  shows "sleep_progress db db'"
proof -
  obtain db1 where d: "insert_memory_snapshot_in_tx u now i a FileEpisodic before after db = Inr db1"
    "finish_step_in_tx now i EpisodicUpdate result db1 = Inr db'"
    using ok by (auto simp: commit_episodic_update_success_def res_simps)
  have p: "sleep_progress db db1" by (rule insert_snapshot_progress [OF inv d(1)])
  have "sleep_progress db1 db'" by (rule finish_step_progress [OF sleep_progress_inv [OF p] d(2)])
  with p show ?thesis by (rule sleep_progress_trans)
qed

end
