(* ===== verification/Sleep_Properties.thy ===== *)
theory Sleep_Properties
  imports Sleep_Runs
begin

text \<open>
  The step relation of the sleep store and the properties of its runs: one batch per agent,
  settled batches and steps, cursors that only advance, event batches committed once, the
  status a batch is finalized with, complete snapshot sets and complete listings.
\<close>

section \<open>Steps\<close>

inductive sleep_op :: "database \<Rightarrow> database \<Rightarrow> bool" where
  op_create: "try_create_sleep_run u now a trigger db = Inr (r, db') \<Longrightarrow> sleep_op db db'"
| op_skipped: "record_skipped_sleep_run u now a trigger reason db = Inr (i, db') \<Longrightarrow> sleep_op db db'"
| op_success: "update_sleep_run_success now i sc sd it ot db = Inr db' \<Longrightarrow> sleep_op db db'"
| op_failed: "update_sleep_run_failed now i e db = Inr db' \<Longrightarrow> sleep_op db db'"
| op_sources: "sleep_op db (update_sleep_run_source_chats i sc db)"
| op_start: "start_sleep_step now i n db = Inr db' \<Longrightarrow> sleep_op db db'"
| op_start_memory: "start_memory_update_steps now i db = Inr db' \<Longrightarrow> sleep_op db db'"
| op_finish: "finish_sleep_step now i n result db = Inr db' \<Longrightarrow> sleep_op db db'"
| op_finish_memory: "finish_memory_update_steps now i result db = Inr db' \<Longrightarrow> sleep_op db db'"
| op_events: "commit_event_extraction_success now i a events result cps db = Inr db' \<Longrightarrow> sleep_op db db'"
| op_memory: "commit_memory_update_success now i a result cps snaps db = Inr db' \<Longrightarrow> sleep_op db db'"
| op_episodic: "commit_episodic_update_success u now i a before after result db = Inr db' \<Longrightarrow> sleep_op db db'"
| op_finalize: "finalize_sleep_run now i db = Inr (st, db') \<Longrightarrow> sleep_op db db'"
| op_snapshots: "ensure_memory_snapshots_complete now i a base db = Inr db' \<Longrightarrow> sleep_op db db'"

lemma sleep_op_progress: "sleep_op db db' \<Longrightarrow> sleep_inv db \<Longrightarrow> sleep_progress db db'"
proof (induction rule: sleep_op.induct)
  case (op_finish now i n result db db')
  then show ?case by (simp add: finish_sleep_step_def finish_step_progress)
qed (blast intro: try_create_progress skipped_progress run_success_progress run_failed_progress
    source_chats_progress start_step_progress start_memory_progress finish_memory_progress
    event_commit_progress memory_commit_progress episodic_commit_progress finalize_progress
    ensure_progress)+

interpretation sleep_run_life: lifecycle_store run_allowed run_final run_status sleep_op sleep_inv
proof
  fix db db' :: database and k s
  assume op: "sleep_op db db'" "sleep_inv db"
  note p = sleep_op_progress [OF op]
  show "sleep_inv db'" using p by (rule sleep_progress_inv)
  show "\<exists>t. run_status db' k = Some t \<and> (t = s \<or> run_allowed\<^sup>*\<^sup>* s t)" if "run_status db k = Some s"
    using p that unfolding sleep_progress_def by blast
qed

interpretation sleep_step_life: lifecycle_store step_allowed step_final step_status sleep_op sleep_inv
proof
  fix db db' :: database and k s
  assume op: "sleep_op db db'" "sleep_inv db"
  note p = sleep_op_progress [OF op]
  show "sleep_inv db'" using p by (rule sleep_progress_inv)
  show "\<exists>t. step_status db' k = Some t \<and> (t = s \<or> step_allowed\<^sup>*\<^sup>* s t)" if "step_status db k = Some s"
    using p that unfolding sleep_progress_def by blast
qed

lemma sleep_ops_progress:
  assumes "sleep_op\<^sup>*\<^sup>* db db'" "sleep_inv db"
  shows "sleep_progress db db'"
  using assms(1)
proof (induction rule: rtranclp_induct)
  case base
  then show ?case by (rule sleep_progress_refl [OF assms(2)])
next
  case (step x y)
  then show ?case
    using sleep_op_progress sleep_progress_inv sleep_progress_trans by blast
qed

section \<open>Sample database\<close>

definition sample_sleep :: database where
  "sample_sleep = empty_database\<lparr>
     sleep_runs := [new_sleep_run ''r1'' ''ana'' SleepRunning TriggerScheduled ''t1'' None None],
     sleep_run_steps := map (pending_step ''r1'') sleep_step_name_variants\<rparr>"

lemma sample_sleep_created:
  "try_create_sleep_run ''r1'' ''t1'' ''ana'' TriggerScheduled empty_database = Inr (Some ''r1'', sample_sleep)"
  by (simp add: try_create_sleep_run_def insert_sleep_run_def insert_pending_steps_def insert_row_def
      sample_sleep_def empty_database_def sleep_step_name_variants_def pending_step_def step_key_def
      exists_row_def)

lemma sample_sleep_reached: "sleep_op\<^sup>*\<^sup>* empty_database sample_sleep"
  using op_create [OF sample_sleep_created] by blast

lemma sample_sleep_inv: "sleep_inv sample_sleep"
  using sample_sleep_reached sleep_inv_empty by (rule sleep_run_life.run_invar)

section \<open>Runs\<close>

lemma insert_pending_fresh:
  assumes "i \<notin> st_sleep_run_id ` set (sleep_run_steps db)"
  shows "insert_pending_steps i db = Inr (db\<lparr>sleep_run_steps :=
    sleep_run_steps db @ map (pending_step i) sleep_step_name_variants\<rparr>)"
proof -
  have "\<not> exists_row (\<lambda>r. step_key r = (i, n)) (sleep_run_steps db)" for n
    using assms by (auto simp: row_simps step_key_def)
  then show ?thesis
    by (simp add: insert_pending_steps_def sleep_step_name_variants_def insert_row_def
        exists_row_def pending_step_def step_key_def)
qed

lemma create_fresh:
  assumes "count_rows (running_for a) (sleep_runs db) = 0" "u \<notin> sr_id ` set (sleep_runs db)"
    "u \<notin> st_sleep_run_id ` set (sleep_run_steps db)"
  shows "\<exists>db'. try_create_sleep_run u now a trigger db = Inr (Some u, db') \<and>
    run_status db' u = Some SleepRunning \<and>
    (\<forall>n. step_status db' (u, sleep_step_name_display n) = Some StepPending)"
proof -
  let ?r = "new_sleep_run u a SleepRunning trigger now None None"
  let ?db' = "db\<lparr>sleep_runs := sleep_runs db @ [?r], sleep_run_steps :=
    sleep_run_steps db @ map (pending_step u) sleep_step_name_variants\<rparr>"
  have "\<not> exists_row (\<lambda>r. sr_id r = u) (sleep_runs db)" using assms(2) by (auto simp: row_simps)
  then have "try_create_sleep_run u now a trigger db = Inr (Some u, ?db')"
    using assms(1,3) insert_pending_fresh [of u "db\<lparr>sleep_runs := sleep_runs db @ [?r]\<rparr>"]
    by (simp add: try_create_sleep_run_def insert_sleep_run_def insert_row_def new_sleep_run_def)
  moreover have "find_row (\<lambda>r. sr_id r = u) (sleep_runs db) = None"
    using assms(2) by (auto simp: find_row_None_iff)
  then have "run_status ?db' u = Some SleepRunning"
    by (auto simp: run_status_Some_iff find_sleep_run_def find_row_append new_sleep_run_def)
  moreover have "step_status ?db' (u, sleep_step_name_display n) = Some StepPending" for n
  proof -
    have "find_row (\<lambda>r. step_key r = (u, sleep_step_name_display n)) (sleep_run_steps db) = None"
      using assms(3) by (auto simp: find_row_None_iff step_key_def)
    then show ?thesis
      by (cases n) (auto simp: step_status_Some_iff find_step_def find_row_append
          sleep_step_name_variants_def pending_step_def step_key_def)
  qed
  ultimately show ?thesis by blast
qed

text \<open>
  C25: An agent has at most one running batch, whatever callers race to create one: in every
  database reachable from a fresh one a further creation answers none and changes nothing
  exactly while a batch of the agent runs, and otherwise (under a fresh id) starts one.
\<close>

theorem one_running_batch:
  assumes "sleep_op\<^sup>*\<^sup>* empty_database db"
  shows "count_rows (running_for a) (sleep_runs db) \<le> 1 \<and>
    (count_rows (running_for a) (sleep_runs db) = 1 \<longrightarrow>
       try_create_sleep_run u now a trigger db = Inr (None, db)) \<and>
    (count_rows (running_for a) (sleep_runs db) = 0 \<and> u \<notin> sr_id ` set (sleep_runs db) \<and>
       u \<notin> st_sleep_run_id ` set (sleep_run_steps db) \<longrightarrow>
       (\<exists>db'. try_create_sleep_run u now a trigger db = Inr (Some u, db') \<and>
          run_status db' u = Some SleepRunning \<and>
          (\<forall>n. step_status db' (u, sleep_step_name_display n) = Some StepPending)))"
proof -
  have inv: "sleep_inv db" by (rule sleep_run_life.run_invar [OF assms sleep_inv_empty])
  have le: "count_rows (running_for a) (sleep_runs db) \<le> 1"
    using inv by (simp add: sleep_inv_def runs_inv_def)
  show ?thesis
    using le create_fresh [of a db u now trigger] by (auto simp: try_create_sleep_run_def)
qed

theorem one_running_batch_witness:
  "count_rows (running_for ''ana'') (sleep_runs sample_sleep) = 1 \<and>
   try_create_sleep_run ''r2'' ''t2'' ''ana'' TriggerManual sample_sleep = Inr (None, sample_sleep)"
proof -
  have "count_rows (running_for ''ana'') (sleep_runs sample_sleep) = 1"
    by (simp add: sample_sleep_def running_for_def new_sleep_run_def)
  then show ?thesis
    using one_running_batch [OF sample_sleep_reached, of "''ana''" "''r2''" "''t2''" TriggerManual] by blast
qed

text \<open>
  A batch that was settled stays settled: after any further operations its status is the
  same, and it can neither succeed, fail nor be finalized again; a finished step stays finished.
\<close>

theorem settled_batch_is_final:
  assumes "sleep_inv db" "sleep_op\<^sup>*\<^sup>* db db'" "run_status db i = Some s" "s \<noteq> SleepRunning"
  shows "run_status db' i = Some s \<and>
    update_sleep_run_success now i sc sd it ot db' = Inl (Conflict (''sleep_run:'' @ i @ '' is not running'')) \<and>
    update_sleep_run_failed now i e db' = Inl (Conflict (''sleep_run:'' @ i @ '' is not running'')) \<and>
    (\<exists>err. finalize_sleep_run now i db' = Inl err) \<and>
    (\<forall>k t. step_status db k = Some t \<and> step_final t \<longrightarrow> step_status db' k = Some t)"
proof -
  have st: "run_status db' i = Some s"
    using sleep_run_life.run_final [OF assms(2,1,3)] assms(4) by (simp add: run_final_def)
  then obtain r where r: "find_sleep_run i db' = Some r" "sr_status r = sleep_run_status_display s"
    by (auto simp: run_status_Some_iff)
  have inv': "sleep_inv db'" by (rule sleep_run_life.run_invar [OF assms(2,1)])
  have "\<not> running_run i x" if "x \<in> set (sleep_runs db')" for x
  proof
    assume "running_run i x"
    then have x: "sr_id x = i" "sr_status x = ''running''" by (simp_all add: running_run_def)
    have "find_sleep_run (sr_id x) db' = Some x"
      using find_key_unique [of sr_id "sleep_runs db'" x] inv' that
      by (simp add: find_sleep_run_def sleep_inv_def runs_inv_def)
    then have "sleep_run_status_display s = ''running''" using r x by auto
    then show False using assms(4) by simp
  qed
  then have none: "\<not> exists_row (running_run i) (sleep_runs db')" by (auto simp: row_simps)
  have "\<exists>err. finalize_sleep_run now i db' = Inl err"
    using none by (cases "list_sleep_run_steps i db'")
      (simp_all add: finalize_sleep_run_def update_running_run_def Let_def)
  then show ?thesis
    using st none sleep_step_life.run_final [OF assms(2,1)]
    by (simp add: update_sleep_run_success_def update_sleep_run_failed_def update_running_run_def)
qed

theorem settled_batch_is_final_witness:
  "\<exists>db. update_sleep_run_failed ''t2'' ''r1'' ''crash'' sample_sleep = Inr db \<and>
     run_status db ''r1'' = Some SleepFailed \<and> (\<exists>err. finalize_sleep_run ''t3'' ''r1'' db = Inl err)"
proof -
  obtain db where db: "update_sleep_run_failed ''t2'' ''r1'' ''crash'' sample_sleep = Inr db"
    "run_status db ''r1'' = Some SleepFailed"
    by (simp add: update_sleep_run_failed_def update_running_run_def exists_row_def running_run_def
        sample_sleep_def new_sleep_run_def run_status_Some_iff find_sleep_run_def)
  have "sleep_inv db" by (rule sleep_progress_inv [OF run_failed_progress [OF sample_sleep_inv db(1)]])
  from settled_batch_is_final [OF this rtranclp.rtrancl_refl db(2), of "''t3''"] db show ?thesis by simp
qed

section \<open>Checkpoints\<close>

lemma commit_checkpoints_cursors:
  assumes "sleep_inv db" "commit_checkpoints_in_tx cps db = Inr db'" "c \<in> set cps"
  shows "\<exists>x. cursor_of (checkpoint_key (checkpoint_to_row c)) db' = Some x \<and>
    checkpoint_cursor (checkpoint_to_row c) \<le> x"
  using assms
proof (induction cps arbitrary: db)
  case (Cons d cps)
  obtain db1 where d: "commit_checkpoint d db = Inr db1" "commit_checkpoints_in_tx cps db1 = Inr db'"
    using Cons.prems(2) by (auto simp: commit_checkpoints_in_tx_def res_simps)
  note p = commit_checkpoint_progress [OF Cons.prems(1) d(1)]
  note inv1 = sleep_progress_inv [OF p(1)]
  show ?case
  proof (cases "c \<in> set cps")
    case True
    then show ?thesis by (rule Cons.IH [OF inv1 d(2)])
  next
    case False
    then have "cursor_of (checkpoint_key (checkpoint_to_row c)) db1 = Some (checkpoint_cursor (checkpoint_to_row c))"
      using p(2) Cons.prems(3) by simp
    moreover have "advances (cursor_of (checkpoint_key (checkpoint_to_row c)) db1)
        (cursor_of (checkpoint_key (checkpoint_to_row c)) db')"
      using commit_checkpoints_progress [OF inv1 d(2)] unfolding sleep_progress_def by blast
    ultimately show ?thesis
      by (cases "cursor_of (checkpoint_key (checkpoint_to_row c)) db'") simp_all
  qed
qed simp

lemma commit_checkpoints_advance:
  assumes "sleep_inv db" "commit_checkpoints_in_tx cps db = Inr db'" "c \<in> set cps"
    "cursor_of (checkpoint_key (checkpoint_to_row c)) db = Some x"
  shows "x < checkpoint_cursor (checkpoint_to_row c)"
  using assms
proof (induction cps arbitrary: db x)
  case (Cons d cps)
  obtain db1 where d: "commit_checkpoint d db = Inr db1" "commit_checkpoints_in_tx cps db1 = Inr db'"
    using Cons.prems(2) by (auto simp: commit_checkpoints_in_tx_def res_simps)
  note p = commit_checkpoint_progress [OF Cons.prems(1) d(1)]
  note inv1 = sleep_progress_inv [OF p(1)]
  show ?case
  proof (cases "c = d")
    case True
    then show ?thesis using p(3) Cons.prems(4) by simp
  next
    case False
    then have m: "c \<in> set cps" using Cons.prems(3) by simp
    have "advances (Some x) (cursor_of (checkpoint_key (checkpoint_to_row c)) db1)"
      using p(1) Cons.prems(4) unfolding sleep_progress_def by metis
    then obtain y where y: "cursor_of (checkpoint_key (checkpoint_to_row c)) db1 = Some y" "x \<le> y"
      by (cases "cursor_of (checkpoint_key (checkpoint_to_row c)) db1") simp_all
    show ?thesis using Cons.IH [OF inv1 d(2) m y(1)] y(2) by (rule le_less_trans [rotated])
  qed
qed simp

lemma finish_step_cursor:
  "finish_step_in_tx now i n result db = Inr db' \<Longrightarrow>
    sleep_step_checkpoints db' = sleep_step_checkpoints db \<and> episode_events db' = episode_events db"
  by (auto simp: finish_step_in_tx_def update_step_def Let_def split: if_splits)

lemma insert_events_cursor:
  "rfold (insert_event i a) events db = Inr db' \<Longrightarrow>
    sleep_step_checkpoints db' = sleep_step_checkpoints db \<and>
    episode_events db' = episode_events db @ map event_to_row events"
proof (induction events arbitrary: db)
  case (Cons e events)
  obtain db1 where d: "insert_event i a e db = Inr db1" "rfold (insert_event i a) events db1 = Inr db'"
    using Cons.prems by (auto simp: res_simps)
  have "db1 = db\<lparr>episode_events := insert_row (event_to_row e) (episode_events db)\<rparr>"
    using d(1) by (auto simp: insert_event_def split: if_splits)
  then show ?case using Cons.IH [OF d(2)] by (simp add: insert_row_def)
qed simp

lemma commit_checkpoints_frame:
  "commit_checkpoints_in_tx cps db = Inr db' \<Longrightarrow> episode_events db' = episode_events db"
  unfolding commit_checkpoints_in_tx_def
proof (induction cps arbitrary: db)
  case (Cons c cps)
  obtain db1 where d: "commit_checkpoint c db = Inr db1" "rfold commit_checkpoint cps db1 = Inr db'"
    using Cons.prems by (auto simp: res_simps)
  have "episode_events db1 = episode_events db"
    using d(1) by (auto simp: commit_checkpoint_def Let_def split: if_splits option.splits)
  then show ?case using Cons.IH [OF d(2)] by simp
qed simp


definition sample_checkpoint :: sleep_step_checkpoint where
  "sample_checkpoint = \<lparr>cp_agent_id = ''ana'', cp_step_name = EventExtraction,
     cp_source_kind = SourceMessages, cp_source_id = ''7'', cp_cursor_at = ''t1'', cp_cursor_id = ''m1'',
     cp_updated_at = ''t2''\<rparr>"

definition sample_event :: typed_episode_event where
  "sample_event = \<lparr>ev_id = ''e1'', ev_agent_id = ''ana'', ev_experienced_at = ''t0'',
     ev_encoded_at = ''t1'', ev_kind = Insight, ev_title = ''x'', ev_body_md = ''y'',
     ev_ripple_strength = 3, ev_certainty = Stated, ev_sleep_run_id = ''r1'',
     ev_source_refs_json = None, ev_created_at = ''t1'', ev_updated_at = ''t1''\<rparr>"

definition sample_result :: sleep_step_result where
  "sample_result = \<lparr>ssr_status = StepSuccess, ssr_input_tokens = 10, ssr_output_tokens = 2,
     ssr_error_message = None, ssr_metadata_json = None\<rparr>"

definition sample_started :: database where
  "sample_started = sample_sleep\<lparr>sleep_run_steps :=
     ((pending_step ''r1'' EventExtraction)\<lparr>st_status := ''running'', st_started_at := Some ''t1''\<rparr>) #
     map (pending_step ''r1'') [EpisodicUpdate, SemanticUpdate, ProspectiveUpdate]\<rparr>"

lemma sample_started_inv: "sleep_inv sample_started"
proof -
  have "start_sleep_step ''t1'' ''r1'' EventExtraction sample_sleep = Inr sample_started"
    by (simp add: start_sleep_step_def update_step_def sample_sleep_def sample_started_def exists_row_def
        sleep_step_name_variants_def pending_step_def step_key_def)
  then show ?thesis by (rule sleep_progress_inv [OF start_step_progress [OF sample_sleep_inv]])
qed

lemma sample_event_commit:
  "\<exists>db. commit_event_extraction_success ''t2'' ''r1'' ''ana'' [sample_event] sample_result
     [sample_checkpoint] sample_started = Inr db"
  by (simp add: commit_event_extraction_success_def require_success_result_def sample_result_def
      event_checkpoint_ok_def sample_checkpoint_def insert_event_def sample_event_def exists_row_def
      sample_started_def sample_sleep_def empty_database_def commit_checkpoints_in_tx_def
      commit_checkpoint_def checkpoint_to_row_def checkpoint_check_def Let_def finish_step_in_tx_def
      update_step_def pending_step_def step_key_def)


section \<open>Finalizing\<close>

lemma tally_fold:
  "ty_success (fold tally_step steps t) = ty_success t + length (filter (\<lambda>s. st_status s = StepSuccess) steps)"
  "ty_failed (fold tally_step steps t) = ty_failed t + length (filter (\<lambda>s. st_status s = StepFailed) steps)"
  "ty_skipped (fold tally_step steps t) = ty_skipped t + length (filter (\<lambda>s. st_status s = StepSkipped) steps)"
  "ty_open (fold tally_step steps t) =
     (ty_open t \<or> (\<exists>s \<in> set steps. st_status s = StepPending \<or> st_status s = StepRunning))"
  by (induction steps arbitrary: t)
    (auto simp: tally_step_def Let_def split: sleep_step_status.split)

lemma tally_tokens:
  assumes "\<forall>s \<in> set steps. 0 \<le> st_input_tokens s \<and> 0 \<le> st_output_tokens s"
    "0 \<le> ty_input t" "ty_input t < 2 ^ 63" "0 \<le> ty_output t" "ty_output t < 2 ^ 63"
  shows "ty_input (fold tally_step steps t) =
      min (2 ^ 63 - 1) (ty_input t + sum_list (map st_input_tokens steps)) \<and>
    ty_output (fold tally_step steps t) =
      min (2 ^ 63 - 1) (ty_output t + sum_list (map st_output_tokens steps))"
  using assms
proof (induction steps arbitrary: t)
  case Nil
  then show ?case by simp
next
  case (Cons s steps)
  let ?t = "tally_step s t"
  have f: "ty_input ?t = min (2 ^ 63 - 1) (ty_input t + st_input_tokens s)"
    "ty_output ?t = min (2 ^ 63 - 1) (ty_output t + st_output_tokens s)"
    using Cons.prems by (auto simp: tally_step_def Let_def sat_add_def)
  have pos: "0 \<le> sum_list (map st_input_tokens steps)" "0 \<le> sum_list (map st_output_tokens steps)"
    using Cons.prems(1) by (auto intro!: sum_list_nonneg)
  have "ty_input (fold tally_step steps ?t) =
      min (2 ^ 63 - 1) (ty_input ?t + sum_list (map st_input_tokens steps)) \<and>
    ty_output (fold tally_step steps ?t) =
      min (2 ^ 63 - 1) (ty_output ?t + sum_list (map st_output_tokens steps))"
    using Cons.prems f by (intro Cons.IH) auto
  then show ?case using f pos by (simp add: min_def)
qed

lemma row_to_step_total:
  "step_row_ok r \<Longrightarrow> \<exists>s. row_to_sleep_run_step r = Inr s"
  by (auto simp: step_row_ok_def row_to_sleep_run_step_def parse_row_enum_def map_err_def)

lemma list_steps_total:
  assumes "sleep_inv db"
  shows "\<exists>steps. list_sleep_run_steps i db = Inr steps"
  unfolding list_sleep_run_steps_def
  using assms by (intro rmap_total row_to_step_total) (auto simp: sleep_inv_def steps_inv_def)

text \<open>The status a batch ends with, in terms of the steps.\<close>

definition final_status :: "sleep_run_step list \<Rightarrow> sleep_run_status" where
  "final_status steps =
     (let some = (\<lambda>st. list_ex (\<lambda>s. st_status s = st) steps) in
      if some StepPending \<or> some StepRunning then SleepFailed
      else if some StepSuccess then (if some StepFailed then SleepPartialFailure else SleepSuccess)
      else if some StepFailed then SleepFailed
      else if some StepSkipped then SleepSkipped else SleepFailed)"

lemma derived_final: "derived_status (tally_steps steps) = final_status steps"
proof -
  have pos: "(0 < length (filter P xs)) = list_ex P xs" for P :: "sleep_run_step \<Rightarrow> bool" and xs
    by (induction xs) auto
  have e: "(ty_success (tally_steps steps) > 0) = list_ex (\<lambda>s. st_status s = StepSuccess) steps"
    "(ty_failed (tally_steps steps) > 0) = list_ex (\<lambda>s. st_status s = StepFailed) steps"
    "(ty_skipped (tally_steps steps) > 0) = list_ex (\<lambda>s. st_status s = StepSkipped) steps"
    unfolding tally_steps_def tally_fold pos [symmetric] by (simp_all add: tally_start_def)
  have o: "ty_open (tally_steps steps) = (list_ex (\<lambda>s. st_status s = StepPending) steps \<or>
       list_ex (\<lambda>s. st_status s = StepRunning) steps)"
    by (auto simp: tally_steps_def tally_fold tally_start_def list_ex_iff)
  show ?thesis unfolding derived_status_def final_status_def Let_def e [symmetric] o [symmetric] by auto
qed

text \<open>
  Finalizing a running batch always answers and settles it: failed if a step was left open
  or none succeeded or was skipped, skipped if all were, a partial failure if some failed beside
  a success, else a success; with the summed tokens, cut off at the largest \<open>i64\<close>.
\<close>

theorem finalize_settles:
  assumes "sleep_inv db" "run_status db i = Some SleepRunning"
    "\<forall>r \<in> set (sleep_run_steps db). 0 \<le> st_input_tokens r \<and> 0 \<le> st_output_tokens r"
  shows "\<exists>steps db' r. list_sleep_run_steps i db = Inr steps \<and>
    finalize_sleep_run now i db = Inr (final_status steps, db') \<and> final_status steps \<noteq> SleepRunning \<and>
    find_sleep_run i db' = Some r \<and> run_status db' i = Some (final_status steps) \<and>
    sr_finished_at r = Some now \<and>
    sr_input_tokens r = min (2 ^ 63 - 1) (sum_list (map st_input_tokens steps)) \<and>
    sr_output_tokens r = min (2 ^ 63 - 1) (sum_list (map st_output_tokens steps))"
proof -
  obtain steps where steps: "list_sleep_run_steps i db = Inr steps"
    using list_steps_total [OF assms(1)] by blast
  have tok: "\<forall>s \<in> set steps. 0 \<le> st_input_tokens s \<and> 0 \<le> st_output_tokens s"
  proof
    fix s assume "s \<in> set steps"
    then obtain r where r: "r \<in> set (sleep_run_steps db)" "row_to_sleep_run_step r = Inr s"
      using rmap_member [OF steps [unfolded list_sleep_run_steps_def]] by auto
    then show "0 \<le> st_input_tokens s \<and> 0 \<le> st_output_tokens s"
      using assms(3) by (auto simp: row_to_sleep_run_step_def res_simps)
  qed
  let ?t = "tally_steps steps"
  have sums: "ty_input ?t = min (2 ^ 63 - 1) (sum_list (map st_input_tokens steps))"
    "ty_output ?t = min (2 ^ 63 - 1) (sum_list (map st_output_tokens steps))"
    using tally_tokens [OF tok, of tally_start] by (simp_all add: tally_steps_def tally_start_def)
  obtain r0 where r0: "find_sleep_run i db = Some r0" "sr_status r0 = ''running''"
    using assms(2) by (auto simp: run_status_Some_iff)
  then have ex: "exists_row (running_run i) (sleep_runs db)"
    unfolding find_sleep_run_def by (auto simp: row_simps running_run_def dest: find_row_Some)
  let ?f = "\<lambda>r. r\<lparr>sr_status := sleep_run_status_display (final_status steps), sr_finished_at := Some now,
      sr_input_tokens := ty_input ?t, sr_output_tokens := ty_output ?t,
      sr_total_tokens := sat_add (ty_input ?t) (ty_output ?t),
      sr_error_message := (if ty_errors ?t = [] then None else Some (join_with ''; '' (ty_errors ?t)))\<rparr>"
  let ?db' = "db\<lparr>sleep_runs := update_rows (running_run i) ?f (sleep_runs db)\<rparr>"
  have fin: "finalize_sleep_run now i db = Inr (final_status steps, ?db')"
    using ex by (simp add: finalize_sleep_run_def steps Let_def update_running_run_def derived_final)
  have "running_run i r0"
    using r0 unfolding find_sleep_run_def by (auto simp: running_run_def dest: find_row_Some)
  then have "find_sleep_run i ?db' = Some (?f r0)"
    using r0(1) unfolding find_sleep_run_def by (simp add: find_row_update_other)
  moreover from this have "run_status ?db' i = Some (final_status steps)"
    by (auto simp: run_status_Some_iff)
  ultimately show ?thesis
    using steps fin sums derived_not_running [of ?t] unfolding derived_final
    by (intro exI [of _ steps] exI [of _ ?db'] exI [of _ "?f r0"]) simp
qed

theorem finalize_settles_witness:
  "\<exists>db'. finalize_sleep_run ''t9'' ''r1'' sample_sleep = Inr (SleepFailed, db') \<and>
     run_status db' ''r1'' = Some SleepFailed"
proof -
  have r: "run_status sample_sleep ''r1'' = Some SleepRunning"
    by (auto simp: run_status_Some_iff find_sleep_run_def sample_sleep_def new_sleep_run_def)
  have tok: "\<forall>r \<in> set (sleep_run_steps sample_sleep). 0 \<le> st_input_tokens r \<and> 0 \<le> st_output_tokens r"
    by (simp add: sample_sleep_def sleep_step_name_variants_def pending_step_def)
  obtain steps db' where f: "list_sleep_run_steps ''r1'' sample_sleep = Inr steps"
    "finalize_sleep_run ''t9'' ''r1'' sample_sleep = Inr (final_status steps, db')"
    "run_status db' ''r1'' = Some (final_status steps)"
    using finalize_settles [OF sample_sleep_inv r tok, of "''t9''"] by blast
  have "final_status steps = SleepFailed"
    using f(1) by (auto simp: list_sleep_run_steps_def sample_sleep_def sleep_step_name_variants_def
        pending_step_def row_to_sleep_run_step_def parse_row_enum_def map_err_def final_status_def
        sleep_step_name_from_str_display [of EventExtraction, simplified]
        sleep_step_name_from_str_display [of EpisodicUpdate, simplified]
        sleep_step_name_from_str_display [of SemanticUpdate, simplified]
        sleep_step_name_from_str_display [of ProspectiveUpdate, simplified]
        sleep_step_status_from_str_display [of StepPending, simplified])
  with f show ?thesis by simp
qed

section \<open>Complete snapshot sets\<close>

definition has_snapshot :: "string \<Rightarrow> memory_file \<Rightarrow> database \<Rightarrow> bool" where
  "has_snapshot i f db =
     exists_row (\<lambda>s. ms_run_id s = i \<and> ms_file s = memory_file_display f) (memory_snapshots db)"

lemma ensure_snapshot_step:
  assumes "(i, a) \<in> run_owner ` set (sleep_runs db)" "u \<notin> ms_id ` set (memory_snapshots db)"
  shows "\<exists>db'. ensure_snapshot now i a (u, f, b) db = Inr db' \<and> sleep_runs db' = sleep_runs db \<and>
    set (memory_snapshots db) \<subseteq> set (memory_snapshots db') \<and>
    ms_id ` set (memory_snapshots db') \<subseteq> insert u (ms_id ` set (memory_snapshots db)) \<and>
    has_snapshot i f db'"
proof -
  have r: "exists_row (\<lambda>r. sr_id r = i \<and> sr_agent_id r = a) (sleep_runs db)"
    using assms(1) by (auto simp: row_simps run_owner_def)
  have u: "\<not> exists_row (\<lambda>s. ms_id s = u) (memory_snapshots db)"
    using assms(2) by (auto simp: row_simps)
  show ?thesis
  proof (cases "has_snapshot i f db")
    case True
    then show ?thesis by (auto simp: ensure_snapshot_def has_snapshot_def)
  next
    case False
    then show ?thesis using r u
      by (auto simp: ensure_snapshot_def insert_memory_snapshot_in_tx_def has_snapshot_def insert_row_def
          exists_row_def)
  qed
qed

lemma has_snapshot_mono:
  "has_snapshot i f db \<Longrightarrow> set (memory_snapshots db) \<subseteq> set (memory_snapshots db') \<Longrightarrow> has_snapshot i f db'"
  by (auto simp: has_snapshot_def row_simps)

lemma ensure_all:
  assumes "(i, a) \<in> run_owner ` set (sleep_runs db)" "distinct (map fst base)"
    "fst ` set base \<inter> ms_id ` set (memory_snapshots db) = {}"
  shows "\<exists>db'. ensure_memory_snapshots_complete now i a base db = Inr db' \<and>
    set (memory_snapshots db) \<subseteq> set (memory_snapshots db') \<and>
    (\<forall>(u, f, b) \<in> set base. has_snapshot i f db')"
  using assms
proof (induction base arbitrary: db)
  case Nil
  then show ?case by (simp add: ensure_memory_snapshots_complete_def)
next
  case (Cons x base)
  obtain u f b where x: "x = (u, f, b)" by (cases x) auto
  have "u \<notin> ms_id ` set (memory_snapshots db)" using Cons.prems(3) by (auto simp: x)
  from ensure_snapshot_step [OF Cons.prems(1) this, of now f b] obtain db1 where
    d: "ensure_snapshot now i a x db = Inr db1" "sleep_runs db1 = sleep_runs db"
      "set (memory_snapshots db) \<subseteq> set (memory_snapshots db1)"
      "ms_id ` set (memory_snapshots db1) \<subseteq> insert u (ms_id ` set (memory_snapshots db))"
      "has_snapshot i f db1"
    unfolding x by blast
  have "u \<notin> fst ` set base" using Cons.prems(2) by (simp add: x)
  moreover have "fst ` set base \<inter> ms_id ` set (memory_snapshots db) = {}" using Cons.prems(3) by auto
  ultimately have "fst ` set base \<inter> ms_id ` set (memory_snapshots db1) = {}" using d(4) by blast
  then obtain db' where e: "ensure_memory_snapshots_complete now i a base db1 = Inr db'"
    "set (memory_snapshots db1) \<subseteq> set (memory_snapshots db')"
    "\<forall>(u, f, b) \<in> set base. has_snapshot i f db'"
    using Cons.IH [of db1] Cons.prems(1,2) d(2) by auto
  have "ensure_memory_snapshots_complete now i a (x # base) db = Inr db'"
    using d(1) e(1) by (simp add: ensure_memory_snapshots_complete_def)
  then show ?case using e d(3) has_snapshot_mono [OF d(5) e(2)] by (auto simp: x)
qed

lemma ensure_idle:
  assumes "\<forall>(u, f, b) \<in> set base. has_snapshot i f db"
  shows "ensure_memory_snapshots_complete now i a base db = Inr db"
  using assms
  by (induction base) (auto simp: ensure_memory_snapshots_complete_def ensure_snapshot_def
      has_snapshot_def split: prod.splits)

lemma one_snapshot:
  assumes "sleep_inv db" "has_snapshot i f db"
  shows "count_rows (\<lambda>s. ms_run_id s = i \<and> ms_file s = memory_file_display f) (memory_snapshots db) = 1"
proof -
  have one: "count_rows (\<lambda>s. key s = k) t = 1" if "distinct (map key t)" "k \<in> key ` set t"
    for key :: "'r \<Rightarrow> 'k" and k t
    using that by (induction t) (auto simp: count_rows_zero_iff, metis image_eqI)
  show ?thesis
    using one [of "\<lambda>s. (ms_run_id s, ms_file s)" "memory_snapshots db" "(i, memory_file_display f)"]
      assms by (force simp: sleep_inv_def snapshots_inv_def has_snapshot_def row_simps)
qed

text \<open>
  The snapshot set of a batch is completed without touching what is there: afterwards the
  batch has exactly one snapshot of every file of the base, every earlier snapshot is kept, and
  completing again, with whatever contents, changes nothing.
\<close>

theorem snapshot_set_complete:
  assumes "sleep_inv db" "(i, a) \<in> run_owner ` set (sleep_runs db)" "distinct (map fst base)"
    "fst ` set base \<inter> ms_id ` set (memory_snapshots db) = {}"
    "(\<lambda>(u, f, b). f) ` set base' \<subseteq> (\<lambda>(u, f, b). f) ` set base"
  shows "\<exists>db'. ensure_memory_snapshots_complete now i a base db = Inr db' \<and>
    set (memory_snapshots db) \<subseteq> set (memory_snapshots db') \<and>
    (\<forall>(u, f, b) \<in> set base. count_rows (\<lambda>s. ms_run_id s = i \<and> ms_file s = memory_file_display f)
       (memory_snapshots db') = 1) \<and>
    ensure_memory_snapshots_complete now' i a' base' db' = Inr db'"
proof -
  obtain db' where e: "ensure_memory_snapshots_complete now i a base db = Inr db'"
    "set (memory_snapshots db) \<subseteq> set (memory_snapshots db')"
    "\<forall>(u, f, b) \<in> set base. has_snapshot i f db'"
    using ensure_all [OF assms(2-4)] by blast
  have inv': "sleep_inv db'" by (rule sleep_progress_inv [OF ensure_progress [OF assms(1) e(1)]])
  have "\<forall>(u, f, b) \<in> set base'. has_snapshot i f db'"
  proof clarify
    fix u f b assume "(u, f, b) \<in> set base'"
    then have "f \<in> (\<lambda>(u, f, b). f) ` set base'" by force
    then show "has_snapshot i f db'" using assms(5) e(3) by auto
  qed
  then have "ensure_memory_snapshots_complete now' i a' base' db' = Inr db'" by (rule ensure_idle)
  with e one_snapshot [OF inv'] show ?thesis by auto
qed

theorem snapshot_set_complete_witness:
  "\<exists>db'. ensure_memory_snapshots_complete ''t2'' ''r1'' ''ana''
       [(''u1'', FileEpisodic, ''a''), (''u2'', FileSemantic, ''b'')] sample_sleep = Inr db' \<and>
     count_rows (\<lambda>s. ms_run_id s = ''r1'' \<and> ms_file s = ''semantic'') (memory_snapshots db') = 1"
proof -
  have "(''r1'', ''ana'') \<in> run_owner ` set (sleep_runs sample_sleep)"
    by (simp add: sample_sleep_def run_owner_def new_sleep_run_def)
  from snapshot_set_complete [OF sample_sleep_inv this, of "[(''u1'', FileEpisodic, ''a''),
      (''u2'', FileSemantic, ''b'')]" "[]" "''t2''"]
  show ?thesis by (auto simp: sample_sleep_def empty_database_def)
qed

section \<open>Listings\<close>

lemma row_to_run_total: "sleep_run_ok r \<Longrightarrow> \<exists>s. row_to_sleep_run r = Inr s"
  by (auto simp: sleep_run_ok_def row_to_sleep_run_def parse_row_enum_def map_err_def)

definition typed_run :: "sleep_run_row \<Rightarrow> (sleep_run_status, sleep_run_trigger) sleep_run" where
  "typed_run r = (case row_to_sleep_run r of Inr s \<Rightarrow> s | Inl _ \<Rightarrow> undefined)"

lemma row_to_run_typed: "sleep_run_ok r \<Longrightarrow> row_to_sleep_run r = Inr (typed_run r)"
  using row_to_run_total by (fastforce simp: typed_run_def)

lemma row_to_run_cursor: "row_to_sleep_run r = Inr s \<Longrightarrow> run_cursor s = run_cursor r"
  by (auto simp: row_to_sleep_run_def res_simps run_cursor_def)

lemma typed_run_cursor: "sleep_run_ok r \<Longrightarrow> run_cursor (typed_run r) = run_cursor r"
  by (rule row_to_run_cursor [OF row_to_run_typed])

definition sleep_history ::
  "string \<Rightarrow> sleep_run_status list \<Rightarrow> database \<Rightarrow> (sleep_run_status, sleep_run_trigger) sleep_run list" where
  "sleep_history a statuses db =
     map typed_run (listing run_cursor (listed_sleep_run a statuses) (sleep_runs db))"

definition sleep_page ::
  "string \<Rightarrow> sleep_run_status list \<Rightarrow> cursor option \<Rightarrow> nat \<Rightarrow> database \<Rightarrow>
   (sleep_run_status, sleep_run_trigger) sleep_run list" where
  "sleep_page a statuses c n db =
     (case list_sleep_runs a statuses c n db of Inr rs \<Rightarrow> rs | Inl _ \<Rightarrow> [])"

lemma distinct_run_cursor: "distinct (map sr_id runs) \<Longrightarrow> distinct (map run_cursor runs)"
  by (induction runs) (auto simp: run_cursor_def)

lemma list_sleep_runs_eq:
  assumes "sleep_inv db"
  shows "list_sleep_runs a statuses c n db =
    Inr (take n (filter (before_cursor run_cursor c) (sleep_history a statuses db)))"
  unfolding list_sleep_runs_def sleep_history_def using assms
  by (intro typed_page row_to_run_typed typed_run_cursor) (auto simp: sleep_inv_def runs_inv_def)

interpretation sleep_pages: keyset_reader "\<lambda>a b. b < a" run_cursor sleep_inv
    "sleep_history agent statuses" "sleep_page agent statuses" for agent statuses
proof
  fix db and cur :: "cursor option" and n
  assume inv: "sleep_inv db"
  show "sleep_page agent statuses cur n db =
      take n (filter (comes_after (\<lambda>a b. b < a) run_cursor cur) (sleep_history agent statuses db))"
    unfolding comes_before by (simp add: sleep_page_def list_sleep_runs_eq [OF inv])
  show "sorted_wrt (\<lambda>r s. run_cursor s < run_cursor r) (sleep_history agent statuses db)"
    unfolding sleep_history_def using inv
    by (intro typed_listing_sorted distinct_run_cursor typed_run_cursor)
      (auto simp: sleep_inv_def runs_inv_def)
qed auto

text \<open>
  A reader that pages through the batches of an agent, passing the last batch it has as the
  cursor, gets the whole filtered history, newest first, without a gap or a repetition, for any
  page size; batches that started at the same instant are not lost at a page boundary.
\<close>

theorem sleep_history_pages:
  assumes "sleep_inv db" "0 < n" "length (sleep_runs db) < fuel"
  shows "read_pages (\<lambda>c. sleep_page a statuses c n db) run_cursor fuel None = sleep_history a statuses db \<and>
    sorted_wrt (\<lambda>r s. run_cursor s < run_cursor r) (sleep_history a statuses db) \<and>
    length (sleep_history a statuses db) = length (filter (listed_sleep_run a statuses) (sleep_runs db))"
proof -
  have "length (sleep_history a statuses db) < fuel"
    using assms(3) length_listing [of run_cursor "listed_sleep_run a statuses" "sleep_runs db"]
    by (simp add: sleep_history_def)
  then show ?thesis
    using sleep_pages.read_all [OF assms(1,2)] sleep_pages.whole_sorted [OF assms(1)]
    by (simp add: sleep_history_def listing_def)
qed

theorem sleep_history_pages_witness:
  "map sr_id (read_pages (\<lambda>c. sleep_page ''ana'' [] c 1 sample_sleep) run_cursor 2 None) = [''r1'']"
proof -
  have "sleep_run_status_from_str ''running'' = Inr SleepRunning"
    "sleep_run_trigger_from_str ''scheduled'' = Inr TriggerScheduled"
    using sleep_run_status_from_str_display [of SleepRunning]
      sleep_run_trigger_from_str_display [of TriggerScheduled] by simp_all
  then have "map sr_id (sleep_history ''ana'' [] sample_sleep) = [''r1'']"
    by (simp add: sleep_history_def sample_sleep_def listing_def listed_sleep_run_def new_sleep_run_def
        typed_run_def row_to_sleep_run_def parse_row_enum_def map_err_def)
  then show ?thesis
    using sleep_history_pages [OF sample_sleep_inv, of 1 2 "''ana''" "[]"]
    by (simp add: sample_sleep_def)
qed

end
