(* ===== verification/Pulse_Store.thy ===== *)
theory Pulse_Store
  imports Chat_Store Keyset_Pages
begin

text \<open>
  The \<open>pulse_runs\<close> table and the operations of \<open>storage/pulse.rs\<close>: an activation of an
  intention claims its due key with a row that is never deleted, and settles that row once as
  success, failure or skip. A clock reading is the argument \<open>now\<close>, a fresh UUID the run's id;
  the RFC 3339 parser of \<open>chrono\<close> is the argument \<open>parse\<close>.
\<close>

section \<open>Rows\<close>

type_synonym typed_pulse_run = "(pulse_run_status, pulse_output_kind) pulse_run"

definition parse_output_kind :: "string option \<Rightarrow> storage_error + pulse_output_kind option" where
  "parse_output_kind raw =
     (case raw of
        None \<Rightarrow> Inr None
      | Some s \<Rightarrow> rbind (parse_row_enum pulse_output_kind_from_str 9 s) (\<lambda>k. Inr (Some k)))"

definition row_to_pulse_run :: "pulse_row \<Rightarrow> storage_error + typed_pulse_run" where
  "row_to_pulse_run r =
     rbind (parse_row_enum pulse_run_status_from_str 6 (pr_status r)) (\<lambda>s.
     rbind (parse_output_kind (pr_output_kind r)) (\<lambda>k.
     Inr \<lparr>pr_id = pr_id r, pr_agent_id = pr_agent_id r, pr_intention_id = pr_intention_id r,
       pr_due_key = pr_due_key r, pr_chat_id = pr_chat_id r, pr_message_id = pr_message_id r,
       pr_status = s, pr_started_at = pr_started_at r, pr_finished_at = pr_finished_at r,
       pr_output_kind = k, pr_output_text = pr_output_text r,
       pr_error_message = pr_error_message r, pr_attention_snapshot = pr_attention_snapshot r\<rparr>))"

section \<open>Claiming a due key\<close>

text \<open>The columns of the unique index \<open>idx_pulse_runs_due\<close>.\<close>

definition due_of :: "('s, 'o) pulse_run \<Rightarrow> string \<times> string \<times> string" where
  "due_of r = (pr_agent_id r, pr_intention_id r, pr_due_key r)"

definition new_pulse_run ::
  "string \<Rightarrow> string \<Rightarrow> string \<Rightarrow> string \<Rightarrow> string \<Rightarrow> string \<Rightarrow> pulse_row" where
  "new_pulse_run now i agent_id intention_id due_key attention =
     \<lparr>pr_id = i, pr_agent_id = agent_id, pr_intention_id = intention_id, pr_due_key = due_key,
      pr_chat_id = None, pr_message_id = None,
      pr_status = pulse_run_status_display PulseRunning, pr_started_at = now,
      pr_finished_at = None, pr_output_kind = None, pr_output_text = None,
      pr_error_message = None, pr_attention_snapshot = Some attention\<rparr>"

definition due_conflict :: "string \<Rightarrow> string \<Rightarrow> string \<Rightarrow> string \<Rightarrow> storage_error" where
  "due_conflict agent_id intention_id due_key msg =
     Conflict (''pulse_run due_key conflict: agent='' @ agent_id @ '' intention='' @ intention_id @
       '' due='' @ due_key @ '': '' @ msg)"

text \<open>
  SQLite refuses the row when the due index or the primary key is taken; either refusal is a
  constraint violation and answered with the same conflict.
\<close>

definition try_create_pulse_run ::
  "string \<Rightarrow> string \<Rightarrow> string \<Rightarrow> string \<Rightarrow> string \<Rightarrow> string \<Rightarrow> database \<Rightarrow> storage_error + database" where
  "try_create_pulse_run now i agent_id intention_id due_key attention db =
     (if exists_row (\<lambda>r. due_of r = (agent_id, intention_id, due_key)) (pulse_runs db)
      then Inl (due_conflict agent_id intention_id due_key
             ''UNIQUE constraint failed: pulse_runs.agent_id, pulse_runs.intention_id, pulse_runs.due_key'')
      else if exists_row (\<lambda>r. pr_id r = i) (pulse_runs db)
      then Inl (due_conflict agent_id intention_id due_key ''UNIQUE constraint failed: pulse_runs.id'')
      else Inr (db\<lparr>pulse_runs :=
             insert_row (new_pulse_run now i agent_id intention_id due_key attention) (pulse_runs db)\<rparr>))"

section \<open>Settling a run\<close>

definition running_pulse :: "string \<Rightarrow> pulse_row \<Rightarrow> bool" where
  "running_pulse i r = (pr_id r = i \<and> pr_status r = pulse_run_status_display PulseRunning)"

text \<open>\<open>UPDATE pulse_runs SET ... WHERE id = ? AND status = 'running'\<close>\<close>

definition update_running_pulse ::
  "string \<Rightarrow> (pulse_row \<Rightarrow> pulse_row) \<Rightarrow> database \<Rightarrow> storage_error + database" where
  "update_running_pulse i f db =
     (if exists_row (running_pulse i) (pulse_runs db)
      then Inr (db\<lparr>pulse_runs := update_rows (running_pulse i) f (pulse_runs db)\<rparr>)
      else Inl (Conflict (''pulse_run:'' @ i @ '' is not running'')))"

definition update_pulse_run_success ::
  "string \<Rightarrow> string \<Rightarrow> int option \<Rightarrow> string option \<Rightarrow> pulse_output_kind \<Rightarrow> string \<Rightarrow> database \<Rightarrow>
   storage_error + database" where
  "update_pulse_run_success now i chat_id message_id output_kind output_text db =
     update_running_pulse i
       (\<lambda>r. r\<lparr>pr_status := pulse_run_status_display PulseSuccess, pr_finished_at := Some now,
              pr_chat_id := chat_id, pr_message_id := message_id,
              pr_output_kind := Some (pulse_output_kind_display output_kind),
              pr_output_text := Some output_text\<rparr>) db"

definition close_pulse :: "pulse_run_status \<Rightarrow> string \<Rightarrow> string \<Rightarrow> pulse_row \<Rightarrow> pulse_row" where
  "close_pulse status now message r =
     r\<lparr>pr_status := pulse_run_status_display status, pr_finished_at := Some now,
       pr_error_message := Some message\<rparr>"

definition update_pulse_run_failed ::
  "string \<Rightarrow> string \<Rightarrow> string \<Rightarrow> database \<Rightarrow> storage_error + database" where
  "update_pulse_run_failed now i error_message db =
     update_running_pulse i (close_pulse PulseFailed now error_message) db"

definition update_pulse_run_skipped ::
  "string \<Rightarrow> string \<Rightarrow> string \<Rightarrow> database \<Rightarrow> storage_error + database" where
  "update_pulse_run_skipped now i reason db =
     update_running_pulse i (close_pulse PulseSkipped now reason) db"

definition orphaned :: "pulse_row \<Rightarrow> bool" where
  "orphaned r = (pr_status r = pulse_run_status_display PulseRunning)"

definition reap_orphaned_pulse_runs :: "string \<Rightarrow> database \<Rightarrow> int \<times> database" where
  "reap_orphaned_pulse_runs now db =
     (count_rows orphaned (pulse_runs db),
      db\<lparr>pulse_runs := update_rows orphaned
            (close_pulse PulseFailed now ''orphaned: process restarted'') (pulse_runs db)\<rparr>)"

section \<open>Reading\<close>

definition has_pulse_due_run :: "string \<Rightarrow> string \<Rightarrow> string \<Rightarrow> database \<Rightarrow> bool" where
  "has_pulse_due_run agent_id intention_id due_key db =
     (count_rows (\<lambda>r. pr_agent_id r = agent_id \<and> pr_intention_id r = intention_id \<and>
        pr_due_key r = due_key) (pulse_runs db) > 0)"

definition succeeded_for :: "string \<Rightarrow> string \<Rightarrow> pulse_row \<Rightarrow> bool" where
  "succeeded_for agent_id intention_id r =
     (pr_agent_id r = agent_id \<and> pr_intention_id r = intention_id \<and>
      pr_status r = pulse_run_status_display PulseSuccess)"

definition get_last_success_started_at ::
  "(string \<Rightarrow> string + 't) \<Rightarrow> string \<Rightarrow> string \<Rightarrow> database \<Rightarrow> storage_error + 't option" where
  "get_last_success_started_at parse agent_id intention_id db =
     (case listing pr_started_at (succeeded_for agent_id intention_id) (pulse_runs db) of
        [] \<Rightarrow> Inr None
      | r # _ \<Rightarrow>
          (case parse (pr_started_at r) of
             Inr t \<Rightarrow> Inr (Some t)
           | Inl e \<Rightarrow> Inl (InvalidAsset (''corrupt pulse_run started_at value '' @
                        debug_string (pr_started_at r) @ '': '' @ e))))"

definition get_pulse_run :: "string \<Rightarrow> database \<Rightarrow> storage_error + typed_pulse_run option" where
  "get_pulse_run i db =
     (case find_row (\<lambda>r. pr_id r = i) (pulse_runs db) of
        None \<Rightarrow> Inr None
      | Some r \<Rightarrow> rbind (row_to_pulse_run r) (\<lambda>p. Inr (Some p)))"

definition pulse_cursor :: "('s, 'o) pulse_run \<Rightarrow> cursor" where
  "pulse_cursor r = Cursor (pr_started_at r) (pr_id r)"

definition listed_pulse_run ::
  "string \<Rightarrow> string option \<Rightarrow> pulse_run_status list \<Rightarrow> pulse_row \<Rightarrow> bool" where
  "listed_pulse_run agent_id intention_id statuses r =
     (pr_agent_id r = agent_id \<and>
      (case intention_id of None \<Rightarrow> True | Some i \<Rightarrow> pr_intention_id r = i) \<and>
      (statuses = [] \<or> pr_status r \<in> set (map pulse_run_status_display statuses)))"

definition list_pulse_runs ::
  "string \<Rightarrow> string option \<Rightarrow> pulse_run_status list \<Rightarrow> cursor option \<Rightarrow> nat \<Rightarrow> database \<Rightarrow>
   storage_error + typed_pulse_run list" where
  "list_pulse_runs agent_id intention_id statuses before limit db =
     rmap row_to_pulse_run
       (take limit (listing pulse_cursor
          (\<lambda>r. listed_pulse_run agent_id intention_id statuses r \<and> before_cursor pulse_cursor before r)
          (pulse_runs db)))"

text \<open>\<open>ORDER BY last_message_time DESC\<close>; chats of the same instant stay in insertion order.\<close>

definition row_to_chat_info :: "chat_row \<Rightarrow> storage_error + chat_info" where
  "row_to_chat_info c =
     rbind (ok_or (ch_channel c) (Sqlite (InvalidColumnType 1))) (\<lambda>channel.
     rbind (ok_or (ch_external_chat_id c) (Sqlite (InvalidColumnType 2))) (\<lambda>ext.
     Inr \<lparr>ci_chat_id = ch_chat_id c, ci_channel = channel, ci_external_chat_id = ext,
       ci_chat_type = ch_chat_type c, ci_agent_id = ch_agent_id c\<rparr>))"

definition get_agent_chats_by_recent ::
  "string \<Rightarrow> string list \<Rightarrow> database \<Rightarrow> storage_error + chat_info list" where
  "get_agent_chats_by_recent agent_id channels db =
     rmap row_to_chat_info
       (rev (sort_key ch_last_message_time
          (rev (filter (\<lambda>c. ch_agent_id c = agent_id \<and> ch_channel c \<in> set (map Some channels))
          (chats db)))))"

end
