(* ===== verification/Pulse_Due.thy ===== *)
theory Pulse_Due
  imports Pulse_Definition Pulse_Store
begin

text \<open>
  When an intention fires (\<open>src/src/pulse/definition.rs\<close>, second half, and
  \<open>src/src/pulse/next_due.rs\<close>): the due check and the due key of a schedule, the calendar
  estimate, and the next firing as views show it. The calendar and the time zones of the
  \<open>chrono\<close> and \<open>chrono-tz\<close> packages are a record of functions. An instant is a number of
  nanoseconds, a date a day number, a time of day nanoseconds since midnight.
\<close>

section \<open>The calendar\<close>

datatype local_result =
    LocalNone
  | LocalSingle int
  | LocalAmbiguous int int

record 'tz chrono =
  tz_parse :: "string \<Rightarrow> 'tz option"
  tz_utc :: 'tz
  tz_local :: "'tz \<Rightarrow> int \<Rightarrow> int \<times> int"
  tz_resolve :: "'tz \<Rightarrow> int \<Rightarrow> int \<Rightarrow> local_result"
  time_parse :: "string \<Rightarrow> int option"
  date_parse :: "string \<Rightarrow> int option"
  date_format :: "int \<Rightarrow> string"
  iso_week :: "int \<Rightarrow> int \<times> int"
  weekday_of :: "int \<Rightarrow> nat"
  date_max :: int

text \<open>Adding days to a date panics past the largest date; \<open>succ_opt\<close> answers none there.\<close>

datatype fault = Panicked string | StorageFault storage_error

definition date_plus :: "'tz chrono \<Rightarrow> int \<Rightarrow> int \<Rightarrow> fault + int" where
  "date_plus c d n =
     (if d + n \<le> date_max c then Inr (d + n) else Inl (Panicked ''`NaiveDate + TimeDelta` overflowed''))"

definition date_succ :: "'tz chrono \<Rightarrow> int \<Rightarrow> int option" where
  "date_succ c d = (if d < date_max c then Some (d + 1) else None)"

definition local_datetime :: "'tz chrono \<Rightarrow> 'tz \<Rightarrow> int \<Rightarrow> int \<Rightarrow> int option" where
  "local_datetime c tz date time =
     (case tz_resolve c tz date time of
        LocalNone \<Rightarrow> None
      | LocalSingle dt \<Rightarrow> Some dt
      | LocalAmbiguous earliest latest \<Rightarrow> Some earliest)"

definition parse_timezone :: "'tz chrono \<Rightarrow> string \<Rightarrow> 'tz option" where
  "parse_timezone c timezone = tz_parse c timezone"

definition parse_hhmm :: "'tz chrono \<Rightarrow> string \<Rightarrow> int option" where
  "parse_hhmm c at = time_parse c at"

definition parse_weekday :: "string \<Rightarrow> nat option" where
  "parse_weekday day =
     (if day = ''mon'' then Some 0 else if day = ''tue'' then Some 1 else if day = ''wed'' then Some 2
      else if day = ''thu'' then Some 3 else if day = ''fri'' then Some 4 else if day = ''sat'' then Some 5
      else if day = ''sun'' then Some 6 else None)"

section \<open>The due check\<close>

record due_check =
  dc_due :: bool
  dc_due_key :: string

text \<open>\<open>{:02}\<close>\<close>

definition show_02 :: "int \<Rightarrow> string" where
  "show_02 n = (if 0 \<le> n \<and> n < 10 then ''0'' @ show_int n else show_int n)"

definition generate_due_key :: "'tz chrono \<Rightarrow> string \<Rightarrow> temporal_intention \<Rightarrow> int \<Rightarrow> string \<Rightarrow> string" where
  "generate_due_key c agent_id i now timezone =
     (let tz = (case tz_parse c timezone of Some tz \<Rightarrow> tz | None \<Rightarrow> tz_utc c);
          today = fst (tz_local c tz now)
      in agent_id @ '':'' @ ti_id i @ '':'' @
         (case ti_schedule i of
            Daily at \<Rightarrow> date_format c today
          | Interval n at \<Rightarrow> date_format c today
          | Weekly day at \<Rightarrow> show_int (fst (iso_week c today)) @ ''-W'' @ show_02 (snd (iso_week c today))
          | Once date at \<Rightarrow> date))"

definition is_daily_due :: "'tz chrono \<Rightarrow> string \<Rightarrow> int \<Rightarrow> string \<Rightarrow> bool" where
  "is_daily_due c at now timezone =
     (case parse_hhmm c at of
        None \<Rightarrow> False
      | Some time \<Rightarrow>
          (case parse_timezone c timezone of
             None \<Rightarrow> False
           | Some tz \<Rightarrow>
               (case local_datetime c tz (fst (tz_local c tz now)) time of
                  Some target \<Rightarrow> target \<le> now
                | None \<Rightarrow> False)))"

definition is_weekly_due :: "'tz chrono \<Rightarrow> string \<Rightarrow> string \<Rightarrow> int \<Rightarrow> string \<Rightarrow> bool" where
  "is_weekly_due c day at now timezone =
     (case parse_weekday day of
        None \<Rightarrow> False
      | Some target_weekday \<Rightarrow>
          (case parse_timezone c timezone of
             None \<Rightarrow> False
           | Some tz \<Rightarrow>
               if weekday_of c (fst (tz_local c tz now)) \<noteq> target_weekday then False
               else is_daily_due c at now timezone))"

definition is_interval_due ::
  "'tz chrono \<Rightarrow> int \<Rightarrow> string \<Rightarrow> int \<Rightarrow> string \<Rightarrow> int option \<Rightarrow> fault + bool" where
  "is_interval_due c interval_days at now timezone last_success_at =
     (case parse_timezone c timezone of
        None \<Rightarrow> Inr False
      | Some tz \<Rightarrow>
          (let local_today = fst (tz_local c tz now)
           in case last_success_at of
                None \<Rightarrow> Inr (is_daily_due c at now timezone)
              | Some last_success \<Rightarrow>
                  rbind (date_plus c (fst (tz_local c tz last_success)) interval_days) (\<lambda>target_date.
                  if local_today < target_date then Inr False
                  else Inr (is_daily_due c at now timezone))))"

definition is_once_due :: "'tz chrono \<Rightarrow> string \<Rightarrow> string \<Rightarrow> int \<Rightarrow> string \<Rightarrow> bool" where
  "is_once_due c date at now timezone =
     (case (date_parse c date, parse_hhmm c at, parse_timezone c timezone) of
        (Some target_date, Some time, Some tz) \<Rightarrow>
          if fst (tz_local c tz now) \<noteq> target_date then False
          else (case local_datetime c tz target_date time of Some target \<Rightarrow> target \<le> now | None \<Rightarrow> False)
      | _ \<Rightarrow> False)"

definition check_due ::
  "'tz chrono \<Rightarrow> string \<Rightarrow> temporal_intention \<Rightarrow> int \<Rightarrow> string \<Rightarrow> int option \<Rightarrow> fault + due_check" where
  "check_due c agent_id i now timezone last_success_at =
     rbind (case ti_schedule i of
              Daily at \<Rightarrow> Inr (is_daily_due c at now timezone)
            | Weekly day at \<Rightarrow> Inr (is_weekly_due c day at now timezone)
            | Interval n at \<Rightarrow> is_interval_due c n at now timezone last_success_at
            | Once date at \<Rightarrow> Inr (is_once_due c date at now timezone))
       (\<lambda>due. Inr \<lparr>dc_due = due, dc_due_key = generate_due_key c agent_id i now timezone\<rparr>)"

section \<open>The estimate\<close>

text \<open>\<open>?\<close> on an option inside a function that may panic\<close>

definition obind :: "'a option \<Rightarrow> ('a \<Rightarrow> 'e + 'b option) \<Rightarrow> 'e + 'b option" where
  "obind m f = (case m of None \<Rightarrow> Inr None | Some x \<Rightarrow> f x)"

definition estimate_weekly ::
  "'tz chrono \<Rightarrow> 'tz \<Rightarrow> string \<Rightarrow> string \<Rightarrow> int \<Rightarrow> int \<Rightarrow> fault + int option" where
  "estimate_weekly c tz day at now today =
     obind (parse_weekday day) (\<lambda>target_weekday.
     obind (parse_hhmm c at) (\<lambda>time.
     rbind (date_plus c today (int ((target_weekday + 7 - weekday_of c today) mod 7))) (\<lambda>candidate_date.
     obind (local_datetime c tz candidate_date time) (\<lambda>candidate.
     if candidate \<le> now
     then rbind (date_plus c candidate_date 7) (\<lambda>next_date.
          obind (local_datetime c tz next_date time) (\<lambda>candidate. Inr (Some candidate)))
     else Inr (Some candidate)))))"

definition interval_target ::
  "'tz chrono \<Rightarrow> 'tz \<Rightarrow> int \<Rightarrow> int option \<Rightarrow> fault + int option" where
  "interval_target c tz interval_days last_success_at =
     (case last_success_at of
        None \<Rightarrow> Inr None
      | Some s \<Rightarrow> rbind (date_plus c (fst (tz_local c tz s)) interval_days) (\<lambda>d. Inr (Some d)))"

definition estimate_next_due ::
  "'tz chrono \<Rightarrow> temporal_intention \<Rightarrow> int \<Rightarrow> string \<Rightarrow> int option \<Rightarrow> fault + int option" where
  "estimate_next_due c i now timezone last_success_at =
     obind (tz_parse c timezone) (\<lambda>tz.
     let today = fst (tz_local c tz now) in
     case ti_schedule i of
       Daily at \<Rightarrow>
         obind (parse_hhmm c at) (\<lambda>time.
         obind (if snd (tz_local c tz now) < time then Some today else date_succ c today) (\<lambda>candidate_date.
         Inr (local_datetime c tz candidate_date time)))
     | Weekly day at \<Rightarrow> estimate_weekly c tz day at now today
     | Interval n at \<Rightarrow>
         obind (parse_hhmm c at) (\<lambda>time.
         rbind (interval_target c tz n last_success_at) (\<lambda>target_date.
         let candidate_date = (case target_date of Some d \<Rightarrow> max d today | None \<Rightarrow> today) in
         obind (local_datetime c tz candidate_date time) (\<lambda>candidate.
         if candidate \<le> now then Inr (Some now) else Inr (Some candidate))))
     | Once date at \<Rightarrow>
         obind (date_parse c date) (\<lambda>target_date.
         obind (parse_hhmm c at) (\<lambda>time.
         obind (local_datetime c tz target_date time) (\<lambda>candidate.
         Inr (if now < candidate then Some candidate else None)))))"

definition estimate_next_day_at :: "'tz chrono \<Rightarrow> string \<Rightarrow> int \<Rightarrow> string \<Rightarrow> int option" where
  "estimate_next_day_at c at now timezone =
     Option.bind (tz_parse c timezone) (\<lambda>tz.
     Option.bind (parse_hhmm c at) (\<lambda>time.
     Option.bind (date_succ c (fst (tz_local c tz now))) (\<lambda>tomorrow.
     local_datetime c tz tomorrow time)))"

section \<open>The next firing\<close>

datatype next_due =
    DueNow
  | At int
  | AttemptedThisPeriod
  | AttemptedOnce
  | NoUpcoming

definition is_interval :: "temporal_schedule \<Rightarrow> bool" where
  "is_interval s = (case s of Interval _ _ \<Rightarrow> True | _ \<Rightarrow> False)"

definition is_once :: "temporal_schedule \<Rightarrow> bool" where
  "is_once s = (case s of Once _ _ \<Rightarrow> True | _ \<Rightarrow> False)"

text \<open>The last success is looked up for interval schedules only.\<close>

definition last_success_for ::
  "(string \<Rightarrow> string + int) \<Rightarrow> string \<Rightarrow> temporal_intention \<Rightarrow> database \<Rightarrow> fault + int option" where
  "last_success_for parse_rfc3339 agent_id i db =
     (if is_interval (ti_schedule i)
      then map_err StorageFault (get_last_success_started_at parse_rfc3339 agent_id (ti_id i) db)
      else Inr None)"

definition judge_candidate ::
  "'tz chrono \<Rightarrow> string \<Rightarrow> temporal_intention \<Rightarrow> string \<Rightarrow> int \<Rightarrow> bool \<Rightarrow> int option \<Rightarrow> next_due" where
  "judge_candidate c agent_id i timezone now consumed estimate =
     (case estimate of
        None \<Rightarrow> NoUpcoming
      | Some candidate \<Rightarrow>
          if consumed \<and> generate_due_key c agent_id i candidate timezone =
               generate_due_key c agent_id i now timezone
          then (case ti_schedule i of
                  Interval n at \<Rightarrow>
                    (case estimate_next_day_at c at now timezone of
                       None \<Rightarrow> AttemptedThisPeriod
                     | Some t \<Rightarrow> At t)
                | _ \<Rightarrow> AttemptedThisPeriod)
          else if candidate \<le> now then DueNow
          else At candidate)"

definition resolve_next_due ::
  "'tz chrono \<Rightarrow> (string \<Rightarrow> string + int) \<Rightarrow> string \<Rightarrow> temporal_intention \<Rightarrow> string \<Rightarrow> int \<Rightarrow> database \<Rightarrow>
   fault + next_due" where
  "resolve_next_due c parse_rfc3339 agent_id i timezone now db =
     rbind (last_success_for parse_rfc3339 agent_id i db) (\<lambda>last_success_at.
     let consumed = has_pulse_due_run agent_id (ti_id i) (generate_due_key c agent_id i now timezone) db in
     rbind (check_due c agent_id i now timezone last_success_at) (\<lambda>check.
     if dc_due check \<and> \<not> consumed then Inr DueNow
     else if consumed \<and> is_once (ti_schedule i) then Inr AttemptedOnce
     else rbind (estimate_next_due c i now timezone last_success_at) (\<lambda>estimate.
          Inr (judge_candidate c agent_id i timezone now consumed estimate))))"

end
