(* ===== verification/Pulse_Capsule.thy ===== *)
theory Pulse_Capsule
  imports Pulse_Due Model_Step Conversation Chat_Store
begin

text \<open>
  What surrounds an activation: the gate, the home surface and the prompt of
  \<open>src/src/pulse/capsule.rs\<close>, the message id namespace of \<open>src/src/pulse/message_id.rs\<close>, and the
  loop and result of an activation of \<open>src/src/pulse/runner.rs\<close>. The model provider, the tool
  executor and the random part of an id are arguments.
\<close>

section \<open>Gate\<close>

datatype gate_decision = Allow | Duplicate | DeferActive

definition evaluate_gate :: "string \<Rightarrow> string \<Rightarrow> string \<Rightarrow> bool \<Rightarrow> database \<Rightarrow> storage_error + gate_decision" where
  "evaluate_gate agent_id intention_id due_key is_active db =
     (if has_pulse_due_run agent_id intention_id due_key db then Inr Duplicate
      else if is_active then Inr DeferActive
      else Inr Allow)"

section \<open>Home surface\<close>

record home_surface =
  hs_chat_id :: int
  hs_channel :: string
  hs_external_chat_id :: string
  hs_chat_type :: string

definition home_surface_from_chat :: "chat_info \<Rightarrow> home_surface" where
  "home_surface_from_chat c =
     \<lparr>hs_chat_id = ci_chat_id c, hs_channel = ci_channel c,
      hs_external_chat_id = ci_external_chat_id c, hs_chat_type = ci_chat_type c\<rparr>"

definition resolve_explicit ::
  "string \<Rightarrow> delivery_spec \<Rightarrow> string list \<Rightarrow> database \<Rightarrow> storage_error + home_surface option" where
  "resolve_explicit agent_id spec available_channels db =
     (if ds_channel spec \<notin> set available_channels then Inr None
      else if ds_channel spec = ''web''
      then (case parse_web_chat_id (ds_external_chat_id spec) of
              None \<Rightarrow> Inr None
            | Some chat_id \<Rightarrow>
                rbind (get_chat_by_id chat_id db) (\<lambda>chat.
                Inr (case chat of
                       None \<Rightarrow> None
                     | Some info \<Rightarrow>
                         if ci_channel info = ''web'' \<and> ci_agent_id info = agent_id
                         then Some (home_surface_from_chat info) else None)))
      else Inr (map_option home_surface_from_chat
             (get_chat_by_channel_external_and_agent (ds_channel spec)
                (ds_channel spec @ '':'' @ ds_external_chat_id spec @ '':agent:'' @ agent_id) agent_id db)))"

definition resolve_auto ::
  "string \<Rightarrow> string list \<Rightarrow> database \<Rightarrow> storage_error + home_surface option" where
  "resolve_auto agent_id available_channels db =
     (let sendable = filter (\<lambda>c. c \<in> set available_channels) VALID_DELIVERY_CHANNELS
      in if sendable = [] then Inr None
         else rbind (get_agent_chats_by_recent agent_id sendable db) (\<lambda>found.
              Inr (case found of [] \<Rightarrow> None | first # _ \<Rightarrow> Some (home_surface_from_chat first))))"

definition resolve_home_surface ::
  "string \<Rightarrow> string list \<Rightarrow> delivery_spec option \<Rightarrow> database \<Rightarrow> storage_error + home_surface option" where
  "resolve_home_surface agent_id available_channels explicit_delivery db =
     (case explicit_delivery of
        Some spec \<Rightarrow> resolve_explicit agent_id spec available_channels db
      | None \<Rightarrow> resolve_auto agent_id available_channels db)"

section \<open>Capsule\<close>

text \<open>\<open>core_contract\<close> is the text of \<open>pulse_core_contract.md\<close>.\<close>

definition build_capsule ::
  "string \<Rightarrow> string \<Rightarrow> temporal_intention \<Rightarrow> string list \<Rightarrow> home_surface \<Rightarrow> string \<Rightarrow> string" where
  "build_capsule core_contract agent_id i recent_messages home now_rfc3339 =
     ''# Pulse Activation'' @ [LF, LF] @
     ''agent_id: '' @ agent_id @ [LF] @
     ''intention_id: '' @ ti_id i @ [LF] @
     ''trigger: temporal_due'' @ [LF] @
     ''home_surface:'' @ [LF] @
     ''  channel: '' @ hs_channel home @ [LF] @
     ''  external_chat_id: '' @ hs_external_chat_id home @ [LF] @
     ''now: '' @ now_rfc3339 @ [LF, LF] @
     ''## Core Contract'' @ [LF, LF] @ core_contract @ [LF, LF] @
     ''## Temporal Intention'' @ [LF, LF] @ ti_attention i @ [LF, LF] @
     ''## Recent Visible Context'' @ [LF, LF] @
     (if recent_messages = [] then ''No recent context.'' @ [LF, LF]
      else concat (map (\<lambda>m. m @ [LF]) recent_messages) @ [LF])"

section \<open>Message ids\<close>

datatype pulse_role = InputRole | StepRole | OutputRole

fun pulse_role_as_str :: "pulse_role \<Rightarrow> string" where
  "pulse_role_as_str InputRole = ''input''"
| "pulse_role_as_str StepRole = ''step''"
| "pulse_role_as_str OutputRole = ''output''"

definition input_id :: "string \<Rightarrow> string" where
  "input_id run_id = ''pulse:'' @ run_id @ '':input''"

definition step_id :: "string \<Rightarrow> string \<Rightarrow> string" where
  "step_id uuid run_id = ''pulse:'' @ run_id @ '':step:'' @ uuid"

definition tool_result_id :: "string \<Rightarrow> string \<Rightarrow> string" where
  "tool_result_id uuid run_id = ''pulse:'' @ run_id @ '':result:'' @ uuid"

definition output_id :: "string \<Rightarrow> string" where
  "output_id run_id = ''pulse:'' @ run_id @ '':output''"

definition parse_role :: "string \<Rightarrow> pulse_role option" where
  "parse_role kind =
     (case split_once CHR '':'' kind of
        None \<Rightarrow> if kind = ''input'' then Some InputRole
                else if kind = ''output'' then Some OutputRole else None
      | Some (role, suffix) \<Rightarrow>
          if (role = ''step'' \<or> role = ''result'') \<and> suffix \<noteq> [] then Some StepRole else None)"

definition parse_message_id :: "string \<Rightarrow> (string \<times> pulse_role) option" where
  "parse_message_id message_id =
     Option.bind (strip_prefix ''pulse'' message_id) (\<lambda>r.
     Option.bind (strip_prefix '':'' r) (\<lambda>rest.
     Option.bind (split_once CHR '':'' rest) (\<lambda>(run_id, kind).
     if run_id = [] then None else map_option (Pair run_id) (parse_role kind))))"

lemma parse_role_simps:
  "parse_role ''input'' = Some InputRole" "parse_role ''output'' = Some OutputRole"
  "uuid \<noteq> [] \<Longrightarrow> parse_role (''step:'' @ uuid) = Some StepRole"
  "uuid \<noteq> [] \<Longrightarrow> parse_role (''result:'' @ uuid) = Some StepRole"
  using split_once_append [of "CHR '':''" "''step''" uuid] split_once_append [of "CHR '':''" "''result''" uuid]
  by (simp_all add: parse_role_def)

lemma parse_message_id_namespaced:
  assumes "run_id \<noteq> []" "CHR '':'' \<notin> set run_id"
  shows "parse_message_id (''pulse:'' @ run_id @ '':'' @ kind) = map_option (Pair run_id) (parse_role kind)"
proof -
  have "strip_prefix ''pulse'' (''pulse:'' @ run_id @ '':'' @ kind) = Some ('':'' @ run_id @ '':'' @ kind)"
    "strip_prefix '':'' ('':'' @ run_id @ '':'' @ kind) = Some (run_id @ '':'' @ kind)" by simp_all
  then show ?thesis using assms by (simp add: parse_message_id_def)
qed

lemma message_ids_parse:
  assumes "run_id \<noteq> []" "CHR '':'' \<notin> set run_id" "uuid \<noteq> []"
  shows "parse_message_id (input_id run_id) = Some (run_id, InputRole)"
    "parse_message_id (step_id uuid run_id) = Some (run_id, StepRole)"
    "parse_message_id (tool_result_id uuid run_id) = Some (run_id, StepRole)"
    "parse_message_id (output_id run_id) = Some (run_id, OutputRole)"
  using parse_message_id_namespaced [OF assms(1,2), of "''input''"]
    parse_message_id_namespaced [OF assms(1,2), of "''step:'' @ uuid"]
    parse_message_id_namespaced [OF assms(1,2), of "''result:'' @ uuid"]
    parse_message_id_namespaced [OF assms(1,2), of "''output''"]
    parse_role_simps(1,2) parse_role_simps(3,4) [OF assms(3)]
  by (simp_all add: input_id_def step_id_def tool_result_id_def output_id_def)

section \<open>Activation\<close>

record 'j tool_phase =
  tp_assistant_message_id :: string
  tp_assistant_message :: "'j llm_message"
  tp_assistant_preview :: string
  tp_tool_messages :: "'j llm_message list"
  tp_tool_result_preview :: string

record 'j activation_result =
  ar_output_text :: string
  ar_output_kind :: pulse_output_kind
  ar_tool_phases :: "'j tool_phase list"

definition classify_output :: "string \<Rightarrow> pulse_output_kind" where
  "classify_output s =
     (if trim s = [] \<or> eq_ignore_ascii_case (trim s) ''PULSE_OK'' then OutputSilent else OutputNotify)"

definition GUARD_DENIAL_FALLBACK_NOTICE :: string where
  "GUARD_DENIAL_FALLBACK_NOTICE =
     ''Pulse stopped after repeated security-guard denials. No further tools were run; '' @
     ''review the blocked action and decide how to proceed.''"

definition guard_denial_fallback :: "'j tool_phase list \<Rightarrow> 'j activation_result" where
  "guard_denial_fallback phases =
     \<lparr>ar_output_text = GUARD_DENIAL_FALLBACK_NOTICE, ar_output_kind = OutputNotify,
      ar_tool_phases = phases\<rparr>"

definition activation_result_of :: "string \<Rightarrow> 'j tool_phase list \<Rightarrow> bool \<Rightarrow> 'j activation_result" where
  "activation_result_of output_text phases guard_limit_reached =
     (if guard_limit_reached \<and> classify_output output_text = OutputSilent then guard_denial_fallback phases
      else \<lparr>ar_output_text = output_text, ar_output_kind = classify_output output_text,
             ar_tool_phases = phases\<rparr>)"

text \<open>
  The loop over a state \<open>'s\<close> that the model steps and the tools may change: \<open>model\<close> gets the
  request and the tool definitions, \<open>tools\<close> the assistant message id and the calls; \<open>denials\<close> is
  the denial counter that the tools advance.
\<close>

record ('j, 'd, 's) activation_env =
  ae_model :: "nat \<Rightarrow> 'j llm_message list \<Rightarrow> 'd list \<Rightarrow> 's \<Rightarrow> (egopulse_error + 'j model_step) \<times> 's"
  ae_tools :: "string \<Rightarrow> 'j llm_tool_call list \<Rightarrow> 's \<Rightarrow> (egopulse_error + ('j llm_message list \<times> string)) \<times> 's"
  ae_denials :: "'s \<Rightarrow> nat"
  ae_tool_defs :: "'d list"
  ae_step_uuid :: "nat \<Rightarrow> string"

fun activation_loop ::
  "('j, 'd, 's) activation_env \<Rightarrow> string \<Rightarrow> nat list \<Rightarrow> 'j llm_message list \<Rightarrow> 'j tool_phase list \<Rightarrow> 's \<Rightarrow>
   (egopulse_error + 'j activation_result) \<times> 's" where
  "activation_loop env run_id [] ms phases s =
     (if limit_reached (ae_denials env s) then (Inr (guard_denial_fallback phases), s)
      else (Inl (Internal (''pulse tool loop exceeded max iterations ('' @ show_nat MAX_TOOL_ITERATIONS @ '')'')), s))"
| "activation_loop env run_id (iteration # later) ms phases s =
     (let denied = limit_reached (ae_denials env s);
          request = append_guard_denial_wrap (messages_for_iteration ms iteration) denied;
          (step, s) = ae_model env iteration request (apply_guard_denial_state (ae_tool_defs env) denied) s;
          denied = limit_reached (ae_denials env s)
      in case step of
           Inl e \<Rightarrow> if denied then (Inr (guard_denial_fallback phases), s) else (Inl e, s)
         | Inr (FinalStep response) \<Rightarrow> (Inr (activation_result_of (trim (mr_content response)) phases denied), s)
         | Inr (MalformedToolCalls response) \<Rightarrow> (Inr (activation_result_of (trim (mr_content response)) phases denied), s)
         | Inr (ToolCalls phase) \<Rightarrow>
             (let message_id = step_id (ae_step_uuid env iteration) run_id;
                  (outcome, s) = ae_tools env message_id (atph_tool_calls phase) s
              in case outcome of
                   Inl e \<Rightarrow> (Inl e, s)
                 | Inr (tool_messages, result_preview) \<Rightarrow>
                     activation_loop env run_id later (ms @ atph_assistant_message phase # tool_messages)
                       (phases @ [\<lparr>tp_assistant_message_id = message_id, tp_assistant_message = atph_assistant_message phase,
                          tp_assistant_preview = atph_assistant_preview phase, tp_tool_messages = tool_messages,
                          tp_tool_result_preview = result_preview\<rparr>]) s))"

definition run_activation ::
  "('j, 'd, 's) activation_env \<Rightarrow> string \<Rightarrow> string \<Rightarrow> 's \<Rightarrow> (egopulse_error + 'j activation_result) \<times> 's" where
  "run_activation env prompt run_id s =
     activation_loop env run_id [1..<MAX_TOOL_ITERATIONS + 1] [text_message ''user'' prompt] [] s"

text \<open>
  What the loop answers is classified by its text, and it is never silent once the denial limit
  was reached; it ends by itself, with at most \<open>MAX_TOOL_ITERATIONS\<close> model steps.
\<close>

lemma notice_is_shown: "classify_output GUARD_DENIAL_FALLBACK_NOTICE = OutputNotify"
  by code_simp

lemma guard_denial_fallback_kind:
  "ar_output_kind (guard_denial_fallback phases) = OutputNotify"
  "classify_output (ar_output_text (guard_denial_fallback phases)) = OutputNotify"
  by (simp_all add: guard_denial_fallback_def notice_is_shown)

lemma activation_result_kind:
  "ar_output_kind (activation_result_of t phases denied) =
     classify_output (ar_output_text (activation_result_of t phases denied))"
  "classify_output (ar_output_text (activation_result_of t phases True)) = OutputNotify"
  using guard_denial_fallback_kind [of phases]
  by (cases "classify_output t", simp_all add: activation_result_of_def)+

lemma activation_loop_kind:
  "activation_loop env run_id iterations ms phases s = (Inr r, s') \<Longrightarrow>
   ar_output_kind r = classify_output (ar_output_text r) \<and>
   (limit_reached (ae_denials env s') \<longrightarrow> classify_output (ar_output_text r) = OutputNotify)"
proof (induction iterations arbitrary: ms phases s)
  case Nil
  then show ?case by (auto simp: guard_denial_fallback_kind split: if_splits)
next
  case (Cons iteration later)
  from Cons.prems Cons.IH show ?case
    by (auto simp: Let_def guard_denial_fallback_kind activation_result_kind split: prod.splits sum.splits model_step.splits if_splits)
qed

definition pulse_surface_context :: "home_surface \<Rightarrow> string \<Rightarrow> surface_context" where
  "pulse_surface_context home agent_id =
     surface_context_new (hs_channel home) agent_id
       (surface_thread_from_session_key (hs_channel home) (hs_external_chat_id home) agent_id)
       (hs_chat_type home) agent_id"

end
