(* ===== verification/Pulse_Output.thy ===== *)
theory Pulse_Output
  imports Pulse_Capsule Session_Persist
begin

text \<open>
  What becomes of an activation (\<open>src/src/pulse/output.rs\<close>): a silent one only closes its run; a
  notification is sent first, then written into the session as a synthetic turn, and the run is
  closed with it. What other tasks do while the function awaits, the channel adapters, the clock
  and the random ids are fields of the environment, numbered by the point where they are used.
\<close>

record pulse_state =
  ps_world :: world
  ps_files :: pulse_files
  ps_sent :: "(string \<times> string \<times> string) list"

record 'j output_env =
  oe_session :: "'j session_env"
  oe_channels :: "string list"
  oe_send :: "string \<Rightarrow> string \<Rightarrow> string \<Rightarrow> string option"
  oe_status_text :: "nat \<Rightarrow> string"
  oe_settled_at :: string
  oe_clock :: "nat \<Rightarrow> string"
  oe_uuid :: "nat \<Rightarrow> string"
  oe_others :: "nat \<Rightarrow> world \<times> pulse_files \<Rightarrow> world \<times> pulse_files"
  oe_phase_clock :: "nat \<Rightarrow> nat \<Rightarrow> string"
  oe_phase_others :: "nat \<Rightarrow> nat \<Rightarrow> world \<Rightarrow> world"

record output_result =
  or_notified :: bool
  or_chat_id :: "int option"
  or_message_id :: "string option"
  or_output_text :: string
  or_output_kind :: pulse_output_kind

text \<open>Other tasks change the stores; the notifications sent for the intentions are ours alone.\<close>

definition meanwhile :: "(world \<times> pulse_files \<Rightarrow> world \<times> pulse_files) \<Rightarrow> pulse_state \<Rightarrow> pulse_state" where
  "meanwhile f s =
     (let (w, files) = f (ps_world s, ps_files s) in s\<lparr>ps_world := w, ps_files := files\<rparr>)"

text \<open>A write of the database, and what \<open>e.to_string()\<close> gives of an error.\<close>

definition on_db :: "(database \<Rightarrow> storage_error + database) \<Rightarrow> pulse_state \<Rightarrow> (storage_error + unit) \<times> pulse_state" where
  "on_db f s =
     (case f (w_db (ps_world s)) of
        Inl e \<Rightarrow> (Inl e, s)
      | Inr db' \<Rightarrow> (Inr (), s\<lparr>ps_world := (ps_world s)\<lparr>w_db := db'\<rparr>\<rparr>))"

definition error_text :: "('j, 'x) output_env_scheme \<Rightarrow> egopulse_error \<Rightarrow> string" where
  "error_text env e = egopulse_error_display (oe_status_text env) (se_sqlite_text (oe_session env)) e"

section \<open>Silent output\<close>

definition handle_silent ::
  "('j, 'x) output_env_scheme \<Rightarrow> string \<Rightarrow> string \<Rightarrow> pulse_state \<Rightarrow> (egopulse_error + output_result) \<times> pulse_state" where
  "handle_silent env output_text run_id s =
     (case on_db (update_pulse_run_success (oe_settled_at env) run_id None None OutputSilent output_text) s of
        (Inl e, s) \<Rightarrow> (Inl (StorageFailure e), s)
      | (Inr _, s) \<Rightarrow>
          (Inr \<lparr>or_notified = False, or_chat_id = None, or_message_id = None,
             or_output_text = output_text, or_output_kind = OutputSilent\<rparr>, s))"

section \<open>The synthetic turn\<close>

definition format_synthetic_content :: "temporal_intention \<Rightarrow> string" where
  "format_synthetic_content i =
     ''[Pulse: '' @ ti_id i @ '']'' @ [LF] @ ''Schedule: '' @ format_schedule (ti_schedule i) @ [LF] @
     ''Attention:'' @ [LF] @ trim (ti_attention i)"

definition synthetic_input :: "string \<Rightarrow> string \<Rightarrow> temporal_intention \<Rightarrow> int \<Rightarrow> string \<Rightarrow> stored_message" where
  "synthetic_input uuid now i chat_id run_id =
     (stored_message_user uuid now chat_id ''pulse'' (format_synthetic_content i))
       \<lparr>msg_id := input_id run_id, msg_sender_id := ''pulse'', msg_message_kind := SystemEvent\<rparr>"

text \<open>A tool phase: the assistant row with its calls, then the row of the tool results.\<close>

definition persist_tool_phase ::
  "('j, 'x) output_env_scheme \<Rightarrow> string \<Rightarrow> int \<Rightarrow> string \<Rightarrow> nat \<Rightarrow> 'j tool_phase \<Rightarrow> 'j persisted_turn \<Rightarrow> world \<Rightarrow>
   (storage_error + 'j persisted_turn) \<times> world" where
  "persist_tool_phase env agent_id chat_id run_id n phase turn w =
     (let a = 2 * n + 1; b = 2 * n + 2;
          assistant = (stored_message_assistant (oe_uuid env a) (oe_clock env a) chat_id agent_id
              (tp_assistant_preview phase))\<lparr>msg_id := tp_assistant_message_id phase\<rparr>
      in case persist_phase (oe_session env) (oe_phase_clock env a) (oe_phase_others env a) assistant
                (tp_assistant_message phase) (pt_messages turn @ [tp_assistant_message phase])
                (Some (pt_revision turn)) w of
           (Inl e, w) \<Rightarrow> (Inl e, w)
         | (Inr turn, w) \<Rightarrow>
             if tp_tool_messages phase = [] then (Inr turn, w)
             else persist_phase_messages (oe_session env) (oe_phase_clock env b) (oe_phase_others env b)
               ((stored_message_tool_result_preview (oe_uuid env b) (oe_clock env b) chat_id agent_id
                   (truncate_by_chars (tp_tool_result_preview phase) MAX_TOOL_RESULT_TEXT_CHARS)
                   (tp_assistant_message_id phase))\<lparr>msg_id := tool_result_id (oe_uuid env b) run_id\<rparr>)
               (tp_tool_messages phase) (pt_messages turn @ tp_tool_messages phase)
               (Some (pt_revision turn)) w)"

fun persist_tool_phases ::
  "('j, 'x) output_env_scheme \<Rightarrow> string \<Rightarrow> int \<Rightarrow> string \<Rightarrow> nat \<Rightarrow> 'j tool_phase list \<Rightarrow> 'j persisted_turn \<Rightarrow>
   world \<Rightarrow> (storage_error + 'j persisted_turn) \<times> world" where
  "persist_tool_phases env agent_id chat_id run_id n [] turn w = (Inr turn, w)"
| "persist_tool_phases env agent_id chat_id run_id n (phase # phases) turn w =
     (case persist_tool_phase env agent_id chat_id run_id n phase turn w of
        (Inl e, w) \<Rightarrow> (Inl e, w)
      | (Inr turn, w) \<Rightarrow> persist_tool_phases env agent_id chat_id run_id (Suc n) phases turn w)"

definition persist_notification_with_loaded ::
  "('j, 'x) output_env_scheme \<Rightarrow> string \<Rightarrow> temporal_intention \<Rightarrow> int \<Rightarrow> 'j activation_result \<Rightarrow> string \<Rightarrow>
   'j loaded_session \<Rightarrow> world \<Rightarrow> (storage_error + string) \<times> world" where
  "persist_notification_with_loaded env agent_id i chat_id result run_id loaded w =
     (let input = synthetic_input (oe_uuid env 0) (oe_clock env 0) i chat_id run_id;
          message = text_message ''user'' (msg_content input)
      in case persist_phase (oe_session env) (oe_phase_clock env 0) (oe_phase_others env 0) input message
                (ls_messages loaded @ [message]) (ls_session_revision loaded) w of
           (Inl e, w) \<Rightarrow> (Inl e, w)
         | (Inr turn, w) \<Rightarrow>
             (case persist_tool_phases env agent_id chat_id run_id 0 (ar_tool_phases result) turn w of
                (Inl e, w) \<Rightarrow> (Inl e, w)
              | (Inr turn, w) \<Rightarrow>
                  (let n = 2 * length (ar_tool_phases result) + 1;
                       output = (stored_message_assistant (oe_uuid env n) (oe_clock env n) chat_id agent_id
                           (ar_output_text result))\<lparr>msg_id := output_id run_id\<rparr>;
                       answer = text_message ''assistant'' (ar_output_text result)
                   in case persist_phase (oe_session env) (oe_phase_clock env n) (oe_phase_others env n)
                             output answer (pt_messages turn @ [answer]) (Some (pt_revision turn)) w of
                        (Inl e, w) \<Rightarrow> (Inl e, w)
                      | (Inr _, w) \<Rightarrow> (Inr (output_id run_id), w))))"

definition persist_notification_with_session ::
  "('j, 'x) output_env_scheme \<Rightarrow> string \<Rightarrow> temporal_intention \<Rightarrow> int \<Rightarrow> 'j activation_result \<Rightarrow> string \<Rightarrow>
   world \<Rightarrow> (storage_error + string) \<times> world" where
  "persist_notification_with_session env agent_id i chat_id result run_id w =
     (case load_messages_for_turn (oe_session env) chat_id w of
        Inl e \<Rightarrow> (Inl e, w)
      | Inr loaded \<Rightarrow> persist_notification_with_loaded env agent_id i chat_id result run_id loaded w)"

section \<open>Notifications\<close>

definition mark_pulse_run_failed_or_log :: "string \<Rightarrow> string \<Rightarrow> string \<Rightarrow> pulse_state \<Rightarrow> pulse_state" where
  "mark_pulse_run_failed_or_log now run_id error_message s =
     snd (on_db (update_pulse_run_failed now run_id error_message) s)"

text \<open>An adapter that answers no error has delivered the text.\<close>

definition handle_notify ::
  "('j, 'x) output_env_scheme \<Rightarrow> string \<Rightarrow> temporal_intention \<Rightarrow> home_surface \<Rightarrow> 'j activation_result \<Rightarrow> string \<Rightarrow>
   pulse_state \<Rightarrow> (egopulse_error + output_result) \<times> pulse_state" where
  "handle_notify env agent_id i home result run_id s =
     (let output_text = ar_output_text result
      in if hs_channel home \<notin> set (oe_channels env)
         then (let m = ''channel adapter not found: '' @ hs_channel home
               in (Inl (Internal m), mark_pulse_run_failed_or_log (oe_settled_at env) run_id m s))
         else case oe_send env (hs_channel home) (hs_external_chat_id home) output_text of
           Some e \<Rightarrow>
             (let s = meanwhile (oe_others env 0) s
              in (Inl (Internal (''pulse channel send failed: '' @ e)),
                  mark_pulse_run_failed_or_log (oe_settled_at env) run_id (''channel send failed: '' @ e) s))
         | None \<Rightarrow>
             (let s = meanwhile (oe_others env 0)
                  (s\<lparr>ps_sent := ps_sent s @ [(hs_channel home, hs_external_chat_id home, output_text)]\<rparr>);
                  (persisted, w) = persist_notification_with_session env agent_id i (hs_chat_id home)
                     result run_id (ps_world s);
                  s = meanwhile (oe_others env 1) (s\<lparr>ps_world := w\<rparr>)
              in case persisted of
                   Inl e \<Rightarrow>
                     (Inl (StorageFailure e),
                      mark_pulse_run_failed_or_log (oe_settled_at env) run_id (error_text env (StorageFailure e)) s)
                 | Inr message_id \<Rightarrow>
                     (case on_db (update_pulse_run_success (oe_settled_at env) run_id (Some (hs_chat_id home))
                             (Some message_id) OutputNotify output_text) s of
                        (Inl e, s) \<Rightarrow> (Inl (StorageFailure e), s)
                      | (Inr _, s) \<Rightarrow>
                          (Inr \<lparr>or_notified = True, or_chat_id = Some (hs_chat_id home),
                             or_message_id = Some message_id, or_output_text = output_text,
                             or_output_kind = OutputNotify\<rparr>, s))))"

definition handle_output ::
  "('j, 'x) output_env_scheme \<Rightarrow> string \<Rightarrow> temporal_intention \<Rightarrow> home_surface \<Rightarrow> 'j activation_result \<Rightarrow> string \<Rightarrow>
   pulse_state \<Rightarrow> (egopulse_error + output_result) \<times> pulse_state" where
  "handle_output env agent_id i home result run_id s =
     (case ar_output_kind result of
        OutputSilent \<Rightarrow> handle_silent env (ar_output_text result) run_id s
      | OutputNotify \<Rightarrow> handle_notify env agent_id i home result run_id s)"

end
