(* ===== verification/Pulse_Next.thy ===== *)
theory Pulse_Next
  imports Pulse_Due
begin

text \<open>
  The next firing of an intention agrees with the scheduler. What is trusted of the calendar is
  \<open>calendar_ok\<close>: resolving a local time gives an instant with that local time, local dates never
  go back, the day format is injective and weekdays advance by one each day.
\<close>

section \<open>Calendar laws\<close>

definition calendar_ok :: "'tz chrono \<Rightarrow> 'tz \<Rightarrow> bool" where
  "calendar_ok c tz =
     ((\<forall>d t i. tz_resolve c tz d t = LocalSingle i \<longrightarrow> tz_local c tz i = (d, t)) \<and>
      (\<forall>d t e l. tz_resolve c tz d t = LocalAmbiguous e l \<longrightarrow> tz_local c tz e = (d, t)) \<and>
      (\<forall>i j. i \<le> j \<longrightarrow> fst (tz_local c tz i) \<le> fst (tz_local c tz j)) \<and>
      inj (date_format c) \<and>
      (\<forall>d n. weekday_of c (d + int n) = (weekday_of c d + n) mod 7))"

lemma local_datetime_local:
  "calendar_ok c tz \<Longrightarrow> local_datetime c tz d t = Some i \<Longrightarrow> tz_local c tz i = (d, t)"
  by (auto simp: calendar_ok_def local_datetime_def split: local_result.splits)

lemma local_datetime_later:
  assumes "calendar_ok c tz" "local_datetime c tz d t = Some i" "fst (tz_local c tz now) < d"
  shows "now < i"
proof (rule ccontr)
  assume "\<not> now < i"
  then have "fst (tz_local c tz i) \<le> fst (tz_local c tz now)"
    using assms(1) by (simp add: calendar_ok_def)
  then show False using assms(3) local_datetime_local [OF assms(1,2)] by simp
qed

lemma weekday_plus: "calendar_ok c tz \<Longrightarrow> weekday_of c (d + int n) = (weekday_of c d + n) mod 7"
  by (simp add: calendar_ok_def)

lemma weekday_less: "calendar_ok c tz \<Longrightarrow> weekday_of c d < 7"
  using weekday_plus [of c tz d 0] mod_less_divisor [of 7 "weekday_of c d"] by simp

section \<open>The due check at a resolved instant\<close>

lemma obind_Inr_Some: "(obind m f = Inr (Some y)) = (\<exists>x. m = Some x \<and> f x = Inr (Some y))"
  by (cases m) (auto simp: obind_def)

lemma daily_due_iff:
  assumes "tz_parse c timezone = Some tz"
  shows "is_daily_due c at now timezone =
    (\<exists>time target. parse_hhmm c at = Some time \<and>
       local_datetime c tz (fst (tz_local c tz now)) time = Some target \<and> target \<le> now)"
  using assms by (auto simp: is_daily_due_def parse_timezone_def split: option.splits)

lemma daily_due_at:
  assumes "calendar_ok c tz" "tz_parse c timezone = Some tz" "parse_hhmm c at = Some time"
    "local_datetime c tz d time = Some t"
  shows "is_daily_due c at t timezone"
  using local_datetime_local [OF assms(1,4)] assms(2-4) by (auto simp: daily_due_iff)

definition due_at ::
  "'tz chrono \<Rightarrow> temporal_intention \<Rightarrow> int \<Rightarrow> string \<Rightarrow> int option \<Rightarrow> fault + bool" where
  "due_at c i now timezone anchor =
     (case check_due c [] i now timezone anchor of Inl e \<Rightarrow> Inl e | Inr k \<Rightarrow> Inr (dc_due k))"

lemma due_at_check:
  "(check_due c a i now timezone anchor = Inr k) =
     (due_at c i now timezone anchor = Inr (dc_due k) \<and>
      k = \<lparr>dc_due = dc_due k, dc_due_key = generate_due_key c a i now timezone\<rparr>)"
  by (auto simp: due_at_def check_due_def res_simps rbind_def split: sum.splits)

lemma due_at_simps:
  "ti_schedule i = Daily at \<Longrightarrow> due_at c i now timezone anchor = Inr (is_daily_due c at now timezone)"
  "ti_schedule i = Weekly day at \<Longrightarrow> due_at c i now timezone anchor = Inr (is_weekly_due c day at now timezone)"
  "ti_schedule i = Interval n at \<Longrightarrow> due_at c i now timezone anchor = is_interval_due c n at now timezone anchor"
  "ti_schedule i = Once date at \<Longrightarrow> due_at c i now timezone anchor = Inr (is_once_due c date at now timezone)"
  by (auto simp: due_at_def check_due_def rbind_def split: sum.splits)

lemma interval_due:
  assumes "is_daily_due c at t timezone" "tz_parse c timezone = Some tz"
    "interval_target c tz n anchor = Inr target"
    "\<And>x. target = Some x \<Longrightarrow> x \<le> fst (tz_local c tz t)"
  shows "is_interval_due c n at t timezone anchor = Inr True"
proof (cases anchor)
  case None
  then show ?thesis using assms(1,2) by (simp add: is_interval_due_def parse_timezone_def)
next
  case (Some s)
  then obtain x where "date_plus c (fst (tz_local c tz s)) n = Inr x" "target = Some x"
    using assms(3) by (auto simp: interval_target_def res_simps)
  then show ?thesis using Some assms(1,2,4) by (simp add: is_interval_due_def parse_timezone_def)
qed

lemma interval_due_at:
  assumes "calendar_ok c tz" "tz_parse c timezone = Some tz" "parse_hhmm c at = Some time"
    "local_datetime c tz d time = Some t" "interval_target c tz n anchor = Inr target"
    "\<And>x. target = Some x \<Longrightarrow> x \<le> d"
  shows "is_interval_due c n at t timezone anchor = Inr True"
  using interval_due [OF daily_due_at [OF assms(1-4)] assms(2,5)] local_datetime_local [OF assms(1,4)] assms(6)
  by simp

text \<open>A candidate that the estimate answers is due when its instant is reached.\<close>

lemma estimate_weekly_due:
  assumes ok: "calendar_ok c tz" and tz: "tz_parse c timezone = Some tz"
    and e: "estimate_weekly c tz day at now (fst (tz_local c tz now)) = Inr (Some t)"
  shows "now < t \<and> is_weekly_due c day at t timezone"
proof -
  let ?today = "fst (tz_local c tz now)"
  obtain w time where w: "parse_weekday day = Some w" "parse_hhmm c at = Some time"
    using e by (auto simp: estimate_weekly_def obind_Inr_Some)
  let ?n = "(w + 7 - weekday_of c ?today) mod 7"
  have w7: "w < 7" using w(1) by (auto simp: parse_weekday_def split: if_splits)
  have due: "is_weekly_due c day at x timezone"
    if "local_datetime c tz d time = Some x" "weekday_of c d = w" for d x
    using daily_due_at [OF ok tz w(2) that(1)] local_datetime_local [OF ok that(1)] w(1) tz that(2)
    by (simp add: is_weekly_due_def parse_timezone_def)
  have "(weekday_of c ?today + ?n) mod 7 = w"
    using weekday_less [OF ok, of ?today] w7 by (auto simp: mod_simps mod_if split: if_splits)
  then have wd: "weekday_of c (?today + int ?n) = w" by (simp only: weekday_plus [OF ok])
  have "weekday_of c (?today + int ?n + int 7) = w"
    using weekday_plus [OF ok, of "?today + int ?n" 7] wd w7 by simp
  then have wd7: "weekday_of c (?today + int ?n + 7) = w" by simp
  obtain x where x: "local_datetime c tz (?today + int ?n) time = Some x"
    and t: "if x \<le> now then local_datetime c tz (?today + int ?n + 7) time = Some t else t = x"
    using e w by (auto simp: estimate_weekly_def obind_Inr_Some res_simps date_plus_def split: if_splits)
  show ?thesis
  proof (cases "x \<le> now")
    case True
    then have t7: "local_datetime c tz (?today + int ?n + 7) time = Some t" using t by simp
    then show ?thesis using due [OF t7 wd7] local_datetime_later [OF ok t7] by simp
  next
    case False
    then show ?thesis using t due [OF x wd] by simp
  qed
qed

section \<open>The estimate\<close>

lemma estimate_daily:
  assumes ok: "calendar_ok c tz" and tz: "tz_parse c timezone = Some tz"
    and i: "ti_schedule i = Daily at"
    and e: "estimate_next_due c i now timezone anchor = Inr (Some t)"
  shows "is_daily_due c at (if now < t then t else now) timezone"
proof -
  let ?today = "fst (tz_local c tz now)"
  obtain time d where h: "parse_hhmm c at = Some time" "local_datetime c tz d time = Some t"
      "d = ?today \<or> d = ?today + 1"
    using e i tz
    by (auto simp: estimate_next_due_def obind_Inr_Some Let_def date_succ_def split: if_splits)
  show ?thesis
  proof (cases "now < t")
    case True
    then show ?thesis using daily_due_at [OF ok tz h(1,2)] by simp
  next
    case False
    then have "d = ?today" using h(3) local_datetime_later [OF ok h(2)] by auto
    then show ?thesis using False h(1,2) by (auto simp: daily_due_iff [OF tz])
  qed
qed

lemma estimate_interval:
  assumes ok: "calendar_ok c tz" and tz: "tz_parse c timezone = Some tz"
    and i: "ti_schedule i = Interval n at"
    and e: "estimate_next_due c i now timezone anchor = Inr (Some t)"
  obtains target time d x where "interval_target c tz n anchor = Inr target"
    "parse_hhmm c at = Some time" "\<And>y. target = Some y \<Longrightarrow> y \<le> d" "fst (tz_local c tz now) \<le> d"
    "local_datetime c tz d time = Some x" "t = (if x \<le> now then now else x)"
    "x \<le> now \<Longrightarrow> d = fst (tz_local c tz now)"
    "d = fst (tz_local c tz now) \<or> target = Some d"
proof -
  let ?today = "fst (tz_local c tz now)"
  obtain time target where h: "parse_hhmm c at = Some time" "interval_target c tz n anchor = Inr target"
    using e i tz by (auto simp: estimate_next_due_def obind_Inr_Some Let_def res_simps)
  let ?d = "case target of Some d \<Rightarrow> max d ?today | None \<Rightarrow> ?today"
  obtain x where x: "local_datetime c tz ?d time = Some x" "t = (if x \<le> now then now else x)"
    using e i tz h by (auto simp: estimate_next_due_def obind_Inr_Some Let_def split: if_splits)
  have le: "?today \<le> ?d" by (simp split: option.split)
  have now: "?d = ?today" if "x \<le> now"
  proof -
    have "\<not> ?today < ?d" using local_datetime_later [OF ok x(1), of now] that by linarith
    then show ?thesis using le by linarith
  qed
  show ?thesis
    by (rule that [OF h(2,1) _ le x(1,2) now]) (auto simp: max_def split: option.splits)
qed

lemma estimate_due:
  assumes ok: "calendar_ok c tz" and tz: "tz_parse c timezone = Some tz"
    and e: "estimate_next_due c i now timezone anchor = Inr (Some t)"
  shows "due_at c i (if now < t then t else now) timezone anchor = Inr True"
proof (cases "ti_schedule i")
  case (Daily at)
  then show ?thesis using estimate_daily [OF ok tz Daily e] by (simp add: due_at_simps)
next
  case (Weekly day at)
  have "estimate_weekly c tz day at now (fst (tz_local c tz now)) = Inr (Some t)"
    using e tz Weekly by (simp add: estimate_next_due_def obind_def Let_def)
  from estimate_weekly_due [OF ok tz this] show ?thesis by (simp add: due_at_simps(2) [OF Weekly])
next
  case (Interval n at)
  show ?thesis
  proof (rule estimate_interval [OF ok tz Interval e])
    fix target time d x
    assume h: "interval_target c tz n anchor = Inr target" "parse_hhmm c at = Some time"
      "\<And>y. target = Some y \<Longrightarrow> y \<le> d" "local_datetime c tz d time = Some x"
      "t = (if x \<le> now then now else x)" "x \<le> now \<Longrightarrow> d = fst (tz_local c tz now)"
    show ?thesis
    proof (cases "x \<le> now")
      case True
      then have "is_daily_due c at now timezone" using h(2,4,6) by (auto simp: daily_due_iff [OF tz])
      moreover have "target = Some y \<Longrightarrow> y \<le> fst (tz_local c tz now)" for y using h(3,6) True by blast
      ultimately show ?thesis using True h(5) interval_due [OF _ tz h(1)]
        by (simp add: due_at_simps(3) [OF Interval])
    next
      case False
      then show ?thesis using interval_due_at [OF ok tz h(2,4,1,3)] h(5)
        by (simp add: due_at_simps(3) [OF Interval])
    qed
  qed
next
  case (Once date at)
  then obtain d time where h: "date_parse c date = Some d" "parse_hhmm c at = Some time"
      "local_datetime c tz d time = Some t" "now < t"
    using e tz by (auto simp: estimate_next_due_def obind_Inr_Some Let_def split: if_splits)
  then show ?thesis using local_datetime_local [OF ok h(3)] tz
    by (simp add: due_at_simps(4) [OF Once] is_once_due_def parse_timezone_def)
qed

text \<open>The retry of an interval on the next day.\<close>

lemma next_day_due:
  assumes ok: "calendar_ok c tz" and tz: "tz_parse c timezone = Some tz"
    and i: "ti_schedule i = Interval n at"
    and e: "estimate_next_due c i now timezone anchor = Inr (Some u)"
    and key: "generate_due_key c a i u timezone = generate_due_key c a i now timezone"
    and nx: "estimate_next_day_at c at now timezone = Some t"
  shows "now < t \<and> due_at c i t timezone anchor = Inr True"
proof (rule estimate_interval [OF ok tz i e])
  let ?today = "fst (tz_local c tz now)"
  fix target time d x
  assume h: "interval_target c tz n anchor = Inr target" "parse_hhmm c at = Some time"
    "\<And>y. target = Some y \<Longrightarrow> y \<le> d" "local_datetime c tz d time = Some x"
    "u = (if x \<le> now then now else x)" "x \<le> now \<Longrightarrow> d = ?today"
  have "date_format c (fst (tz_local c tz u)) = date_format c ?today"
    using key i tz by (simp add: generate_due_key_def)
  then have "fst (tz_local c tz u) = ?today" using ok by (simp add: calendar_ok_def inj_eq)
  then have d: "d = ?today" using h(5,6) local_datetime_local [OF ok h(4)] by (cases "x \<le> now") auto
  have t: "local_datetime c tz (?today + 1) time = Some t"
    using nx tz h(2) by (auto simp: estimate_next_day_at_def bind_eq_Some_conv date_succ_def split: if_splits)
  have "target = Some y \<Longrightarrow> y \<le> ?today + 1" for y using h(3) d by fastforce
  from interval_due_at [OF ok tz h(2) t h(1) this] local_datetime_later [OF ok t]
  show ?thesis by (simp add: due_at_simps(3) [OF i])
qed

text \<open>A candidate that is not in the future belongs to the current period.\<close>

lemma estimate_past_key:
  assumes ok: "calendar_ok c tz" and tz: "tz_parse c timezone = Some tz"
    and e: "estimate_next_due c i now timezone anchor = Inr (Some u)" and past: "u \<le> now"
  shows "generate_due_key c a i u timezone = generate_due_key c a i now timezone"
proof (cases "ti_schedule i")
  case (Daily at)
  obtain time d where h: "local_datetime c tz d time = Some u"
      "d = fst (tz_local c tz now) \<or> d = fst (tz_local c tz now) + 1"
    using e Daily tz
    by (auto simp: estimate_next_due_def obind_Inr_Some Let_def date_succ_def split: if_splits)
  then have "d = fst (tz_local c tz now)" using past local_datetime_later [OF ok h(1), of now] by linarith
  then show ?thesis using local_datetime_local [OF ok h(1)] Daily tz by (simp add: generate_due_key_def)
next
  case (Weekly day at)
  have "estimate_weekly c tz day at now (fst (tz_local c tz now)) = Inr (Some u)"
    using e tz Weekly by (simp add: estimate_next_due_def obind_def Let_def)
  from estimate_weekly_due [OF ok tz this] past show ?thesis by simp
next
  case (Interval n at)
  then obtain x where "u = (if x \<le> now then now else x)" by (rule estimate_interval [OF ok tz _ e])
  then show ?thesis using past by auto
next
  case (Once date at)
  then show ?thesis using e past tz
    by (auto simp: estimate_next_due_def obind_Inr_Some Let_def split: if_splits)
qed

section \<open>Agreement with the scheduler\<close>

lemma no_zone_not_due:
  "tz_parse c timezone = None \<Longrightarrow> due_at c i now timezone anchor = Inr False"
  by (cases "ti_schedule i")
    (auto simp: due_at_simps is_daily_due_def is_weekly_due_def is_interval_due_def is_once_due_def
      parse_timezone_def split: option.splits)

lemma resolve_sound:
  assumes ok: "\<And>tz. tz_parse c timezone = Some tz \<Longrightarrow> calendar_ok c tz"
    and r: "resolve_next_due c p a i timezone now db = Inr r"
    and l: "last_success_for p a i db = Inr anchor"
  shows "(r = DueNow) = (due_at c i now timezone anchor = Inr True \<and>
      \<not> has_pulse_due_run a (ti_id i) (generate_due_key c a i now timezone) db)"
    and "r = At t \<Longrightarrow> now < t \<and> due_at c i t timezone anchor = Inr True"
proof -
  let ?consumed = "has_pulse_due_run a (ti_id i) (generate_due_key c a i now timezone) db"
  obtain k where k: "check_due c a i now timezone anchor = Inr k"
    using r l by (auto simp: resolve_next_due_def Let_def res_simps)
  have due: "due_at c i now timezone anchor = Inr (dc_due k)" using k by (simp add: due_at_check)
  have est: "\<exists>e. estimate_next_due c i now timezone anchor = Inr e \<and>
      r = judge_candidate c a i timezone now ?consumed e"
    if "\<not> (dc_due k \<and> \<not> ?consumed)" "\<not> (?consumed \<and> is_once (ti_schedule i))"
    using r l k that by (auto simp: resolve_next_due_def Let_def res_simps)
  have at: "now < t \<and> due_at c i t timezone anchor = Inr True" and nd: "r \<noteq> DueNow"
    if open_: "\<not> (dc_due k \<and> \<not> ?consumed)" and rt: "r = At t \<or> r = DueNow" for t
  proof -
    have "\<not> (?consumed \<and> is_once (ti_schedule i))"
      using r l k open_ rt by (auto simp: resolve_next_due_def Let_def)
    from est [OF open_ this] obtain u where u: "estimate_next_due c i now timezone anchor = Inr (Some u)"
        "r = judge_candidate c a i timezone now ?consumed (Some u)"
      using rt by (auto simp: judge_candidate_def split: option.splits)
    then obtain tz where tz: "tz_parse c timezone = Some tz"
      by (auto simp: estimate_next_due_def obind_Inr_Some)
    note e = estimate_due [OF ok [OF tz] tz u(1)]
    show "r \<noteq> DueNow"
    proof
      assume d: "r = DueNow"
      then have "\<not> now < u" using u(2)
        by (auto simp: judge_candidate_def split: if_splits temporal_schedule.splits option.splits)
      then have "dc_due k" using e due by simp
      then have "?consumed" using open_ by simp
      moreover have "generate_due_key c a i u timezone = generate_due_key c a i now timezone"
        using \<open>\<not> now < u\<close> by (intro estimate_past_key [OF ok [OF tz] tz u(1)]) simp
      ultimately show False using u(2) d
        by (auto simp: judge_candidate_def split: temporal_schedule.splits option.splits)
    qed
    then have "r = At t" using rt by simp
    then consider (later) "t = u" "now < u"
      | (retry) n at where "ti_schedule i = Interval n at" "estimate_next_day_at c at now timezone = Some t"
          "generate_due_key c a i u timezone = generate_due_key c a i now timezone"
      using u(2) by (auto simp: judge_candidate_def split: if_splits temporal_schedule.splits option.splits)
    then show "now < t \<and> due_at c i t timezone anchor = Inr True"
    proof cases
      case later
      then show ?thesis using e by simp
    next
      case retry
      show ?thesis by (rule next_day_due [OF ok [OF tz] tz retry(1) u(1) retry(3,2)])
    qed
  qed
  have now: "r = DueNow" if "dc_due k \<and> \<not> ?consumed"
    using r l k that by (simp add: resolve_next_due_def Let_def)
  show "(r = DueNow) = (due_at c i now timezone anchor = Inr True \<and> \<not> ?consumed)"
    using due nd now by auto
  assume t: "r = At t"
  then have "\<not> (dc_due k \<and> \<not> ?consumed)" using now by auto
  then show "now < t \<and> due_at c i t timezone anchor = Inr True" using at t by blast
qed

end
