(* ===== verification/Pulse_Runs.thy ===== *)
theory Pulse_Runs
  imports Pulse_Store
begin

text \<open>
  The step relation of the pulse store and the properties of its runs: a due key is claimed at
  most once, a settled run stays settled, a restart leaves no run open, and the run history is
  read completely page by page.
\<close>

section \<open>The invariant\<close>

definition pulse_row_ok :: "pulse_row \<Rightarrow> bool" where
  "pulse_row_ok r = ((\<exists>s. pr_status r = pulse_run_status_display s) \<and>
     (case pr_output_kind r of None \<Rightarrow> True | Some k \<Rightarrow> \<exists>v. k = pulse_output_kind_display v))"

definition pulse_inv :: "database \<Rightarrow> bool" where
  "pulse_inv db = (distinct (map pr_id (pulse_runs db)) \<and> distinct (map due_of (pulse_runs db)) \<and>
     (\<forall>r \<in> set (pulse_runs db). pulse_row_ok r))"

definition find_pulse :: "string \<Rightarrow> database \<Rightarrow> pulse_row option" where
  "find_pulse i db = find_row (\<lambda>r. pr_id r = i) (pulse_runs db)"

definition pulse_status :: "database \<Rightarrow> string \<Rightarrow> pulse_run_status option" where
  "pulse_status db i =
     Option.bind (find_pulse i db)
       (\<lambda>r. case pulse_run_status_from_str (pr_status r) of Inr s \<Rightarrow> Some s | Inl _ \<Rightarrow> None)"

lemma pulse_inv_empty: "pulse_inv empty_database"
  by (simp add: pulse_inv_def empty_database_def)

lemma pulse_status_iff:
  "(pulse_status db i = Some s) =
     (\<exists>r. find_pulse i db = Some r \<and> pr_status r = pulse_run_status_display s)"
proof (cases "find_pulse i db")
  case (Some r)
  then show ?thesis
    by (cases "pulse_run_status_from_str (pr_status r)") (auto simp: pulse_status_def res_simps)
qed (simp add: pulse_status_def)

lemma pulse_text [simp]:
  "(pulse_run_status_display s = ''running'') = (s = PulseRunning)"
  "(''running'' = pulse_run_status_display s) = (s = PulseRunning)"
  by (cases s; simp)+

lemma pulse_row_ok_status: "pr_output_kind r = None \<Longrightarrow> pr_status r = pulse_run_status_display s \<Longrightarrow> pulse_row_ok r"
  by (auto simp: pulse_row_ok_def)

section \<open>The life cycle\<close>

fun pulse_allowed :: "pulse_run_status \<Rightarrow> pulse_run_status \<Rightarrow> bool" where
  "pulse_allowed PulseRunning t = (t \<noteq> PulseRunning)"
| "pulse_allowed _ t = False"

definition pulse_final :: "pulse_run_status \<Rightarrow> bool" where
  "pulse_final s = (s \<noteq> PulseRunning)"

interpretation pulse_graph: lifecycle_graph pulse_allowed pulse_final
  by unfold_locales (auto simp: pulse_final_def elim: pulse_allowed.elims)

inductive pulse_op :: "database \<Rightarrow> database \<Rightarrow> bool" where
  pulse_create: "try_create_pulse_run now i a n d att db = Inr db' \<Longrightarrow> pulse_op db db'"
| pulse_success: "update_pulse_run_success now i c m k out db = Inr db' \<Longrightarrow> pulse_op db db'"
| pulse_failed: "update_pulse_run_failed now i e db = Inr db' \<Longrightarrow> pulse_op db db'"
| pulse_skipped: "update_pulse_run_skipped now i e db = Inr db' \<Longrightarrow> pulse_op db db'"
| pulse_reap: "reap_orphaned_pulse_runs now db = (n, db') \<Longrightarrow> pulse_op db db'"

text \<open>Every update settles running rows and keeps their id and due key.\<close>

definition settles :: "(pulse_row \<Rightarrow> bool) \<Rightarrow> (pulse_row \<Rightarrow> pulse_row) \<Rightarrow> bool" where
  "settles U f = ((\<forall>r. U r \<longrightarrow> pr_status r = ''running'') \<and>
     (\<exists>t. t \<noteq> PulseRunning \<and> (\<forall>r. pr_status (f r) = pulse_run_status_display t)) \<and>
     (\<forall>r. pr_id (f r) = pr_id r \<and> due_of (f r) = due_of r \<and>
        (pulse_row_ok r \<longrightarrow> pulse_row_ok (f r))))"

lemma running_pulse_running: "running_pulse i r \<Longrightarrow> pr_status r = ''running''"
  by (simp add: running_pulse_def)

lemma settles_close:
  assumes "\<And>r. U r \<Longrightarrow> pr_status r = ''running''" "t \<noteq> PulseRunning"
  shows "settles U (close_pulse t now e)"
  using assms by (auto simp: settles_def close_pulse_def due_of_def pulse_row_ok_def)

lemma settles_success:
  "settles (running_pulse i) (\<lambda>r. r\<lparr>pr_status := pulse_run_status_display PulseSuccess,
     pr_finished_at := Some now, pr_chat_id := c, pr_message_id := m,
     pr_output_kind := Some (pulse_output_kind_display k), pr_output_text := Some out\<rparr>)"
proof -
  have "\<exists>t. t \<noteq> PulseRunning \<and> ''success'' = pulse_run_status_display t"
    by (rule exI [of _ PulseSuccess]) simp
  then show ?thesis
    by (auto simp: settles_def running_pulse_def due_of_def pulse_row_ok_def
        intro: exI [of _ PulseSuccess])
qed

lemma update_running_pulse_Inr:
  "(update_running_pulse i f db = Inr db') = (exists_row (running_pulse i) (pulse_runs db) \<and>
     db' = db\<lparr>pulse_runs := update_rows (running_pulse i) f (pulse_runs db)\<rparr>)"
  by (auto simp: update_running_pulse_def)

lemma pulse_op_cases:
  assumes "pulse_op db db'"
  obtains (new) r where "due_of r \<notin> due_of ` set (pulse_runs db)" "pr_id r \<notin> pr_id ` set (pulse_runs db)"
      "pulse_row_ok r" "db' = db\<lparr>pulse_runs := insert_row r (pulse_runs db)\<rparr>"
    | (upd) U f where "settles U f" "db' = db\<lparr>pulse_runs := update_rows U f (pulse_runs db)\<rparr>"
  using assms
proof (cases rule: pulse_op.cases)
  case (pulse_create now i a n d att)
  show ?thesis
  proof (rule new [of "new_pulse_run now i a n d att"])
    show "pulse_row_ok (new_pulse_run now i a n d att)"
      by (rule pulse_row_ok_status [of _ PulseRunning]) (simp_all add: new_pulse_run_def)
  qed (use pulse_create in \<open>auto simp: try_create_pulse_run_def row_simps due_of_def new_pulse_run_def
        image_iff split: if_splits\<close>)
next
  case (pulse_success now i c m k out)
  then show ?thesis
    by (intro upd [OF settles_success]) (simp add: update_pulse_run_success_def update_running_pulse_Inr)
next
  case (pulse_failed now i e)
  then show ?thesis
    by (intro upd [OF settles_close [OF running_pulse_running]])
      (simp_all add: update_pulse_run_failed_def update_running_pulse_Inr)
next
  case (pulse_skipped now i e)
  then show ?thesis
    by (intro upd [OF settles_close [OF running_pulse_running]])
      (simp_all add: update_pulse_run_skipped_def update_running_pulse_Inr)
next
  case (pulse_reap now n)
  then show ?thesis
    by (intro upd [OF settles_close [of orphaned PulseFailed]])
      (auto simp: reap_orphaned_pulse_runs_def orphaned_def)
qed

lemma pulse_op_inv:
  assumes "pulse_op db db'" "pulse_inv db"
  shows "pulse_inv db'"
  using assms(1)
proof (cases rule: pulse_op_cases)
  case (new r)
  then show ?thesis using assms(2) by (auto simp: pulse_inv_def insert_row_def)
next
  case (upd U f)
  have "map pr_id (pulse_runs db') = map pr_id (pulse_runs db)"
    "map due_of (pulse_runs db') = map due_of (pulse_runs db)"
    using upd by (auto simp: settles_def intro!: map_key_update_rows)
  moreover have "\<forall>r \<in> set (pulse_runs db'). pulse_row_ok r"
    using upd assms(2) by (auto simp: settles_def pulse_inv_def row_simps)
  ultimately show ?thesis using assms(2) by (simp add: pulse_inv_def)
qed

lemma pulse_op_status:
  assumes "pulse_op db db'" "pulse_status db i = Some s"
  shows "\<exists>t. pulse_status db' i = Some t \<and> (t = s \<or> pulse_allowed\<^sup>*\<^sup>* s t)"
  using assms(1)
proof (cases rule: pulse_op_cases)
  case (new r)
  then show ?thesis using assms(2)
    by (auto simp: pulse_status_iff find_pulse_def find_key_insert_row)
next
  case (upd U f)
  obtain r where r: "find_pulse i db = Some r" "pr_status r = pulse_run_status_display s"
    using assms(2) by (auto simp: pulse_status_iff)
  have f: "find_pulse i db' = Some (if U r then f r else r)"
    using r(1) upd by (simp add: find_pulse_def find_row_update_other settles_def)
  show ?thesis
  proof (cases "U r")
    case True
    then have "s = PulseRunning" using upd(1) r(2) by (auto simp: settles_def)
    moreover obtain t where t: "t \<noteq> PulseRunning" "pr_status (f r) = pulse_run_status_display t"
      using upd(1) by (auto simp: settles_def)
    ultimately have "pulse_allowed\<^sup>*\<^sup>* s t" by (intro r_into_rtranclp) simp
    with f True t(2) show ?thesis by (auto simp: pulse_status_iff)
  qed (use f r(2) in \<open>auto simp: pulse_status_iff\<close>)
qed

interpretation pulse_life: lifecycle_store pulse_allowed pulse_final pulse_status pulse_op pulse_inv
  by unfold_locales (auto intro: pulse_op_inv dest: pulse_op_status)

lemma pulse_op_dues:
  assumes "pulse_op db db'"
  shows "due_of ` set (pulse_runs db) \<subseteq> due_of ` set (pulse_runs db')"
  using assms
proof (cases rule: pulse_op_cases)
  case (upd U f)
  then have "map due_of (pulse_runs db') = map due_of (pulse_runs db)"
    by (auto simp: settles_def intro!: map_key_update_rows)
  then show ?thesis by (metis list.set_map order_refl)
qed (auto simp: row_simps)

lemma pulse_ops_dues:
  assumes "pulse_op\<^sup>*\<^sup>* db db'"
  shows "due_of ` set (pulse_runs db) \<subseteq> due_of ` set (pulse_runs db')"
  using assms by (induction rule: rtranclp_induct) (use pulse_op_dues in blast)+

section \<open>Claims\<close>

lemma has_due_iff: "has_pulse_due_run a n d db = ((a, n, d) \<in> due_of ` set (pulse_runs db))"
  by (auto simp: has_pulse_due_run_def count_rows_pos_iff due_of_def)

lemma create_taken:
  "has_pulse_due_run a n d db \<Longrightarrow>
   try_create_pulse_run now i a n d att db = Inl (due_conflict a n d
     ''UNIQUE constraint failed: pulse_runs.agent_id, pulse_runs.intention_id, pulse_runs.due_key'')"
  by (auto simp: try_create_pulse_run_def has_due_iff row_simps)

lemma create_free_iff:
  assumes "i \<notin> pr_id ` set (pulse_runs db)"
  shows "(\<exists>db'. try_create_pulse_run now i a n d att db = Inr db') = (\<not> has_pulse_due_run a n d db)"
  using assms
  by (auto simp: try_create_pulse_run_def has_due_iff row_simps split: if_splits intro: rev_image_eqI)

lemma create_claims: "try_create_pulse_run now i a n d att db = Inr db' \<Longrightarrow> has_pulse_due_run a n d db'"
  by (auto simp: try_create_pulse_run_def has_due_iff row_simps due_of_def new_pulse_run_def split: if_splits)

lemma count_distinct_key:
  "distinct (map key t) \<Longrightarrow> count_rows (\<lambda>r. key r = k) t = (if k \<in> key ` set t then 1 else 0)"
  by (induction t) (auto simp: count_rows_zero_iff)

text \<open>
  A due key of an intention activates at most once: after a claim of it, whatever runs were
  created, settled or reaped since, it has exactly one run, \<open>has_pulse_due_run\<close> says so, and
  every further claim is refused as a conflict; a run under a fresh id is created exactly for
  the keys nobody claimed.
\<close>

theorem pulse_due_key_claimed_once:
  assumes "pulse_inv db" "try_create_pulse_run now i a n d att db = Inr db1" "pulse_op\<^sup>*\<^sup>* db1 db2"
    "i' \<notin> pr_id ` set (pulse_runs db2)"
  shows "has_pulse_due_run a n d db2 \<and>
    count_rows (\<lambda>r. due_of r = (a, n, d)) (pulse_runs db2) = 1 \<and>
    (\<exists>msg. try_create_pulse_run now' u a n d att' db2 = Inl (due_conflict a n d msg)) \<and>
    (\<exists>db3. try_create_pulse_run now' i' a' n' d' att' db2 = Inr db3) =
       (\<not> has_pulse_due_run a' n' d' db2)"
proof -
  have inv: "pulse_inv db2"
    using assms(1-3) pulse_create pulse_op_inv pulse_life.run_invar by blast
  have has: "has_pulse_due_run a n d db2"
    using create_claims [OF assms(2)] pulse_ops_dues [OF assms(3)] by (auto simp: has_due_iff)
  moreover have "count_rows (\<lambda>r. due_of r = (a, n, d)) (pulse_runs db2) = 1"
    using inv has count_distinct_key [of due_of "pulse_runs db2" "(a, n, d)"]
    by (simp add: pulse_inv_def has_due_iff)
  ultimately show ?thesis using create_taken [OF has] create_free_iff [OF assms(4)] by blast
qed

definition sample_pulse :: database where
  "sample_pulse = empty_database\<lparr>pulse_runs :=
     [new_pulse_run ''t1'' ''p1'' ''ana'' ''greet'' ''2026-01-01'' ''say hello'']\<rparr>"

lemma sample_pulse_created:
  "try_create_pulse_run ''t1'' ''p1'' ''ana'' ''greet'' ''2026-01-01'' ''say hello'' empty_database =
   Inr sample_pulse"
  by (simp add: try_create_pulse_run_def exists_row_def empty_database_def sample_pulse_def insert_row_def)

lemma sample_pulse_inv: "pulse_inv sample_pulse"
  using pulse_create [OF sample_pulse_created] pulse_inv_empty by (rule pulse_op_inv)

theorem pulse_due_key_claimed_once_witness:
  "has_pulse_due_run ''ana'' ''greet'' ''2026-01-01'' sample_pulse \<and>
   (\<exists>db3. try_create_pulse_run ''t2'' ''p2'' ''ana'' ''greet'' ''2026-01-02'' ''again'' sample_pulse = Inr db3)"
proof -
  have "''p2'' \<notin> pr_id ` set (pulse_runs sample_pulse)"
    by (simp add: sample_pulse_def new_pulse_run_def)
  moreover have "\<not> has_pulse_due_run ''ana'' ''greet'' ''2026-01-02'' sample_pulse"
    by (simp add: has_due_iff sample_pulse_def new_pulse_run_def due_of_def)
  ultimately show ?thesis
    using pulse_due_key_claimed_once [OF pulse_inv_empty sample_pulse_created rtranclp.rtrancl_refl] by blast
qed

section \<open>Restart\<close>

lemma update_running_refused:
  assumes "pulse_inv db" "pulse_status db i = Some s" "s \<noteq> PulseRunning"
  shows "update_running_pulse i f db = Inl (Conflict (''pulse_run:'' @ i @ '' is not running''))"
proof -
  obtain r where r: "find_pulse i db = Some r" "pr_status r = pulse_run_status_display s"
    using assms(2) by (auto simp: pulse_status_iff)
  have "\<not> running_pulse i x" if "x \<in> set (pulse_runs db)" for x
  proof
    assume x: "running_pulse i x"
    have "find_row (\<lambda>r. pr_id r = pr_id x) (pulse_runs db) = Some x"
      using assms(1) that by (intro find_key_unique) (simp_all add: pulse_inv_def)
    then have "x = r" using r(1) x by (simp add: find_pulse_def running_pulse_def)
    then show False using x r(2) assms(3) by (simp add: running_pulse_def)
  qed
  then show ?thesis by (simp add: update_running_pulse_def row_simps)
qed

lemma reap_status:
  assumes "pulse_status db i = Some s"
  shows "pulse_status (snd (reap_orphaned_pulse_runs now db)) i =
    Some (if s = PulseRunning then PulseFailed else s)"
proof -
  obtain r where r: "find_pulse i db = Some r" "pr_status r = pulse_run_status_display s"
    using assms by (auto simp: pulse_status_iff)
  have "find_pulse i (snd (reap_orphaned_pulse_runs now db)) =
      map_option (\<lambda>r. if orphaned r then close_pulse PulseFailed now ''orphaned: process restarted'' r else r)
        (find_pulse i db)"
    by (simp add: find_pulse_def reap_orphaned_pulse_runs_def find_row_update_other close_pulse_def)
  with r show ?thesis by (auto simp: pulse_status_iff orphaned_def close_pulse_def)
qed

text \<open>
  A restart leaves no pulse run open: reaping fails exactly the runs that were running,
  answers their number and leaves every other row as it is; after any further operations no
  late result of a reaped or settled run is accepted, and reaping again finds nothing.
\<close>

theorem restart_reaps_pulse_runs:
  assumes "pulse_inv db" "reap_orphaned_pulse_runs now db = (n, db1)" "pulse_status db i = Some s"
    "pulse_op\<^sup>*\<^sup>* db1 db2"
  shows "n = count_rows (\<lambda>r. pr_status r = ''running'') (pulse_runs db) \<and>
    pulse_status db1 i = Some (if s = PulseRunning then PulseFailed else s) \<and>
    filter (\<lambda>r. pr_status r \<noteq> ''running'') (pulse_runs db) =
      map snd (filter (\<lambda>(r, _). pr_status r \<noteq> ''running'') (zip (pulse_runs db) (pulse_runs db1))) \<and>
    pulse_status db2 i = pulse_status db1 i \<and>
    update_pulse_run_success now' i c m k out db2 = Inl (Conflict (''pulse_run:'' @ i @ '' is not running'')) \<and>
    reap_orphaned_pulse_runs now' db1 = (0, db1)"
proof -
  have db1: "db1 = snd (reap_orphaned_pulse_runs now db)" using assms(2) by simp
  have inv1: "pulse_inv db1" using assms(2,1) pulse_reap pulse_op_inv by blast
  let ?t = "if s = PulseRunning then PulseFailed else s"
  have st: "pulse_status db1 i = Some ?t" using reap_status [OF assms(3)] db1 by simp
  have fin: "pulse_status db2 i = Some ?t"
    by (rule pulse_life.run_final [OF assms(4) inv1 st]) (simp add: pulse_final_def)
  have "update_pulse_run_success now' i c m k out db2 = Inl (Conflict (''pulse_run:'' @ i @ '' is not running''))"
    using update_running_refused [OF pulse_life.run_invar [OF assms(4) inv1] fin]
    by (simp add: update_pulse_run_success_def)
  moreover have "map snd (filter (\<lambda>(r, _). pr_status r \<noteq> ''running'') (zip rs
      (update_rows orphaned f rs))) = filter (\<lambda>r. pr_status r \<noteq> ''running'') rs" for rs f
    by (induction rs) (auto simp: orphaned_def)
  moreover have "\<not> orphaned r" if "r \<in> set (pulse_runs db1)" for r
    using that assms(2) by (auto simp: reap_orphaned_pulse_runs_def row_simps close_pulse_def orphaned_def)
  then have "reap_orphaned_pulse_runs now' db1 = (0, db1)"
    using update_rows_none [of "pulse_runs db1" orphaned]
    by (simp add: reap_orphaned_pulse_runs_def count_rows_zero_iff)
  moreover have "orphaned = (\<lambda>r. pr_status r = ''running'')" by (rule ext) (simp add: orphaned_def)
  then have "n = count_rows (\<lambda>r. pr_status r = ''running'') (pulse_runs db)"
    using assms(2) by (auto simp: reap_orphaned_pulse_runs_def)
  moreover have "pulse_runs db1 = update_rows orphaned
      (close_pulse PulseFailed now ''orphaned: process restarted'') (pulse_runs db)"
    using assms(2) by (auto simp: reap_orphaned_pulse_runs_def)
  ultimately show ?thesis using st fin by simp
qed

theorem restart_reaps_pulse_runs_witness:
  "fst (reap_orphaned_pulse_runs ''t9'' sample_pulse) = 1 \<and>
   pulse_status (snd (reap_orphaned_pulse_runs ''t9'' sample_pulse)) ''p1'' = Some PulseFailed"
proof -
  have "pulse_status sample_pulse ''p1'' = Some PulseRunning"
    by (simp add: pulse_status_iff find_pulse_def sample_pulse_def new_pulse_run_def)
  from restart_reaps_pulse_runs [OF sample_pulse_inv prod.collapse [symmetric] this rtranclp.rtrancl_refl]
  show ?thesis by (simp add: sample_pulse_def new_pulse_run_def)
qed

section \<open>The run history\<close>

lemma row_to_pulse_total: "pulse_row_ok r \<Longrightarrow> \<exists>p. row_to_pulse_run r = Inr p"
  by (auto simp: pulse_row_ok_def row_to_pulse_run_def parse_output_kind_def parse_row_enum_def
      map_err_def split: option.splits)

definition typed_pulse :: "pulse_row \<Rightarrow> typed_pulse_run" where
  "typed_pulse r = (case row_to_pulse_run r of Inr p \<Rightarrow> p | Inl _ \<Rightarrow> undefined)"

lemma row_to_pulse_typed: "pulse_row_ok r \<Longrightarrow> row_to_pulse_run r = Inr (typed_pulse r)"
  using row_to_pulse_total by (fastforce simp: typed_pulse_def)

lemma row_to_pulse_cursor: "row_to_pulse_run r = Inr p \<Longrightarrow> pulse_cursor p = pulse_cursor r"
  by (auto simp: row_to_pulse_run_def res_simps pulse_cursor_def)

definition pulse_history ::
  "string \<Rightarrow> string option \<Rightarrow> pulse_run_status list \<Rightarrow> database \<Rightarrow> typed_pulse_run list" where
  "pulse_history a n statuses db =
     map typed_pulse (listing pulse_cursor (listed_pulse_run a n statuses) (pulse_runs db))"

definition pulse_page ::
  "string \<Rightarrow> string option \<Rightarrow> pulse_run_status list \<Rightarrow> cursor option \<Rightarrow> nat \<Rightarrow> database \<Rightarrow>
   typed_pulse_run list" where
  "pulse_page a n statuses c k db =
     (case list_pulse_runs a n statuses c k db of Inr rs \<Rightarrow> rs | Inl _ \<Rightarrow> [])"

interpretation pulse_pages: keyset_reader "\<lambda>a b. b < a" pulse_cursor pulse_inv
    "pulse_history agent intention statuses" "pulse_page agent intention statuses"
  for agent intention statuses
proof
  fix db and cur :: "cursor option" and n
  assume inv: "pulse_inv db"
  note typed = row_to_pulse_typed row_to_pulse_cursor [OF row_to_pulse_typed]
  have "list_pulse_runs agent intention statuses cur n db =
      Inr (take n (filter (before_cursor pulse_cursor cur) (pulse_history agent intention statuses db)))"
    unfolding list_pulse_runs_def pulse_history_def using inv
    by (intro typed_page typed) (auto simp: pulse_inv_def)
  then show "pulse_page agent intention statuses cur n db =
      take n (filter (comes_after (\<lambda>a b. b < a) pulse_cursor cur) (pulse_history agent intention statuses db))"
    unfolding comes_before by (simp add: pulse_page_def)
  have "distinct (map pr_id rows) \<Longrightarrow> distinct (map pulse_cursor rows)" for rows :: "pulse_row list"
    by (induction rows) (auto simp: pulse_cursor_def)
  then show "sorted_wrt (\<lambda>r s. pulse_cursor s < pulse_cursor r) (pulse_history agent intention statuses db)"
    unfolding pulse_history_def using inv
    by (intro typed_listing_sorted typed(2)) (auto simp: pulse_inv_def)
qed auto

lemma pulse_history_pages:
  assumes "pulse_inv db" "0 < n" "length (pulse_runs db) < fuel"
  shows "read_pages (\<lambda>c. pulse_page a i statuses c n db) pulse_cursor fuel None = pulse_history a i statuses db"
  using length_listing [of pulse_cursor "listed_pulse_run a i statuses" "pulse_runs db"] assms(3)
  by (intro pulse_pages.read_all [OF assms(1,2)]) (simp add: pulse_history_def)

text \<open>What an interval schedule is measured from: the latest start of a successful run.\<close>

lemma last_success_latest:
  "get_last_success_started_at (\<lambda>s. Inr s) a n db =
    Inr (if \<exists>r \<in> set (pulse_runs db). succeeded_for a n r
         then Some (Max (pr_started_at ` {r \<in> set (pulse_runs db). succeeded_for a n r})) else None)"
proof (cases "listing pr_started_at (succeeded_for a n) (pulse_runs db)")
  case Nil
  then have "{r \<in> set (pulse_runs db). succeeded_for a n r} = {}" by (metis list.set(1) set_listing)
  then show ?thesis using Nil by (auto simp: get_last_success_started_at_def)
next
  case (Cons r rs)
  let ?S = "{r \<in> set (pulse_runs db). succeeded_for a n r}"
  have S: "?S = insert r (set rs)" using Cons by (metis list.simps(15) set_listing)
  have "sorted (map pr_started_at (rev (r # rs)))"
    using Cons by (metis listing_def rev_rev_ident sorted_sort_key)
  then have "\<forall>x \<in> set rs. pr_started_at x \<le> pr_started_at r" by (auto simp: sorted_append)
  then have "Max (pr_started_at ` ?S) = pr_started_at r" unfolding S by (intro Max_eqI) auto
  moreover have "\<exists>r \<in> set (pulse_runs db). succeeded_for a n r" using S by auto
  ultimately show ?thesis using Cons by (simp add: get_last_success_started_at_def)
qed

section \<open>Every stored run is readable\<close>

lemma row_to_pulse_fields:
  "row_to_pulse_run r = Inr p \<Longrightarrow> pr_id p = pr_id r \<and> pr_agent_id p = pr_agent_id r \<and>
    pr_status r = pulse_run_status_display (pr_status p)"
  by (auto simp: row_to_pulse_run_def res_simps)

text \<open>
  C39: The stored text columns always have the types the code reads them at: whatever operations
  ran on a fresh database, every run can be read back as a typed run, and every listing answers
  at most as many runs as asked for, each of the asked agent and in one of the asked states.
\<close>

theorem stored_pulse_runs_typed:
  assumes "pulse_op\<^sup>*\<^sup>* empty_database db"
  shows "(\<exists>found. get_pulse_run i db = Inr found \<and>
      (found = None) = (i \<notin> pr_id ` set (pulse_runs db)) \<and> (\<forall>p. found = Some p \<longrightarrow> pr_id p = i)) \<and>
    (\<exists>runs. list_pulse_runs a n statuses cur limit db = Inr runs \<and> length runs \<le> limit \<and>
      list_all (\<lambda>p. pr_agent_id p = a \<and> (statuses = [] \<or> pr_status p \<in> set statuses)) runs)"
proof
  have ok: "pulse_row_ok r" if "r \<in> set (pulse_runs db)" for r
    using pulse_life.run_invar [OF assms pulse_inv_empty] that by (simp add: pulse_inv_def)
  show "\<exists>found. get_pulse_run i db = Inr found \<and>
      (found = None) = (i \<notin> pr_id ` set (pulse_runs db)) \<and> (\<forall>p. found = Some p \<longrightarrow> pr_id p = i)"
  proof (cases "find_row (\<lambda>r. pr_id r = i) (pulse_runs db)")
    case None
    then have "i \<notin> pr_id ` set (pulse_runs db)" by (auto simp: find_row_None_iff)
    then show ?thesis using None by (simp add: get_pulse_run_def)
  next
    case (Some r)
    note r = find_row_Some [OF Some]
    then obtain p where p: "row_to_pulse_run r = Inr p" using row_to_pulse_total ok by blast
    then show ?thesis using Some r row_to_pulse_fields [OF p] by (auto simp: get_pulse_run_def)
  qed
  let ?rows = "take limit (listing pulse_cursor (\<lambda>r. listed_pulse_run a n statuses r \<and>
      before_cursor pulse_cursor cur r) (pulse_runs db))"
  have rows: "r \<in> set (pulse_runs db) \<and> listed_pulse_run a n statuses r" if "r \<in> set ?rows" for r
    using that by (auto dest!: in_set_takeD)
  then obtain runs where runs: "rmap row_to_pulse_run ?rows = Inr runs"
    using rmap_total [of ?rows row_to_pulse_run] ok row_to_pulse_total by blast
  have "pr_agent_id p = a \<and> (statuses = [] \<or> pr_status p \<in> set statuses)" if p: "p \<in> set runs" for p
  proof -
    obtain r where "r \<in> set ?rows" "row_to_pulse_run r = Inr p" using rmap_member [OF runs p] by blast
    then show ?thesis using rows [of r] row_to_pulse_fields [of r p] by (auto simp: listed_pulse_run_def)
  qed
  moreover have "length runs \<le> limit" using rmap_Inr_length [OF runs] by simp
  ultimately show "\<exists>runs. list_pulse_runs a n statuses cur limit db = Inr runs \<and> length runs \<le> limit \<and>
      list_all (\<lambda>p. pr_agent_id p = a \<and> (statuses = [] \<or> pr_status p \<in> set statuses)) runs"
    using runs by (auto simp: list_pulse_runs_def list_all_iff)
qed

theorem stored_pulse_runs_typed_witness:
  "(\<exists>p. get_pulse_run ''p1'' sample_pulse = Inr (Some p) \<and> pr_id p = ''p1'') \<and>
   (\<exists>runs. list_pulse_runs ''ana'' None [PulseRunning] None 5 sample_pulse = Inr runs \<and>
     list_all (\<lambda>p. pr_status p = PulseRunning) runs)"
proof -
  have "pulse_op empty_database sample_pulse" using sample_pulse_created by (rule pulse_create)
  then have run: "pulse_op\<^sup>*\<^sup>* empty_database sample_pulse" by blast
  have "''p1'' \<in> pr_id ` set (pulse_runs sample_pulse)" by (simp add: sample_pulse_def new_pulse_run_def)
  with stored_pulse_runs_typed [OF run, of "''p1''" "''ana''" None "[PulseRunning]" None 5]
  show ?thesis by (auto simp: list_all_iff)
qed

end
