(* ===== verification/Pulse_Scan.thy ===== *)
theory Pulse_Scan
  imports Pulse_Output Pulse_Next Pulse_Runs
begin

text \<open>
  The scan of \<open>src/src/pulse/scheduler.rs\<close>: for every enabled intention of every agent the due
  check, the gate, the claim of the due key, the home surface, the guarded activation, the output
  and the archive of a fired reminder; and the delay until the next scan.
\<close>

section \<open>The activation guard\<close>

datatype panic_payload = StrPayload string | StringPayload string | OtherPayload

fun extract_panic_message :: "panic_payload \<Rightarrow> string" where
  "extract_panic_message (StrPayload s) = s"
| "extract_panic_message (StringPayload s) = s"
| "extract_panic_message OtherPayload = ''unknown panic payload''"

text \<open>How the guarded future ended: with its own answer, at the timeout, or by a panic.\<close>

datatype 'j activation_outcome =
    Answered "egopulse_error + 'j activation_result"
  | Elapsed
  | PanickedWith panic_payload

definition PULSE_ACTIVATION_TIMEOUT :: nat where
  "PULSE_ACTIVATION_TIMEOUT = 30 * 60"

definition guard_activation :: "nat \<Rightarrow> 'j activation_outcome \<Rightarrow> egopulse_error + 'j activation_result" where
  "guard_activation timeout outcome =
     (case outcome of
        Answered result \<Rightarrow> result
      | Elapsed \<Rightarrow> Inl (Internal (''pulse activation timeout after '' @ show_nat timeout @ ''s''))
      | PanickedWith p \<Rightarrow> Inl (Internal (''pulse activation panicked: '' @ extract_panic_message p)))"

section \<open>One intention\<close>

record ('j, 'tz) scan_env = "'j output_env" +
  sn_chrono :: "'tz chrono"
  sn_parse_rfc3339 :: "string \<Rightarrow> string + int"
  sn_core_contract :: string
  sn_now_rfc3339 :: string
  sn_created_at :: string
  sn_active :: bool
  sn_awaits :: "nat \<Rightarrow> world \<times> pulse_files \<Rightarrow> world \<times> pulse_files"
  sn_activate :: "string \<Rightarrow> string \<Rightarrow> home_surface \<Rightarrow> string \<Rightarrow> world \<times> pulse_files \<Rightarrow>
    'j activation_outcome \<times> world \<times> pulse_files"
  sn_from_yaml :: "string \<Rightarrow> string + document_raw"
  sn_to_yaml :: "document_raw \<Rightarrow> string + string"
  sn_parse_date :: "string \<Rightarrow> int option"
  sn_write_error :: "string option"

abbreviation db_of :: "pulse_state \<Rightarrow> database" where
  "db_of s \<equiv> w_db (ps_world s)"

definition load_recent_messages :: "int \<Rightarrow> database \<Rightarrow> string list" where
  "load_recent_messages chat_id db =
     (case get_recent_context_messages chat_id 10 db of Inl _ \<Rightarrow> [] | Inr ms \<Rightarrow> map msg_content ms)"

text \<open>Marking the run skipped or failed; a refusal is only logged.\<close>

definition mark_run :: "(database \<Rightarrow> storage_error + database) \<Rightarrow> pulse_state \<Rightarrow> pulse_state" where
  "mark_run f s = snd (on_db f s)"

definition archive_fired :: "('j, 'tz) scan_env \<Rightarrow> string \<Rightarrow> temporal_intention \<Rightarrow> pulse_state \<Rightarrow> pulse_state" where
  "archive_fired env agent_id i s =
     (if is_once (ti_schedule i)
      then let s = meanwhile (sn_awaits env 6) s
           in case archive_intention (sn_from_yaml env) (sn_parse_date env) (sn_to_yaml env)
                  (sn_write_error env) agent_id i (ps_files s) of
                Inl _ \<Rightarrow> s
              | Inr (_, files) \<Rightarrow> s\<lparr>ps_files := files\<rparr>
      else s)"

definition activate_run ::
  "('j, 'tz) scan_env \<Rightarrow> nat \<Rightarrow> string \<Rightarrow> temporal_intention \<Rightarrow> delivery_spec option \<Rightarrow> string \<Rightarrow>
   pulse_state \<Rightarrow> pulse_state" where
  "activate_run env timeout agent_id i default_delivery run_id s =
     (let s = meanwhile (sn_awaits env 3) s;
          explicit = (case ti_delivery i of Some d \<Rightarrow> Some d | None \<Rightarrow> default_delivery);
          home = resolve_home_surface agent_id (oe_channels env) explicit (db_of s);
          s = meanwhile (sn_awaits env 4) s
      in case home of
           Inl _ \<Rightarrow> mark_run (update_pulse_run_skipped (oe_settled_at env) run_id
                     ''home surface resolution failed'') s
         | Inr None \<Rightarrow>
             mark_run (update_pulse_run_skipped (oe_settled_at env) run_id
               (if explicit \<noteq> None then ''explicit delivery could not be resolved''
                else ''no sendable home surface'')) s
         | Inr (Some home) \<Rightarrow>
             (let prompt = build_capsule (sn_core_contract env) agent_id i
                    (load_recent_messages (hs_chat_id home) (db_of s)) home (sn_now_rfc3339 env);
                  (outcome, w, files) = sn_activate env agent_id prompt home run_id (ps_world s, ps_files s);
                  s = meanwhile (sn_awaits env 5) (s\<lparr>ps_world := w, ps_files := files\<rparr>)
              in case guard_activation timeout outcome of
                   Inl e \<Rightarrow> mark_run (update_pulse_run_failed (oe_settled_at env) run_id (error_text env e)) s
                 | Inr result \<Rightarrow>
                     (case handle_output env agent_id i home result run_id s of
                        (Inl _, s) \<Rightarrow> s
                      | (Inr _, s) \<Rightarrow> archive_fired env agent_id i s)))"

definition attempt_due ::
  "('j, 'tz) scan_env \<Rightarrow> nat \<Rightarrow> string \<Rightarrow> temporal_intention \<Rightarrow> delivery_spec option \<Rightarrow> string \<Rightarrow> string \<Rightarrow>
   pulse_state \<Rightarrow> pulse_state" where
  "attempt_due env timeout agent_id i default_delivery due_key run_id s =
     (let s = meanwhile (sn_awaits env 1) s
      in case evaluate_gate agent_id (ti_id i) due_key (sn_active env) (db_of s) of
           Inl _ \<Rightarrow> s
         | Inr Duplicate \<Rightarrow> s
         | Inr DeferActive \<Rightarrow> s
         | Inr Allow \<Rightarrow>
             (let s = meanwhile (sn_awaits env 2) s
              in case on_db (try_create_pulse_run (sn_created_at env) run_id agent_id (ti_id i) due_key
                        (ti_attention i)) s of
                   (Inl _, s) \<Rightarrow> s
                 | (Inr _, s) \<Rightarrow> activate_run env timeout agent_id i default_delivery run_id s))"

definition process_intention ::
  "('j, 'tz) scan_env \<Rightarrow> nat \<Rightarrow> string \<Rightarrow> temporal_intention \<Rightarrow> delivery_spec option \<Rightarrow> string \<Rightarrow> int \<Rightarrow> string \<Rightarrow>
   pulse_state \<Rightarrow> fault + pulse_state" where
  "process_intention env timeout agent_id i default_delivery timezone now run_id s =
     (if \<not> ti_enabled i then Inr s
      else let s = meanwhile (sn_awaits env 0) s
           in case last_success_for (sn_parse_rfc3339 env) agent_id i (db_of s) of
                Inl _ \<Rightarrow> Inr s
              | Inr last_success_at \<Rightarrow>
                  rbind (check_due (sn_chrono env) agent_id i now timezone last_success_at) (\<lambda>check.
                  if \<not> dc_due check then Inr s
                  else Inr (attempt_due env timeout agent_id i default_delivery (dc_due_key check) run_id s)))"

section \<open>Scans\<close>

text \<open>Each intention is processed in an environment and with a random run id of its own.\<close>

fun scan_intentions ::
  "(nat \<Rightarrow> ('j, 'tz) scan_env \<times> string) \<Rightarrow> string \<Rightarrow> delivery_spec option \<Rightarrow> string \<Rightarrow> int \<Rightarrow> nat \<Rightarrow>
   temporal_intention list \<Rightarrow> pulse_state \<Rightarrow> fault + pulse_state" where
  "scan_intentions envs agent_id default_delivery timezone now n [] s = Inr s"
| "scan_intentions envs agent_id default_delivery timezone now n (i # is) s =
     rbind (process_intention (fst (envs n)) PULSE_ACTIVATION_TIMEOUT agent_id i default_delivery
              timezone now (snd (envs n)) s)
       (scan_intentions envs agent_id default_delivery timezone now (Suc n) is)"

definition scan_agent ::
  "(nat \<Rightarrow> ('j, 'tz) scan_env \<times> string) \<Rightarrow> string \<Rightarrow> string \<Rightarrow> int \<Rightarrow> pulse_state \<Rightarrow> fault + pulse_state" where
  "scan_agent envs agent_id timezone now s =
     (case load_pulse_definition (sn_from_yaml (fst (envs 0))) (sn_parse_date (fst (envs 0)))
             (ps_files s) agent_id of
        Inl _ \<Rightarrow> Inr s
      | Inr d \<Rightarrow>
          if \<not> pd_enabled d then Inr s
          else if pd_intentions d = [] then Inr s
          else scan_intentions envs agent_id (pd_default_delivery d) timezone now 0 (pd_intentions d) s)"

fun run_pulse_scan ::
  "(string \<Rightarrow> nat \<Rightarrow> ('j, 'tz) scan_env \<times> string) \<Rightarrow> string list \<Rightarrow> string \<Rightarrow> int \<Rightarrow> pulse_state \<Rightarrow>
   fault + pulse_state" where
  "run_pulse_scan envs [] timezone now s = Inr s"
| "run_pulse_scan envs (agent_id # agents) timezone now s =
     rbind (scan_agent (envs agent_id) agent_id timezone now s)
       (run_pulse_scan envs agents timezone now)"

section \<open>The next scan\<close>

definition earlier_due ::
  "'tz chrono \<Rightarrow> string \<Rightarrow> int \<Rightarrow> temporal_intention \<Rightarrow> int option \<Rightarrow> fault + int option" where
  "earlier_due c timezone now i earliest =
     (if \<not> ti_enabled i then Inr earliest
      else if \<not> is_once (ti_schedule i) then Inr earliest
      else rbind (estimate_next_due c i now timezone None) (\<lambda>estimate.
           Inr (case estimate of
                  None \<Rightarrow> earliest
                | Some due \<Rightarrow>
                    if due \<le> now then earliest
                    else Some (case earliest of None \<Rightarrow> due | Some current \<Rightarrow> min current due))))"

definition earliest_once_due ::
  "'tz chrono \<Rightarrow> (string \<Rightarrow> string + document_raw) \<Rightarrow> (string \<Rightarrow> int option) \<Rightarrow> pulse_files \<Rightarrow>
   string list \<Rightarrow> string \<Rightarrow> int \<Rightarrow> fault + int option" where
  "earliest_once_due c from_yaml parse_date files agents timezone now =
     rfold (\<lambda>agent_id earliest.
        case load_pulse_definition from_yaml parse_date files agent_id of
          Inl _ \<Rightarrow> Inr earliest
        | Inr d \<Rightarrow>
            if \<not> pd_enabled d then Inr earliest
            else rfold (earlier_due c timezone now) (pd_intentions d) earliest)
       agents None"

definition SECOND :: int where
  "SECOND = 1000000000"

definition next_scan_delay :: "int \<Rightarrow> int \<Rightarrow> int option \<Rightarrow> int" where
  "next_scan_delay now tick_interval earliest_once =
     (let fallback = max tick_interval SECOND
      in case earliest_once of
           Some due \<Rightarrow> if now < due then max SECOND (min fallback (due - now)) else fallback
         | None \<Rightarrow> fallback)"

end
