(* ===== verification/Pulse_Settles.thy ===== *)
theory Pulse_Settles
  imports Pulse_Scan
begin

text \<open>
  What a scan leaves of an intention: the run it claimed is settled, whatever fails in between,
  and at most one notification was sent for it. Other tasks are trusted not to touch the row of
  that run and not to remove runs.
\<close>

section \<open>Undisturbed runs\<close>

text \<open>The run of some id is as it was, and no due key was released.\<close>

definition run_kept :: "string \<Rightarrow> database \<Rightarrow> database \<Rightarrow> bool" where
  "run_kept k db db' =
     (find_row (\<lambda>r. pr_id r = k) (pulse_runs db') = find_row (\<lambda>r. pr_id r = k) (pulse_runs db) \<and>
      due_of ` set (pulse_runs db) \<subseteq> due_of ` set (pulse_runs db'))"

lemma run_kept_refl [simp]: "run_kept k db db"
  by (simp add: run_kept_def)

lemma run_kept_trans: "run_kept k a b \<Longrightarrow> run_kept k b c \<Longrightarrow> run_kept k a c"
  by (auto simp: run_kept_def)

lemma run_kept_same: "pulse_runs db' = pulse_runs db \<Longrightarrow> run_kept k db db'"
  by (simp add: run_kept_def)

definition undisturbed :: "('j, 'tz) scan_env \<Rightarrow> string \<Rightarrow> bool" where
  "undisturbed env k =
     ((\<forall>n w fs. run_kept k (w_db w) (w_db (fst (sn_awaits env n (w, fs))))) \<and>
      (\<forall>n w fs. run_kept k (w_db w) (w_db (fst (oe_others env n (w, fs))))) \<and>
      (\<forall>n m w. run_kept k (w_db w) (w_db (oe_phase_others env n m w))) \<and>
      (\<forall>a p h w fs. run_kept k (w_db w) (w_db (fst (snd (sn_activate env a p h k (w, fs)))))))"

lemma meanwhile_simps [simp]:
  "ps_sent (meanwhile f s) = ps_sent s"
  "ps_world (meanwhile f s) = fst (f (ps_world s, ps_files s))"
  by (simp_all add: meanwhile_def split: prod.split)

section \<open>Persisting a notification keeps every run\<close>

lemma commit_keeps_pulse_runs:
  "commit_message_locked now m json q db = Inr (out, db') \<Longrightarrow> pulse_runs db' = pulse_runs db"
  using commit_message_frame by (simp add: conv_frame_def)

lemma store_phase_keeps:
  "store_phase_snapshot env now m ms q w = (r, w') \<Longrightarrow> run_kept k (w_db w) (w_db w')"
  by (auto simp: store_phase_snapshot_def store_message_with_session_def commit_conversation_message_def
      res_simps Let_def intro!: run_kept_same dest: commit_keeps_pulse_runs
      split: sum.splits prod.splits)

lemma persist_phase_messages_keeps:
  assumes "\<And>n w. run_kept k (w_db w) (w_db (others n w))"
    "persist_phase_messages env clock others m phase ms q w = (r, w')"
  shows "run_kept k (w_db w) (w_db w')"
proof -
  obtain first w1 where one: "store_phase_snapshot env (clock 0) m ms q w = (first, w1)"
    by (cases "store_phase_snapshot env (clock 0) m ms q w")
  note k1 = store_phase_keeps [OF one, of k]
  note k2 = run_kept_trans [OF k1 assms(1) [of w1 0]]
  note k3 = run_kept_trans [OF k2 assms(1) [of "others 0 w1" 1]]
  show ?thesis
    using assms(2) one k1 k2 run_kept_trans [OF k3 store_phase_keeps]
    by (auto simp: persist_phase_messages_def Let_def split: sum.splits option.splits)
qed


lemma persist_phase_keeps:
  assumes "\<And>n w. run_kept k (w_db w) (w_db (others n w))"
    "persist_phase env clock others m message ms q w = (r, w')"
  shows "run_kept k (w_db w) (w_db w')"
  using persist_phase_messages_keeps [OF assms(1)] assms(2) by (simp add: persist_phase_def)

lemma env_phase_keeps:
  assumes "\<And>n m w. run_kept k (w_db w) (w_db (oe_phase_others env n m w))"
  shows "persist_phase e c (oe_phase_others env n) m x ms q w = (r, w') \<Longrightarrow> run_kept k (w_db w) (w_db w')"
    "persist_phase_messages e c (oe_phase_others env n) m xs ms q w = (r, w') \<Longrightarrow> run_kept k (w_db w) (w_db w')"
  using persist_phase_keeps [of k "oe_phase_others env n", OF assms]
    persist_phase_messages_keeps [of k "oe_phase_others env n", OF assms] by blast+

lemma persist_tool_phase_keeps:
  assumes "\<And>n m w. run_kept k (w_db w) (w_db (oe_phase_others env n m w))"
    "persist_tool_phase env a c i n phase turn w = (r, w')"
  shows "run_kept k (w_db w) (w_db w')"
  using assms(2)
  by (auto simp: persist_tool_phase_def Let_def split: prod.splits sum.splits if_splits
      dest!: env_phase_keeps [of k env, OF assms(1)] intro: run_kept_trans)

lemma persist_tool_phases_keeps:
  assumes "\<And>n m w. run_kept k (w_db w) (w_db (oe_phase_others env n m w))"
  shows "persist_tool_phases env a c i n phases turn w = (r, w') \<Longrightarrow> run_kept k (w_db w) (w_db w')"
proof (induction phases arbitrary: n turn w)
  case (Cons phase phases)
  from Cons.prems show ?case
    by (auto split: prod.splits sum.splits dest!: persist_tool_phase_keeps [of k env, OF assms] Cons.IH
        intro: run_kept_trans)
qed simp

lemma persist_notification_keeps:
  assumes "\<And>n m w. run_kept k (w_db w) (w_db (oe_phase_others env n m w))"
    "persist_notification_with_session env a i c result run_id w = (r, w')"
  shows "run_kept k (w_db w) (w_db w')"
  using assms(2)
  by (auto simp: persist_notification_with_session_def persist_notification_with_loaded_def Let_def
      split: prod.splits sum.splits
      dest!: env_phase_keeps [of k env, OF assms(1)] persist_tool_phases_keeps [of k env, OF assms(1)]
      intro: run_kept_trans)

section \<open>The row of the run\<close>

definition run_row :: "string \<Rightarrow> pulse_state \<Rightarrow> pulse_row option" where
  "run_row k s = find_row (\<lambda>r. pr_id r = k) (pulse_runs (db_of s))"

definition run_open :: "string \<Rightarrow> string \<times> string \<times> string \<Rightarrow> pulse_state \<Rightarrow> bool" where
  "run_open k key s = (\<exists>r. run_row k s = Some r \<and> due_of r = key \<and> pr_status r = ''running'')"

text \<open>How a run may end, with the notifications that were sent for it.\<close>

definition run_settled ::
  "string \<Rightarrow> string \<times> string \<times> string \<Rightarrow> (string \<times> string \<times> string) list \<Rightarrow> pulse_state \<Rightarrow> bool" where
  "run_settled k key sent s =
     (\<exists>r. run_row k s = Some r \<and> due_of r = key \<and>
        (pr_status r = ''success'' \<and> pr_output_kind r = Some ''notify'' \<and>
           (\<exists>channel chat txt. pr_output_text r = Some txt \<and> sent = [(channel, chat, txt)]) \<or>
         pr_status r = ''success'' \<and> pr_output_kind r = Some ''silent'' \<and> sent = [] \<or>
         pr_status r = ''failed'' \<and> length sent \<le> 1 \<or>
         pr_status r = ''skipped'' \<and> sent = []))"

lemma run_row_kept: "run_kept k (db_of s) (db_of s') \<Longrightarrow> run_row k s' = run_row k s"
  by (simp add: run_kept_def run_row_def)

lemma run_open_kept: "run_kept k (db_of s) (db_of s') \<Longrightarrow> run_open k key s \<Longrightarrow> run_open k key s'"
  by (simp add: run_open_def run_row_kept)

lemma run_settled_kept:
  "run_kept k (db_of s) (db_of s') \<Longrightarrow> run_settled k key sent s \<Longrightarrow> run_settled k key sent s'"
  by (simp add: run_settled_def run_row_kept)

lemma settle_open:
  assumes "run_open k key s" "\<And>r. pr_id (f r) = pr_id r" "\<And>r. due_of (f r) = due_of r"
  obtains s' r where "on_db (update_running_pulse k f) s = (Inr (), s')" "run_row k s' = Some (f r)"
    "due_of (f r) = key" "ps_sent s' = ps_sent s" "ps_files s' = ps_files s"
    "due_of ` set (pulse_runs (db_of s')) = due_of ` set (pulse_runs (db_of s))"
proof -
  obtain r where r: "run_row k s = Some r" "due_of r = key" "pr_status r = ''running''"
    using assms(1) by (auto simp: run_open_def)
  then have m: "r \<in> set (pulse_runs (db_of s))" "pr_id r = k"
    using find_row_Some [of "\<lambda>r. pr_id r = k"] by (auto simp: run_row_def)
  then have u: "running_pulse k r" using r(3) by (simp add: running_pulse_def)
  let ?db = "(db_of s)\<lparr>pulse_runs := update_rows (running_pulse k) f (pulse_runs (db_of s))\<rparr>"
  let ?s = "s\<lparr>ps_world := (ps_world s)\<lparr>w_db := ?db\<rparr>\<rparr>"
  have "exists_row (running_pulse k) (pulse_runs (db_of s))" using m u by (auto simp: row_simps)
  then have "on_db (update_running_pulse k f) s = (Inr (), ?s)"
    by (simp add: on_db_def update_running_pulse_def)
  moreover have "run_row k ?s = Some (f r)"
    using r(1) u by (simp add: run_row_def find_row_update_other assms(2))
  moreover have "set (map due_of (pulse_runs ?db)) = set (map due_of (pulse_runs (db_of s)))"
    using map_key_update_rows [of "running_pulse k" due_of f "pulse_runs (db_of s)", OF assms(3)]
    by simp
  then have "due_of ` set (pulse_runs (db_of ?s)) = due_of ` set (pulse_runs (db_of s))" by simp
  ultimately show ?thesis using that [of ?s r] r(2) assms(3) by simp
qed

lemma close_open:
  assumes "run_open k key s" "status = PulseFailed \<and> length sent \<le> 1 \<or> status = PulseSkipped \<and> sent = []"
  shows "\<exists>s'. on_db (update_running_pulse k (close_pulse status now message)) s = (Inr (), s') \<and>
    run_settled k key sent s' \<and> ps_sent s' = ps_sent s \<and> ps_files s' = ps_files s \<and>
    due_of ` set (pulse_runs (db_of s')) = due_of ` set (pulse_runs (db_of s))"
proof -
  have d: "due_of (close_pulse status now message r) = due_of r" "pr_id (close_pulse status now message r) = pr_id r" for r
    by (simp_all add: due_of_def close_pulse_def)
  show ?thesis
  proof (rule settle_open [OF assms(1) d(2,1)])
    fix s' r
    assume "on_db (update_running_pulse k (close_pulse status now message)) s = (Inr (), s')"
      "run_row k s' = Some (close_pulse status now message r)" "due_of (close_pulse status now message r) = key"
      "ps_sent s' = ps_sent s" "ps_files s' = ps_files s"
      "due_of ` set (pulse_runs (db_of s')) = due_of ` set (pulse_runs (db_of s))"
    moreover from this assms(2) have "run_settled k key sent s'"
      by (auto simp: run_settled_def close_pulse_def)
    ultimately show ?thesis by blast
  qed
qed

section \<open>From the claim to the end\<close>

definition dues :: "pulse_state \<Rightarrow> (string \<times> string \<times> string) set" where
  "dues s = due_of ` set (pulse_runs (db_of s))"

definition settles_from ::
  "string \<Rightarrow> string \<times> string \<times> string \<Rightarrow> pulse_state \<Rightarrow> pulse_state \<Rightarrow> bool" where
  "settles_from k key s s' =
     (\<exists>sent. ps_sent s' = ps_sent s @ sent \<and> run_settled k key sent s' \<and> dues s \<subseteq> dues s')"

lemma run_kept_dues: "run_kept k (db_of s) (db_of s') \<Longrightarrow> dues s \<subseteq> dues s'"
  by (simp add: run_kept_def dues_def)

lemma settles_after:
  assumes "ps_sent s1 = ps_sent s" "run_kept k (db_of s) (db_of s1)" "settles_from k key s1 s'"
  shows "settles_from k key s s'"
  using assms(1,3) run_kept_dues [OF assms(2)] by (auto simp: settles_from_def)

lemma settles_before:
  assumes "settles_from k key s s1" "ps_sent s' = ps_sent s1" "run_kept k (db_of s1) (db_of s')"
  shows "settles_from k key s s'"
  using assms(1,2) run_settled_kept [OF assms(3), of key] run_kept_dues [OF assms(3)]
  unfolding settles_from_def by (metis order_trans)

lemma update_functions:
  "update_pulse_run_skipped now k m = update_running_pulse k (close_pulse PulseSkipped now m)"
  "update_pulse_run_failed now k m = update_running_pulse k (close_pulse PulseFailed now m)"
  "update_pulse_run_success now k c mid kind txt = update_running_pulse k
     (\<lambda>r. r\<lparr>pr_status := pulse_run_status_display PulseSuccess, pr_finished_at := Some now,
      pr_chat_id := c, pr_message_id := mid, pr_output_kind := Some (pulse_output_kind_display kind),
      pr_output_text := Some txt\<rparr>)"
  by (rule ext, simp add: update_pulse_run_skipped_def update_pulse_run_failed_def update_pulse_run_success_def)+

lemma closes:
  assumes "run_open k key s"
  shows "mark_run (update_pulse_run_skipped now k m) s = s1 \<Longrightarrow> settles_from k key s s1"
    "mark_run (update_pulse_run_failed now k m) s = s2 \<Longrightarrow> settles_from k key s s2 \<and>
       (ps_sent s = ps_sent s0 @ [x] \<longrightarrow> dues s0 \<subseteq> dues s \<longrightarrow> settles_from k key s0 s2)"
proof -
  { assume "mark_run (update_pulse_run_skipped now k m) s = s1"
    then show "settles_from k key s s1"
      using close_open [OF assms, of PulseSkipped "[]" now m]
      by (auto simp: mark_run_def update_functions settles_from_def dues_def) }
  { assume "mark_run (update_pulse_run_failed now k m) s = s2"
    then show "settles_from k key s s2 \<and>
       (ps_sent s = ps_sent s0 @ [x] \<longrightarrow> dues s0 \<subseteq> dues s \<longrightarrow> settles_from k key s0 s2)"
      using close_open [OF assms, of PulseFailed "[]" now m] close_open [OF assms, of PulseFailed "[x]" now m]
      by (auto simp: mark_run_def update_functions settles_from_def dues_def) }
qed

lemma succeeds:
  assumes "run_open k key s" "ps_sent s = ps_sent s0 @ sent" "dues s0 \<subseteq> dues s"
    "kind = OutputSilent \<and> sent = [] \<or> kind = OutputNotify \<and> sent = [(channel, chat, txt)]"
  shows "\<exists>s'. on_db (update_pulse_run_success now k c m kind txt) s = (Inr (), s') \<and> settles_from k key s0 s'"
proof -
  let ?f = "\<lambda>r. r\<lparr>pr_status := pulse_run_status_display PulseSuccess, pr_finished_at := Some now,
      pr_chat_id := c, pr_message_id := m, pr_output_kind := Some (pulse_output_kind_display kind),
      pr_output_text := Some txt\<rparr>"
  have f: "pr_id (?f r) = pr_id r" "due_of (?f r) = due_of r" for r by (simp_all add: due_of_def)
  show ?thesis
  proof (rule settle_open [OF assms(1) f])
    fix s' r
    assume a: "on_db (update_running_pulse k ?f) s = (Inr (), s')" "run_row k s' = Some (?f r)"
      "due_of (?f r) = key" "ps_sent s' = ps_sent s"
      "due_of ` set (pulse_runs (db_of s')) = due_of ` set (pulse_runs (db_of s))"
    have "run_settled k key sent s'" using a(2,3) assms(4) by (auto simp: run_settled_def)
    then show ?thesis using a assms(2,3)
      by (intro exI [of _ s']) (auto simp: update_functions settles_from_def dues_def)
  qed
qed

lemma awaited:
  assumes "undisturbed env k"
  shows "run_kept k (db_of s) (db_of (meanwhile (sn_awaits env n) s))"
    "run_kept k (db_of s) (db_of (meanwhile (oe_others env n) s))"
  using assms by (simp_all add: undisturbed_def)

lemma handle_output_settles:
  assumes env: "undisturbed env k" and run: "run_open k key s"
    and out: "handle_output env a i home result k s = (r, s')"
  shows "settles_from k key s s'"
proof (cases "ar_output_kind result")
  case OutputSilent
  have "\<exists>s'. on_db (update_pulse_run_success (oe_settled_at env) k None None OutputSilent (ar_output_text result)) s
      = (Inr (), s') \<and> settles_from k key s s'"
    by (rule succeeds [OF run, of s "[]"]) auto
  then show ?thesis using out OutputSilent by (auto simp: handle_output_def handle_silent_def)
next
  case OutputNotify
  let ?txt = "ar_output_text result"
  note out = out [unfolded handle_output_def OutputNotify, simplified]
  show ?thesis
  proof (cases "hs_channel home \<in> set (oe_channels env)")
    case False
    then show ?thesis using out closes(2) [OF run]
      by (auto simp: handle_notify_def Let_def mark_pulse_run_failed_or_log_def mark_run_def)
  next
    case ch: True
    show ?thesis
    proof (cases "oe_send env (hs_channel home) (hs_external_chat_id home) ?txt")
      case (Some e)
      let ?s = "meanwhile (oe_others env 0) s"
      have "s' = mark_run (update_pulse_run_failed (oe_settled_at env) k (''channel send failed: '' @ e)) ?s"
        using out ch Some by (auto simp: handle_notify_def Let_def mark_pulse_run_failed_or_log_def mark_run_def)
      then have "settles_from k key ?s s'"
        using closes(2) [OF run_open_kept [OF awaited(2) [OF env] run]] by blast
      then show ?thesis using settles_after [OF _ awaited(2) [OF env]] by simp
    next
      case None
      let ?x = "(hs_channel home, hs_external_chat_id home, ?txt)"
      let ?s0 = "meanwhile (oe_others env 0) (s\<lparr>ps_sent := ps_sent s @ [?x]\<rparr>)"
      obtain p w where p: "persist_notification_with_session env a i (hs_chat_id home) result k (ps_world ?s0) = (p, w)"
        by (meson surj_pair)
      let ?s1 = "meanwhile (oe_others env 1) (?s0\<lparr>ps_world := w\<rparr>)"
      have "run_kept k (db_of s) (db_of ?s0)"
        using awaited(2) [OF env, of "s\<lparr>ps_sent := ps_sent s @ [?x]\<rparr>" 0] by simp
      moreover have "run_kept k (db_of ?s0) (w_db w)"
        by (rule persist_notification_keeps [OF _ p]) (use env in \<open>simp add: undisturbed_def\<close>)
      moreover have "run_kept k (w_db w) (db_of ?s1)"
        using awaited(2) [OF env, of "?s0\<lparr>ps_world := w\<rparr>" 1] by simp
      ultimately have kept: "run_kept k (db_of s) (db_of ?s1)" using run_kept_trans by blast
      note open1 = run_open_kept [OF kept run]
      have sent1: "ps_sent ?s1 = ps_sent s @ [?x]" by simp
      show ?thesis
      proof (cases p)
        case (Inl e)
        have "s' = mark_run (update_pulse_run_failed (oe_settled_at env) k (error_text env (StorageFailure e))) ?s1"
          using out ch None p Inl
          by (auto simp: handle_notify_def Let_def mark_pulse_run_failed_or_log_def mark_run_def)
        then show ?thesis using closes(2) [OF open1] sent1 run_kept_dues [OF kept] by blast
      next
        case (Inr m)
        have "\<exists>s'. on_db (update_pulse_run_success (oe_settled_at env) k (Some (hs_chat_id home)) (Some m)
            OutputNotify ?txt) ?s1 = (Inr (), s') \<and> settles_from k key s s'"
          by (rule succeeds [OF open1 sent1 run_kept_dues [OF kept]]) auto
        then show ?thesis using out ch None p Inr by (auto simp: handle_notify_def Let_def)
      qed
    qed
  qed
qed

lemma archive_settles:
  assumes "undisturbed env k" "settles_from k key s0 s"
  shows "settles_from k key s0 (archive_fired env a i s)"
proof -
  let ?s = "meanwhile (sn_awaits env 6) s"
  have "settles_from k key s0 ?s" by (rule settles_before [OF assms(2) _ awaited(1) [OF assms(1)]]) simp
  moreover have "settles_from k key s0 (?s\<lparr>ps_files := f\<rparr>)" if "settles_from k key s0 ?s" for f
    using that by (rule settles_before) simp_all
  ultimately show ?thesis using assms(2)
    by (auto simp: archive_fired_def Let_def split: sum.split)
qed

lemma activate_run_settles:
  assumes env: "undisturbed env k" and run: "run_open k key s"
  shows "settles_from k key s (activate_run env timeout a i d k s)"
proof -
  let ?s1 = "meanwhile (sn_awaits env 3) s"
  let ?s2 = "meanwhile (sn_awaits env 4) ?s1"
  have k2: "run_kept k (db_of s) (db_of ?s2)"
    using run_kept_trans [OF awaited(1) [OF env, of s 3] awaited(1) [OF env, of ?s1 4]] .
  note open2 = run_open_kept [OF k2 run]
  have skip: "settles_from k key s (mark_run (update_pulse_run_skipped (oe_settled_at env) k m) ?s2)" for m
    by (rule settles_after [OF _ k2 closes(1) [OF open2]]) simp_all
  show ?thesis
  proof (cases "resolve_home_surface a (oe_channels env) (case ti_delivery i of Some d \<Rightarrow> Some d | None \<Rightarrow> d) (db_of ?s1)")
    case (Inl e)
    then show ?thesis using skip by (simp add: activate_run_def Let_def)
  next
    case h: (Inr home)
    show ?thesis
    proof (cases home)
      case None
      then show ?thesis using skip h by (simp add: activate_run_def Let_def)
    next
      case (Some home)
      let ?prompt = "build_capsule (sn_core_contract env) a i
          (load_recent_messages (hs_chat_id home) (db_of ?s2)) home (sn_now_rfc3339 env)"
      obtain outcome w files where act: "sn_activate env a ?prompt home k (ps_world ?s2, ps_files ?s2) = (outcome, w, files)"
        by (metis surj_pair)
      let ?s3 = "meanwhile (sn_awaits env 5) (?s2\<lparr>ps_world := w, ps_files := files\<rparr>)"
      have "run_kept k (w_db w0) (w_db (fst (snd (sn_activate env a p h k (w0, fs)))))" for w0 p h fs
        using env by (simp add: undisturbed_def)
      from this [of "ps_world ?s2" ?prompt home "ps_files ?s2"] have "run_kept k (db_of ?s2) (w_db w)"
        unfolding act by simp
      from run_kept_trans [OF k2 this] have "run_kept k (db_of s) (w_db w)" .
      then have k3: "run_kept k (db_of s) (db_of ?s3)"
        using run_kept_trans awaited(1) [OF env, of "?s2\<lparr>ps_world := w, ps_files := files\<rparr>" 5] by fastforce
      note open3 = run_open_kept [OF k3 run]
      have sent3: "ps_sent ?s3 = ps_sent s" by simp
      have run_eq: "activate_run env timeout a i d k s =
          (case guard_activation timeout outcome of
             Inl e \<Rightarrow> mark_run (update_pulse_run_failed (oe_settled_at env) k (error_text env e)) ?s3
           | Inr result \<Rightarrow>
               (case handle_output env a i home result k ?s3 of
                  (Inl _, s) \<Rightarrow> s
                | (Inr _, s) \<Rightarrow> archive_fired env a i s))"
        using h Some act by (simp add: activate_run_def Let_def)
      show ?thesis
      proof (cases "guard_activation timeout outcome")
        case (Inl e)
        then show ?thesis using run_eq settles_after [OF sent3 k3] closes(2) [OF open3] by simp
      next
        case (Inr result)
        obtain r s' where out: "handle_output env a i home result k ?s3 = (r, s')" by (meson surj_pair)
        have "settles_from k key s s'"
          by (rule settles_after [OF sent3 k3 handle_output_settles [OF env open3 out]])
        then show ?thesis using run_eq Inr out archive_settles [OF env] by (cases r) simp_all
      qed
    qed
  qed
qed

lemma create_opens:
  assumes "on_db (try_create_pulse_run now k a n due att) s = (Inr (), s')" "run_row k s = None"
  shows "run_open k (a, n, due) s' \<and> ps_sent s' = ps_sent s \<and> dues s \<subseteq> dues s' \<and> (a, n, due) \<notin> dues s"
proof -
  let ?r = "new_pulse_run now k a n due att"
  have c: "s' = s\<lparr>ps_world := (ps_world s)\<lparr>w_db := (db_of s)\<lparr>pulse_runs := insert_row ?r (pulse_runs (db_of s))\<rparr>\<rparr>\<rparr>"
    "(a, n, due) \<notin> dues s"
    using assms(1)
    by (auto simp: on_db_def try_create_pulse_run_def dues_def row_simps split: if_splits sum.splits)
  moreover have "find_row (\<lambda>r. pr_id r = k) (insert_row ?r (pulse_runs (db_of s))) = Some ?r"
    using assms(2) by (simp add: run_row_def find_key_insert_row new_pulse_run_def)
  ultimately show ?thesis
    by (auto simp: run_open_def run_row_def dues_def row_simps new_pulse_run_def due_of_def)
qed

lemma attempt_due_settles:
  assumes env: "undisturbed env k" and new: "run_row k s = None"
    and key: "key = (a, ti_id i, due)" and s': "s' = attempt_due env timeout a i d due k s"
  shows "dues s \<subseteq> dues s' \<and> (run_row k s' = None \<and> ps_sent s' = ps_sent s \<or>
    key \<notin> dues s \<and> settles_from k key s s')"
proof -
  let ?s1 = "meanwhile (sn_awaits env 1) s"
  let ?s2 = "meanwhile (sn_awaits env 2) ?s1"
  note k1 = awaited(1) [OF env, of s 1]
  have k2: "run_kept k (db_of s) (db_of ?s2)" by (rule run_kept_trans [OF k1 awaited(1) [OF env]])
  have rows: "run_row k ?s1 = None" "run_row k ?s2 = None"
    using new run_row_kept [OF k1] run_row_kept [OF k2] by auto
  note d12 = run_kept_dues [OF k1] run_kept_dues [OF k2]
  obtain r s3 where c: "on_db (try_create_pulse_run (sn_created_at env) k a (ti_id i) due (ti_attention i)) ?s2 = (r, s3)"
    by (meson surj_pair)
  have refused: "s3 = ?s2" if "r = Inl e" for e using c that by (auto simp: on_db_def split: sum.splits)
  show ?thesis
  proof (cases "evaluate_gate a (ti_id i) due (sn_active env) (db_of ?s1) = Inr Allow \<and> r = Inr ()")
    case True
    then have o: "run_open k key s3" "ps_sent s3 = ps_sent s" "dues ?s2 \<subseteq> dues s3" "key \<notin> dues ?s2"
      using create_opens [of _ k a "ti_id i" due _ ?s2 s3] c rows key by auto
    have "s' = activate_run env timeout a i d k s3" using s' True c by (simp add: attempt_due_def Let_def)
    then have "settles_from k key s3 s'" using activate_run_settles [OF env o(1)] by simp
    moreover have "key \<notin> dues s" "dues s \<subseteq> dues s3" using d12 o(3,4) by auto
    ultimately show ?thesis using o(2) by (auto simp: settles_from_def)
  next
    case False
    then have "s' = ?s1 \<or> s' = ?s2" using s' c refused
      by (auto simp: attempt_due_def Let_def split: sum.splits gate_decision.splits)
    then show ?thesis using rows d12 by auto
  qed
qed


section \<open>The view and the scan\<close>

lemma meanwhile_same: "(\<And>x. f x = x) \<Longrightarrow> meanwhile f s = s"
  by (simp add: meanwhile_def)

lemma dues_has: "((a, n, d) \<in> dues s) = has_pulse_due_run a n d (db_of s)"
  by (simp add: dues_def has_due_iff)

lemma check_due_key:
  "(\<exists>check. check_due c a i t timezone anchor = Inr check \<and> dc_due check) =
     (due_at c i t timezone anchor = Inr True)"
  unfolding due_at_check by (metis due_check.select_convs(1))

lemma attempt_claims:
  assumes env: "undisturbed env k" and new: "run_row k s = None"
    and idle: "\<And>n x. sn_awaits env n x = x" "\<not> sn_active env"
    and free: "\<not> has_pulse_due_run a (ti_id i) due (db_of s)"
  shows "(a, ti_id i, due) \<in> dues (attempt_due env timeout a i d due k s) \<and>
    run_row k (attempt_due env timeout a i d due k s) \<noteq> None"
proof -
  note same = meanwhile_same [of "sn_awaits env _", OF idle(1)]
  have "k \<notin> pr_id ` set (pulse_runs (db_of s))"
    using new by (auto simp: run_row_def find_row_None_iff)
  then obtain db' where db': "try_create_pulse_run (sn_created_at env) k a (ti_id i) due (ti_attention i) (db_of s) = Inr db'"
    using create_free_iff free by blast
  then have c: "on_db (try_create_pulse_run (sn_created_at env) k a (ti_id i) due (ti_attention i)) s =
      (Inr (), s\<lparr>ps_world := (ps_world s)\<lparr>w_db := db'\<rparr>\<rparr>)" (is "_ = (_, ?s)") by (simp add: on_db_def)
  note o = create_opens [OF c new]
  have "settles_from k (a, ti_id i, due) ?s (activate_run env timeout a i d k ?s)"
    by (rule activate_run_settles [OF env conjunct1 [OF o]])
  moreover have "(a, ti_id i, due) \<in> dues ?s"
    using create_claims [OF db'] by (simp add: dues_has)
  moreover have "attempt_due env timeout a i d due k s = activate_run env timeout a i d k ?s"
    using free idle(2) c by (simp add: attempt_due_def Let_def same evaluate_gate_def)
  ultimately show ?thesis by (auto simp: settles_from_def run_settled_def)
qed

lemma judge_attempted:
  "judge_candidate c a i timezone now consumed e = r \<Longrightarrow> r = AttemptedThisPeriod \<or> r = AttemptedOnce \<Longrightarrow> consumed"
  by (auto simp: judge_candidate_def split: option.splits if_splits)

lemma resolve_attempted:
  assumes "resolve_next_due c p a i timezone now db = Inr r" "r = AttemptedThisPeriod \<or> r = AttemptedOnce"
  shows "has_pulse_due_run a (ti_id i) (generate_due_key c a i now timezone) db"
proof (rule ccontr)
  let ?has = "has_pulse_due_run a (ti_id i) (generate_due_key c a i now timezone) db"
  assume no: "\<not> ?has"
  then obtain e where "judge_candidate c a i timezone now ?has e = r" "r \<noteq> DueNow"
    using assms by (auto simp: resolve_next_due_def Let_def rbind_Inr_iff split: if_splits)
  then show False using judge_attempted assms(2) no by metis
qed


section \<open>A concrete calendar\<close>

text \<open>Days of 86400 units in one zone without gaps, every time of day read as nine o'clock.\<close>

definition sample_chrono :: "unit chrono" where
  "sample_chrono = \<lparr>tz_parse = (\<lambda>_. Some ()), tz_utc = (),
     tz_local = (\<lambda>_ i. (i div 86400, i mod 86400)),
     tz_resolve = (\<lambda>_ d t. if 0 \<le> t \<and> t < 86400 then LocalSingle (d * 86400 + t) else LocalNone),
     time_parse = (\<lambda>_. Some 32400), date_parse = (\<lambda>_. None),
     date_format = (\<lambda>d. replicate (to_nat d) CHR ''d''), iso_week = (\<lambda>d. (d, 0)),
     weekday_of = (\<lambda>d. nat (d mod 7)), date_max = 1000000\<rparr>"

lemma sample_calendar: "calendar_ok sample_chrono ()"
proof -
  have "inj (date_format sample_chrono)"
    by (rule injI) (simp add: sample_chrono_def replicate_eq_replicate)
  moreover have "weekday_of sample_chrono (d + int n) = (weekday_of sample_chrono d + n) mod 7" for d n
  proof -
    have "int (nat (d mod 7) + n) mod 7 = (d + int n) mod 7" by (simp add: mod_simps)
    then have "int ((nat (d mod 7) + n) mod 7) = (d + int n) mod 7" by (simp only: zmod_int of_nat_numeral)
    then have "nat ((d + int n) mod 7) = (nat (d mod 7) + n) mod 7" by (simp only: nat_int [symmetric])
    then show ?thesis by (simp add: sample_chrono_def)
  qed
  moreover have "fst (tz_local sample_chrono () x) \<le> fst (tz_local sample_chrono () y)" if "x \<le> y" for x y
    using that by (simp add: sample_chrono_def zdiv_mono1)
  ultimately show ?thesis
    unfolding calendar_ok_def by (auto simp: sample_chrono_def split: if_splits)
qed

definition sample_scan :: "(unit, unit) scan_env" where
  "sample_scan = \<lparr>oe_session = sample_env, oe_channels = [], oe_send = (\<lambda>_ _ _. None),
     oe_status_text = (\<lambda>_. []), oe_settled_at = ''t2'', oe_clock = (\<lambda>_. ''t''), oe_uuid = (\<lambda>_. ''u''),
     oe_others = (\<lambda>_ x. x), oe_phase_clock = (\<lambda>_ _. ''t''), oe_phase_others = (\<lambda>_ _ w. w),
     sn_chrono = sample_chrono, sn_parse_rfc3339 = (\<lambda>_. Inl []), sn_core_contract = [],
     sn_now_rfc3339 = ''t'', sn_created_at = ''t1'', sn_active = False, sn_awaits = (\<lambda>_ x. x),
     sn_activate = (\<lambda>_ _ _ _ x. (Elapsed, x)), sn_from_yaml = sample_from_yaml,
     sn_to_yaml = sample_to_yaml, sn_parse_date = (\<lambda>_. None), sn_write_error = None\<rparr>"

definition sample_state :: pulse_state where
  "sample_state = \<lparr>ps_world = sample_world, ps_files = Map.empty, ps_sent = []\<rparr>"

lemma sample_undisturbed: "undisturbed sample_scan k"
  by (simp add: undisturbed_def sample_scan_def)

lemma sample_new: "run_row k sample_state = None"
  by (simp add: run_row_def sample_state_def sample_world_def empty_database_def)

definition sample_key :: "string \<times> string \<times> string" where
  "sample_key = (''ana'', ''greet'', generate_due_key sample_chrono ''ana'' sample_intention 40000 ''UTC'')"

lemma sample_processed:
  "\<exists>s'. process_intention sample_scan 1800 ''ana'' sample_intention None ''UTC'' 40000 ''p1'' sample_state = Inr s' \<and>
     run_row ''p1'' s' \<noteq> None"
proof -
  have f: "sn_awaits sample_scan n x = x" "\<not> sn_active sample_scan" "sn_chrono sample_scan = sample_chrono"
    "ti_enabled sample_intention" "ti_id sample_intention = ''greet''" "\<not> is_interval (ti_schedule sample_intention)" for n x
    by (simp_all add: sample_scan_def sample_intention_def is_interval_def)
  have c: "check_due sample_chrono ''ana'' sample_intention 40000 ''UTC'' None =
      Inr \<lparr>dc_due = True, dc_due_key = snd (snd sample_key)\<rparr>"
    by (simp add: check_due_def sample_intention_def is_daily_due_def parse_hhmm_def parse_timezone_def
        local_datetime_def sample_chrono_def sample_key_def)
  let ?s' = "attempt_due sample_scan 1800 ''ana'' sample_intention None (snd (snd sample_key)) ''p1'' sample_state"
  have "process_intention sample_scan 1800 ''ana'' sample_intention None ''UTC'' 40000 ''p1'' sample_state = Inr ?s'"
    using c f meanwhile_same [of "sn_awaits sample_scan 0", OF f(1)]
    by (simp add: process_intention_def last_success_for_def)
  moreover have "\<not> has_pulse_due_run ''ana'' (ti_id sample_intention) (snd (snd sample_key)) (db_of sample_state)"
    by (simp add: has_pulse_due_run_def sample_state_def sample_world_def empty_database_def)
  then have "run_row ''p1'' ?s' \<noteq> None"
    using attempt_claims [OF sample_undisturbed sample_new f(1,2)] by blast
  ultimately show ?thesis by blast
qed



end
