(* ===== verification/Pulse_Wake.thy ===== *)
theory Pulse_Wake
  imports Pulse_Scan
begin

text \<open>
  The delay between scans: it honours the tick and every reminder that falls into it.
\<close>

text \<open>The wake instant found so far is in the future and not after \<open>due\<close>.\<close>

definition covers :: "int \<Rightarrow> int \<Rightarrow> int option \<Rightarrow> bool" where
  "covers now due e = (\<exists>m. e = Some m \<and> now < m \<and> m \<le> due)"

definition reminder :: "'tz chrono \<Rightarrow> string \<Rightarrow> int \<Rightarrow> int \<Rightarrow> temporal_intention \<Rightarrow> bool" where
  "reminder c timezone now due i =
     (ti_enabled i \<and> is_once (ti_schedule i) \<and> now < due \<and>
      estimate_next_due c i now timezone None = Inr (Some due))"

definition upcoming :: "int \<Rightarrow> int option \<Rightarrow> bool" where
  "upcoming now e = (\<forall>m. e = Some m \<longrightarrow> now < m)"

text \<open>A step of the search keeps the instant upcoming and covers what it should.\<close>

definition searches ::
  "int \<Rightarrow> int \<Rightarrow> ('a \<Rightarrow> int option \<Rightarrow> 'e + int option) \<Rightarrow> ('a \<Rightarrow> bool) \<Rightarrow> bool" where
  "searches now due f good =
     (\<forall>x e e'. f x e = Inr e' \<longrightarrow> upcoming now e \<longrightarrow>
        upcoming now e' \<and> (covers now due e \<or> good x \<longrightarrow> covers now due e'))"

lemma searches_earlier: "searches now due (earlier_due c timezone now) (reminder c timezone now due)"
  unfolding searches_def
proof (intro allI impI)
  fix i e e'
  assume e: "earlier_due c timezone now i e = Inr e'" "upcoming now e"
  show "upcoming now e' \<and> (covers now due e \<or> reminder c timezone now due i \<longrightarrow> covers now due e')"
  proof (cases "ti_enabled i \<and> is_once (ti_schedule i)")
    case True
    then obtain estimate where "estimate_next_due c i now timezone None = Inr estimate"
      "e' = (case estimate of None \<Rightarrow> e | Some t \<Rightarrow>
         if t \<le> now then e else Some (case e of None \<Rightarrow> t | Some m \<Rightarrow> min m t))"
      using e(1) by (auto simp: earlier_due_def rbind_Inr_iff)
    then show ?thesis using e(2)
      by (cases e) (auto simp: covers_def reminder_def upcoming_def split: option.splits)
  next
    case False
    then have "e' = e" using e(1) by (auto simp: earlier_due_def split: if_splits)
    then show ?thesis using e(2) False by (auto simp: reminder_def)
  qed
qed

lemma searches_rfold:
  assumes "searches now due f good"
  shows "searches now due (\<lambda>xs. rfold f xs) (\<lambda>xs. \<exists>x \<in> set xs. good x)"
proof -
  have "upcoming now e' \<and> (covers now due e \<or> (\<exists>x \<in> set xs. good x) \<longrightarrow> covers now due e')"
    if "rfold f xs e = Inr e'" "upcoming now e" for xs e e'
    using that
  proof (induction xs arbitrary: e)
    case (Cons x xs)
    from Cons.prems(1) obtain e1 where e1: "f x e = Inr e1" "rfold f xs e1 = Inr e'"
      by (auto simp: rbind_Inr_iff)
    then have "upcoming now e1 \<and> (covers now due e \<or> good x \<longrightarrow> covers now due e1)"
      using assms Cons.prems(2) unfolding searches_def by blast
    then show ?case using Cons.IH [OF e1(2)] by auto
  qed simp
  then show ?thesis by (simp add: searches_def)
qed

definition agent_reminder ::
  "'tz chrono \<Rightarrow> (string \<Rightarrow> string + document_raw) \<Rightarrow> (string \<Rightarrow> int option) \<Rightarrow> pulse_files \<Rightarrow> string \<Rightarrow>
   int \<Rightarrow> int \<Rightarrow> string \<Rightarrow> bool" where
  "agent_reminder c from_yaml pd files timezone now due a =
     (\<exists>d. load_pulse_definition from_yaml pd files a = Inr d \<and> pd_enabled d \<and>
        (\<exists>i \<in> set (pd_intentions d). reminder c timezone now due i))"

lemma searches_agent:
  "searches now due
     (\<lambda>a earliest. case load_pulse_definition from_yaml pd files a of
        Inl _ \<Rightarrow> Inr earliest
      | Inr d \<Rightarrow> if \<not> pd_enabled d then Inr earliest
          else rfold (earlier_due c timezone now) (pd_intentions d) earliest)
     (agent_reminder c from_yaml pd files timezone now due)"
  using searches_rfold [OF searches_earlier [of now due c timezone]]
  by (auto simp: searches_def agent_reminder_def split: sum.splits if_splits)

lemma earliest_covers:
  assumes "earliest_once_due c from_yaml pd files agents timezone now = Inr e"
    "a \<in> set agents" "agent_reminder c from_yaml pd files timezone now due a"
  shows "covers now due e"
proof -
  have "upcoming now None" by (simp add: upcoming_def)
  with searches_rfold [OF searches_agent] show ?thesis
    using assms unfolding searches_def earliest_once_due_def by blast
qed


definition reminder_chrono :: "unit chrono" where
  "reminder_chrono = \<lparr>tz_parse = (\<lambda>_. Some ()), tz_utc = (), tz_local = (\<lambda>_ i. (i div 86400, i mod 86400)),
     tz_resolve = (\<lambda>_ d t. LocalSingle (d * 86400 + t)), time_parse = (\<lambda>_. Some 32400),
     date_parse = (\<lambda>_. Some 2), date_format = (\<lambda>_. []), iso_week = (\<lambda>d. (d, 0)),
     weekday_of = (\<lambda>_. 0), date_max = 1000000\<rparr>"

definition reminder_intention :: temporal_intention where
  "reminder_intention = sample_intention\<lparr>ti_schedule := Once ''2026-01-03'' ''09:00''\<rparr>"

definition reminder_definition :: pulse_definition where
  "reminder_definition = sample_definition\<lparr>pd_intentions := [reminder_intention]\<rparr>"

definition reminder_yaml :: "string \<Rightarrow> string + document_raw" where
  "reminder_yaml s = Inr (to_document_raw reminder_definition)"

lemma reminder_loaded:
  "load_pulse_definition reminder_yaml (\<lambda>_. Some 2) sample_files ''ana'' = Inr reminder_definition"
proof -
  have "validate_hhmm ''ana'' ''greet'' ''09:00'' = Inr ()" by code_simp
  then have "canonical (\<lambda>_. Some 2) ''ana'' reminder_definition"
    by (simp add: canonical_iff reminder_definition_def reminder_intention_def sample_definition_def
        valid_intention_def sample_intention_def validate_delivery_def validate_and_build_schedule_def
        validate_date_def or_empty_def to_intention_raw_def to_schedule_raw_def)
  then show ?thesis
    by (simp add: load_pulse_definition_def sample_trim sample_files_def parse_pulse_definition_inner_def
        reminder_yaml_def map_err_def canonical_def)
qed

lemma reminder_estimate:
  "estimate_next_due reminder_chrono reminder_intention 0 ''UTC'' None = Inr (Some 205200)"
  by (simp add: estimate_next_due_def obind_def Let_def reminder_intention_def reminder_chrono_def
      parse_hhmm_def local_datetime_def)


end
