(* ===== verification/Turn_Observer.thy ===== *)
theory Turn_Observer
  imports Json Tool_Sanitizer "HOL-Library.AList"
begin

text \<open>
  The observers through which a client follows its Turns
  (\<open>src/src/runtime/turn/observer.rs\<close>, with the events of \<open>src/src/agent_loop/event.rs\<close>). One
  client interaction may span several Turns: follow-ups staged during a tool phase become Turns of
  their own and share its observer. Each method runs under the lock of the registry and is a
  function on it; what a client does, dropping a receiver, is an operation too.
\<close>

section \<open>Events\<close>

datatype agent_event =
    IterationEvent nat
  | DeltaEvent string string
  | ToolStartEvent string json string
  | ToolResultEvent string bool string nat string "attachment_info list"
  | UserInputInjected string string string string
  | AssistantMessageDiscarded string
  | FinalResponseEvent string string string bool
  | ErrorEvent string string bool

datatype turn_outcome = TurnCompleted | TurnFailed string

record pending_final_response =
  pfr_turn_id :: string
  pfr_assistant_message_id :: string
  pfr_text :: string

section \<open>The registry\<close>

text \<open>
  A sink with its two channels: the events sent, the completion sender as long as it is held, the
  signals sent through it, and whether the client has dropped the receivers.
\<close>

record observer_sink =
  sk_events :: "agent_event list"
  sk_events_closed :: bool
  sk_completion :: bool
  sk_completion_closed :: bool
  sk_completed :: nat
  sk_pending_turns :: nat
  sk_pending_final_response :: "pending_final_response option"
  sk_initial_events :: "(string \<times> agent_event) list"

text \<open>Several request keys may share a sink (an \<open>Arc\<close>), so the table holds addresses of sinks.\<close>

record observers =
  ob_sinks :: "(string \<times> nat) list"
  ob_store :: "observer_sink list"

definition observers_new :: observers where
  "observers_new = \<lparr>ob_sinks = [], ob_store = []\<rparr>"

definition set_sink :: "nat \<Rightarrow> observer_sink \<Rightarrow> observers \<Rightarrow> observers" where
  "set_sink i sk ob = ob\<lparr>ob_store := (ob_store ob)[i := sk]\<rparr>"

definition remove_sink_routes :: "nat \<Rightarrow> observers \<Rightarrow> observers" where
  "remove_sink_routes i ob = ob\<lparr>ob_sinks := filter (\<lambda>(_, j). j \<noteq> i) (ob_sinks ob)\<rparr>"

definition completion_closed :: "observer_sink \<Rightarrow> bool" where
  "completion_closed sk = (\<not> sk_completion sk \<or> sk_completion_closed sk)"

definition closed_sink :: "observer_sink \<Rightarrow> bool" where
  "closed_sink sk = (sk_events_closed sk \<or> completion_closed sk)"

definition new_sink :: observer_sink where
  "new_sink = \<lparr>sk_events = [], sk_events_closed = False, sk_completion = True, sk_completion_closed = False,
     sk_completed = 0, sk_pending_turns = 1, sk_pending_final_response = None, sk_initial_events = []\<rparr>"

text \<open>The client gets the receivers of the sink at the address.\<close>

definition register_if_absent :: "string \<Rightarrow> observers \<Rightarrow> nat option \<times> observers" where
  "register_if_absent request_key ob =
     (let insert = (\<lambda>ob. (Some (length (ob_store ob)),
            ob\<lparr>ob_sinks := AList.update request_key (length (ob_store ob)) (ob_sinks ob),
              ob_store := ob_store ob @ [new_sink]\<rparr>))
      in case map_of (ob_sinks ob) request_key of
           None \<Rightarrow> insert ob
         | Some i \<Rightarrow>
             if \<not> closed_sink (ob_store ob ! i) then (None, ob)
             else insert (remove_sink_routes i ob))"

definition has_live_observer :: "string \<Rightarrow> observers \<Rightarrow> bool \<times> observers" where
  "has_live_observer request_key ob =
     (case map_of (ob_sinks ob) request_key of
        None \<Rightarrow> (False, ob)
      | Some i \<Rightarrow>
          if closed_sink (ob_store ob ! i) then (False, remove_sink_routes i ob) else (True, ob))"

fun has_duplicate_keys :: "string list \<Rightarrow> bool" where
  "has_duplicate_keys [] = False"
| "has_duplicate_keys (k # ks) = (k \<in> set ks \<or> has_duplicate_keys ks)"

definition transfer_many :: "string \<Rightarrow> string list \<Rightarrow> observers \<Rightarrow> bool \<times> observers" where
  "transfer_many from_request_key to_request_keys ob =
     (if to_request_keys = [] \<or> from_request_key \<in> set to_request_keys \<or> has_duplicate_keys to_request_keys
      then (False, ob)
      else if list_ex (\<lambda>k. map_of (ob_sinks ob) k \<noteq> None) to_request_keys then (False, ob)
      else case map_of (ob_sinks ob) from_request_key of
        None \<Rightarrow> (False, ob)
      | Some i \<Rightarrow>
          (let sk = ob_store ob ! i in
           if closed_sink sk then (False, remove_sink_routes i ob)
           else if sk_pending_turns sk = 0 then (False, ob)
           else
             (let ob = set_sink i (sk\<lparr>sk_pending_turns := sk_pending_turns sk - 1 + length to_request_keys\<rparr>) ob
              in (True, ob\<lparr>ob_sinks := fold (\<lambda>k. AList.update k i) to_request_keys
                   (AList.delete from_request_key (ob_sinks ob))\<rparr>))))"

definition queue_initial_event :: "string \<Rightarrow> agent_event \<Rightarrow> observers \<Rightarrow> observers" where
  "queue_initial_event request_key event ob =
     (case map_of (ob_sinks ob) request_key of
        None \<Rightarrow> ob
      | Some i \<Rightarrow>
          (let sk = ob_store ob ! i
           in set_sink i (sk\<lparr>sk_initial_events := AList.update request_key event (sk_initial_events sk)\<rparr>) ob))"

text \<open>A final response waits until its Turn finishes.\<close>

definition emit :: "string \<Rightarrow> agent_event \<Rightarrow> observers \<Rightarrow> observers" where
  "emit request_key event ob =
     (case map_of (ob_sinks ob) request_key of
        None \<Rightarrow> ob
      | Some i \<Rightarrow>
          (let sk = ob_store ob ! i in
           case event of
             FinalResponseEvent turn_id assistant_message_id text' _ \<Rightarrow>
               set_sink i (sk\<lparr>sk_pending_final_response := Some \<lparr>pfr_turn_id = turn_id,
                 pfr_assistant_message_id = assistant_message_id, pfr_text = text'\<rparr>\<rparr>) ob
           | _ \<Rightarrow>
               if sk_events_closed sk then remove_sink_routes i ob
               else set_sink i (sk\<lparr>sk_events := sk_events sk @ [event]\<rparr>) ob))"

definition emit_initial_event :: "string \<Rightarrow> observers \<Rightarrow> observers" where
  "emit_initial_event request_key ob =
     (case map_of (ob_sinks ob) request_key of
        None \<Rightarrow> ob
      | Some i \<Rightarrow>
          (let sk = ob_store ob ! i;
               ob' = set_sink i (sk\<lparr>sk_initial_events := AList.delete request_key (sk_initial_events sk)\<rparr>) ob
           in case map_of (sk_initial_events sk) request_key of
                None \<Rightarrow> ob'
              | Some event \<Rightarrow> emit request_key event ob'))"

definition send_event :: "agent_event \<Rightarrow> observer_sink \<Rightarrow> observer_sink" where
  "send_event event sk = (if sk_events_closed sk then sk else sk\<lparr>sk_events := sk_events sk @ [event]\<rparr>)"

text \<open>\<open>None\<close> is the panic of a Turn that finishes more often than it was assigned.\<close>

definition finish :: "string \<Rightarrow> string \<Rightarrow> turn_outcome \<Rightarrow> observers \<Rightarrow> observers option" where
  "finish request_key turn_id outcome ob =
     (case map_of (ob_sinks ob) request_key of
        None \<Rightarrow> Some ob
      | Some i \<Rightarrow>
          (let sk = ob_store ob ! i;
               ob = ob\<lparr>ob_sinks := AList.delete request_key (ob_sinks ob)\<rparr>;
               terminal = (sk_pending_turns sk = 1);
               sk1 = sk\<lparr>sk_initial_events := AList.delete request_key (sk_initial_events sk),
                  sk_pending_final_response := None, sk_pending_turns := sk_pending_turns sk - 1,
                  sk_completion := (sk_completion sk \<and> \<not> terminal)\<rparr>;
               sk2 = (case outcome of
                   TurnCompleted \<Rightarrow>
                     (case sk_pending_final_response sk of
                        Some f \<Rightarrow> send_event (FinalResponseEvent (pfr_turn_id f) (pfr_assistant_message_id f)
                          (pfr_text f) terminal) sk1
                      | None \<Rightarrow> sk1)
                 | TurnFailed message \<Rightarrow> send_event (ErrorEvent turn_id message terminal) sk1);
               sk3 = (if terminal \<and> sk_completion sk \<and> \<not> sk_completion_closed sk
                      then sk2\<lparr>sk_completed := sk_completed sk2 + 1\<rparr> else sk2)
           in if sk_pending_turns sk = 0 then None
              else Some (set_sink i sk3 (if terminal then remove_sink_routes i ob else ob))))"

section \<open>Runs\<close>

datatype observer_op =
    RegisterObserver string
  | AskObserver string
  | TransferObserver string "string list"
  | QueueInitial string agent_event
  | EmitInitial string
  | EmitEvent string agent_event
  | FinishTurn string string turn_outcome
  | DropEvents nat
  | DropCompletion nat

fun observer_step :: "observer_op \<Rightarrow> observers \<Rightarrow> observers option" where
  "observer_step (RegisterObserver k) ob = Some (snd (register_if_absent k ob))"
| "observer_step (AskObserver k) ob = Some (snd (has_live_observer k ob))"
| "observer_step (TransferObserver k ks) ob = Some (snd (transfer_many k ks ob))"
| "observer_step (QueueInitial k e) ob = Some (queue_initial_event k e ob)"
| "observer_step (EmitInitial k) ob = Some (emit_initial_event k ob)"
| "observer_step (EmitEvent k e) ob = Some (emit k e ob)"
| "observer_step (FinishTurn k i outcome) ob = finish k i outcome ob"
| "observer_step (DropEvents i) ob =
     Some (if i < length (ob_store ob) then set_sink i ((ob_store ob ! i)\<lparr>sk_events_closed := True\<rparr>) ob else ob)"
| "observer_step (DropCompletion i) ob =
     Some (if i < length (ob_store ob) then set_sink i ((ob_store ob ! i)\<lparr>sk_completion_closed := True\<rparr>) ob else ob)"

fun observer_run :: "observer_op list \<Rightarrow> observers \<Rightarrow> observers option" where
  "observer_run [] ob = Some ob"
| "observer_run (p # ps) ob = Option.bind (observer_step p ob) (observer_run ps)"

section \<open>Routes\<close>

definition routes :: "nat \<Rightarrow> (string \<times> nat) list \<Rightarrow> nat" where
  "routes i al = length (filter (\<lambda>(_, j). j = i) al)"

lemma routes_simps [simp]:
  "routes i [] = 0" "routes i ((k, j) # al) = (if j = i then 1 else 0) + routes i al"
  by (simp_all add: routes_def)

lemma routes_Some: "map_of al k = Some i \<Longrightarrow> 0 < routes i al"
  by (induction al) (auto split: if_splits)

lemma routes_pos: "0 < routes i al \<Longrightarrow> \<exists>k. (k, i) \<in> set al"
  by (induction al) (auto split: if_splits)

lemma routes_delete:
  "distinct (map fst al) \<Longrightarrow>
   routes i (AList.delete k al) = routes i al - (if map_of al k = Some i then 1 else 0)"
proof (induction al)
  case (Cons e al)
  obtain k' j where e: "e = (k', j)" by (cases e)
  show ?case
  proof (cases "k' = k")
    case True
    then have "k \<notin> fst ` set al" using Cons.prems e by auto
    then have "AList.delete k al = al" by (force simp: AList.delete_eq filter_id_conv)
    then show ?thesis using True e by (auto simp: AList.delete_eq)
  next
    case False
    have "0 < routes i al" if "map_of al k = Some i" using routes_Some [OF that] .
    then show ?thesis using Cons False e by (auto simp: AList.delete_eq)
  qed
qed (simp add: AList.delete_eq)

lemma routes_update:
  "map_of al k = None \<Longrightarrow> routes i (AList.update k j al) = routes i al + (if i = j then 1 else 0)"
  by (induction al) (auto split: if_splits)

lemma routes_filter: "routes i (filter (\<lambda>(_, j). j \<noteq> m) al) = (if i = m then 0 else routes i al)"
  by (induction al) auto

lemma routes_fold_update:
  "list_all (\<lambda>k. map_of al k = None) ks \<Longrightarrow> \<not> has_duplicate_keys ks \<Longrightarrow>
   routes i (fold (\<lambda>k. AList.update k j) ks al) = routes i al + (if i = j then length ks else 0)"
proof (induction ks arbitrary: al)
  case (Cons k ks)
  have "list_all (\<lambda>k'. map_of (AList.update k j al) k' = None) ks"
    using Cons.prems by (auto simp: list_all_iff update_conv')
  with Cons.IH [OF this] Cons.prems show ?case by (simp add: routes_update)
qed simp

section \<open>Invariant\<close>

fun terminal_event :: "agent_event \<Rightarrow> bool" where
  "terminal_event (FinalResponseEvent _ _ _ terminal) = terminal"
| "terminal_event (ErrorEvent _ _ terminal) = terminal"
| "terminal_event _ = False"

text \<open>What a Turn sends while it runs does not claim to end the interaction.\<close>

fun passing_event :: "agent_event \<Rightarrow> bool" where
  "passing_event (ErrorEvent _ _ terminal) = (\<not> terminal)"
| "passing_event _ = True"

definition open_sink :: "nat \<Rightarrow> observer_sink \<Rightarrow> bool" where
  "open_sink n sk = (sk_pending_turns sk = n \<and> sk_completion sk \<and> sk_completed sk = 0 \<and>
     (\<forall>e \<in> set (sk_events sk). \<not> terminal_event e))"

definition client_gone :: "observer_sink \<Rightarrow> bool" where
  "client_gone sk = (sk_events_closed sk \<or> sk_completion_closed sk)"

lemma client_gone_simps [simp]:
  "client_gone (sk\<lparr>sk_events := es\<rparr>) = client_gone sk"
  "client_gone (sk\<lparr>sk_initial_events := al\<rparr>) = client_gone sk"
  "client_gone (sk\<lparr>sk_pending_turns := n\<rparr>) = client_gone sk"
  "client_gone (sk\<lparr>sk_pending_final_response := f\<rparr>) = client_gone sk"
  "client_gone (sk\<lparr>sk_events_closed := True\<rparr>)" "client_gone (sk\<lparr>sk_completion_closed := True\<rparr>)"
  by (simp_all add: client_gone_def)

definition sink_ok :: "nat \<Rightarrow> observer_sink \<Rightarrow> bool" where
  "sink_ok n sk = ((0 < n \<longrightarrow> open_sink n sk) \<and> (n = 0 \<longrightarrow> sk_completed sk = 1 \<or> client_gone sk) \<and>
     sk_completed sk \<le> 1 \<and>
     (\<forall>e \<in> set (butlast (sk_events sk)). \<not> terminal_event e) \<and>
     (\<forall>e \<in> snd ` set (sk_initial_events sk). passing_event e))"

definition observers_inv :: "observers \<Rightarrow> bool" where
  "observers_inv ob = (distinct (map fst (ob_sinks ob)) \<and>
     (\<forall>(k, i) \<in> set (ob_sinks ob). i < length (ob_store ob)) \<and>
     (\<forall>i < length (ob_store ob). sink_ok (routes i (ob_sinks ob)) (ob_store ob ! i)))"

lemma observers_invD:
  assumes "observers_inv ob"
  shows "distinct (map fst (ob_sinks ob))"
    "map_of (ob_sinks ob) k = Some i \<Longrightarrow> i < length (ob_store ob)"
    "i < length (ob_store ob) \<Longrightarrow> sink_ok (routes i (ob_sinks ob)) (ob_store ob ! i)"
    "map_of (ob_sinks ob) k = Some i \<Longrightarrow> open_sink (routes i (ob_sinks ob)) (ob_store ob ! i)"
proof -
  show d: "distinct (map fst (ob_sinks ob))"
    and s: "i < length (ob_store ob) \<Longrightarrow> sink_ok (routes i (ob_sinks ob)) (ob_store ob ! i)" for i
    using assms by (auto simp: observers_inv_def)
  show l: "map_of (ob_sinks ob) k = Some i \<Longrightarrow> i < length (ob_store ob)"
    using assms by (auto simp: observers_inv_def dest!: map_of_SomeD)
  show "map_of (ob_sinks ob) k = Some i \<Longrightarrow> open_sink (routes i (ob_sinks ob)) (ob_store ob ! i)"
    using s [OF l] routes_Some by (auto simp: sink_ok_def)
qed

lemma new_sink_ok: "sink_ok 1 new_sink"
  by (simp_all add: sink_ok_def open_sink_def new_sink_def)

lemma sink_ok_zero: "sink_ok n sk \<Longrightarrow> client_gone sk \<Longrightarrow> sink_ok 0 sk"
  by (simp add: sink_ok_def)

lemma inv_remove: "observers_inv ob \<Longrightarrow> client_gone (ob_store ob ! i) \<Longrightarrow> observers_inv (remove_sink_routes i ob)"
  by (auto simp: observers_inv_def remove_sink_routes_def routes_filter distinct_map_filter sink_ok_zero)

lemma open_closed_gone: "open_sink n sk \<Longrightarrow> closed_sink sk \<Longrightarrow> client_gone sk"
  by (auto simp: open_sink_def closed_sink_def completion_closed_def client_gone_def)

lemma closed_route_gone:
  "observers_inv ob \<Longrightarrow> map_of (ob_sinks ob) k = Some i \<Longrightarrow> closed_sink (ob_store ob ! i) \<Longrightarrow>
    client_gone (ob_store ob ! i)"
  using observers_invD(4) open_closed_gone by blast

lemma inv_set_sink:
  "observers_inv ob \<Longrightarrow> sink_ok (routes i (ob_sinks ob)) sk \<Longrightarrow> observers_inv (set_sink i sk ob)"
  unfolding observers_inv_def set_sink_def by (simp, metis nth_list_update_eq nth_list_update_neq)

text \<open>A change of one sink together with the table.\<close>

lemma inv_change:
  assumes "observers_inv ob" "distinct (map fst al)" "\<forall>(k, j) \<in> set al. j < length (ob_store ob)"
    and "\<And>j. j \<noteq> i \<Longrightarrow> routes j al = routes j (ob_sinks ob)" "sink_ok (routes i al) sk"
  shows "observers_inv (set_sink i sk (ob\<lparr>ob_sinks := al\<rparr>))"
  using assms unfolding observers_inv_def set_sink_def
  by (simp, metis nth_list_update_eq nth_list_update_neq)

lemma inv_insert:
  assumes inv: "observers_inv ob" and none: "map_of (ob_sinks ob) k = None"
  shows "observers_inv (ob\<lparr>ob_sinks := AList.update k (length (ob_store ob)) (ob_sinks ob),
    ob_store := ob_store ob @ [new_sink]\<rparr>)"
proof -
  have "routes (length (ob_store ob)) (ob_sinks ob) = 0"
    using inv routes_pos [of "length (ob_store ob)" "ob_sinks ob"] by (fastforce simp: observers_inv_def)
  moreover have "j < length (ob_store ob) + 1"
    if "(k', j) \<in> set (AList.update k (length (ob_store ob)) (ob_sinks ob))" for k' j
    using that inv map_of_is_SomeI [OF distinct_update that] observers_invD(1,2) [OF inv]
    by (auto simp: update_conv' split: if_splits) (use less_SucI in blast)
  ultimately show ?thesis
    using inv new_sink_ok
    by (auto simp: observers_inv_def distinct_update routes_update [OF none] nth_append less_Suc_eq)
qed

lemma inv_register: "observers_inv ob \<Longrightarrow> observers_inv (snd (register_if_absent k ob))"
proof -
  assume inv: "observers_inv ob"
  have "map_of (ob_sinks (remove_sink_routes i ob)) k = None" if "map_of (ob_sinks ob) k = Some i" for i
    using that observers_invD(1) [OF inv]
    by (auto simp: remove_sink_routes_def map_of_eq_None_iff) (metis map_of_is_SomeI option.inject)
  then show ?thesis using inv inv_insert inv_insert [OF inv_remove [OF inv closed_route_gone [OF inv]]]
    by (auto simp: register_if_absent_def Let_def split: option.split)
qed

lemma inv_has_live: "observers_inv ob \<Longrightarrow> observers_inv (snd (has_live_observer k ob))"
  by (auto simp: has_live_observer_def inv_remove closed_route_gone split: option.split)

lemma fold_update_keys:
  "map_of (fold (\<lambda>k. AList.update k i) ks al) k' = Some j \<Longrightarrow> j = i \<or> map_of al k' = Some j"
proof (induction ks arbitrary: al)
  case (Cons a ks)
  from Cons.IH [of "AList.update a i al"] Cons.prems show ?case by (auto simp: update_conv' split: if_splits)
qed simp

lemma set_delete_subset: "set (AList.delete k al) \<subseteq> set al"
  by (auto simp: AList.delete_eq)

lemma update_values: "e \<in> snd ` set (AList.update k v al) \<Longrightarrow> e = v \<or> e \<in> snd ` set al"
  by (induction al) (auto split: if_splits)

lemma fold_update_distinct:
  "distinct (map fst al) \<Longrightarrow> distinct (map fst (fold (\<lambda>k. AList.update k i) ks al))"
  by (induction ks arbitrary: al) (simp_all add: distinct_update)

lemma addresses_ok:
  "distinct (map fst al) \<Longrightarrow> (\<And>k j. map_of al k = Some j \<Longrightarrow> j < n) \<Longrightarrow> \<forall>(k, j) \<in> set al. j < n"
  by (auto dest: map_of_is_SomeI)

lemma set_sink_sinks: "(set_sink i sk ob)\<lparr>ob_sinks := al\<rparr> = set_sink i sk (ob\<lparr>ob_sinks := al\<rparr>)"
  by (simp add: set_sink_def)

lemma inv_transfer:
  assumes inv: "observers_inv ob"
  shows "observers_inv (snd (transfer_many k ks ob))"
proof (cases "ks = [] \<or> k \<in> set ks \<or> has_duplicate_keys ks \<or> list_ex (\<lambda>k. map_of (ob_sinks ob) k \<noteq> None) ks \<or>
    map_of (ob_sinks ob) k = None \<or> closed_sink (ob_store ob ! the (map_of (ob_sinks ob) k)) \<or>
    sk_pending_turns (ob_store ob ! the (map_of (ob_sinks ob) k)) = 0")
  case True
  then show ?thesis using inv inv_remove [OF inv closed_route_gone [OF inv]]
    by (auto simp: transfer_many_def Let_def split: option.split)
next
  case False
  then obtain i where i: "map_of (ob_sinks ob) k = Some i" by auto
  let ?sk = "ob_store ob ! i" and ?al = "AList.delete k (ob_sinks ob)"
  let ?new = "fold (\<lambda>k. AList.update k i) ks ?al"
  let ?sk' = "?sk\<lparr>sk_pending_turns := sk_pending_turns ?sk - 1 + length ks\<rparr>"
  note d = observers_invD(1) [OF inv]
  have free: "list_all (\<lambda>k. map_of ?al k = None) ks"
    using False by (auto simp: list_all_iff list_ex_iff delete_conv' )
  have r: "routes j ?new = routes j (ob_sinks ob) - (if i = j then 1 else 0) + (if i = j then length ks else 0)" for j
    using routes_fold_update [OF free, of j i] False i routes_delete [OF d, of j k] by auto
  have "observers_inv (set_sink i ?sk' (ob\<lparr>ob_sinks := ?new\<rparr>))"
  proof (rule inv_change [OF inv])
    show "distinct (map fst ?new)" using d by (intro fold_update_distinct) (simp add: distinct_delete)
    then show "\<forall>(k, j) \<in> set ?new. j < length (ob_store ob)"
    proof (rule addresses_ok)
      fix k' j assume "map_of ?new k' = Some j"
      then have "j = i \<or> map_of (ob_sinks ob) k' = Some j"
        by (auto dest!: fold_update_keys simp: delete_conv' split: if_splits)
      then show "j < length (ob_store ob)" using observers_invD(2) [OF inv] i by blast
    qed
    show "routes j ?new = routes j (ob_sinks ob)" if "j \<noteq> i" for j using r [of j] that by simp
    have "sink_ok (routes i (ob_sinks ob)) ?sk" "open_sink (routes i (ob_sinks ob)) ?sk"
      using observers_invD(2,3,4) [OF inv] i by blast+
    moreover have "0 < length ks" using False by simp
    ultimately show "sink_ok (routes i ?new) ?sk'"
      using r [of i] routes_Some [OF i] by (cases ks) (simp_all add: sink_ok_def open_sink_def)
  qed
  moreover have "snd (transfer_many k ks ob) = (set_sink i ?sk' ob)\<lparr>ob_sinks := ?new\<rparr>"
    using False i unfolding transfer_many_def Let_def by (simp add: set_sink_def)
  ultimately show ?thesis by (simp add: set_sink_sinks)
qed

lemma inv_queue:
  assumes inv: "observers_inv ob" and e: "passing_event e"
  shows "observers_inv (queue_initial_event k e ob)"
proof (cases "map_of (ob_sinks ob) k")
  case (Some i)
  let ?initial = "AList.update k e (sk_initial_events (ob_store ob ! i))"
  note ok = observers_invD(3) [OF inv observers_invD(2) [OF inv Some]]
  have "passing_event v" if "v \<in> snd ` set ?initial" for v
    using update_values [OF that] ok e unfolding sink_ok_def by blast
  then have "sink_ok (routes i (ob_sinks ob)) ((ob_store ob ! i)\<lparr>sk_initial_events := ?initial\<rparr>)"
    using ok by (simp add: sink_ok_def open_sink_def)
  then show ?thesis using Some inv_set_sink [OF inv] by (simp add: queue_initial_event_def Let_def)
qed (simp add: queue_initial_event_def inv)

lemma passing_not_terminal:
  "passing_event e \<Longrightarrow> (\<And>a b c t. e \<noteq> FinalResponseEvent a b c t) \<Longrightarrow> \<not> terminal_event e"
  by (cases e) auto

lemma sink_ok_send:
  "sink_ok n sk \<Longrightarrow> open_sink n sk \<Longrightarrow> \<not> terminal_event e \<Longrightarrow> sink_ok n (sk\<lparr>sk_events := sk_events sk @ [e]\<rparr>)"
  by (auto simp: sink_ok_def open_sink_def)

lemma inv_emit:
  assumes inv: "observers_inv ob" and e: "passing_event e"
  shows "observers_inv (emit k e ob)"
proof (cases "map_of (ob_sinks ob) k")
  case (Some i)
  note ok = observers_invD(3) [OF inv observers_invD(2) [OF inv Some]] observers_invD(4) [OF inv Some]
  show ?thesis
  proof (cases "\<exists>a b c t. e = FinalResponseEvent a b c t")
    case True
    then show ?thesis using Some ok
      by (auto simp: emit_def Let_def sink_ok_def open_sink_def intro!: inv_set_sink [OF inv])
  next
    case False
    then have "emit k e ob = (if sk_events_closed (ob_store ob ! i) then remove_sink_routes i ob
        else set_sink i ((ob_store ob ! i)\<lparr>sk_events := sk_events (ob_store ob ! i) @ [e]\<rparr>) ob)"
      using Some by (cases e) (auto simp: emit_def Let_def)
    then show ?thesis
      using inv_remove [OF inv, of i] inv_set_sink [OF inv sink_ok_send [OF ok passing_not_terminal [OF e]]] False
      by (auto simp: client_gone_def)
  qed
qed (simp add: emit_def inv)

lemma inv_emit_initial:
  assumes inv: "observers_inv ob"
  shows "observers_inv (emit_initial_event k ob)"
proof (cases "map_of (ob_sinks ob) k")
  case (Some i)
  let ?sk = "ob_store ob ! i"
  let ?ob = "set_sink i (?sk\<lparr>sk_initial_events := AList.delete k (sk_initial_events ?sk)\<rparr>) ob"
  note ok = observers_invD(3) [OF inv observers_invD(2) [OF inv Some]]
  have "observers_inv ?ob"
    using ok set_delete_subset [of k "sk_initial_events ?sk"]
    by (intro inv_set_sink [OF inv]) (auto simp: sink_ok_def open_sink_def)
  moreover have "passing_event e" if "map_of (sk_initial_events ?sk) k = Some e" for e
    using ok map_of_SomeD [OF that] by (force simp: sink_ok_def)
  ultimately show ?thesis using Some inv_emit
    by (auto simp: emit_initial_event_def Let_def split: option.split)
qed (simp add: emit_initial_event_def inv)

lemma inv_drop:
  assumes inv: "observers_inv ob" and i: "i < length (ob_store ob)"
  shows "observers_inv (set_sink i ((ob_store ob ! i)\<lparr>sk_events_closed := True\<rparr>) ob)"
    "observers_inv (set_sink i ((ob_store ob ! i)\<lparr>sk_completion_closed := True\<rparr>) ob)"
  using observers_invD(3) [OF inv i] by (auto simp: sink_ok_def open_sink_def intro!: inv_set_sink [OF inv])

text \<open>Finishing never panics; it ends the interaction exactly when no other Turn is assigned.\<close>

lemma send_event_simps [simp]:
  "sk_pending_turns (send_event e sk) = sk_pending_turns sk" "sk_completion (send_event e sk) = sk_completion sk"
  "sk_completed (send_event e sk) = sk_completed sk" "sk_initial_events (send_event e sk) = sk_initial_events sk"
  by (simp_all add: send_event_def)

lemma sink_ok_finish:
  assumes ok: "sink_ok (Suc n) sk" and same: "sk_pending_turns sk' = n" "sk_completion sk' = (n \<noteq> 0)"
      "sk_completed sk' \<le> (if n = 0 then 1 else 0)"
      "snd ` set (sk_initial_events sk') \<subseteq> snd ` set (sk_initial_events sk)"
      "n = 0 \<Longrightarrow> sk_completed sk' = 1 \<or> client_gone sk'"
    and events: "sk_events sk' = sk_events sk \<or> (\<exists>e. sk_events sk' = sk_events sk @ [e] \<and> (n \<noteq> 0 \<longrightarrow> \<not> terminal_event e))"
  shows "sink_ok n sk'"
proof -
  have quiet: "\<forall>e \<in> set (sk_events sk). \<not> terminal_event e" using ok by (simp add: sink_ok_def open_sink_def)
  then have "\<forall>e \<in> set (butlast (sk_events sk')). \<not> terminal_event e"
    using events by (auto dest: in_set_butlastD)
  moreover have "\<forall>e \<in> snd ` set (sk_initial_events sk'). passing_event e"
    using ok same(4) unfolding sink_ok_def by blast
  ultimately show ?thesis
    using same(1-3,5) events quiet by (auto simp: sink_ok_def open_sink_def split: if_splits)
qed

lemma inv_finish:
  assumes inv: "observers_inv ob"
  shows "\<exists>ob'. finish k t outcome ob = Some ob' \<and> observers_inv ob'"
proof (cases "map_of (ob_sinks ob) k")
  case (Some i)
  let ?sk = "ob_store ob ! i" and ?al = "AList.delete k (ob_sinks ob)"
  note d = observers_invD(1) [OF inv]
  note ok = observers_invD(3) [OF inv observers_invD(2) [OF inv Some]] observers_invD(4) [OF inv Some]
  obtain n where n: "routes i (ob_sinks ob) = Suc n" using routes_Some [OF Some] gr0_implies_Suc by blast
  have pending: "sk_pending_turns ?sk = Suc n" "sk_completion ?sk" "sk_completed ?sk = 0"
    using ok(2) n by (simp_all add: open_sink_def)
  have r: "routes j ?al = (if j = i then n else routes j (ob_sinks ob))" for j
    using routes_delete [OF d, of j k] Some n by auto
  obtain sk3 where sk3: "finish k t outcome ob = Some (set_sink i sk3
      (if n = 0 then remove_sink_routes i (ob\<lparr>ob_sinks := ?al\<rparr>) else ob\<lparr>ob_sinks := ?al\<rparr>))"
    "sk_pending_turns sk3 = n" "sk_completion sk3 = (n \<noteq> 0)" "sk_completed sk3 \<le> (if n = 0 then 1 else 0)"
    "sk_initial_events sk3 = AList.delete k (sk_initial_events ?sk)"
    "n = 0 \<longrightarrow> sk_completed sk3 = 1 \<or> client_gone sk3"
    "sk_events sk3 = sk_events ?sk \<or> (\<exists>e. sk_events sk3 = sk_events ?sk @ [e] \<and> (n \<noteq> 0 \<longrightarrow> \<not> terminal_event e))"
  proof (rule that)
    let ?sk1 = "?sk\<lparr>sk_initial_events := AList.delete k (sk_initial_events ?sk), sk_pending_final_response := None,
      sk_pending_turns := n, sk_completion := (n \<noteq> 0)\<rparr>"
    let ?sk2 = "case outcome of
        TurnCompleted \<Rightarrow>
          (case sk_pending_final_response ?sk of
             Some f \<Rightarrow> send_event (FinalResponseEvent (pfr_turn_id f) (pfr_assistant_message_id f) (pfr_text f) (n = 0)) ?sk1
           | None \<Rightarrow> ?sk1)
      | TurnFailed message \<Rightarrow> send_event (ErrorEvent t message (n = 0)) ?sk1"
    let ?sk3 = "if n = 0 \<and> \<not> sk_completion_closed ?sk then ?sk2\<lparr>sk_completed := sk_completed ?sk2 + 1\<rparr> else ?sk2"
    show "finish k t outcome ob = Some (set_sink i ?sk3
      (if n = 0 then remove_sink_routes i (ob\<lparr>ob_sinks := ?al\<rparr>) else ob\<lparr>ob_sinks := ?al\<rparr>))"
      using Some pending unfolding finish_def Let_def
      by (cases "n = 0"; cases outcome; cases "sk_pending_final_response ?sk") simp_all
    show "sk_pending_turns ?sk3 = n" "sk_completion ?sk3 = (n \<noteq> 0)" "sk_completed ?sk3 \<le> (if n = 0 then 1 else 0)"
      "sk_initial_events ?sk3 = AList.delete k (sk_initial_events ?sk)"
      using pending by (simp_all split: turn_outcome.split option.split)
    show "n = 0 \<longrightarrow> sk_completed ?sk3 = 1 \<or> client_gone ?sk3"
      using pending by (auto simp: client_gone_def send_event_def split: turn_outcome.split option.split)
    show "sk_events ?sk3 = sk_events ?sk \<or> (\<exists>e. sk_events ?sk3 = sk_events ?sk @ [e] \<and> (n \<noteq> 0 \<longrightarrow> \<not> terminal_event e))"
      by (auto simp: send_event_def split: turn_outcome.split option.split)
  qed
  have ok3: "sink_ok n sk3"
    using sink_ok_finish [OF ok(1) [unfolded n] sk3(2,3,4) _ _ sk3(7)] sk3(5,6) set_delete_subset [of k "sk_initial_events ?sk"]
    by auto
  have "observers_inv (set_sink i sk3 (ob\<lparr>ob_sinks := ?al\<rparr>))"
  proof (rule inv_change [OF inv])
    show "distinct (map fst ?al)" using d by (simp add: distinct_delete)
    then show "\<forall>(k, j) \<in> set ?al. j < length (ob_store ob)"
      using observers_invD(2) [OF inv] by (intro addresses_ok) (auto simp: delete_conv' split: if_splits)
  qed (use r ok3 in simp_all)
  moreover have "filter (\<lambda>(_, j). j \<noteq> i) ?al = ?al" if "n = 0"
    using r [of i] that by (auto simp: routes_def filter_id_conv filter_empty_conv)
  then have "remove_sink_routes i (ob\<lparr>ob_sinks := ?al\<rparr>) = ob\<lparr>ob_sinks := ?al\<rparr>" if "n = 0"
    using that by (simp add: remove_sink_routes_def)
  ultimately show ?thesis using sk3(1) by auto
qed (simp add: finish_def inv)

section \<open>Interactions end once\<close>

fun passing_op :: "observer_op \<Rightarrow> bool" where
  "passing_op (QueueInitial _ e) = passing_event e"
| "passing_op (EmitEvent _ e) = passing_event e"
| "passing_op _ = True"

lemma inv_step:
  assumes "observers_inv ob" "passing_op p"
  shows "\<exists>ob'. observer_step p ob = Some ob' \<and> observers_inv ob'"
  using assms
  by (cases p) (auto simp: inv_register inv_has_live inv_transfer inv_queue inv_emit_initial inv_emit inv_finish inv_drop)

lemma inv_run:
  "observers_inv ob \<Longrightarrow> list_all passing_op ps \<Longrightarrow> \<exists>ob'. observer_run ps ob = Some ob' \<and> observers_inv ob'"
proof (induction ps arbitrary: ob)
  case (Cons p ps)
  then obtain ob1 where "observer_step p ob = Some ob1" "observers_inv ob1" using inv_step by fastforce
  then show ?case using Cons by simp
qed simp


text \<open>A Turn whose follow-up becomes a Turn of its own, seen through the same observer.\<close>

definition sample_interaction :: "observer_op list" where
  "sample_interaction =
     [RegisterObserver ''a'', EmitEvent ''a'' (DeltaEvent ''m'' ''hi''), TransferObserver ''a'' [''b'', ''c''],
      EmitEvent ''b'' (FinalResponseEvent ''t'' ''m2'' ''ok'' False), FinishTurn ''b'' ''t'' TurnCompleted,
      FinishTurn ''c'' ''u'' (TurnFailed ''late'')]"

lemma sample_interaction_runs:
  "map_option (\<lambda>ob. (sk_events (ob_store ob ! 0), sk_completed (ob_store ob ! 0)))
     (observer_run sample_interaction observers_new) =
   Some ([DeltaEvent ''m'' ''hi'', FinalResponseEvent ''t'' ''m2'' ''ok'' False, ErrorEvent ''u'' ''late'' True], 1)"
  by code_simp


end
