(* ===== verification/Turn_Intake.thy ===== *)
theory Turn_Intake
  imports Turn_Settles Turn_Scheduler Turn_Observer
begin

text \<open>
  \<open>src/src/runtime/channel_input.rs\<close>: how input from a channel, a tool or a client becomes a
  durable Turn that the scheduler starts. The state is the process: the databases of the two
  scopes, the tracker, the scheduler, the observers and the shutdown flags. Between any two steps
  of a function the other tasks run, and any storage call may fail without effect.
\<close>

section \<open>The process\<close>

text \<open>The configuration as a Turn sees it.\<close>

record config_snapshot =
  cs_revision :: "64 word"
  cs_fingerprint :: string
  cs_agents :: "string list"

text \<open>
  \<open>AppState\<close>. There is a database for each scope, and \<open>ap_secret\<close> says whether the one of the
  secret scope was opened (without it \<open>db_for\<close> panics for that scope). \<open>ap_spawned\<close> are the Turns
  whose tasks were handed to the supervisor, \<open>ap_sent\<close> the texts sent to channels, and \<open>ap_rest\<close>
  is everything else.
\<close>

record 'x app =
  ap_databases :: "conversation_scope \<Rightarrow> database"
  ap_secret :: bool
  ap_assets :: asset_store
  ap_tracker :: tracker
  ap_scheduler :: "config_snapshot scheduler"
  ap_observers :: observers
  ap_accepting :: bool
  ap_shutting_down :: bool
  ap_spawned :: "config_snapshot scheduled_turn list"
  ap_sent :: "(string \<times> string \<times> string) list"
  ap_rest :: 'x

text \<open>
  What the functions use besides: the other tasks, the failures of the storage, the clocks, fresh
  identifiers, the current configuration, and the serializer and digest of the payload.
\<close>

record 'x app_env =
  ae_others :: "'x app \<Rightarrow> 'x app"
  ae_fault :: "'x app \<Rightarrow> storage_error option"
  ae_clock :: "'x app \<Rightarrow> string"
  ae_instant :: "'x app \<Rightarrow> nat"
  ae_uuid :: "'x app \<Rightarrow> nat \<Rightarrow> string"
  ae_config :: "'x app \<Rightarrow> config_snapshot"
  ae_print :: "json \<Rightarrow> string"
  ae_parse :: "string \<Rightarrow> json option"
  ae_sha256_hex :: "string \<Rightarrow> string"

definition set_database :: "conversation_scope \<Rightarrow> database \<Rightarrow> 'x app \<Rightarrow> 'x app" where
  "set_database scope db s = s\<lparr>ap_databases := (ap_databases s)(scope := db)\<rparr>"

definition scoped_databases :: "'x app \<Rightarrow> conversation_scope list" where
  "scoped_databases s = (if ap_secret s then [Normal, Secret] else [Normal])"

text \<open>\<open>call_blocking\<close>: after the other tasks ran, the call fails or does its operation.\<close>

definition app_call ::
  "('x, 'z) app_env_scheme \<Rightarrow> conversation_scope \<Rightarrow> (string \<Rightarrow> database \<Rightarrow> 'a tx) \<Rightarrow> 'x app \<Rightarrow>
   (storage_error + 'a) \<times> 'x app" where
  "app_call env scope f s =
     (let s = ae_others env s
      in case ae_fault env s of
           Some e \<Rightarrow> (Inl e, s)
         | None \<Rightarrow>
             (case f (ae_clock env s) (ap_databases s scope) of
                Inl e \<Rightarrow> (Inl e, s)
              | Inr (a, db) \<Rightarrow> (Inr a, set_database scope db s)))"

definition app_read ::
  "('x, 'z) app_env_scheme \<Rightarrow> conversation_scope \<Rightarrow> (database \<Rightarrow> storage_error + 'a) \<Rightarrow> 'x app \<Rightarrow>
   (storage_error + 'a) \<times> 'x app" where
  "app_read env scope f = app_call env scope (\<lambda>_ db. rbind (f db) (\<lambda>a. Inr (a, db)))"

text \<open>An operation under the lock of the tracker, the scheduler or the observers.\<close>

definition on_tracker ::
  "('x, 'z) app_env_scheme \<Rightarrow> (nat \<Rightarrow> tracker \<Rightarrow> 'a \<times> tracker) \<Rightarrow> 'x app \<Rightarrow> 'a \<times> 'x app" where
  "on_tracker env f s =
     (let s = ae_others env s; (a, t) = f (ae_instant env s) (ap_tracker s)
      in (a, s\<lparr>ap_tracker := t\<rparr>))"

definition on_observers ::
  "('x, 'z) app_env_scheme \<Rightarrow> (observers \<Rightarrow> 'a \<times> observers) \<Rightarrow> 'x app \<Rightarrow> 'a \<times> 'x app" where
  "on_observers env f s =
     (let s = ae_others env s; (a, ob) = f (ap_observers s) in (a, s\<lparr>ap_observers := ob\<rparr>))"

definition release_origin :: "('x, 'z) app_env_scheme \<Rightarrow> string \<Rightarrow> 'x app \<Rightarrow> 'x app" where
  "release_origin env origin_id s = snd (on_tracker env (\<lambda>_ t. ((), release origin_id t)) s)"

section \<open>Channel Log\<close>

datatype channel_log_key = DiscordKey nat | TelegramKey int

record human_channel_log_message =
  hcl_key :: channel_log_key
  hcl_scope :: conversation_scope
  hcl_id :: string
  hcl_sender_id :: string
  hcl_content :: string
  hcl_timestamp :: string
  hcl_recipient_agent_id :: "string option"

definition channel_scope_from_secret :: "bool \<Rightarrow> conversation_scope" where
  "channel_scope_from_secret secret = (if secret then Secret else Normal)"

definition build_channel_context ::
  "string \<Rightarrow> string \<Rightarrow> string \<Rightarrow> string \<Rightarrow> string \<Rightarrow> conversation_scope \<Rightarrow> surface_context" where
  "build_channel_context channel surface_user surface_thread chat_type agent_id scope =
     (surface_context_new channel surface_user surface_thread chat_type agent_id)\<lparr>sc_scope := scope\<rparr>"

text \<open>A message that cannot be stored is logged; the chat is answered all the same.\<close>

definition store_human_channel_log_message ::
  "('x, 'z) app_env_scheme \<Rightarrow> human_channel_log_message \<Rightarrow> 'x app \<Rightarrow> int option \<times> 'x app" where
  "store_human_channel_log_message env message s =
     (case app_call env (hcl_scope message) (\<lambda>now. case hcl_key message of
          DiscordKey channel_id \<Rightarrow> resolve_channel_log_chat_id now channel_id
        | TelegramKey chat_id \<Rightarrow> resolve_telegram_channel_log_chat_id now chat_id) s of
        (Inl e, s) \<Rightarrow> (None, s)
      | (Inr chat_id, s) \<Rightarrow>
          (let stored = \<lparr>msg_id = hcl_id message, msg_chat_id = chat_id,
                 msg_sender_id = hcl_sender_id message, msg_content = hcl_content message,
                 msg_sender_kind = SenderUser, msg_timestamp = hcl_timestamp message,
                 msg_message_kind = MessageMsg, msg_recipient_agent_id = hcl_recipient_agent_id message,
                 msg_seq = None, msg_turn_id = None, msg_parent_message_id = None\<rparr>
           in (Some chat_id, snd (app_call env (hcl_scope message) (\<lambda>now. store_message_only now stored) s))))"

section \<open>Acceptance\<close>

datatype submit_outcome = SubmitStarted | SubmitQueued | SubmitRejected reject_reason

datatype accepted_scheduled_turn = CreatedTurn "config_snapshot scheduled_turn" | ExistingTurn turn

text \<open>\<open>session.rs\<close>\<close>

definition resolve_context_chat ::
  "('x, 'z) app_env_scheme \<Rightarrow> surface_context \<Rightarrow> 'x app \<Rightarrow> (storage_error + int) \<times> 'x app" where
  "resolve_context_chat env c =
     app_call env (sc_scope c) (\<lambda>now.
       resolve_or_create_chat_id now (sc_channel c) (session_key c) (sc_chat_type c) (sc_agent_id c))"

definition durable_accept_params ::
  "('x, 'z) app_env_scheme \<Rightarrow> int \<Rightarrow> config_snapshot scheduled_turn \<Rightarrow> config_snapshot \<Rightarrow> accept_turn_params" where
  "durable_accept_params env chat_id t snapshot =
     \<lparr>atp_chat_id = chat_id, atp_request_key = sc_request_key (sdt_context t),
      atp_config_revision = sint (cs_revision snapshot),
      atp_config_fingerprint = Some (cs_fingerprint snapshot),
      atp_request_payload_hash =
        canonical_request_hash (ae_print env) (ae_sha256_hex env) (sdt_context t) (sdt_input t),
      atp_origin_id = (if sdt_origin_id t = [] then None else Some (sdt_origin_id t)),
      atp_scheduled_request_json = Some (serialize_scheduled_turn (ae_print env) t)\<rparr>"

definition durably_accept_turn ::
  "('x, 'z) app_env_scheme \<Rightarrow> config_snapshot scheduled_turn \<Rightarrow> 'x app \<Rightarrow>
   (storage_error + accept_outcome) \<times> 'x app" where
  "durably_accept_turn env t s =
     (case resolve_context_chat env (sdt_context t) s of
        (Inl e, s) \<Rightarrow> (Inl e, s)
      | (Inr chat_id, s) \<Rightarrow>
          (let snapshot = (case sdt_config_snapshot t of Some c \<Rightarrow> c | None \<Rightarrow> ae_config env s)
           in app_call env (sc_scope (sdt_context t)) (\<lambda>now.
                accept_or_get_turn now (ae_uuid env s 2) (durable_accept_params env chat_id t snapshot)) s))"

definition accept_rejection :: "storage_error \<Rightarrow> reject_reason" where
  "accept_rejection e = (case e of
      TurnSessionQueueFull \<Rightarrow> SessionQueueFull
    | TurnGlobalQueueFull \<Rightarrow> GlobalQueueFull
    | Conflict _ \<Rightarrow> RequestConflict
    | _ \<Rightarrow> reject_reason.Internal)"

text \<open>The Turn with the fields that the boundary fills in, and with the identity of its row.\<close>

definition completed_request ::
  "('x, 'z) app_env_scheme \<Rightarrow> 'x app \<Rightarrow> config_snapshot scheduled_turn \<Rightarrow> config_snapshot scheduled_turn" where
  "completed_request env s t0 =
     (let t1 = (if sdt_received_at t0 = None then t0\<lparr>sdt_received_at := Some (ae_clock env s)\<rparr> else t0);
          t2 = (if sdt_config_snapshot t1 = None
                then t1\<lparr>sdt_config_snapshot := Some (ae_config env s)\<rparr> else t1);
          t3 = (if sc_request_key (sdt_context t2) = []
                then t2\<lparr>sdt_context := (sdt_context t2)\<lparr>sc_request_key := ae_uuid env s 0\<rparr>\<rparr> else t2)
      in if sdt_origin_id t3 = []
         then t3\<lparr>sdt_origin_id := ae_uuid env s 1,
                 sdt_context := (sdt_context t3)\<lparr>sc_origin_id := ae_uuid env s 1\<rparr>\<rparr>
         else t3)"

definition stamped :: "turn \<Rightarrow> config_snapshot scheduled_turn \<Rightarrow> config_snapshot scheduled_turn" where
  "stamped run t =
     (let t = t\<lparr>sdt_turn_id := tr_turn_id run\<rparr>
      in case tr_origin_id run of
           None \<Rightarrow> t
         | Some origin \<Rightarrow> t\<lparr>sdt_origin_id := origin, sdt_context := (sdt_context t)\<lparr>sc_origin_id := origin\<rparr>\<rparr>)"

definition accept_scheduled_turn ::
  "('x, 'z) app_env_scheme \<Rightarrow> config_snapshot scheduled_turn \<Rightarrow> 'x app \<Rightarrow>
   (reject_reason + accepted_scheduled_turn) \<times> 'x app" where
  "accept_scheduled_turn env t0 s =
     (let t = completed_request env s t0; origin_id = sdt_origin_id t; s = ae_others env s in
      if \<not> ap_accepting s then (Inl Shutdown, s)
      else case on_tracker env (\<lambda>now. reserve now origin_id) s of
        (Inl reason, s) \<Rightarrow> (Inl reason, s)
      | (Inr _, s) \<Rightarrow>
          (case durably_accept_turn env t s of
             (Inl e, s) \<Rightarrow> (Inl (accept_rejection e), release_origin env origin_id s)
           | (Inr (Existing run), s) \<Rightarrow> (Inr (ExistingTurn run), release_origin env origin_id s)
           | (Inr (Created run), s) \<Rightarrow> (Inr (CreatedTurn (stamped run t)), s)))"

section \<open>Scheduling\<close>

definition schedule_and_spawn ::
  "('x, 'z) app_env_scheme \<Rightarrow> config_snapshot scheduled_turn \<Rightarrow> 'x app \<Rightarrow> submit_outcome \<times> 'x app" where
  "schedule_and_spawn env t s =
     (let s = ae_others env s in
      if ap_shutting_down s then (SubmitQueued, s)
      else
        (let s = ae_others env s; (r, scheduler) = submit t (ap_scheduler s);
             s = s\<lparr>ap_scheduler := scheduler\<rparr>
         in case r of
              Started turn \<Rightarrow> (SubmitStarted, s\<lparr>ap_spawned := ap_spawned s @ [turn]\<rparr>)
            | _ \<Rightarrow> (SubmitQueued, s)))"

definition enqueue_durable_turn ::
  "('x, 'z) app_env_scheme \<Rightarrow> config_snapshot scheduled_turn \<Rightarrow> 'x app \<Rightarrow> submit_outcome \<times> 'x app" where
  "enqueue_durable_turn env t = schedule_and_spawn env t"

definition schedule_accepted_turn ::
  "('x, 'z) app_env_scheme \<Rightarrow> config_snapshot scheduled_turn \<Rightarrow> 'x app \<Rightarrow> 'x app" where
  "schedule_accepted_turn env t s = snd (schedule_and_spawn env t s)"

definition submit_scheduled_turn ::
  "('x, 'z) app_env_scheme \<Rightarrow> config_snapshot scheduled_turn \<Rightarrow> 'x app \<Rightarrow> submit_outcome \<times> 'x app" where
  "submit_scheduled_turn env t s =
     (case accept_scheduled_turn env t s of
        (Inr (CreatedTurn t), s) \<Rightarrow> schedule_and_spawn env t s
      | (Inr (ExistingTurn _), s) \<Rightarrow> (SubmitQueued, s)
      | (Inl reason, s) \<Rightarrow> (SubmitRejected reason, s))"

text \<open>\<open>TurnIntake\<close>: bound once; a second bind panics, and a call before it is rejected.\<close>

definition intake_bind :: "bool \<Rightarrow> bool option" where
  "intake_bind bound = (if bound then None else Some True)"

definition intake_submit ::
  "('x, 'z) app_env_scheme \<Rightarrow> bool \<Rightarrow> config_snapshot scheduled_turn \<Rightarrow> 'x app \<Rightarrow> submit_outcome \<times> 'x app" where
  "intake_submit env bound t s =
     (if bound then submit_scheduled_turn env t s else (SubmitRejected reject_reason.Internal, s))"

definition submit_agent_turn ::
  "('x, 'z) app_env_scheme \<Rightarrow> surface_context \<Rightarrow> string \<Rightarrow> 'x app \<Rightarrow> submit_outcome \<times> 'x app" where
  "submit_agent_turn env c input s =
     submit_scheduled_turn env
       \<lparr>sdt_turn_id = ae_uuid env s 3, sdt_context = c, sdt_input = input, sdt_origin_id = sc_origin_id c,
        sdt_received_at = Some (ae_clock env s), sdt_config_snapshot = None,
        sdt_response_delivery = Channel\<rparr> s"

text \<open>The client gets the address of its observer, or none if the request has a live one.\<close>

datatype observed_turn_submission =
    ObservedCreated "nat option" submit_outcome string
  | ObservedExisting turn "nat option"

definition submit_observed_agent_turn_with_identity ::
  "('x, 'z) app_env_scheme \<Rightarrow> surface_context \<Rightarrow> string \<Rightarrow> 'x app \<Rightarrow>
   (reject_reason + observed_turn_submission) \<times> 'x app" where
  "submit_observed_agent_turn_with_identity env c0 input s =
     (let c = (if sc_request_key c0 = [] then c0\<lparr>sc_request_key := ''tui:'' @ ae_uuid env s 4\<rparr> else c0);
          t = \<lparr>sdt_turn_id = ae_uuid env s 3, sdt_context = c, sdt_input = input,
               sdt_origin_id = sc_origin_id c, sdt_received_at = Some (ae_clock env s),
               sdt_config_snapshot = None, sdt_response_delivery = ClientOwned\<rparr>
      in case accept_scheduled_turn env t s of
           (Inl reason, s) \<Rightarrow> (Inl reason, s)
         | (Inr (CreatedTurn t), s) \<Rightarrow>
             (let (observer, s) = on_observers env (register_if_absent (sc_request_key c)) s;
                  (outcome, s) = schedule_and_spawn env t s
              in (Inr (ObservedCreated observer outcome (sdt_turn_id t)), s))
         | (Inr (ExistingTurn run), s) \<Rightarrow>
             if is_terminal (tr_state run) then (Inr (ObservedExisting run None), s)
             else
               (let (observer, s) = on_observers env (register_if_absent (sc_request_key c)) s
                in (Inr (ObservedExisting run observer), s)))"

definition submit_observed_agent_turn ::
  "('x, 'z) app_env_scheme \<Rightarrow> surface_context \<Rightarrow> string \<Rightarrow> 'x app \<Rightarrow> (reject_reason + nat) \<times> 'x app" where
  "submit_observed_agent_turn env c input s =
     (case submit_observed_agent_turn_with_identity env c input s of
        (Inr (ObservedCreated (Some observer) _ _), s) \<Rightarrow> (Inr observer, s)
      | (Inl reason, s) \<Rightarrow> (Inl reason, s)
      | (_, s) \<Rightarrow> (Inl reject_reason.Internal, s))"

section \<open>Follow-ups\<close>

datatype tool_followup_outcome = FollowupAccepted | FollowupNoToolPhase

definition try_stage_tool_followup_with_turn_id ::
  "('x, 'z) app_env_scheme \<Rightarrow> surface_context \<Rightarrow> string \<Rightarrow> 'x app \<Rightarrow>
   (egopulse_error + string option) \<times> 'x app" where
  "try_stage_tool_followup_with_turn_id env c0 input s0 =
     (let s = ae_others env s0 in
      if \<not> ap_accepting s then (Inl ShutdownRequested, s)
      else
        (let c = (if sc_request_key c0 = [] then c0\<lparr>sc_request_key := ae_uuid env s 0\<rparr> else c0)
         in case resolve_context_chat env c s of
              (Inl e, s) \<Rightarrow> (Inl (StorageFailure e), s)
            | (Inr chat_id, s) \<Rightarrow>
                (case app_call env (sc_scope c) (\<lambda>_.
                     stage_tool_followup chat_id (sc_request_key c)
                       (canonical_request_hash (ae_print env) (ae_sha256_hex env) c input)
                       (sc_surface_user c) input (ae_clock env s)) s of
                   (Inl e, s) \<Rightarrow> (Inl (StorageFailure e), s)
                 | (Inr (StageAccepted m), s) \<Rightarrow>
                     (case msg_turn_id m of
                        Some i \<Rightarrow> (Inr (Some i), s)
                      | None \<Rightarrow> (Inl (Internal ''staged follow-up has no owning Turn''), s))
                 | (Inr NoToolPhase, s) \<Rightarrow> (Inr None, s))))"

definition try_stage_tool_followup ::
  "('x, 'z) app_env_scheme \<Rightarrow> surface_context \<Rightarrow> string \<Rightarrow> 'x app \<Rightarrow>
   (egopulse_error + tool_followup_outcome) \<times> 'x app" where
  "try_stage_tool_followup env c input s =
     (case try_stage_tool_followup_with_turn_id env c input s of
        (Inl e, s) \<Rightarrow> (Inl e, s)
      | (Inr (Some _), s) \<Rightarrow> (Inr FollowupAccepted, s)
      | (Inr None, s) \<Rightarrow> (Inr FollowupNoToolPhase, s))"

definition session_has_unfinished_turn ::
  "('x, 'z) app_env_scheme \<Rightarrow> surface_context \<Rightarrow> 'x app \<Rightarrow> (egopulse_error + bool) \<times> 'x app" where
  "session_has_unfinished_turn env c s =
     (case resolve_context_chat env c s of
        (Inl e, s) \<Rightarrow> (Inl (StorageFailure e), s)
      | (Inr chat_id, s) \<Rightarrow>
          (case app_read env (sc_scope c) (\<lambda>db. Inr (has_unfinished_turn chat_id db)) s of
             (Inl e, s) \<Rightarrow> (Inl (StorageFailure e), s)
           | (Inr b, s) \<Rightarrow> (Inr b, s)))"

end
