(* ===== verification/Turn_Dispatch.thy ===== *)
theory Turn_Dispatch
  imports Turn_Intake
begin

text \<open>
  \<open>src/src/runtime/turn/dispatch.rs\<close>: the scan that hands durable Turns to the scheduler, the
  promotion of staged follow-ups, start-up recovery, and the execution of a scheduled Turn from
  its checks to the hand-over of the session. Metrics, the runtime status board, typing
  indicators, the tool-progress display and the refresh of an expired provider token are left out.
\<close>

section \<open>The environment\<close>

text \<open>
  \<open>de_loop\<close> is what a Turn runs with apart from its configuration; \<open>de_channels\<close> says for which
  channels there is an adapter.
\<close>

record 'x dispatch_env = "'x app_env" +
  de_loop :: "'x app loop_env"
  de_channels :: "string \<Rightarrow> bool"
  de_recent :: "string \<Rightarrow> bool"

text \<open>The part of the process that a Turn of a scope works on.\<close>

definition turn_view :: "conversation_scope \<Rightarrow> 'x app \<Rightarrow> 'x app turn_state" where
  "turn_view scope s = (ap_databases s scope, ap_assets s, s)"

definition turn_merge :: "conversation_scope \<Rightarrow> 'x app turn_state \<Rightarrow> 'x app" where
  "turn_merge scope v = (set_database scope (fst v) (snd (snd v)))\<lparr>ap_assets := fst (snd v)\<rparr>"

definition turn_env_of ::
  "'x dispatch_env \<Rightarrow> surface_context \<Rightarrow> config_snapshot \<Rightarrow> 'x app loop_env" where
  "turn_env_of env c snapshot =
     (de_loop env)\<lparr>te_context := c, te_config_revision := sint (cs_revision snapshot),
       te_config_fingerprint := cs_fingerprint snapshot,
       te_others := (\<lambda>v. turn_view (sc_scope c) (ae_others env (turn_merge (sc_scope c) v))),
       te_print := ae_print env, te_parse := ae_parse env, le_sha256_hex := ae_sha256_hex env\<rparr>"

definition run_in_scope :: "conversation_scope \<Rightarrow> ('x app, 'a) run \<Rightarrow> 'x app \<Rightarrow> (egopulse_error + 'a) \<times> 'x app" where
  "run_in_scope scope m s = (let (r, v) = m (turn_view scope s) in (r, turn_merge scope v))"

section \<open>Durable writes\<close>

text \<open>
  Repeats until the write lands, or until shutdown. The state it starts from may never let it
  land, so the loop is partial; the growing pauses only say how long the others run.
\<close>

partial_function (option) retry_durable_storage_write ::
  "'x dispatch_env \<Rightarrow> ('x app \<Rightarrow> (storage_error + unit) \<times> 'x app) \<Rightarrow> (storage_error \<Rightarrow> bool) \<Rightarrow> 'x app \<Rightarrow>
   ((storage_error + unit) \<times> 'x app) option" where
  "retry_durable_storage_write env attempt is_already_done s =
     (case attempt s of
        (Inr u, s) \<Rightarrow> Some (Inr (), s)
      | (Inl e, s) \<Rightarrow>
          if is_already_done e then Some (Inr (), s)
          else if ap_shutting_down (ae_others env s) then Some (Inl e, ae_others env s)
          else retry_durable_storage_write env attempt is_already_done (ae_others env (ae_others env s)))"

definition reject_attempt ::
  "('x, 'z) app_env_scheme \<Rightarrow> conversation_scope \<Rightarrow> string \<Rightarrow> string \<Rightarrow> string \<Rightarrow> 'x app \<Rightarrow>
   (storage_error + unit) \<times> 'x app" where
  "reject_attempt env scope turn_id reason note s =
     (case app_read env scope (get_turn_run turn_id) s of
        (Inl e, s) \<Rightarrow> (Inl e, s)
      | (Inr run, s) \<Rightarrow>
          if is_terminal (tr_state run) then (Inr (), s)
          else if tr_state run = Accepted \<or> tr_state run = InputCommitted
          then app_call env scope (\<lambda>now. cancel_turn now turn_id reason note) s
          else app_call env scope (\<lambda>now. fail_turn now turn_id Uncertain
                 (turn_failure_with_public reason note TURN_UNCERTAIN_PUBLIC_MESSAGE)) s)"

fun gone_or_moved :: "storage_error \<Rightarrow> bool" where
  "gone_or_moved (NotFound _) = True"
| "gone_or_moved (Conflict _) = True"
| "gone_or_moved _ = False"

definition persist_turn_rejection ::
  "'x dispatch_env \<Rightarrow> conversation_scope \<Rightarrow> string \<Rightarrow> string \<Rightarrow> string \<Rightarrow> 'x app \<Rightarrow>
   ((storage_error + unit) \<times> 'x app) option" where
  "persist_turn_rejection env scope turn_id reason note =
     retry_durable_storage_write env (reject_attempt env scope turn_id reason note) gone_or_moved"

definition persist_origin_terminal_reason ::
  "'x dispatch_env \<Rightarrow> conversation_scope \<Rightarrow> string \<Rightarrow> stop_reason \<Rightarrow> 'x app \<Rightarrow>
   ((storage_error + unit) \<times> 'x app) option" where
  "persist_origin_terminal_reason env scope origin_id reason =
     retry_durable_storage_write env (app_call env scope (\<lambda>now db.
       Inr ((), upsert_turn_origin now origin_id (Some (stop_reason_display reason)) db))) (\<lambda>_. False)"

text \<open>\<open>store_system_event\<close> of \<open>storage/chat.rs\<close>\<close>

definition store_system_event ::
  "(json \<Rightarrow> string) \<Rightarrow> string \<Rightarrow> string \<Rightarrow> int \<Rightarrow> string \<Rightarrow> database \<Rightarrow> unit tx" where
  "store_system_event print uuid now channel_log_chat_id reason db =
     (let content = print (JObj [(''reason'', JStr reason)]);
          m = (stored_message_system uuid now channel_log_chat_id content)\<lparr>msg_message_kind := SystemEvent\<rparr>
      in rbind (store_channel_log_message now m db) (\<lambda>(_, db'). Inr ((), db')))"

text \<open>The failure of this call is only logged.\<close>

definition log_system_event ::
  "'x dispatch_env \<Rightarrow> surface_context \<Rightarrow> stop_reason \<Rightarrow> 'x app \<Rightarrow> 'x app" where
  "log_system_event env c reason s =
     (case sc_channel_log_chat_id c of
        None \<Rightarrow> s
      | Some log_chat_id \<Rightarrow>
          snd (app_call env (sc_scope c) (\<lambda>now.
            store_system_event (ae_print env) (ae_uuid env s 5) now log_chat_id (stop_reason_display reason)) s))"

section \<open>Observers of a Turn\<close>

definition observer_key :: "'s scheduled_turn \<Rightarrow> string option" where
  "observer_key t =
     (if sdt_response_delivery t = ClientOwned \<and> sc_request_key (sdt_context t) \<noteq> []
      then Some (sc_request_key (sdt_context t)) else None)"

text \<open>\<open>finish\<close> does not panic in any state the registry reaches.\<close>

definition finish_turn_observer ::
  "('x, 'z) app_env_scheme \<Rightarrow> 's scheduled_turn \<Rightarrow> turn_outcome \<Rightarrow> 'x app \<Rightarrow> 'x app" where
  "finish_turn_observer env t outcome s =
     (case observer_key t of
        None \<Rightarrow> s
      | Some key \<Rightarrow>
          snd (on_observers env (\<lambda>ob. case finish key (sdt_turn_id t) outcome ob of
                 Some ob' \<Rightarrow> ((), ob') | None \<Rightarrow> ((), ob)) s))"

definition finish_observer ::
  "('x, 'z) app_env_scheme \<Rightarrow> 's scheduled_turn \<Rightarrow> string \<Rightarrow> 'x app \<Rightarrow> 'x app" where
  "finish_observer env t message = finish_turn_observer env t (TurnFailed message)"

definition retain_observer_for_staged_follow_up ::
  "('x, 'z) app_env_scheme \<Rightarrow> 's scheduled_turn \<Rightarrow> 'x app \<Rightarrow> (storage_error + bool) \<times> 'x app" where
  "retain_observer_for_staged_follow_up env t s =
     (case observer_key t of
        None \<Rightarrow> (Inr False, s)
      | Some key \<Rightarrow>
          (let (live, s) = on_observers env (has_live_observer key) s
           in if \<not> live then (Inr False, s)
              else
                (case app_read env (sc_scope (sdt_context t)) (list_staged_user_messages (sdt_turn_id t)) s of
                   (Inl e, s) \<Rightarrow> (Inl e, s)
                 | (Inr ms, s) \<Rightarrow> (Inr (ms \<noteq> []), s))))"

definition shutdown_text :: string where
  "shutdown_text = user_message (\<lambda>_. '''') (\<lambda>_. '''') ShutdownRequested"

section \<open>Before a Turn runs\<close>

record prepared_scheduled_turn =
  pst_turn :: "config_snapshot scheduled_turn"
  pst_session_key :: string
  pst_origin_id :: string

text \<open>What is left to do for the session: nothing, to start its next Turn, or this Turn.\<close>

datatype prepared = Dropped | DroppedAndDrain string | Ready prepared_scheduled_turn

definition prepare_scheduled_turn ::
  "'x dispatch_env \<Rightarrow> config_snapshot scheduled_turn \<Rightarrow> 'x app \<Rightarrow> (prepared \<times> 'x app) option" where
  "prepare_scheduled_turn env t0 s0 =
     (let t = t0\<lparr>sdt_context := (sdt_context t0)\<lparr>sc_trace_id := ae_uuid env s0 0\<rparr>\<rparr>;
          key = turn_session_key t;
          origin_id = (if sdt_origin_id t = [] then ae_uuid env s0 1 else sdt_origin_id t);
          s = ae_others env s0
      in if ap_shutting_down s
         then Some (Dropped, finish_observer env t shutdown_text (release_origin env origin_id s))
         else
           (let (terminal, s) = on_tracker env (\<lambda>now. terminal_reason now origin_id) s
            in case terminal of
                 None \<Rightarrow> Some (Ready \<lparr>pst_turn = t, pst_session_key = key, pst_origin_id = origin_id\<rparr>, s)
               | Some reason \<Rightarrow>
                   Option.bind (persist_turn_rejection env (sc_scope (sdt_context t)) (sdt_turn_id t)
                       (stop_reason_display reason) ''origin chain already terminated'' s) (\<lambda>(r, s).
                   Some (case r of
                       Inl e \<Rightarrow> (Dropped, s)
                     | Inr _ \<Rightarrow> (DroppedAndDrain key,
                         finish_observer env t ''turn chain already terminated'' (release_origin env origin_id s))))))"

fun is_not_found :: "storage_error \<Rightarrow> bool" where
  "is_not_found (NotFound _) = True"
| "is_not_found _ = False"

datatype durable_turn_state_lookup = LookupFound turn_run_state | LookupMissing | LookupShutdown

partial_function (option) load_durable_turn_state ::
  "'x dispatch_env \<Rightarrow> config_snapshot scheduled_turn \<Rightarrow> 'x app \<Rightarrow>
   (durable_turn_state_lookup \<times> 'x app) option" where
  "load_durable_turn_state env t s =
     (case app_read env (sc_scope (sdt_context t)) (get_turn_run (sdt_turn_id t)) s of
        (Inr run, s) \<Rightarrow> Some (LookupFound (tr_state run), s)
      | (Inl e, s) \<Rightarrow>
          if is_not_found e then Some (LookupMissing, s)
          else if ap_shutting_down (ae_others env s) then Some (LookupShutdown, ae_others env s)
          else load_durable_turn_state env t (ae_others env (ae_others env s)))"

fun stop_reason_debug :: "stop_reason \<Rightarrow> string" where
  "stop_reason_debug ChainDepthExceeded = ''ChainDepthExceeded''"
| "stop_reason_debug TurnCountExceeded = ''TurnCountExceeded''"
| "stop_reason_debug AgentNotFound = ''AgentNotFound''"
| "stop_reason_debug stop_reason.LlmFailure = ''LlmFailure''"

text \<open>\<open>false\<close> of the source is \<open>Blocked\<close>, or \<open>Refused\<close> after which the session is handed on.\<close>

datatype begun = Begun | Blocked | Refused

definition begin_execution ::
  "prepared_scheduled_turn \<Rightarrow> turn_run_state option \<Rightarrow> config_snapshot \<Rightarrow> nat \<Rightarrow> tracker \<Rightarrow>
   (stop_reason + unit) \<times> tracker" where
  "begin_execution p current_state snapshot now t =
     (let c = sdt_context (pst_turn p) in
      if current_state = Some ToolsCompleted then try_resume_execution now (pst_origin_id p) t
      else (let (r, t) = try_begin_execution now (pst_origin_id p) (sc_chain_depth c) (sc_agent_id c)
                   (cs_agents snapshot) t
            in (map_sum id (\<lambda>_. ()) r, t)))"

definition begin_scheduled_turn ::
  "'x dispatch_env \<Rightarrow> prepared_scheduled_turn \<Rightarrow> turn_run_state option \<Rightarrow> config_snapshot \<Rightarrow> 'x app \<Rightarrow>
   (begun \<times> 'x app) option" where
  "begin_scheduled_turn env p current_state snapshot s =
     (let t = pst_turn p; scope = sc_scope (sdt_context t);
          (execution, s) = on_tracker env (begin_execution p current_state snapshot) s
      in case execution of
           Inr _ \<Rightarrow> Some (Begun, s)
         | Inl reason \<Rightarrow>
             Option.bind (persist_origin_terminal_reason env scope (pst_origin_id p) reason s) (\<lambda>(r, s).
             case r of
               Inl e \<Rightarrow> Some (Blocked, s)
             | Inr _ \<Rightarrow>
                 Option.bind (persist_turn_rejection env scope (sdt_turn_id t) (stop_reason_display reason)
                     (''turn rejected by stop condition: '' @ stop_reason_debug reason) s) (\<lambda>(r, s).
                 Some (case r of
                     Inl e \<Rightarrow> (Blocked, s)
                   | Inr _ \<Rightarrow> (Refused, log_system_event env (sdt_context t) reason s)))))"

section \<open>Running a Turn\<close>

definition run_scheduled_turn ::
  "'x dispatch_env \<Rightarrow> config_snapshot scheduled_turn \<Rightarrow> turn_run_state option \<Rightarrow> config_snapshot \<Rightarrow>
   'x app \<Rightarrow> (egopulse_error + string) \<times> 'x app" where
  "run_scheduled_turn env t current_state snapshot =
     (let loop = turn_env_of env (sdt_context t) snapshot
      in run_in_scope (sc_scope (sdt_context t))
           (case current_state of
              Some InputCommitted \<Rightarrow> resume_input_committed_turn loop (sdt_turn_id t)
            | Some ToolsCompleted \<Rightarrow> resume_tools_completed_turn loop (sdt_turn_id t)
            | _ \<Rightarrow> process_turn loop (sdt_input t) (sdt_received_at t)))"

definition send_text :: "('x, 'z) app_env_scheme \<Rightarrow> string \<Rightarrow> string \<Rightarrow> string \<Rightarrow> 'x app \<Rightarrow> 'x app" where
  "send_text env channel external_chat_id text' s =
     (let s = ae_others env s in s\<lparr>ap_sent := ap_sent s @ [(channel, external_chat_id, text')]\<rparr>)"

definition store_scheduled_turn_response ::
  "('x, 'z) app_env_scheme \<Rightarrow> config_snapshot scheduled_turn \<Rightarrow> string \<Rightarrow> 'x app \<Rightarrow> 'x app" where
  "store_scheduled_turn_response env t response s =
     (if response = [] then s
      else case sc_channel_log_chat_id (sdt_context t) of
        None \<Rightarrow> s
      | Some log_chat_id \<Rightarrow>
          snd (app_call env (sc_scope (sdt_context t)) (\<lambda>now.
            store_channel_log_bot_response (ae_uuid env s 6) now log_chat_id (sc_agent_id (sdt_context t))
              response) s))"

definition persisted_failure_message ::
  "('x, 'z) app_env_scheme \<Rightarrow> config_snapshot scheduled_turn \<Rightarrow> 'x app \<Rightarrow> string option \<times> 'x app" where
  "persisted_failure_message env t s =
     (case app_read env (sc_scope (sdt_context t))
             (\<lambda>db. Inr (get_message_content (turn_failure_message_id (sdt_turn_id t)) db)) s of
        (Inl e, s) \<Rightarrow> (None, s)
      | (Inr content, s) \<Rightarrow> (content, s))"

definition failure_text_for_delivery ::
  "('x, 'z) app_env_scheme \<Rightarrow> config_snapshot scheduled_turn \<Rightarrow> 'x app \<Rightarrow> string \<times> 'x app" where
  "failure_text_for_delivery env t s =
     (let (content, s) = persisted_failure_message env t s
      in (case content of Some text' \<Rightarrow> text' | None \<Rightarrow> TURN_UNCERTAIN_PUBLIC_MESSAGE, s))"

text \<open>The warning sign in UTF-8.\<close>

definition warning_sign :: string where
  "warning_sign = [CHR 0xE2, CHR 0x9A, CHR 0xA0, CHR 0xEF, CHR 0xB8, CHR 0x8F, CHR 0x20]"

definition send_turn_failure_to_channel ::
  "'x dispatch_env \<Rightarrow> string \<Rightarrow> string \<Rightarrow> string \<Rightarrow> 'x app \<Rightarrow> 'x app" where
  "send_turn_failure_to_channel env channel external_chat_id summary s =
     (if de_channels env channel then send_text env channel external_chat_id (warning_sign @ summary) s else s)"

text \<open>The answer, to the client or to the channel, and to the Channel Log.\<close>

definition publish_response ::
  "'x dispatch_env \<Rightarrow> config_snapshot scheduled_turn \<Rightarrow> string \<Rightarrow> 'x app \<Rightarrow> 'x app" where
  "publish_response env t response s =
     (let c = sdt_context t;
          s = (if observer_key t \<noteq> None then finish_turn_observer env t TurnCompleted s
               else if de_channels env (sc_channel c)
               then send_text env (sc_channel c) (session_key c) response s else s)
      in store_scheduled_turn_response env t response s)"

definition report_failure ::
  "'x dispatch_env \<Rightarrow> config_snapshot scheduled_turn \<Rightarrow> 'x app \<Rightarrow> 'x app" where
  "report_failure env t s =
     (let c = sdt_context t; (failure_text, s) = failure_text_for_delivery env t s in
      case observer_key t of
        Some key \<Rightarrow>
          (let (retain, s) = retain_observer_for_staged_follow_up env t s
           in if (case retain of Inr b \<Rightarrow> b | Inl _ \<Rightarrow> True)
              then snd (on_observers env (\<lambda>ob. ((), emit key (ErrorEvent (sdt_turn_id t) failure_text False) ob)) s)
              else finish_observer env t failure_text s)
      | None \<Rightarrow>
          if sc_channel c \<noteq> ''web''
          then send_turn_failure_to_channel env (sc_channel c) (session_key c) failure_text s else s)"

text \<open>The answer is whether the session is handed on.\<close>

definition execute_and_publish_scheduled_turn ::
  "'x dispatch_env \<Rightarrow> prepared_scheduled_turn \<Rightarrow> turn_run_state option \<Rightarrow> config_snapshot \<Rightarrow> 'x app \<Rightarrow>
   (bool \<times> 'x app) option" where
  "execute_and_publish_scheduled_turn env p current_state snapshot s =
     (let t = pst_turn p; c = sdt_context t; s = ae_others env s;
          s = (case observer_key t of
                 Some key \<Rightarrow> snd (on_observers env (\<lambda>ob. ((), emit_initial_event key ob)) s)
               | None \<Rightarrow> s);
          (result, s) = run_scheduled_turn env t current_state snapshot s
      in case result of
           Inr response \<Rightarrow> Some (True, publish_response env t response s)
         | Inl e \<Rightarrow>
             if e = TurnConcurrencyConflict then Some (True, s)
             else
               (let s = snd (on_tracker env (\<lambda>now tr.
                      ((), set_terminal_reason now (pst_origin_id p) stop_reason.LlmFailure tr)) s)
                in Option.bind (persist_origin_terminal_reason env (sc_scope c) (pst_origin_id p)
                       stop_reason.LlmFailure s) (\<lambda>(r, s).
                   Some (case r of
                       Inl _ \<Rightarrow> (False, s)
                     | Inr _ \<Rightarrow>
                         (True, report_failure env t (log_system_event env c stop_reason.LlmFailure s))))))"

section \<open>Executing a scheduled Turn\<close>

text \<open>
  What is left when the Turn itself is dealt with: the session whose next Turn is to be started,
  and the message with which its observer is finished after that.
\<close>

record hand_over =
  ho_drain :: "string option"
  ho_finish :: "(config_snapshot scheduled_turn \<times> string) option"

definition run_prepared_turn ::
  "'x dispatch_env \<Rightarrow> prepared_scheduled_turn \<Rightarrow> turn_run_state option \<Rightarrow> 'x app \<Rightarrow>
   (hand_over \<times> 'x app) option" where
  "run_prepared_turn env p current_state s =
     (let t = pst_turn p; key = pst_session_key p;
          refused = Some (t, ''turn rejected by runtime stop condition'');
          snapshot = (case sdt_config_snapshot t of Some c \<Rightarrow> c | None \<Rightarrow> ae_config env s)
      in Option.bind (begin_scheduled_turn env p current_state snapshot s) (\<lambda>(b, s).
         case b of
           Blocked \<Rightarrow> Some (\<lparr>ho_drain = None, ho_finish = refused\<rparr>, s)
         | Refused \<Rightarrow> Some (\<lparr>ho_drain = Some key, ho_finish = refused\<rparr>, s)
         | Begun \<Rightarrow>
             Option.bind (execute_and_publish_scheduled_turn env p current_state snapshot s) (\<lambda>(drain, s).
             Some (\<lparr>ho_drain = if drain then Some key else None, ho_finish = None\<rparr>, s))))"

definition execute_turn_itself ::
  "'x dispatch_env \<Rightarrow> config_snapshot scheduled_turn \<Rightarrow> 'x app \<Rightarrow> (hand_over \<times> 'x app) option" where
  "execute_turn_itself env t s =
     Option.bind (prepare_scheduled_turn env t s) (\<lambda>(prepared, s).
     case prepared of
       Dropped \<Rightarrow> Some (\<lparr>ho_drain = None, ho_finish = None\<rparr>, s)
     | DroppedAndDrain key \<Rightarrow> Some (\<lparr>ho_drain = Some key, ho_finish = None\<rparr>, s)
     | Ready p \<Rightarrow>
         Option.bind (load_durable_turn_state env (pst_turn p) s) (\<lambda>(lookup, s).
         case lookup of
           LookupShutdown \<Rightarrow>
             Some (\<lparr>ho_drain = None, ho_finish = Some (pst_turn p, shutdown_text)\<rparr>, s)
         | LookupMissing \<Rightarrow>
             if sdt_response_delivery (pst_turn p) = ClientOwned
             then Some (\<lparr>ho_drain = None, ho_finish = Some (pst_turn p, ''durable turn was not found'')\<rparr>, s)
             else run_prepared_turn env p None s
         | LookupFound state \<Rightarrow> run_prepared_turn env p (Some state) s))"

definition complete_hand_over :: "('x, 'z) app_env_scheme \<Rightarrow> hand_over \<Rightarrow> 'x app \<Rightarrow> 'x app" where
  "complete_hand_over env h s =
     (case ho_finish h of None \<Rightarrow> s | Some (t, message) \<Rightarrow> finish_observer env t message s)"

text \<open>\<open>drain_next_queued_turn\<close> up to the execution of the Turn it found.\<close>

definition next_queued_turn ::
  "('x, 'z) app_env_scheme \<Rightarrow> string \<Rightarrow> 'x app \<Rightarrow> config_snapshot scheduled_turn option \<times> 'x app" where
  "next_queued_turn env key s =
     (let s = ae_others env s; (next_turn, scheduler) = on_turn_completed key (ap_scheduler s);
          s = s\<lparr>ap_scheduler := scheduler\<rparr>
      in case next_turn of
           None \<Rightarrow> (None, s)
         | Some t \<Rightarrow>
             (let s = ae_others env s in
              if ap_shutting_down s then (None, release_origin env (sdt_origin_id t) s) else (Some t, s)))"

text \<open>A session may be kept busy for ever by new Turns, so the execution is partial.\<close>

partial_function (option) execute_scheduled_turn ::
  "'x dispatch_env \<Rightarrow> config_snapshot scheduled_turn \<Rightarrow> 'x app \<Rightarrow> 'x app option" where
  "execute_scheduled_turn env t s =
     Option.bind (execute_turn_itself env t s) (\<lambda>(h, s).
     case ho_drain h of
       None \<Rightarrow> Some (complete_hand_over env h s)
     | Some key \<Rightarrow>
         (case next_queued_turn env key s of
            (None, s) \<Rightarrow> Some (complete_hand_over env h s)
          | (Some t, s) \<Rightarrow>
              Option.bind (execute_scheduled_turn env t s) (\<lambda>s. Some (complete_hand_over env h s))))"

definition execute_observed_turn ::
  "'x dispatch_env \<Rightarrow> surface_context \<Rightarrow> string \<Rightarrow> 'x app \<Rightarrow> (egopulse_error + string) \<times> 'x app" where
  "execute_observed_turn env c input s =
     run_in_scope (sc_scope c) (process_turn (turn_env_of env c (ae_config env s)) input None) s"

end
