(* ===== verification/Turn_Scan.thy ===== *)
theory Turn_Scan
  imports Turn_Dispatch
begin

text \<open>
  The periodic scan and the start-up of \<open>src/src/runtime/turn/dispatch.rs\<close>: follow-ups whose
  Turn ended become Turns of their own, durable Turns are handed to the scheduler page by page,
  and after a restart tools, Turns and origins are recovered. The five-second timer of
  \<open>spawn_turn_dispatcher\<close> is left out.
\<close>

section \<open>Promotion of staged follow-ups\<close>

text \<open>The follow-ups of a Turn form a group, with the first routing payload found for it.\<close>

fun add_to_group :: "string \<Rightarrow> string option \<Rightarrow> (string \<times> string option) list \<Rightarrow> (string \<times> string option) list" where
  "add_to_group i payload [] = [(i, payload)]"
| "add_to_group i payload ((j, p) # groups) =
     (if j = i then (j, if p = None then payload else p) # groups
      else (j, p) # add_to_group i payload groups)"

fun group_staged :: "terminal_staged_message list \<Rightarrow> (string \<times> string option) list \<Rightarrow> (string \<times> string option) list" where
  "group_staged [] groups = groups"
| "group_staged (m # ms) groups =
     group_staged ms (case msg_turn_id (tsm_message m) of
        None \<Rightarrow> groups
      | Some parent \<Rightarrow> add_to_group parent (tsm_scheduled_request_json m) groups)"

text \<open>\<open>all\<close> stops at the first observer that is not live.\<close>

fun all_live :: "('x, 'z) app_env_scheme \<Rightarrow> string list \<Rightarrow> 'x app \<Rightarrow> bool \<times> 'x app" where
  "all_live env [] s = (True, s)"
| "all_live env (k # ks) s =
     (let (live, s) = on_observers env (has_live_observer k) s
      in if live then all_live env ks s else (False, s))"

definition transfer_observer ::
  "('x, 'z) app_env_scheme \<Rightarrow> config_snapshot scheduled_turn \<Rightarrow> string list \<Rightarrow> 'x app \<Rightarrow> bool \<times> 'x app" where
  "transfer_observer env template child_request_keys s =
     (if sdt_response_delivery template = ClientOwned
      then (let (transferred, s) = on_observers env
                  (transfer_many (sc_request_key (sdt_context template)) child_request_keys) s
            in if transferred then (True, s) else all_live env child_request_keys s)
      else (False, s))"

definition promoted_turn ::
  "string \<Rightarrow> conversation_scope \<Rightarrow> config_snapshot scheduled_turn \<Rightarrow> stored_message \<Rightarrow>
   config_snapshot scheduled_turn" where
  "promoted_turn uuid scope template m =
     template\<lparr>sdt_turn_id := uuid, sdt_input := msg_content m, sdt_origin_id := '''',
       sdt_received_at := Some (msg_timestamp m),
       sdt_context := (sdt_context template)\<lparr>sc_surface_user := msg_sender_id m,
         sc_request_key := msg_id m, sc_chain_depth := 0, sc_origin_id := '''', sc_trace_id := '''',
         sc_scope := scope\<rparr>\<rparr>"

definition delete_staged ::
  "('x, 'z) app_env_scheme \<Rightarrow> conversation_scope \<Rightarrow> stored_message \<Rightarrow> 'x app \<Rightarrow> (storage_error + unit) \<times> 'x app" where
  "delete_staged env scope m =
     app_call env scope (\<lambda>_ db.
       Inr ((), delete_staged_user_message_after_promotion (msg_chat_id m) (msg_id m) db))"

text \<open>The event the client sees when its follow-up starts, queued before the Turn can start.\<close>

definition announce_promotion ::
  "('x, 'z) app_env_scheme \<Rightarrow> config_snapshot scheduled_turn \<Rightarrow> bool \<Rightarrow> stored_message \<Rightarrow> 'x app \<Rightarrow> 'x app" where
  "announce_promotion env template transferred m s =
     (let (attached, s) =
        (if transferred then (True, s)
         else if sdt_response_delivery template = ClientOwned
         then on_observers env (has_live_observer (msg_id m)) s else (False, s))
      in if attached
         then snd (on_observers env (\<lambda>ob. ((), queue_initial_event (msg_id m)
                (UserInputInjected (msg_id m) (msg_sender_id m) (msg_content m) (msg_timestamp m)) ob)) s)
         else s)"

definition promote_message ::
  "('x, 'z) app_env_scheme \<Rightarrow> conversation_scope \<Rightarrow> config_snapshot scheduled_turn \<Rightarrow> bool \<Rightarrow>
   stored_message \<Rightarrow> 'x app \<Rightarrow> (storage_error + config_snapshot scheduled_turn option) \<times> 'x app" where
  "promote_message env scope template transferred m s =
     (case accept_scheduled_turn env (promoted_turn (ae_uuid env s 7) scope template m) s of
        (Inl reason, s) \<Rightarrow> (Inr None, s)
      | (Inr (CreatedTurn t), s) \<Rightarrow>
          (case delete_staged env scope m (announce_promotion env template transferred m s) of
             (Inl e, s) \<Rightarrow> (Inl e, s)
           | (Inr _, s) \<Rightarrow> (Inr (Some t), s))
      | (Inr (ExistingTurn _), s) \<Rightarrow>
          (case delete_staged env scope m s of
             (Inl e, s) \<Rightarrow> (Inl e, s)
           | (Inr _, s) \<Rightarrow> (Inr None, s)))"

fun promote_messages ::
  "('x, 'z) app_env_scheme \<Rightarrow> conversation_scope \<Rightarrow> config_snapshot scheduled_turn \<Rightarrow> bool \<Rightarrow>
   stored_message list \<Rightarrow> config_snapshot scheduled_turn list \<Rightarrow> 'x app \<Rightarrow>
   (storage_error + config_snapshot scheduled_turn list) \<times> 'x app" where
  "promote_messages env scope template transferred [] ready s = (Inr ready, s)"
| "promote_messages env scope template transferred (m # ms) ready s =
     (case promote_message env scope template transferred m s of
        (Inl e, s) \<Rightarrow> (Inl e, s)
      | (Inr t, s) \<Rightarrow>
          promote_messages env scope template transferred ms
            (ready @ (case t of Some t \<Rightarrow> [t] | None \<Rightarrow> [])) s)"

fun schedule_all ::
  "('x, 'z) app_env_scheme \<Rightarrow> config_snapshot scheduled_turn list \<Rightarrow> 'x app \<Rightarrow> 'x app" where
  "schedule_all env [] s = s"
| "schedule_all env (t # ts) s = schedule_all env ts (schedule_accepted_turn env t s)"

definition promote_group ::
  "('x, 'z) app_env_scheme \<Rightarrow> conversation_scope \<Rightarrow> string \<Rightarrow> string option \<Rightarrow> 'x app \<Rightarrow>
   (storage_error + unit) \<times> 'x app" where
  "promote_group env scope parent payload s =
     (case payload of
        None \<Rightarrow> (Inr (), s)
      | Some json \<Rightarrow>
          (case app_read env scope (list_staged_user_messages parent) s of
             (Inl e, s) \<Rightarrow> (Inl e, s)
           | (Inr ms, s) \<Rightarrow>
               if ms = [] then (Inr (), s)
               else (case deserialize_scheduled_turn (ae_parse env) json of
                   Inl _ \<Rightarrow> (Inr (), s)
                 | Inr template \<Rightarrow>
                     (let (transferred, s) = transfer_observer env template (map msg_id ms) s
                      in case promote_messages env scope template transferred ms [] s of
                           (Inl e, s) \<Rightarrow> (Inl e, s)
                         | (Inr ready, s) \<Rightarrow> (Inr (), schedule_all env ready s)))))"

fun promote_groups ::
  "('x, 'z) app_env_scheme \<Rightarrow> conversation_scope \<Rightarrow> (string \<times> string option) list \<Rightarrow> 'x app \<Rightarrow>
   (storage_error + unit) \<times> 'x app" where
  "promote_groups env scope [] s = (Inr (), s)"
| "promote_groups env scope ((parent, payload) # groups) s =
     (case promote_group env scope parent payload s of
        (Inl e, s) \<Rightarrow> (Inl e, s)
      | (Inr _, s) \<Rightarrow> promote_groups env scope groups s)"

definition promote_terminal_staged_messages ::
  "('x, 'z) app_env_scheme \<Rightarrow> conversation_scope \<Rightarrow> 'x app \<Rightarrow> (storage_error + unit) \<times> 'x app" where
  "promote_terminal_staged_messages env scope s =
     (case app_read env scope (list_terminal_staged_user_messages (nat DISPATCHER_BATCH_LIMIT)) s of
        (Inl e, s) \<Rightarrow> (Inl e, s)
      | (Inr staged, s) \<Rightarrow> promote_groups env scope (group_staged staged []) s)"

section \<open>The dispatch of durable Turns\<close>

definition MAX_PAGES_PER_TICK :: nat where
  "MAX_PAGES_PER_TICK = 8"

fun is_conflict :: "storage_error \<Rightarrow> bool" where
  "is_conflict (Conflict _) = True"
| "is_conflict _ = False"

definition terminalize_invalid_durable_turn ::
  "('x, 'z) app_env_scheme \<Rightarrow> conversation_scope \<Rightarrow> string \<Rightarrow> 'x app \<Rightarrow> (storage_error + unit) \<times> 'x app" where
  "terminalize_invalid_durable_turn env scope turn_id s =
     (case app_call env scope (\<lambda>now. fail_invalid_durable_turn now turn_id) s of
        (Inr _, s) \<Rightarrow> (Inr (), s)
      | (Inl e, s) \<Rightarrow> if is_conflict e then (Inr (), s) else (Inl e, s))"

definition dispatch_turn ::
  "('x, 'z) app_env_scheme \<Rightarrow> conversation_scope \<Rightarrow> durable_pending_turn \<Rightarrow> 'x app \<Rightarrow>
   (storage_error + unit) \<times> 'x app" where
  "dispatch_turn env scope d s =
     (case deserialize_scheduled_turn (ae_parse env) (dpt_scheduled_request_json d) of
        Inl _ \<Rightarrow> terminalize_invalid_durable_turn env scope (dpt_turn_id d) s
      | Inr t \<Rightarrow> (Inr (), snd (enqueue_durable_turn env (t\<lparr>sdt_turn_id := dpt_turn_id d\<rparr>) s)))"

text \<open>The batch, with the cursor after its last Turn.\<close>

fun dispatch_batch ::
  "('x, 'z) app_env_scheme \<Rightarrow> conversation_scope \<Rightarrow> durable_pending_turn list \<Rightarrow> cursor \<Rightarrow> 'x app \<Rightarrow>
   (storage_error + cursor) \<times> 'x app" where
  "dispatch_batch env scope [] after s = (Inr after, s)"
| "dispatch_batch env scope (d # ds) after s =
     (case dispatch_turn env scope d s of
        (Inl e, s) \<Rightarrow> (Inl e, s)
      | (Inr _, s) \<Rightarrow> dispatch_batch env scope ds (Cursor (dpt_accepted_at d) (dpt_turn_id d)) s)"

fun dispatch_pages ::
  "('x, 'z) app_env_scheme \<Rightarrow> conversation_scope \<Rightarrow> nat \<Rightarrow> cursor \<Rightarrow> 'x app \<Rightarrow> (storage_error + unit) \<times> 'x app" where
  "dispatch_pages env scope 0 after s = (Inr (), s)"
| "dispatch_pages env scope (Suc pages) after s =
     (case app_read env scope (\<lambda>db. Inr (scan_durable_resumable_turns_after after (nat DISPATCHER_BATCH_LIMIT) db)) s of
        (Inl e, s) \<Rightarrow> (Inl e, s)
      | (Inr batch, s) \<Rightarrow>
          (case dispatch_batch env scope batch after s of
             (Inl e, s) \<Rightarrow> (Inl e, s)
           | (Inr after, s) \<Rightarrow>
               if int (length batch) < DISPATCHER_BATCH_LIMIT then (Inr (), s)
               else dispatch_pages env scope pages after s))"

text \<open>With the size of the backlog, unless it could not be counted.\<close>

definition dispatch_durable_turns_for_scope ::
  "('x, 'z) app_env_scheme \<Rightarrow> conversation_scope \<Rightarrow> 'x app \<Rightarrow> (storage_error + int option) \<times> 'x app" where
  "dispatch_durable_turns_for_scope env scope s =
     (let (counted, s) = app_read env scope (\<lambda>db. Inr (count_durable_pending db)) s;
          backlog = (case counted of Inr n \<Rightarrow> Some n | Inl _ \<Rightarrow> None)
      in case dispatch_pages env scope MAX_PAGES_PER_TICK (Cursor '''' '''') s of
           (Inl e, s) \<Rightarrow> (Inl e, s)
         | (Inr _, s) \<Rightarrow> (Inr backlog, s))"

fun dispatch_scopes ::
  "('x, 'z) app_env_scheme \<Rightarrow> conversation_scope list \<Rightarrow> 'x app \<Rightarrow> (storage_error + unit) \<times> 'x app" where
  "dispatch_scopes env [] s = (Inr (), s)"
| "dispatch_scopes env (scope # scopes) s =
     (case promote_terminal_staged_messages env scope s of
        (Inl e, s) \<Rightarrow> (Inl e, s)
      | (Inr _, s) \<Rightarrow>
          (case dispatch_durable_turns_for_scope env scope s of
             (Inl e, s) \<Rightarrow> (Inl e, s)
           | (Inr _, s) \<Rightarrow> dispatch_scopes env scopes s))"

definition dispatch_durable_turns :: "('x, 'z) app_env_scheme \<Rightarrow> 'x app \<Rightarrow> (storage_error + unit) \<times> 'x app" where
  "dispatch_durable_turns env s = dispatch_scopes env (scoped_databases s) s"

section \<open>Start-up\<close>

text \<open>The calls of the start-up are synchronous, one after the other.\<close>

fun recover_scopes ::
  "('x, 'z) app_env_scheme \<Rightarrow> conversation_scope list \<Rightarrow> 'x app \<Rightarrow> (storage_error + unit) \<times> 'x app" where
  "recover_scopes env [] s = (Inr (), s)"
| "recover_scopes env (scope # scopes) s =
     (case app_call env scope (\<lambda>_. recover_running_tools) s of
        (Inl e, s) \<Rightarrow> (Inl e, s)
      | (Inr _, s) \<Rightarrow>
          (case app_call env scope recover_interrupted_turns s of
             (Inl e, s) \<Rightarrow> (Inl e, s)
           | (Inr _, s) \<Rightarrow> recover_scopes env scopes s))"

fun promote_scopes ::
  "('x, 'z) app_env_scheme \<Rightarrow> conversation_scope list \<Rightarrow> 'x app \<Rightarrow> (storage_error + unit) \<times> 'x app" where
  "promote_scopes env [] s = (Inr (), s)"
| "promote_scopes env (scope # scopes) s =
     (case promote_terminal_staged_messages env scope s of
        (Inl e, s) \<Rightarrow> (Inl e, s)
      | (Inr _, s) \<Rightarrow> promote_scopes env scopes s)"

definition recover_durable_state :: "('x, 'z) app_env_scheme \<Rightarrow> 'x app \<Rightarrow> (storage_error + unit) \<times> 'x app" where
  "recover_durable_state env s =
     (case recover_scopes env (scoped_databases s) s of
        (Inl e, s) \<Rightarrow> (Inl e, s)
      | (Inr _, s) \<Rightarrow> promote_scopes env (scoped_databases s) s)"

fun rehydrate_scopes ::
  "'x dispatch_env \<Rightarrow> conversation_scope list \<Rightarrow> 'x app \<Rightarrow> (storage_error + unit) \<times> 'x app" where
  "rehydrate_scopes env [] s = (Inr (), s)"
| "rehydrate_scopes env (scope # scopes) s =
     (case app_read env scope (\<lambda>db. Inr (recover_origin_tracker (de_recent env) db)) s of
        (Inl e, s) \<Rightarrow> (Inl e, s)
      | (Inr origins, s) \<Rightarrow>
          rehydrate_scopes env scopes
            (if origins = [] then s
             else snd (on_tracker env (\<lambda>now t. ((), rehydrate_executed now origins t)) s)))"

definition rehydrate_origin_tracker :: "'x dispatch_env \<Rightarrow> 'x app \<Rightarrow> (storage_error + unit) \<times> 'x app" where
  "rehydrate_origin_tracker env s = rehydrate_scopes env (scoped_databases s) s"

end
