(* ===== verification/Dispatch_Intake.thy ===== *)
theory Dispatch_Intake
  imports Turn_Scan
begin

text \<open>
  What acceptance promises of the durable queue and of the origin reservations, and that the
  promotion of staged follow-ups loses none, whatever the other tasks do in between.
\<close>

section \<open>Storage calls\<close>

lemma set_database_fields [simp]:
  "ap_databases (set_database scope db s) scope = db"
  "scope' \<noteq> scope \<Longrightarrow> ap_databases (set_database scope db s) scope' = ap_databases s scope'"
  "ap_tracker (set_database scope db s) = ap_tracker s"
  "ap_scheduler (set_database scope db s) = ap_scheduler s"
  "ap_observers (set_database scope db s) = ap_observers s"
  "ap_shutting_down (set_database scope db s) = ap_shutting_down s"
  "ap_accepting (set_database scope db s) = ap_accepting s"
  "ap_spawned (set_database scope db s) = ap_spawned s"
  by (simp_all add: set_database_def)

lemma app_call_cases:
  assumes "app_call env scope f s = (r, s')"
  obtains (failed) e where "r = Inl e" "s' = ae_others env s"
  | (written) a db where "r = Inr a" "s' = set_database scope db (ae_others env s)"
      "f (ae_clock env (ae_others env s)) (ap_databases (ae_others env s) scope) = Inr (a, db)"
  using assms by (auto simp: app_call_def Let_def split: option.splits sum.splits)

text \<open>A property of one database that the other tasks keep and that each committed change keeps.\<close>

lemma app_call_keeps:
  assumes "app_call env scope f s = (r, s')" "P (ap_databases s scope)"
    and "\<And>v. P (ap_databases v scope) \<Longrightarrow> P (ap_databases (ae_others env v) scope)"
    and "\<And>now db a db'. f now db = Inr (a, db') \<Longrightarrow> P db \<Longrightarrow> P db'"
  shows "P (ap_databases s' scope)"
  using app_call_cases [OF assms(1)] assms(2-4) by (metis set_database_fields(1))

lemma app_read_keeps:
  assumes "app_read env scope f s = (r, s')" "P (ap_databases s scope)"
    and "\<And>v. P (ap_databases v scope) \<Longrightarrow> P (ap_databases (ae_others env v) scope)"
  shows "P (ap_databases s' scope)"
  by (rule app_call_keeps [OF assms(1) [unfolded app_read_def]]) (use assms(2,3) in \<open>auto simp: res_simps\<close>)

lemma on_tracker_fields:
  assumes "on_tracker env f s = (a, s')"
  shows "\<exists>t. f (ae_instant env (ae_others env s)) (ap_tracker (ae_others env s)) = (a, t) \<and>
    s' = (ae_others env s)\<lparr>ap_tracker := t\<rparr>"
  using assms by (auto simp: on_tracker_def Let_def split: prod.splits)

lemma on_observers_databases: "ap_databases (snd (on_observers env f s)) = ap_databases (ae_others env s)"
  by (simp add: on_observers_def Let_def case_prod_beta)

lemma release_origin_databases [simp]:
  "ap_databases (release_origin env i s) = ap_databases (ae_others env s)"
  by (simp add: release_origin_def on_tracker_def Let_def case_prod_beta)

section \<open>Reservations\<close>

definition pending_of :: "string \<Rightarrow> tracker \<Rightarrow> nat" where
  "pending_of i t = (case map_of t i of Some os \<Rightarrow> os_pending os | None \<Rightarrow> 0)"

lemma pending_reserve:
  assumes "distinct (map fst t)" "fresh_at now i t"
  shows "pending_of i (snd (reserve now i t)) =
    (case fst (reserve now i t) of Inr _ \<Rightarrow> pending_of i t + 1 | Inl _ \<Rightarrow> pending_of i t)"
  using prune_fresh [OF assms]
  by (auto simp: pending_of_def reserve_def Let_def new_origin_def split: option.split)

lemma pending_release: "pending_of i (release i t) = pending_of i t - 1"
  by (auto simp: pending_of_def release_def Let_def split: option.split)

section \<open>Acceptance\<close>

lemma resolve_keeps_turns:
  "resolve_or_create_chat_id now ch ext ct ag db = Inr (c, db') \<Longrightarrow> turn_runs db' = turn_runs db"
  by (auto simp: resolve_or_create_chat_id_def Let_def res_simps split: option.splits)

lemma accept_outcomes:
  assumes "accept_or_get_turn now i p db = Inr (x, db')" "find_turn i db = None"
  shows "(\<exists>run. x = Existing run) \<and> db' = db \<and>
      (\<exists>r \<in> set (turn_runs db). tr_request_key r = atp_request_key p) \<or>
    x = Created (turn_of_row (accepted_row now i p) Accepted) \<and> db' = accepted now i p db"
proof (cases "find_row (same_request (atp_chat_id p) (atp_request_key p)) (turn_runs db)")
  case None
  with assms show ?thesis by (auto simp: accept_new split: if_splits)
next
  case (Some r)
  then have r: "r \<in> set (turn_runs db)" "tr_request_key r = atp_request_key p"
    by (auto dest!: find_row_Some simp: same_request_def)
  have "\<exists>run. x = Existing run"
  proof (cases x)
    case (Created run)
    have "turn_runs (accepted now i p db) \<noteq> turn_runs db" by (simp add: accepted_def insert_row_def)
    moreover have "db' = accepted now i p db" "db' = db"
      using accept_created(2) assms Created accept_existing_db [OF _ assms(1)] Some by auto
    ultimately show ?thesis by simp
  qed simp
  then show ?thesis using accept_existing_db [of p db now i x db'] Some assms r by auto
qed

text \<open>The steps of the acceptance after the reservation, as one storage operation each.\<close>

lemma durably_accept_cases:
  assumes "durably_accept_turn env t s = (r, s')"
  obtains (failed) e where "r = Inl e"
    "\<And>P. P (turn_runs (ap_databases s (sc_scope (sdt_context t)))) \<Longrightarrow>
      (\<And>v. P (turn_runs (ap_databases v (sc_scope (sdt_context t)))) \<Longrightarrow>
        P (turn_runs (ap_databases (ae_others env v) (sc_scope (sdt_context t))))) \<Longrightarrow>
      P (turn_runs (ap_databases s' (sc_scope (sdt_context t))))"
    "\<exists>v. s' = ae_others env v"
  | (answered) x db v c snapshot where "r = Inr x" "s' = set_database (sc_scope (sdt_context t)) db (ae_others env v)"
    "accept_or_get_turn (ae_clock env (ae_others env v)) (ae_uuid env v 2)
       (durable_accept_params env c t snapshot) (ap_databases (ae_others env v) (sc_scope (sdt_context t))) = Inr (x, db)"
    "\<exists>db. v = set_database (sc_scope (sdt_context t)) db (ae_others env s)"
    "turn_runs (ap_databases v (sc_scope (sdt_context t))) =
       turn_runs (ap_databases (ae_others env s) (sc_scope (sdt_context t)))"
proof -
  let ?sc = "sc_scope (sdt_context t)"
  obtain r1 s1 where one: "resolve_context_chat env (sdt_context t) s = (r1, s1)" by (rule prod.exhaust)
  from one show thesis
  proof (cases rule: app_call_cases [OF one [unfolded resolve_context_chat_def]])
    case (1 e)
    then show thesis using failed [of e] one assms by (auto simp: durably_accept_turn_def)
  next
    case (2 c db1)
    note s1 = 2(2) and two = resolve_keeps_turns [OF 2(3)]
    let ?snap = "case sdt_config_snapshot t of Some c \<Rightarrow> c | None \<Rightarrow> ae_config env s1"
    have call: "app_call env ?sc (\<lambda>now. accept_or_get_turn now (ae_uuid env s1 2)
        (durable_accept_params env c t ?snap)) s1 = (r, s')"
      using assms unfolding durably_accept_turn_def one 2(1) by (simp add: Let_def)
    from call show thesis
    proof (cases rule: app_call_cases [OF call])
      case (1 e)
      have "P (turn_runs (ap_databases s' ?sc))"
        if "P (turn_runs (ap_databases s ?sc))"
          "\<And>v. P (turn_runs (ap_databases v ?sc)) \<Longrightarrow> P (turn_runs (ap_databases (ae_others env v) ?sc))" for P
        using that 1 2 two by (metis set_database_fields(1))
      then show thesis using failed [of e] 1 by blast
    next
      case (2 x db)
      show thesis
        by (rule answered [of x db s1 c ?snap]) (use 2 s1 two in \<open>auto intro: exI [of _ db1]\<close>)
    qed
  qed
qed

lemma durably_accept_tracker:
  assumes d: "durably_accept_turn env t s = (r, s')" and P: "P (ap_tracker s)"
    and others: "\<And>v. P (ap_tracker v) \<Longrightarrow> P (ap_tracker (ae_others env v))"
  shows "P (ap_tracker s')"
proof -
  have call: "P (ap_tracker v')" if "app_call env scope f v = (x, v')" "P (ap_tracker v)" for scope f v x v'
    using that(1) by (rule app_call_cases) (use others that(2) in simp_all)
  obtain r1 s1 where one: "resolve_context_chat env (sdt_context t) s = (r1, s1)" by (rule prod.exhaust)
  have s1: "P (ap_tracker s1)" using call [OF one [unfolded resolve_context_chat_def] P] .
  show ?thesis
    using d s1 call unfolding durably_accept_turn_def one by (auto simp: Let_def split: sum.splits)
qed

section \<open>The contract of the acceptance boundary\<close>

lemma completed_request_fields:
  assumes "\<And>v n. ae_uuid env v n \<noteq> []" "sc_origin_id (sdt_context t0) = sdt_origin_id t0"
  shows "sdt_origin_id (completed_request env s t0) \<noteq> []"
    "sc_origin_id (sdt_context (completed_request env s t0)) = sdt_origin_id (completed_request env s t0)"
    "sc_request_key (sdt_context (completed_request env s t0)) \<noteq> []"
    "sc_chain_depth (sdt_context (completed_request env s t0)) = sc_chain_depth (sdt_context t0)"
    "sc_channel_log_chat_id (sdt_context (completed_request env s t0)) = sc_channel_log_chat_id (sdt_context t0)"
    "sc_scope (sdt_context (completed_request env s t0)) = sc_scope (sdt_context t0)"
  using assms by (simp_all add: completed_request_def Let_def)

lemma release_origin_pending:
  assumes "\<And>v. pending_of i (ap_tracker (ae_others env v)) = pending_of i (ap_tracker v)"
  shows "pending_of i (ap_tracker (release_origin env i s)) = pending_of i (ap_tracker s) - 1"
  using assms by (simp add: release_origin_def on_tracker_def Let_def pending_release)

text \<open>What a created Turn leaves in the database.\<close>

definition durable_record ::
  "('x, 'z) app_env_scheme \<Rightarrow> config_snapshot scheduled_turn \<Rightarrow> database \<Rightarrow> bool" where
  "durable_record env t db = (\<exists>row. find_turn (sdt_turn_id t) db = Some row \<and> tr_state row = ''accepted'' \<and>
     tr_request_key row = sc_request_key (sdt_context t) \<and> tr_origin_id row = Some (sdt_origin_id t) \<and>
     (\<exists>payload. tr_scheduled_request_json row = Some payload \<and>
        deserialize_scheduled_turn (ae_parse env) payload =
          Inr (t\<lparr>sdt_turn_id := '''', sdt_config_snapshot := None\<rparr>)))"

lemma stamped_created:
  assumes "sdt_origin_id t \<noteq> []" "sc_origin_id (sdt_context t) = sdt_origin_id t"
  shows "stamped (turn_of_row (accepted_row now i (durable_accept_params env c t snapshot)) Accepted) t =
    t\<lparr>sdt_turn_id := i\<rparr>"
  using assms
  by (simp add: stamped_def turn_of_row_def accepted_row_def persisted_origin_id_def durable_accept_params_def Let_def)

lemma created_record:
  assumes t: "sdt_origin_id t \<noteq> []" "sc_origin_id (sdt_context t) = sdt_origin_id t"
    and parse: "\<And>v. ae_parse env (ae_print env v) = Some (normalize v)"
    and small: "sc_chain_depth (sdt_context t) < 2 ^ 64"
      "\<And>n. sc_channel_log_chat_id (sdt_context t) = Some n \<Longrightarrow> - (2 ^ 63) \<le> n \<and> n < 2 ^ 63"
    and fresh: "find_turn i db = None"
  shows "durable_record env (t\<lparr>sdt_turn_id := i\<rparr>) (accepted now i (durable_accept_params env c t snapshot) db)"
proof -
  let ?p = "durable_accept_params env c t snapshot"
  have "find_turn i (accepted now i ?p db) = Some (accepted_row now i ?p)"
    using fresh by (simp add: find_turn_def accepted_def insert_row_def find_row_append)
  moreover have "deserialize_scheduled_turn (ae_parse env) (serialize_scheduled_turn (ae_print env) t) =
      Inr (t\<lparr>sdt_turn_id := '''', sdt_config_snapshot := None\<rparr>)"
    using scheduled_turn_roundtrip [OF parse small] t(2) by simp
  ultimately show ?thesis
    using t(1) unfolding durable_record_def
    by (intro exI [of _ "accepted_row now i ?p"])
      (simp add: durable_accept_params_def persisted_origin_id_def accepted_row_def)
qed

text \<open>
  C7: Input at the boundary is either durably accepted or leaves nothing behind. A created Turn is
  in the database as accepted, under its request key and origin and with a payload from which a
  restart rebuilds exactly this Turn, and it holds one reservation of its origin. A rejected or
  repeated one adds no Turn (whatever the other tasks keep of the Turn table still holds) and its
  reservation is given back, whether shutdown, a stopped chain, a full queue, a conflict or the
  storage refused it.
\<close>

theorem input_accepted_or_left:
  assumes run: "accept_scheduled_turn env t0 s = (r, s')"
    and t: "t = completed_request env s t0" "scope = sc_scope (sdt_context t0)"
    and ids: "\<And>v n. ae_uuid env v n \<noteq> []" "sc_origin_id (sdt_context t0) = sdt_origin_id t0"
    and fresh: "\<And>v. find_turn (ae_uuid env v 2) (ap_databases (ae_others env v) scope) = None"
    and parse: "\<And>v. ae_parse env (ae_print env v) = Some (normalize v)"
    and small: "sc_chain_depth (sdt_context t0) < 2 ^ 64"
      "\<And>n. sc_channel_log_chat_id (sdt_context t0) = Some n \<Longrightarrow> - (2 ^ 63) \<le> n \<and> n < 2 ^ 63"
    and turns: "Q (turn_runs (ap_databases s scope))"
      "\<And>v. Q (turn_runs (ap_databases v scope)) \<Longrightarrow> Q (turn_runs (ap_databases (ae_others env v) scope))"
    and book: "\<And>v. pending_of (sdt_origin_id t) (ap_tracker (ae_others env v)) = pending_of (sdt_origin_id t) (ap_tracker v)"
    and origin: "distinct (map fst (ap_tracker (ae_others env (ae_others env s))))"
      "fresh_at (ae_instant env (ae_others env (ae_others env s))) (sdt_origin_id t)
         (ap_tracker (ae_others env (ae_others env s)))"
  shows "case r of
      Inr (CreatedTurn t') \<Rightarrow> durable_record env t' (ap_databases s' scope) \<and> sdt_origin_id t' = sdt_origin_id t \<and>
        pending_of (sdt_origin_id t) (ap_tracker s') = pending_of (sdt_origin_id t) (ap_tracker s) + 1
    | _ \<Rightarrow> Q (turn_runs (ap_databases s' scope)) \<and>
        pending_of (sdt_origin_id t) (ap_tracker s') = pending_of (sdt_origin_id t) (ap_tracker s)"
proof -
  let ?o = "sdt_origin_id t" and ?s1 = "ae_others env s"
  note f = completed_request_fields [OF ids, where s = s, folded t(1)]
  have sc: "sc_scope (sdt_context t) = scope" using f(6) t(2) by simp
  note Q1 = turns(2) [OF turns(1)]
  show ?thesis
  proof (cases "ap_accepting ?s1")
    case False
    then show ?thesis using run t Q1 book by (auto simp: accept_scheduled_turn_def Let_def)
  next
    case True
    obtain g s2 where g: "on_tracker env (\<lambda>now. reserve now ?o) ?s1 = (g, s2)" by (rule prod.exhaust)
    from on_tracker_fields [OF g] obtain tr where tr:
      "reserve (ae_instant env (ae_others env ?s1)) ?o (ap_tracker (ae_others env ?s1)) = (g, tr)"
      "s2 = (ae_others env ?s1)\<lparr>ap_tracker := tr\<rparr>" by blast
    have Q2: "Q (turn_runs (ap_databases s2 scope))" using turns(2) [OF Q1] tr(2) by simp
    have p2: "pending_of ?o (ap_tracker s2) =
        (case g of Inr _ \<Rightarrow> pending_of ?o (ap_tracker s) + 1 | Inl _ \<Rightarrow> pending_of ?o (ap_tracker s))"
      using pending_reserve [OF origin] tr book by (simp split: sum.splits)
    show ?thesis
    proof (cases g)
      case (Inl reason)
      then show ?thesis using run t True g Q2 p2 by (auto simp: accept_scheduled_turn_def Let_def)
    next
      case (Inr u)
      obtain d s3 where d: "durably_accept_turn env t s2 = (d, s3)" by (rule prod.exhaust)
      have r: "(r, s') = (case (d, s3) of
          (Inl e, s) \<Rightarrow> (Inl (accept_rejection e), release_origin env ?o s)
        | (Inr (Existing run), s) \<Rightarrow> (Inr (ExistingTurn run), release_origin env ?o s)
        | (Inr (Created run), s) \<Rightarrow> (Inr (CreatedTurn (stamped run t)), s))"
        using run [symmetric] True g Inr d unfolding accept_scheduled_turn_def t(1) [symmetric]
        by (simp add: Let_def)
      have p3: "pending_of ?o (ap_tracker s3) = pending_of ?o (ap_tracker s2)"
        using durably_accept_tracker [OF d, of "\<lambda>tr. pending_of ?o tr = pending_of ?o (ap_tracker s2)"] book by simp
      note rel = release_origin_pending [of ?o env s3, OF book]
      from d show ?thesis
      proof (cases rule: durably_accept_cases)
        case (failed e)
        have "Q (turn_runs (ap_databases s3 scope))" using failed(2) [unfolded sc, of Q] Q2 turns(2) by blast
        then show ?thesis using r failed(1) turns(2) p2 p3 rel Inr by simp
      next
        case (answered x db v c snapshot)
        have Qv: "Q (turn_runs (ap_databases (ae_others env v) scope))"
          using answered(5) turns(2) Q2 sc by metis
        from accept_outcomes [OF answered(3)] fresh [of v] sc
        consider run where "x = Existing run" "db = ap_databases (ae_others env v) scope"
          | "x = Created (turn_of_row (accepted_row (ae_clock env (ae_others env v)) (ae_uuid env v 2)
               (durable_accept_params env c t snapshot)) Accepted)"
            "db = accepted (ae_clock env (ae_others env v)) (ae_uuid env v 2)
               (durable_accept_params env c t snapshot) (ap_databases (ae_others env v) scope)" by auto
        then show ?thesis
        proof cases
          case 1
          then show ?thesis using r answered(1,2) turns(2) Qv p2 p3 rel Inr sc by simp
        next
          case 2
          have "durable_record env (t\<lparr>sdt_turn_id := ae_uuid env v 2\<rparr>) db"
            unfolding 2(2) using f small fresh [of v] by (intro created_record parse) auto
          then show ?thesis
            using r answered(1,2) 2(1) p2 p3 Inr sc stamped_created [OF f(1,2), of _ _ env c snapshot] by simp
        qed
      qed
    qed
  qed
qed

section \<open>A sample process\<close>

definition unused_id :: "database \<Rightarrow> string" where
  "unused_id db = replicate (Suc (sum_list (map (\<lambda>t. length (tr_turn_id t)) (turn_runs db)))) CHR ''u''"

lemma unused_id_fresh: "find_turn (unused_id db) db = None"
proof -
  have "length (tr_turn_id t) \<le> sum_list (map (\<lambda>t. length (tr_turn_id t)) (turn_runs db))"
    if "t \<in> set (turn_runs db)" for t using that by (intro member_le_sum_list) auto
  then have "tr_turn_id t \<noteq> unused_id db" if "t \<in> set (turn_runs db)" for t
    using that by (metis unused_id_def length_replicate Suc_n_not_le_n)
  then show ?thesis by (auto simp: find_turn_def find_row_None_iff)
qed

definition sample_app_env :: "unit app_env" where
  "sample_app_env =
     \<lparr>ae_others = (\<lambda>s. s), ae_fault = (\<lambda>_. None), ae_clock = (\<lambda>_. ''t0''), ae_instant = (\<lambda>_. 0),
      ae_uuid = (\<lambda>s _. unused_id (ap_databases s Normal)),
      ae_config = (\<lambda>_. \<lparr>cs_revision = 1, cs_fingerprint = ''f'', cs_agents = [''dev'']\<rparr>),
      ae_print = unary_print, ae_parse = unary_parse, ae_sha256_hex = id\<rparr>"

definition sample_app :: "unit app" where
  "sample_app =
     \<lparr>ap_databases = (\<lambda>_. empty_database), ap_secret = False, ap_assets = \<lparr>as_data = Map.empty, as_metadata = Map.empty\<rparr>, ap_tracker = [],
      ap_scheduler = scheduler_new, ap_observers = observers_new, ap_accepting = True,
      ap_shutting_down = False, ap_spawned = [], ap_sent = [], ap_rest = ()\<rparr>"

definition sample_request :: "config_snapshot scheduled_turn" where
  "sample_request =
     \<lparr>sdt_turn_id = '''', sdt_context = sample_context, sdt_input = ''hi'', sdt_origin_id = '''',
      sdt_received_at = None, sdt_config_snapshot = None, sdt_response_delivery = Channel\<rparr>"

lemma sample_env_fields:
  "ae_others sample_app_env = (\<lambda>s. s)" "ae_fault sample_app_env = (\<lambda>_. None)"
  "ae_instant sample_app_env = (\<lambda>_. 0)" "ae_uuid sample_app_env = (\<lambda>s _. unused_id (ap_databases s Normal))"
  "ae_print sample_app_env = unary_print" "ae_parse sample_app_env = unary_parse"
  by (simp_all add: sample_app_env_def)

lemma app_call_quiet:
  "app_call sample_app_env scope f s =
     (case f (ae_clock sample_app_env s) (ap_databases s scope) of
        Inl e \<Rightarrow> (Inl e, s) | Inr (a, db) \<Rightarrow> (Inr a, set_database scope db s))"
  by (simp add: app_call_def sample_env_fields)

lemma resolve_in_empty:
  "\<exists>c db. resolve_or_create_chat_id now ch ext ct ag empty_database = Inr (c, db) \<and> turn_runs db = []"
  by (simp add: resolve_or_create_chat_id_def resolve_chat_id_def Let_def empty_database_def row_simps
      chat_at_def res_simps insert_row_def find_row_append)

lemma sample_accepted_request:
  "\<exists>t s. accept_scheduled_turn sample_app_env sample_request sample_app = (Inr (CreatedTurn t), s)"
proof -
  let ?t = "completed_request sample_app_env sample_app sample_request"
  let ?s1 = "sample_app\<lparr>ap_tracker := snd (reserve 0 (sdt_origin_id ?t) [])\<rparr>"
  have sc: "sc_scope (sdt_context ?t) = Normal"
    by (simp add: completed_request_def sample_request_def sample_context_def surface_context_new_def Let_def)
  obtain c db where one: "resolve_context_chat sample_app_env (sdt_context ?t) ?s1 =
      (Inr c, set_database Normal db ?s1)" "turn_runs db = []"
  proof -
    have db0: "ap_databases ?s1 Normal = empty_database" by (simp add: sample_app_def)
    from resolve_in_empty [of "ae_clock sample_app_env ?s1"] obtain c db
      where "resolve_or_create_chat_id (ae_clock sample_app_env ?s1) (sc_channel (sdt_context ?t))
        (session_key (sdt_context ?t)) (sc_chat_type (sdt_context ?t)) (sc_agent_id (sdt_context ?t))
        empty_database = Inr (c, db)" "turn_runs db = []" by blast
    with that [of c db] show thesis unfolding resolve_context_chat_def app_call_quiet sc db0 by simp
  qed
  let ?s2 = "set_database Normal db ?s1"
  let ?p = "durable_accept_params sample_app_env c ?t
    (case sdt_config_snapshot ?t of Some c \<Rightarrow> c | None \<Rightarrow> ae_config sample_app_env ?s2)"
  have "accept_or_get_turn now i ?p db = Inr (Created (turn_of_row (accepted_row now i ?p) Accepted), accepted now i ?p db)"
    for now i
    by (subst accept_new) (simp_all add: one(2) find_turn_def MAX_DURABLE_PENDING_PER_SESSION_def
        MAX_DURABLE_PENDING_PER_SCOPE_def)
  then have "\<exists>run s. durably_accept_turn sample_app_env ?t ?s1 = (Inr (Created run), s)"
    unfolding durably_accept_turn_def one(1) app_call_quiet sc by (simp add: Let_def)
  moreover have "fst (reserve 0 o' []) = Inr ()" for o'
    by (simp add: reserve_def Let_def prune_Nil MAX_TRACKED_ORIGINS_def)
  moreover have "ap_accepting sample_app" "ap_tracker sample_app = []" by (simp_all add: sample_app_def)
  ultimately show ?thesis
    unfolding accept_scheduled_turn_def by (auto simp: Let_def on_tracker_def sample_env_fields case_prod_beta)
qed

theorem input_accepted_or_left_witness:
  "\<exists>t s. accept_scheduled_turn sample_app_env sample_request sample_app = (Inr (CreatedTurn t), s) \<and>
     durable_record sample_app_env t (ap_databases s Normal) \<and>
     pending_of (sdt_origin_id t) (ap_tracker s) = 1"
proof -
  obtain t s where run: "accept_scheduled_turn sample_app_env sample_request sample_app = (Inr (CreatedTurn t), s)"
    using sample_accepted_request by blast
  have r: "sample_request\<lparr>sdt_context := sample_context\<rparr> = sample_request" "sc_origin_id sample_context = ''''"
    "sc_scope sample_context = Normal" "sc_chain_depth sample_context = 0" "sc_channel_log_chat_id sample_context = None"
    "sdt_context sample_request = sample_context" "sdt_origin_id sample_request = ''''"
    by (simp_all add: sample_request_def sample_context_def surface_context_new_def)
  have s: "ap_tracker sample_app = []" by (simp add: sample_app_def)
  have ids: "ae_uuid sample_app_env v n \<noteq> []"
    "find_turn (ae_uuid sample_app_env v 2) (ap_databases (ae_others sample_app_env v) (sc_scope (sdt_context sample_request))) = None"
    "ae_parse sample_app_env (ae_print sample_app_env j) = Some (normalize j)" for v n j
    using unused_id_fresh [of "ap_databases v Normal"] unary_parse_print
    by (simp_all add: sample_env_fields r) (simp add: unused_id_def)
  from input_accepted_or_left [OF run refl refl ids(1) _ ids(2,3), of "\<lambda>_. True"] show ?thesis
    using run by (simp add: r s sample_env_fields fresh_at_def) (simp add: pending_of_def)
qed

end
