(* ===== verification/Dispatch_Followups.thy ===== *)
theory Dispatch_Followups
  imports Dispatch_Intake
begin

text \<open>
  The promotion of staged follow-ups loses none: a staged row is deleted only when a Turn with its
  id as request key is in the database.
\<close>

section \<open>Stable facts\<close>

text \<open>What the other tasks keep true of the database of a scope.\<close>

definition stable :: "('x, 'z) app_env_scheme \<Rightarrow> conversation_scope \<Rightarrow> (database \<Rightarrow> bool) \<Rightarrow> bool" where
  "stable env scope P = (\<forall>v. P (ap_databases v scope) \<longrightarrow> P (ap_databases (ae_others env v) scope))"

lemma stableD: "stable env scope P \<Longrightarrow> P (ap_databases v scope) \<Longrightarrow> P (ap_databases (ae_others env v) scope)"
  by (simp add: stable_def)

lemma stable_read: "stable env scope P \<Longrightarrow> app_read env scope f s = (r, s') \<Longrightarrow> P (ap_databases s scope) \<Longrightarrow>
    P (ap_databases s' scope)"
  using app_read_keeps [of env scope f s r s' P] by (auto simp: stable_def)

lemma stable_observers: "stable env scope P \<Longrightarrow> on_observers env f s = (a, s') \<Longrightarrow> P (ap_databases s scope) \<Longrightarrow>
    P (ap_databases s' scope)"
  using on_observers_databases [of env f s] by (simp add: stableD)

lemma stable_tracker: "stable env scope P \<Longrightarrow> on_tracker env f s = (a, s') \<Longrightarrow> P (ap_databases s scope) \<Longrightarrow>
    P (ap_databases s' scope)"
  using on_tracker_fields [of env f s a s'] stableD [of env scope P] by fastforce

section \<open>Follow-ups\<close>

definition promoted :: "string \<Rightarrow> database \<Rightarrow> bool" where
  "promoted k db = (\<exists>t \<in> set (turn_runs db). tr_request_key t = k)"

definition followup_kept :: "int \<Rightarrow> string \<Rightarrow> database \<Rightarrow> bool" where
  "followup_kept c k db =
     ((\<exists>r \<in> set (messages db). msg_chat_id r = c \<and> msg_id r = k \<and> staged_user r) \<or> promoted k db)"

lemma followup_kept_mono:
  "followup_kept c k db \<Longrightarrow> messages db' = messages db \<Longrightarrow> set (turn_runs db) \<subseteq> set (turn_runs db') \<Longrightarrow>
    followup_kept c k db'"
  by (auto simp: followup_kept_def promoted_def)

lemma promoted_mono: "promoted k db \<Longrightarrow> set (turn_runs db) \<subseteq> set (turn_runs db') \<Longrightarrow> promoted k db'"
  by (auto simp: promoted_def)

lemma resolve_changes:
  assumes "resolve_or_create_chat_id now ch ext ct ag db = Inr (c, db')"
  shows "messages db' = messages db" "turn_runs db' = turn_runs db"
  using assms by (auto simp: resolve_or_create_chat_id_def Let_def res_simps split: option.splits)

lemma accept_changes:
  assumes "accept_or_get_turn now i p db = Inr (x, db')"
  shows "messages db' = messages db" "set (turn_runs db) \<subseteq> set (turn_runs db')"
    "promoted (atp_request_key p) db'"
proof -
  consider "find_row (same_request (atp_chat_id p) (atp_request_key p)) (turn_runs db) = None"
      "db' = accepted now i p db"
    | r where "find_row (same_request (atp_chat_id p) (atp_request_key p)) (turn_runs db) = Some r" "db' = db"
    using assms accept_existing_db [OF _ assms] accept_new [of p db now i] by (cases "find_row (same_request (atp_chat_id p)
      (atp_request_key p)) (turn_runs db)") (auto split: if_splits)
  then have "messages db' = messages db \<and> set (turn_runs db) \<subseteq> set (turn_runs db') \<and> promoted (atp_request_key p) db'"
    by cases (auto simp: accepted_def insert_row_def promoted_def same_request_def dest!: find_row_Some)
  then show "messages db' = messages db" "set (turn_runs db) \<subseteq> set (turn_runs db')" "promoted (atp_request_key p) db'"
    by blast+
qed

text \<open>The boundary keeps follow-ups, and has a Turn for the request unless it rejects it.\<close>

lemma accept_keeps:
  assumes run: "accept_scheduled_turn env t0 s = (r, s')" and scope: "scope = sc_scope (sdt_context t0)"
    and P: "stable env scope P" "P (ap_databases s scope)"
    and mono: "\<And>db db'. P db \<Longrightarrow> messages db' = messages db \<Longrightarrow> set (turn_runs db) \<subseteq> set (turn_runs db') \<Longrightarrow> P db'"
  shows "P (ap_databases s' scope)"
proof -
  let ?t = "completed_request env s t0" and ?s1 = "ae_others env s"
  have sc: "sc_scope (sdt_context ?t) = scope" by (simp add: completed_request_def Let_def scope)
  have call: "P (ap_databases v' scope)"
    if "app_call env scope f v = (x, v')" "P (ap_databases v scope)"
      "\<And>now db a db'. f now db = Inr (a, db') \<Longrightarrow> messages db' = messages db \<and> set (turn_runs db) \<subseteq> set (turn_runs db')"
    for f :: "string \<Rightarrow> database \<Rightarrow> 'c tx" and v x v'
    by (rule app_call_keeps [where P = P, OF that(1,2) stableD [OF P(1)]]) (use that(3) mono in blast)+
  have resolved: "P (ap_databases v' scope)"
    if "resolve_context_chat env (sdt_context ?t) v = (x, v')" "P (ap_databases v scope)" for v x v'
    by (rule app_call_keeps [where P = P, OF that(1) [unfolded resolve_context_chat_def sc] that(2) stableD [OF P(1)]])
      (use mono [OF _ resolve_changes(1)] resolve_changes(2) in auto)
  have accepted: "P (ap_databases v' scope)"
    if "durably_accept_turn env ?t v = (x, v')" "P (ap_databases v scope)" for v x v'
  proof -
    obtain x1 v1 where one: "resolve_context_chat env (sdt_context ?t) v = (x1, v1)" by (rule prod.exhaust)
    note P1 = resolved [OF one that(2)]
    show ?thesis
    proof (cases x1)
      case (Inl e)
      then show ?thesis using that(1) one P1 by (simp add: durably_accept_turn_def)
    next
      case (Inr c)
      have "app_call env scope (\<lambda>now. accept_or_get_turn now (ae_uuid env v1 2) (durable_accept_params env c ?t
          (case sdt_config_snapshot ?t of Some c \<Rightarrow> c | None \<Rightarrow> ae_config env v1))) v1 = (x, v')"
        using that(1) unfolding durably_accept_turn_def one Inr sc by (simp add: Let_def)
      from app_call_keeps [where P = P, OF this P1 stableD [OF P(1)]] show ?thesis
        using mono accept_changes(1,2) by blast
    qed
  qed
  have rel: "P (ap_databases (release_origin env i v) scope)" if "P (ap_databases v scope)" for i v
    using stableD [OF P(1) that] by simp
  obtain g s2 where g: "on_tracker env (\<lambda>now. reserve now (sdt_origin_id ?t)) ?s1 = (g, s2)" by (rule prod.exhaust)
  obtain d s3 where d: "durably_accept_turn env ?t s2 = (d, s3)" by (rule prod.exhaust)
  note P1 = stableD [OF P] and P2 = stable_tracker [OF P(1) g stableD [OF P]]
  note P3 = accepted [OF d P2]
  show ?thesis
    using run P1 P2 P3 rel [OF P3] unfolding accept_scheduled_turn_def Let_def g
    by (auto simp: d split: if_splits sum.splits accept_outcome.splits)
qed

lemma accept_promotes:
  assumes run: "accept_scheduled_turn env t0 s = (Inr x, s')" and scope: "scope = sc_scope (sdt_context t0)"
    and key: "sc_request_key (sdt_context t0) = k" "k \<noteq> []" and st: "stable env scope (promoted k)"
  shows "promoted k (ap_databases s' scope)"
proof -
  let ?t = "completed_request env s t0" and ?s1 = "ae_others env s"
  have t: "sc_scope (sdt_context ?t) = scope" "sc_request_key (sdt_context ?t) = k"
    using key by (simp_all add: completed_request_def Let_def scope)
  obtain g s2 where g: "on_tracker env (\<lambda>now. reserve now (sdt_origin_id ?t)) ?s1 = (g, s2)" by (rule prod.exhaust)
  obtain d s3 where d: "durably_accept_turn env ?t s2 = (d, s3)" by (rule prod.exhaust)
  have s': "(\<exists>y. d = Inr y) \<and> (s' = s3 \<or> (\<exists>i. s' = release_origin env i s3))"
    using run unfolding accept_scheduled_turn_def Let_def g
    by (auto simp: d split: if_splits sum.splits accept_outcome.splits)
  then obtain y where y: "d = Inr y" by blast
  have "promoted k (ap_databases s3 scope)"
    using d
  proof (cases rule: durably_accept_cases)
    case (answered x db v c snapshot)
    from accept_changes(3) [OF answered(3)] answered(2) show ?thesis
      using t by (simp add: durable_accept_params_def)
  qed (use y in simp)
  then show ?thesis using s' stableD [OF st] by auto
qed

section \<open>Promotion\<close>

lemma delete_staged_keeps:
  assumes "delete_staged env scope m s = (r, s')" "stable env scope (followup_kept c k)" "stable env scope (promoted k)"
    and "followup_kept c k (ap_databases s scope)" "msg_id m = k \<Longrightarrow> promoted k (ap_databases s scope)"
  shows "followup_kept c k (ap_databases s' scope)"
proof -
  let ?P = "\<lambda>db. followup_kept c k db \<and> (msg_id m = k \<longrightarrow> promoted k db)"
  have "?P (ap_databases s' scope)"
  proof (rule app_call_keeps [OF assms(1) [unfolded delete_staged_def]])
    show "?P (ap_databases s scope)" using assms(4,5) by blast
    show "?P (ap_databases (ae_others env v) scope)" if "?P (ap_databases v scope)" for v
      using that stableD [OF assms(2)] stableD [OF assms(3)] by blast
    show "?P db'" if "Inr ((), delete_staged_user_message_after_promotion (msg_chat_id m) (msg_id m) db) = Inr (a, db')"
      "?P db" for db a db'
      using that by (auto simp: delete_staged_user_message_after_promotion_def delete_rows_def followup_kept_def promoted_def)
  qed
  then show ?thesis by blast
qed

lemma announce_keeps:
  assumes "stable env scope P" "P (ap_databases s scope)"
  shows "P (ap_databases (announce_promotion env template transferred m s) scope)"
  using assms(2) stableD [OF assms(1)]
  by (simp add: announce_promotion_def Let_def case_prod_beta on_observers_databases)

text \<open>The facts the other tasks have to keep: a follow-up is not dropped and a Turn stays.\<close>

definition keeps_followup :: "('x, 'z) app_env_scheme \<Rightarrow> conversation_scope \<Rightarrow> int \<Rightarrow> string \<Rightarrow> bool" where
  "keeps_followup env scope c k = (stable env scope (followup_kept c k) \<and> stable env scope (promoted k))"

lemma promote_message_keeps:
  assumes run: "promote_message env scope template transferred m s = (r, s')"
    and st: "keeps_followup env scope c k" and k: "k \<noteq> []" and P: "followup_kept c k (ap_databases s scope)"
  shows "followup_kept c k (ap_databases s' scope)"
proof -
  let ?t = "promoted_turn (ae_uuid env s 7) scope template m"
  have t: "sc_scope (sdt_context ?t) = scope" "sc_request_key (sdt_context ?t) = msg_id m"
    by (simp_all add: promoted_turn_def)
  note st = st [unfolded keeps_followup_def, THEN conjunct1] st [unfolded keeps_followup_def, THEN conjunct2]
  obtain a s1 where a: "accept_scheduled_turn env ?t s = (a, s1)" by (rule prod.exhaust)
  have P1: "followup_kept c k (ap_databases s1 scope)"
    by (rule accept_keeps [OF a t(1) [symmetric] st(1) P]) (rule followup_kept_mono)
  have K1: "promoted k (ap_databases s1 scope)" if "a = Inr x" "msg_id m = k" for x
    using accept_promotes [of env ?t s x s1 scope k] a that t k st(2) by simp
  show ?thesis
  proof (cases a)
    case (Inl e)
    then show ?thesis using run a P1 by (simp add: promote_message_def)
  next
    case (Inr x)
    let ?s2 = "announce_promotion env template transferred m s1"
    have P2: "followup_kept c k (ap_databases ?s2 scope)" by (rule announce_keeps [OF st(1) P1])
    have K2: "promoted k (ap_databases ?s2 scope)" if "msg_id m = k"
      by (rule announce_keeps [OF st(2)]) (rule K1 [OF Inr that])
    have del: "followup_kept c k (ap_databases v' scope)"
      if "delete_staged env scope m v = (u, v')" "v = s1 \<or> v = ?s2" for v u v'
      using delete_staged_keeps [OF that(1) st] that(2) P1 P2 K1 [OF Inr] K2 by blast
    show ?thesis
      using run a Inr del unfolding promote_message_def
      by (auto split: accepted_scheduled_turn.splits sum.splits prod.splits)
  qed
qed

lemma promote_messages_keeps:
  assumes "promote_messages env scope template transferred ms ready s = (r, s')" "keeps_followup env scope c k"
    "k \<noteq> []" "followup_kept c k (ap_databases s scope)"
  shows "followup_kept c k (ap_databases s' scope)"
  using assms
proof (induction ms arbitrary: ready s)
  case (Cons m ms)
  obtain x s1 where x: "promote_message env scope template transferred m s = (x, s1)" by (rule prod.exhaust)
  note P1 = promote_message_keeps [OF x Cons.prems(2-4)]
  show ?case using Cons.prems(1) x P1 Cons.IH [OF _ Cons.prems(2,3) P1] by (auto split: sum.splits)
qed simp

lemma schedule_databases: "stable env scope P \<Longrightarrow> P (ap_databases s scope) \<Longrightarrow>
    P (ap_databases (snd (schedule_and_spawn env t s)) scope)"
  using stableD [of env scope P]
  by (auto simp: schedule_and_spawn_def Let_def split: prod.split schedule_result.split)

lemma schedule_all_keeps:
  "stable env scope P \<Longrightarrow> P (ap_databases s scope) \<Longrightarrow> P (ap_databases (schedule_all env ts s) scope)"
  by (induction ts arbitrary: s) (simp_all add: schedule_accepted_turn_def schedule_databases)

lemma all_live_keeps:
  "stable env scope P \<Longrightarrow> all_live env ks s = (b, s') \<Longrightarrow> P (ap_databases s scope) \<Longrightarrow> P (ap_databases s' scope)"
proof (induction ks arbitrary: s)
  case (Cons k ks)
  obtain live s1 where one: "on_observers env (has_live_observer k) s = (live, s1)" by (rule prod.exhaust)
  note P1 = stable_observers [OF Cons.prems(1) one Cons.prems(3)]
  show ?case using Cons.prems(2) one P1 Cons.IH [OF Cons.prems(1) _ P1] by (auto split: if_splits)
qed simp

lemma transfer_keeps:
  assumes "stable env scope P" "transfer_observer env template ks s = (b, s')" "P (ap_databases s scope)"
  shows "P (ap_databases s' scope)"
proof -
  obtain b1 s1 where one: "on_observers env (transfer_many (sc_request_key (sdt_context template)) ks) s = (b1, s1)"
    by (rule prod.exhaust)
  note P1 = stable_observers [OF assms(1) one assms(3)]
  show ?thesis
    using assms(2,3) one P1 all_live_keeps [OF assms(1) _ P1] unfolding transfer_observer_def
    by (auto split: if_splits)
qed

lemma promote_group_keeps:
  assumes run: "promote_group env scope parent payload s = (r, s')" and st: "keeps_followup env scope c k"
    and k: "k \<noteq> []" and P: "followup_kept c k (ap_databases s scope)"
  shows "followup_kept c k (ap_databases s' scope)"
proof -
  note st1 = st [unfolded keeps_followup_def, THEN conjunct1]
  obtain x s1 where x: "app_read env scope (list_staged_user_messages parent) s = (x, s1)" by (rule prod.exhaust)
  note P1 = stable_read [OF st1 x P]
  have rest: "followup_kept c k (ap_databases s' scope)"
    if "(let (transferred, s) = transfer_observer env template ids s1
         in case promote_messages env scope template transferred ms [] s of
              (Inl e, s) \<Rightarrow> (Inl e, s) | (Inr ready, s) \<Rightarrow> (Inr (), schedule_all env ready s)) = (r, s')"
    for template ids ms
  proof -
    obtain b s2 where b: "transfer_observer env template ids s1 = (b, s2)" by (rule prod.exhaust)
    obtain y s3 where y: "promote_messages env scope template b ms [] s2 = (y, s3)" by (rule prod.exhaust)
    have P3: "followup_kept c k (ap_databases s3 scope)"
      by (rule promote_messages_keeps [OF y st k transfer_keeps [OF st1 b P1]])
    show ?thesis using that b y P3 schedule_all_keeps [OF st1 P3] by (auto split: sum.splits)
  qed
  show ?thesis
  proof (cases payload)
    case None
    then show ?thesis using run P by (simp add: promote_group_def)
  next
    case (Some json)
    show ?thesis
    proof (cases x)
      case (Inl e)
      then show ?thesis using run x P1 Some by (simp add: promote_group_def)
    next
      case (Inr ms)
      show ?thesis
      proof (cases "ms = []")
        case True
        then show ?thesis using run x P1 Some Inr by (simp add: promote_group_def)
      next
        case False
        show ?thesis
        proof (cases "deserialize_scheduled_turn (ae_parse env) json :: payload_error + config_snapshot scheduled_turn")
          case (Inl e)
          then show ?thesis using run x P1 Some \<open>x = Inr ms\<close> False by (simp add: promote_group_def)
        next
          case (Inr template)
          show ?thesis
            by (rule rest [of template "map msg_id ms" ms])
              (use run x Some \<open>x = Inr ms\<close> False Inr in \<open>simp add: promote_group_def\<close>)
        qed
      qed
    qed
  qed
qed

lemma promote_groups_keeps:
  assumes "promote_groups env scope gs s = (r, s')" "keeps_followup env scope c k" "k \<noteq> []"
    "followup_kept c k (ap_databases s scope)"
  shows "followup_kept c k (ap_databases s' scope)"
  using assms
proof (induction gs arbitrary: s)
  case (Cons g gs)
  obtain parent payload where g: "g = (parent, payload)" by (rule prod.exhaust)
  obtain x s1 where x: "promote_group env scope parent payload s = (x, s1)" by (rule prod.exhaust)
  note P1 = promote_group_keeps [OF x Cons.prems(2-4)]
  show ?case using Cons.prems(1) x P1 Cons.IH [OF _ Cons.prems(2,3) P1] by (auto simp: g split: sum.splits)
qed simp

text \<open>
  C9: No follow-up is lost when the Turn it was staged for has ended: as long as the other tasks
  neither drop a follow-up nor a Turn, the promotion (of the live dispatcher and of start-up)
  leaves every staged message either staged or with a Turn under its id as request key, whatever
  storage call fails and whether its acceptance is rejected or repeated.
\<close>

theorem promotion_loses_no_followup:
  assumes "promote_terminal_staged_messages env scope s = (r, s')"
    and "keeps_followup env scope c k" "k \<noteq> []" "followup_kept c k (ap_databases s scope)"
  shows "followup_kept c k (ap_databases s' scope)"
proof -
  obtain x s1 where x: "app_read env scope (list_terminal_staged_user_messages (nat DISPATCHER_BATCH_LIMIT)) s = (x, s1)"
    by (rule prod.exhaust)
  have P1: "followup_kept c k (ap_databases s1 scope)"
    using stable_read [of env scope "followup_kept c k", OF _ x assms(4)] assms(2) by (simp add: keeps_followup_def)
  show ?thesis
    using assms(1) x P1 promote_groups_keeps [OF _ assms(2,3) P1]
    unfolding promote_terminal_staged_messages_def by (auto split: sum.splits)
qed

definition sample_followup :: message_row where
  "sample_followup =
     \<lparr>msg_id = ''f1'', msg_chat_id = 7, msg_sender_id = ''ana'', msg_content = ''and this'',
      msg_sender_kind = ''user'', msg_timestamp = ''t1'', msg_message_kind = ''message'',
      msg_recipient_agent_id = None, msg_seq = None, msg_turn_id = Some ''T'', msg_parent_message_id = None\<rparr>"

definition sample_followup_app :: "unit app" where
  "sample_followup_app = set_database Normal (empty_database\<lparr>messages := [sample_followup]\<rparr>) sample_app"

theorem promotion_loses_no_followup_witness:
  "followup_kept 7 ''f1'' (ap_databases
     (snd (promote_terminal_staged_messages sample_app_env Normal sample_followup_app)) Normal)"
proof -
  obtain r s' where run: "promote_terminal_staged_messages sample_app_env Normal sample_followup_app = (r, s')"
    by (rule prod.exhaust)
  have "keeps_followup sample_app_env Normal 7 ''f1''"
    by (simp add: keeps_followup_def stable_def sample_env_fields)
  moreover have "followup_kept 7 ''f1'' (ap_databases sample_followup_app Normal)"
    by (simp add: followup_kept_def sample_followup_app_def sample_followup_def staged_user_def)
  ultimately show ?thesis using promotion_loses_no_followup [OF run] run by simp
qed

end
