(* ===== verification/Dispatch_Tick.thy ===== *)
theory Dispatch_Tick
  imports Dispatch_Followups Keyset_Pages
begin

text \<open>
  What one scan of the dispatcher does when nothing else runs: the pages, although each is read
  from the database as the scan left it, make up the queue as it was, and every Turn of it is
  handed to the scheduler once and in order, or ended if its payload cannot be read.
\<close>

section \<open>The queue\<close>

definition due_rows :: "database \<Rightarrow> turn_row list" where
  "due_rows db = sort_key dispatch_cursor (filter resumable_row (turn_runs db))"

definition due_after :: "cursor \<Rightarrow> database \<Rightarrow> turn_row list" where
  "due_after c db = filter (\<lambda>t. c < dispatch_cursor t) (due_rows db)"

definition ids_ok :: "database \<Rightarrow> bool" where
  "ids_ok db = distinct (map tr_turn_id (turn_runs db))"

lemma due_after_eq:
  "due_after c db = sort_key dispatch_cursor (filter (\<lambda>t. c < dispatch_cursor t \<and> resumable_row t) (turn_runs db))"
  by (simp add: due_after_def due_rows_def filter_sort conj_commute)

lemma scan_due: "scan_durable_resumable_turns_after c n db = map to_durable_pending (take n (due_after c db))"
  by (simp add: scan_durable_resumable_turns_after_def due_after_eq)

lemma due_rows_sorted: "ids_ok db \<Longrightarrow> sorted_wrt (\<lambda>r s. dispatch_cursor r < dispatch_cursor s) (due_rows db)"
proof -
  assume "ids_ok db"
  then have "distinct (map tr_turn_id (filter resumable_row (turn_runs db)))"
    by (simp add: ids_ok_def distinct_map_filter)
  then have "distinct (map dispatch_cursor (filter resumable_row (turn_runs db)))"
    by (auto simp: distinct_map dispatch_cursor_def inj_on_def)
  then have "distinct (map dispatch_cursor (due_rows db))"
    by (simp add: due_rows_def distinct_map)
  moreover have "sorted (map dispatch_cursor (due_rows db))" by (simp add: due_rows_def)
  ultimately have "sorted_wrt (<) (map dispatch_cursor (due_rows db))"
    by (simp add: strict_sorted_iff)
  then show ?thesis by (simp add: sorted_wrt_map)
qed

text \<open>The queue is read by keyset pages too.\<close>

interpretation due_pages: keyset_reader "(<)" dispatch_cursor ids_ok due_rows
    "\<lambda>c n db. take n (filter (comes_after (<) dispatch_cursor c) (due_rows db))"
  by unfold_locales (use due_rows_sorted in auto)

lemma due_after_page:
  assumes "ids_ok db" "0 < n" "due_after c db \<noteq> []"
  shows "due_after (dispatch_cursor (last (take n (due_after c db)))) db = drop n (due_after c db)"
proof -
  have eq: "filter (comes_after (<) dispatch_cursor (Some k)) (due_rows db) = due_after k db" for k
    unfolding due_after_def by (rule arg_cong2 [where f = filter]) (simp_all add: comes_after_def fun_eq_iff)
  have "filter (comes_after (<) dispatch_cursor (Some c)) (due_rows db) \<noteq> []" unfolding eq by (rule assms(3))
  from due_pages.rest_after_page [OF assms(1,2) this] show ?thesis by (simp only: eq)
qed

lemma sorted_last_max:
  fixes f :: "'a \<Rightarrow> 'b :: linorder"
  assumes "sorted_wrt (\<lambda>a b. f a < f b) xs" "u \<in> set xs"
  shows "\<not> f (last xs) < f u"
proof -
  have "xs = butlast xs @ [last xs]" using assms(2) by (metis append_butlast_last_id empty_iff empty_set)
  then have "u = last xs \<or> f u < f (last xs)"
    using assms by (metis UnE empty_iff list.set(1) set_ConsD set_append sorted_wrt_append list.set_intros(1))
  then show ?thesis by auto
qed

section \<open>Ending an unreadable Turn\<close>

lemma fail_invalid_rows:
  assumes inv: "store_inv db" and ok: "fail_invalid_durable_turn now i db = Inr (u, db')"
  shows "\<exists>f. turn_runs db' = update_rows (\<lambda>t. tr_turn_id t = i) f (turn_runs db) \<and>
      (\<forall>t. tr_turn_id (f t) = tr_turn_id t \<and> dispatch_cursor (f t) = dispatch_cursor t)"
    "\<exists>to. to \<in> {Failed, Uncertain} \<and> (\<forall>j. turn_status db' j = (if j = i then Some to else turn_status db j))"
    "store_inv db'"
proof -
  from ok obtain s to db1 and t :: turn_row where f: "turn_status db i = Some s" "s \<in> {Accepted, InputCommitted, ToolsCompleted}"
    "to = (if s = ToolsCompleted \<and> tr_output_published t \<noteq> 0 then Uncertain else Failed)"
    "record_turn_failure_message_locked now i DURABLE_PAYLOAD_INVALID_PUBLIC_MESSAGE
       (set_failed now i to DURABLE_PAYLOAD_INVALID_ERROR_KIND DURABLE_PAYLOAD_INVALID_ERROR_MESSAGE db) = Inr ((), db1)"
    "turn_runs db' = turn_runs db1"
  proof (rule fail_invalid_ok)
    fix s to db1 and t :: turn_row
    assume st: "turn_status db i = Some s" "s \<in> {Accepted, InputCommitted, ToolsCompleted}"
      and to: "to = (if s = ToolsCompleted \<and> tr_output_published t \<noteq> 0 then Uncertain else Failed)"
      and rec: "record_turn_failure_message_locked now i DURABLE_PAYLOAD_INVALID_PUBLIC_MESSAGE
       (set_failed now i to DURABLE_PAYLOAD_INVALID_ERROR_KIND DURABLE_PAYLOAD_INVALID_ERROR_MESSAGE db) = Inr ((), db1)"
      and db': "db' = (case tr_origin_id t of
        Some og \<Rightarrow> if og = [] then db1 else upsert_turn_origin now og (Some DURABLE_PAYLOAD_INVALID_ERROR_KIND) db1
      | None \<Rightarrow> db1)"
    from db' have "turn_runs db' = turn_runs db1" by (simp split: option.split)
    from that [OF st to rec this] show thesis .
  qed
  have to: "can_transition s to" "to \<in> {Failed, Uncertain}" using f(2,3) by (auto simp: can_transition_def)
  note step = record_failure_step [OF inv f(1) to f(4)]
  let ?f = "\<lambda>t. t\<lparr>tr_state := turn_run_state_display to, tr_error_kind := Some DURABLE_PAYLOAD_INVALID_ERROR_KIND,
    tr_error_message := Some DURABLE_PAYLOAD_INVALID_ERROR_MESSAGE, tr_finished_at := Some now, tr_updated_at := now\<rparr>"
  have "turn_runs db' = update_rows (\<lambda>t. tr_turn_id t = i) ?f (turn_runs db)"
    using f(5) step(3) by (simp add: set_failed_def update_turn_def)
  then show "\<exists>f. turn_runs db' = update_rows (\<lambda>t. tr_turn_id t = i) f (turn_runs db) \<and>
      (\<forall>t. tr_turn_id (f t) = tr_turn_id t \<and> dispatch_cursor (f t) = dispatch_cursor t)"
    by (intro exI [of _ ?f]) (simp add: dispatch_cursor_def)
  show "\<exists>to. to \<in> {Failed, Uncertain} \<and> (\<forall>j. turn_status db' j = (if j = i then Some to else turn_status db j))"
    using to(2) step(2) turn_status_cong [OF f(5)] by metis
  show "store_inv db'" using fail_invalid_progress [OF inv ok] inv by (blast intro: store_progress_inv)
qed

text \<open>It leaves the queue behind every cursor that is not before it.\<close>

lemma due_after_update:
  assumes "\<And>t. tr_turn_id (f t) = tr_turn_id t \<and> dispatch_cursor (f t) = dispatch_cursor t"
    and "turn_runs db' = update_rows (\<lambda>t. tr_turn_id t = i) f (turn_runs db)"
    and "\<And>t. t \<in> set (turn_runs db) \<Longrightarrow> tr_turn_id t = i \<Longrightarrow> \<not> c < dispatch_cursor t"
  shows "due_after c db' = due_after c db"
proof -
  have "filter (\<lambda>t. c < dispatch_cursor t \<and> resumable_row t) (update_rows (\<lambda>t. tr_turn_id t = i) f ts) =
      filter (\<lambda>t. c < dispatch_cursor t \<and> resumable_row t) ts" if "set ts \<subseteq> set (turn_runs db)" for ts
    using that by (induction ts) (auto simp: update_rows_def assms(1) assms(3))
  then show ?thesis by (simp add: due_after_eq assms(2))
qed

section \<open>A quiet process\<close>

definition quiet :: "('x, 'z) app_env_scheme \<Rightarrow> bool" where
  "quiet env = ((\<forall>s. ae_others env s = s) \<and> (\<forall>s. ae_fault env s = None))"

lemma quiet_call:
  "quiet env \<Longrightarrow> app_call env scope f s =
     (case f (ae_clock env s) (ap_databases s scope) of
        Inl e \<Rightarrow> (Inl e, s) | Inr (a, db) \<Rightarrow> (Inr a, set_database scope db s))"
  by (simp add: app_call_def quiet_def)

lemma quiet_read: "quiet env \<Longrightarrow> app_read env scope f s = (f (ap_databases s scope), s)"
  by (cases "f (ap_databases s scope)") (simp_all add: app_read_def quiet_call set_database_def)

lemma dispatch_batch_append:
  "dispatch_batch env scope (ds @ ds') c s =
     (case dispatch_batch env scope ds c s of
        (Inl e, s) \<Rightarrow> (Inl e, s) | (Inr c, s) \<Rightarrow> dispatch_batch env scope ds' c s)"
  by (induction ds arbitrary: c s) (auto split: sum.split prod.split)

lemma dispatch_batch_cursor:
  "dispatch_batch env scope ds c s = (Inr c', s') \<Longrightarrow>
    c' = (if ds = [] then c else Cursor (dpt_accepted_at (last ds)) (dpt_turn_id (last ds)))"
  by (induction ds arbitrary: c s) (auto split: sum.splits prod.splits if_splits)

text \<open>One Turn: submitted to the scheduler, or ended.\<close>

lemma dispatch_turn_quiet:
  assumes q: "quiet env" and inv: "store_inv (ap_databases s scope)"
    and run: "dispatch_turn env scope d s = (r, s')"
  obtains (handed) t where "deserialize_scheduled_turn (ae_parse env) (dpt_scheduled_request_json d) = Inr t" "r = Inr ()"
      "ap_databases s' = ap_databases s"
      "s' = snd (schedule_and_spawn env (t\<lparr>sdt_turn_id := dpt_turn_id d\<rparr>) s)"
  | (ended) e db where "deserialize_scheduled_turn (ae_parse env) (dpt_scheduled_request_json d) =
        (Inl e :: payload_error + config_snapshot scheduled_turn)" "r = Inr ()"
      "fail_invalid_durable_turn (ae_clock env s) (dpt_turn_id d) (ap_databases s scope) = Inr ((), db)"
      "s' = set_database scope db s"
  | (kept) "s' = s" "\<exists>e. fail_invalid_durable_turn (ae_clock env s) (dpt_turn_id d) (ap_databases s scope) = Inl e"
      "\<exists>e. deserialize_scheduled_turn (ae_parse env) (dpt_scheduled_request_json d) =
        (Inl e :: payload_error + config_snapshot scheduled_turn)"
proof (cases "deserialize_scheduled_turn (ae_parse env) (dpt_scheduled_request_json d) ::
    payload_error + config_snapshot scheduled_turn")
  case (Inr t)
  have "ap_databases (snd (schedule_and_spawn env t' s)) = ap_databases s" for t'
    using q by (auto simp: schedule_and_spawn_def quiet_def Let_def split: prod.split schedule_result.split)
  with handed [of t] show ?thesis using run Inr by (auto simp: dispatch_turn_def enqueue_durable_turn_def)
next
  case (Inl e)
  then have t: "terminalize_invalid_durable_turn env scope (dpt_turn_id d) s = (r, s')"
    using run by (simp add: dispatch_turn_def)
  show ?thesis
  proof (cases "fail_invalid_durable_turn (ae_clock env s) (dpt_turn_id d) (ap_databases s scope)")
    case (Inl e')
    then show ?thesis using t kept \<open>_ = Inl e\<close> by (auto simp: terminalize_invalid_durable_turn_def quiet_call [OF q] split: if_splits)
  next
    case (Inr x)
    then show ?thesis using t ended [of e "snd x"] \<open>_ = Inl e\<close>
      by (auto simp: terminalize_invalid_durable_turn_def quiet_call [OF q] split: prod.splits)
  qed
qed

text \<open>A batch keeps the queue behind its last Turn.\<close>

lemma dispatch_batch_keeps_rest:
  assumes q: "quiet env" and "dispatch_batch env scope ds c0 s = (r, s')" "store_inv (ap_databases s scope)"
    and "\<And>t. t \<in> set (turn_runs (ap_databases s scope)) \<Longrightarrow> tr_turn_id t \<in> dpt_turn_id ` set ds \<Longrightarrow> \<not> c < dispatch_cursor t"
  shows "store_inv (ap_databases s' scope) \<and> due_after c (ap_databases s' scope) = due_after c (ap_databases s scope)"
  using assms(2-4)
proof (induction ds arbitrary: c0 s)
  case (Cons d ds)
  obtain x s1 where x: "dispatch_turn env scope d s = (x, s1)" by (rule prod.exhaust)
  have one: "store_inv (ap_databases s1 scope) \<and> due_after c (ap_databases s1 scope) = due_after c (ap_databases s scope) \<and>
    (\<forall>t \<in> set (turn_runs (ap_databases s1 scope)). \<exists>t0 \<in> set (turn_runs (ap_databases s scope)).
       tr_turn_id t = tr_turn_id t0 \<and> dispatch_cursor t = dispatch_cursor t0)"
    using q Cons.prems(2) x
  proof (cases rule: dispatch_turn_quiet)
    case (handed t)
    then show ?thesis using Cons.prems(2) by auto
  next
    case kept
    then show ?thesis using Cons.prems(2) by auto
  next
    case (ended e db)
    note f = fail_invalid_rows [OF Cons.prems(2) ended(3)]
    from f(1) obtain f where rows: "turn_runs db = update_rows (\<lambda>t. tr_turn_id t = dpt_turn_id d) f (turn_runs (ap_databases s scope))"
      "\<And>t. tr_turn_id (f t) = tr_turn_id t \<and> dispatch_cursor (f t) = dispatch_cursor t" by blast
    have "due_after c db = due_after c (ap_databases s scope)"
      by (rule due_after_update [OF rows(2,1)]) (use Cons.prems(3) in auto)
    moreover have "\<exists>t0 \<in> set (turn_runs (ap_databases s scope)). tr_turn_id t = tr_turn_id t0 \<and> dispatch_cursor t = dispatch_cursor t0"
      if "t \<in> set (turn_runs db)" for t
      using that rows by (auto simp: update_rows_def split: if_splits)
    ultimately show ?thesis using f(3) ended(4) by simp
  qed
  have rest: "\<not> c < dispatch_cursor t"
    if "t \<in> set (turn_runs (ap_databases s1 scope))" "tr_turn_id t \<in> dpt_turn_id ` set ds" for t
  proof -
    from one that(1) obtain t0 where "t0 \<in> set (turn_runs (ap_databases s scope))"
      "tr_turn_id t = tr_turn_id t0" "dispatch_cursor t = dispatch_cursor t0" by blast
    then show ?thesis using Cons.prems(3) [of t0] that(2) by auto
  qed
  show ?case
  proof (cases x)
    case (Inl e)
    then show ?thesis using Cons.prems(1) x one by simp
  next
    case (Inr u)
    then have "dispatch_batch env scope ds (Cursor (dpt_accepted_at d) (dpt_turn_id d)) s1 = (r, s')"
      using Cons.prems(1) x by simp
    moreover have "store_inv (ap_databases s1 scope)" using one by blast
    ultimately have "store_inv (ap_databases s' scope) \<and>
        due_after c (ap_databases s' scope) = due_after c (ap_databases s1 scope)"
      using rest by (rule Cons.IH)
    then show ?thesis using one by metis
  qed
qed simp

section \<open>The pages make up the queue\<close>

definition without_cursor :: "(storage_error + cursor) \<times> 'x app \<Rightarrow> (storage_error + unit) \<times> 'x app" where
  "without_cursor x = (map_sum id (\<lambda>_. ()) (fst x), snd x)"

lemma pages_whole:
  assumes q: "quiet env" and "store_inv (ap_databases s scope)"
  shows "dispatch_pages env scope n c s = without_cursor (dispatch_batch env scope
    (map to_durable_pending (take (n * nat DISPATCHER_BATCH_LIMIT) (due_after c (ap_databases s scope)))) c s)"
  using assms(2)
proof (induction n arbitrary: c s)
  case (Suc n)
  let ?L = "nat DISPATCHER_BATCH_LIMIT" and ?due = "due_after c (ap_databases s scope)"
  have L: "0 < ?L" by (simp add: DISPATCHER_BATCH_LIMIT_def)
  let ?batch = "map to_durable_pending (take ?L ?due)"
  obtain x s1 where x: "dispatch_batch env scope ?batch c s = (x, s1)" by (rule prod.exhaust)
  have split: "take (Suc n * ?L) ?due = take ?L ?due @ take (n * ?L) (drop ?L ?due)"
    by (simp add: take_add)
  have pages: "dispatch_pages env scope (Suc n) c s =
     (case (x, s1) of (Inl e, s) \<Rightarrow> (Inl e, s)
      | (Inr after, s) \<Rightarrow> if int (length ?batch) < DISPATCHER_BATCH_LIMIT then (Inr (), s)
          else dispatch_pages env scope n after s)"
    using x by (simp add: quiet_read [OF q] scan_due)
  show ?case
  proof (cases x)
    case (Inl e)
    then show ?thesis unfolding pages split map_append dispatch_batch_append x by (simp add: without_cursor_def)
  next
    case (Inr c1)
    show ?thesis
    proof (cases "int (length ?batch) < DISPATCHER_BATCH_LIMIT")
      case True
      then have "length ?due < ?L" by (simp add: DISPATCHER_BATCH_LIMIT_def)
      then have "drop ?L ?due = []" by simp
      then show ?thesis unfolding pages split map_append dispatch_batch_append x using Inr True
        by (simp add: without_cursor_def)
    next
      case False
      then have len: "length ?batch = ?L" by (simp add: DISPATCHER_BATCH_LIMIT_def min_def split: if_splits)
      then have ne: "?due \<noteq> []" "take ?L ?due \<noteq> []" using L by auto
      let ?last = "last (take ?L ?due)"
      have c1: "c1 = dispatch_cursor ?last"
        using dispatch_batch_cursor [OF x [unfolded Inr]] ne(2)
        by (simp add: last_map to_durable_pending_def dispatch_cursor_def)
      note ids = store_invD(5) [OF Suc.prems]
      have beyond: "\<not> c1 < dispatch_cursor t"
        if t: "t \<in> set (turn_runs (ap_databases s scope))" "tr_turn_id t \<in> dpt_turn_id ` set ?batch" for t
      proof -
        from t(2) obtain u where u: "u \<in> set (take ?L ?due)" "tr_turn_id t = tr_turn_id u"
          by (auto simp: to_durable_pending_def)
        then have "u \<in> set (turn_runs (ap_databases s scope))"
          by (auto simp: due_after_eq dest: in_set_takeD)
        then have "t = u" using t(1) u(2) ids by (auto simp: distinct_map inj_on_def)
        have "sorted_wrt (\<lambda>a b. dispatch_cursor a < dispatch_cursor b) (take ?L ?due)"
          using due_rows_sorted [of "ap_databases s scope"] ids
          by (simp add: ids_ok_def due_after_def sorted_wrt_filter sorted_wrt_take)
        from sorted_last_max [OF this u(1)] show ?thesis using c1 \<open>t = u\<close> by simp
      qed
      from dispatch_batch_keeps_rest [OF q x Suc.prems beyond]
      have s1: "store_inv (ap_databases s1 scope)"
        "due_after c1 (ap_databases s1 scope) = due_after c1 (ap_databases s scope)" by blast+
      have "due_after c1 (ap_databases s scope) = drop ?L ?due"
        unfolding c1 using ids L ne(1) by (intro due_after_page) (simp_all add: ids_ok_def)
      then show ?thesis
        unfolding pages split map_append dispatch_batch_append x Inr using False Suc.IH [OF s1(1)] s1(2) by simp
    qed
  qed
qed (simp add: without_cursor_def)

section \<open>What happens to the Turns of a batch\<close>

lemma fail_invalid_messages:
  assumes inv: "store_inv db" and ok: "fail_invalid_durable_turn now i db = Inr (u, db')"
  shows "failure_id_used k db \<Longrightarrow> failure_id_used k db'"
proof -
  from ok obtain to db1 where rec: "record_turn_failure_message_locked now i DURABLE_PAYLOAD_INVALID_PUBLIC_MESSAGE
       (set_failed now i to DURABLE_PAYLOAD_INVALID_ERROR_KIND DURABLE_PAYLOAD_INVALID_ERROR_MESSAGE db) = Inr ((), db1)"
    and m1: "messages db' = messages db1"
    by (rule fail_invalid_ok) (auto split: option.splits if_splits)
  let ?db = "set_failed now i to DURABLE_PAYLOAD_INVALID_ERROR_KIND DURABLE_PAYLOAD_INVALID_ERROR_MESSAGE db"
  have c: "chat_inv ?db" using store_invD(2) [OF inv] by (simp add: set_failed_def)
  from rec obtain m out where "commit_message_locked now m None None ?db = Inr (out, db1)"
    by (auto simp: record_turn_failure_message_locked_def res_simps)
  then have "set (messages ?db) \<subseteq> set (messages db1)"
    by (auto simp: commit_message_locked_eq [OF c] row_simps split: if_splits option.splits)
  then show "failure_id_used k db \<Longrightarrow> failure_id_used k db'"
    using m1 by (auto simp: failure_id_used_def set_failed_def)
qed

lemma fail_invalid_total:
  assumes inv: "store_inv db" and t: "find_turn i db = Some t" "resumable_row t" and free: "\<not> failure_id_used i db"
  shows "\<exists>db'. fail_invalid_durable_turn now i db = Inr ((), db')"
proof -
  obtain s where s: "turn_status db i = Some s" "tr_state t = turn_run_state_display s"
  proof -
    have "t \<in> set (turn_runs db)" using t(1) by (auto simp: find_turn_def dest: find_row_Some)
    then show thesis using that status_of_member [OF inv] row_state_display t(1)
      by (metis find_turn_def find_row_Some option.inject turn_status_Some_iff)
  qed
  have st: "s \<in> {Accepted, InputCommitted, ToolsCompleted}"
    using t(2) s(2) by (cases s) (auto simp: resumable_row_def)
  have json: "tr_scheduled_request_json t \<noteq> None" using t(2) by (simp add: resumable_row_def)
  have m: "find_message (turn_failure_message_id i) (tr_chat_id t) db = None"
    using free by (force simp: failure_id_used_def find_message_def find_row_None_iff has_message_key_def)
  have rs: "read_state_locked i db = Inr s" using s(1) by (simp add: read_state_iff)
  let ?to = "if s = ToolsCompleted \<and> tr_output_published t \<noteq> 0 then Uncertain else Failed"
  from record_set_failed_total [OF inv t(1) m, of now DURABLE_PAYLOAD_INVALID_PUBLIC_MESSAGE ?to
      DURABLE_PAYLOAD_INVALID_ERROR_KIND DURABLE_PAYLOAD_INVALID_ERROR_MESSAGE]
  obtain db1 where "record_turn_failure_message_locked now i DURABLE_PAYLOAD_INVALID_PUBLIC_MESSAGE
      (set_failed now i ?to DURABLE_PAYLOAD_INVALID_ERROR_KIND DURABLE_PAYLOAD_INVALID_ERROR_MESSAGE db) = Inr ((), db1)"
    by blast
  then show ?thesis using rs st json t(1)
    by (simp add: fail_invalid_durable_turn_def Let_def del: insert_iff not_None_eq)
qed

text \<open>The Turn a row is resumed as.\<close>

definition resumed :: "('x, 'z) app_env_scheme \<Rightarrow> turn_row \<Rightarrow> config_snapshot scheduled_turn option" where
  "resumed env row =
     (case deserialize_scheduled_turn (ae_parse env) (the (tr_scheduled_request_json row)) of
        Inr t \<Rightarrow> Some (t\<lparr>sdt_turn_id := tr_turn_id row\<rparr>) | Inl _ \<Rightarrow> None)"

lemma schedule_scheduler:
  assumes "quiet env" "\<not> ap_shutting_down s"
  shows "ap_scheduler (snd (schedule_and_spawn env t s)) = sched_step (Submit t) (ap_scheduler s)"
    "ap_shutting_down (snd (schedule_and_spawn env t s)) = ap_shutting_down s"
  using assms by (auto simp: schedule_and_spawn_def quiet_def Let_def split: prod.split schedule_result.split)

lemma batch_outcome:
  assumes q: "quiet env"
    and "dispatch_batch env scope (map to_durable_pending rows) c s = (Inr c', s')"
    and "store_inv (ap_databases s scope)" "\<not> ap_shutting_down s" "distinct (map tr_turn_id rows)"
    and "\<And>r. r \<in> set rows \<Longrightarrow> find_turn (tr_turn_id r) (ap_databases s scope) = Some r \<and> resumable_row r"
  shows "ap_scheduler s' = run_steps sched_step (map Submit (List.map_filter (resumed env) rows)) (ap_scheduler s) \<and>
    (\<forall>r \<in> set rows. resumed env r = None \<longrightarrow>
       settled (tr_turn_id r) (ap_databases s' scope) \<or> failure_id_used (tr_turn_id r) (ap_databases s' scope)) \<and>
    (\<forall>i. (\<forall>r \<in> set rows. resumed env r = None \<longrightarrow> tr_turn_id r \<noteq> i) \<longrightarrow>
       turn_status (ap_databases s' scope) i = turn_status (ap_databases s scope) i) \<and>
    (\<forall>k. failure_id_used k (ap_databases s scope) \<longrightarrow> failure_id_used k (ap_databases s' scope)) \<and>
    (\<forall>i. settled i (ap_databases s scope) \<longrightarrow> settled i (ap_databases s' scope))"
  using assms(2-)
proof (induction rows arbitrary: c s)
  case (Cons r rows)
  let ?d = "to_durable_pending r" and ?i = "tr_turn_id r"
  have d: "dpt_turn_id ?d = ?i" "dpt_scheduled_request_json ?d = the (tr_scheduled_request_json r)"
    by (simp_all add: to_durable_pending_def)
  obtain x s1 where x: "dispatch_turn env scope ?d s = (x, s1)" by (rule prod.exhaust)
  from Cons.prems(1) x obtain c1 where rest: "dispatch_batch env scope (map to_durable_pending rows) c1 s1 = (Inr c', s')"
    by (auto split: sum.splits)
  note r = Cons.prems(5) [of r, simplified]
  have one: "store_inv (ap_databases s1 scope) \<and> \<not> ap_shutting_down s1 \<and>
      ap_scheduler s1 = run_steps sched_step (map Submit (List.map_filter (resumed env) [r])) (ap_scheduler s) \<and>
      (resumed env r = None \<longrightarrow> settled ?i (ap_databases s1 scope) \<or> failure_id_used ?i (ap_databases s1 scope)) \<and>
      (\<forall>i. (resumed env r = None \<longrightarrow> ?i \<noteq> i) \<longrightarrow> turn_status (ap_databases s1 scope) i = turn_status (ap_databases s scope) i) \<and>
      (\<forall>k. failure_id_used k (ap_databases s scope) \<longrightarrow> failure_id_used k (ap_databases s1 scope)) \<and>
      (\<forall>i. settled i (ap_databases s scope) \<longrightarrow> settled i (ap_databases s1 scope)) \<and>
      (\<forall>j. j \<noteq> ?i \<longrightarrow> find_turn j (ap_databases s1 scope) = find_turn j (ap_databases s scope))"
    using q Cons.prems(2) x
  proof (cases rule: dispatch_turn_quiet)
    case (handed t)
    then show ?thesis using Cons.prems(2,3) schedule_scheduler [OF q Cons.prems(3)] d
      by (simp add: resumed_def List.map_filter_def)
  next
    case kept
    then have "failure_id_used ?i (ap_databases s scope)"
      using fail_invalid_total [OF Cons.prems(2)] r d(1) by (metis Inl_Inr_False)
    then show ?thesis using kept(1,3) Cons.prems(2,3) d by (auto simp: resumed_def List.map_filter_def)
  next
    case (ended e db)
    note f = fail_invalid_rows [OF Cons.prems(2) ended(3) [unfolded d(1)]]
    from f(2) obtain to where to: "to \<in> {Failed, Uncertain}"
      "\<And>j. turn_status db j = (if j = ?i then Some to else turn_status (ap_databases s scope) j)" by blast
    have final: "is_terminal to" using to(1) by auto
    from f(1) obtain g where g: "turn_runs db = update_rows (\<lambda>t. tr_turn_id t = ?i) g (turn_runs (ap_databases s scope))"
      "\<And>t. tr_turn_id (g t) = tr_turn_id t" by blast
    have "find_turn j db = find_turn j (ap_databases s scope)" if "j \<noteq> ?i" for j
    proof -
      have "find_row (\<lambda>t. tr_turn_id t = j) (update_rows (\<lambda>t. tr_turn_id t = ?i) g ts) =
          find_row (\<lambda>t. tr_turn_id t = j) ts" for ts
        using that g(2) by (induction ts) auto
      then show ?thesis by (simp add: find_turn_def g(1))
    qed
    then show ?thesis
      using f(3) to final ended d fail_invalid_messages [OF Cons.prems(2) ended(3)] Cons.prems(3)
      by (auto simp: resumed_def List.map_filter_def settled_def)
  qed
  have prems: "distinct (map tr_turn_id rows)"
    "\<And>r'. r' \<in> set rows \<Longrightarrow> find_turn (tr_turn_id r') (ap_databases s1 scope) = Some r' \<and> resumable_row r'"
  proof -
    show "distinct (map tr_turn_id rows)" using Cons.prems(4) by simp
    fix r' assume r': "r' \<in> set rows"
    then have "tr_turn_id r' \<noteq> ?i" using Cons.prems(4) by (auto simp: image_iff)
    then show "find_turn (tr_turn_id r') (ap_databases s1 scope) = Some r' \<and> resumable_row r'"
      using Cons.prems(5) [of r'] r' one by simp
  qed
  have "store_inv (ap_databases s1 scope)" "\<not> ap_shutting_down s1" using one by blast+
  note IH = Cons.IH [OF rest this prems]
  have steps: "run_steps sched_step (xs @ ys) h = run_steps sched_step ys (run_steps sched_step xs h)" for xs ys h
    by (induction xs arbitrary: h) simp_all
  have "map Submit (List.map_filter (resumed env) (r # rows)) =
      map Submit (List.map_filter (resumed env) [r]) @ map Submit (List.map_filter (resumed env) rows)"
    by (simp add: List.map_filter_def)
  then have sched: "ap_scheduler s' =
      run_steps sched_step (map Submit (List.map_filter (resumed env) (r # rows))) (ap_scheduler s)"
    using one IH steps by metis
  show ?case
  proof (intro conjI sched)
    show "\<forall>r' \<in> set (r # rows). resumed env r' = None \<longrightarrow>
       settled (tr_turn_id r') (ap_databases s' scope) \<or> failure_id_used (tr_turn_id r') (ap_databases s' scope)"
      using one IH by auto
    show "\<forall>i. (\<forall>r' \<in> set (r # rows). resumed env r' = None \<longrightarrow> tr_turn_id r' \<noteq> i) \<longrightarrow>
       turn_status (ap_databases s' scope) i = turn_status (ap_databases s scope) i"
      using one IH by (metis list.set_intros)
    show "\<forall>k. failure_id_used k (ap_databases s scope) \<longrightarrow> failure_id_used k (ap_databases s' scope)"
      using one IH by blast
    show "\<forall>i. settled i (ap_databases s scope) \<longrightarrow> settled i (ap_databases s' scope)"
      using one IH by blast
  qed
qed (simp add: List.map_filter_def)

text \<open>The Turns one scan reaches: the oldest 2048 that can be resumed.\<close>

definition reached :: "database \<Rightarrow> turn_row list" where
  "reached db = take (MAX_PAGES_PER_TICK * nat DISPATCHER_BATCH_LIMIT) (due_after (Cursor '''' '''') db)"


text \<open>A process that cannot read the payload of the one Turn it has.\<close>

definition unreadable_env :: "unit app_env" where
  "unreadable_env = sample_app_env\<lparr>ae_parse := (\<lambda>_. None)\<rparr>"

definition sample_queue_app :: "unit app" where
  "sample_queue_app = set_database Normal sample_accepted sample_app"

lemma sample_queue:
  "quiet unreadable_env" "ap_databases sample_queue_app Normal = sample_accepted" "\<not> ap_shutting_down sample_queue_app"
  "reached sample_accepted = [accepted_row ''t0'' ''T'' sample_params]"
  "resumed unreadable_env (accepted_row ''t0'' ''T'' sample_params) = None"
proof -
  let ?row = "accepted_row ''t0'' ''T'' sample_params"
  show "quiet unreadable_env" by (simp add: quiet_def unreadable_env_def sample_app_env_def)
  show "ap_databases sample_queue_app Normal = sample_accepted" "\<not> ap_shutting_down sample_queue_app"
    by (simp_all add: sample_queue_app_def sample_app_def)
  have "Cursor [] [] < dispatch_cursor ?row" "resumable_row ?row"
    by (simp_all add: dispatch_cursor_def accepted_row_def less_cursor_def resumable_row_def sample_params_def)
  then show "reached sample_accepted = [?row]"
    by (simp add: reached_def due_after_eq sample_accepted_runs MAX_PAGES_PER_TICK_def DISPATCHER_BATCH_LIMIT_def)
  show "resumed unreadable_env ?row = None"
    by (simp add: resumed_def deserialize_scheduled_turn_def unreadable_env_def)
qed

lemma sample_scan_runs: "\<exists>n. fst (dispatch_durable_turns_for_scope unreadable_env Normal sample_queue_app) = Inr n"
proof -
  let ?row = "accepted_row ''t0'' ''T'' sample_params"
  have "find_turn ''T'' sample_accepted = Some ?row" by (simp add: find_turn_def sample_accepted_runs)
  moreover have "resumable_row ?row" by (simp add: resumable_row_def accepted_row_def sample_params_def)
  moreover have "\<not> failure_id_used ''T'' sample_accepted"
    by (simp add: failure_id_used_def sample_accepted_def accepted_def empty_database_def)
  ultimately obtain db
    where db: "fail_invalid_durable_turn (ae_clock unreadable_env sample_queue_app) ''T'' sample_accepted = Inr ((), db)"
    using fail_invalid_total [OF sample_accepted_inv] by blast
  have "dispatch_turn unreadable_env Normal (to_durable_pending ?row) sample_queue_app =
      (Inr (), set_database Normal db sample_queue_app)"
    using db sample_queue(2)
    by (simp add: dispatch_turn_def deserialize_scheduled_turn_def unreadable_env_def terminalize_invalid_durable_turn_def
        quiet_call [OF sample_queue(1), unfolded unreadable_env_def] to_durable_pending_def)
  then have "fst (dispatch_pages unreadable_env Normal MAX_PAGES_PER_TICK (Cursor [] []) sample_queue_app) = Inr ()"
    using pages_whole [OF sample_queue(1), of sample_queue_app Normal MAX_PAGES_PER_TICK "Cursor [] []"]
      sample_accepted_inv sample_queue(2,4)
    by (simp add: reached_def without_cursor_def)
  then show ?thesis
    by (auto simp: dispatch_durable_turns_for_scope_def quiet_read [OF sample_queue(1)] Let_def split: sum.split prod.split)
qed


end
