(* ===== verification/Dispatch_Rejection.thy ===== *)
theory Dispatch_Rejection
  imports Dispatch_Tick
begin

text \<open>
  A Turn that is refused before it runs, because its chain was stopped or a stop condition holds,
  is durably ended before its session moves on, whatever storage calls fail on the way.
\<close>

section \<open>Retried writes\<close>

text \<open>What holds after a write that was reported to have landed.\<close>

lemma retry_result:
  assumes run: "retry_durable_storage_write env attempt is_done s = Some (r, s')" and "P s"
    and others: "\<And>v. P v \<Longrightarrow> P (ae_others env v)"
    and one: "\<And>v x v'. P v \<Longrightarrow> attempt v = (x, v') \<Longrightarrow>
      (case x of Inr _ \<Rightarrow> Q v' | Inl e \<Rightarrow> if is_done e then Q v' else P v')"
  shows "case r of Inr _ \<Rightarrow> Q s' | Inl _ \<Rightarrow> ap_shutting_down s'"
proof -
  have "\<forall>r' s''. (r, s') = (r', s'') \<longrightarrow> P s \<longrightarrow>
      (\<forall>v. P v \<longrightarrow> P (ae_others env v)) \<longrightarrow>
      (\<forall>v x v'. P v \<longrightarrow> attempt v = (x, v') \<longrightarrow>
        (case x of Inr _ \<Rightarrow> Q v' | Inl e \<Rightarrow> if is_done e then Q v' else P v')) \<longrightarrow>
      (case r' of Inr _ \<Rightarrow> Q s'' | Inl _ \<Rightarrow> ap_shutting_down s'')"
  proof (rule retry_durable_storage_write.raw_induct [where P = "\<lambda>env attempt is_done s out.
      \<forall>r' s''. out = (r', s'') \<longrightarrow> P s \<longrightarrow> (\<forall>v. P v \<longrightarrow> P (ae_others env v)) \<longrightarrow>
      (\<forall>v x v'. P v \<longrightarrow> attempt v = (x, v') \<longrightarrow>
        (case x of Inr _ \<Rightarrow> Q v' | Inl e \<Rightarrow> if is_done e then Q v' else P v')) \<longrightarrow>
      (case r' of Inr _ \<Rightarrow> Q s'' | Inl _ \<Rightarrow> ap_shutting_down s'')", OF _ run])
    fix f :: "'a dispatch_env \<Rightarrow> ('a app \<Rightarrow> (storage_error + unit) \<times> 'a app) \<Rightarrow> (storage_error \<Rightarrow> bool) \<Rightarrow>
        'a app \<Rightarrow> ((storage_error + unit) \<times> 'a app) option"
      and env attempt is_done s out
    assume IH: "\<And>env attempt is_done s out. f env attempt is_done s = Some out \<Longrightarrow>
        \<forall>r' s''. out = (r', s'') \<longrightarrow> P s \<longrightarrow> (\<forall>v. P v \<longrightarrow> P (ae_others env v)) \<longrightarrow>
        (\<forall>v x v'. P v \<longrightarrow> attempt v = (x, v') \<longrightarrow>
          (case x of Inr _ \<Rightarrow> Q v' | Inl e \<Rightarrow> if is_done e then Q v' else P v')) \<longrightarrow>
        (case r' of Inr _ \<Rightarrow> Q s'' | Inl _ \<Rightarrow> ap_shutting_down s'')"
      and step: "(case attempt s of
        (Inr u, s) \<Rightarrow> Some (Inr (), s)
      | (Inl e, s) \<Rightarrow>
          if is_done e then Some (Inr (), s)
          else if ap_shutting_down (ae_others env s) then Some (Inl e, ae_others env s)
          else f env attempt is_done (ae_others env (ae_others env s))) = Some out"
    show "\<forall>r' s''. out = (r', s'') \<longrightarrow> P s \<longrightarrow> (\<forall>v. P v \<longrightarrow> P (ae_others env v)) \<longrightarrow>
      (\<forall>v x v'. P v \<longrightarrow> attempt v = (x, v') \<longrightarrow>
        (case x of Inr _ \<Rightarrow> Q v' | Inl e \<Rightarrow> if is_done e then Q v' else P v')) \<longrightarrow>
      (case r' of Inr _ \<Rightarrow> Q s'' | Inl _ \<Rightarrow> ap_shutting_down s'')"
    proof (intro allI impI)
      fix r' s''
      assume out: "out = (r', s'')" and P: "P s" and o: "\<forall>v. P v \<longrightarrow> P (ae_others env v)"
        and one: "\<forall>v x v'. P v \<longrightarrow> attempt v = (x, v') \<longrightarrow>
          (case x of Inr _ \<Rightarrow> Q v' | Inl e \<Rightarrow> if is_done e then Q v' else P v')"
      obtain x v where x: "attempt s = (x, v)" by (rule prod.exhaust)
      note q = one [rule_format, OF P x]
      show "case r' of Inr _ \<Rightarrow> Q s'' | Inl _ \<Rightarrow> ap_shutting_down s''"
      proof (cases x)
        case (Inr u)
        then show ?thesis using step x q out by auto
      next
        case (Inl e)
        show ?thesis
        proof (cases "is_done e \<or> ap_shutting_down (ae_others env v)")
          case True
          then show ?thesis using step x q out Inl by (auto split: if_splits)
        next
          case False
          then have "f env attempt is_done (ae_others env (ae_others env v)) = Some out" "P v"
            using step x q Inl by auto
          from IH [OF this(1)] this(2) show ?thesis using out o one by blast
        qed
      qed
    qed
  qed
  then show ?thesis using assms(2-4) by blast
qed

section \<open>A Turn in the hands of one executor\<close>

definition own_turn :: "('x, 'z) app_env_scheme \<Rightarrow> conversation_scope \<Rightarrow> string \<Rightarrow> bool" where
  "own_turn env scope i = (\<forall>v.
     turn_status (ap_databases (ae_others env v) scope) i = turn_status (ap_databases v scope) i \<and>
     (store_inv (ap_databases v scope) \<longrightarrow> store_inv (ap_databases (ae_others env v) scope)) \<and>
     (\<not> failure_id_used i (ap_databases v scope) \<longrightarrow> \<not> failure_id_used i (ap_databases (ae_others env v) scope)))"

text \<open>A transient failure of the storage does not say that the row is gone or was moved.\<close>

definition honest_faults :: "('x, 'z) app_env_scheme \<Rightarrow> bool" where
  "honest_faults env = (\<forall>v e. ae_fault env v = Some e \<longrightarrow> \<not> gone_or_moved e)"

definition rejected_as :: "turn_run_state \<Rightarrow> turn_run_state" where
  "rejected_as st = (if is_terminal st then st
     else if st = Accepted \<or> st = InputCommitted then Cancelled else Uncertain)"

lemma rejected_as_final: "is_terminal (rejected_as st)"
  by (simp add: rejected_as_def)

definition waiting :: "conversation_scope \<Rightarrow> string \<Rightarrow> turn_run_state \<Rightarrow> 'x app \<Rightarrow> bool" where
  "waiting scope i st v = (store_inv (ap_databases v scope) \<and> turn_status (ap_databases v scope) i = Some st \<and>
     \<not> failure_id_used i (ap_databases v scope))"

lemma own_waiting: "own_turn env scope i \<Longrightarrow> waiting scope i st v \<Longrightarrow> waiting scope i st (ae_others env v)"
  by (simp add: own_turn_def waiting_def)

lemma own_status: "own_turn env scope i \<Longrightarrow>
    turn_status (ap_databases (ae_others env v) scope) i = turn_status (ap_databases v scope) i"
  by (simp add: own_turn_def)

lemma cancel_total:
  assumes "turn_status db i = Some st" "st = Accepted \<or> st = InputCommitted"
  shows "\<exists>db'. cancel_turn now i k d db = Inr ((), db') \<and> turn_status db' i = Some Cancelled"
proof -
  have "read_state_locked i db = Inr st" "can_transition st Cancelled" "\<not> is_terminal st"
    using assms by (auto simp: read_state_iff can_transition_cancelled is_durable_pending_def)
  then show ?thesis using set_failed_status [OF assms(1)] by (simp add: cancel_turn_def)
qed

lemma cancel_ok:
  assumes "st = Accepted \<or> st = InputCommitted" "store_inv db" "turn_status db i = Some st" "\<not> failure_id_used i db"
  shows "\<exists>a db'. cancel_turn now i k d db = Inr (a, db') \<and> turn_status db' i = Some Cancelled"
  using cancel_total [OF assms(3,1)] by blast

lemma fail_ok:
  assumes "\<not> is_terminal st" "store_inv db" "turn_status db i = Some st" "\<not> failure_id_used i db"
  shows "\<exists>a db'. fail_turn now i Uncertain failure db = Inr (a, db') \<and> turn_status db' i = Some Uncertain"
  using fail_turn_settles(1) [OF assms(2,3,1,4), of Uncertain] by blast

text \<open>One attempt ends the Turn, or a fault leaves it as it is.\<close>

lemma call_waiting:
  assumes own: "own_turn env scope i" "honest_faults env" and w: "waiting scope i st v"
    and run: "app_call env scope f v = (x, v')"
    and ok: "\<And>now db. store_inv db \<Longrightarrow> turn_status db i = Some st \<Longrightarrow> \<not> failure_id_used i db \<Longrightarrow>
      \<exists>a db'. f now db = Inr (a, db') \<and> turn_status db' i = Some st'"
  shows "case x of Inr _ \<Rightarrow> turn_status (ap_databases v' scope) i = Some st'
    | Inl e \<Rightarrow> \<not> gone_or_moved e \<and> waiting scope i st v'"
proof -
  let ?v = "ae_others env v"
  note wo = own_waiting [OF own(1) w]
  show ?thesis
  proof (cases "ae_fault env ?v")
    case None
    obtain a db' where "f (ae_clock env ?v) (ap_databases ?v scope) = Inr (a, db')" "turn_status db' i = Some st'"
      using ok [of "ap_databases ?v scope" "ae_clock env ?v"] wo by (auto simp: waiting_def)
    then show ?thesis using run None by (auto simp: app_call_def Let_def)
  next
    case (Some e)
    then have "x = Inl e" "v' = ?v" using run by (auto simp: app_call_def Let_def)
    then show ?thesis using own(2) Some wo by (simp add: honest_faults_def)
  qed
qed

lemma read_waiting:
  assumes own: "own_turn env scope i" "honest_faults env" and w: "waiting scope i st v"
    and run: "app_read env scope (get_turn_run i) v = (x, v')"
  shows "waiting scope i st v' \<and> (case x of Inr t \<Rightarrow> tr_state t = st | Inl e \<Rightarrow> \<not> gone_or_moved e)"
proof -
  let ?v = "ae_others env v"
  note wo = own_waiting [OF own(1) w]
  then have "turn_status (ap_databases ?v scope) i = Some st" by (simp add: waiting_def)
  from get_turn_run_status [OF this] obtain t
    where t: "get_turn_run i (ap_databases ?v scope) = Inr (turn_of_row t st)" by blast
  have s: "set_database scope (ap_databases ?v scope) ?v = ?v" by (simp add: set_database_def)
  have st: "tr_state (turn_of_row t st) = st" by (simp add: turn_of_row_def)
  show ?thesis
  proof (cases "ae_fault env ?v")
    case None
    then have "x = Inr (turn_of_row t st)" "v' = ?v" using run t s by (auto simp: app_read_def app_call_def Let_def)
    then show ?thesis using wo st by simp
  next
    case (Some e)
    then have "x = Inl e" "v' = ?v" using run by (auto simp: app_read_def app_call_def Let_def)
    then show ?thesis using own(2) Some wo by (simp add: honest_faults_def)
  qed
qed

lemma reject_attempt_ends:
  assumes own: "own_turn env scope i" "honest_faults env" and w: "waiting scope i st v"
    and run: "reject_attempt env scope i reason note' v = (x, v')"
  shows "case x of Inr _ \<Rightarrow> turn_status (ap_databases v' scope) i = Some (rejected_as st)
    | Inl e \<Rightarrow> if gone_or_moved e then turn_status (ap_databases v' scope) i = Some (rejected_as st)
        else waiting scope i st v'"
proof -
  obtain y v1 where y: "app_read env scope (get_turn_run i) v = (y, v1)" by (rule prod.exhaust)
  note r = read_waiting [OF own w y]
  show ?thesis
  proof (cases y)
    case (Inl e)
    then show ?thesis using run y r by (auto simp: reject_attempt_def)
  next
    case (Inr t)
    then have st: "tr_state t = st" and w1: "waiting scope i st v1" using r by auto
    show ?thesis
    proof (cases "is_terminal st")
      case True
      then show ?thesis using run y Inr st w1 by (auto simp: reject_attempt_def rejected_as_def waiting_def)
    next
      case open': False
      show ?thesis
      proof (cases "st = Accepted \<or> st = InputCommitted")
        case True
        then have "app_call env scope (\<lambda>now. cancel_turn now i reason note') v1 = (x, v')"
          using run y Inr st open' by (simp add: reject_attempt_def)
        from call_waiting [OF own w1 this cancel_ok [OF True]] show ?thesis
          using open' True by (cases x) (simp_all add: rejected_as_def)
      next
        case False
        then have "app_call env scope (\<lambda>now. fail_turn now i Uncertain
            (turn_failure_with_public reason note' TURN_UNCERTAIN_PUBLIC_MESSAGE)) v1 = (x, v')"
          using run y Inr st open' by (simp add: reject_attempt_def)
        from call_waiting [OF own w1 this fail_ok [OF open']] show ?thesis
          using open' False by (cases x) (simp_all add: rejected_as_def)
      qed
    qed
  qed
qed

lemma rejection_ends:
  assumes "own_turn env scope i" "honest_faults env" "waiting scope i st s"
    and "persist_turn_rejection env scope i reason note' s = Some (Inr u, s')"
  shows "turn_status (ap_databases s' scope) i = Some (rejected_as st)"
proof -
  have "case Inr u :: storage_error + unit of Inr _ \<Rightarrow> turn_status (ap_databases s' scope) i = Some (rejected_as st)
      | Inl _ \<Rightarrow> ap_shutting_down s'"
    by (rule retry_result [OF assms(4) [unfolded persist_turn_rejection_def], where P = "waiting scope i st"])
      (use assms own_waiting reject_attempt_ends in blast)+
  then show ?thesis by simp
qed

text \<open>It does land as soon as the storage answers.\<close>

lemma rejection_lands:
  assumes own: "own_turn env scope i" and w: "waiting scope i st s" and f: "\<And>v. ae_fault env v = None"
  shows "\<exists>s'. persist_turn_rejection env scope i reason note' s = Some (Inr (), s')"
proof -
  have h: "honest_faults env" using f by (simp add: honest_faults_def)
  have call: "\<exists>u v'. app_call env scope g v = (Inr u, v')"
    if v: "waiting scope i st v" and ok: "\<And>now db. store_inv db \<Longrightarrow> turn_status db i = Some st \<Longrightarrow>
        \<not> failure_id_used i db \<Longrightarrow> \<exists>a db'. g now db = Inr (a, db') \<and> turn_status db' i = Some st'"
    for g :: "string \<Rightarrow> database \<Rightarrow> unit tx" and v st'
  proof -
    let ?v = "ae_others env v"
    obtain a db' where "g (ae_clock env ?v) (ap_databases ?v scope) = Inr (a, db')"
      using ok [of "ap_databases ?v scope" "ae_clock env ?v"] own_waiting [OF own v] by (auto simp: waiting_def)
    then show ?thesis by (simp add: app_call_def Let_def f)
  qed
  let ?v = "ae_others env s"
  have "turn_status (ap_databases ?v scope) i = Some st" using own_waiting [OF own w] by (simp add: waiting_def)
  from get_turn_run_status [OF this] obtain t where "get_turn_run i (ap_databases ?v scope) = Inr (turn_of_row t st)"
    by blast
  then obtain v1 where y: "app_read env scope (get_turn_run i) s = (Inr (turn_of_row t st), v1)"
    by (simp add: app_read_def app_call_def Let_def f)
  have st: "tr_state (turn_of_row t st) = st" and w1: "waiting scope i st v1" using read_waiting [OF own h w y] by auto
  have "\<exists>u s'. reject_attempt env scope i reason note' s = (Inr u, s')"
  proof (cases "is_terminal st \<or> st = Accepted \<or> st = InputCommitted")
    case True
    have "st = Accepted \<or> st = InputCommitted \<Longrightarrow>
        \<exists>u v'. app_call env scope (\<lambda>now. cancel_turn now i reason note') v1 = (Inr u, v')"
      by (rule call [OF w1 cancel_ok])
    then show ?thesis using True y st by (auto simp: reject_attempt_def)
  next
    case False
    have "\<exists>u v'. app_call env scope (\<lambda>now. fail_turn now i Uncertain
        (turn_failure_with_public reason note' TURN_UNCERTAIN_PUBLIC_MESSAGE)) v1 = (Inr u, v')"
      by (rule call [OF w1 fail_ok]) (use False in auto)
    then show ?thesis using False y st by (auto simp: reject_attempt_def)
  qed
  then show ?thesis
    by (auto simp: persist_turn_rejection_def retry_durable_storage_write.simps)
qed

section \<open>What the session sees\<close>

lemma store_system_event_turns:
  "store_system_event print uuid now c reason db = Inr (u, db') \<Longrightarrow> turn_runs db' = turn_runs db"
  by (auto simp: store_system_event_def Let_def rbind_Inr_iff store_channel_log_message_def
      commit_conversation_message_def conv_frame_turns dest!: commit_message_frame)

lemma log_event_status:
  assumes "own_turn env scope i"
  shows "turn_status (ap_databases (log_system_event env c reason s) scope) i = turn_status (ap_databases s scope) i"
proof (cases "sc_channel_log_chat_id c")
  case None
  then show ?thesis by (simp add: log_system_event_def)
next
  case (Some n)
  let ?f = "\<lambda>now. store_system_event (ae_print env) (ae_uuid env s 5) now n (stop_reason_display reason)"
  obtain r v where v: "app_call env (sc_scope c) ?f s = (r, v)" by (rule prod.exhaust)
  then have "turn_status (ap_databases v scope) i = turn_status (ap_databases s scope) i"
  proof (cases rule: app_call_cases [OF v])
    case 1
    then show ?thesis using own_status [OF assms] by simp
  next
    case (2 a db)
    have "turn_status db i = turn_status (ap_databases (ae_others env s) (sc_scope c)) i"
      using store_system_event_turns [OF 2(3)] turn_status_cong by blast
    then show ?thesis using 2(2) own_status [OF assms] by (cases "scope = sc_scope c") simp_all
  qed
  then show ?thesis using v Some by (simp add: log_system_event_def)
qed

lemma finish_observer_status:
  "own_turn env scope i \<Longrightarrow>
   turn_status (ap_databases (finish_observer env t message s) scope) i = turn_status (ap_databases s scope) i"
  by (simp add: finish_observer_def finish_turn_observer_def on_observers_databases own_status split: option.split)

lemma on_tracker_waiting:
  "own_turn env scope i \<Longrightarrow> on_tracker env f s = (a, v) \<Longrightarrow> waiting scope i st s \<Longrightarrow> waiting scope i st v"
  using on_tracker_fields [of env f s a v] own_waiting [of env scope i st s] by (auto simp: waiting_def)

lemma upsert_keeps:
  "store_inv db \<Longrightarrow> store_inv (upsert_turn_origin now origin r db)"
  "failure_id_used i (upsert_turn_origin now origin r db) = failure_id_used i db"
proof -
  let ?db' = "upsert_turn_origin now origin r db"
  have same: "turn_runs ?db' = turn_runs db" "messages ?db' = messages db" "chats ?db' = chats db" "sessions ?db' = sessions db"
    by (simp_all add: upsert_turn_origin_def)
  then show "store_inv db \<Longrightarrow> store_inv ?db'"
    using chats_change_evolves [OF _ same(1,2)] chat_inv_cong [of ?db' db] store_invD(2)
    by (auto simp: store_evolves_def)
  show "failure_id_used i ?db' = failure_id_used i db" using same by (simp add: failure_id_used_def)
qed

text \<open>Storing the reason for which the chain ends leaves the Turn alone, on every attempt.\<close>

lemma origin_reason_waiting:
  assumes own: "own_turn env scope i" and w: "waiting scope i st s"
    and run: "persist_origin_terminal_reason env scope origin reason s = Some (Inr u, s')"
  shows "waiting scope i st s'"
proof -
  have keeps: "waiting scope i st (set_database scope (upsert_turn_origin now origin r (ap_databases v scope)) v)"
    if "waiting scope i st v" for now r v
    using that by (simp add: waiting_def upsert_keeps upsert_turn_status)
  have "case Inr u :: storage_error + unit of Inr _ \<Rightarrow> waiting scope i st s' | Inl _ \<Rightarrow> ap_shutting_down s'"
    by (rule retry_result [OF run [unfolded persist_origin_terminal_reason_def], where P = "waiting scope i st"])
      (auto simp: app_call_def Let_def w intro!: keeps own_waiting [OF own] split: option.splits)
  then show ?thesis by simp
qed

lemma unit_result: "(\<forall>x. (a :: 'e + unit) \<noteq> Inl x) = (a = Inr ())"
  by (cases a) auto


text \<open>Without storage failures the Turn of a stopped chain is refused.\<close>

lemma stopped_chain_refused:
  assumes own: "own_turn env scope i" and w: "waiting scope i st s" and f: "\<And>v. ae_fault env v = None"
    and t: "sdt_turn_id t = i" "sc_scope (sdt_context t) = scope" "sdt_origin_id t \<noteq> []"
    and up: "\<not> ap_shutting_down (ae_others env s)"
    and stopped: "on_tracker env (\<lambda>now. terminal_reason now (sdt_origin_id t)) (ae_others env s) = (Some reason, v)"
  shows "\<exists>key s'. prepare_scheduled_turn env t s = Some (DroppedAndDrain key, s')"
proof -
  note wv = on_tracker_waiting [OF own stopped own_waiting [OF own w]]
  obtain v' where "persist_turn_rejection env scope i (stop_reason_display reason)
      ''origin chain already terminated'' v = Some (Inr (), v')"
    using rejection_lands [OF own wv f] by blast
  then show ?thesis using up stopped by (simp add: prepare_scheduled_turn_def Let_def t)
qed

text \<open>A process with one accepted Turn of a chain that the model's failure has stopped.\<close>

definition sample_dispatch_env :: "unit app loop_env \<Rightarrow> unit dispatch_env" where
  "sample_dispatch_env loop =
     \<lparr>ae_others = (\<lambda>s. s), ae_fault = (\<lambda>_. None), ae_clock = (\<lambda>_. ''t1''), ae_instant = (\<lambda>_. 0),
      ae_uuid = (\<lambda>_ _. ''u''), ae_config = ae_config sample_app_env, ae_print = unary_print,
      ae_parse = unary_parse, ae_sha256_hex = id,
      de_loop = loop, de_channels = (\<lambda>_. False), de_recent = (\<lambda>_. True)\<rparr>"

definition sample_stopped_app :: "unit app" where
  "sample_stopped_app = (set_database Normal sample_accepted sample_app)
     \<lparr>ap_tracker := [(''o'', (new_origin 0)\<lparr>os_terminal := Some stop_reason.LlmFailure\<rparr>)]\<rparr>"

definition sample_queued_turn :: "config_snapshot scheduled_turn" where
  "sample_queued_turn = sample_request\<lparr>sdt_turn_id := ''T'', sdt_origin_id := ''o''\<rparr>"


end
