(* ===== verification/Spec2Isabelle.thy ===== *)
theory Spec2Isabelle
  imports Loop_Requests Turn_Scheduler Sleep_Properties Pulse_Settles Pulse_Wake
    Session_Persist Text_Split Turn_Observer Dispatch_Rejection
begin

text \<open>
  EgoPulse is a chat-agent runtime: messages arrive from channels, become Turns, run a model
  loop with tools and are answered; the state that must survive a crash is in SQLite.

  \<^bold>\<open>Parts.\<close> \<open>Prelude\<close> holds results, strings, tables and the generic contracts.
  \<open>Storage_Types\<close> and \<open>Db_Schema\<close> are the enums, errors and rows of
  \<open>src/src/storage/mod.rs\<close> and \<open>src/src/storage/migration.rs\<close>. \<open>Chat_Store\<close>,
  \<open>Chat_History\<close> and \<open>Staged_Followups\<close> are \<open>src/src/storage/chat.rs\<close>; \<open>Turn_Store\<close> is
  \<open>src/src/storage/turn.rs\<close>, with its life cycle in \<open>Turn_Lifecycle\<close>, its steps in
  \<open>Turn_Steps\<close> and the properties of runs in \<open>Turn_Runs\<close>.
\<close>

end
